(* ===== verification/GoBase.thy ===== *)
theory GoBase
  imports Main "HOL-Library.Word"
begin

text \<open>
  The prelude: what the models use of Go itself and the generic facts the components share.

  \<^item> Go strings and byte slices are lists of bytes, HOL's \<open>string\<close> (a \<open>char\<close> is 8 bits).
  \<^item> Runes are integers; \<open>decode_rune\<close> and \<open>encode_rune\<close> are
    \<open>utf8.DecodeRune\<close> and \<open>utf8.AppendRune\<close> of the Go standard library.
  \<^item> PHP integers (\<open>ZInt\<close>, Go's \<open>int64\<close>) are 64-bit words.
  \<^item> The functions of \<open>strings\<close> and \<open>strconv\<close> the source calls.
\<close>

named_theorems go_simps \<open>unfolding rules for the small helpers of the Go library\<close>

type_synonym bytes = string
type_synonym rune = int
type_synonym zint = "64 word"

section \<open>Bytes and runes\<close>

definition byte :: "char \<Rightarrow> int" where
  "byte c = of_char c"

definition chr_byte :: "int \<Rightarrow> char" where
  "chr_byte i = char_of i"

definition rune_eof :: rune where
  "rune_eof = -1"

definition rune_error :: rune where
  "rune_error = 65533"

lemma byte_bounds: "0 \<le> byte c" "byte c < 256"
  by (cases c; simp add: byte_def)+

lemma chr_byte_byte [simp]: "chr_byte (byte c) = c"
  by (simp add: byte_def chr_byte_def)

lemma byte_eq_iff: "byte c = byte d \<longleftrightarrow> c = d"
  by (metis chr_byte_byte)

text \<open>A continuation byte lies in \<open>0x80..0xBF\<close>; the second byte has a narrower range after
  the lead bytes E0, ED, F0 and F4 (no overlong forms, no surrogates, nothing above U+10FFFF).\<close>

definition in_range :: "char \<Rightarrow> int \<Rightarrow> int \<Rightarrow> bool" where
  "in_range c lo hi = (lo \<le> byte c \<and> byte c \<le> hi)"

definition utf8_lo :: "int \<Rightarrow> int" where
  "utf8_lo b0 = (if b0 = 224 then 160 else if b0 = 240 then 144 else 128)"

definition utf8_hi :: "int \<Rightarrow> int" where
  "utf8_hi b0 = (if b0 = 237 then 159 else if b0 = 244 then 143 else 191)"

fun decode_rune :: "bytes \<Rightarrow> rune \<times> nat" where
  "decode_rune [] = (rune_error, 0)"
| "decode_rune (c0 # cs) =
     (let b0 = byte c0 in
      if b0 < 128 then (b0, 1)
      else if 194 \<le> b0 \<and> b0 \<le> 223 then
        (case cs of
           c1 # _ \<Rightarrow> if in_range c1 128 191
                     then ((b0 - 192) * 64 + (byte c1 - 128), 2) else (rune_error, 1)
         | _ \<Rightarrow> (rune_error, 1))
      else if 224 \<le> b0 \<and> b0 \<le> 239 then
        (case cs of
           c1 # c2 # _ \<Rightarrow>
             if in_range c1 (utf8_lo b0) (utf8_hi b0) \<and> in_range c2 128 191
             then ((b0 - 224) * 4096 + (byte c1 - 128) * 64 + (byte c2 - 128), 3)
             else (rune_error, 1)
         | _ \<Rightarrow> (rune_error, 1))
      else if 240 \<le> b0 \<and> b0 \<le> 244 then
        (case cs of
           c1 # c2 # c3 # _ \<Rightarrow>
             if in_range c1 (utf8_lo b0) (utf8_hi b0) \<and> in_range c2 128 191 \<and> in_range c3 128 191
             then ((b0 - 240) * 262144 + (byte c1 - 128) * 4096
                   + (byte c2 - 128) * 64 + (byte c3 - 128), 4)
             else (rune_error, 1)
         | _ \<Rightarrow> (rune_error, 1))
      else (rune_error, 1))"

text \<open>\<open>utf8.AppendRune\<close>: a rune outside the Unicode scalar values is encoded as U+FFFD.\<close>

fun encode_rune :: "rune \<Rightarrow> bytes" where
  "encode_rune r =
     (let r = (if r < 0 \<or> 1114111 < r \<or> (55296 \<le> r \<and> r \<le> 57343) then rune_error else r) in
      if r < 128 then [chr_byte r]
      else if r < 2048 then [chr_byte (192 + r div 64), chr_byte (128 + r mod 64)]
      else if r < 65536 then
        [chr_byte (224 + r div 4096), chr_byte (128 + r div 64 mod 64), chr_byte (128 + r mod 64)]
      else [chr_byte (240 + r div 262144), chr_byte (128 + r div 4096 mod 64),
            chr_byte (128 + r div 64 mod 64), chr_byte (128 + r mod 64)])"

declare encode_rune.simps [simp del] decode_rune.simps [simp del]

lemma decode_rune_Nil [simp]: "decode_rune [] = (rune_error, 0)"
  by (simp add: decode_rune.simps)

lemma decode_rune_ascii: "byte c < 128 \<Longrightarrow> decode_rune (c # cs) = (byte c, 1)"
  by (simp add: decode_rune.simps)

lemma chr_byteI: "x = byte c \<Longrightarrow> chr_byte x = c"
  by simp

lemma digit_split:
  fixes q b m :: int
  assumes "0 \<le> b" "b < m"
  shows "(q * m + b) div m = q" "(q * m + b) mod m = b"
  using assms by auto

lemma encode_decode_rune2:
  fixes a b :: int
  assumes "194 \<le> a" "a \<le> 223" "128 \<le> b" "b \<le> 191" "r = (a - 192) * 64 + (b - 128)"
  shows "128 \<le> r" "r < 2048" "192 + r div 64 = a" "128 + r mod 64 = b"
  unfolding assms(5) using assms(1-4) digit_split[of "b - 128" 64 "a - 192"]
  by (linarith | simp only: diff_add_cancel)+

lemma encode_rune_4:
  "65536 \<le> r \<Longrightarrow> r \<le> 1114111 \<Longrightarrow>
   encode_rune r = [chr_byte (240 + r div 262144), chr_byte (128 + r div 4096 mod 64),
            chr_byte (128 + r div 64 mod 64), chr_byte (128 + r mod 64)]"
  by (simp add: encode_rune.simps)

lemma encode_rune_3:
  "2048 \<le> r \<Longrightarrow> r < 65536 \<Longrightarrow> \<not> (55296 \<le> r \<and> r \<le> 57343) \<Longrightarrow>
   encode_rune r =
     [chr_byte (224 + r div 4096), chr_byte (128 + r div 64 mod 64), chr_byte (128 + r mod 64)]"
  by (auto simp: encode_rune.simps)

lemma utf8_second:
  assumes "utf8_lo a \<le> b" "b \<le> utf8_hi a"
  shows "128 \<le> b" "b \<le> 191" "a = 224 \<Longrightarrow> 160 \<le> b" "a = 237 \<Longrightarrow> b \<le> 159"
    "a = 240 \<Longrightarrow> 144 \<le> b" "a = 244 \<Longrightarrow> b \<le> 143"
  using assms by (auto simp: utf8_lo_def utf8_hi_def split: if_splits)

lemma encode_decode_rune3:
  fixes a b c :: int
  assumes "224 \<le> a" "a \<le> 239" "utf8_lo a \<le> b" "b \<le> utf8_hi a" "128 \<le> c" "c \<le> 191"
    and r: "r = (a - 224) * 4096 + (b - 128) * 64 + (c - 128)"
  shows "2048 \<le> r" "r < 65536" "\<not> (55296 \<le> r \<and> r \<le> 57343)"
    "224 + r div 4096 = a" "128 + r div 64 mod 64 = b" "128 + r mod 64 = c"
proof -
  note b = utf8_second[OF assms(3,4)]
  have "160 \<le> b \<or> 225 \<le> a" using b(3) assms(1) by (cases "a = 224") auto
  then show "2048 \<le> r" using b(1) assms(1,5) r by (auto simp: algebra_simps)
  show "r < 65536" using b(2) assms(2,6) r by (auto simp: algebra_simps)
  have "a \<le> 236 \<or> (a = 237 \<and> b \<le> 159) \<or> 238 \<le> a" using b(4) by (cases "a = 237") auto
  then show "\<not> (55296 \<le> r \<and> r \<le> 57343)"
    using b(1,2) assms(5,6) r by (auto simp: algebra_simps)
  have 1: "r = ((a - 224) * 64 + (b - 128)) * 64 + (c - 128)"
    and 2: "r = (a - 224) * 4096 + ((b - 128) * 64 + (c - 128))"
    using r by simp_all
  show "128 + r mod 64 = c" unfolding 1 using assms(5,6) by (subst digit_split(2)) auto
  show "128 + r div 64 mod 64 = b"
    unfolding 1 using assms(5,6) b(1,2) by (subst digit_split(1), simp, simp, subst digit_split(2)) auto
  show "224 + r div 4096 = a" unfolding 2 using assms(5,6) b(1,2) by (subst digit_split(1)) auto
qed

lemma encode_decode_rune4:
  fixes a b c d :: int
  assumes "240 \<le> a" "a \<le> 244" "utf8_lo a \<le> b" "b \<le> utf8_hi a" "128 \<le> c" "c \<le> 191"
    and "128 \<le> d" "d \<le> 191"
    and r: "r = (a - 240) * 262144 + (b - 128) * 4096 + (c - 128) * 64 + (d - 128)"
  shows "65536 \<le> r" "r \<le> 1114111"
    "240 + r div 262144 = a" "128 + r div 4096 mod 64 = b" "128 + r div 64 mod 64 = c"
    "128 + r mod 64 = d"
proof -
  note b = utf8_second[OF assms(3,4)]
  have "144 \<le> b \<or> 241 \<le> a" using b(5) assms(1) by (cases "a = 240") auto
  then show "65536 \<le> r" using b(1) assms(1,5,7) r by (auto simp: algebra_simps)
  have "b \<le> 143 \<or> a \<le> 243" using b(6) assms(2) by (cases "a = 244") auto
  then show "r \<le> 1114111" using b(2) assms(2,6,8) r by (auto simp: algebra_simps)
  have 1: "r = (((a - 240) * 64 + (b - 128)) * 64 + (c - 128)) * 64 + (d - 128)"
    and 2: "r = ((a - 240) * 64 + (b - 128)) * 4096 + ((c - 128) * 64 + (d - 128))"
    and 3: "r = (a - 240) * 262144 + ((b - 128) * 4096 + (c - 128) * 64 + (d - 128))"
    using r by simp_all
  show "128 + r mod 64 = d" unfolding 1 using assms(7,8) by (subst digit_split(2)) auto
  show "128 + r div 64 mod 64 = c"
    unfolding 1 using assms(5-8) by (subst digit_split(1), simp, simp, subst digit_split(2)) auto
  show "128 + r div 4096 mod 64 = b"
    unfolding 2 using assms(5-8) b(1,2) by (subst digit_split(1), simp, simp, subst digit_split(2)) auto
  show "240 + r div 262144 = a"
    unfolding 3 using assms(5-8) b(1,2) by (subst digit_split(1)) auto
qed

text \<open>Encoding the rune decoded at the head of a byte string gives back the bytes it was decoded
  from, unless decoding failed (which Go reports as \<open>RuneError\<close> of width 1).\<close>

lemma encode_decode_rune:
  assumes "decode_rune s = (r, w)" "s \<noteq> []" "r \<noteq> rune_error \<or> w \<noteq> 1"
  shows "encode_rune r = take w s"
proof -
  obtain c0 cs where s: "s = c0 # cs" using assms(2) by (cases s) auto
  note b0 = byte_bounds[of c0]
  consider (one) "byte c0 < 128"
    | (two) "194 \<le> byte c0" "byte c0 \<le> 223"
    | (three) "224 \<le> byte c0" "byte c0 \<le> 239"
    | (four) "240 \<le> byte c0" "byte c0 \<le> 244"
    | (bad) "128 \<le> byte c0" "\<not> (194 \<le> byte c0 \<and> byte c0 \<le> 244)"
    by linarith
  then show ?thesis
  proof cases
    case one
    then show ?thesis using assms(1) b0 by (auto simp: s decode_rune.simps encode_rune.simps)
  next
    case two
    then obtain c1 cs' where c: "cs = c1 # cs'" "128 \<le> byte c1" "byte c1 \<le> 191" "w = 2"
      and r: "r = (byte c0 - 192) * 64 + (byte c1 - 128)"
      using assms(1,3) by (auto simp: s decode_rune.simps in_range_def Let_def split: if_splits list.splits)
    show ?thesis using encode_decode_rune2[OF two c(2,3) r] by (simp add: s c encode_rune.simps)
  next
    case three
    then obtain c1 c2 cs' where c: "cs = c1 # c2 # cs'" "w = 3"
        "utf8_lo (byte c0) \<le> byte c1" "byte c1 \<le> utf8_hi (byte c0)"
        "128 \<le> byte c2" "byte c2 \<le> 191"
      and r: "r = (byte c0 - 224) * 4096 + (byte c1 - 128) * 64 + (byte c2 - 128)"
      using assms(1,3) by (auto simp: s decode_rune.simps in_range_def Let_def split: if_splits list.splits)
    note e = encode_decode_rune3[OF three c(3-6) r]
    show ?thesis unfolding encode_rune_3[OF e(1,2,3)] by (simp add: s c(1,2) e(4-6))
  next
    case four
    then obtain c1 c2 c3 cs' where c: "cs = c1 # c2 # c3 # cs'" "w = 4"
        "utf8_lo (byte c0) \<le> byte c1" "byte c1 \<le> utf8_hi (byte c0)"
        "128 \<le> byte c2" "byte c2 \<le> 191" "128 \<le> byte c3" "byte c3 \<le> 191"
      and r: "r = (byte c0 - 240) * 262144 + (byte c1 - 128) * 4096 + (byte c2 - 128) * 64
                  + (byte c3 - 128)"
      using assms(1,3) by (auto simp: s decode_rune.simps in_range_def Let_def split: if_splits list.splits)
    note e = encode_decode_rune4[OF four c(3-8) r]
    show ?thesis unfolding encode_rune_4[OF e(1,2)] by (simp add: s c(1,2) e(3-6))
  next
    case bad
    then show ?thesis using assms(1,3) by (auto simp: s decode_rune.simps split: if_splits)
  qed
qed

lemma decode_rune_width_pos: "s \<noteq> [] \<Longrightarrow> decode_rune s = (r, w) \<Longrightarrow> 0 < w"
  by (cases s) (auto simp: decode_rune.simps Let_def split: if_splits list.splits)

lemma decode_rune_width_le: "decode_rune s = (r, w) \<Longrightarrow> w \<le> length s"
  by (cases s) (auto simp: decode_rune.simps Let_def split: if_splits list.splits)

lemma utf8_lo_ge: "128 \<le> utf8_lo a"
  by (simp add: utf8_lo_def)

lemma decode_rune_nonneg: "decode_rune s = (r, w) \<Longrightarrow> 0 \<le> r"
  using byte_bounds(1)[of "hd s"]
  by (cases s)
     (auto simp: decode_rune.simps Let_def rune_error_def in_range_def
       split: if_splits list.splits dest: order_trans[OF utf8_lo_ge])

end
