(* ===== verification/GoStrings.thy ===== *)
theory GoStrings
  imports GoBase
begin

text \<open>
  The functions of Go's \<^verbatim>\<open>strings\<close> and \<^verbatim>\<open>strconv\<close> packages the source calls, on byte
  lists, with the facts the components use about them: decimal formatting and parsing are
  inverse to each other, and a formatted integer is canonical.
\<close>

section \<open>Searching\<close>

definition has_prefix :: "bytes \<Rightarrow> bytes \<Rightarrow> bool" where
  "has_prefix s p = (take (length p) s = p)"

text \<open>\<open>strings.Index\<close>: the first offset of \<open>p\<close> in \<open>s\<close>, or \<open>None\<close> for -1.\<close>

fun index_sub :: "bytes \<Rightarrow> bytes \<Rightarrow> nat option" where
  "index_sub [] p = (if p = [] then Some 0 else None)"
| "index_sub (c # cs) p =
     (if has_prefix (c # cs) p then Some 0 else map_option Suc (index_sub cs p))"

text \<open>\<open>strings.IndexRune(valid, r) >= 0\<close> for a string of ASCII characters.\<close>

definition contains_rune :: "bytes \<Rightarrow> rune \<Rightarrow> bool" where
  "contains_rune valid r = list_ex (\<lambda>c. byte c = r) valid"

text \<open>\<open>strings.Split\<close> at one byte and \<open>strings.Join\<close> with it.\<close>

fun split_on :: "char \<Rightarrow> bytes \<Rightarrow> bytes list" where
  "split_on d [] = [[]]"
| "split_on d (c # cs) =
     (if c = d then [] # split_on d cs
      else (case split_on d cs of [] \<Rightarrow> [[c]] | l # ls \<Rightarrow> (c # l) # ls))"

fun join_with :: "char \<Rightarrow> bytes list \<Rightarrow> bytes" where
  "join_with d [] = []"
| "join_with d [l] = l"
| "join_with d (l # ls) = l @ [d] @ join_with d ls"

text \<open>\<open>strings.ReplaceAll(s, "_", "")\<close>.\<close>

definition strip_underscores :: "bytes \<Rightarrow> bytes" where
  "strip_underscores s = filter (\<lambda>c. c \<noteq> CHR ''_'') s"

lemma split_on_nonempty [simp]: "split_on d s \<noteq> []"
  by (cases s) (auto split: list.splits)

lemma join_split [simp]: "join_with d (split_on d s) = s"
proof (induction s)
  case (Cons c cs)
  then show ?case
    by (cases "split_on d cs"; cases "tl (split_on d cs)") auto
qed simp

lemma has_prefix_iff: "has_prefix s p \<longleftrightarrow> (\<exists>t. s = p @ t)"
  unfolding has_prefix_def by (metis append_eq_conv_conj append_take_drop_id)

section \<open>Lower case\<close>

text \<open>
  \<open>strings.ToLower\<close> maps rune by rune. The source compares its results with ASCII words only,
  so the model lowers the ASCII letters and the two code points whose lower case is ASCII
  (U+0130 and U+212A) and leaves every other rune as it is: a result with such a rune is not
  ASCII in Go either.
\<close>

definition lower_rune :: "rune \<Rightarrow> rune" where
  "lower_rune r =
     (if 65 \<le> r \<and> r \<le> 90 then r + 32
      else if r = 304 then 105
      else if r = 8490 then 107
      else r)"

function go_to_lower :: "bytes \<Rightarrow> bytes" where
  "go_to_lower [] = []"
| "go_to_lower (c # cs) =
     (case decode_rune (c # cs) of (r, w) \<Rightarrow>
        encode_rune (lower_rune r) @ go_to_lower (drop w (c # cs)))"
  by pat_completeness auto
termination
proof (relation "measure length")
  fix c cs r w
  assume "(r, w) = decode_rune (c # cs)"
  then have "0 < w" using decode_rune_width_pos[of "c # cs" r w] by simp
  then show "(drop w (c # cs), c # cs) \<in> measure length" by (cases w) auto
qed simp

text \<open>The ASCII-only lowering of one byte, which PHP and \<open>ZString.ToLower\<close> use.\<close>

definition ascii_lower :: "char \<Rightarrow> char" where
  "ascii_lower c = (if 65 \<le> byte c \<and> byte c \<le> 90 then chr_byte (byte c + 32) else c)"

lemma go_to_lower_ascii:
  "\<forall>c \<in> set s. byte c < 128 \<Longrightarrow> go_to_lower s = map ascii_lower s"
proof (induction s)
  case (Cons c cs)
  have c: "byte c < 128" "0 \<le> byte c" using Cons.prems byte_bounds by auto
  have "decode_rune (c # cs) = (byte c, 1)" using c by (simp add: decode_rune_ascii)
  moreover have "encode_rune (lower_rune (byte c)) = [ascii_lower c]"
    using c by (auto simp: encode_rune.simps lower_rune_def ascii_lower_def)
  ultimately show ?case using Cons by simp
qed simp

section \<open>Decimal integers\<close>

text \<open>\<open>strconv.FormatInt(i, 10)\<close>.\<close>

definition digit_char :: "nat \<Rightarrow> char" where
  "digit_char d = chr_byte (48 + int d)"

fun format_nat :: "nat \<Rightarrow> bytes" where
  "format_nat n = (if n < 10 then [digit_char n] else format_nat (n div 10) @ [digit_char (n mod 10)])"

declare format_nat.simps [simp del]

definition format_int :: "int \<Rightarrow> bytes" where
  "format_int i = (if i < 0 then CHR ''-'' # format_nat (nat (- i)) else format_nat (nat i))"

definition is_digit :: "char \<Rightarrow> bool" where
  "is_digit c = (48 \<le> byte c \<and> byte c \<le> 57)"

definition digit_val :: "char \<Rightarrow> nat" where
  "digit_val c = nat (byte c - 48)"

fun parse_digits :: "nat \<Rightarrow> bytes \<Rightarrow> nat option" where
  "parse_digits acc [] = Some acc"
| "parse_digits acc (c # cs) =
     (if is_digit c then parse_digits (10 * acc + digit_val c) cs else None)"

definition parse_nat :: "bytes \<Rightarrow> nat option" where
  "parse_nat s = (if s = [] then None else parse_digits 0 s)"

text \<open>\<open>strconv.ParseInt(s, 10, 64)\<close>: an optional sign, then digits; \<open>None\<close> stands for both
  errors, syntax and range. The callers do not look at which one it was.\<close>

definition int64_min :: int where "int64_min = - (2 ^ 63)"
definition int64_max :: int where "int64_max = 2 ^ 63 - 1"

definition split_sign :: "bytes \<Rightarrow> bool \<times> bytes" where
  "split_sign s =
     (case s of
        c # cs \<Rightarrow> if c = CHR ''-'' then (True, cs)
                  else if c = CHR ''+'' then (False, cs) else (False, s)
      | [] \<Rightarrow> (False, []))"

definition int64_of :: "bool \<Rightarrow> nat \<Rightarrow> int option" where
  "int64_of neg n =
     (let v = (if neg then - int n else int n) in
      if int64_min \<le> v \<and> v \<le> int64_max then Some v else None)"

definition parse_int64 :: "bytes \<Rightarrow> int option" where
  "parse_int64 s =
     (case parse_nat (snd (split_sign s)) of
        None \<Rightarrow> None
      | Some n \<Rightarrow> int64_of (fst (split_sign s)) n)"

lemma byte_chr_byte: "0 \<le> i \<Longrightarrow> i < 256 \<Longrightarrow> byte (chr_byte i) = i"
  by (simp add: byte_def chr_byte_def)

lemma digit_char_digit: "d < 10 \<Longrightarrow> is_digit (digit_char d) \<and> digit_val (digit_char d) = d"
  by (simp add: is_digit_def digit_val_def digit_char_def byte_chr_byte)

lemma digit_char_val: "is_digit c \<Longrightarrow> digit_char (digit_val c) = c"
  by (simp add: is_digit_def digit_val_def digit_char_def)

lemma digit_val_lt: "is_digit c \<Longrightarrow> digit_val c < 10"
  by (auto simp: is_digit_def digit_val_def)

lemma parse_digits_append:
  "parse_digits acc (s @ t) = (case parse_digits acc s of None \<Rightarrow> None | Some v \<Rightarrow> parse_digits v t)"
  by (induction s arbitrary: acc) auto

lemma format_nat_nonempty [simp]: "format_nat n \<noteq> []"
  by (subst format_nat.simps) simp

lemma parse_format_nat_aux: "parse_digits 0 (format_nat n) = Some n"
proof (induction n rule: format_nat.induct)
  case (1 n)
  show ?case
  proof (cases "n < 10")
    case True
    then show ?thesis by (subst format_nat.simps) (simp add: digit_char_digit)
  next
    case False
    then have "parse_digits 0 (format_nat (n div 10)) = Some (n div 10)" using 1 by simp
    moreover have "10 * (n div 10) + n mod 10 = n" by presburger
    ultimately show ?thesis using False
      by (subst format_nat.simps) (simp add: parse_digits_append digit_char_digit)
  qed
qed

lemma parse_format_nat [simp]: "parse_nat (format_nat n) = Some n"
  by (simp add: parse_nat_def parse_format_nat_aux)

lemma format_nat_digits: "\<forall>c \<in> set (format_nat n). is_digit c"
proof (induction n rule: format_nat.induct)
  case (1 n)
  show ?case
  proof (cases "n < 10")
    case True
    then show ?thesis by (subst format_nat.simps) (simp add: digit_char_digit)
  next
    case False
    then have "\<forall>c \<in> set (format_nat (n div 10)). is_digit c" using 1 by simp
    with False show ?thesis by (subst format_nat.simps) (simp add: digit_char_digit)
  qed
qed

lemma hd_format_nat: "is_digit (hd (format_nat n))"
  using format_nat_digits[of n] by simp

lemma sign_not_digit [simp]: "\<not> is_digit (CHR ''-'')" "\<not> is_digit (CHR ''+'')"
  by (simp_all add: is_digit_def byte_def)

lemma parse_format_int:
  assumes "int64_min \<le> i" "i \<le> int64_max"
  shows "parse_int64 (format_int i) = Some i"
proof (cases "i < 0")
  case True
  then show ?thesis using assms
    by (simp add: parse_int64_def format_int_def split_sign_def int64_of_def)
next
  case False
  obtain c cs where f: "format_nat (nat i) = c # cs" by (cases "format_nat (nat i)") auto
  then have "is_digit c" using hd_format_nat[of "nat i"] by simp
  then have "c \<noteq> CHR ''-''" "c \<noteq> CHR ''+''" by auto
  with False f assms show ?thesis
    using parse_format_nat[of "nat i"] by (simp add: parse_int64_def format_int_def split_sign_def int64_of_def)
qed

lemma format_int_inj:
  assumes "int64_min \<le> i" "i \<le> int64_max" "int64_min \<le> j" "j \<le> int64_max"
    and "format_int i = format_int j"
  shows "i = j"
  by (metis assms option.inject parse_format_int)

lemma int64_of_range: "int64_of neg n = Some v \<Longrightarrow> int64_min \<le> v \<and> v \<le> int64_max"
  by (simp add: int64_of_def Let_def split: if_split_asm)

lemma parse_int64_range: "parse_int64 s = Some v \<Longrightarrow> int64_min \<le> v \<and> v \<le> int64_max"
  by (auto simp: parse_int64_def dest: int64_of_range split: option.splits)

section \<open>Hexadecimal\<close>

definition hex_digit_upper :: "nat \<Rightarrow> char" where
  "hex_digit_upper d = (if d < 10 then chr_byte (48 + int d) else chr_byte (55 + int d))"

text \<open>\<open>fmt.Sprintf("%02X", r)\<close> for \<open>0 <= r < 256\<close>.\<close>

definition hex2_upper :: "rune \<Rightarrow> bytes" where
  "hex2_upper r = [hex_digit_upper (nat (r div 16)), hex_digit_upper (nat (r mod 16))]"

end
