(* ===== verification/TokItem.thy ===== *)
theory TokItem
  imports GoBase GoStrings
begin

text \<open>
  The tokens of the PHP lexer, \<^verbatim>\<open>src/core/tokenizer/item.go\<close> and the keyword tables of
  \<^verbatim>\<open>label.go\<close> and \<^verbatim>\<open>operator.go\<close>.

  \<open>ItemType\<close> is a Go \<open>int\<close> numbered by \<open>iota\<close>, and a single-character token is the
  integer \<open>itemMax + r\<close> for its rune \<open>r\<close>; the model keeps that numbering, so the token
  kinds are integers with the source's names as abbreviations.
\<close>

section \<open>Token kinds\<close>

type_synonym item_type = int

abbreviation (input) itemError :: item_type where "itemError \<equiv> 0"
abbreviation (input) T_EOF :: item_type where "T_EOF \<equiv> 1"
abbreviation (input) T_ABSTRACT :: item_type where "T_ABSTRACT \<equiv> 2"
abbreviation (input) T_AND_EQUAL :: item_type where "T_AND_EQUAL \<equiv> 3"
abbreviation (input) T_ARRAY :: item_type where "T_ARRAY \<equiv> 4"
abbreviation (input) T_ARRAY_CAST :: item_type where "T_ARRAY_CAST \<equiv> 5"
abbreviation (input) T_AS :: item_type where "T_AS \<equiv> 6"
abbreviation (input) T_BAD_CHARACTER :: item_type where "T_BAD_CHARACTER \<equiv> 7"
abbreviation (input) T_BOOLEAN_AND :: item_type where "T_BOOLEAN_AND \<equiv> 8"
abbreviation (input) T_BOOLEAN_OR :: item_type where "T_BOOLEAN_OR \<equiv> 9"
abbreviation (input) T_BOOL_CAST :: item_type where "T_BOOL_CAST \<equiv> 10"
abbreviation (input) T_BREAK :: item_type where "T_BREAK \<equiv> 11"
abbreviation (input) T_CALLABLE :: item_type where "T_CALLABLE \<equiv> 12"
abbreviation (input) T_CASE :: item_type where "T_CASE \<equiv> 13"
abbreviation (input) T_CATCH :: item_type where "T_CATCH \<equiv> 14"
abbreviation (input) T_CLASS :: item_type where "T_CLASS \<equiv> 15"
abbreviation (input) T_CLASS_C :: item_type where "T_CLASS_C \<equiv> 16"
abbreviation (input) T_CLONE :: item_type where "T_CLONE \<equiv> 17"
abbreviation (input) T_CLOSE_TAG :: item_type where "T_CLOSE_TAG \<equiv> 18"
abbreviation (input) T_COALESCE :: item_type where "T_COALESCE \<equiv> 19"
abbreviation (input) T_COALESCE_EQUAL :: item_type where "T_COALESCE_EQUAL \<equiv> 20"
abbreviation (input) T_COMMENT :: item_type where "T_COMMENT \<equiv> 21"
abbreviation (input) T_CONCAT_EQUAL :: item_type where "T_CONCAT_EQUAL \<equiv> 22"
abbreviation (input) T_CONST :: item_type where "T_CONST \<equiv> 23"
abbreviation (input) T_CONSTANT_ENCAPSED_STRING :: item_type where "T_CONSTANT_ENCAPSED_STRING \<equiv> 24"
abbreviation (input) T_CONTINUE :: item_type where "T_CONTINUE \<equiv> 25"
abbreviation (input) T_CURLY_OPEN :: item_type where "T_CURLY_OPEN \<equiv> 26"
abbreviation (input) T_DEC :: item_type where "T_DEC \<equiv> 27"
abbreviation (input) T_DECLARE :: item_type where "T_DECLARE \<equiv> 28"
abbreviation (input) T_DEFAULT :: item_type where "T_DEFAULT \<equiv> 29"
abbreviation (input) T_DIR :: item_type where "T_DIR \<equiv> 30"
abbreviation (input) T_DIV_EQUAL :: item_type where "T_DIV_EQUAL \<equiv> 31"
abbreviation (input) T_DOC_COMMENT :: item_type where "T_DOC_COMMENT \<equiv> 32"
abbreviation (input) T_DO :: item_type where "T_DO \<equiv> 33"
abbreviation (input) T_DOLLAR_OPEN_CURLY_BRACES :: item_type where "T_DOLLAR_OPEN_CURLY_BRACES \<equiv> 34"
abbreviation (input) T_DOUBLE_ARROW :: item_type where "T_DOUBLE_ARROW \<equiv> 35"
abbreviation (input) T_DOUBLE_CAST :: item_type where "T_DOUBLE_CAST \<equiv> 36"
abbreviation (input) T_PAAMAYIM_NEKUDOTAYIM :: item_type where "T_PAAMAYIM_NEKUDOTAYIM \<equiv> 37"
abbreviation (input) T_ECHO :: item_type where "T_ECHO \<equiv> 38"
abbreviation (input) T_ELLIPSIS :: item_type where "T_ELLIPSIS \<equiv> 39"
abbreviation (input) T_ELSE :: item_type where "T_ELSE \<equiv> 40"
abbreviation (input) T_ELSEIF :: item_type where "T_ELSEIF \<equiv> 41"
abbreviation (input) T_EMPTY :: item_type where "T_EMPTY \<equiv> 42"
abbreviation (input) T_ENCAPSED_AND_WHITESPACE :: item_type where "T_ENCAPSED_AND_WHITESPACE \<equiv> 43"
abbreviation (input) T_ENDDECLARE :: item_type where "T_ENDDECLARE \<equiv> 44"
abbreviation (input) T_ENDFOR :: item_type where "T_ENDFOR \<equiv> 45"
abbreviation (input) T_ENDFOREACH :: item_type where "T_ENDFOREACH \<equiv> 46"
abbreviation (input) T_ENDIF :: item_type where "T_ENDIF \<equiv> 47"
abbreviation (input) T_ENDSWITCH :: item_type where "T_ENDSWITCH \<equiv> 48"
abbreviation (input) T_ENDWHILE :: item_type where "T_ENDWHILE \<equiv> 49"
abbreviation (input) T_END_HEREDOC :: item_type where "T_END_HEREDOC \<equiv> 50"
abbreviation (input) T_ENUM :: item_type where "T_ENUM \<equiv> 51"
abbreviation (input) T_EVAL :: item_type where "T_EVAL \<equiv> 52"
abbreviation (input) T_EXIT :: item_type where "T_EXIT \<equiv> 53"
abbreviation (input) T_EXTENDS :: item_type where "T_EXTENDS \<equiv> 54"
abbreviation (input) T_FILE :: item_type where "T_FILE \<equiv> 55"
abbreviation (input) T_FINAL :: item_type where "T_FINAL \<equiv> 56"
abbreviation (input) T_FINALLY :: item_type where "T_FINALLY \<equiv> 57"
abbreviation (input) T_FN :: item_type where "T_FN \<equiv> 58"
abbreviation (input) T_FOR :: item_type where "T_FOR \<equiv> 59"
abbreviation (input) T_FOREACH :: item_type where "T_FOREACH \<equiv> 60"
abbreviation (input) T_FUNCTION :: item_type where "T_FUNCTION \<equiv> 61"
abbreviation (input) T_FUNC_C :: item_type where "T_FUNC_C \<equiv> 62"
abbreviation (input) T_GLOBAL :: item_type where "T_GLOBAL \<equiv> 63"
abbreviation (input) T_GOTO :: item_type where "T_GOTO \<equiv> 64"
abbreviation (input) T_HALT_COMPILER :: item_type where "T_HALT_COMPILER \<equiv> 65"
abbreviation (input) T_IF :: item_type where "T_IF \<equiv> 66"
abbreviation (input) T_IMPLEMENTS :: item_type where "T_IMPLEMENTS \<equiv> 67"
abbreviation (input) T_INC :: item_type where "T_INC \<equiv> 68"
abbreviation (input) T_INCLUDE :: item_type where "T_INCLUDE \<equiv> 69"
abbreviation (input) T_INCLUDE_ONCE :: item_type where "T_INCLUDE_ONCE \<equiv> 70"
abbreviation (input) T_INLINE_HTML :: item_type where "T_INLINE_HTML \<equiv> 71"
abbreviation (input) T_INSTANCEOF :: item_type where "T_INSTANCEOF \<equiv> 72"
abbreviation (input) T_INSTEADOF :: item_type where "T_INSTEADOF \<equiv> 73"
abbreviation (input) T_INT_CAST :: item_type where "T_INT_CAST \<equiv> 74"
abbreviation (input) T_INTERFACE :: item_type where "T_INTERFACE \<equiv> 75"
abbreviation (input) T_ISSET :: item_type where "T_ISSET \<equiv> 76"
abbreviation (input) T_IS_EQUAL :: item_type where "T_IS_EQUAL \<equiv> 77"
abbreviation (input) T_IS_GREATER_OR_EQUAL :: item_type where "T_IS_GREATER_OR_EQUAL \<equiv> 78"
abbreviation (input) T_IS_IDENTICAL :: item_type where "T_IS_IDENTICAL \<equiv> 79"
abbreviation (input) T_IS_NOT_EQUAL :: item_type where "T_IS_NOT_EQUAL \<equiv> 80"
abbreviation (input) T_IS_NOT_IDENTICAL :: item_type where "T_IS_NOT_IDENTICAL \<equiv> 81"
abbreviation (input) T_IS_SMALLER_OR_EQUAL :: item_type where "T_IS_SMALLER_OR_EQUAL \<equiv> 82"
abbreviation (input) T_SPACESHIP :: item_type where "T_SPACESHIP \<equiv> 83"
abbreviation (input) T_LINE :: item_type where "T_LINE \<equiv> 84"
abbreviation (input) T_LIST :: item_type where "T_LIST \<equiv> 85"
abbreviation (input) T_LOGICAL_AND :: item_type where "T_LOGICAL_AND \<equiv> 86"
abbreviation (input) T_LOGICAL_OR :: item_type where "T_LOGICAL_OR \<equiv> 87"
abbreviation (input) T_LOGICAL_XOR :: item_type where "T_LOGICAL_XOR \<equiv> 88"
abbreviation (input) T_MATCH :: item_type where "T_MATCH \<equiv> 89"
abbreviation (input) T_METHOD_C :: item_type where "T_METHOD_C \<equiv> 90"
abbreviation (input) T_MINUS_EQUAL :: item_type where "T_MINUS_EQUAL \<equiv> 91"
abbreviation (input) T_MOD_EQUAL :: item_type where "T_MOD_EQUAL \<equiv> 92"
abbreviation (input) T_MUL_EQUAL :: item_type where "T_MUL_EQUAL \<equiv> 93"
abbreviation (input) T_NAMESPACE :: item_type where "T_NAMESPACE \<equiv> 94"
abbreviation (input) T_NS_C :: item_type where "T_NS_C \<equiv> 95"
abbreviation (input) T_NS_SEPARATOR :: item_type where "T_NS_SEPARATOR \<equiv> 96"
abbreviation (input) T_NEW :: item_type where "T_NEW \<equiv> 97"
abbreviation (input) T_NUM_STRING :: item_type where "T_NUM_STRING \<equiv> 98"
abbreviation (input) T_OBJECT_CAST :: item_type where "T_OBJECT_CAST \<equiv> 99"
abbreviation (input) T_NULLSAFE_OBJECT_OPERATOR :: item_type where "T_NULLSAFE_OBJECT_OPERATOR \<equiv> 100"
abbreviation (input) T_OBJECT_OPERATOR :: item_type where "T_OBJECT_OPERATOR \<equiv> 101"
abbreviation (input) T_OPEN_TAG :: item_type where "T_OPEN_TAG \<equiv> 102"
abbreviation (input) T_OPEN_TAG_WITH_ECHO :: item_type where "T_OPEN_TAG_WITH_ECHO \<equiv> 103"
abbreviation (input) T_OR_EQUAL :: item_type where "T_OR_EQUAL \<equiv> 104"
abbreviation (input) T_PIPE :: item_type where "T_PIPE \<equiv> 105"
abbreviation (input) T_PLUS_EQUAL :: item_type where "T_PLUS_EQUAL \<equiv> 106"
abbreviation (input) T_POW :: item_type where "T_POW \<equiv> 107"
abbreviation (input) T_POW_EQUAL :: item_type where "T_POW_EQUAL \<equiv> 108"
abbreviation (input) T_PRINT :: item_type where "T_PRINT \<equiv> 109"
abbreviation (input) T_PRIVATE :: item_type where "T_PRIVATE \<equiv> 110"
abbreviation (input) T_PUBLIC :: item_type where "T_PUBLIC \<equiv> 111"
abbreviation (input) T_PROTECTED :: item_type where "T_PROTECTED \<equiv> 112"
abbreviation (input) T_READONLY :: item_type where "T_READONLY \<equiv> 113"
abbreviation (input) T_REQUIRE :: item_type where "T_REQUIRE \<equiv> 114"
abbreviation (input) T_REQUIRE_ONCE :: item_type where "T_REQUIRE_ONCE \<equiv> 115"
abbreviation (input) T_RETURN :: item_type where "T_RETURN \<equiv> 116"
abbreviation (input) T_SL :: item_type where "T_SL \<equiv> 117"
abbreviation (input) T_SL_EQUAL :: item_type where "T_SL_EQUAL \<equiv> 118"
abbreviation (input) T_SR :: item_type where "T_SR \<equiv> 119"
abbreviation (input) T_SR_EQUAL :: item_type where "T_SR_EQUAL \<equiv> 120"
abbreviation (input) T_START_HEREDOC :: item_type where "T_START_HEREDOC \<equiv> 121"
abbreviation (input) T_STATIC :: item_type where "T_STATIC \<equiv> 122"
abbreviation (input) T_STRING :: item_type where "T_STRING \<equiv> 123"
abbreviation (input) T_STRING_CAST :: item_type where "T_STRING_CAST \<equiv> 124"
abbreviation (input) T_STRING_VARNAME :: item_type where "T_STRING_VARNAME \<equiv> 125"
abbreviation (input) T_SWITCH :: item_type where "T_SWITCH \<equiv> 126"
abbreviation (input) T_THROW :: item_type where "T_THROW \<equiv> 127"
abbreviation (input) T_TRAIT :: item_type where "T_TRAIT \<equiv> 128"
abbreviation (input) T_TRAIT_C :: item_type where "T_TRAIT_C \<equiv> 129"
abbreviation (input) T_TRY :: item_type where "T_TRY \<equiv> 130"
abbreviation (input) T_UNSET :: item_type where "T_UNSET \<equiv> 131"
abbreviation (input) T_UNSET_CAST :: item_type where "T_UNSET_CAST \<equiv> 132"
abbreviation (input) T_USE :: item_type where "T_USE \<equiv> 133"
abbreviation (input) T_VAR :: item_type where "T_VAR \<equiv> 134"
abbreviation (input) T_VARIABLE :: item_type where "T_VARIABLE \<equiv> 135"
abbreviation (input) T_WHILE :: item_type where "T_WHILE \<equiv> 136"
abbreviation (input) T_WHITESPACE :: item_type where "T_WHITESPACE \<equiv> 137"
abbreviation (input) T_XOR_EQUAL :: item_type where "T_XOR_EQUAL \<equiv> 138"
abbreviation (input) T_YIELD :: item_type where "T_YIELD \<equiv> 139"
abbreviation (input) T_YIELD_FROM :: item_type where "T_YIELD_FROM \<equiv> 140"
abbreviation (input) T_DNUMBER :: item_type where "T_DNUMBER \<equiv> 141"
abbreviation (input) T_LNUMBER :: item_type where "T_LNUMBER \<equiv> 142"
abbreviation (input) T_ATTRIBUTE :: item_type where "T_ATTRIBUTE \<equiv> 143"
abbreviation (input) T_VOID_CAST :: item_type where "T_VOID_CAST \<equiv> 144"
abbreviation (input) T_PROPERTY_C :: item_type where "T_PROPERTY_C \<equiv> 145"
abbreviation (input) itemMax :: item_type where "itemMax \<equiv> 146"

text \<open>The names of the constants in \<open>iota\<close> order; \<^verbatim>\<open>itemtype_string.go\<close> prints them.\<close>

definition item_type_names :: "bytes list" where
  "item_type_names =
    [''itemError'', ''T_EOF'', ''T_ABSTRACT'', ''T_AND_EQUAL'', ''T_ARRAY'', ''T_ARRAY_CAST'',
     ''T_AS'', ''T_BAD_CHARACTER'', ''T_BOOLEAN_AND'', ''T_BOOLEAN_OR'', ''T_BOOL_CAST'',
     ''T_BREAK'', ''T_CALLABLE'', ''T_CASE'', ''T_CATCH'', ''T_CLASS'', ''T_CLASS_C'',
     ''T_CLONE'', ''T_CLOSE_TAG'', ''T_COALESCE'', ''T_COALESCE_EQUAL'', ''T_COMMENT'',
     ''T_CONCAT_EQUAL'', ''T_CONST'', ''T_CONSTANT_ENCAPSED_STRING'', ''T_CONTINUE'',
     ''T_CURLY_OPEN'', ''T_DEC'', ''T_DECLARE'', ''T_DEFAULT'', ''T_DIR'', ''T_DIV_EQUAL'',
     ''T_DOC_COMMENT'', ''T_DO'', ''T_DOLLAR_OPEN_CURLY_BRACES'', ''T_DOUBLE_ARROW'',
     ''T_DOUBLE_CAST'', ''T_PAAMAYIM_NEKUDOTAYIM'', ''T_ECHO'', ''T_ELLIPSIS'', ''T_ELSE'',
     ''T_ELSEIF'', ''T_EMPTY'', ''T_ENCAPSED_AND_WHITESPACE'', ''T_ENDDECLARE'', ''T_ENDFOR'',
     ''T_ENDFOREACH'', ''T_ENDIF'', ''T_ENDSWITCH'', ''T_ENDWHILE'', ''T_END_HEREDOC'',
     ''T_ENUM'', ''T_EVAL'', ''T_EXIT'', ''T_EXTENDS'', ''T_FILE'', ''T_FINAL'', ''T_FINALLY'',
     ''T_FN'', ''T_FOR'', ''T_FOREACH'', ''T_FUNCTION'', ''T_FUNC_C'', ''T_GLOBAL'', ''T_GOTO'',
     ''T_HALT_COMPILER'', ''T_IF'', ''T_IMPLEMENTS'', ''T_INC'', ''T_INCLUDE'',
     ''T_INCLUDE_ONCE'', ''T_INLINE_HTML'', ''T_INSTANCEOF'', ''T_INSTEADOF'', ''T_INT_CAST'',
     ''T_INTERFACE'', ''T_ISSET'', ''T_IS_EQUAL'', ''T_IS_GREATER_OR_EQUAL'', ''T_IS_IDENTICAL'',
     ''T_IS_NOT_EQUAL'', ''T_IS_NOT_IDENTICAL'', ''T_IS_SMALLER_OR_EQUAL'', ''T_SPACESHIP'',
     ''T_LINE'', ''T_LIST'', ''T_LOGICAL_AND'', ''T_LOGICAL_OR'', ''T_LOGICAL_XOR'', ''T_MATCH'',
     ''T_METHOD_C'', ''T_MINUS_EQUAL'', ''T_MOD_EQUAL'', ''T_MUL_EQUAL'', ''T_NAMESPACE'',
     ''T_NS_C'', ''T_NS_SEPARATOR'', ''T_NEW'', ''T_NUM_STRING'', ''T_OBJECT_CAST'',
     ''T_NULLSAFE_OBJECT_OPERATOR'', ''T_OBJECT_OPERATOR'', ''T_OPEN_TAG'',
     ''T_OPEN_TAG_WITH_ECHO'', ''T_OR_EQUAL'', ''T_PIPE'', ''T_PLUS_EQUAL'', ''T_POW'',
     ''T_POW_EQUAL'', ''T_PRINT'', ''T_PRIVATE'', ''T_PUBLIC'', ''T_PROTECTED'', ''T_READONLY'',
     ''T_REQUIRE'', ''T_REQUIRE_ONCE'', ''T_RETURN'', ''T_SL'', ''T_SL_EQUAL'', ''T_SR'',
     ''T_SR_EQUAL'', ''T_START_HEREDOC'', ''T_STATIC'', ''T_STRING'', ''T_STRING_CAST'',
     ''T_STRING_VARNAME'', ''T_SWITCH'', ''T_THROW'', ''T_TRAIT'', ''T_TRAIT_C'', ''T_TRY'',
     ''T_UNSET'', ''T_UNSET_CAST'', ''T_USE'', ''T_VAR'', ''T_VARIABLE'', ''T_WHILE'',
     ''T_WHITESPACE'', ''T_XOR_EQUAL'', ''T_YIELD'', ''T_YIELD_FROM'', ''T_DNUMBER'',
     ''T_LNUMBER'', ''T_ATTRIBUTE'', ''T_VOID_CAST'', ''T_PROPERTY_C'', ''itemMax'']"

section \<open>Keyword and operator tables\<close>

text \<open>The Go maps as association lists; their keys are distinct (lemma \<open>token_tables_distinct\<close>),
  so the order of the entries does not matter.\<close>

definition phpMagicKeywords :: "(bytes \<times> item_type) list" where
  "phpMagicKeywords =
    [(''abstract'', T_ABSTRACT), (''array'', T_ARRAY), (''as'', T_AS), (''break'', T_BREAK),
     (''callable'', T_CALLABLE), (''case'', T_CASE), (''catch'', T_CATCH), (''class'', T_CLASS),
     (''__CLASS__'', T_CLASS_C), (''clone'', T_CLONE), (''const'', T_CONST),
     (''continue'', T_CONTINUE), (''declare'', T_DECLARE), (''default'', T_DEFAULT),
     (''__DIR__'', T_DIR), (''do'', T_DO), (''echo'', T_ECHO), (''else'', T_ELSE),
     (''enum'', T_ENUM), (''elseif'', T_ELSEIF), (''empty'', T_EMPTY),
     (''enddeclare'', T_ENDDECLARE), (''endfor'', T_ENDFOR), (''endforeach'', T_ENDFOREACH),
     (''endif'', T_ENDIF), (''endswitch'', T_ENDSWITCH), (''endwhile'', T_ENDWHILE),
     (''eval'', T_EVAL), (''exit'', T_EXIT), (''die'', T_EXIT), (''extends'', T_EXTENDS),
     (''__FILE__'', T_FILE), (''final'', T_FINAL), (''finally'', T_FINALLY), (''fn'', T_FN),
     (''for'', T_FOR), (''foreach'', T_FOREACH), (''function'', T_FUNCTION),
     (''cfunction'', T_FUNCTION), (''__FUNCTION__'', T_FUNC_C), (''global'', T_GLOBAL),
     (''goto'', T_GOTO), (''__halt_compiler'', T_HALT_COMPILER), (''if'', T_IF),
     (''implements'', T_IMPLEMENTS), (''include'', T_INCLUDE),
     (''include_once'', T_INCLUDE_ONCE), (''instanceof'', T_INSTANCEOF),
     (''insteadof'', T_INSTEADOF), (''interface'', T_INTERFACE), (''isset'', T_ISSET),
     (''__LINE__'', T_LINE), (''list'', T_LIST), (''and'', T_LOGICAL_AND),
     (''or'', T_LOGICAL_OR), (''xor'', T_LOGICAL_XOR), (''match'', T_MATCH),
     (''__METHOD__'', T_METHOD_C), (''namespace'', T_NAMESPACE), (''__NAMESPACE__'', T_NS_C),
     (''new'', T_NEW), (''print'', T_PRINT), (''private'', T_PRIVATE), (''public'', T_PUBLIC),
     (''protected'', T_PROTECTED), (''readonly'', T_READONLY), (''require'', T_REQUIRE),
     (''require_once'', T_REQUIRE_ONCE), (''return'', T_RETURN), (''static'', T_STATIC),
     (''switch'', T_SWITCH), (''throw'', T_THROW), (''trait'', T_TRAIT),
     (''__TRAIT__'', T_TRAIT_C), (''__PROPERTY__'', T_PROPERTY_C), (''try'', T_TRY),
     (''unset'', T_UNSET), (''use'', T_USE), (''var'', T_VAR), (''while'', T_WHILE),
     (''yield'', T_YIELD)]"

definition phpMagicConstantKeywords :: "(bytes \<times> item_type) list" where
  "phpMagicConstantKeywords =
    [(''__class__'', T_CLASS_C), (''__dir__'', T_DIR), (''__file__'', T_FILE),
     (''__function__'', T_FUNC_C), (''__line__'', T_LINE), (''__method__'', T_METHOD_C),
     (''__namespace__'', T_NS_C), (''__trait__'', T_TRAIT_C), (''__property__'', T_PROPERTY_C)]"

definition lexPhpOps :: "(bytes \<times> item_type) list" where
  "lexPhpOps =
    [(''&='', T_AND_EQUAL), (''&&'', T_BOOLEAN_AND), (''||'', T_BOOLEAN_OR),
     (''??'', T_COALESCE), (''??='', T_COALESCE_EQUAL), (''?>'', T_CLOSE_TAG),
     (''.='', T_CONCAT_EQUAL), (''--'', T_DEC), (''++'', T_INC), (''/='', T_DIV_EQUAL),
     (''=>'', T_DOUBLE_ARROW), (''::'', T_PAAMAYIM_NEKUDOTAYIM), (''...'', T_ELLIPSIS),
     (''=='', T_IS_EQUAL), (''>='', T_IS_GREATER_OR_EQUAL), (''==='', T_IS_IDENTICAL),
     (''!='', T_IS_NOT_EQUAL), (''<>'', T_IS_NOT_EQUAL), (''!=='', T_IS_NOT_IDENTICAL),
     (''<='', T_IS_SMALLER_OR_EQUAL), (''<=>'', T_SPACESHIP), (''-='', T_MINUS_EQUAL),
     (''%='', T_MOD_EQUAL), (''*='', T_MUL_EQUAL), (''->'', T_OBJECT_OPERATOR),
     (''?->'', T_NULLSAFE_OBJECT_OPERATOR), (''|='', T_OR_EQUAL), (''|>'', T_PIPE),
     (''+='', T_PLUS_EQUAL), (''**'', T_POW), (''**='', T_POW_EQUAL), (''<<'', T_SL),
     (''<<='', T_SL_EQUAL), (''>>'', T_SR), (''>>='', T_SR_EQUAL), (''^='', T_XOR_EQUAL)]"

definition labelType :: "bytes \<Rightarrow> item_type" where
  "labelType lbl =
     (let lower = go_to_lower lbl in
      case map_of phpMagicKeywords lower of
        Some v \<Rightarrow> v
      | None \<Rightarrow>
         (case map_of phpMagicKeywords lbl of
            Some v \<Rightarrow> v
          | None \<Rightarrow>
             (case map_of phpMagicConstantKeywords lower of
                Some v \<Rightarrow> v
              | None \<Rightarrow> T_STRING)))"

section \<open>Items\<close>

record item =
  it_Type :: item_type
  it_Data :: bytes
  it_Filename :: bytes
  it_Line :: nat
  it_Char :: nat

text \<open>\<open>Rune\<close>: the token kind of a single character; \<open>ItemType.Rune\<close>: its inverse.\<close>

definition RuneType :: "rune \<Rightarrow> item_type" where
  "RuneType r = r + itemMax"

definition item_type_rune :: "item_type \<Rightarrow> rune" where
  "item_type_rune i = (if i < itemMax then 0 else i - itemMax)"

definition item_is_single :: "item \<Rightarrow> rune \<Rightarrow> bool" where
  "item_is_single i r = (if it_Type i < itemMax then False else it_Type i = r + itemMax)"

definition item_is_label :: "item \<Rightarrow> bool" where
  "item_is_label i =
     (if it_Type i = T_STRING then True
      else if it_Type i \<ge> itemMax then False
      else it_Data i \<noteq> [] \<and> labelType (it_Data i) \<noteq> T_STRING)"

definition item_is_expression_end :: "item \<Rightarrow> bool" where
  "item_is_expression_end i = (item_is_single i (byte (CHR '';'')) \<or> it_Type i = T_CLOSE_TAG)"

definition semi_reserved_types :: "item_type list" where
  "semi_reserved_types =
    [T_ABSTRACT, T_ARRAY, T_AS, T_BREAK, T_CALLABLE, T_CASE, T_CATCH, T_CLASS, T_CLONE, T_CONST,
     T_CONTINUE, T_DECLARE, T_DEFAULT, T_DO, T_ECHO, T_ELSE, T_ELSEIF, T_EMPTY, T_ENDDECLARE,
     T_ENDFOR, T_ENDFOREACH, T_ENDIF, T_ENDSWITCH, T_ENDWHILE, T_EVAL, T_EXIT, T_EXTENDS,
     T_FINAL, T_FINALLY, T_FN, T_FOR, T_FOREACH, T_FUNCTION, T_GLOBAL, T_GOTO, T_IF,
     T_IMPLEMENTS, T_INCLUDE, T_INCLUDE_ONCE, T_INSTANCEOF, T_INSTEADOF, T_INTERFACE, T_ISSET,
     T_LIST, T_LOGICAL_AND, T_LOGICAL_OR, T_LOGICAL_XOR, T_MATCH, T_NAMESPACE, T_NEW, T_PRINT,
     T_PRIVATE, T_PROTECTED, T_PUBLIC, T_READONLY, T_REQUIRE, T_REQUIRE_ONCE, T_RETURN, T_STATIC,
     T_SWITCH, T_THROW, T_TRAIT, T_TRY, T_UNSET, T_USE, T_VAR, T_WHILE, T_YIELD, T_YIELD_FROM,
     T_ENUM, T_CLASS_C, T_TRAIT_C, T_FUNC_C, T_METHOD_C, T_LINE, T_FILE, T_DIR, T_NS_C,
     T_PROPERTY_C]"

definition item_is_semi_reserved :: "item \<Rightarrow> bool" where
  "item_is_semi_reserved i = (it_Type i = T_STRING \<or> it_Type i \<in> set semi_reserved_types)"

text \<open>\<open>ItemType.String\<close> (generated) and \<open>ItemType.Name\<close>.\<close>

definition item_type_string :: "item_type \<Rightarrow> bytes" where
  "item_type_string i =
     (if i < 0 \<or> i \<ge> 147 then ''ItemType('' @ format_int i @ '')''
      else item_type_names ! nat i)"

definition item_type_name :: "item_type \<Rightarrow> bytes" where
  "item_type_name i =
     (if i > itemMax then [CHR 0x27] @ encode_rune (item_type_rune i) @ [CHR 0x27]
      else item_type_string i)"

definition token_human_names :: "(item_type \<times> bytes) list" where
  "token_human_names =
    [(T_ABSTRACT, ''abstract''), (T_ARRAY, ''array''), (T_AS, ''as''), (T_BREAK, ''break''),
     (T_CALLABLE, ''callable''), (T_CASE, ''case''), (T_CATCH, ''catch''), (T_CLASS, ''class''),
     (T_CLONE, ''clone''), (T_CONST, ''const''), (T_CONTINUE, ''continue''),
     (T_DECLARE, ''declare''), (T_DEFAULT, ''default''), (T_DO, ''do''), (T_ECHO, ''echo''),
     (T_ELSE, ''else''), (T_ELSEIF, ''elseif''), (T_EMPTY, ''empty''),
     (T_ENDDECLARE, ''enddeclare''), (T_ENDFOR, ''endfor''), (T_ENDFOREACH, ''endforeach''),
     (T_ENDIF, ''endif''), (T_ENDSWITCH, ''endswitch''), (T_ENDWHILE, ''endwhile''),
     (T_ENUM, ''enum''), (T_EVAL, ''eval''), (T_EXIT, ''exit''), (T_EXTENDS, ''extends''),
     (T_FINAL, ''final''), (T_FINALLY, ''finally''), (T_FN, ''fn''), (T_FOR, ''for''),
     (T_FOREACH, ''foreach''), (T_FUNCTION, ''function''), (T_GLOBAL, ''global''),
     (T_GOTO, ''goto''), (T_IF, ''if''), (T_IMPLEMENTS, ''implements''),
     (T_INCLUDE, ''include''), (T_INCLUDE_ONCE, ''include_once''),
     (T_INSTANCEOF, ''instanceof''), (T_INSTEADOF, ''insteadof''), (T_INTERFACE, ''interface''),
     (T_ISSET, ''isset''), (T_LIST, ''list''), (T_MATCH, ''match''),
     (T_NAMESPACE, ''namespace''), (T_NEW, ''new''), (T_PRINT, ''print''),
     (T_PRIVATE, ''private''), (T_PROTECTED, ''protected''), (T_PUBLIC, ''public''),
     (T_READONLY, ''readonly''), (T_REQUIRE, ''require''), (T_REQUIRE_ONCE, ''require_once''),
     (T_RETURN, ''return''), (T_STATIC, ''static''), (T_SWITCH, ''switch''),
     (T_THROW, ''throw''), (T_TRAIT, ''trait''), (T_TRY, ''try''), (T_UNSET, ''unset''),
     (T_USE, ''use''), (T_VAR, ''var''), (T_WHILE, ''while''), (T_YIELD, ''yield''),
     (T_YIELD_FROM, ''yield from''), (T_INT_CAST, ''(int)''), (T_DOUBLE_CAST, ''(double)''),
     (T_STRING_CAST, ''(string)''), (T_ARRAY_CAST, ''(array)''), (T_OBJECT_CAST, ''(object)''),
     (T_BOOL_CAST, ''(bool)''), (T_UNSET_CAST, ''(unset)''), (T_VOID_CAST, ''(void)''),
     (T_DOUBLE_ARROW, ''=>''), (T_PAAMAYIM_NEKUDOTAYIM, ''::''), (T_ELLIPSIS, ''...''),
     (T_NS_SEPARATOR, [CHR 0x5C]), (T_ATTRIBUTE, ''#[''), (T_PIPE, ''|>'')]"

definition tokenHumanName :: "item_type \<Rightarrow> bytes" where
  "tokenHumanName t = (case map_of token_human_names t of Some s \<Rightarrow> s | None \<Rightarrow> [])"

abbreviation (input) dq :: char where "dq \<equiv> CHR 0x22"

definition item_human_name :: "item \<Rightarrow> bytes" where
  "item_human_name i =
     (if it_Type i > itemMax
      then ''token '' @ [dq] @ encode_rune (item_type_rune (it_Type i)) @ [dq]
      else if it_Type i = T_EOF then ''end of file''
      else if it_Type i = T_LNUMBER then ''integer '' @ [dq] @ it_Data i @ [dq]
      else if it_Type i = T_DNUMBER then ''floating-point number '' @ [dq] @ it_Data i @ [dq]
      else if it_Type i = T_STRING then ''identifier '' @ [dq] @ it_Data i @ [dq]
      else if it_Type i = T_VARIABLE then ''variable '' @ [dq] @ it_Data i @ [dq]
      else if it_Type i = T_CONSTANT_ENCAPSED_STRING
        then ''string content '' @ [dq] @ it_Data i @ [dq]
      else if it_Type i = T_INLINE_HTML then ''inline HTML''
      else (let name = tokenHumanName (it_Type i) in
            if name \<noteq> [] then ''token '' @ [dq] @ name @ [dq]
            else item_type_name (it_Type i)))"

text \<open>The operator symbol used in error messages. The Go code looks the token kind up in
  \<open>lexPhpOps\<close> by ranging over the map; where two spellings share a kind (\<open>!=\<close> and \<open><>\<close>) the
  result depends on the iteration order, so the model returns the list of possible results.\<close>

definition compound_op_base :: "(item_type \<times> bytes) list" where
  "compound_op_base =
     [(T_PLUS_EQUAL, ''+''), (T_MINUS_EQUAL, ''-''), (T_MUL_EQUAL, ''*''), (T_DIV_EQUAL, ''/''),
      (T_MOD_EQUAL, ''%''), (T_POW_EQUAL, ''**''), (T_SL_EQUAL, ''<<''), (T_SR_EQUAL, ''>>''),
      (T_AND_EQUAL, ''&''), (T_OR_EQUAL, ''|''), (T_XOR_EQUAL, ''^''), (T_CONCAT_EQUAL, ''.'')]"

definition op_strings :: "item_type \<Rightarrow> bytes list" where
  "op_strings i =
     (case map_of compound_op_base i of
        Some s \<Rightarrow> [s]
      | None \<Rightarrow>
         if i > itemMax then [encode_rune (item_type_rune i)]
         else (case [s. (s, t) \<leftarrow> lexPhpOps, t = i] of
                 [] \<Rightarrow> [item_type_string i]
               | ss \<Rightarrow> ss))"

section \<open>Facts\<close>

lemma rune_type_inverse:
  "0 \<le> r \<Longrightarrow> item_type_rune (RuneType r) = r"
  by (simp add: item_type_rune_def RuneType_def)

lemma item_is_single_RuneType:
  "0 \<le> r \<Longrightarrow> it_Type i = RuneType r \<Longrightarrow> item_is_single i c \<longleftrightarrow> c = r"
  by (auto simp: item_is_single_def RuneType_def)

lemma token_tables_distinct:
  "distinct (map fst phpMagicKeywords)"
  "distinct (map fst phpMagicConstantKeywords)"
  "distinct (map fst lexPhpOps)"
  "distinct (map fst token_human_names)"
  by code_simp+

lemma item_type_names_length: "length item_type_names = nat (itemMax + 1)"
  by code_simp

end
