(* ===== verification/LexCore.thy ===== *)
theory LexCore
  imports TokItem
begin

text \<open>
  The state of the PHP lexer and the methods its state functions are made of,
  \<^verbatim>\<open>src/core/tokenizer/lexer.go\<close>.

  The input reader is the list of bytes it has not delivered yet; \<open>inputRst\<close> is the pushed-back
  input, read first. The channel of items is the list of the items sent so far. A state function
  of the source (a Go function value of type \<open>lexState\<close>) is a constructor of \<open>lexstate\<close>, and
  \<open>None\<close> is the Go \<open>nil\<close> that ends the run. The fields \<open>done\<close> (cancellation by the
  consumer, \<open>Close\<close>) and \<open>input\<close>'s read errors are left out: the model is of a run that is
  not cancelled and whose reader ends with \<open>io.EOF\<close>.
\<close>

section \<open>State\<close>

datatype lexstate =
    LexText | LexPhp | LexPhpOpen | LexPhpPossibleCast | LexPhpVariable | LexPhpAttribute
  | LexPhpEolComment | LexPhpBlockComment | LexPhpOperator | LexNumber | LexPhpHeredoc
  | LexPhpStringConst | LexPhpString
  | StringLexer rune
  | LexInterpolatedObjectOp | LexInterpolatedArrayAccess | LexInterpolatedComplexVar

record lexer =
  lx_input :: bytes
  lx_fn :: bytes
  lx_start :: nat
  lx_pos :: nat
  lx_width :: nat
  lx_items :: "item list"
  lx_prevItem :: "item option"
  lx_base :: "lexstate option"
  lx_inputRst :: bytes
  lx_output :: bytes
  lx_sLine :: nat
  lx_sChar :: nat
  lx_cLine :: nat
  lx_cChar :: nat
  lx_pLine :: nat
  lx_pChar :: nat
  lx_baseStack :: "lexstate option list"
  lx_ShortOpenTag :: bool

definition NewLexerWithShortTag :: "bytes \<Rightarrow> bytes \<Rightarrow> bool \<Rightarrow> lexer" where
  "NewLexerWithShortTag i fn shortOpenTag =
     \<lparr>lx_input = i, lx_fn = fn, lx_start = 0, lx_pos = 0, lx_width = 0, lx_items = [],
      lx_prevItem = None, lx_base = None, lx_inputRst = [], lx_output = [],
      lx_sLine = 1, lx_sChar = 0, lx_cLine = 1, lx_cChar = 0, lx_pLine = 0, lx_pChar = 0,
      lx_baseStack = [], lx_ShortOpenTag = shortOpenTag\<rparr>"

definition NewLexer :: "bytes \<Rightarrow> bytes \<Rightarrow> lexer" where
  "NewLexer i fn = NewLexerWithShortTag i fn True"

definition NewLexerPhp :: "bytes \<Rightarrow> bytes \<Rightarrow> lexer" where
  "NewLexerPhp i fn =
     (NewLexerWithShortTag i fn False)\<lparr>lx_base := Some LexText\<rparr>"

section \<open>The state stack\<close>

definition lx_push :: "lexstate option \<Rightarrow> lexer \<Rightarrow> lexer" where
  "lx_push s l = l\<lparr>lx_baseStack := lx_baseStack l @ [lx_base l], lx_base := s\<rparr>"

text \<open>Popping the empty stack is an index out of range, a Go panic: \<open>None\<close>.\<close>

definition lx_pop :: "lexer \<Rightarrow> lexer option" where
  "lx_pop l =
     (if lx_baseStack l = [] then None
      else Some (l\<lparr>lx_base := last (lx_baseStack l), lx_baseStack := butlast (lx_baseStack l)\<rparr>))"

section \<open>Emitting items\<close>

definition lx_emitWithData :: "item_type \<Rightarrow> bytes \<Rightarrow> lexer \<Rightarrow> lexer" where
  "lx_emitWithData t data l =
     (let item = \<lparr>it_Type = t, it_Data = data, it_Filename = lx_fn l,
                  it_Line = lx_sLine l, it_Char = lx_sChar l\<rparr> in
      l\<lparr>lx_items := lx_items l @ [item], lx_prevItem := Some item, lx_start := lx_pos l,
        lx_sLine := lx_cLine l, lx_sChar := lx_cChar l, lx_output := []\<rparr>)"

definition lx_emit :: "item_type \<Rightarrow> lexer \<Rightarrow> lexer" where
  "lx_emit t l =
     (let item = \<lparr>it_Type = t, it_Data = lx_output l, it_Filename = lx_fn l,
                  it_Line = lx_sLine l, it_Char = lx_sChar l\<rparr> in
      l\<lparr>lx_items := lx_items l @ [item], lx_prevItem := Some item, lx_start := lx_pos l,
        lx_sLine := lx_cLine l, lx_sChar := lx_cChar l, lx_output := []\<rparr>)"

text \<open>\<open>error\<close> sends an error item and nothing else; the state function that calls it returns
  \<open>nil\<close>.\<close>

definition lx_error :: "bytes \<Rightarrow> lexer \<Rightarrow> lexer" where
  "lx_error msg l =
     l\<lparr>lx_items := lx_items l @
        [\<lparr>it_Type = itemError, it_Data = msg, it_Filename = lx_fn l,
          it_Line = lx_sLine l, it_Char = lx_sChar l\<rparr>]\<rparr>"

section \<open>Reading\<close>

text \<open>The part of \<open>next\<close> after the rune has been read: positions, output, line count.\<close>

definition lx_consume :: "rune \<Rightarrow> bytes \<Rightarrow> lexer \<Rightarrow> lexer" where
  "lx_consume r out l =
     (let l = l\<lparr>lx_pos := lx_pos l + lx_width l, lx_pLine := lx_cLine l, lx_pChar := lx_cChar l,
                lx_output := lx_output l @ out, lx_cChar := lx_cChar l + 1\<rparr> in
      if r = 10 then l\<lparr>lx_cLine := lx_cLine l + 1, lx_cChar := 0\<rparr> else l)"

text \<open>\<open>next\<close>: pushed-back input first, then the reader. A byte that is not UTF-8 is written to
  the output as it is, every other rune as its encoding. At the end of the input the width
  becomes 0, so that a \<open>backup\<close> after it does nothing.\<close>

definition lx_next :: "lexer \<Rightarrow> rune \<times> lexer" where
  "lx_next l =
     (if lx_inputRst l \<noteq> [] then
        (case decode_rune (lx_inputRst l) of (r, w) \<Rightarrow>
           let isRawByte = (r = rune_error \<and> w = 1);
               rawByte = hd (lx_inputRst l);
               l = l\<lparr>lx_width := w, lx_inputRst := drop w (lx_inputRst l)\<rparr> in
           (r, lx_consume r (if isRawByte then [rawByte] else encode_rune r) l))
      else if lx_input l = [] then (rune_eof, l\<lparr>lx_width := 0\<rparr>)
      else
        (case decode_rune (lx_input l) of (r, w) \<Rightarrow>
           let isRawByte = (r = rune_error \<and> w = 1);
               rawByte = hd (lx_input l);
               l = l\<lparr>lx_width := w, lx_input := drop w (lx_input l)\<rparr> in
           (r, lx_consume r (if isRawByte then [rawByte] else encode_rune r) l)))"

definition lx_ignore :: "lexer \<Rightarrow> lexer" where
  "lx_ignore l =
     l\<lparr>lx_start := lx_pos l, lx_sLine := lx_cLine l, lx_sChar := lx_cChar l, lx_output := []\<rparr>"

definition lx_reset :: "lexer \<Rightarrow> lexer" where
  "lx_reset l =
     (let tmp = lx_output l in
      l\<lparr>lx_inputRst := (if lx_inputRst l = [] then tmp else tmp @ lx_inputRst l),
        lx_output := [], lx_pos := lx_pos l - length tmp,
        lx_cLine := lx_sLine l, lx_cChar := lx_sChar l\<rparr>)"

definition lx_backup :: "lexer \<Rightarrow> lexer" where
  "lx_backup l =
     (if lx_width l = 0 then l
      else
        (let tmp = lx_output l;
             keep = length tmp - lx_width l in
         l\<lparr>lx_output := take keep tmp, lx_inputRst := drop keep tmp @ lx_inputRst l,
           lx_pos := lx_pos l - lx_width l,
           lx_cLine := lx_pLine l, lx_cChar := lx_pChar l, lx_width := 0\<rparr>))"

definition lx_peekString :: "nat \<Rightarrow> lexer \<Rightarrow> bytes" where
  "lx_peekString ln l =
     (if lx_inputRst l \<noteq> [] then
        (if ln \<le> length (lx_inputRst l) then take ln (lx_inputRst l)
         else lx_inputRst l @ take (ln - length (lx_inputRst l)) (lx_input l))
      else take ln (lx_input l))"

definition lx_peek :: "lexer \<Rightarrow> rune" where
  "lx_peek l =
     (let s = lx_peekString 4 l in
      if s = [] then rune_eof else fst (decode_rune s))"

definition lx_hasPrefix :: "bytes \<Rightarrow> lexer \<Rightarrow> bool" where
  "lx_hasPrefix s l = (lx_peekString (length s) l = s)"

definition lx_hasPrefixI :: "bytes \<Rightarrow> lexer \<Rightarrow> bool" where
  "lx_hasPrefixI s l = (go_to_lower (lx_peekString (length s) l) = go_to_lower s)"

fun lx_advance :: "nat \<Rightarrow> lexer \<Rightarrow> lexer" where
  "lx_advance 0 l = l"
| "lx_advance (Suc n) l = lx_advance n (snd (lx_next l))"

definition lx_accept :: "bytes \<Rightarrow> lexer \<Rightarrow> bool \<times> lexer" where
  "lx_accept valid l =
     (case lx_next l of (c, l') \<Rightarrow>
        if contains_rune valid c then (True, l') else (False, lx_backup l'))"

text \<open>\<open>len([]rune(s))\<close>.\<close>

function rune_count :: "bytes \<Rightarrow> nat" where
  "rune_count [] = 0"
| "rune_count (c # cs) = Suc (rune_count (drop (snd (decode_rune (c # cs))) (c # cs)))"
  by pat_completeness auto
termination
proof (relation "measure length")
  fix c cs
  obtain r w where "decode_rune (c # cs) = (r, w)" by force
  then show "(drop (snd (decode_rune (c # cs))) (c # cs), c # cs) \<in> measure length"
    using decode_rune_width_pos[of "c # cs" r w] by (cases w) auto
qed simp

definition lx_acceptFixed :: "bytes \<Rightarrow> lexer \<Rightarrow> bool \<times> lexer" where
  "lx_acceptFixed s l =
     (if \<not> lx_hasPrefix s l then (False, l) else (True, lx_advance (rune_count s) l))"

definition lx_acceptFixedI :: "bytes \<Rightarrow> lexer \<Rightarrow> bool \<times> lexer" where
  "lx_acceptFixedI s l =
     (if \<not> lx_hasPrefixI s l then (False, l) else (True, lx_advance (rune_count s) l))"

section \<open>Reading runs\<close>

text \<open>The input that is left, and that \<open>next\<close> shortens it unless it is at the end: the measure
  of the loops.\<close>

definition lx_rest :: "lexer \<Rightarrow> bytes" where
  "lx_rest l = lx_inputRst l @ lx_input l"

lemma lx_rest_consume [simp]: "lx_rest (lx_consume r out l) = lx_rest l"
  by (simp add: lx_rest_def lx_consume_def Let_def)

lemma lx_next_shorter:
  assumes "lx_next l = (c, l')" "c \<noteq> rune_eof"
  shows "length (lx_rest l') < length (lx_rest l)"
proof -
  have drop_less: "length (drop w s) < length s" if "decode_rune s = (r, w)" "s \<noteq> []" for s r w
    using decode_rune_width_pos[OF that(2,1)] that(2) by (cases w; cases s) auto
  show ?thesis
    using assms drop_less
    by (auto simp: lx_next_def lx_rest_def lx_consume_def Let_def rune_eof_def
        split: if_splits prod.splits)
qed

function lx_acceptRun :: "bytes \<Rightarrow> bytes \<Rightarrow> lexer \<Rightarrow> bytes \<times> lexer" where
  "lx_acceptRun valid b l =
     (let (v, l') = lx_next l in
      if v = rune_eof then (b, l')
      else if contains_rune valid v then lx_acceptRun valid (b @ encode_rune v) l'
      else (b, lx_backup l'))"
  by pat_completeness auto
termination
proof (relation "measure (\<lambda>(valid, b, l). length (lx_rest l))", goal_cases)
  case (2 valid b l x v l')
  from lx_next_shorter[of l v l'] 2(1,2,3) show ?case by auto
qed simp

declare lx_acceptRun.simps [simp del]

definition space_chars :: bytes where
  "space_chars = [CHR 0x20, CHR 0x09, CHR 0x0D, CHR 0x0A]"

definition lx_acceptSpace :: "lexer \<Rightarrow> bool \<times> lexer" where
  "lx_acceptSpace l = lx_accept space_chars l"

definition lx_acceptSpaces :: "lexer \<Rightarrow> bytes \<times> lexer" where
  "lx_acceptSpaces l = lx_acceptRun space_chars [] l"

text \<open>\<open>acceptUntilFixed\<close>: \<open>p\<close> counts the runes of \<open>s\<close> matched so far; on a mismatch the match
  restarts, and the current rune is compared with the first rune of \<open>s\<close> again.\<close>

function lx_acceptUntilFixed :: "bytes \<Rightarrow> nat \<Rightarrow> lexer \<Rightarrow> lexer" where
  "lx_acceptUntilFixed s p l =
     (if p \<ge> length s then l
      else
        (let (c, l') = lx_next l in
         if c = rune_eof then l'
         else if c = byte (s ! p) then lx_acceptUntilFixed s (p + 1) l'
         else lx_acceptUntilFixed s (if c = byte (s ! 0) then 1 else 0) l'))"
  by pat_completeness auto
termination
proof (relation "measure (\<lambda>(s, p, l). length (lx_rest l))", goal_cases)
  case (2 s p l x c l')
  from lx_next_shorter[of l c l'] 2(2,3,4) show ?case by auto
next
  case (3 s p l x c l')
  from lx_next_shorter[of l c l'] 3(2,3,4) show ?case by auto
qed simp

declare lx_acceptUntilFixed.simps [simp del]

section \<open>Labels\<close>

definition label_start_rune :: "rune \<Rightarrow> bool" where
  "label_start_rune c =
     ((97 \<le> c \<and> c \<le> 122) \<or> (65 \<le> c \<and> c \<le> 90) \<or> c = 95 \<or> 128 \<le> c)"

definition label_rune :: "rune \<Rightarrow> bool" where
  "label_rune c =
     ((97 \<le> c \<and> c \<le> 122) \<or> (65 \<le> c \<and> c \<le> 90) \<or> (48 \<le> c \<and> c \<le> 57) \<or> c = 95 \<or> 128 \<le> c)"

function lx_label_loop :: "lexer \<Rightarrow> lexer" where
  "lx_label_loop l =
     (let (c, l') = lx_next l in
      if label_rune c then lx_label_loop l' else lx_backup l')"
  by pat_completeness auto
termination
proof (relation "measure (\<lambda>l. length (lx_rest l))", goal_cases)
  case (2 l x c l')
  have "c \<noteq> rune_eof" using 2(3) by (auto simp: label_rune_def rune_eof_def)
  with lx_next_shorter[of l c l'] 2(1,2) show ?case by auto
qed simp

declare lx_label_loop.simps [simp del]

definition lx_acceptPhpLabel :: "lexer \<Rightarrow> bytes \<times> lexer" where
  "lx_acceptPhpLabel l =
     (let labelStart = length (lx_output l);
          (c, l1) = lx_next l in
      if label_start_rune c
      then (let l2 = lx_label_loop l1 in (drop labelStart (lx_output l2), l2))
      else ([], lx_backup l1))"

text \<open>\<open>isAlphaNumeric\<close> of \<^verbatim>\<open>rune.go\<close>.\<close>

definition isAlphaNumeric :: "rune \<Rightarrow> bool" where
  "isAlphaNumeric r =
     (if 97 \<le> r \<and> r \<le> 122 then True
      else if 65 \<le> r \<and> r \<le> 90 then True
      else if 48 \<le> r \<and> r \<le> 57 then True
      else False)"

end
