(* ===== verification/LexStates.thy ===== *)
theory LexStates
  imports LexCore
begin

text \<open>
  The state functions of the PHP lexer (\<^verbatim>\<open>php.go\<close>, \<^verbatim>\<open>text.go\<close>, \<^verbatim>\<open>comment.go\<close>, \<^verbatim>\<open>cast.go\<close>,
  \<^verbatim>\<open>number.go\<close>, \<^verbatim>\<open>operator.go\<close>, \<^verbatim>\<open>label.go\<close>, \<^verbatim>\<open>string.go\<close>, \<^verbatim>\<open>heredoc.go\<close> under
  \<^verbatim>\<open>src/core/tokenizer\<close>) and the loop that runs them (\<open>run\<close> of \<^verbatim>\<open>lexer.go\<close>).

  A state function returns \<open>Goto s l\<close>: the next state (\<open>None\<close> ends the run) and the lexer.
  \<open>LexPanic\<close> is a Go panic, which \<open>run\<close> recovers from. The loops over the input that call other
  state functions, or that the source does not end at the end of the input, take fuel and return
  \<open>LexHang\<close> when it is used up.
\<close>

datatype lex_out = Goto "lexstate option" lexer | LexPanic lexer | LexHang

text \<open>\<open>return l.base\<close>, and a call whose returned state is discarded.\<close>

definition to_base :: "lexer \<Rightarrow> lex_out" where
  "to_base l = Goto (lx_base l) l"

definition lex_then :: "lex_out \<Rightarrow> (lexer \<Rightarrow> lex_out) \<Rightarrow> lex_out" where
  "lex_then r k = (case r of Goto _ l \<Rightarrow> k l | LexPanic l \<Rightarrow> LexPanic l | LexHang \<Rightarrow> LexHang)"

definition pop_to_base :: "lexer \<Rightarrow> lex_out" where
  "pop_to_base l = (case lx_pop l of None \<Rightarrow> LexPanic l | Some l \<Rightarrow> to_base l)"

definition fail_with :: "bytes \<Rightarrow> lexer \<Rightarrow> lex_out" where
  "fail_with msg l = Goto None (lx_error msg l)"

text \<open>\<open>if l.pos > l.start { l.emit(t) }\<close>.\<close>

definition emit_pending :: "item_type \<Rightarrow> lexer \<Rightarrow> lexer" where
  "emit_pending t l = (if lx_pos l > lx_start l then lx_emit t l else l)"

text \<open>\<open>l.emit(Rune(l.next()))\<close>.\<close>

definition emit_next_rune :: "lexer \<Rightarrow> lexer" where
  "emit_next_rune l = (case lx_next l of (r, l') \<Rightarrow> lx_emit (RuneType r) l')"

abbreviation lx_skip :: "lexer \<Rightarrow> lexer" where
  "lx_skip l \<equiv> snd (lx_next l)"

abbreviation (input) cc :: "char \<Rightarrow> rune" where "cc c \<equiv> byte c"

section \<open>Operators, variables, labels\<close>

definition lexPhpOperator :: "lexer \<Rightarrow> lex_out" where
  "lexPhpOperator l =
     (case map_of lexPhpOps (lx_peekString 3 l) of
        Some t \<Rightarrow> to_base (lx_emit t (lx_advance 3 l))
      | None \<Rightarrow>
         (case map_of lexPhpOps (lx_peekString 2 l) of
            Some t \<Rightarrow>
              (let l = lx_advance 2 l in
               if t = T_CLOSE_TAG then
                 (let l = snd (lx_accept [CHR 0x0D] l);
                      l = snd (lx_accept [CHR 0x0A] l) in
                  pop_to_base (lx_emit t l))
               else to_base (lx_emit t l))
          | None \<Rightarrow> to_base (emit_next_rune l)))"

definition lexPhpVariable :: "lexer \<Rightarrow> lex_out" where
  "lexPhpVariable l =
     (let (lbl, l) = lx_acceptPhpLabel (lx_advance 1 l) in
      if lbl = [] then to_base (lx_emit (RuneType (cc (CHR ''$''))) l)
      else to_base (lx_emit T_VARIABLE l))"

definition lexPhpString :: "lexer \<Rightarrow> lex_out" where
  "lexPhpString l =
     (let (lbl, l) = lx_acceptPhpLabel l;
          t = labelType lbl;
          c = lx_peek l in
      if t = T_STRING \<and> (lbl = ''b'' \<or> lbl = ''B'')
         \<and> (c = cc (CHR 0x22) \<or> c = cc (CHR 0x27) \<or> c = cc (CHR 0x60))
      then Goto (Some LexPhpStringConst) (lx_ignore l)
      else if t = T_STRING \<and> (lbl = ''b'' \<or> lbl = ''B'') \<and> lx_hasPrefix ''<<<'' l
      then Goto (Some LexPhpHeredoc) (lx_ignore l)
      else
        (let l = lx_emit t l in
         if t = T_HALT_COMPILER then Goto None (lx_emit T_EOF l)
         else to_base l))"

section \<open>Comments, attributes, casts\<close>

fun eol_comment_loop :: "nat \<Rightarrow> lexer \<Rightarrow> lex_out" where
  "eol_comment_loop 0 l = LexHang"
| "eol_comment_loop (Suc n) l =
     (if lx_hasPrefix ''?>'' l then to_base (lx_emit T_COMMENT l)
      else
        (let (c, l) = lx_next l in
         if c = rune_eof \<or> c = 13 \<or> c = 10 then to_base (lx_emit T_COMMENT l)
         else eol_comment_loop n l))"

definition lexPhpEolComment :: "nat \<Rightarrow> lexer \<Rightarrow> lex_out" where
  "lexPhpEolComment n l = eol_comment_loop n l"

definition lexPhpAttribute :: "lexer \<Rightarrow> lex_out" where
  "lexPhpAttribute l = to_base (lx_emit T_ATTRIBUTE (lx_skip (lx_skip l)))"

definition lexPhpBlockComment :: "lexer \<Rightarrow> lex_out" where
  "lexPhpBlockComment l =
     (let t = (if lx_hasPrefix ''/**'' l then T_DOC_COMMENT else T_COMMENT) in
      to_base (lx_emit t (lx_acceptUntilFixed ''*/'' 0 l)))"

definition lexPhpPossibleCast :: "lexer \<Rightarrow> lex_out" where
  "lexPhpPossibleCast l =
     (let l = lx_skip l;
          l = snd (lx_acceptSpaces l);
          (typ, l) = lx_acceptPhpLabel l;
          l = snd (lx_acceptSpaces l);
          (closed, l) = lx_accept '')'' l;
          ltyp = go_to_lower typ in
      if closed \<and> (ltyp = ''int'' \<or> ltyp = ''integer'') then to_base (lx_emitWithData T_INT_CAST ltyp l)
      else if closed \<and> (ltyp = ''bool'' \<or> ltyp = ''boolean'')
        then to_base (lx_emitWithData T_BOOL_CAST ltyp l)
      else if closed \<and> (ltyp = ''float'' \<or> ltyp = ''double'')
        then to_base (lx_emitWithData T_DOUBLE_CAST ltyp l)
      else if closed \<and> ltyp = ''real'' then to_base (lx_emitWithData T_DOUBLE_CAST ''real'' l)
      else if closed \<and> (ltyp = ''string'' \<or> ltyp = ''binary'')
        then to_base (lx_emitWithData T_STRING_CAST ltyp l)
      else if closed \<and> ltyp = ''array'' then to_base (lx_emit T_ARRAY_CAST l)
      else if closed \<and> ltyp = ''object'' then to_base (lx_emit T_OBJECT_CAST l)
      else if closed \<and> ltyp = ''unset'' then to_base (lx_emit T_UNSET_CAST l)
      else if closed \<and> ltyp = ''void'' then to_base (lx_emit T_VOID_CAST l)
      else to_base (lx_emit (RuneType (cc (CHR ''(''))) (lx_skip (lx_reset l))))"

section \<open>Numbers\<close>

text \<open>The loop that collects the rest of a bad identifier:
  \<open>for isAlphaNumeric(l.peek()) || l.peek() == '_' { suffix += string(l.next()) }\<close>.\<close>

fun ident_tail :: "nat \<Rightarrow> bytes \<Rightarrow> lexer \<Rightarrow> bytes \<times> lexer" where
  "ident_tail 0 acc l = (acc, l)"
| "ident_tail (Suc n) acc l =
     (if isAlphaNumeric (lx_peek l) \<or> lx_peek l = 95 then
        (case lx_next l of (c, l') \<Rightarrow> ident_tail n (acc @ encode_rune c) l')
      else (acc, l))"

definition unexpected_identifier :: "bytes \<Rightarrow> bytes" where
  "unexpected_identifier suffix =
     ''syntax error, unexpected identifier '' @ [CHR 0x22] @ suffix @ [CHR 0x22]"

text \<open>The error for an underscore right after \<open>0x\<close>, \<open>0b\<close> or \<open>0o\<close>. The tail is read with
  one unit of fuel per byte of the input that is left, which is enough
  (lemma \<open>ident_tail_stops\<close>).\<close>

definition prefix_underscore_error :: "lexer \<Rightarrow> lex_out" where
  "prefix_underscore_error l =
     (let suffix = [last (lx_output l)];
          l = lx_skip l;
          (suffix, l) = ident_tail (length (lx_rest l)) (suffix @ ''_'') l in
      fail_with (unexpected_identifier suffix) l)"

text \<open>The positions of a misplaced underscore, in the order the code looks for them: the error
  suffix starts at the returned offset of the literal.\<close>

fun exponent_underscore :: "bytes \<Rightarrow> nat option" where
  "exponent_underscore (a # b # cs) =
     (if a = CHR ''_'' \<and> (b = CHR ''e'' \<or> b = CHR ''E'') then Some 0
      else if (a = CHR ''e'' \<or> a = CHR ''E'') \<and> b = CHR ''_'' then Some 0
      else if (a = CHR ''e'' \<or> a = CHR ''E'') \<and> (b = CHR ''+'' \<or> b = CHR ''-'')
              \<and> cs \<noteq> [] \<and> hd cs = CHR ''_'' then Some 0
      else map_option Suc (exponent_underscore (b # cs)))"
| "exponent_underscore _ = None"

definition bad_underscore :: "bytes \<Rightarrow> bool \<Rightarrow> nat option" where
  "bad_underscore valPart allowDecimal =
     (if valPart \<noteq> [] \<and> last valPart = CHR ''_'' then Some (length valPart - 1)
      else case index_sub valPart ''__'' of
        Some idx \<Rightarrow> Some idx
      | None \<Rightarrow>
         (case index_sub valPart ''_.'' of
            Some idx \<Rightarrow> Some idx
          | None \<Rightarrow>
             (case index_sub valPart ''._'' of
                Some idx \<Rightarrow> Some (idx + 1)
              | None \<Rightarrow> if allowDecimal then exponent_underscore valPart else None)))"

text \<open>The part of \<open>lexNumber\<close> after the prefix: the digits, the fraction and exponent, and the
  checks on underscores.\<close>

definition number_body :: "bytes \<Rightarrow> bool \<Rightarrow> lexer \<Rightarrow> item_type \<times> lexer" where
  "number_body digits allowDecimal l =
     (let l = snd (lx_acceptRun digits [] l); t = T_LNUMBER in
      if allowDecimal then
        (let (dot, l) = lx_accept ''.'' l;
             (t, l) = (if dot then (T_DNUMBER, snd (lx_acceptRun digits [] l)) else (t, l));
             (e, l) = lx_accept ''eE'' l in
         if e then (T_DNUMBER, snd (lx_acceptRun digits [] (snd (lx_accept ''+-'' l))))
         else (t, l))
      else (t, l))"

definition number_finish :: "item_type \<Rightarrow> bool \<Rightarrow> lexer \<Rightarrow> lex_out" where
  "number_finish t allowDecimal l =
     (if isAlphaNumeric (lx_peek l) then fail_with ''Invalid numeric literal'' (lx_skip l)
      else
        (let s = lx_output l in
         if CHR ''_'' \<in> set s then
           (let valPart = dropWhile (\<lambda>c. c = CHR ''+'' \<or> c = CHR ''-'') s in
            case bad_underscore valPart allowDecimal of
              Some from \<Rightarrow>
                (let (extra, l) = ident_tail (length (lx_rest l)) [] l in
                 fail_with (unexpected_identifier (drop from valPart @ extra)) l)
            | None \<Rightarrow> to_base (lx_emit t (l\<lparr>lx_output := strip_underscores s\<rparr>)))
         else to_base (lx_emit t l)))"

definition lexNumber :: "lexer \<Rightarrow> lex_out" where
  "lexNumber l =
     (let l = snd (lx_accept ''+-'' l);
          digits = ''0123456789_'';
          finish = (\<lambda>digits allowDecimal l.
            case number_body digits allowDecimal l of (t, l) \<Rightarrow> number_finish t allowDecimal l);
          (zero, l) = lx_accept ''0'' l in
      if \<not> zero then finish digits True l
      else
        (let (hex, l) = lx_accept ''xX'' l in
         if hex then
           (if lx_peek l = 95 then prefix_underscore_error l
            else finish ''0123456789abcdefABCDEF_'' False l)
         else
           (let (bin, l) = lx_accept ''bB'' l in
            if bin then
              (if lx_peek l = 95 then prefix_underscore_error l else finish ''01_'' False l)
            else
              (let (oct, l) = lx_accept ''oO'' l in
               if oct then
                 (if lx_peek l = 95 then prefix_underscore_error l
                  else finish ''01234567_'' False l)
               else finish digits True l))))"

section \<open>PHP code\<close>

definition lexPhp :: "lexer \<Rightarrow> lex_out" where
  "lexPhp l =
     (let c = lx_peek l in
      if c = 32 \<or> c = 13 \<or> c = 10 \<or> c = 9 then
        to_base (lx_emit T_WHITESPACE
                  (snd (lx_acceptRun [CHR 0x20, CHR 0x0D, CHR 0x0A, CHR 0x09] [] l)))
      else if c = cc (CHR ''('') then Goto (Some LexPhpPossibleCast) l
      else if contains_rune ''),{};'' c then to_base (emit_next_rune l)
      else if c = cc (CHR ''$'') then Goto (Some LexPhpVariable) l
      else if c = cc (CHR ''#'') then
        (if lx_hasPrefix ''#['' l then Goto (Some LexPhpAttribute) l
         else Goto (Some LexPhpEolComment) l)
      else if c = cc (CHR ''/'') then
        (if lx_hasPrefix ''//'' l then Goto (Some LexPhpEolComment) l
         else if lx_hasPrefix ''/*'' l then Goto (Some LexPhpBlockComment) l
         else Goto (Some LexPhpOperator) l)
      else if contains_rune ''*+-&|^?>=:!@[]%~'' c then Goto (Some LexPhpOperator) l
      else if c = cc (CHR ''.'') then
        (let v = lx_peekString 2 l in
         if length v = 2 \<and> is_digit (v ! 1) then Goto (Some LexNumber) l
         else Goto (Some LexPhpOperator) l)
      else if c = cc (CHR ''<'') then
        (if lx_hasPrefix ''<<<'' l then Goto (Some LexPhpHeredoc) l
         else Goto (Some LexPhpOperator) l)
      else if c = cc (CHR 0x27) \<or> c = cc (CHR 0x60) \<or> c = cc (CHR 0x22)
        then Goto (Some LexPhpStringConst) l
      else if c = cc (CHR 0x5C) then to_base (lx_emit T_NS_SEPARATOR (lx_skip l))
      else if c = rune_eof then Goto None (lx_emit T_EOF l)
      else if 48 \<le> c \<and> c \<le> 57 then Goto (Some LexNumber) l
      else if label_start_rune c then Goto (Some LexPhpString) l
      else if c < 32 \<or> c = 127
        then fail_with (''syntax error, unexpected character 0x'' @ hex2_upper c) l
      else fail_with (''syntax error, unexpected character '' @ encode_rune c) l)"

section \<open>Text outside PHP tags\<close>

definition eqi :: "char \<Rightarrow> char \<Rightarrow> char \<Rightarrow> bool" where
  "eqi c lo up = (c = lo \<or> c = up)"

definition is_php_tag :: "lexer \<Rightarrow> bool" where
  "is_php_tag l =
     (let ahead = lx_peekString 6 l in
      if length ahead \<ge> 3 \<and> ahead ! 2 = CHR ''='' then True
      else if length ahead \<ge> 5 \<and> eqi (ahead ! 2) (CHR ''p'') (CHR ''P'')
              \<and> eqi (ahead ! 3) (CHR ''h'') (CHR ''H'') \<and> eqi (ahead ! 4) (CHR ''p'') (CHR ''P'')
        then True
      else lx_ShortOpenTag l)"

fun text_loop :: "nat \<Rightarrow> lexer \<Rightarrow> lex_out" where
  "text_loop 0 l = LexHang"
| "text_loop (Suc n) l =
     (if lx_hasPrefix ''<?'' l then
        (if is_php_tag l then Goto (Some LexPhpOpen) (emit_pending T_INLINE_HTML l)
         else text_loop n (lx_skip l))
      else
        (let (c, l) = lx_next l in
         if c = rune_eof then Goto None (lx_emit T_EOF (emit_pending T_INLINE_HTML l))
         else text_loop n (if length (lx_output l) \<ge> 8192 then lx_emit T_INLINE_HTML l else l)))"

fun shebang_loop :: "nat \<Rightarrow> lexer \<Rightarrow> lexer" where
  "shebang_loop 0 l = l"
| "shebang_loop (Suc n) l =
     (let (c, l) = lx_next l in
      if c = 10 \<or> c = rune_eof then l else shebang_loop n l)"

definition lexText :: "nat \<Rightarrow> lexer \<Rightarrow> lex_out" where
  "lexText n l =
     (let l = (if lx_pos l = 0 \<and> lx_start l = 0
                  \<and> lx_hasPrefix [CHR 0xEF, CHR 0xBB, CHR 0xBF] l
               then lx_ignore (lx_skip l) else l);
          l = (if lx_start l = lx_pos l \<and> lx_pos l \<le> 3 \<and> lx_hasPrefix ''#!'' l
               then lx_ignore (shebang_loop (length (lx_rest l) + 1) l) else l) in
      text_loop n l)"

definition lexPhpOpen :: "lexer \<Rightarrow> lex_out" where
  "lexPhpOpen l =
     (let l = lx_advance 2 l in
      if lx_peek l = cc (CHR ''='') then
        to_base (lx_push (Some LexPhp) (lx_emit T_OPEN_TAG_WITH_ECHO (lx_skip l)))
      else
        (let l = snd (lx_acceptFixedI ''php'' l);
             (readSpaces, l) = lx_acceptSpace l in
         if \<not> readSpaces \<and> lx_peek l > 0 \<and> lx_peekString 2 l \<noteq> ''?>''
         then fail_with ''php tag should be followed by a whitespace'' l
         else to_base (lx_push (Some LexPhp) (lx_emit T_OPEN_TAG l))))"

section \<open>Strings\<close>

text \<open>The loop over a single-quoted string. The source does not look for the end of the input
  here, so an unterminated string is read forever.\<close>

fun squote_loop :: "rune \<Rightarrow> nat \<Rightarrow> lexer \<Rightarrow> lex_out" where
  "squote_loop st 0 l = LexHang"
| "squote_loop st (Suc n) l =
     (let (c, l) = lx_next l in
      if c = st then to_base (lx_emit T_CONSTANT_ENCAPSED_STRING l)
      else if c = cc (CHR 0x5C) then squote_loop st n (lx_skip l)
      else squote_loop st n l)"

definition lexPhpStringConst :: "nat \<Rightarrow> lexer \<Rightarrow> lex_out" where
  "lexPhpStringConst n l =
     (let (st, l) = lx_next l in
      if st = cc (CHR 0x22)
      then to_base (lx_push (Some (StringLexer (cc (CHR 0x22)))) (lx_emit (RuneType (cc (CHR 0x22))) l))
      else if st = cc (CHR 0x60)
      then to_base (lx_push (Some (StringLexer (cc (CHR 0x60)))) (lx_emit (RuneType (cc (CHR 0x60))) l))
      else squote_loop st n l)"

definition isVarStartChar :: "char \<Rightarrow> bool" where
  "isVarStartChar c =
     ((97 \<le> byte c \<and> byte c \<le> 122) \<or> (65 \<le> byte c \<and> byte c \<le> 90) \<or> c = CHR ''_''
      \<or> byte c \<ge> 128 \<or> c = CHR ''{'')"

definition literal_dollar :: "lexer \<Rightarrow> bool" where
  "literal_dollar l =
     (let ps = lx_peekString 2 l in length ps < 2 \<or> \<not> isVarStartChar (ps ! 1))"

text \<open>\<open>emit(Rune(next()))\<close> twice, for \<open>${\<close>; and \<open>next\<close>, \<open>emit(Rune('{'))\<close> for \<open>{$\<close>.\<close>

definition emit_dollar_brace :: "lexer \<Rightarrow> lexer" where
  "emit_dollar_brace l = emit_next_rune (emit_next_rune l)"

definition emit_open_brace :: "lexer \<Rightarrow> lexer" where
  "emit_open_brace l = lx_emit (RuneType (cc (CHR ''{''))) (lx_skip l)"

fun string_loop :: "rune \<Rightarrow> nat \<Rightarrow> lexer \<Rightarrow> lex_out" where
  "string_loop delim 0 l = LexHang"
| "string_loop delim (Suc n) l =
     (let c = lx_peek l in
      if c = rune_eof then
        fail_with ''unexpected eof in string'' (lx_emit T_ENCAPSED_AND_WHITESPACE l)
      else if c = delim then
        pop_to_base (lx_emit (RuneType c) (lx_skip (emit_pending T_ENCAPSED_AND_WHITESPACE l)))
      else if c = cc (CHR 0x5C) then string_loop delim n (lx_skip (lx_skip l))
      else if c = cc (CHR ''$'') then
        (if literal_dollar l then string_loop delim n (lx_skip l)
         else
           (let l = emit_pending T_ENCAPSED_AND_WHITESPACE l in
            if lx_hasPrefix ''${'' l then
              to_base (lx_push (Some LexInterpolatedComplexVar)
                (emit_dollar_brace (emit_pending T_ENCAPSED_AND_WHITESPACE l)))
            else
              lex_then (lexPhpVariable l) (\<lambda>l.
                if lx_peek l = cc (CHR ''-'') \<and> lx_peekString 2 l = ''->''
                then to_base (lx_push (Some LexInterpolatedObjectOp) l)
                else if lx_peek l = cc (CHR ''['')
                then to_base (lx_push (Some LexInterpolatedArrayAccess) l)
                else string_loop delim n l)))
      else if c = cc (CHR ''{'') then
        (if lx_hasPrefix ''{$'' l then
           lex_then (lexPhpVariable (emit_open_brace (emit_pending T_ENCAPSED_AND_WHITESPACE l)))
             (\<lambda>l. to_base (lx_push (Some LexInterpolatedComplexVar) l))
         else string_loop delim n (lx_skip l))
      else string_loop delim n (lx_skip l))"

section \<open>Interpolation\<close>

definition lexInterpolatedObjectOp :: "lexer \<Rightarrow> lex_out" where
  "lexInterpolatedObjectOp l = lex_then (lexPhpOperator l) (\<lambda>l. lex_then (lexPhpString l) pop_to_base)"

definition expecting_offset :: bytes where
  "expecting_offset =
     '', expecting identifier (T_STRING) or variable (T_VARIABLE) or number (T_NUM_STRING)''"

definition lexInterpolatedArrayAccess :: "lexer \<Rightarrow> lex_out" where
  "lexInterpolatedArrayAccess l =
     lex_then (lexPhpOperator l) (\<lambda>l.
       let c = lx_peek l;
           close = (\<lambda>l. lex_then (lexPhpOperator l) pop_to_base) in
       if c = cc (CHR ''$'') then lex_then (lexPhpVariable l) close
       else if c = cc (CHR ''-'') then
         (let l = lx_skip l in
          if 48 \<le> lx_peek l \<and> lx_peek l \<le> 57 then lex_then (lexNumber l) close
          else fail_with (''syntax error, unexpected character -'' @ expecting_offset) l)
       else if 48 \<le> c \<and> c \<le> 57 then lex_then (lexNumber l) close
       else if label_start_rune c then lex_then (lexPhpString l) close
       else if c < 32 \<or> c = 127
       then fail_with (''syntax error, unexpected character 0x''
                        @ (if c < 0 then ''-01'' else hex2_upper c) @ expecting_offset) l
       else fail_with (''syntax error, unexpected character '' @ encode_rune c @ expecting_offset) l)"

definition lexInterpolatedComplexVar :: "lexer \<Rightarrow> lex_out" where
  "lexInterpolatedComplexVar l =
     (if lx_peek l = cc (CHR ''}'') then pop_to_base (emit_next_rune l) else lexPhp l)"

section \<open>Heredoc\<close>

text \<open>The flexible end marker: white space, the marker, then a terminator or the end of the input.
  Returns the indentation and the number of bytes up to the end of the marker.\<close>

definition is_blank :: "char \<Rightarrow> bool" where
  "is_blank c = (c = CHR 0x20 \<or> c = CHR 0x09)"

definition checkFlexibleEndMarker :: "lexer \<Rightarrow> bytes \<Rightarrow> (bytes \<times> nat) option" where
  "checkFlexibleEndMarker l marker =
     (let s = lx_peekString (length marker + 256) l in
      if s = [] then None
      else if \<not> is_blank (hd s) then None
      else
        (let indent = takeWhile is_blank s;
             i = length indent in
         if has_prefix (drop i s) marker then
           (let afterMarker = i + length marker in
            if afterMarker \<ge> length s then Some (indent, afterMarker)
            else
              (let ch = s ! afterMarker in
               if ch \<in> {CHR '';'', CHR 0x0A, CHR 0x0D, CHR '')'', CHR '']'', CHR '','', CHR ''}''}
               then Some (indent, afterMarker) else None))
         else None))"

definition chop_newline :: "bytes \<Rightarrow> bytes" where
  "chop_newline s =
     (if s \<noteq> [] \<and> last s = CHR 0x0A then
        (let s = butlast s in if s \<noteq> [] \<and> last s = CHR 0x0D then butlast s else s)
      else s)"

definition strip_indent :: "bytes \<Rightarrow> bytes \<Rightarrow> bytes" where
  "strip_indent indent s =
     (if indent \<noteq> [] then
        join_with (CHR 0x0A)
          (map (\<lambda>line. if has_prefix line indent then drop (length indent) line else line)
               (split_on (CHR 0x0A) s))
      else s)"

definition emitHeredocContentWithIndent :: "bytes \<Rightarrow> lexer \<Rightarrow> lexer" where
  "emitHeredocContentWithIndent indent l =
     lx_emitWithData T_ENCAPSED_AND_WHITESPACE (strip_indent indent (chop_newline (lx_output l))) l"

definition emitHeredocContent :: "lexer \<Rightarrow> lexer" where
  "emitHeredocContent l = emitHeredocContentWithIndent [] l"

text \<open>\<open>pushCall\<close>: the state is pushed and called once; the state it returns is discarded.\<close>

definition lx_pushCall :: "lexstate \<Rightarrow> (lexer \<Rightarrow> lex_out) \<Rightarrow> lexer \<Rightarrow> lex_out" where
  "lx_pushCall s f l = f (lx_push (Some s) l)"

fun heredoc_loop :: "bytes \<Rightarrow> bool \<Rightarrow> nat \<Rightarrow> lexer \<Rightarrow> lex_out" where
  "heredoc_loop marker isNowDoc 0 l = LexHang"
| "heredoc_loop marker isNowDoc (Suc n) l =
     (if lx_hasPrefix [CHR 0x0A] l \<or> lx_hasPrefix [CHR 0x0D, CHR 0x0A] l then
        (let l = (if lx_hasPrefix [CHR 0x0D, CHR 0x0A] l then lx_skip l else l);
             l = lx_skip l in
         if lx_hasPrefix marker l then
           (let l = (if lx_pos l > lx_start l then emitHeredocContent l else l) in
            to_base (lx_emit T_END_HEREDOC (lx_advance (length marker) l)))
         else
           (case checkFlexibleEndMarker l marker of
              Some (indent, advLen) \<Rightarrow>
                (let l = (if lx_pos l > lx_start l then emitHeredocContentWithIndent indent l else l) in
                 to_base (lx_emit T_END_HEREDOC (lx_advance advLen l)))
            | None \<Rightarrow> heredoc_loop marker isNowDoc n l))
      else if isNowDoc then
        (let (c, l) = lx_next l in
         if c = rune_eof then
           fail_with ''unexpected eof in string'' (lx_emit T_ENCAPSED_AND_WHITESPACE l)
         else heredoc_loop marker isNowDoc n l)
      else
        (let c = lx_peek l in
         if c = rune_eof then
           fail_with ''unexpected eof in string'' (lx_emit T_ENCAPSED_AND_WHITESPACE l)
         else if c = cc (CHR 0x5C) then
           (if lx_hasPrefix [CHR 0x5C, CHR ''$''] l
            then heredoc_loop marker isNowDoc n (lx_skip (lx_skip l))
            else
              (let l = lx_skip l; nextCh = lx_peek l in
               heredoc_loop marker isNowDoc n
                 (if nextCh \<noteq> 10 \<and> nextCh \<noteq> 13 \<and> nextCh \<noteq> rune_eof then lx_skip l else l)))
         else if c = cc (CHR ''$'') then
           (if literal_dollar l then heredoc_loop marker isNowDoc n (lx_skip l)
            else
              (let l = emit_pending T_ENCAPSED_AND_WHITESPACE l in
               if lx_hasPrefix ''${'' l then
                 lex_then (lx_pushCall LexInterpolatedComplexVar lexInterpolatedComplexVar
                     (emit_dollar_brace (emit_pending T_ENCAPSED_AND_WHITESPACE l)))
                   (heredoc_loop marker isNowDoc n)
               else
                 lex_then (lexPhpVariable l) (\<lambda>l.
                   if lx_peek l = cc (CHR ''-'') \<and> lx_peekString 2 l = ''->'' then
                     lex_then (lx_pushCall LexInterpolatedObjectOp lexInterpolatedObjectOp l)
                       (heredoc_loop marker isNowDoc n)
                   else if lx_peek l = cc (CHR ''['') then
                     lex_then (lx_pushCall LexInterpolatedArrayAccess lexInterpolatedArrayAccess l)
                       (heredoc_loop marker isNowDoc n)
                   else heredoc_loop marker isNowDoc n l)))
         else if c = cc (CHR ''{'') then
           (if lx_hasPrefix ''{$'' l then
              lex_then (lexPhpVariable (emit_open_brace (emit_pending T_ENCAPSED_AND_WHITESPACE l)))
                (\<lambda>l. lex_then (lx_pushCall LexInterpolatedComplexVar lexInterpolatedComplexVar l)
                   (heredoc_loop marker isNowDoc n))
            else heredoc_loop marker isNowDoc n (lx_skip l))
         else heredoc_loop marker isNowDoc n (lx_skip l)))"

definition lexPhpHeredoc :: "nat \<Rightarrow> lexer \<Rightarrow> lex_out" where
  "lexPhpHeredoc n l =
     (let (ok, l) = lx_acceptFixed ''<<<'' l in
      if \<not> ok then Goto (Some LexPhpOperator) (lx_reset l)
      else
        (let l = snd (lx_acceptSpaces l);
             isNowDoc = (lx_peek l = cc (CHR 0x27));
             l = (if isNowDoc then lx_skip (lx_ignore l) else l);
             (marker, l) = lx_acceptPhpLabel l in
         if marker = [] then Goto (Some LexPhpOperator) (lx_reset l)
         else if isNowDoc \<and> lx_peek l \<noteq> cc (CHR 0x27)
         then fail_with (''unexpected character '' @ [CHR 0x27] @ ''<<'' @ [CHR 0x27] @ '' (T_SL)'') l
         else
           (let l = (if isNowDoc then lx_skip (lx_ignore l) else l);
                (nl, l) = lx_accept [CHR 0x0D, CHR 0x0A] l in
            if \<not> nl then Goto (Some LexPhpOperator) (lx_reset l)
            else
              (let l = lx_emit T_START_HEREDOC l in
               if lx_hasPrefix marker l then
                 to_base (lx_emit T_END_HEREDOC (lx_advance (length marker) l))
               else
                 (case checkFlexibleEndMarker l marker of
                    Some (_, advLen) \<Rightarrow> to_base (lx_emit T_END_HEREDOC (lx_advance advLen l))
                  | None \<Rightarrow> heredoc_loop marker isNowDoc n l)))))"

section \<open>Running the lexer\<close>

text \<open>One call of a state function, with \<open>n\<close> units of fuel for its loop.\<close>

fun lex_step :: "nat \<Rightarrow> lexstate \<Rightarrow> lexer \<Rightarrow> lex_out" where
  "lex_step n LexText l = lexText n l"
| "lex_step n LexPhp l = lexPhp l"
| "lex_step n LexPhpOpen l = lexPhpOpen l"
| "lex_step n LexPhpPossibleCast l = lexPhpPossibleCast l"
| "lex_step n LexPhpVariable l = lexPhpVariable l"
| "lex_step n LexPhpAttribute l = lexPhpAttribute l"
| "lex_step n LexPhpEolComment l = lexPhpEolComment n l"
| "lex_step n LexPhpBlockComment l = lexPhpBlockComment l"
| "lex_step n LexPhpOperator l = lexPhpOperator l"
| "lex_step n LexNumber l = lexNumber l"
| "lex_step n LexPhpHeredoc l = lexPhpHeredoc n l"
| "lex_step n LexPhpStringConst l = lexPhpStringConst n l"
| "lex_step n LexPhpString l = lexPhpString l"
| "lex_step n (StringLexer d) l = string_loop d n l"
| "lex_step n LexInterpolatedObjectOp l = lexInterpolatedObjectOp l"
| "lex_step n LexInterpolatedArrayAccess l = lexInterpolatedArrayAccess l"
| "lex_step n LexInterpolatedComplexVar l = lexInterpolatedComplexVar l"

definition panic_message :: bytes where
  "panic_message = ''internal tokenizer error: runtime error: index out of range [-1]''"

text \<open>The loop of \<open>run\<close>: \<open>m\<close> bounds the number of state functions it calls. A panic is
  recovered: an error item is sent and the channel is closed.\<close>

fun lex_loop :: "nat \<Rightarrow> nat \<Rightarrow> lexstate option \<Rightarrow> lexer \<Rightarrow> lexer option" where
  "lex_loop n m None l = Some l"
| "lex_loop n 0 (Some s) l = None"
| "lex_loop n (Suc m) (Some s) l =
     (case lex_step n s l of
        Goto s' l' \<Rightarrow> lex_loop n m s' l'
      | LexPanic l' \<Rightarrow> Some (lx_error panic_message l')
      | LexHang \<Rightarrow> None)"

definition lex_run :: "nat \<Rightarrow> nat \<Rightarrow> lexstate \<Rightarrow> lexer \<Rightarrow> lexer option" where
  "lex_run n m s l = (let l = lx_push (Some s) l in lex_loop n m (lx_base l) l)"

text \<open>The items of a source text, lexed as a file (from text mode), with fuel that grows with its
  length; \<open>None\<close> when the lexer does not stop within it.\<close>

definition lex_fuel :: "bytes \<Rightarrow> nat" where
  "lex_fuel s = 7 * length s + 6"

definition lex_file :: "bytes \<Rightarrow> bytes \<Rightarrow> item list option" where
  "lex_file fn s =
     map_option lx_items (lex_run (lex_fuel s) (lex_fuel s) LexText (NewLexer s fn))"

end
