(* ===== verification/LexInvariant.thy ===== *)
theory LexInvariant
  imports LexStates
begin

text \<open>
  The invariant of the lexer over a fixed source text \<open>s\<close>: what is left to read is the part of
  \<open>s\<close> after \<open>pos\<close>, the output buffer is the part between \<open>start\<close> and \<open>pos\<close>, the line counters are
  one more than the newlines before these positions, and the items sent so far are cut out of
  consecutive parts of \<open>s\<close>. Every method of the lexer keeps it, so every state function does
  (theory \<^verbatim>\<open>LexStep\<close>).
\<close>

section \<open>The input and its lines\<close>

definition slice :: "bytes \<Rightarrow> nat \<Rightarrow> nat \<Rightarrow> bytes" where
  "slice s a b = take (b - a) (drop a s)"

definition newlines :: "bytes \<Rightarrow> nat" where
  "newlines s = count_list s (CHR 0x0A)"

definition line_at :: "bytes \<Rightarrow> nat \<Rightarrow> nat" where
  "line_at s p = 1 + newlines (take p s)"

lemma newlines_append [simp]: "newlines (a @ b) = newlines a + newlines b"
  by (simp add: newlines_def)

lemma newlines_Nil [simp]: "newlines [] = 0"
  by (simp add: newlines_def)

lemma newlines_take_mono: "a \<le> b \<Longrightarrow> newlines (take a s) \<le> newlines (take b s)"
  by (metis le_add1 le_Suc_ex newlines_append take_add)

lemma slice_append: "a \<le> b \<Longrightarrow> b \<le> c \<Longrightarrow> slice s a b @ slice s b c = slice s a c"
  unfolding slice_def by (metis add_diff_inverse_nat diff_add_assoc2 drop_drop le_add_diff_inverse
      le_add_diff_inverse2 linorder_not_less take_add)

lemma slice_Nil [simp]: "slice s a a = []"
  by (simp add: slice_def)

lemma length_slice: "a \<le> b \<Longrightarrow> b \<le> length s \<Longrightarrow> length (slice s a b) = b - a"
  by (simp add: slice_def)

lemma slice_of_drop: "w \<le> length (drop p s) \<Longrightarrow> take w (drop p s) = slice s p (p + w)"
  by (simp add: slice_def)

text \<open>The bytes of a multi-byte rune are all above 127, so a newline byte is always the newline
  rune.\<close>

lemma byte_10: "byte c = 10 \<longleftrightarrow> c = CHR 0x0A"
  using byte_eq_iff[of c "CHR 0x0A"] by (simp add: byte_def)

lemma decode_rune_high:
  assumes "decode_rune (c0 # cs) = (r, w)" "128 \<le> byte c0"
  shows "128 \<le> r" "\<forall>c \<in> set (take w (c0 # cs)). 128 \<le> byte c"
proof -
  note lo = order_trans[OF utf8_lo_ge]
  consider (two) "194 \<le> byte c0" "byte c0 \<le> 223"
    | (three) "224 \<le> byte c0" "byte c0 \<le> 239"
    | (four) "240 \<le> byte c0" "byte c0 \<le> 244"
    | (bad) "\<not> (194 \<le> byte c0 \<and> byte c0 \<le> 244)"
    by linarith
  then have "128 \<le> r \<and> (\<forall>c \<in> set (take w (c0 # cs)). 128 \<le> byte c)"
  proof cases
    case two
    then show ?thesis using assms
      by (auto simp: decode_rune.simps in_range_def rune_error_def split: if_splits list.splits)
  next
    case three
    show ?thesis
    proof (cases "w = 1 \<and> r = rune_error")
      case True
      then show ?thesis using assms(2) by (simp add: rune_error_def)
    next
      case False
      then obtain c1 c2 cs' where c: "cs = c1 # c2 # cs'" "w = 3"
          "utf8_lo (byte c0) \<le> byte c1" "byte c1 \<le> utf8_hi (byte c0)"
          "128 \<le> byte c2" "byte c2 \<le> 191"
        and r: "r = (byte c0 - 224) * 4096 + (byte c1 - 128) * 64 + (byte c2 - 128)"
        using three assms(1)
        by (auto simp: decode_rune.simps in_range_def Let_def split: if_splits list.splits)
      show ?thesis
        using encode_decode_rune3(1)[OF three c(3-6) r] assms(2) c(5) lo[OF c(3)] by (simp add: c(1,2))
    qed
  next
    case four
    show ?thesis
    proof (cases "w = 1 \<and> r = rune_error")
      case True
      then show ?thesis using assms(2) by (simp add: rune_error_def)
    next
      case False
      then obtain c1 c2 c3 cs' where c: "cs = c1 # c2 # c3 # cs'" "w = 4"
          "utf8_lo (byte c0) \<le> byte c1" "byte c1 \<le> utf8_hi (byte c0)"
          "128 \<le> byte c2" "byte c2 \<le> 191" "128 \<le> byte c3" "byte c3 \<le> 191"
        and r: "r = (byte c0 - 240) * 262144 + (byte c1 - 128) * 4096
                    + (byte c2 - 128) * 64 + (byte c3 - 128)"
        using four assms(1)
        by (auto simp: decode_rune.simps in_range_def Let_def split: if_splits list.splits)
      show ?thesis
        using encode_decode_rune4(1)[OF four c(3-8) r] assms(2) c(5,7) lo[OF c(3)]
        by (simp add: c(1,2))
    qed
  next
    case bad
    then show ?thesis using assms
      by (auto simp: decode_rune.simps in_range_def rune_error_def split: if_splits)
  qed
  then show "128 \<le> r" "\<forall>c \<in> set (take w (c0 # cs)). 128 \<le> byte c" by blast+
qed

lemma newlines_rune:
  assumes "decode_rune t = (r, w)" "t \<noteq> []"
  shows "newlines (take w t) = (if r = 10 then 1 else 0)"
proof -
  obtain c0 cs where t: "t = c0 # cs" using assms(2) by (cases t) auto
  show ?thesis
  proof (cases "byte c0 < 128")
    case True
    then show ?thesis
      using assms(1) by (auto simp: t decode_rune_ascii newlines_def byte_10)
  next
    case False
    then have "128 \<le> byte c0" by simp
    from decode_rune_high[OF assms(1)[unfolded t] this] show ?thesis
      by (auto simp: t newlines_def byte_def count_list_0_iff)
  qed
qed

section \<open>The positions\<close>

definition lx_at :: "bytes \<Rightarrow> lexer \<Rightarrow> bool" where
  "lx_at s l =
     (lx_rest l = drop (lx_pos l) s \<and> lx_pos l \<le> length s \<and> lx_start l \<le> lx_pos l
      \<and> lx_output l = slice s (lx_start l) (lx_pos l)
      \<and> lx_cLine l = line_at s (lx_pos l) \<and> lx_sLine l = line_at s (lx_start l))"

lemma lx_at_new: "lx_at s (NewLexerWithShortTag s fn b)"
  by (simp add: lx_at_def NewLexerWithShortTag_def lx_rest_def line_at_def)

lemma lx_peekString_rest: "lx_peekString n l = take n (lx_rest l)"
  by (simp add: lx_peekString_def lx_rest_def)

lemma lx_peek_rest:
  "lx_peek l = (if lx_rest l = [] then rune_eof else fst (decode_rune (take 4 (lx_rest l))))"
  by (simp add: lx_peek_def lx_peekString_rest Let_def)

text \<open>What one call of \<open>next\<close> does: at the end of the input nothing but the width; before it, a
  rune of \<open>w\<close> bytes at the head of the input goes from the input to the output.\<close>

lemma lx_next_eof:
  "lx_rest l = [] \<Longrightarrow> lx_next l = (rune_eof, l\<lparr>lx_width := 0\<rparr>)"
  by (simp add: lx_next_def lx_rest_def)

lemma lx_next_rune:
  assumes "lx_rest l \<noteq> []"
  obtains t r w inp rst where
    "t \<noteq> []" "decode_rune t = (r, w)" "0 < w" "w \<le> length t" "take w t = take w (lx_rest l)"
    "w \<le> length (lx_rest l)"
    "lx_next l = (r, lx_consume r (take w t) (l\<lparr>lx_width := w, lx_input := inp, lx_inputRst := rst\<rparr>))"
    "rst @ inp = drop w (lx_rest l)"
proof -
  have out: "(if r = rune_error \<and> w = 1 then [hd t] else encode_rune r) = take w t"
    if "decode_rune t = (r, w)" "t \<noteq> []" for t r w
    using that encode_decode_rune[OF that] by (cases t) auto
  show ?thesis
  proof (cases "lx_inputRst l = []")
    case False
    obtain r w where d: "decode_rune (lx_inputRst l) = (r, w)" by force
    note w = decode_rune_width_pos[OF False d] decode_rune_width_le[OF d]
    show ?thesis
      by (rule that[OF False d w, where inp = "lx_input l" and rst = "drop w (lx_inputRst l)"])
         (use False d w out[OF d False] in \<open>auto simp: lx_next_def lx_rest_def Let_def\<close>)
  next
    case True
    with assms have ne: "lx_input l \<noteq> []" by (simp add: lx_rest_def)
    obtain r w where d: "decode_rune (lx_input l) = (r, w)" by force
    note w = decode_rune_width_pos[OF ne d] decode_rune_width_le[OF d]
    show ?thesis
      by (rule that[OF ne d w, where inp = "drop w (lx_input l)" and rst = "lx_inputRst l"])
         (use True ne d w out[OF d ne] in
           \<open>auto simp: lx_next_def lx_rest_def lx_consume_def Let_def\<close>)
  qed
qed

lemma lx_next_eof_iff: "fst (lx_next l) = rune_eof \<longleftrightarrow> lx_rest l = []"
proof (cases "lx_rest l = []")
  case False
  from lx_next_rune[OF False] obtain t r w l' where
    t: "decode_rune t = (r, w)" "lx_next l = (r, l')" by metis
  show ?thesis using decode_rune_nonneg[OF t(1)] False by (simp add: t(2) rune_eof_def)
qed (simp add: lx_next_eof)

lemma lx_peek_eof_iff: "lx_peek l = rune_eof \<longleftrightarrow> lx_rest l = []"
  using decode_rune_nonneg[of "take 4 (lx_rest l)"]
  by (cases "decode_rune (take 4 (lx_rest l))") (auto simp: lx_peek_rest rune_eof_def)

lemma lx_at_next:
  assumes "lx_at s l"
  shows "lx_at s (snd (lx_next l))"
proof (cases "lx_rest l = []")
  case True
  then show ?thesis using assms by (simp add: lx_next_eof lx_at_def lx_rest_def)
next
  case False
  from lx_next_rune[OF False] obtain t r w inp rst where
    t: "t \<noteq> []" "decode_rune t = (r, w)" "take w t = take w (lx_rest l)" "w \<le> length (lx_rest l)"
      "lx_next l = (r, lx_consume r (take w t)
         (l\<lparr>lx_width := w, lx_input := inp, lx_inputRst := rst\<rparr>))"
      "rst @ inp = drop w (lx_rest l)"
    by metis
  note at = assms[unfolded lx_at_def]
  have rest: "lx_rest l = drop (lx_pos l) s" and p: "lx_pos l + w \<le> length s"
    using at t(4) by auto
  have tk: "take w t = slice s (lx_pos l) (lx_pos l + w)"
    using t(3,4) rest slice_of_drop[of w "lx_pos l" s] by simp
  have out: "lx_output l @ take w t = slice s (lx_start l) (lx_pos l + w)"
    using at tk by (simp add: slice_append)
  have ln: "line_at s (lx_pos l + w) = line_at s (lx_pos l) + (if r = 10 then 1 else 0)"
    using newlines_rune[OF t(2,1)] t(3) rest by (simp add: line_at_def take_add)
  have rest': "rst @ inp = drop (lx_pos l + w) s"
    using t(6) rest by (simp add: add.commute)
  show ?thesis
    using at out ln p rest' by (simp add: t(5) lx_at_def lx_consume_def Let_def lx_rest_def)
qed

lemma lx_pos_next:
  assumes "lx_at s l"
  shows "lx_pos l \<le> lx_pos (snd (lx_next l))"
    and "lx_rest l \<noteq> [] \<Longrightarrow> lx_pos l < lx_pos (snd (lx_next l))"
proof -
  show 1: "lx_pos l < lx_pos (snd (lx_next l))" if "lx_rest l \<noteq> []"
    by (rule lx_next_rune[OF that]) (simp add: lx_consume_def Let_def)
  show "lx_pos l \<le> lx_pos (snd (lx_next l))"
    using 1 less_imp_le by (cases "lx_rest l = []") (simp_all add: lx_next_eof)
qed

text \<open>\<open>backup\<close> right after \<open>next\<close> puts the rune back: the positions and the unread input are
  those before \<open>next\<close>.\<close>

lemma lx_backup_next:
  assumes "lx_at s l"
  defines "l' \<equiv> lx_backup (snd (lx_next l))"
  shows "lx_at s l'" "lx_pos l' = lx_pos l" "lx_start l' = lx_start l" "lx_rest l' = lx_rest l"
    "lx_items l' = lx_items l" "lx_base l' = lx_base l" "lx_baseStack l' = lx_baseStack l"
    "lx_sLine l' = lx_sLine l" "lx_fn l' = lx_fn l"
proof -
  have *: "lx_at s l' \<and> lx_pos l' = lx_pos l \<and> lx_start l' = lx_start l \<and> lx_rest l' = lx_rest l
     \<and> lx_items l' = lx_items l \<and> lx_base l' = lx_base l \<and> lx_baseStack l' = lx_baseStack l
     \<and> lx_sLine l' = lx_sLine l \<and> lx_fn l' = lx_fn l"
  proof (cases "lx_rest l = []")
    case True
    then show ?thesis
      using assms(1) by (simp add: l'_def lx_next_eof lx_at_def lx_backup_def lx_rest_def)
  next
    case False
    from lx_next_rune[OF False] obtain t r w inp rst where
      t: "0 < w" "w \<le> length t" "take w t = take w (lx_rest l)"
        "lx_next l = (r, lx_consume r (take w t)
           (l\<lparr>lx_width := w, lx_input := inp, lx_inputRst := rst\<rparr>))"
        "rst @ inp = drop w (lx_rest l)"
      by metis
    define u where "u = take w t"
    have u: "length u = w" "u @ drop w (lx_rest l) = lx_rest l"
      using t(2) by (simp add: u_def) (simp add: u_def t(3))
    have l': "l' = lx_backup (lx_consume r u
        (l\<lparr>lx_width := w, lx_input := inp, lx_inputRst := rst\<rparr>))"
      by (simp add: l'_def t(4) u_def)
    have "lx_rest l' = u @ rst @ inp"
      using t(1) u(1) by (simp add: l' lx_backup_def lx_consume_def Let_def lx_rest_def)
    then have "lx_rest l' = lx_rest l"
      using u(2) by (simp add: t(5))
    moreover have "lx_output l' = lx_output l" "lx_pos l' = lx_pos l" "lx_start l' = lx_start l"
      "lx_items l' = lx_items l" "lx_base l' = lx_base l" "lx_baseStack l' = lx_baseStack l"
      "lx_cLine l' = lx_cLine l" "lx_sLine l' = lx_sLine l" "lx_fn l' = lx_fn l"
      using t(1) u(1) by (simp_all add: l' lx_backup_def lx_consume_def Let_def)
    ultimately show ?thesis using assms(1) by (simp add: lx_at_def)
  qed
  then show "lx_at s l'" "lx_pos l' = lx_pos l" "lx_start l' = lx_start l" "lx_rest l' = lx_rest l"
    "lx_items l' = lx_items l" "lx_base l' = lx_base l" "lx_baseStack l' = lx_baseStack l"
    "lx_sLine l' = lx_sLine l" "lx_fn l' = lx_fn l"
    by blast+
qed

lemma lx_at_ignore: "lx_at s l \<Longrightarrow> lx_at s (lx_ignore l)"
  by (simp add: lx_at_def lx_ignore_def lx_rest_def)

lemma lx_at_reset:
  assumes "lx_at s l"
  shows "lx_at s (lx_reset l)" "lx_pos (lx_reset l) = lx_start l"
proof -
  note at = assms[unfolded lx_at_def]
  have len: "length (lx_output l) = lx_pos l - lx_start l"
    using at by (simp add: length_slice)
  have rest: "lx_output l @ lx_rest l = drop (lx_start l) s"
    using at append_take_drop_id[of "lx_pos l - lx_start l" "drop (lx_start l) s"]
    by (simp add: slice_def)
  show "lx_pos (lx_reset l) = lx_start l"
    using at len by (simp add: lx_reset_def Let_def)
  then show "lx_at s (lx_reset l)"
    using at rest by (auto simp: lx_at_def lx_reset_def Let_def lx_rest_def)
qed

section \<open>The items sent so far\<close>

text \<open>How the data of an item of type \<open>t\<close> comes from the bytes \<open>src\<close> it was read from: as they
  are, but for number literals (underscores removed), casts (the lower-case type name), the
  content of a flexible heredoc (last newline and indentation removed) and error messages.\<close>

definition cast_words :: "bytes set" where
  "cast_words = {''int'', ''integer'', ''bool'', ''boolean'', ''float'', ''double'', ''real'',
                 ''string'', ''binary''}"

definition item_data_from :: "item_type \<Rightarrow> bytes \<Rightarrow> bytes \<Rightarrow> bool" where
  "item_data_from t src data =
     (data = src
      \<or> ((t = T_LNUMBER \<or> t = T_DNUMBER) \<and> data = strip_underscores src)
      \<or> ((t = T_INT_CAST \<or> t = T_BOOL_CAST \<or> t = T_DOUBLE_CAST \<or> t = T_STRING_CAST)
          \<and> data \<in> cast_words)
      \<or> (t = T_ENCAPSED_AND_WHITESPACE
          \<and> (\<exists>indent. data = strip_indent indent (chop_newline src)))
      \<or> t = itemError)"

definition item_from :: "bytes \<Rightarrow> bytes \<Rightarrow> nat \<times> nat \<Rightarrow> item \<Rightarrow> bool" where
  "item_from s fn ab i =
     (fst ab \<le> snd ab \<and> snd ab \<le> length s \<and> it_Filename i = fn
      \<and> it_Line i = line_at s (fst ab)
      \<and> item_data_from (it_Type i) (slice s (fst ab) (snd ab)) (it_Data i))"

definition items_from :: "bytes \<Rightarrow> bytes \<Rightarrow> nat \<Rightarrow> item list \<Rightarrow> bool" where
  "items_from s fn p is =
     (\<exists>spans. list_all2 (item_from s fn) spans is
        \<and> sorted_wrt (\<lambda>x y. snd x \<le> fst y) spans \<and> (\<forall>x \<in> set spans. snd x \<le> p))"

lemma items_from_Nil [simp]: "items_from s fn p []"
  by (simp add: items_from_def)

lemma items_from_mono: "items_from s fn p is \<Longrightarrow> p \<le> q \<Longrightarrow> items_from s fn q is"
  by (force simp: items_from_def)

lemma items_from_snoc:
  assumes "items_from s fn p is" "item_from s fn (p, q) i"
  shows "items_from s fn q (is @ [i])"
proof -
  from assms(1) obtain spans where sp: "list_all2 (item_from s fn) spans is"
    "sorted_wrt (\<lambda>x y. snd x \<le> fst y) spans" "\<forall>x \<in> set spans. snd x \<le> p"
    by (auto simp: items_from_def)
  have "p \<le> q" using assms(2) by (simp add: item_from_def)
  then have "list_all2 (item_from s fn) (spans @ [(p, q)]) (is @ [i])"
    "sorted_wrt (\<lambda>x y. snd x \<le> fst y) (spans @ [(p, q)])"
    "\<forall>x \<in> set (spans @ [(p, q)]). snd x \<le> q"
    using sp assms(2) by (auto simp: sorted_wrt_append list_all2_appendI)
  then show ?thesis unfolding items_from_def by blast
qed

section \<open>The invariant\<close>

text \<open>The states that may be a base: those that read a token and come back to themselves.\<close>

fun base_state :: "lexstate option \<Rightarrow> bool" where
  "base_state None = True"
| "base_state (Some LexText) = True"
| "base_state (Some LexPhp) = True"
| "base_state (Some (StringLexer d)) = True"
| "base_state (Some LexInterpolatedObjectOp) = True"
| "base_state (Some LexInterpolatedArrayAccess) = True"
| "base_state (Some LexInterpolatedComplexVar) = True"
| "base_state _ = False"

definition lx_good :: "bytes \<Rightarrow> bytes \<Rightarrow> lexer \<Rightarrow> bool" where
  "lx_good s fn l =
     (lx_at s l \<and> lx_fn l = fn \<and> items_from s fn (lx_start l) (lx_items l)
      \<and> base_state (lx_base l) \<and> list_all base_state (lx_baseStack l))"

abbreviation lx_depth :: "lexer \<Rightarrow> nat" where
  "lx_depth l \<equiv> length (lx_baseStack l)"

text \<open>From \<open>l0\<close> to \<open>l\<close>: the invariant holds, the position did not move back, and the state stack
  grew by at most one entry per byte read. In the strict version at least one byte was read and
  one more entry may be pushed.\<close>

definition lx_to :: "bytes \<Rightarrow> bytes \<Rightarrow> lexer \<Rightarrow> lexer \<Rightarrow> bool" where
  "lx_to s fn l0 l =
     (lx_good s fn l \<and> lx_pos l0 \<le> lx_pos l \<and> lx_depth l + lx_pos l0 \<le> lx_depth l0 + lx_pos l)"

definition lx_adv :: "bytes \<Rightarrow> bytes \<Rightarrow> lexer \<Rightarrow> lexer \<Rightarrow> bool" where
  "lx_adv s fn l0 l =
     (lx_good s fn l \<and> lx_pos l0 < lx_pos l \<and> lx_depth l + lx_pos l0 < lx_depth l0 + lx_pos l)"

lemma lx_to_refl: "lx_good s fn l \<Longrightarrow> lx_to s fn l l"
  by (simp add: lx_to_def)

lemma lx_to_trans: "lx_to s fn l0 l1 \<Longrightarrow> lx_to s fn l1 l2 \<Longrightarrow> lx_to s fn l0 l2"
  by (auto simp: lx_to_def)

lemma lx_adv_trans: "lx_to s fn l0 l1 \<Longrightarrow> lx_adv s fn l1 l2 \<Longrightarrow> lx_adv s fn l0 l2"
  by (auto simp: lx_to_def lx_adv_def)

lemma lx_adv_trans': "lx_adv s fn l0 l1 \<Longrightarrow> lx_to s fn l1 l2 \<Longrightarrow> lx_adv s fn l0 l2"
  by (auto simp: lx_to_def lx_adv_def)

lemma lx_adv_to: "lx_adv s fn l0 l \<Longrightarrow> lx_to s fn l0 l"
  by (simp add: lx_to_def lx_adv_def)

lemma lx_to_good: "lx_to s fn l0 l \<Longrightarrow> lx_good s fn l"
  by (simp add: lx_to_def)

text \<open>A method keeps the invariant when it does so from every good state.\<close>

definition lx_keeps :: "(lexer \<Rightarrow> lexer) \<Rightarrow> bool" where
  "lx_keeps f = (\<forall>s fn l. lx_good s fn l \<longrightarrow> lx_to s fn l (f l))"

lemma lx_keepsD: "lx_keeps f \<Longrightarrow> lx_to s fn l0 l \<Longrightarrow> lx_to s fn l0 (f l)"
  unfolding lx_keeps_def by (metis lx_to_good lx_to_trans)

lemma lx_keepsD': "lx_keeps f \<Longrightarrow> lx_adv s fn l0 l \<Longrightarrow> lx_adv s fn l0 (f l)"
  unfolding lx_keeps_def by (metis lx_adv_to lx_adv_trans' lx_to_good)

lemma lx_keeps_comp: "lx_keeps f \<Longrightarrow> lx_keeps g \<Longrightarrow> lx_keeps (\<lambda>l. g (f l))"
  unfolding lx_keeps_def by (metis lx_to_good lx_to_trans)

end
