(* ===== verification/LexMethods.thy ===== *)
theory LexMethods
  imports LexInvariant
begin

text \<open>
  Every method of the lexer keeps the invariant \<open>lx_good\<close>, and which of them make progress. The
  facts \<open>keeps_intros\<close> are used by the proofs about the state functions: a goal about a chain of
  methods is reduced to the state before it.
\<close>

named_theorems keeps_intros

lemma lx_keepsI:
  "(\<And>s fn l. lx_good s fn l \<Longrightarrow> lx_to s fn l (f l)) \<Longrightarrow> lx_keeps f"
  by (simp add: lx_keeps_def)

text \<open>The fields \<open>next\<close> and \<open>backup\<close> leave alone.\<close>

lemma lx_next_frame:
  "lx_items (snd (lx_next l)) = lx_items l" "lx_base (snd (lx_next l)) = lx_base l"
  "lx_baseStack (snd (lx_next l)) = lx_baseStack l" "lx_fn (snd (lx_next l)) = lx_fn l"
  "lx_start (snd (lx_next l)) = lx_start l" "lx_sLine (snd (lx_next l)) = lx_sLine l"
  by (auto simp: lx_next_def lx_consume_def Let_def split: prod.splits)

lemma keeps_next: "lx_keeps (\<lambda>l. snd (lx_next l))"
  by (rule lx_keepsI)
     (auto simp: lx_to_def lx_good_def lx_at_next lx_next_frame lx_pos_next(1))

lemma keeps_backup_next: "lx_keeps (\<lambda>l. lx_backup (snd (lx_next l)))"
  by (rule lx_keepsI) (auto simp: lx_to_def lx_good_def lx_backup_next)

text \<open>Sending an item whose data comes from the output buffer.\<close>

lemma good_emit_data:
  assumes "lx_good s fn l" "item_data_from t (lx_output l) data"
  shows "lx_to s fn l (lx_emitWithData t data l)"
proof -
  let ?i = "\<lparr>it_Type = t, it_Data = data, it_Filename = lx_fn l, it_Line = lx_sLine l,
             it_Char = lx_sChar l\<rparr>"
  have "item_from s fn (lx_start l, lx_pos l) ?i"
    using assms by (simp add: item_from_def lx_good_def lx_at_def)
  then have "items_from s fn (lx_pos l) (lx_items l @ [?i])"
    using assms(1) by (auto simp: lx_good_def intro: items_from_snoc)
  then show ?thesis
    using assms(1)
    by (simp add: lx_to_def lx_good_def lx_at_def lx_emitWithData_def Let_def lx_rest_def)
qed

lemma lx_emit_eq: "lx_emit t l = lx_emitWithData t (lx_output l) l"
  by (simp add: lx_emit_def lx_emitWithData_def)

lemma keeps_emit [keeps_intros]: "lx_keeps (lx_emit t)"
  by (rule lx_keepsI) (simp add: lx_emit_eq good_emit_data item_data_from_def)

lemma keeps_emit_number:
  assumes "t = T_LNUMBER \<or> t = T_DNUMBER"
  shows "lx_keeps (\<lambda>l. lx_emit t (l\<lparr>lx_output := strip_underscores (lx_output l)\<rparr>))"
proof (rule lx_keepsI)
  fix s fn l assume "lx_good s fn l"
  from good_emit_data[OF this, of t "strip_underscores (lx_output l)"] assms
  show "lx_to s fn l (lx_emit t (l\<lparr>lx_output := strip_underscores (lx_output l)\<rparr>))"
    by (simp add: item_data_from_def lx_emit_def lx_emitWithData_def)
qed

lemma keeps_emit_cast:
  "t = T_INT_CAST \<or> t = T_BOOL_CAST \<or> t = T_DOUBLE_CAST \<or> t = T_STRING_CAST \<Longrightarrow>
   w \<in> cast_words \<Longrightarrow> lx_keeps (lx_emitWithData t w)"
  by (rule lx_keepsI, rule good_emit_data) (auto simp: item_data_from_def)

lemma keeps_emit_heredoc [keeps_intros]: "lx_keeps (emitHeredocContentWithIndent ind)"
  unfolding emitHeredocContentWithIndent_def
  by (rule lx_keepsI, rule good_emit_data) (auto simp: item_data_from_def)

lemma keeps_emit_heredoc0 [keeps_intros]: "lx_keeps emitHeredocContent"
  using keeps_emit_heredoc[of "[]"] by (simp add: emitHeredocContent_def[abs_def])

lemma keeps_error [keeps_intros]: "lx_keeps (lx_error msg)"
proof (rule lx_keepsI)
  fix s fn l assume g: "lx_good s fn l"
  let ?i = "\<lparr>it_Type = itemError, it_Data = msg, it_Filename = lx_fn l, it_Line = lx_sLine l,
             it_Char = lx_sChar l\<rparr>"
  have "item_from s fn (lx_start l, lx_start l) ?i"
    using g by (auto simp: item_from_def item_data_from_def lx_good_def lx_at_def)
  then have "items_from s fn (lx_start l) (lx_items l @ [?i])"
    using g by (auto simp: lx_good_def intro: items_from_snoc)
  then show "lx_to s fn l (lx_error msg l)"
    using g by (simp add: lx_to_def lx_good_def lx_at_def lx_error_def lx_rest_def)
qed

lemma keeps_ignore [keeps_intros]: "lx_keeps lx_ignore"
proof (rule lx_keepsI)
  fix s fn l assume g: "lx_good s fn l"
  then have "lx_start l \<le> lx_pos l" by (simp add: lx_good_def lx_at_def)
  with g show "lx_to s fn l (lx_ignore l)"
    using lx_at_ignore[of s l]
    by (auto simp: lx_to_def lx_good_def lx_ignore_def intro: items_from_mono)
qed

lemma good_reset: "lx_good s fn l \<Longrightarrow> lx_good s fn (lx_reset l)"
  using lx_at_reset[of s l] by (auto simp: lx_good_def lx_reset_def Let_def)

text \<open>The composed methods.\<close>

lemma keeps_accept: "lx_keeps (\<lambda>l. snd (lx_accept v l))"
proof (rule lx_keepsI)
  fix s fn l assume g: "lx_good s fn l"
  show "lx_to s fn l (snd (lx_accept v l))"
    using lx_keepsD[OF keeps_next lx_to_refl[OF g]] lx_keepsD[OF keeps_backup_next lx_to_refl[OF g]]
    by (auto simp: lx_accept_def split: prod.splits)
qed

lemma keeps_advance [keeps_intros]: "lx_keeps (lx_advance n)"
proof (induction n)
  case (Suc n)
  then show ?case using lx_keeps_comp[OF keeps_next Suc] by (simp add: lx_keeps_def)
qed (simp add: lx_keeps_def lx_to_refl)

lemma keeps_acceptFixed: "lx_keeps (\<lambda>l. snd (lx_acceptFixed p l))"
  using keeps_advance[of "rune_count p"] by (auto simp: lx_keeps_def lx_acceptFixed_def lx_to_refl)

lemma keeps_acceptFixedI: "lx_keeps (\<lambda>l. snd (lx_acceptFixedI p l))"
  using keeps_advance[of "rune_count p"] by (auto simp: lx_keeps_def lx_acceptFixedI_def lx_to_refl)

lemma keeps_loop:
  assumes "lx_good s fn l" "lx_next l = (c, l')"
  shows "lx_to s fn l l'" "lx_to s fn l (lx_backup l')" "lx_good s fn l'"
  using lx_keepsD[OF keeps_next lx_to_refl[OF assms(1)]]
    lx_keepsD[OF keeps_backup_next lx_to_refl[OF assms(1)]] assms(2)
  by (auto simp: lx_to_good)

lemma keeps_acceptRun: "lx_keeps (\<lambda>l. snd (lx_acceptRun v b l))"
proof (rule lx_keepsI)
  show "lx_to s fn l (snd (lx_acceptRun v b l))" if "lx_good s fn l" for s fn l
    using that
  proof (induction v b l rule: lx_acceptRun.induct)
    case (1 valid b l)
    obtain c l' where n: "lx_next l = (c, l')" by force
    note k = keeps_loop[OF "1.prems" n]
    show ?case
      using "1.IH"[OF n[symmetric] refl] k
      by (subst lx_acceptRun.simps) (auto simp: n intro: lx_to_trans)
  qed
qed

lemma keeps_label_loop: "lx_keeps lx_label_loop"
proof (rule lx_keepsI)
  show "lx_to s fn l (lx_label_loop l)" if "lx_good s fn l" for s fn l
    using that
  proof (induction l rule: lx_label_loop.induct)
    case (1 l)
    obtain c l' where n: "lx_next l = (c, l')" by force
    note k = keeps_loop[OF "1.prems" n]
    show ?case
      using "1.IH"[OF n[symmetric] refl] k
      by (subst lx_label_loop.simps) (auto simp: n intro: lx_to_trans)
  qed
qed

lemma keeps_acceptPhpLabel: "lx_keeps (\<lambda>l. snd (lx_acceptPhpLabel l))"
proof (rule lx_keepsI)
  fix s fn l assume g: "lx_good s fn l"
  obtain c l' where n: "lx_next l = (c, l')" by force
  note k = keeps_loop[OF g n]
  show "lx_to s fn l (snd (lx_acceptPhpLabel l))"
    using k lx_keepsD[OF keeps_label_loop k(1)] by (auto simp: lx_acceptPhpLabel_def n Let_def)
qed

lemma keeps_acceptUntilFixed: "lx_keeps (lx_acceptUntilFixed p n)"
proof (rule lx_keepsI)
  show "lx_to s fn l (lx_acceptUntilFixed p n l)" if "lx_good s fn l" for s fn l
    using that
  proof (induction p n l rule: lx_acceptUntilFixed.induct)
    case (1 p n l)
    show ?case
    proof (cases "n \<ge> length p")
      case True
      then show ?thesis using "1.prems" by (subst lx_acceptUntilFixed.simps) (simp add: lx_to_refl)
    next
      case False
      obtain c l' where nx: "lx_next l = (c, l')" by force
      note k = keeps_loop[OF "1.prems" nx]
      show ?thesis
        using "1.IH"[OF False nx[symmetric] refl] k False
        by (subst lx_acceptUntilFixed.simps) (auto simp: nx intro: lx_to_trans)
    qed
  qed
qed

lemma keeps_id: "lx_keeps (\<lambda>l. l)"
  by (simp add: lx_keeps_def lx_to_refl)

lemma keeps_emit_pending [keeps_intros]: "lx_keeps (emit_pending t)"
  using keeps_emit[of t] by (auto simp: lx_keeps_def emit_pending_def lx_to_refl)

lemma keeps_emit_next_rune [keeps_intros]: "lx_keeps emit_next_rune"
proof (rule lx_keepsI)
  fix s fn l assume g: "lx_good s fn l"
  obtain c l' where n: "lx_next l = (c, l')" by force
  show "lx_to s fn l (emit_next_rune l)"
    using lx_keepsD[OF keeps_emit keeps_loop(1)[OF g n]] by (simp add: emit_next_rune_def n)
qed

text \<open>The rules in the two shapes the proofs use: after a pattern match on the result, and as a
  nested call.\<close>

lemmas keeps_pairs = keeps_next keeps_accept keeps_acceptFixed keeps_acceptFixedI keeps_acceptRun
  keeps_acceptPhpLabel

lemma keeps_pairD: "lx_keeps (\<lambda>l. snd (f l)) \<Longrightarrow> f l = (x, l') \<Longrightarrow> lx_to s fn l0 l \<Longrightarrow> lx_to s fn l0 l'"
  by (metis lx_keepsD snd_conv)

lemma keeps_pairD': "lx_keeps (\<lambda>l. snd (f l)) \<Longrightarrow> f l = (x, l') \<Longrightarrow> lx_adv s fn l0 l \<Longrightarrow> lx_adv s fn l0 l'"
  by (metis lx_keepsD' snd_conv)

lemmas to_unary = keeps_intros[THEN lx_keepsD] keeps_pairs[THEN lx_keepsD]
  lx_keepsD[OF keeps_acceptUntilFixed]
lemmas adv_unary = keeps_intros[THEN lx_keepsD'] keeps_pairs[THEN lx_keepsD']
  lx_keepsD'[OF keeps_acceptUntilFixed]
lemmas to_pair = keeps_pairs[THEN keeps_pairD]
lemmas adv_pair = keeps_pairs[THEN keeps_pairD']

section \<open>Progress\<close>

lemma good_rest: "lx_good s fn l \<Longrightarrow> lx_rest l = drop (lx_pos l) s"
  by (simp add: lx_good_def lx_at_def)

lemma good_pos_le: "lx_good s fn l \<Longrightarrow> lx_pos l \<le> length s"
  by (simp add: lx_good_def lx_at_def)

lemma good_rest_length: "lx_good s fn l \<Longrightarrow> length (lx_rest l) = length s - lx_pos l"
  by (simp add: good_rest)

lemma next_adv:
  assumes "lx_to s fn l0 l" "lx_rest l \<noteq> []"
  shows "lx_adv s fn l0 (snd (lx_next l))"
proof -
  have at: "lx_at s l" using assms(1) by (simp add: lx_to_def lx_good_def)
  from lx_keepsD[OF keeps_next assms(1)] lx_pos_next(2)[OF at assms(2)] assms(1) show ?thesis
    by (auto simp: lx_to_def lx_adv_def lx_next_frame)
qed

lemma next_adv': "lx_next l = (c, l') \<Longrightarrow> lx_to s fn l0 l \<Longrightarrow> lx_rest l \<noteq> [] \<Longrightarrow> lx_adv s fn l0 l'"
  using next_adv[of s fn l0 l] by simp

lemma advance_adv: "lx_to s fn l0 l \<Longrightarrow> lx_rest l \<noteq> [] \<Longrightarrow> lx_adv s fn l0 (lx_advance (Suc n) l)"
  by (simp add: lx_keepsD'[OF keeps_advance next_adv])

lemma emit_next_rune_adv:
  "lx_to s fn l0 l \<Longrightarrow> lx_rest l \<noteq> [] \<Longrightarrow> lx_adv s fn l0 (emit_next_rune l)"
  by (cases "lx_next l") (auto simp: emit_next_rune_def intro: lx_keepsD'[OF keeps_emit] next_adv')

lemma push_to:
  assumes "lx_adv s fn l0 l" "base_state st"
  shows "lx_to s fn l0 (lx_push st l)"
  using assms by (auto simp: lx_adv_def lx_to_def lx_push_def lx_good_def lx_at_def lx_rest_def)

lemma pop_to:
  assumes "lx_pop l = Some l'" "lx_to s fn l0 l"
  shows "lx_to s fn l0 l'"
proof -
  from assms(1) have st: "lx_baseStack l \<noteq> []"
    and l': "l' = l\<lparr>lx_base := last (lx_baseStack l), lx_baseStack := butlast (lx_baseStack l)\<rparr>"
    by (auto simp: lx_pop_def split: if_splits)
  have "list_all base_state (lx_baseStack l)" using assms(2) by (simp add: lx_to_def lx_good_def)
  then have "base_state (last (lx_baseStack l))" "list_all base_state (butlast (lx_baseStack l))"
    using st by (auto simp: list_all_iff dest: in_set_butlastD)
  with assms(2) show ?thesis
    by (auto simp: l' lx_to_def lx_good_def lx_at_def lx_rest_def)
qed

lemma pop_depth: "lx_pop l = Some l' \<Longrightarrow> lx_depth l = Suc (lx_depth l') \<and> lx_pos l' = lx_pos l"
  by (auto simp: lx_pop_def split: if_splits)

text \<open>The first rune and the first byte. \<open>peek\<close> looks at the next four bytes and \<open>next\<close> at the
  push-back buffer or the reader; on an ASCII byte they agree, and a rune above 127 starts with a
  byte above 127.\<close>

lemma decode_rune_low: "decode_rune t = (r, w) \<Longrightarrow> t \<noteq> [] \<Longrightarrow> r < 128 \<Longrightarrow> r = byte (hd t)"
  using decode_rune_high(1) by (cases t) (force simp: decode_rune_ascii)+

lemma peek_low:
  assumes "lx_rest l \<noteq> []" "lx_peek l < 128"
  shows "lx_peek l = byte (hd (lx_rest l))"
proof -
  obtain r w where d: "decode_rune (take 4 (lx_rest l)) = (r, w)" by force
  have "hd (take 4 (lx_rest l)) = hd (lx_rest l)" using assms(1) by (cases "lx_rest l") auto
  then show ?thesis
    using decode_rune_low[OF d] assms by (simp add: lx_peek_rest d)
qed

lemma peek_hd_low: "lx_rest l = c # cs \<Longrightarrow> byte c < 128 \<Longrightarrow> lx_peek l = byte c"
  by (simp add: lx_peek_rest decode_rune_ascii)

lemma next_hd:
  assumes "lx_rest l = c # cs"
  shows "byte c < 128 \<Longrightarrow> fst (lx_next l) = byte c" "128 \<le> byte c \<Longrightarrow> 128 \<le> fst (lx_next l)"
proof -
  have "lx_rest l \<noteq> []" using assms by simp
  from lx_next_rune[OF this] obtain t r w l' where
    t: "t \<noteq> []" "decode_rune t = (r, w)" "0 < w" "take w t = take w (lx_rest l)" "lx_next l = (r, l')"
    by metis
  have hd: "t = c # tl t" using t(1,3,4) assms by (cases t; cases w) auto
  show "byte c < 128 \<Longrightarrow> fst (lx_next l) = byte c"
    using t(2) hd by (metis decode_rune_ascii fst_conv t(5))
  show "128 \<le> byte c \<Longrightarrow> 128 \<le> fst (lx_next l)"
    using decode_rune_high(1)[of c "tl t" r w] t(2,5) hd by simp
qed

lemma peek_next_low:
  "lx_peek l < 128 \<Longrightarrow> fst (lx_next l) = lx_peek l"
proof (cases "lx_rest l")
  case Nil
  then show ?thesis by (simp add: lx_next_eof lx_peek_rest)
next
  case (Cons c cs)
  assume "lx_peek l < 128"
  with Cons peek_low[of l] have "lx_peek l = byte c" "byte c < 128" by simp_all
  then show ?thesis using next_hd(1)[OF Cons] by simp
qed

lemma peek_high:
  assumes "128 \<le> lx_peek l"
  shows "128 \<le> fst (lx_next l)"
proof (cases "lx_rest l")
  case Nil
  then show ?thesis using assms by (simp add: lx_peek_rest rune_eof_def)
next
  case (Cons c cs)
  then have "\<not> byte c < 128" using assms peek_hd_low[OF Cons] by auto
  then show ?thesis using next_hd(2)[OF Cons] by simp
qed

lemma peek_ne: "lx_peek l \<noteq> rune_eof \<Longrightarrow> lx_rest l \<noteq> []"
  by (simp add: lx_peek_eof_iff)

lemma hasPrefix_ne: "lx_hasPrefix p l \<Longrightarrow> p \<noteq> [] \<Longrightarrow> lx_rest l \<noteq> []"
  by (auto simp: lx_hasPrefix_def lx_peekString_rest)

end
