(* ===== verification/LexStep.thy ===== *)
theory LexStep
  imports LexMethods
begin

text \<open>
  One call of a state function: the invariant is kept, the call returns (a single-quoted string
  apart), and it reads at least one byte or moves to a state of lower rank. From these facts
  follows the termination of the whole run (theory \<^verbatim>\<open>LexRun\<close>).
\<close>

section \<open>What a call gives\<close>

text \<open>\<open>lx_rel True\<close> asks for progress, \<open>lx_rel False\<close> does not.\<close>

definition lx_rel :: "bool \<Rightarrow> bytes \<Rightarrow> bytes \<Rightarrow> lexer \<Rightarrow> lexer \<Rightarrow> bool" where
  "lx_rel b s fn l0 l = (if b then lx_adv s fn l0 l else lx_to s fn l0 l)"

lemma rel_to: "lx_rel b s fn l0 l \<Longrightarrow> lx_to s fn l0 l"
  by (auto simp: lx_rel_def lx_adv_to split: if_splits)

lemma rel_good: "lx_rel b s fn l0 l \<Longrightarrow> lx_good s fn l"
  by (rule lx_to_good[OF rel_to])

lemma rel_keeps: "lx_keeps f \<Longrightarrow> lx_rel b s fn l0 l \<Longrightarrow> lx_rel b s fn l0 (f l)"
  by (auto simp: lx_rel_def lx_keepsD lx_keepsD')

lemmas rel_unary = keeps_intros[THEN rel_keeps] keeps_pairs[THEN rel_keeps]
  rel_keeps[OF keeps_acceptUntilFixed] rel_keeps[OF keeps_label_loop]

lemma rel_advance:
  "lx_to s fn l0 l \<Longrightarrow> (b \<Longrightarrow> lx_rest l \<noteq> []) \<Longrightarrow> 0 < n \<Longrightarrow> lx_rel b s fn l0 (lx_advance n l)"
  using advance_adv[of s fn l0 l "n - 1"] lx_keepsD[OF keeps_advance] by (auto simp: lx_rel_def)

lemma rel_next:
  "lx_to s fn l0 l \<Longrightarrow> (b \<Longrightarrow> lx_rest l \<noteq> []) \<Longrightarrow> lx_rel b s fn l0 (snd (lx_next l))"
  using next_adv[of s fn l0 l] lx_keepsD[OF keeps_next] by (auto simp: lx_rel_def)

lemma rel_emit_next_rune:
  "lx_to s fn l0 l \<Longrightarrow> (b \<Longrightarrow> lx_rest l \<noteq> []) \<Longrightarrow> lx_rel b s fn l0 (emit_next_rune l)"
  using emit_next_rune_adv[of s fn l0 l] lx_keepsD[OF keeps_emit_next_rune]
  by (auto simp: lx_rel_def)

lemma rel_trans: "lx_to s fn l0 l \<Longrightarrow> lx_rel b s fn l l' \<Longrightarrow> lx_rel b s fn l0 l'"
  by (auto simp: lx_rel_def lx_to_trans lx_adv_trans split: if_splits)

lemmas rel_simps = rel_unary to_unary rel_advance rel_next rel_emit_next_rune

text \<open>Nothing is pending in the output buffer.\<close>

definition lx_clean :: "lexer \<Rightarrow> bool" where
  "lx_clean l = (lx_start l = lx_pos l)"

lemma clean_intros [simp]:
  "lx_clean (lx_emit t l)" "lx_clean (lx_emitWithData t d l)" "lx_clean (lx_ignore l)"
  "lx_clean (emit_next_rune l)" "lx_clean (lx_push st l) = lx_clean l"
  by (simp_all add: lx_clean_def lx_emit_def lx_emitWithData_def lx_ignore_def emit_next_rune_def
      lx_push_def Let_def split: prod.splits)

lemma clean_pop: "lx_pop l = Some l' \<Longrightarrow> lx_clean l' = lx_clean l"
  by (auto simp: lx_pop_def lx_clean_def split: if_splits)

text \<open>What a state function may rely on when it is called.\<close>

fun ready :: "lexstate \<Rightarrow> lexer \<Rightarrow> bool" where
  "ready LexPhpStringConst l = (lx_peek l = 34 \<or> lx_peek l = 39 \<or> lx_peek l = 96)"
| "ready LexPhpString l = label_start_rune (lx_peek l)"
| "ready LexNumber l = ((48 \<le> lx_peek l \<and> lx_peek l \<le> 57) \<or> lx_peek l = 46)"
| "ready LexPhpEolComment l = (lx_peek l = 35 \<or> lx_peek l = 47)"
| "ready st l = (base_state (Some st) \<or> lx_rest l \<noteq> [])"

lemma ready_base: "base_state (Some st) \<Longrightarrow> ready st l"
  by (cases st) auto

definition ret :: "bool \<Rightarrow> bytes \<Rightarrow> bytes \<Rightarrow> lexer \<Rightarrow> lex_out \<Rightarrow> bool" where
  "ret b s fn l0 out =
     (case out of
        Goto st l \<Rightarrow> lx_to s fn l0 l \<and>
          (case st of None \<Rightarrow> True
           | Some st' \<Rightarrow> b \<longrightarrow> lx_clean l \<and> lx_pos l0 < lx_pos l \<and> ready st' l)
      | LexPanic l \<Rightarrow> lx_to s fn l0 l
      | LexHang \<Rightarrow> False)"

lemma ret_simps [simp]:
  "ret b s fn l0 (LexPanic l) = lx_to s fn l0 l" "\<not> ret b s fn l0 LexHang"
  "ret b s fn l0 (Goto None l) = lx_to s fn l0 l" "ret False s fn l0 (Goto st l) = lx_to s fn l0 l"
  by (auto simp: ret_def split: option.splits)

lemma ret_if:
  "(c \<Longrightarrow> ret b s fn l0 x) \<Longrightarrow> (\<not> c \<Longrightarrow> ret b s fn l0 y) \<Longrightarrow> ret b s fn l0 (if c then x else y)"
  by simp

lemma ret_base:
  assumes "lx_rel b s fn l0 l" "b \<Longrightarrow> lx_clean l"
  shows "ret b s fn l0 (to_base l)"
  using assms rel_to[OF assms(1)] ready_base
  by (auto simp: ret_def to_base_def lx_rel_def lx_adv_def lx_good_def split: option.splits)

lemma ret_fail: "lx_to s fn l0 l \<Longrightarrow> ret b s fn l0 (fail_with msg l)"
  by (simp add: ret_def fail_with_def lx_keepsD[OF keeps_error])

lemma ret_pop:
  assumes "lx_rel b s fn l0 l" "b \<Longrightarrow> lx_clean l"
  shows "ret b s fn l0 (pop_to_base l)"
proof (cases "lx_pop l")
  case None
  then show ?thesis using rel_to[OF assms(1)] by (simp add: pop_to_base_def ret_def)
next
  case (Some l')
  note p = pop_to[OF Some rel_to[OF assms(1)]]
  have "base_state (lx_base l')" using lx_to_good[OF p] by (simp add: lx_good_def)
  moreover have "b \<Longrightarrow> lx_pos l0 < lx_pos l'"
    using assms(1) pop_depth[OF Some] by (simp add: lx_rel_def lx_adv_def)
  ultimately show ?thesis
    using p ready_base clean_pop[OF Some] assms(2)
    by (auto simp: pop_to_base_def Some ret_def to_base_def split: option.splits)
qed

lemma ret_push:
  assumes "lx_adv s fn l0 l" "lx_clean l" "base_state st"
  shows "ret b s fn l0 (to_base (lx_push st l))"
proof -
  note p = push_to[OF assms(1,3)]
  have "lx_pos l0 < lx_pos (lx_push st l)" "base_state (lx_base (lx_push st l))"
    using assms(1,3) by (simp_all add: lx_adv_def lx_push_def)
  then show ?thesis
    using p assms(2) ready_base by (auto simp: to_base_def ret_def split: option.splits)
qed

lemma ret_goto:
  "lx_rel b s fn l0 l \<Longrightarrow> (b \<Longrightarrow> lx_clean l \<and> ready st l) \<Longrightarrow> ret b s fn l0 (Goto (Some st) l)"
  using rel_to[of b s fn l0 l] by (auto simp: ret_def lx_rel_def lx_adv_def)

text \<open>A call whose state is discarded: the rest starts from a state reached from \<open>l0\<close>.\<close>

lemma ret_then:
  assumes "ret False s fn l0 r" "\<And>l. lx_to s fn l0 l \<Longrightarrow> ret b s fn l0 (k l)"
  shows "ret b s fn l0 (lex_then r k)"
  using assms by (cases r) (auto simp: lex_then_def)

text \<open>Only the state functions that never push nor pop, or always emit, give strict progress to
  the next call of the same function.\<close>

definition out_adv :: "bytes \<Rightarrow> bytes \<Rightarrow> lexer \<Rightarrow> lex_out \<Rightarrow> bool" where
  "out_adv s fn l0 out =
     (case out of Goto st l \<Rightarrow> lx_adv s fn l0 l \<and> lx_clean l
      | LexPanic l \<Rightarrow> lx_to s fn l0 l | LexHang \<Rightarrow> False)"

lemma ret_then_adv:
  assumes "out_adv s fn l0 r" "\<And>l. lx_adv s fn l0 l \<Longrightarrow> lx_clean l \<Longrightarrow> ret b s fn l0 (k l)"
  shows "ret b s fn l0 (lex_then r k)"
  using assms by (cases r) (auto simp: out_adv_def lex_then_def)

section \<open>Operators, variables, labels\<close>

lemma operator_ret:
  assumes "lx_to s fn l0 l" "b \<Longrightarrow> lx_rest l \<noteq> []"
  shows "ret b s fn l0 (lexPhpOperator l)"
  unfolding lexPhpOperator_def Let_def
  by (auto split: option.split intro!: ret_base ret_pop simp: rel_simps assms)

lemma variable_adv:
  assumes "lx_to s fn l0 l" "lx_rest l \<noteq> []"
  shows "out_adv s fn l0 (lexPhpVariable l)"
proof -
  have "lx_adv s fn l0 (lx_advance 1 l)"
    using advance_adv[OF assms, of 0] by simp
  from lx_keepsD'[OF keeps_acceptPhpLabel this] show ?thesis
    by (auto simp: lexPhpVariable_def Let_def out_adv_def to_base_def case_prod_unfold
        intro!: lx_keepsD'[OF keeps_emit])
qed

lemma variable_ret:
  assumes "lx_to s fn l0 l" "b \<Longrightarrow> lx_rest l \<noteq> []"
  shows "ret b s fn l0 (lexPhpVariable l)"
  unfolding lexPhpVariable_def Let_def case_prod_unfold
  by (auto intro!: ret_base simp: rel_simps assms)

lemma label_progress:
  assumes "lx_to s fn l0 l" "label_start_rune (lx_peek l)"
  shows "lx_adv s fn l0 (snd (lx_acceptPhpLabel l))"
proof -
  have ne: "lx_rest l \<noteq> []"
    using assms(2) peek_ne[of l] by (auto simp: label_start_rune_def rune_eof_def)
  obtain c l' where n: "lx_next l = (c, l')" by force
  have "label_start_rune c"
    using assms(2) peek_next_low[of l] peek_high[of l] n
    by (cases "lx_peek l < 128") (auto simp: label_start_rune_def)
  then show ?thesis
    using lx_keepsD'[OF keeps_label_loop next_adv'[OF n assms(1) ne]]
    by (simp add: lx_acceptPhpLabel_def n Let_def)
qed

lemma rel_label:
  "lx_to s fn l0 l \<Longrightarrow> (b \<Longrightarrow> label_start_rune (lx_peek l)) \<Longrightarrow>
   lx_rel b s fn l0 (snd (lx_acceptPhpLabel l))"
  using label_progress[of s fn l0 l] lx_keepsD[OF keeps_acceptPhpLabel, of s fn l0 l]
  by (auto simp: lx_rel_def)

lemma ignore_view [simp]:
  "lx_rest (lx_ignore l) = lx_rest l" "lx_peek (lx_ignore l) = lx_peek l"
  "lx_hasPrefix p (lx_ignore l) = lx_hasPrefix p l"
  by (simp_all add: lx_ignore_def lx_rest_def lx_peek_def lx_peekString_def lx_hasPrefix_def)

lemma string_ret:
  assumes "lx_to s fn l0 l" "b \<Longrightarrow> label_start_rune (lx_peek l)"
  shows "ret b s fn l0 (lexPhpString l)"
proof -
  define l1 where "l1 = snd (lx_acceptPhpLabel l)"
  have l1: "lx_rel b s fn l0 l1" unfolding l1_def by (rule rel_label[OF assms])
  show ?thesis
    unfolding lexPhpString_def Let_def case_prod_unfold l1_def[symmetric]
    by (auto intro!: ret_goto ret_base simp: rel_simps l1 rel_to[OF l1] byte_def dest: hasPrefix_ne)
qed

section \<open>Comments, attributes, casts\<close>

lemma rest_shorter:
  assumes "lx_to s fn l0 l" "lx_next l = (c, l')" "c \<noteq> rune_eof"
  shows "length (lx_rest l') < length (lx_rest l)"
  using lx_next_shorter[OF assms(2,3)] .

lemma eol_comment_ret:
  assumes "lx_rel b s fn l0 l" "length (lx_rest l) < n"
  shows "ret b s fn l0 (eol_comment_loop n l)"
  using assms
proof (induction n arbitrary: l)
  case (Suc n)
  obtain c l' where nx: "lx_next l = (c, l')" by force
  have l': "lx_rel b s fn l0 l'" using rel_keeps[OF keeps_next Suc.prems(1)] nx by simp
  show ?case
    using Suc.IH[OF l'] Suc.prems lx_next_shorter[OF nx]
    by (auto simp: nx rel_simps l' intro!: ret_base)
qed simp

lemma eol_comment_ready:
  assumes "lx_to s fn l0 l" "length (lx_rest l) < n" "b \<Longrightarrow> ready LexPhpEolComment l"
  shows "ret b s fn l0 (lexPhpEolComment n l)"
proof (cases b)
  case False
  then show ?thesis
    using eol_comment_ret[of False s fn l0 l n] assms by (simp add: lx_rel_def lexPhpEolComment_def)
next
  case True
  then have pk: "lx_peek l = 35 \<or> lx_peek l = 47" using assms(3) by simp
  then have ne: "lx_rest l \<noteq> []" using peek_ne[of l] by (auto simp: rune_eof_def)
  obtain c l' where nx: "lx_next l = (c, l')" by force
  have c: "c = 35 \<or> c = 47" using pk peek_next_low[of l] by (auto simp: nx)
  have "\<not> lx_hasPrefix ''?>'' l"
  proof
    assume "lx_hasPrefix ''?>'' l"
    then obtain cs where "lx_rest l = CHR ''?'' # cs"
      by (cases "lx_rest l") (auto simp: lx_hasPrefix_def lx_peekString_rest)
    then show False using peek_hd_low[of l "CHR ''?''"] pk by (auto simp: byte_def)
  qed
  moreover obtain n' where n: "n = Suc n'" using assms(2) by (cases n) auto
  moreover have "ret True s fn l0 (eol_comment_loop n' l')"
    using eol_comment_ret[of True s fn l0 l' n'] next_adv'[OF nx assms(1) ne]
      lx_next_shorter[OF nx] c assms(2) n by (auto simp: lx_rel_def rune_eof_def)
  ultimately show ?thesis using True c by (auto simp: lexPhpEolComment_def nx rune_eof_def)
qed

lemma attribute_ret:
  assumes "lx_to s fn l0 l" "b \<Longrightarrow> lx_rest l \<noteq> []"
  shows "ret b s fn l0 (lexPhpAttribute l)"
  unfolding lexPhpAttribute_def by (auto intro!: ret_base simp: rel_simps assms)

lemma untilFixed_adv:
  assumes "lx_to s fn l0 l" "b \<Longrightarrow> lx_rest l \<noteq> []" "p \<noteq> []"
  shows "lx_rel b s fn l0 (lx_acceptUntilFixed p 0 l)"
proof -
  obtain c l' where nx: "lx_next l = (c, l')" by force
  have "lx_rel b s fn l0 l'" using rel_next[OF assms(1,2)] nx by simp
  then show ?thesis
    using assms(3) by (subst lx_acceptUntilFixed.simps) (auto simp: nx rel_simps)
qed

lemma block_comment_ret:
  assumes "lx_to s fn l0 l" "b \<Longrightarrow> lx_rest l \<noteq> []"
  shows "ret b s fn l0 (lexPhpBlockComment l)"
  unfolding lexPhpBlockComment_def Let_def
  by (auto intro!: ret_base simp: rel_simps untilFixed_adv assms)

text \<open>The state after a cast that was not one is the state before it, one rune further: nothing
  was pending, so \<open>reset\<close> goes back to where the function started.\<close>

definition same_frame :: "lexer \<Rightarrow> lexer \<Rightarrow> bool" where
  "same_frame l0 l = (lx_start l = lx_start l0 \<and> lx_baseStack l = lx_baseStack l0)"

lemma frame_refl [simp]: "same_frame l l"
  by (simp add: same_frame_def)

lemma frame_next: "same_frame l0 l \<Longrightarrow> same_frame l0 (snd (lx_next l))"
  by (simp add: same_frame_def lx_next_frame)

lemma frame_backup: "same_frame l0 l \<Longrightarrow> same_frame l0 (lx_backup l)"
  by (simp add: same_frame_def lx_backup_def Let_def)

lemma frame_next': "same_frame l0 l \<Longrightarrow> lx_next l = (c, l') \<Longrightarrow> same_frame l0 l'"
  using frame_next[of l0 l] by simp

lemma frame_accept: "same_frame l0 l \<Longrightarrow> same_frame l0 (snd (lx_accept v l))"
  by (auto simp: lx_accept_def frame_next' frame_backup split: prod.splits)

lemma frame_acceptRun: "same_frame l0 l \<Longrightarrow> same_frame l0 (snd (lx_acceptRun v b l))"
proof (induction v b l rule: lx_acceptRun.induct)
  case (1 valid b l)
  obtain c l' where n: "lx_next l = (c, l')" by force
  show ?case
    using "1.IH"[OF n[symmetric] refl] frame_next'[OF "1.prems" n]
    by (subst lx_acceptRun.simps) (auto simp: n frame_backup)
qed

lemma frame_label_loop: "same_frame l0 l \<Longrightarrow> same_frame l0 (lx_label_loop l)"
proof (induction l rule: lx_label_loop.induct)
  case (1 l)
  obtain c l' where n: "lx_next l = (c, l')" by force
  show ?case
    using "1.IH"[OF n[symmetric] refl] frame_next'[OF "1.prems" n]
    by (subst lx_label_loop.simps) (auto simp: n frame_backup)
qed

lemma frame_label: "same_frame l0 l \<Longrightarrow> same_frame l0 (snd (lx_acceptPhpLabel l))"
  by (auto simp: lx_acceptPhpLabel_def Let_def frame_label_loop frame_backup frame_next'
      split: prod.splits)

lemmas frame_simps = frame_next frame_accept frame_acceptRun frame_label

lemma reset_to:
  assumes "lx_to s fn l0 l" "lx_clean l0" "same_frame l0 l"
  shows "lx_to s fn l0 (lx_reset l)" "lx_good s fn l0 \<Longrightarrow> lx_rest (lx_reset l) = lx_rest l0"
    "lx_clean (lx_reset l)" "lx_pos (lx_reset l) = lx_pos l0"
proof -
  have at: "lx_at s l" using assms(1) by (simp add: lx_to_def lx_good_def)
  note r = lx_at_reset[OF at]
  note [simp] = assms(2,3)[unfolded lx_clean_def same_frame_def]
  show "lx_to s fn l0 (lx_reset l)"
    using assms(1) r good_reset[OF lx_to_good[OF assms(1)]]
    by (simp add: lx_to_def lx_reset_def Let_def)
  show "lx_pos (lx_reset l) = lx_pos l0" using r by simp
  then show "lx_clean (lx_reset l)" by (simp add: lx_clean_def lx_reset_def Let_def)
  show "lx_rest (lx_reset l) = lx_rest l0" if "lx_good s fn l0"
    using r that by (simp add: lx_at_def lx_good_def)
qed

lemma cast_ret:
  assumes g: "lx_good s fn l" and "lx_clean l" "b \<Longrightarrow> lx_rest l \<noteq> []"
  shows "ret b s fn l (lexPhpPossibleCast l)"
proof -
  define l1 where "l1 = snd (lx_acceptPhpLabel (snd (lx_acceptSpaces (snd (lx_next l)))))"
  define l2 where "l2 = snd (lx_accept '')'' (snd (lx_acceptSpaces l1)))"
  have l2: "lx_rel b s fn l l2" "same_frame l l2"
    using assms(3) lx_to_refl[OF g]
    by (simp_all add: l2_def l1_def lx_acceptSpaces_def rel_simps frame_simps)
  note rs = reset_to[OF rel_to[OF l2(1)] assms(2) l2(2)]
  have last: "ret b s fn l (to_base (lx_emit (RuneType 40) (snd (lx_next (lx_reset l2)))))"
    using assms(3) rs(1,2) g by (auto intro!: ret_base simp: rel_simps)
  have cast: "lx_rel b s fn l (lx_emitWithData t w l2)"
    if "t = T_INT_CAST \<or> t = T_BOOL_CAST \<or> t = T_DOUBLE_CAST \<or> t = T_STRING_CAST"
      "w \<in> cast_words" for t w
    by (rule rel_keeps[OF keeps_emit_cast[OF that] l2(1)])
  show ?thesis
    unfolding lexPhpPossibleCast_def Let_def case_prod_unfold l1_def[symmetric] l2_def[symmetric]
    using last
    by (auto simp: cast cast_words_def rel_unary l2(1) byte_def intro!: ret_base)
qed

section \<open>Numbers\<close>

lemma number_body_type: "fst (number_body d a l) = T_LNUMBER \<or> fst (number_body d a l) = T_DNUMBER"
  by (simp add: number_body_def Let_def case_prod_unfold)

lemma number_body_rel:
  assumes "lx_rel b s fn l0 l"
  shows "lx_rel b s fn l0 (snd (number_body d a l))"
  using assms by (simp add: number_body_def Let_def case_prod_unfold rel_simps)

lemma keeps_ident_tail: "lx_keeps (\<lambda>l. snd (ident_tail n acc l))"
proof (induction n arbitrary: acc)
  case (Suc n)
  show ?case
  proof (rule lx_keepsI)
    fix s fn l assume g: "lx_good s fn l"
    obtain c l' where n: "lx_next l = (c, l')" by force
    show "lx_to s fn l (snd (ident_tail (Suc n) acc l))"
      using lx_keepsD[OF Suc keeps_loop(1)[OF g n]] lx_to_refl[OF g] by (simp add: n)
  qed
qed (simp add: keeps_id)

text \<open>The fuel of \<open>ident_tail\<close> is enough: it stops at a rune that does not belong to the
  identifier.\<close>

lemma ident_tail_stops:
  assumes "lx_good s fn l" "length (lx_rest l) \<le> n"
  shows "\<not> (isAlphaNumeric (lx_peek (snd (ident_tail n acc l)))
            \<or> lx_peek (snd (ident_tail n acc l)) = 95)"
  using assms
proof (induction n arbitrary: acc l)
  case 0
  then show ?case by (simp add: lx_peek_rest isAlphaNumeric_def rune_eof_def)
next
  case (Suc n)
  obtain c l' where n: "lx_next l = (c, l')" by force
  show ?case
  proof (cases "lx_rest l = []")
    case True
    then show ?thesis by (simp add: lx_peek_rest isAlphaNumeric_def rune_eof_def)
  next
    case False
    then have "c \<noteq> rune_eof" using lx_next_eof_iff[of l] n by simp
    from lx_next_shorter[OF n this] Suc.prems(2) have "length (lx_rest l') \<le> n" by simp
    from Suc.IH[OF keeps_loop(3)[OF Suc.prems(1) n] this] show ?thesis by (auto simp: n)
  qed
qed

lemma number_finish_ret:
  assumes l: "lx_rel b s fn l0 l" and t: "t = T_LNUMBER \<or> t = T_DNUMBER"
  shows "ret b s fn l0 (number_finish t a l)"
proof -
  note emit = rel_keeps[OF keeps_emit_number[OF t] l]
  show ?thesis
    unfolding number_finish_def Let_def case_prod_unfold
    by (auto intro!: ret_fail ret_base emit simp: rel_simps l rel_to[OF l]
        lx_keepsD[OF keeps_ident_tail] split: option.split)
qed

lemma number_from:
  assumes "lx_rel b s fn l0 (snd (number_body d a l))"
  shows "ret b s fn l0 (number_finish (fst (number_body d a l)) a (snd (number_body d a l)))"
  by (rule number_finish_ret[OF assms number_body_type])

lemma accept_no:
  "fst (lx_accept v l) \<longleftrightarrow> contains_rune v (fst (lx_next l))"
  by (simp add: lx_accept_def case_prod_unfold)

lemma contains_rune_nonneg: "contains_rune v r \<Longrightarrow> 0 \<le> r"
  using byte_bounds(1) by (auto simp: contains_rune_def list_ex_iff)

lemma accept_yes_adv:
  assumes "fst (lx_accept v l)" "lx_to s fn l0 l"
  shows "lx_adv s fn l0 (snd (lx_accept v l))"
proof -
  have "lx_rest l \<noteq> []"
    using assms(1) contains_rune_nonneg[of v "fst (lx_next l)"] lx_next_eof_iff[of l]
    by (auto simp: accept_no rune_eof_def)
  with assms next_adv[of s fn l0 l] show ?thesis
    by (simp add: lx_accept_def case_prod_unfold split: if_splits)
qed

lemma accept_no_view:
  assumes "\<not> fst (lx_accept v l)" "lx_good s fn l"
  shows "lx_rest (snd (lx_accept v l)) = lx_rest l"
  using assms lx_backup_next(4)[of s l]
  by (simp add: lx_accept_def case_prod_unfold lx_good_def split: if_splits)

lemma peek_cong: "lx_rest l = lx_rest l' \<Longrightarrow> lx_peek l = lx_peek l'"
  by (simp add: lx_peek_rest)

lemma accept_view:
  assumes "\<not> fst (lx_accept v l)" "lx_good s fn l"
  shows "lx_peek (snd (lx_accept v l)) = lx_peek l" "lx_good s fn (snd (lx_accept v l))"
  using accept_no_view[OF assms] lx_to_good[OF lx_keepsD[OF keeps_accept lx_to_refl[OF assms(2)]]]
  by (simp_all add: lx_peek_rest)

text \<open>A number that starts with a digit of the set, or with a point where a fraction is allowed,
  is not empty.\<close>

lemma acceptRun_adv:
  assumes "lx_to s fn l0 l" "contains_rune v (lx_peek l)" "lx_peek l < 128"
  shows "lx_adv s fn l0 (snd (lx_acceptRun v b l))"
proof -
  obtain c l' where nx: "lx_next l = (c, l')" by force
  have c: "c = lx_peek l" using peek_next_low[OF assms(3)] by (simp add: nx)
  have ne: "c \<noteq> rune_eof" using contains_rune_nonneg[OF assms(2)] by (simp add: c rune_eof_def)
  have "lx_adv s fn l0 l'" using next_adv'[OF nx assms(1)] peek_ne[of l] ne c by simp
  then show ?thesis
    using assms(2) ne
    by (subst lx_acceptRun.simps) (simp add: nx c[symmetric] lx_keepsD'[OF keeps_acceptRun])
qed

lemma number_body_adv:
  assumes "lx_good s fn l" "lx_to s fn l0 l" "(48 \<le> lx_peek l \<and> lx_peek l \<le> 57) \<or> lx_peek l = 46"
    and "d = ''0123456789_''"
  shows "lx_adv s fn l0 (snd (number_body d True l))"
proof (cases "lx_peek l = 46")
  case False
  with assms(3) have r: "48 \<le> lx_peek l" "lx_peek l \<le> 57" by auto
  then have "contains_rune d (lx_peek l)"
    by (simp add: assms(4) contains_rune_def byte_def) presburger
  moreover have "lx_peek l < 128" using r by simp
  ultimately have "lx_adv s fn l0 (snd (lx_acceptRun d [] l))"
    by (rule acceptRun_adv[OF assms(2)])
  then show ?thesis
    by (simp add: number_body_def Let_def case_prod_unfold adv_unary)
next
  case True
  define l1 where "l1 = snd (lx_acceptRun d [] l)"
  obtain c l' where nx: "lx_next l = (c, l')" by force
  have "c = 46" using peek_next_low[of l] True by (simp add: nx)
  then have l1: "l1 = lx_backup l'"
    using assms(4) by (simp add: l1_def lx_acceptRun.simps nx rune_eof_def contains_rune_def byte_def)
  have to1: "lx_to s fn l0 l1" unfolding l1_def by (rule lx_keepsD[OF keeps_acceptRun assms(2)])
  have "lx_peek l1 = 46"
    using lx_backup_next(4)[of s l] assms(1) True peek_cong[of l1 l] by (simp add: l1 nx lx_good_def)
  then have dot: "fst (lx_accept ''.'' l1)"
    using peek_next_low[of l1] by (simp add: accept_no contains_rune_def byte_def)
  show ?thesis
    using accept_yes_adv[OF dot to1] dot
    by (simp add: number_body_def Let_def case_prod_unfold l1_def[symmetric] adv_unary)
qed

lemma prefix_error_ret: "lx_to s fn l0 l \<Longrightarrow> ret b s fn l0 (prefix_underscore_error l)"
  unfolding prefix_underscore_error_def Let_def case_prod_unfold
  by (auto intro!: ret_fail simp: to_unary lx_keepsD[OF keeps_ident_tail])

lemma number_ret:
  assumes g: "lx_good s fn l" and to0: "lx_to s fn l0 l" and rdy: "b \<Longrightarrow> ready LexNumber l"
  shows "ret b s fn l0 (lexNumber l)"
proof -
  define l1 where "l1 = snd (lx_accept ''+-'' l)"
  define z l2 where "z = fst (lx_accept ''0'' l1)" and "l2 = snd (lx_accept ''0'' l1)"
  define h l3 where "h = fst (lx_accept ''xX'' l2)" and "l3 = snd (lx_accept ''xX'' l2)"
  define bn l4 where "bn = fst (lx_accept ''bB'' l3)" and "l4 = snd (lx_accept ''bB'' l3)"
  define o8 l5 where "o8 = fst (lx_accept ''oO'' l4)" and "l5 = snd (lx_accept ''oO'' l4)"
  note folds = l1_def[symmetric] z_def[symmetric] l2_def[symmetric] h_def[symmetric]
    l3_def[symmetric] bn_def[symmetric] l4_def[symmetric] o8_def[symmetric] l5_def[symmetric]
  have to1: "lx_to s fn l0 l1" unfolding l1_def by (rule to_unary to0)+
  have g1: "lx_good s fn l1" by (rule lx_to_good[OF to1])
  have to2: "lx_to s fn l0 l2" unfolding l2_def by (rule lx_keepsD[OF keeps_accept to1])
  have rel: "z \<Longrightarrow> lx_rel b s fn l0 l2"
    using accept_yes_adv[of "''0''" l1 s fn l0] to1 to2 by (auto simp: z_def l2_def lx_rel_def)
  have rel3: "z \<Longrightarrow> lx_rel b s fn l0 l3" and rel4: "z \<Longrightarrow> lx_rel b s fn l0 l4"
    and rel5: "z \<Longrightarrow> lx_rel b s fn l0 l5"
    using rel by (simp_all add: l3_def l4_def l5_def rel_unary)
  have first: "lx_rel b s fn l0 (snd (number_body ''0123456789_'' True l2))" if nz: "\<not> z"
  proof (cases b)
    case False
    then show ?thesis using number_body_rel[of False s fn l0 l2] to2 by (simp add: lx_rel_def)
  next
    case True
    then have r: "(48 \<le> lx_peek l \<and> lx_peek l \<le> 57) \<or> lx_peek l = 46" using rdy by simp
    have "\<not> contains_rune ''+-'' (fst (lx_next l))"
      using peek_next_low[of l] r by (auto simp: contains_rune_def byte_def)
    then have pk: "lx_peek l1 = lx_peek l" using accept_view(1)[of "''+-''" l s fn] g
      by (simp add: accept_no l1_def)
    have "lx_peek l2 = lx_peek l" "lx_good s fn l2"
      using accept_view[of "''0''" l1 s fn] g1 nz pk by (simp_all add: z_def l2_def)
    then show ?thesis
      using number_body_adv[of s fn l2 l0] to2 r True by (simp add: lx_rel_def)
  qed
  note fin = number_from[OF number_body_rel] prefix_error_ret
  show ?thesis
    unfolding lexNumber_def Let_def case_prod_unfold folds
    using number_from[OF first] fin rel rel3 rel4 rel5 rel_to[OF rel3] rel_to[OF rel4] rel_to[OF rel5]
    by auto
qed

section \<open>PHP code\<close>

lemma peek_ready:
  "lx_peek l = 35 \<or> lx_peek l = 47 \<Longrightarrow> ready LexPhpEolComment l"
  "48 \<le> lx_peek l \<and> lx_peek l \<le> 57 \<or> lx_peek l = 46 \<Longrightarrow> ready LexNumber l"
  by simp_all

text \<open>\<open>lexPhp\<close> reads a token itself, ends the run, or hands over to a state function that is
  ready.\<close>

definition disp :: "bytes \<Rightarrow> bytes \<Rightarrow> lexer \<Rightarrow> lex_out \<Rightarrow> bool" where
  "disp s fn l out =
     (ret True s fn l out
      \<or> (\<exists>st. out = Goto (Some st) l \<and> ready st l \<and> lx_rest l \<noteq> []
            \<and> st \<in> {LexPhpPossibleCast, LexPhpVariable, LexPhpAttribute, LexPhpEolComment,
                    LexPhpBlockComment, LexPhpOperator, LexNumber, LexPhpHeredoc,
                    LexPhpStringConst, LexPhpString}))"

lemma disp_ret: "ret True s fn l out \<Longrightarrow> disp s fn l out"
  by (simp add: disp_def)

lemma disp_goto:
  "lx_peek l \<noteq> rune_eof \<Longrightarrow> (lx_rest l \<noteq> [] \<Longrightarrow> ready st l) \<Longrightarrow>
   st \<in> {LexPhpPossibleCast, LexPhpVariable, LexPhpAttribute, LexPhpEolComment,
          LexPhpBlockComment, LexPhpOperator, LexNumber, LexPhpHeredoc,
          LexPhpStringConst, LexPhpString} \<Longrightarrow> disp s fn l (Goto (Some st) l)"
  using peek_ne[of l] by (simp add: disp_def)

lemma disp_if:
  "(c \<Longrightarrow> disp s fn l a) \<Longrightarrow> (\<not> c \<Longrightarrow> disp s fn l b) \<Longrightarrow> disp s fn l (if c then a else b)"
  by simp

lemma disp_fail: "lx_good s fn l \<Longrightarrow> disp s fn l (fail_with msg l)"
  by (simp add: disp_ret ret_fail lx_to_refl)

lemma php_disp:
  assumes g: "lx_good s fn l"
  shows "disp s fn l (lexPhp l)"
proof -
  note to = lx_to_refl[OF g]
  have ws: "disp s fn l (to_base (lx_emit T_WHITESPACE
      (snd (lx_acceptRun [CHR 0x20, CHR 0x0D, CHR 0x0A, CHR 0x09] [] l))))"
    if "lx_peek l = 32 \<or> lx_peek l = 13 \<or> lx_peek l = 10 \<or> lx_peek l = 9"
  proof -
    have c: "contains_rune [CHR 0x20, CHR 0x0D, CHR 0x0A, CHR 0x09] (lx_peek l)" "lx_peek l < 128"
      using that by (auto simp: contains_rune_def byte_def)
    show ?thesis
      by (rule disp_ret, rule ret_base)
         (simp_all add: lx_rel_def lx_keepsD'[OF keeps_emit acceptRun_adv[OF to c]])
  qed
  have ne: "lx_rest l \<noteq> []" if "lx_peek l \<noteq> rune_eof" using peek_ne[OF that] .
  have one: "disp s fn l (to_base (emit_next_rune l))"
    and ns: "disp s fn l (to_base (lx_emit T_NS_SEPARATOR (lx_skip l)))"
    if "lx_peek l \<noteq> rune_eof"
    using ne[OF that] to by (auto intro!: disp_ret ret_base simp: rel_simps)
  have eof: "disp s fn l (Goto None (lx_emit T_EOF l))"
    using to by (simp add: disp_ret to_unary)
  have ne': "0 \<le> lx_peek l \<Longrightarrow> lx_peek l \<noteq> rune_eof" by (simp add: rune_eof_def)
  have ops: "contains_rune v (lx_peek l) \<Longrightarrow> lx_peek l \<noteq> rune_eof" for v
    using contains_rune_nonneg ne' by blast
  show ?thesis
    unfolding lexPhp_def Let_def
    by (intro disp_if; (rule ws disp_fail[OF g] eof; assumption)?;
        (rule one ns disp_goto)?; (erule ops)?;
        (auto simp: byte_def label_start_rune_def rune_eof_def)?)
qed

section \<open>Text outside PHP tags\<close>

text \<open>\<open>lexText\<close> ends at the end of the input or stops, with nothing pending, at an opening tag.\<close>

definition text_out :: "bytes \<Rightarrow> bytes \<Rightarrow> lexer \<Rightarrow> lex_out \<Rightarrow> bool" where
  "text_out s fn l0 out =
     (case out of
        Goto None l \<Rightarrow> lx_to s fn l0 l
      | Goto (Some st) l \<Rightarrow> st = LexPhpOpen \<and> lx_to s fn l0 l \<and> lx_clean l \<and> lx_rest l \<noteq> []
      | _ \<Rightarrow> False)"

lemma emit_rest [simp]:
  "lx_rest (lx_emit t l) = lx_rest l" "lx_rest (emit_pending t l) = lx_rest l"
  by (simp_all add: lx_emit_def emit_pending_def Let_def lx_rest_def)

lemma emit_pending_clean: "lx_good s fn l \<Longrightarrow> lx_clean (emit_pending t l)"
  by (auto simp: emit_pending_def lx_clean_def lx_emit_def Let_def lx_good_def lx_at_def)

lemma text_loop_out:
  assumes "lx_to s fn l0 l" "length (lx_rest l) < n"
  shows "text_out s fn l0 (text_loop n l)"
  using assms
proof (induction n arbitrary: l)
  case (Suc n)
  obtain c l' where nx: "lx_next l = (c, l')" by force
  have l': "lx_to s fn l0 l'" using lx_keepsD[OF keeps_next Suc.prems(1)] nx by simp
  have less: "c \<noteq> rune_eof \<Longrightarrow> length (lx_rest l') < n"
    using lx_next_shorter[OF nx] Suc.prems(2) by simp
  have eof: "lx_rest l \<noteq> [] \<Longrightarrow> c \<noteq> rune_eof"
    using lx_next_eof_iff[of l] by (simp add: nx)
  note IH = Suc.IH[OF l' less]
    Suc.IH[OF lx_keepsD[OF keeps_emit l'], simplified, OF less]
  have pend: "lx_to s fn l0 (emit_pending T_INLINE_HTML l)" "lx_clean (emit_pending T_INLINE_HTML l)"
    using Suc.prems(1) lx_to_good[OF Suc.prems(1)] by (simp_all add: to_unary emit_pending_clean)
  show ?case
  proof (cases "lx_hasPrefix ''<?'' l")
    case True
    then have "lx_rest l \<noteq> []" by (rule hasPrefix_ne) simp
    with True show ?thesis
      using IH(1) eof pend by (auto simp: text_out_def nx)
  next
    case False
    then show ?thesis
      using IH l' by (auto simp: nx text_out_def to_unary)
  qed
qed simp

lemma keeps_shebang: "lx_keeps (shebang_loop n)"
proof (induction n)
  case (Suc n)
  show ?case
  proof (rule lx_keepsI)
    fix s fn l assume g: "lx_good s fn l"
    obtain c l' where nx: "lx_next l = (c, l')" by force
    note k = keeps_loop(1)[OF g nx]
    show "lx_to s fn l (shebang_loop (Suc n) l)"
      using k lx_keepsD[OF Suc k] by (simp add: nx)
  qed
qed (simp add: lx_keeps_def lx_to_refl)

text \<open>The fuel \<open>lexText\<close> gives the shebang loop is enough: the loop stops after a newline or at
  the end of the input.\<close>

lemma shebang_stops:
  assumes "length (lx_rest l) < n"
  shows "lx_rest (shebang_loop n l) = [] \<or>
    (\<exists>l1. fst (lx_next l1) = 10 \<and> shebang_loop n l = snd (lx_next l1))"
  using assms
proof (induction n arbitrary: l)
  case (Suc n)
  obtain c l' where nx: "lx_next l = (c, l')" by force
  consider "c = 10" | "c = rune_eof" | "c \<noteq> 10" "c \<noteq> rune_eof" by blast
  then show ?case
  proof cases
    case 1
    then have "fst (lx_next l) = 10" "shebang_loop (Suc n) l = snd (lx_next l)" by (simp_all add: nx)
    then show ?thesis by blast
  next
    case 2
    then have "lx_rest l = []" using lx_next_eof_iff[of l] by (simp add: nx)
    then have "lx_rest l' = []" using nx by (auto simp: lx_next_eof lx_rest_def)
    with 2 show ?thesis by (simp add: nx)
  next
    case 3
    have "length (lx_rest l') < n" using lx_next_shorter[OF nx 3(2)] Suc.prems by simp
    from Suc.IH[OF this] 3 show ?thesis by (simp add: nx)
  qed
qed simp

lemma text_ret:
  assumes g: "lx_good s fn l" and n: "length s < n"
  shows "text_out s fn l (lexText n l)"
proof -
  define l1 where "l1 = (if lx_pos l = 0 \<and> lx_start l = 0
      \<and> lx_hasPrefix [CHR 0xEF, CHR 0xBB, CHR 0xBF] l then lx_ignore (lx_skip l) else l)"
  have l1: "lx_to s fn l l1" using lx_to_refl[OF g] by (simp add: l1_def to_unary)
  define l2 where "l2 = (if lx_start l1 = lx_pos l1 \<and> lx_pos l1 \<le> 3 \<and> lx_hasPrefix ''#!'' l1
      then lx_ignore (shebang_loop (length (lx_rest l1) + 1) l1) else l1)"
  have l2: "lx_to s fn l l2"
    using l1 lx_keepsD[OF keeps_ignore lx_keepsD[OF keeps_shebang l1]]
    by (simp add: l2_def del: shebang_loop.simps)
  show ?thesis
    using text_loop_out[OF l2] n good_rest_length[OF lx_to_good[OF l2]]
    unfolding lexText_def Let_def l1_def[symmetric] l2_def[symmetric] by simp
qed

lemma open_ret:
  assumes "lx_to s fn l0 l" "lx_rest l \<noteq> []"
  shows "ret True s fn l0 (lexPhpOpen l)"
proof -
  have adv: "lx_adv s fn l0 (lx_advance 2 l)"
    using rel_advance[of s fn l0 l True 2] assms by (simp add: lx_rel_def)
  show ?thesis
    unfolding lexPhpOpen_def Let_def case_prod_unfold lx_acceptSpace_def
    by (auto intro!: ret_push ret_fail lx_adv_to simp: adv_unary adv)
qed

section \<open>Strings\<close>

text \<open>A single-quoted string may never end; from \<open>"\<close> and a backquote the function only enters
  the string state.\<close>

lemma string_const_ret:
  assumes "lx_to s fn l0 l" "lx_peek l = 34 \<or> lx_peek l = 96"
  shows "ret True s fn l0 (lexPhpStringConst n l)"
proof -
  obtain c l' where nx: "lx_next l = (c, l')" by force
  have c: "c = 34 \<or> c = 96" using peek_next_low[of l] assms(2) by (auto simp: nx)
  have ne: "lx_rest l \<noteq> []" using peek_ne[of l] assms(2) by (auto simp: rune_eof_def)
  have "lx_adv s fn l0 l'" by (rule next_adv'[OF nx assms(1) ne])
  then show ?thesis
    using c by (auto simp: lexPhpStringConst_def nx byte_def adv_unary intro!: ret_push)
qed

lemma squote_ret:
  assumes "lx_rel b s fn l0 l" "squote_loop q n l \<noteq> LexHang"
  shows "ret b s fn l0 (squote_loop q n l)"
  using assms
proof (induction n arbitrary: l)
  case (Suc n)
  obtain c l' where nx: "lx_next l = (c, l')" by force
  have l': "lx_rel b s fn l0 l'" using rel_keeps[OF keeps_next Suc.prems(1)] nx by simp
  show ?case
    using Suc.prems(2) Suc.IH[OF l'] Suc.IH[OF rel_keeps[OF keeps_next l']]
    by (auto simp: nx rel_unary l' intro!: ret_base)
qed simp

text \<open>One more byte read, one unit of fuel less.\<close>

lemma adv_fuel: "lx_adv s fn l l' \<Longrightarrow> length s < Suc n + lx_pos l \<Longrightarrow> length s < n + lx_pos l'"
  by (simp add: lx_adv_def)

lemma emit_pending_pos [simp]: "lx_pos (emit_pending t l) = lx_pos l"
  by (simp add: emit_pending_def lx_emit_def Let_def)

lemma dollar_brace_adv:
  "lx_to s fn l0 l \<Longrightarrow> lx_rest l \<noteq> [] \<Longrightarrow> lx_adv s fn l0 (emit_dollar_brace l)"
  by (simp add: emit_dollar_brace_def adv_unary emit_next_rune_adv)

lemma open_brace_adv:
  "lx_to s fn l0 l \<Longrightarrow> lx_rest l \<noteq> [] \<Longrightarrow> lx_adv s fn l0 (emit_open_brace l)"
  by (simp add: emit_open_brace_def adv_unary next_adv)

lemma brace_clean [simp]: "lx_clean (emit_dollar_brace l)" "lx_clean (emit_open_brace l)"
  by (simp_all add: emit_dollar_brace_def emit_open_brace_def)

text \<open>After a variable, the interpolation loops go on with a state that is further on.\<close>

lemma variable_then:
  assumes "lx_to s fn l0 l" "lx_rest l \<noteq> []"
    and "\<And>l'. lx_adv s fn l0 l' \<Longrightarrow> lx_adv s fn l l' \<Longrightarrow> lx_clean l' \<Longrightarrow> ret b s fn l0 (k l')"
  shows "ret b s fn l0 (lex_then (lexPhpVariable l) k)"
proof -
  have "out_adv s fn l0 (lexPhpVariable l)" "out_adv s fn l (lexPhpVariable l)"
    using variable_adv assms(1,2) lx_to_refl[OF lx_to_good[OF assms(1)]] by blast+
  then show ?thesis
    using assms(3) by (cases "lexPhpVariable l") (auto simp: out_adv_def lex_then_def)
qed

lemma adv_rest: "lx_adv s fn l l' \<Longrightarrow> lx_good s fn l \<Longrightarrow> lx_rest l \<noteq> []"
  by (auto simp: lx_adv_def lx_good_def lx_at_def)

lemma variable_then':
  assumes "lx_adv s fn l0 l"
    and "\<And>l'. lx_adv s fn l0 l' \<Longrightarrow> lx_clean l' \<Longrightarrow> ret b s fn l0 (k l')"
  shows "ret b s fn l0 (lex_then (lexPhpVariable l) k)"
proof -
  have "lx_adv s fn l0 (lx_advance 1 l)" by (rule lx_keepsD'[OF keeps_advance assms(1)])
  from lx_keepsD'[OF keeps_emit lx_keepsD'[OF keeps_acceptPhpLabel this]] show ?thesis
    by (auto simp: lexPhpVariable_def Let_def case_prod_unfold to_base_def lex_then_def
        intro!: assms(2))
qed

lemma string_loop_ret:
  assumes "lx_to s fn l0 l" "length s < n + lx_pos l"
  shows "ret True s fn l0 (string_loop d n l)"
  using assms
proof (induction n arbitrary: l)
  case 0
  then show ?case by (simp add: lx_to_def lx_good_def lx_at_def)
next
  case (Suc n)
  note to = Suc.prems(1)
  have here: "lx_to s fn l l" by (rule lx_to_refl[OF lx_to_good[OF to]])
  have IH: "ret True s fn l0 (string_loop d n l')" if "lx_adv s fn l l'" for l'
    by (rule Suc.IH[OF lx_to_trans[OF to lx_adv_to[OF that]] adv_fuel[OF that Suc.prems(2)]])
  let ?p = "emit_pending T_ENCAPSED_AND_WHITESPACE l"
  have p: "lx_to s fn l0 ?p" "lx_to s fn l ?p" using to here by (simp_all add: to_unary)
  have eof: "ret True s fn l0 (fail_with m (lx_emit t l))" for m t
    by (rule ret_fail) (simp add: to_unary to)
  show ?case
  proof (cases "lx_peek l = rune_eof")
    case True
    then show ?thesis using eof by simp
  next
    case False
    note ne = peek_ne[OF False]
    have skip: "lx_adv s fn l (lx_skip l)" "lx_adv s fn l (lx_skip (lx_skip l))"
      using ne here by (simp_all add: next_adv adv_unary)
    have close: "ret True s fn l0 (pop_to_base (lx_emit t (lx_skip ?p)))" for t
      using p(1) ne by (auto intro!: ret_pop simp: rel_simps)
    have brace: "ret True s fn l0 (to_base (lx_push (Some LexInterpolatedComplexVar)
        (emit_dollar_brace (emit_pending T_ENCAPSED_AND_WHITESPACE ?p))))"
      using p(1) ne by (auto intro!: ret_push dollar_brace_adv simp: to_unary)
    have open_b: "ret True s fn l0 (lex_then (lexPhpVariable (emit_open_brace ?p))
        (\<lambda>l. to_base (lx_push (Some LexInterpolatedComplexVar) l)))"
      using p(1) ne by (auto intro!: variable_then' ret_push open_brace_adv)
    have var: "ret True s fn l0 (lex_then (lexPhpVariable ?p) (\<lambda>l.
        if lx_peek l = cc (CHR ''-'') \<and> lx_peekString 2 l = ''->''
        then to_base (lx_push (Some LexInterpolatedObjectOp) l)
        else if lx_peek l = cc (CHR ''['') then to_base (lx_push (Some LexInterpolatedArrayAccess) l)
        else string_loop d n l))"
    proof (rule variable_then[OF p(1)])
      show "lx_rest ?p \<noteq> []" using ne by simp
      fix l' assume a: "lx_adv s fn l0 l'" "lx_adv s fn ?p l'" "lx_clean l'"
      show "ret True s fn l0 (if lx_peek l' = cc (CHR ''-'') \<and> lx_peekString 2 l' = ''->''
        then to_base (lx_push (Some LexInterpolatedObjectOp) l')
        else if lx_peek l' = cc (CHR ''['') then to_base (lx_push (Some LexInterpolatedArrayAccess) l')
        else string_loop d n l')"
        using a IH[OF lx_adv_trans[OF p(2) a(2)]] by (auto intro!: ret_push)
    qed
    show ?thesis
      using False IH[OF skip(1)] IH[OF skip(2)] close brace open_b var by (simp add: Let_def)
  qed
qed

section \<open>Interpolation\<close>

text \<open>Calls whose result is used as a lexer, not as a state.\<close>

definition out_rel :: "bool \<Rightarrow> bytes \<Rightarrow> bytes \<Rightarrow> lexer \<Rightarrow> lex_out \<Rightarrow> bool" where
  "out_rel b s fn l0 out =
     (case out of Goto st l \<Rightarrow> lx_rel b s fn l0 l \<and> lx_clean l
      | LexPanic l \<Rightarrow> lx_to s fn l0 l | LexHang \<Rightarrow> False)"

lemma out_rel_base: "lx_rel b s fn l0 l \<Longrightarrow> lx_clean l \<Longrightarrow> out_rel b s fn l0 (to_base l)"
  by (simp add: out_rel_def to_base_def)

lemma out_rel_pop: "lx_rel b s fn l0 l \<Longrightarrow> lx_clean l \<Longrightarrow> out_rel b s fn l0 (pop_to_base l)"
  using pop_to[of l _ s fn l0] pop_depth[of l] clean_pop[of l] rel_to[of b s fn l0 l]
  by (auto simp: out_rel_def pop_to_base_def to_base_def lx_rel_def lx_adv_def dest: lx_to_good
      split: option.splits)

lemma operator_out:
  assumes "lx_to s fn l0 l" "b \<Longrightarrow> lx_rest l \<noteq> []"
  shows "out_rel b s fn l0 (lexPhpOperator l)"
  unfolding lexPhpOperator_def Let_def
  by (auto split: option.split intro!: out_rel_base out_rel_pop simp: rel_simps assms)

lemma variable_out:
  assumes "lx_rel b s fn l0 l"
  shows "out_rel b s fn l0 (lexPhpVariable l)"
  unfolding lexPhpVariable_def Let_def case_prod_unfold
  by (auto intro!: out_rel_base simp: rel_unary assms)

lemma string_out:
  assumes "lx_rel b s fn l0 l"
  shows "out_rel b s fn l0 (lexPhpString l)"
proof -
  have "lx_rel b s fn l0 (snd (lx_acceptPhpLabel l))"
    by (rule rel_keeps[OF keeps_acceptPhpLabel assms])
  then show ?thesis
    unfolding lexPhpString_def Let_def case_prod_unfold
    by (auto intro!: out_rel_base simp: out_rel_def[where out = "Goto _ _"] rel_unary)
qed

lemma then_rel:
  assumes "out_rel b s fn l0 r"
    "\<And>l'. lx_rel b s fn l0 l' \<Longrightarrow> lx_clean l' \<Longrightarrow> ret b' s fn l0 (k l')"
  shows "ret b' s fn l0 (lex_then r k)"
  using assms by (cases r) (auto simp: out_rel_def lex_then_def)

lemma then_keep:
  assumes "lx_rel b s fn l0 l" "ret False s fn l r"
    "\<And>l'. lx_rel b s fn l0 l' \<Longrightarrow> ret b s fn l0 (k l')"
  shows "ret b s fn l0 (lex_then r k)"
proof -
  have "lx_rel b s fn l0 l'" if "lx_to s fn l l'" for l'
    using assms(1) that by (auto simp: lx_rel_def lx_to_trans lx_adv_trans')
  then show ?thesis
    using assms(2,3) rel_to[OF assms(1)]
    by (cases r) (auto simp: lex_then_def ret_def[of False] intro: lx_to_trans)
qed

lemma close_ret:
  assumes "lx_rel b s fn l0 l"
  shows "ret b s fn l0 (lex_then (lexPhpOperator l) pop_to_base)"
proof -
  have "out_rel b s fn l0 (lexPhpOperator l)"
    unfolding lexPhpOperator_def Let_def
    by (auto split: option.split intro!: out_rel_base out_rel_pop simp: rel_unary assms)
  then show ?thesis by (rule then_rel) (auto intro: ret_pop)
qed

lemma object_op_ret:
  assumes "lx_to s fn l0 l" "b \<Longrightarrow> lx_rest l \<noteq> []"
  shows "ret b s fn l0 (lexInterpolatedObjectOp l)"
  unfolding lexInterpolatedObjectOp_def
  by (rule then_rel[OF operator_out[OF assms]], assumption)
     (auto intro: then_rel[OF string_out] ret_pop)

lemma array_access_ret:
  assumes "lx_to s fn l0 l" "b \<Longrightarrow> lx_rest l \<noteq> []"
  shows "ret b s fn l0 (lexInterpolatedArrayAccess l)"
  unfolding lexInterpolatedArrayAccess_def
proof (rule then_rel[OF operator_out[OF assms]], assumption, unfold Let_def)
  fix l1 assume l1: "lx_rel b s fn l0 l1"
  define l2 where "l2 = lx_skip l1"
  have l2: "lx_rel b s fn l0 l2" unfolding l2_def by (rule rel_keeps[OF keeps_next l1])
  have num: "ret False s fn l (lexNumber l)" if "lx_rel b s fn l0 l" for l
    using number_ret[OF rel_good[OF that] lx_to_refl[OF rel_good[OF that]], of False] by simp
  show "ret b s fn l0
     (if lx_peek l1 = cc (CHR ''$'') then
        lex_then (lexPhpVariable l1) (\<lambda>l. lex_then (lexPhpOperator l) pop_to_base)
      else if lx_peek l1 = cc (CHR ''-'') then
        (if 48 \<le> lx_peek (lx_skip l1) \<and> lx_peek (lx_skip l1) \<le> 57
         then lex_then (lexNumber (lx_skip l1)) (\<lambda>l. lex_then (lexPhpOperator l) pop_to_base)
         else fail_with (''syntax error, unexpected character -'' @ expecting_offset) (lx_skip l1))
      else if 48 \<le> lx_peek l1 \<and> lx_peek l1 \<le> 57 then
        lex_then (lexNumber l1) (\<lambda>l. lex_then (lexPhpOperator l) pop_to_base)
      else if label_start_rune (lx_peek l1) then
        lex_then (lexPhpString l1) (\<lambda>l. lex_then (lexPhpOperator l) pop_to_base)
      else if lx_peek l1 < 32 \<or> lx_peek l1 = 127 then
        fail_with (''syntax error, unexpected character 0x''
           @ (if lx_peek l1 < 0 then ''-01'' else hex2_upper (lx_peek l1)) @ expecting_offset) l1
      else fail_with (''syntax error, unexpected character '' @ encode_rune (lx_peek l1)
           @ expecting_offset) l1)"
    unfolding l2_def[symmetric]
    using l1 l2 num
    by (auto intro!: ret_fail rel_to[OF l1] rel_to[OF l2] close_ret
        intro: then_rel[OF variable_out[OF l1]] then_rel[OF string_out[OF l1]]
          then_keep[OF l1 num[OF l1]] then_keep[OF l2 num[OF l2]])
qed

text \<open>At the end of the input these two states do not come back to themselves for ever: an array
  access fails, an object operator leaves its stack entry.\<close>

lemma to_eof: "lx_to s fn l l' \<Longrightarrow> lx_rest l = [] \<Longrightarrow> lx_good s fn l \<Longrightarrow> lx_rest l' = []"
  by (auto simp: lx_to_def lx_good_def lx_at_def)

lemma to_eof_depth:
  "lx_to s fn l l' \<Longrightarrow> lx_rest l = [] \<Longrightarrow> lx_good s fn l \<Longrightarrow> lx_depth l' \<le> lx_depth l"
  by (auto simp: lx_to_def lx_good_def lx_at_def)

lemma array_access_eof:
  assumes g: "lx_good s fn l" and e: "lx_rest l = []"
  shows "lexInterpolatedArrayAccess l \<noteq> Goto (Some st) l'"
proof (cases "lexPhpOperator l")
  case (Goto st1 l1)
  then have "lx_to s fn l l1"
    using operator_out[OF lx_to_refl[OF g], of False] by (simp add: out_rel_def lx_rel_def)
  from to_eof[OF this e g] have "lx_peek l1 = -1" by (simp add: lx_peek_rest rune_eof_def)
  then show ?thesis
    by (simp add: lexInterpolatedArrayAccess_def lex_then_def Goto byte_def label_start_rune_def
        fail_with_def)
qed (simp_all add: lexInterpolatedArrayAccess_def lex_then_def)

lemma object_op_eof:
  assumes g: "lx_good s fn l" and e: "lx_rest l = []" and o: "lexInterpolatedObjectOp l = Goto st l'"
  shows "lx_clean l' \<and> lx_depth l' < lx_depth l \<and> st = lx_base l'"
proof -
  obtain st1 l1 where 1: "lexPhpOperator l = Goto st1 l1"
    using o by (cases "lexPhpOperator l") (auto simp: lexInterpolatedObjectOp_def lex_then_def)
  then have to1: "lx_to s fn l l1"
    using operator_out[OF lx_to_refl[OF g], of False] by (simp add: out_rel_def lx_rel_def)
  obtain st2 l2 where 2: "lexPhpString l1 = Goto st2 l2"
    using o 1 by (cases "lexPhpString l1") (auto simp: lexInterpolatedObjectOp_def lex_then_def)
  then have to2: "lx_to s fn l l2" "lx_clean l2"
    using string_out[of False s fn l l1] to1 by (simp_all add: out_rel_def lx_rel_def)
  have "pop_to_base l2 = Goto st l'" using o 1 2 by (simp add: lexInterpolatedObjectOp_def lex_then_def)
  then show ?thesis
    using to2 to_eof_depth[OF to2(1) e g] clean_pop[of l2 l'] pop_depth[of l2 l']
    by (auto simp: pop_to_base_def to_base_def split: option.splits)
qed

lemma disp_False: "disp s fn l out \<Longrightarrow> lx_good s fn l \<Longrightarrow> ret False s fn l out"
  by (auto simp: disp_def ret_def lx_to_refl split: lex_out.splits option.splits)

lemma complex_var_disp:
  assumes g: "lx_good s fn l"
  shows "disp s fn l (lexInterpolatedComplexVar l)"
proof (cases "lx_peek l = 125")
  case True
  then have "lx_rest l \<noteq> []" using peek_ne[of l] by (simp add: rune_eof_def)
  then have "ret True s fn l (pop_to_base (emit_next_rune l))"
    using lx_to_refl[OF g] by (auto intro!: ret_pop simp: rel_simps)
  with True show ?thesis by (simp add: lexInterpolatedComplexVar_def byte_def disp_ret)
next
  case False
  then show ?thesis using php_disp[OF g] by (simp add: lexInterpolatedComplexVar_def byte_def)
qed

section \<open>Heredoc\<close>

text \<open>A pushed call whose state is discarded reads nothing back: the loop goes on further on.\<close>

lemma push_call_then:
  assumes l: "lx_to s fn l0 l" and adv: "lx_adv s fn l l1"
    and f: "\<And>l. lx_good s fn l \<Longrightarrow> ret False s fn l (f l)" and st: "base_state (Some st)"
    and k: "\<And>l'. lx_to s fn l l' \<Longrightarrow> lx_pos l < lx_pos l' \<Longrightarrow> ret True s fn l0 (k l')"
  shows "ret True s fn l0 (lex_then (lx_pushCall st f l1) k)"
proof -
  let ?l = "lx_push (Some st) l1"
  have p: "lx_to s fn l ?l" "lx_pos l < lx_pos ?l"
    using push_to[OF adv st] adv by (simp_all add: lx_adv_def lx_push_def)
  have "lx_to s fn l0 l' \<and> lx_to s fn l l' \<and> lx_pos l < lx_pos l'" if "lx_to s fn ?l l'" for l'
    using p that lx_to_trans[OF p(1) that] lx_to_trans[OF l lx_to_trans[OF p(1) that]]
    by (simp add: lx_to_def)
  moreover have "ret False s fn ?l (f ?l)" by (rule f[OF lx_to_good[OF p(1)]])
  ultimately show ?thesis
    using k by (cases "f ?l") (auto simp: lx_pushCall_def lex_then_def)
qed

lemma heredoc_calls:
  assumes g: "lx_good s fn l"
  shows "ret False s fn l (lexInterpolatedComplexVar l)"
    "ret False s fn l (lexInterpolatedObjectOp l)" "ret False s fn l (lexInterpolatedArrayAccess l)"
  using disp_False[OF complex_var_disp[OF g] g] object_op_ret[OF lx_to_refl[OF g], of False]
    array_access_ret[OF lx_to_refl[OF g], of False] by simp_all

text \<open>The state an unfinished heredoc is in: further on than \<open>l0\<close>.\<close>

definition lx_fin :: "bytes \<Rightarrow> bytes \<Rightarrow> lexer \<Rightarrow> lexer \<Rightarrow> bool" where
  "lx_fin s fn l0 l = (lx_to s fn l0 l \<and> lx_pos l0 < lx_pos l)"

lemma fin_trans: "lx_fin s fn l0 l \<Longrightarrow> lx_to s fn l l' \<Longrightarrow> lx_fin s fn l0 l'"
  using lx_to_trans by (auto simp: lx_fin_def lx_to_def)

lemma fin_keeps: "lx_keeps f \<Longrightarrow> lx_fin s fn l0 l \<Longrightarrow> lx_fin s fn l0 (f l)"
  using fin_trans lx_to_refl lx_keepsD lx_to_good lx_fin_def by metis

lemmas fin_unary = keeps_intros[THEN fin_keeps] keeps_pairs[THEN fin_keeps]

lemma ret_fin: "lx_fin s fn l0 l \<Longrightarrow> lx_clean l \<Longrightarrow> ret True s fn l0 (to_base l)"
  using ready_base
  by (auto simp: ret_def to_base_def lx_fin_def lx_to_def lx_good_def split: option.splits)

lemma fin_to: "lx_fin s fn l0 l \<Longrightarrow> lx_to s fn l0 l"
  by (simp add: lx_fin_def)

text \<open>The end of a heredoc.\<close>

lemma heredoc_end:
  assumes "lx_fin s fn l0 l"
  shows "ret True s fn l0 (to_base (lx_emit T_END_HEREDOC (lx_advance k
      (if lx_pos l > lx_start l then emitHeredocContentWithIndent ind l else l))))"
    "ret True s fn l0 (to_base (lx_emit T_END_HEREDOC (lx_advance k
      (if lx_pos l > lx_start l then emitHeredocContent l else l))))"
  using assms by (auto intro!: ret_fin simp: fin_unary)

lemma heredoc_newline:
  assumes l: "lx_fin s fn l0 l" "lx_fin s fn l l1"
    and IH: "\<And>l'. lx_fin s fn l l' \<Longrightarrow> ret True s fn l0 (heredoc_loop m nd n l')"
  shows "ret True s fn l0
     (if lx_hasPrefix m l1 then
        (let l = if lx_pos l1 > lx_start l1 then emitHeredocContent l1 else l1 in
         to_base (lx_emit T_END_HEREDOC (lx_advance (length m) l)))
      else case checkFlexibleEndMarker l1 m of
          Some (indent, advLen) \<Rightarrow>
            (let l = if lx_pos l1 > lx_start l1 then emitHeredocContentWithIndent indent l1 else l1 in
             to_base (lx_emit T_END_HEREDOC (lx_advance advLen l)))
        | None \<Rightarrow> heredoc_loop m nd n l1)"
  using heredoc_end[OF fin_trans[OF l(1) fin_to[OF l(2)]]] IH[OF l(2)]
  by (simp add: Let_def split: option.splits prod.splits)

lemma heredoc_loop_ret:
  assumes "lx_fin s fn l0 l" "length s < n + lx_pos l"
  shows "ret True s fn l0 (heredoc_loop m nd n l)"
  using assms
proof (induction n arbitrary: l)
  case 0
  then show ?case by (simp add: lx_fin_def lx_to_def lx_good_def lx_at_def)
next
  case (Suc n)
  note fin = Suc.prems(1)
  note to = fin_to[OF fin]
  have here: "lx_to s fn l l" by (rule lx_to_refl[OF lx_to_good[OF to]])
  have IH: "ret True s fn l0 (heredoc_loop m nd n l')" if "lx_fin s fn l l'" for l'
    using Suc.IH[OF fin_trans[OF fin fin_to[OF that]]] Suc.prems(2) that by (simp add: lx_fin_def)
  have advfin: "lx_adv s fn l l' \<Longrightarrow> lx_fin s fn l l'" for l'
    by (simp add: lx_fin_def lx_adv_to, simp add: lx_adv_def)
  let ?p = "emit_pending T_ENCAPSED_AND_WHITESPACE l"
  have p: "lx_to s fn l ?p" using here by (simp add: to_unary)
  have eof: "ret True s fn l0 (fail_with msg (lx_emit t l))"
    "ret True s fn l0 (fail_with msg (lx_emit t (lx_skip l)))" for msg t
    by (rule ret_fail; simp add: to_unary to)+
  show ?case
  proof (cases "lx_rest l = []")
    case True
    then have "\<not> lx_hasPrefix [CHR 0x0A] l" "\<not> lx_hasPrefix [CHR 0x0D, CHR 0x0A] l"
      "lx_peek l = rune_eof" "fst (lx_next l) = rune_eof"
      using hasPrefix_ne[of _ l] lx_peek_eof_iff[of l] lx_next_eof_iff[of l] by auto
    then show ?thesis using eof by (simp add: case_prod_unfold Let_def)
  next
    case ne: False
    have skip: "lx_adv s fn l (lx_skip l)" "lx_adv s fn l (lx_skip (lx_skip l))"
      using ne here by (simp_all add: next_adv adv_unary)
    note skips = IH[OF advfin[OF skip(1)]] IH[OF advfin[OF skip(2)]]
    have nl: "lx_fin s fn l (lx_skip (if c then lx_skip l else l))" for c
      using skip by (simp add: advfin)
    have brace: "ret True s fn l0 (lex_then (lx_pushCall LexInterpolatedComplexVar
          lexInterpolatedComplexVar (emit_dollar_brace (emit_pending T_ENCAPSED_AND_WHITESPACE ?p)))
        (heredoc_loop m nd n))"
      using p ne
      by (auto intro!: push_call_then[OF to] dollar_brace_adv heredoc_calls IH simp: to_unary lx_fin_def)
    have open_b: "ret True s fn l0 (lex_then (lexPhpVariable (emit_open_brace ?p))
        (\<lambda>l. lex_then (lx_pushCall LexInterpolatedComplexVar lexInterpolatedComplexVar l)
           (heredoc_loop m nd n)))"
    proof -
      have "lx_rel True s fn l (emit_open_brace ?p)"
        using p ne open_brace_adv by (simp add: lx_rel_def)
      from variable_out[OF this] show ?thesis
        using lx_to_trans[OF to]
        by (cases "lexPhpVariable (emit_open_brace ?p)")
           (auto simp: lex_then_def[of "Goto _ _"] lex_then_def[of "LexPanic _"] out_rel_def
             lx_rel_def lx_fin_def intro!: push_call_then[OF to] heredoc_calls IH)
    qed
    have var: "ret True s fn l0 (lex_then (lexPhpVariable ?p) (\<lambda>l.
        if lx_peek l = cc (CHR ''-'') \<and> lx_peekString 2 l = ''->'' then
          lex_then (lx_pushCall LexInterpolatedObjectOp lexInterpolatedObjectOp l) (heredoc_loop m nd n)
        else if lx_peek l = cc (CHR ''['') then
          lex_then (lx_pushCall LexInterpolatedArrayAccess lexInterpolatedArrayAccess l)
            (heredoc_loop m nd n)
        else heredoc_loop m nd n l))"
      using p ne lx_to_trans[OF to] variable_adv[OF p] IH[OF advfin]
      by (cases "lexPhpVariable ?p")
         (auto simp: lex_then_def[of "Goto _ _"] lex_then_def[of "LexPanic _"] out_adv_def
             lx_fin_def intro!: push_call_then[OF to] heredoc_calls IH)
    show ?thesis
    proof (cases "lx_hasPrefix [CHR 0x0A] l \<or> lx_hasPrefix [CHR 0x0D, CHR 0x0A] l")
      case True
      then show ?thesis using heredoc_newline[OF fin nl IH] by (simp add: Let_def)
    next
      case False
      have pk: "lx_peek l \<noteq> rune_eof" "fst (lx_next l) \<noteq> rune_eof"
        using ne lx_peek_eof_iff[of l] lx_next_eof_iff[of l] by auto
      note facts = pk skips brace open_b var eof
      show ?thesis
      proof (cases "nd = True")
        case nd: True
        show ?thesis
          unfolding heredoc_loop.simps Let_def case_prod_unfold nd
          using False by (intro ret_if) (simp_all add: facts[unfolded nd])
      next
        case nd: False
        then have nd: "nd = False" by simp
        show ?thesis
          unfolding heredoc_loop.simps Let_def case_prod_unfold nd
          using False by (intro ret_if) (simp_all add: facts[unfolded nd])
      qed
    qed
  qed
qed

lemma frame_advance: "same_frame l0 l \<Longrightarrow> same_frame l0 (lx_advance n l)"
  by (induction n arbitrary: l) (simp_all add: frame_next)

lemma reset_operator:
  assumes "lx_to s fn l0 l1" "lx_clean l1" "lx_rest l1 \<noteq> []" "lx_to s fn l1 l" "same_frame l1 l"
  shows "lx_to s fn l0 (lx_reset l) \<and> lx_clean (lx_reset l) \<and> lx_rest (lx_reset l) \<noteq> []"
  using reset_to[OF assms(4,2,5)] lx_to_trans[OF assms(1)] lx_to_good[OF assms(1)] assms(3) by auto

text \<open>A heredoc is read to its end marker, or the input goes back to the operator \<open><<\<close>.\<close>

definition heredoc_out :: "bytes \<Rightarrow> bytes \<Rightarrow> lexer \<Rightarrow> lex_out \<Rightarrow> bool" where
  "heredoc_out s fn l0 out =
     (ret True s fn l0 out
      \<or> (\<exists>l'. out = Goto (Some LexPhpOperator) l' \<and> lx_to s fn l0 l' \<and> lx_clean l'
            \<and> lx_rest l' \<noteq> []))"

lemma heredoc_outI: "ret True s fn l0 out \<Longrightarrow> heredoc_out s fn l0 out"
  by (simp add: heredoc_out_def)

lemma heredoc_out_if:
  "(c \<Longrightarrow> heredoc_out s fn l0 x) \<Longrightarrow> (\<not> c \<Longrightarrow> heredoc_out s fn l0 y) \<Longrightarrow>
   heredoc_out s fn l0 (if c then x else y)"
  by simp

lemma heredoc_ret:
  assumes g: "lx_good s fn l" and c: "lx_clean l" and ne: "lx_rest l \<noteq> []" and n: "length s < n"
  shows "heredoc_out s fn l (lexPhpHeredoc n l)"
proof -
  note to = lx_to_refl[OF g]
  define ok l1 where "ok = fst (lx_acceptFixed ''<<<'' l)" and "l1 = snd (lx_acceptFixed ''<<<'' l)"
  define l2 where "l2 = snd (lx_acceptSpaces l1)"
  define nd where "nd = (lx_peek l2 = cc (CHR 0x27))"
  define l3 where "l3 = (if nd then lx_skip (lx_ignore l2) else l2)"
  define m l4 where "m = fst (lx_acceptPhpLabel l3)" and "l4 = snd (lx_acceptPhpLabel l3)"
  define l5 where "l5 = (if nd then lx_skip (lx_ignore l4) else l4)"
  define nl l6 where "nl = fst (lx_accept [CHR 0x0D, CHR 0x0A] l5)"
    and "l6 = snd (lx_accept [CHR 0x0D, CHR 0x0A] l5)"
  define l7 where "l7 = lx_emit T_START_HEREDOC l6"
  note folds = ok_def[symmetric] l1_def[symmetric] l2_def[symmetric] nd_def[symmetric]
    l3_def[symmetric] m_def[symmetric] l4_def[symmetric] l5_def[symmetric] nl_def[symmetric]
    l6_def[symmetric] l7_def[symmetric]
  have fr1: "same_frame l l1" 
    by (simp add: l1_def lx_acceptFixed_def frame_advance del: rune_count.simps)
  then have fr2: "same_frame l l2" by (simp add: l2_def lx_acceptSpaces_def frame_acceptRun)
  have to2: "lx_to s fn l l2"
    using to by (simp add: l2_def l1_def lx_acceptSpaces_def to_unary)
  have to4: "lx_to s fn l l4" and to5: "lx_to s fn l l5" and to6: "lx_to s fn l l6"
    using to2 by (simp_all add: l6_def l5_def l4_def l3_def to_unary)
  have op: "heredoc_out s fn l (Goto (Some LexPhpOperator) (lx_reset l'))"
    if "lx_to s fn l k" "lx_clean k" "lx_rest k \<noteq> []" "lx_to s fn k l'" "same_frame k l'" for k l'
    using reset_operator[OF that] by (auto simp: heredoc_out_def)
  have pk: "lx_rest l' \<noteq> []" if "lx_peek l' = cc (CHR 0x27)" for l'
    using that peek_ne[of l'] by (simp add: rune_eof_def byte_def)
  have ig: "lx_to s fn (lx_ignore l') (lx_ignore l')" if "lx_to s fn l l'" for l'
    by (rule lx_to_refl, rule lx_to_good, rule lx_keepsD[OF keeps_ignore that])
  have r1: "heredoc_out s fn l (Goto (Some LexPhpOperator) (lx_reset l1))" if "\<not> ok"
    using that op[OF to c ne to] by (simp add: l1_def ok_def lx_acceptFixed_def split: if_splits)
  have r4: "heredoc_out s fn l (Goto (Some LexPhpOperator) (lx_reset l4))"
  proof (cases nd)
    case True
    show ?thesis
      by (rule op[of "lx_ignore l2"])
         (use True pk[of l2] ig[OF to2] to2 in
           \<open>auto simp: l4_def l3_def nd_def to_unary frame_simps\<close>)
  next
    case False
    show ?thesis
      by (rule op[OF to c ne]) (use False to4 fr2 in \<open>auto simp: l4_def l3_def frame_simps\<close>)
  qed
  have r6: "heredoc_out s fn l (Goto (Some LexPhpOperator) (lx_reset l6))"
    if "\<not> (nd \<and> lx_peek l4 \<noteq> cc (CHR 0x27))"
  proof (cases nd)
    case True
    show ?thesis
      by (rule op[of "lx_ignore l4"])
         (use that True pk[of l4] ig[OF to4] to4 in \<open>auto simp: l6_def l5_def to_unary frame_simps\<close>)
  next
    case False
    show ?thesis
      by (rule op[OF to c ne])
         (use False to6 fr2 in \<open>auto simp: l6_def l5_def l4_def l3_def frame_simps\<close>)
  qed
  have fl: "heredoc_out s fn l (fail_with msg l4)" for msg
    by (simp add: heredoc_out_def ret_fail to4)
  have fin: "lx_fin s fn l l7" if ok
  proof -
    have "lx_hasPrefix ''<<<'' l" using that by (simp add: ok_def lx_acceptFixed_def split: if_splits)
    then have "lx_adv s fn l (lx_advance (rune_count ''<<<'') l)"
      using rel_advance[OF to, of True "rune_count ''<<<''"] ne by (simp add: lx_rel_def)
    then have "lx_adv s fn l l1"
      using \<open>lx_hasPrefix ''<<<'' l\<close>
      by (simp add: l1_def lx_acceptFixed_def del: rune_count.simps)
    then have "lx_adv s fn l l7"
      by (simp add: l7_def l6_def l5_def l4_def l3_def l2_def lx_acceptSpaces_def adv_unary)
    then show ?thesis by (simp add: lx_fin_def lx_adv_to, simp add: lx_adv_def)
  qed
  have tail: "ret True s fn l (if lx_hasPrefix m l7 then
        to_base (lx_emit T_END_HEREDOC (lx_advance (length m) l7))
      else (case checkFlexibleEndMarker l7 m of
          Some (_, advLen) \<Rightarrow> to_base (lx_emit T_END_HEREDOC (lx_advance advLen l7))
        | None \<Rightarrow> heredoc_loop m nd n l7))" if ok
    using fin[OF that] n
    by (auto intro!: ret_fin heredoc_loop_ret simp: fin_unary split: option.splits)
  show ?thesis
    unfolding lexPhpHeredoc_def Let_def case_prod_unfold folds
    by (intro heredoc_out_if r1 r4 r6 fl heredoc_outI[OF tail[unfolded case_prod_unfold]])
       simp_all
qed

end
