(* ===== verification/LexRun.thy ===== *)
theory LexRun
  imports LexStep
begin

text \<open>
  The whole run of the lexer: every call of a state function lowers a measure, so the run ends;
  the items it sends are cut out of the source in order. The one exception to termination, an
  unterminated single-quoted string, is shown too.
\<close>

section \<open>One step\<close>

fun lx_rank :: "lexstate \<Rightarrow> nat" where
  "lx_rank LexPhpOpen = 1"
| "lx_rank LexPhpHeredoc = 1"
| "lx_rank st = (if base_state (Some st) then 2 else 0)"

definition lx_measure :: "bytes \<Rightarrow> lexstate \<Rightarrow> lexer \<Rightarrow> nat" where
  "lx_measure s st l = 7 * (length s - lx_pos l) + 3 * lx_depth l + lx_rank st"

text \<open>What a call from a good state gives: a good state of a smaller measure, the end of the run,
  a panic, or, from a single-quoted string only, no result.\<close>

definition step_ok :: "bytes \<Rightarrow> bytes \<Rightarrow> lexstate \<Rightarrow> lexer \<Rightarrow> lex_out \<Rightarrow> bool" where
  "step_ok s fn st l out =
     (case out of
        Goto None l' \<Rightarrow> lx_good s fn l'
      | Goto (Some st') l' \<Rightarrow> lx_good s fn l' \<and> lx_clean l' \<and> ready st' l'
          \<and> lx_measure s st' l' < lx_measure s st l
      | LexPanic l' \<Rightarrow> lx_good s fn l'
      | LexHang \<Rightarrow> st = LexPhpStringConst \<and> lx_peek l = 39)"

lemma rank_le: "lx_rank st \<le> 2"
  by (cases st) auto

lemma ret_step:
  assumes "ret True s fn l out" "lx_good s fn l"
  shows "step_ok s fn st l out"
proof (cases out)
  case (Goto st' l')
  show ?thesis
  proof (cases st')
    case None
    then show ?thesis using assms(1) Goto by (simp add: step_ok_def lx_to_good)
  next
    case (Some st1)
    with assms(1) Goto have r: "lx_to s fn l l'" "lx_clean l'" "lx_pos l < lx_pos l'" "ready st1 l'"
      by (auto simp: ret_def)
    have "lx_depth l' + lx_pos l \<le> lx_depth l + lx_pos l'" using r(1) by (simp add: lx_to_def)
    then have "lx_measure s st1 l' < lx_measure s st l"
      using r(3) good_pos_le[OF lx_to_good[OF r(1)]] rank_le[of st1] by (simp add: lx_measure_def)
    with r show ?thesis by (simp add: step_ok_def Goto Some lx_to_good)
  qed
next
  case (LexPanic l')
  then show ?thesis using assms(1) by (simp add: step_ok_def lx_to_good)
next
  case LexHang
  then show ?thesis using assms(1) by simp
qed

text \<open>Moving on without reading: the state must get a lower rank.\<close>

lemma goto_step:
  assumes "lx_to s fn l l'" "lx_clean l'" "ready st' l'" "lx_rank st' < lx_rank st"
  shows "step_ok s fn st l (Goto (Some st') l')"
proof -
  have "lx_depth l' + lx_pos l \<le> lx_depth l + lx_pos l'" "lx_pos l \<le> lx_pos l'"
    using assms(1) by (simp_all add: lx_to_def)
  then have "lx_measure s st' l' < lx_measure s st l"
    using assms(4) good_pos_le[OF lx_to_good[OF assms(1)]] by (simp add: lx_measure_def)
  with assms show ?thesis by (simp add: step_ok_def lx_to_good)
qed

lemma disp_step:
  assumes "disp s fn l out" "lx_good s fn l" "lx_clean l" "lx_rank st = 2"
  shows "step_ok s fn st l out"
  using assms(1) unfolding disp_def
proof (elim disjE exE conjE)
  fix st'
  assume st': "out = Goto (Some st') l" "ready st' l"
    "st' \<in> {LexPhpPossibleCast, LexPhpVariable, LexPhpAttribute, LexPhpEolComment,
            LexPhpBlockComment, LexPhpOperator, LexNumber, LexPhpHeredoc, LexPhpStringConst,
            LexPhpString}"
  then have "lx_rank st' < lx_rank st" using assms(4) by auto
  from goto_step[OF lx_to_refl[OF assms(2)] assms(3) st'(2) this]
  show ?thesis using st'(1) by simp
qed (rule ret_step[OF _ assms(2)])

lemma object_op_step:
  assumes g: "lx_good s fn l" and c: "lx_clean l"
  shows "step_ok s fn LexInterpolatedObjectOp l (lexInterpolatedObjectOp l)"
proof (cases "lx_rest l = []")
  case False
  then show ?thesis using ret_step[OF object_op_ret[OF lx_to_refl[OF g], of True] g] by simp
next
  case True
  have to: "ret False s fn l (lexInterpolatedObjectOp l)"
    using object_op_ret[OF lx_to_refl[OF g], of False] by simp
  show ?thesis
  proof (cases "lexInterpolatedObjectOp l")
    case (Goto st l')
    note e = object_op_eof[OF g True Goto]
    have t: "lx_to s fn l l'" using to Goto by simp
    have "base_state (lx_base l')" using lx_to_good[OF t] by (simp add: lx_good_def)
    moreover have "lx_measure s st' l' < lx_measure s LexInterpolatedObjectOp l" for st'
    proof -
      have "length s - lx_pos l' \<le> length s - lx_pos l"
        using t by (intro diff_le_mono2) (simp add: lx_to_def)
      then show ?thesis using e rank_le[of st'] by (simp add: lx_measure_def)
    qed
    ultimately show ?thesis
      using e lx_to_good[OF t] ready_base by (auto simp: Goto step_ok_def split: option.splits)
  next
    case (LexPanic l')
    then show ?thesis using to by (simp add: step_ok_def lx_to_good)
  next
    case LexHang
    then show ?thesis using to by simp
  qed
qed

lemma array_access_step:
  assumes g: "lx_good s fn l"
  shows "step_ok s fn LexInterpolatedArrayAccess l (lexInterpolatedArrayAccess l)"
proof (cases "lx_rest l = []")
  case False
  then show ?thesis using ret_step[OF array_access_ret[OF lx_to_refl[OF g], of True] g] by simp
next
  case True
  have "ret False s fn l (lexInterpolatedArrayAccess l)"
    using array_access_ret[OF lx_to_refl[OF g], of False] by simp
  with array_access_eof[OF g True] show ?thesis
    by (auto simp: step_ok_def lx_to_good split: lex_out.splits option.splits)
qed

lemma string_const_step:
  assumes g: "lx_good s fn l" and r: "ready LexPhpStringConst l"
  shows "step_ok s fn LexPhpStringConst l (lexPhpStringConst n l)"
proof (cases "lx_peek l = 39")
  case False
  then have "lx_peek l = 34 \<or> lx_peek l = 96" using r by simp
  from ret_step[OF string_const_ret[OF lx_to_refl[OF g] this] g] show ?thesis .
next
  case True
  show ?thesis
  proof (cases "lexPhpStringConst n l = LexHang")
    case hang: True
    with True show ?thesis by (simp add: step_ok_def)
  next
    case False
    obtain c l' where nx: "lx_next l = (c, l')" by force
    have c: "c = 39" using peek_next_low[of l] True by (simp add: nx)
    have "lx_rest l \<noteq> []" using peek_ne[of l] True by (simp add: rune_eof_def)
    from next_adv'[OF nx lx_to_refl[OF g] this] have "lx_rel True s fn l l'" by (simp add: lx_rel_def)
    moreover have "lexPhpStringConst n l = squote_loop c n l'"
      using c by (simp add: lexPhpStringConst_def nx byte_def)
    ultimately show ?thesis using ret_step[OF squote_ret g] False by simp
  qed
qed

lemma lex_step_ok:
  assumes g: "lx_good s fn l" and c: "lx_clean l" and r: "ready st l" and n: "length s < n"
  shows "step_ok s fn st l (lex_step n st l)"
proof -
  note to = lx_to_refl[OF g]
  note len = good_rest_length[OF g]
  show ?thesis
  proof (cases st)
    case LexText
    from text_ret[OF g n] have "step_ok s fn LexText l (lexText n l)"
      by (auto simp: text_out_def split: lex_out.splits option.splits
          intro: goto_step) (simp add: step_ok_def lx_to_good)
    then show ?thesis by (simp add: LexText)
  next
    case LexPhpHeredoc
    with r have "lx_rest l \<noteq> []" by simp
    from heredoc_ret[OF g c this n] show ?thesis
      by (auto simp: LexPhpHeredoc heredoc_out_def ret_step[OF _ g] intro!: goto_step)
  next
    case (StringLexer d)
    show ?thesis using ret_step[OF string_loop_ret[OF to] g] n by (simp add: StringLexer)
  next
    case LexPhp
    then show ?thesis using disp_step[OF php_disp[OF g] g c] by simp
  next
    case LexInterpolatedComplexVar
    then show ?thesis using disp_step[OF complex_var_disp[OF g] g c] by simp
  next
    case LexInterpolatedObjectOp
    then show ?thesis using object_op_step[OF g c] by simp
  next
    case LexInterpolatedArrayAccess
    then show ?thesis using array_access_step[OF g] by simp
  next
    case LexPhpStringConst
    then show ?thesis using string_const_step[OF g, of n] r by simp
  next
    case LexPhpEolComment
    then show ?thesis
      using ret_step[OF eol_comment_ready[OF to, of n True] g] r n len by simp
  next
    case LexNumber
    then show ?thesis using ret_step[OF number_ret[OF g to, of True] g] r by simp
  next
    case LexPhpString
    then show ?thesis using ret_step[OF string_ret[OF to, of True] g] r by simp
  next
    case LexPhpPossibleCast
    then show ?thesis using ret_step[OF cast_ret[OF g c, of True] g] r by simp
  next
    case LexPhpOpen
    then show ?thesis using ret_step[OF open_ret[OF to] g] r by simp
  next
    case LexPhpVariable
    then show ?thesis using ret_step[OF variable_ret[OF to, of True] g] r by simp
  next
    case LexPhpAttribute
    then show ?thesis using ret_step[OF attribute_ret[OF to, of True] g] r by simp
  next
    case LexPhpBlockComment
    then show ?thesis using ret_step[OF block_comment_ret[OF to, of True] g] r by simp
  next
    case LexPhpOperator
    then show ?thesis using ret_step[OF operator_ret[OF to, of True] g] r by simp
  qed
qed

section \<open>The run\<close>

text \<open>Whatever the fuel, a run that returns returns a good lexer.\<close>

lemma lex_loop_good:
  assumes "lx_good s fn l" "lx_clean l" "\<And>st'. st = Some st' \<Longrightarrow> ready st' l" "length s < n"
    "lex_loop n m st l = Some l'"
  shows "lx_good s fn l'"
  using assms
proof (induction n m st l rule: lex_loop.induct)
  case (3 n m st l)
  note ok = lex_step_ok[OF "3.prems"(1,2) _ "3.prems"(4), of st]
  have r: "ready st l" using "3.prems"(3) by simp
  show ?case
  proof (cases "lex_step n st l")
    case (Goto st1 l1)
    with ok[OF r] have "lx_good s fn l1" "lx_clean l1 \<or> st1 = None" "\<And>st'. st1 = Some st' \<Longrightarrow> ready st' l1"
      by (auto simp: step_ok_def split: option.splits)
    then show ?thesis
      using "3.IH"[OF Goto] "3.prems"(4,5) Goto by (cases st1) auto
  next
    case (LexPanic l1)
    then show ?thesis
      using ok[OF r] "3.prems"(5) lx_keepsD[OF keeps_error lx_to_refl, of s fn l1]
      by (auto simp: step_ok_def dest: lx_to_good)
  next
    case LexHang
    then show ?thesis using "3.prems"(5) by simp
  qed
qed auto

text \<open>A run with enough fuel returns, if the source has no single quote.\<close>

lemma no_quote_peek:
  assumes "lx_good s fn l" "CHR 0x27 \<notin> set s"
  shows "lx_peek l \<noteq> 39"
proof
  assume p: "lx_peek l = 39"
  then have ne: "lx_rest l \<noteq> []" using peek_ne[of l] by (simp add: rune_eof_def)
  with p have "byte (hd (lx_rest l)) = 39" using peek_low[of l] by simp
  then have "hd (lx_rest l) = CHR 0x27" using byte_eq_iff[of _ "CHR 0x27"] by (simp add: byte_def)
  moreover have "hd (lx_rest l) \<in> set s"
    using ne good_rest[OF assms(1)] by (metis hd_in_set in_set_dropD)
  ultimately show False using assms(2) by simp
qed

lemma lex_loop_returns:
  assumes "lx_good s fn l" "lx_clean l" "ready st l" "length s < n" "CHR 0x27 \<notin> set s"
    "lx_measure s st l < m"
  shows "lex_loop n m (Some st) l \<noteq> None"
  using assms
proof (induction m arbitrary: st l)
  case (Suc m)
  note ok = lex_step_ok[OF Suc.prems(1-4)]
  have "lex_step n st l \<noteq> LexHang"
    using ok no_quote_peek[OF Suc.prems(1,5)] by (auto simp: step_ok_def)
  moreover have "lex_loop n m st1 l1 \<noteq> None" if "lex_step n st l = Goto st1 l1" for st1 l1
    using ok that Suc.IH Suc.prems(4-6) by (cases st1) (auto simp: step_ok_def)
  ultimately show ?case by (auto split: lex_out.split)
qed simp

lemma push_new_good:
  "lx_good s fn (lx_push (Some LexText) (NewLexer s fn))" "lx_clean (lx_push (Some LexText) (NewLexer s fn))"
  using lx_at_new[of s fn True]
  by (simp_all add: lx_push_def lx_good_def lx_clean_def NewLexer_def NewLexerWithShortTag_def
      lx_at_def lx_rest_def)

section \<open>The tokens of a file\<close>

lemma lex_run_good:
  assumes "lex_run n m LexText (NewLexer s fn) = Some l" "length s < n"
  shows "items_from s fn (length s) (lx_items l)"
proof -
  have "lex_loop n m (Some LexText) (lx_push (Some LexText) (NewLexer s fn)) = Some l"
    using assms(1) by (simp add: lex_run_def lx_push_def Let_def)
  from lex_loop_good[OF push_new_good _ assms(2) this] have "lx_good s fn l" by simp
  then show ?thesis by (auto simp: lx_good_def lx_at_def intro: items_from_mono)
qed

text \<open>C1. Whenever the lexer returns, the items it sent are cut out of consecutive, disjoint,
  increasing parts of the source: each carries the bytes of its part (up to the rewriting the
  lexer documents for numbers, casts, flexible heredocs and errors), the file name, and the number
  of the line its part starts on.\<close>

theorem lex_file_items_from:
  "lex_run n m LexText (NewLexer s fn) = Some l \<Longrightarrow> length s < n \<Longrightarrow>
   items_from s fn (length s) (lx_items l)"
  by (rule lex_run_good)

lemma sample_run_returns: "lex_run 40 40 LexText (NewLexer ''<?php $x = 1;'' ''f'') \<noteq> None"
  by code_simp

theorem lex_file_items_from_witness:
  "\<exists>l. lex_run 40 40 LexText (NewLexer ''<?php $x = 1;'' ''f'') = Some l
     \<and> items_from ''<?php $x = 1;'' ''f'' 13 (lx_items l)"
proof -
  obtain l where l: "lex_run 40 40 LexText (NewLexer ''<?php $x = 1;'' ''f'') = Some l"
    using sample_run_returns by blast
  from lex_file_items_from[OF this] have "items_from ''<?php $x = 1;'' ''f'' 13 (lx_items l)"
    by (simp add: eval_nat_numeral)
  with l show ?thesis by blast
qed



text \<open>C3. The lexer returns on every source without a single quote: no state function loops
  for ever and no chain of state functions does, whatever the rest of the input is (unterminated
  comments, double-quoted strings and heredocs included).\<close>

theorem lex_file_returns:
  "CHR 0x27 \<notin> set s \<Longrightarrow> \<exists>items. lex_file fn s = Some items"
proof -
  assume q: "CHR 0x27 \<notin> set s"
  let ?l = "lx_push (Some LexText) (NewLexer s fn)"
  have "lx_measure s LexText ?l < lex_fuel s"
    by (simp add: lx_measure_def lx_push_def NewLexer_def NewLexerWithShortTag_def lex_fuel_def)
  then have "lex_loop (lex_fuel s) (lex_fuel s) (Some LexText) ?l \<noteq> None"
    by (intro lex_loop_returns[OF push_new_good _ _ q]) (simp_all add: lex_fuel_def)
  then show ?thesis by (auto simp: lex_file_def lex_run_def lx_push_def Let_def)
qed

theorem lex_file_returns_witness:
  "\<exists>items. lex_file ''f'' (''<?php /* x'' @ [CHR 0x22]) = Some items"
  by (rule lex_file_returns) simp

text \<open>The exception: a single-quoted string that is not closed before the end of the input is
  read for ever.\<close>

lemma no_quote_next:
  assumes "\<forall>c \<in> set (lx_rest l). byte c \<noteq> q" "0 \<le> q" "q < 128"
  shows "fst (lx_next l) \<noteq> q" "\<forall>c \<in> set (lx_rest (snd (lx_next l))). byte c \<noteq> q"
proof -
  show "fst (lx_next l) \<noteq> q"
  proof (cases "lx_rest l")
    case Nil
    then show ?thesis using assms(2) by (simp add: lx_next_eof rune_eof_def)
  next
    case (Cons c cs)
    then show ?thesis using next_hd[OF Cons] assms by (cases "byte c < 128") auto
  qed
  have "\<exists>w. lx_rest (snd (lx_next l)) = drop w (lx_rest l)"
  proof (cases "lx_rest l = []")
    case True
    then show ?thesis by (simp add: lx_next_eof lx_rest_def)
  next
    case False
    from lx_next_rune[OF False] obtain r w u inp rst where
      "lx_next l = (r, lx_consume r u (l\<lparr>lx_width := w, lx_input := inp, lx_inputRst := rst\<rparr>))"
      "rst @ inp = drop w (lx_rest l)"
      by metis
    then have "lx_rest (snd (lx_next l)) = drop w (lx_rest l)" by (simp, simp add: lx_rest_def)
    then show ?thesis by blast
  qed
  then obtain w where w: "lx_rest (snd (lx_next l)) = drop w (lx_rest l)" by blast
  show "\<forall>c \<in> set (lx_rest (snd (lx_next l))). byte c \<noteq> q"
    unfolding w using assms(1) in_set_dropD[of _ w "lx_rest l"] by blast
qed

lemma squote_hangs:
  assumes "\<forall>c \<in> set (lx_rest l). byte c \<noteq> q" "0 \<le> q" "q < 128"
  shows "squote_loop q n l = LexHang"
  using assms(1)
proof (induction n arbitrary: l)
  case (Suc n)
  note nx = no_quote_next[OF Suc.prems assms(2,3)]
  note nx2 = no_quote_next[OF nx(2) assms(2,3)]
  show ?case
    using nx(1) Suc.IH[OF nx(2)] Suc.IH[OF nx2(2)] by (simp add: case_prod_unfold Let_def)
qed simp

text \<open>C4. With an opening single quote next and no other one after it, the lexer never returns,
  whatever the fuel: the loop of \<open>lexPhpStringConst\<close> does not look for the end of the input.\<close>

theorem unterminated_single_quote_hangs:
  "lx_rest l = CHR 0x27 # t \<Longrightarrow> CHR 0x27 \<notin> set t \<Longrightarrow>
   lex_loop n m (Some LexPhpStringConst) l = None"
proof -
  assume r: "lx_rest l = CHR 0x27 # t" and t: "CHR 0x27 \<notin> set t"
  then have "lx_rest l \<noteq> []" by simp
  from lx_next_rune[OF this] obtain r0 w u inp rst where
    nx: "lx_next l = (r0, lx_consume r0 u (l\<lparr>lx_width := w, lx_input := inp, lx_inputRst := rst\<rparr>))"
      "rst @ inp = drop w (lx_rest l)" "0 < w"
    by metis
  have "fst (lx_next l) = 39" using next_hd(1)[OF r] by (simp add: byte_def)
  then have c: "r0 = 39" by (simp add: nx)
  let ?l = "lx_consume r0 u (l\<lparr>lx_width := w, lx_input := inp, lx_inputRst := rst\<rparr>)"
  have "lx_rest ?l = drop w (lx_rest l)" using nx(2) by (simp, simp add: lx_rest_def)
  then have "lx_rest ?l = drop (w - 1) t" using r nx(3) by (cases w) auto
  then have "\<forall>c \<in> set (lx_rest ?l). byte c \<noteq> 39"
    using t byte_eq_iff[of _ "CHR 0x27"] by (auto simp: byte_def dest: in_set_dropD)
  from squote_hangs[OF this] have "lexPhpStringConst n l = LexHang"
    by (simp add: lexPhpStringConst_def nx(1) c byte_def)
  then show ?thesis by (cases m) simp_all
qed

theorem unterminated_single_quote_hangs_witness:
  "lex_loop 5 9 (Some LexPhpStringConst) (NewLexer [CHR 0x27, CHR ''a'', CHR ''b''] ''x.php'') = None"
  by (rule unterminated_single_quote_hangs[where t = "''ab''"])
     (simp_all add: NewLexer_def NewLexerWithShortTag_def lx_rest_def)

section \<open>Token streams that differ from PHP's\<close>

text \<open>The block comment function looks for the end mark from the first character of the comment on,
  so \<open>/*/\<close> is a whole comment: what follows is lexed as code.\<close>

lemma slash_star_slash_is_a_comment:
  "map_option (map (\<lambda>i. (it_Type i, it_Data i))) (lex_file [] ''<?php /*/ 1; */'') =
   Some [(T_OPEN_TAG, ''<?php ''), (T_COMMENT, ''/*/''), (T_WHITESPACE, '' ''), (T_LNUMBER, ''1''),
         (RuneType 59, '';''), (T_WHITESPACE, '' ''), (RuneType 42, ''*''), (RuneType 47, ''/''),
         (T_EOF, [])]"
  by code_simp

text \<open>In a heredoc the state a pushed call returns is discarded, so an array index after \<open>{$a\<close> is
  lexed as text.\<close>

lemma heredoc_loses_index:
  "map_option (map (\<lambda>i. (it_Type i, it_Data i)))
     (lex_file [] (''<?php <<<E'' @ [CHR 0x0A] @ ''{$a[k]}'' @ [CHR 0x0A] @ ''E'' @ [CHR 0x0A])) =
   Some [(T_OPEN_TAG, ''<?php ''), (T_START_HEREDOC, ''<<<E'' @ [CHR 0x0A]),
         (RuneType 123, ''{''), (T_VARIABLE, ''$a''), (T_ENCAPSED_AND_WHITESPACE, ''[k]}''),
         (T_END_HEREDOC, ''E''), (T_WHITESPACE, [CHR 0x0A]), (T_EOF, [])]"
  by code_simp

end
