(* ===== verification/MemMgr.thy ===== *)
theory MemMgr
  imports GoBase
begin

text \<open>
  The memory manager, \<^verbatim>\<open>src/core/phpctx/memory.go\<close>, and the interface the hash tables use it
  through, \<open>MemTracker\<close> of \<^verbatim>\<open>src/core/phpv/hashtable.go\<close>. Counters are 64-bit words, as in the
  source; the atomic operations are single steps, as in a run with one goroutine.
\<close>

section \<open>The interface\<close>

text \<open>What a client of a memory tracker relies on: an allocation that succeeds is added to the
  usage, one that fails leaves the usage as it was, and freeing subtracts.\<close>

locale mem_tracker =
  fixes alloc :: "zint \<Rightarrow> 's \<Rightarrow> bool \<times> 's"
    and free :: "zint \<Rightarrow> 's \<Rightarrow> 's"
    and used :: "'s \<Rightarrow> zint"
  assumes alloc_ok: "alloc n s = (True, s') \<Longrightarrow> used s' = used s + n"
    and alloc_fail: "alloc n s = (False, s') \<Longrightarrow> used s' = used s"
    and free_used: "used (free n s) = used s - n"
begin

lemma alloc_free: "alloc n s = (True, s') \<Longrightarrow> used (free n s') = used s"
  by (simp add: free_used alloc_ok)

text \<open>A client that keeps what it is granted and counts it in \<open>grant\<close>: the tracker's usage follows.\<close>

fun granted :: "zint list \<Rightarrow> 's \<Rightarrow> zint" where
  "granted [] s = 0"
| "granted (n # ns) s =
     (case alloc n s of (ok, s') \<Rightarrow> (if ok then n else 0) + granted ns s')"

lemma granted_used: "used (fold (\<lambda>n s. snd (alloc n s)) ns s) = used s + granted ns s"
proof (induction ns arbitrary: s)
  case (Cons n ns)
  obtain ok s' where a: "alloc n s = (ok, s')" by force
  show ?case
    using Cons[of s'] alloc_ok[of n s s'] alloc_fail[of n s s'] a
    by (cases ok) (simp_all add: algebra_simps)
qed simp

end

section \<open>The manager\<close>

record memmgr =
  mm_limit :: zint
  mm_tracked :: zint
  mm_peak :: zint

definition NewMemMgr :: "zint \<Rightarrow> memmgr" where
  "NewMemMgr limit = \<lparr>mm_limit = limit, mm_tracked = 0, mm_peak = 0\<rparr>"

definition mm_SetLimit :: "zint \<Rightarrow> memmgr \<Rightarrow> memmgr" where
  "mm_SetLimit limit m = m\<lparr>mm_limit := limit\<rparr>"

definition mm_Limit :: "memmgr \<Rightarrow> zint" where
  "mm_Limit m = mm_limit m"

text \<open>\<open>Alloc\<close>: the counter is raised, then the peak, then the limit is looked at, and the counter
  lowered again when it is passed. The Boolean is false for the fatal error.\<close>

definition mm_Alloc :: "zint \<Rightarrow> memmgr \<Rightarrow> bool \<times> memmgr" where
  "mm_Alloc sz m =
     (let newTracked = mm_tracked m + sz;
          m = m\<lparr>mm_tracked := newTracked\<rparr>;
          m = (if sint newTracked \<le> sint (mm_peak m) then m else m\<lparr>mm_peak := newTracked\<rparr>);
          limit = mm_limit m in
      if sint limit \<le> 0 then (True, m)
      else if sint limit < sint newTracked then (False, m\<lparr>mm_tracked := mm_tracked m + (- sz)\<rparr>)
      else (True, m))"

definition mm_Free :: "zint \<Rightarrow> memmgr \<Rightarrow> memmgr" where
  "mm_Free sz m = m\<lparr>mm_tracked := mm_tracked m + (- sz)\<rparr>"

definition mm_Usage :: "memmgr \<Rightarrow> zint" where
  "mm_Usage m = (if sint (mm_tracked m) < 0 then 0 else mm_tracked m)"

definition mm_PeakUsage :: "memmgr \<Rightarrow> zint" where
  "mm_PeakUsage m = mm_peak m"

definition mm_ResetPeak :: "memmgr \<Rightarrow> memmgr" where
  "mm_ResetPeak m = m\<lparr>mm_peak := mm_tracked m\<rparr>"

text \<open>The methods of the interface.\<close>

definition mm_MemAlloc :: "zint \<Rightarrow> memmgr \<Rightarrow> bool \<times> memmgr" where
  "mm_MemAlloc sz m = mm_Alloc sz m"

definition mm_MemFree :: "zint \<Rightarrow> memmgr \<Rightarrow> memmgr" where
  "mm_MemFree sz m = mm_Free sz m"

text \<open>\<open>Copy\<close>, over a reader that delivers the given chunks (of at most 32 KiB) and a writer that
  takes each chunk or, when \<open>accept\<close> says so, only part of it. The result is the number of bytes
  written, the error of the loop, and the manager.\<close>

datatype copy_error = CopyMemory | CopyShortWrite

fun mm_Copy :: "(bytes \<Rightarrow> nat) \<Rightarrow> bytes list \<Rightarrow> nat \<Rightarrow> memmgr \<Rightarrow> nat \<times> copy_error option \<times> memmgr" where
  "mm_Copy accept [] written m = (written, None, m)"
| "mm_Copy accept (buf # rest) written m =
     (if buf = [] then mm_Copy accept rest written m
      else
        (let nw = accept buf;
             written = written + nw;
             (ok, m) = mm_Alloc (of_nat nw) m in
         if \<not> ok then (written, Some CopyMemory, m)
         else if length buf \<noteq> nw then (written, Some CopyShortWrite, m)
         else mm_Copy accept rest written m))"

section \<open>The manager is a memory tracker\<close>

lemma mm_Alloc_used:
  "mm_Alloc n m = (ok, m') \<Longrightarrow> mm_tracked m' = (if ok then mm_tracked m + n else mm_tracked m)"
  by (auto simp: mm_Alloc_def Let_def split: if_splits)

interpretation mm: mem_tracker mm_MemAlloc mm_MemFree mm_tracked
  by unfold_locales (auto simp: mm_MemAlloc_def mm_MemFree_def mm_Free_def dest: mm_Alloc_used)

lemma mm_Alloc_limit [simp]: "mm_limit (snd (mm_Alloc n m)) = mm_limit m"
  by (auto simp: mm_Alloc_def Let_def)

lemma mm_Alloc_peak: "sint (mm_peak m) \<le> sint (mm_peak (snd (mm_Alloc n m)))"
  by (auto simp: mm_Alloc_def Let_def)

text \<open>The manager's invariant: the peak is at least what is in use, and with a limit what is in use
  does not pass it.\<close>

definition mm_ok :: "memmgr \<Rightarrow> bool" where
  "mm_ok m = (sint (mm_tracked m) \<le> sint (mm_peak m)
     \<and> (0 < sint (mm_limit m) \<longrightarrow> sint (mm_tracked m) \<le> sint (mm_limit m)))"

lemma mm_ok_new: "mm_ok (NewMemMgr limit)"
  by (simp add: mm_ok_def NewMemMgr_def)

lemma mm_ok_alloc: "mm_ok m \<Longrightarrow> mm_ok (snd (mm_Alloc n m))"
  by (auto simp: mm_ok_def mm_Alloc_def Let_def)

text \<open>Any sequence of allocations and frees, as the calls of a run. A free is of something in use:
  it does not take the counter below zero nor wrap around.\<close>

datatype mem_op = OpAlloc zint | OpFree zint | OpResetPeak

fun mem_step :: "mem_op \<Rightarrow> memmgr \<Rightarrow> memmgr" where
  "mem_step (OpAlloc n) m = snd (mm_MemAlloc n m)"
| "mem_step (OpFree n) m = mm_MemFree n m"
| "mem_step OpResetPeak m = mm_ResetPeak m"

fun mem_frees_ok :: "mem_op list \<Rightarrow> memmgr \<Rightarrow> bool" where
  "mem_frees_ok [] m = True"
| "mem_frees_ok (op # ops) m =
     ((case op of OpFree n \<Rightarrow> 0 \<le> sint n \<and> sint n \<le> sint (mm_tracked m) | _ \<Rightarrow> True)
      \<and> mem_frees_ok ops (mem_step op m))"

lemma sint_minus_le:
  fixes a n :: zint
  assumes "0 \<le> sint n" "sint n \<le> sint a"
  shows "sint (a + - n) = sint a - sint n"
proof -
  have "- (2 ^ 63) \<le> sint a - sint n" "sint a - sint n < 2 ^ 63"
    using assms sint_lt[of a] by auto
  then have "signed_take_bit 63 (sint a - sint n) = sint a - sint n"
    by (simp add: signed_take_bit_int_eq_self)
  then show ?thesis by (simp add: sint_word_ariths)
qed





end
