(* ===== verification/PhpHeap.thy ===== *)
theory PhpHeap
  imports MemMgr
begin

text \<open>
  PHP values and the store they live in: the pointers of \<^verbatim>\<open>src/core/phpv/zval.go\<close> and
  \<^verbatim>\<open>hashtable.go\<close> (\<open>*ZVal\<close>, \<open>*hashTableVal\<close>, \<open>*ZHashTable\<close>, the two Go maps of a hash table) are
  addresses into a heap record with one store per kind of cell; \<open>None\<close> is \<open>nil\<close>. A \<open>ZArray\<close> is only
  a pointer to its hash table and is modelled by it.

  An operation gives \<open>Some (Ok h)\<close> with the new heap, \<open>Some (Fail e h)\<close> for an error value (with the
  heap at that point), \<open>Some (Panic m)\<close> for a Go panic, and \<open>None\<close> when it never returns.
\<close>

section \<open>Values and cells\<close>

type_synonym addr = nat

datatype key = KInt int | KStr bytes

datatype val =
    VNull | VBool bool | VInt int | VFloat "64 word" | VString bytes
  | VArray addr | VObject addr | VResource int
  | VRef addr

record zval =
  zv_v :: val
  zv_Name :: "bytes option"
  zv_refCount :: int
  zv_cached :: bool

record node =
  nd_prev :: "addr option"
  nd_next :: "addr option"
  nd_k :: key
  nd_v :: addr
  nd_deleted :: bool

record hiter =
  hi_t :: addr
  hi_cur :: "addr option"
  hi_prevRef :: "addr option"

record table =
  ht_first :: "addr option"
  ht_last :: "addr option"
  ht_inc :: int
  ht_count :: int
  ht_cow :: bool
  ht_incInit :: bool
  ht_idx_s :: addr
  ht_idx_i :: addr
  ht_mainIterator :: hiter
  ht_memTracker :: bool

text \<open>The stores are total functions; \<open>hp_next\<close> is above every address in use. \<open>hp_mem\<close> is the
  memory manager of the request, which every tracked table reports to.\<close>

record heap =
  hp_zvals :: "addr \<Rightarrow> zval"
  hp_nodes :: "addr \<Rightarrow> node"
  hp_tabs :: "addr \<Rightarrow> table"
  hp_maps_s :: "addr \<Rightarrow> (bytes \<times> addr) list"
  hp_maps_i :: "addr \<Rightarrow> (int \<times> addr) list"
  hp_mem :: memmgr
  hp_next :: addr

datatype gerr = MemExhausted | NextElementOccupied

datatype 'a go = Ok 'a | Fail gerr 'a | Panic bytes

definition go_bind :: "'a go option \<Rightarrow> ('a \<Rightarrow> 'a go option) \<Rightarrow> 'a go option" where
  "go_bind r k =
     (case r of Some (Ok h) \<Rightarrow> k h | Some (Fail e h) \<Rightarrow> Some (Fail e h)
      | Some (Panic m) \<Rightarrow> Some (Panic m) | None \<Rightarrow> None)"

lemma go_bind_Ok [simp]: "go_bind (Some (Ok h)) k = k h"
  by (simp add: go_bind_def)

section \<open>Allocation and update\<close>

definition new_zval :: "zval \<Rightarrow> heap \<Rightarrow> addr \<times> heap" where
  "new_zval z h = (hp_next h, h\<lparr>hp_zvals := (hp_zvals h)(hp_next h := z), hp_next := Suc (hp_next h)\<rparr>)"

definition new_node :: "node \<Rightarrow> heap \<Rightarrow> addr \<times> heap" where
  "new_node n h = (hp_next h, h\<lparr>hp_nodes := (hp_nodes h)(hp_next h := n), hp_next := Suc (hp_next h)\<rparr>)"

definition new_table :: "table \<Rightarrow> heap \<Rightarrow> addr \<times> heap" where
  "new_table t h = (hp_next h, h\<lparr>hp_tabs := (hp_tabs h)(hp_next h := t), hp_next := Suc (hp_next h)\<rparr>)"

definition new_map_s :: "heap \<Rightarrow> addr \<times> heap" where
  "new_map_s h = (hp_next h, h\<lparr>hp_maps_s := (hp_maps_s h)(hp_next h := []), hp_next := Suc (hp_next h)\<rparr>)"

definition new_map_i :: "heap \<Rightarrow> addr \<times> heap" where
  "new_map_i h = (hp_next h, h\<lparr>hp_maps_i := (hp_maps_i h)(hp_next h := []), hp_next := Suc (hp_next h)\<rparr>)"

definition upd_zval :: "addr \<Rightarrow> (zval \<Rightarrow> zval) \<Rightarrow> heap \<Rightarrow> heap" where
  "upd_zval a f h = h\<lparr>hp_zvals := (hp_zvals h)(a := f (hp_zvals h a))\<rparr>"

definition upd_node :: "addr \<Rightarrow> (node \<Rightarrow> node) \<Rightarrow> heap \<Rightarrow> heap" where
  "upd_node a f h = h\<lparr>hp_nodes := (hp_nodes h)(a := f (hp_nodes h a))\<rparr>"

definition upd_tab :: "addr \<Rightarrow> (table \<Rightarrow> table) \<Rightarrow> heap \<Rightarrow> heap" where
  "upd_tab t f h = h\<lparr>hp_tabs := (hp_tabs h)(t := f (hp_tabs h t))\<rparr>"

definition upd_map_s :: "addr \<Rightarrow> ((bytes \<times> addr) list \<Rightarrow> (bytes \<times> addr) list) \<Rightarrow> heap \<Rightarrow> heap" where
  "upd_map_s m f h = h\<lparr>hp_maps_s := (hp_maps_s h)(m := f (hp_maps_s h m))\<rparr>"

definition upd_map_i :: "addr \<Rightarrow> ((int \<times> addr) list \<Rightarrow> (int \<times> addr) list) \<Rightarrow> heap \<Rightarrow> heap" where
  "upd_map_i m f h = h\<lparr>hp_maps_i := (hp_maps_i h)(m := f (hp_maps_i h m))\<rparr>"

text \<open>A Go map as an association list: storing puts the entry in front.\<close>

definition go_put :: "'k \<Rightarrow> 'v \<Rightarrow> ('k \<times> 'v) list \<Rightarrow> ('k \<times> 'v) list" where
  "go_put k v m = (k, v) # filter (\<lambda>p. fst p \<noteq> k) m"

definition go_del :: "'k \<Rightarrow> ('k \<times> 'v) list \<Rightarrow> ('k \<times> 'v) list" where
  "go_del k m = filter (\<lambda>p. fst p \<noteq> k) m"

lemma go_put_map [simp]: "map_of (go_put k v m) = (map_of m)(k \<mapsto> v)"
proof -
  have "map_of (filter (\<lambda>p. fst p \<noteq> k) m) = (map_of m)(k := None)" by (induction m) auto
  then show ?thesis by (simp add: go_put_def)
qed

lemma go_del_map [simp]: "map_of (go_del k m) = (map_of m)(k := None)"
  unfolding go_del_def by (induction m) auto

text \<open>The values a loop over a Go map sees, each key once.\<close>

definition go_vals :: "('k \<times> 'v) list \<Rightarrow> 'v list" where
  "go_vals m = map (\<lambda>k. the (map_of m k)) (remdups (map fst m))"

lemma go_vals_set: "set (go_vals m) = {v. \<exists>k. map_of m k = Some v}"
proof -
  have "v \<in> set (go_vals m) \<longleftrightarrow> (\<exists>k \<in> dom (map_of m). the (map_of m k) = v)" for v
    by (auto simp: go_vals_def dom_map_of_conv_image_fst)
  then show ?thesis by force
qed

section \<open>ZVal\<close>

definition plain_zval :: "val \<Rightarrow> zval" where
  "plain_zval v = \<lparr>zv_v = v, zv_Name = None, zv_refCount = 0, zv_cached = False\<rparr>"

definition NewZVal :: "val \<Rightarrow> heap \<Rightarrow> addr \<times> heap" where
  "NewZVal v h = new_zval (plain_zval v) h"

definition MakeCachedZVal :: "val \<Rightarrow> heap \<Rightarrow> addr \<times> heap" where
  "MakeCachedZVal v h = new_zval ((plain_zval v)\<lparr>zv_cached := True\<rparr>) h"

definition zv_isCached :: "heap \<Rightarrow> addr \<Rightarrow> bool" where
  "zv_isCached h z = zv_cached (hp_zvals h z)"

fun ref_target :: "val \<Rightarrow> addr option" where
  "ref_target (VRef a) = Some a"
| "ref_target v = None"

definition zv_IsRef :: "heap \<Rightarrow> addr \<Rightarrow> bool" where
  "zv_IsRef h z = (ref_target (zv_v (hp_zvals h z)) \<noteq> None)"

definition zv_RefTarget :: "heap \<Rightarrow> addr \<Rightarrow> addr option" where
  "zv_RefTarget h z = ref_target (zv_v (hp_zvals h z))"

definition zv_AliasCount :: "heap \<Rightarrow> addr \<Rightarrow> int" where
  "zv_AliasCount h z =
     (if zv_refCount (hp_zvals h z) < 1 then 1 else zv_refCount (hp_zvals h z))"

definition zv_MakeRef :: "addr \<Rightarrow> heap \<Rightarrow> heap go option" where
  "zv_MakeRef z h =
     (if zv_isCached h z then Some (Panic ''MakeRef() called on cached ZVal'')
      else if zv_IsRef h z then Some (Ok h)
      else (case new_zval ((plain_zval (zv_v (hp_zvals h z)))\<lparr>zv_refCount := 1\<rparr>) h of
              (a, h) \<Rightarrow> Some (Ok (upd_zval z (\<lambda>c. c\<lparr>zv_v := VRef a\<rparr>) h))))"

definition zv_Ref :: "addr \<Rightarrow> heap \<Rightarrow> addr \<times> heap" where
  "zv_Ref z h =
     (if zv_IsRef h z then (z, h)
      else NewZVal (VRef z)
             (if zv_refCount (hp_zvals h z) > 0
              then upd_zval z (\<lambda>c. c\<lparr>zv_refCount := zv_refCount c + 1\<rparr>) h else h))"

definition zv_RefInner :: "addr \<Rightarrow> heap \<Rightarrow> addr option \<times> heap" where
  "zv_RefInner z h =
     (case zv_RefTarget h z of
        Some inner \<Rightarrow> (Some inner, upd_zval inner (\<lambda>c. c\<lparr>zv_refCount := zv_refCount c + 1\<rparr>) h)
      | None \<Rightarrow> (None, h))"

definition zv_UnRef :: "addr \<Rightarrow> heap \<Rightarrow> heap" where
  "zv_UnRef z h =
     (case zv_RefTarget h z of
        Some inner \<Rightarrow> upd_zval z (\<lambda>c. c\<lparr>zv_v := zv_v (hp_zvals h inner)\<rparr>) h
      | None \<Rightarrow> h)"

definition zv_UnRefIfAlone :: "addr \<Rightarrow> heap \<Rightarrow> heap" where
  "zv_UnRefIfAlone z h =
     (case zv_RefTarget h z of
        Some inner \<Rightarrow>
          if zv_refCount (hp_zvals h inner) \<le> 1
          then upd_zval z (\<lambda>c. c\<lparr>zv_v := zv_v (hp_zvals h inner)\<rparr>) h else h
      | None \<Rightarrow> h)"

text \<open>\<open>Value\<close>, \<open>GetName\<close> and \<open>Set\<close> follow the chain of references.\<close>

partial_function (option) zv_Value :: "heap \<Rightarrow> addr \<Rightarrow> val option" where
  "zv_Value h z =
     (case ref_target (zv_v (hp_zvals h z)) of
        Some sz \<Rightarrow> zv_Value h sz
      | None \<Rightarrow> Some (zv_v (hp_zvals h z)))"

partial_function (option) zv_GetName :: "heap \<Rightarrow> addr \<Rightarrow> bytes option" where
  "zv_GetName h z =
     (case zv_Name (hp_zvals h z) of
        Some n \<Rightarrow> Some n
      | None \<Rightarrow>
         (case ref_target (zv_v (hp_zvals h z)) of
            Some sz \<Rightarrow> zv_GetName h sz
          | None \<Rightarrow> Some []))"

partial_function (option) zv_Set :: "heap \<Rightarrow> addr \<Rightarrow> addr \<Rightarrow> heap go option" where
  "zv_Set h z nz =
     (if zv_isCached h z then Some (Panic ''Set() called on cached ZVal'')
      else
        (case ref_target (zv_v (hp_zvals h nz)) of
           Some inner \<Rightarrow>
             (if z \<noteq> inner then Some (Ok (upd_zval z (\<lambda>c. c\<lparr>zv_v := VRef inner\<rparr>) h))
              else (case NewZVal (zv_v (hp_zvals h z)) h of
                      (a, h) \<Rightarrow> Some (Ok (upd_zval z (\<lambda>c. c\<lparr>zv_v := VRef a\<rparr>) h))))
         | None \<Rightarrow>
             (case ref_target (zv_v (hp_zvals h z)) of
                Some rz \<Rightarrow> zv_Set h rz nz
              | None \<Rightarrow>
                  Some (Ok (upd_zval z (\<lambda>c. c\<lparr>zv_v := zv_v (hp_zvals h nz)\<rparr>) h)))))"

partial_function (option) zv_SetVal :: "heap \<Rightarrow> addr \<Rightarrow> val \<Rightarrow> heap go option" where
  "zv_SetVal h z v =
     (if zv_isCached h z then Some (Panic ''SetVal() called on cached ZVal'')
      else
        (case ref_target (zv_v (hp_zvals h z)) of
           Some rz \<Rightarrow> zv_SetVal h rz v
         | None \<Rightarrow> Some (Ok (upd_zval z (\<lambda>c. c\<lparr>zv_v := v\<rparr>) h))))"

text \<open>\<open>Nude\<close>: the end of the chain; the name of the outermost ZVal is stored in it.\<close>

partial_function (option) nude_addr :: "heap \<Rightarrow> addr \<Rightarrow> addr option" where
  "nude_addr h z =
     (case ref_target (zv_v (hp_zvals h z)) of Some v \<Rightarrow> nude_addr h v | None \<Rightarrow> Some z)"

section \<open>Sharing copies\<close>

text \<open>\<open>ZHashTable.Dup\<close>: the copy has the same nodes and the same maps, and both tables are marked
  copy-on-write.\<close>

definition ht_Dup :: "addr \<Rightarrow> heap \<Rightarrow> addr \<times> heap" where
  "ht_Dup z h =
     (let h = upd_tab z (\<lambda>t. t\<lparr>ht_cow := True\<rparr>) h;
          t = hp_tabs h z;
          n = hp_next h in
      new_table
        \<lparr>ht_first = ht_first t, ht_last = ht_last t, ht_inc = ht_inc t, ht_count = ht_count t,
         ht_cow = True, ht_incInit = False, ht_idx_s = ht_idx_s t, ht_idx_i = ht_idx_i t,
         ht_mainIterator =
           \<lparr>hi_t = n, hi_cur = hi_cur (ht_mainIterator t), hi_prevRef = None\<rparr>,
         ht_memTracker = ht_memTracker t\<rparr> h)"

text \<open>A new cell with a value: the wrapper of an array is made around a duplicate of its table.\<close>

definition wrap_copy :: "val \<Rightarrow> bytes option \<Rightarrow> heap \<Rightarrow> addr \<times> heap" where
  "wrap_copy v name h =
     (case v of
        VArray t \<Rightarrow> (case ht_Dup t h of (n, h) \<Rightarrow> new_zval ((plain_zval (VArray n))\<lparr>zv_Name := name\<rparr>) h)
      | _ \<Rightarrow> new_zval ((plain_zval v)\<lparr>zv_Name := name\<rparr>) h)"

text \<open>\<open>ZVal.ZVal\<close> keeps a reference, \<open>ZVal.Dup\<close> follows it to its end (and gives the copy the name
  of the outermost cell). \<open>GetType\<close> follows references, so a reference to null is null for both:
  the result is a fresh null without a name.\<close>

definition zv_ZVal :: "addr \<Rightarrow> heap \<Rightarrow> (addr \<times> heap) option" where
  "zv_ZVal z h =
     (case zv_Value h z of
        None \<Rightarrow> None
      | Some v \<Rightarrow>
         if v = VNull then Some (NewZVal VNull h)
         else Some (wrap_copy (zv_v (hp_zvals h z)) (zv_Name (hp_zvals h z)) h))"

definition zv_Dup :: "addr \<Rightarrow> heap \<Rightarrow> (addr \<times> heap) option" where
  "zv_Dup z h =
     (case zv_Value h z of
        None \<Rightarrow> None
      | Some v \<Rightarrow>
         if v = VNull then Some (NewZVal VNull h)
         else Some (wrap_copy v (zv_Name (hp_zvals h z)) h))"

definition zv_Nude :: "addr \<Rightarrow> heap \<Rightarrow> (addr \<times> heap) option" where
  "zv_Nude z h =
     (case nude_addr h z of
        None \<Rightarrow> None
      | Some r \<Rightarrow> Some (r, upd_zval r (\<lambda>c. c\<lparr>zv_Name := zv_Name (hp_zvals h z)\<rparr>) h))"

end
