(* ===== verification/HashTable.thy ===== *)
theory HashTable
  imports PhpHeap GoStrings
begin

text \<open>
  The ordered hash table behind PHP arrays, \<^verbatim>\<open>src/core/phpv/hashtable.go\<close>: a doubly linked list of
  nodes in insertion order, two Go maps from keys to nodes, the next free integer key, and a
  copy-on-write flag that makes every writer copy the nodes first.

  A loop over the nodes is a walk that collects their addresses (\<open>None\<close> if the list is cyclic)
  and a function on that list; the bodies of these loops do not change the links they follow.
  \<open>MergeTable\<close> is the exception, because it may read the list it appends to.
\<close>

section \<open>Tables\<close>

definition memEstimatePerElement :: zint where
  "memEstimatePerElement = 128"

definition wrap64 :: "int \<Rightarrow> int" where
  "wrap64 i = (i + 2 ^ 63) mod 2 ^ 64 - 2 ^ 63"

definition NewHashTable :: "heap \<Rightarrow> addr \<times> heap" where
  "NewHashTable h =
     (let (ms, h) = new_map_s h;
          (mi, h) = new_map_i h in
      new_table
        \<lparr>ht_first = None, ht_last = None, ht_inc = 0, ht_count = 0, ht_cow = False,
         ht_incInit = False, ht_idx_s = ms, ht_idx_i = mi,
         ht_mainIterator = \<lparr>hi_t = hp_next h, hi_cur = None, hi_prevRef = None\<rparr>,
         ht_memTracker = False\<rparr> h)"

definition ht_SetMemTracker :: "bool \<Rightarrow> addr \<Rightarrow> heap \<Rightarrow> heap" where
  "ht_SetMemTracker mt z h = upd_tab z (\<lambda>t. t\<lparr>ht_memTracker := mt\<rparr>) h"

definition ht_SameData :: "addr \<Rightarrow> addr \<Rightarrow> heap \<Rightarrow> bool" where
  "ht_SameData z other h =
     (z = other \<or> (ht_first (hp_tabs h z) \<noteq> None
        \<and> ht_first (hp_tabs h z) = ht_first (hp_tabs h other)))"

definition idx_s :: "heap \<Rightarrow> addr \<Rightarrow> (bytes \<times> addr) list" where
  "idx_s h z = hp_maps_s h (ht_idx_s (hp_tabs h z))"

definition idx_i :: "heap \<Rightarrow> addr \<Rightarrow> (int \<times> addr) list" where
  "idx_i h z = hp_maps_i h (ht_idx_i (hp_tabs h z))"

definition ht_cur :: "heap \<Rightarrow> addr \<Rightarrow> addr option" where
  "ht_cur h z = hi_cur (ht_mainIterator (hp_tabs h z))"

definition set_cur :: "addr \<Rightarrow> addr option \<Rightarrow> heap \<Rightarrow> heap" where
  "set_cur z c h = upd_tab z (\<lambda>t. t\<lparr>ht_mainIterator := (ht_mainIterator t)\<lparr>hi_cur := c\<rparr>\<rparr>) h"

text \<open>\<open>for c := first; c != nil; c = c.next\<close>.\<close>

partial_function (option) ht_walk :: "(addr \<Rightarrow> node) \<Rightarrow> addr option \<Rightarrow> addr list option" where
  "ht_walk ns c =
     (case c of
        None \<Rightarrow> Some []
      | Some a \<Rightarrow> Option.bind (ht_walk ns (nd_next (ns a))) (\<lambda>xs. Some (a # xs)))"

definition ht_nodes :: "heap \<Rightarrow> addr \<Rightarrow> addr list option" where
  "ht_nodes h z = ht_walk (hp_nodes h) (ht_first (hp_tabs h z))"

section \<open>Copying\<close>

definition index_node :: "addr \<Rightarrow> addr \<Rightarrow> key \<Rightarrow> addr \<Rightarrow> heap \<Rightarrow> heap" where
  "index_node ms mi k a h =
     (case k of
        KInt i \<Rightarrow> upd_map_i mi (go_put i a) h
      | KStr s \<Rightarrow> upd_map_s ms (go_put s a) h)"

text \<open>The loop of \<open>doCopy\<close>: \<open>nc\<close> is the last node made, \<open>first\<close> the first one, \<open>ms\<close> and \<open>mi\<close> the
  new maps.\<close>

fun copy_nodes :: "addr \<Rightarrow> addr \<Rightarrow> addr \<Rightarrow> addr list \<Rightarrow> addr option \<Rightarrow> addr option \<Rightarrow> heap
    \<Rightarrow> (addr option \<times> addr option \<times> heap) option" where
  "copy_nodes z ms mi [] nc first h = Some (nc, first, h)"
| "copy_nodes z ms mi (c # cs) nc first h =
     (let n = hp_nodes h c in
      if nd_deleted n then
        copy_nodes z ms mi cs nc first (if ht_cur h z = Some c then set_cur z None h else h)
      else
        (case (if zv_IsRef h (nd_v n) then Some (nd_v n, h) else zv_ZVal (nd_v n) h) of
           None \<Rightarrow> None
         | Some (v, h) \<Rightarrow>
            (let (a, h) = new_node \<lparr>nd_prev = nc, nd_next = None, nd_k = nd_k n, nd_v = v,
                                    nd_deleted = False\<rparr> h;
                 h = (if ht_cur h z = Some c then set_cur z (Some a) h else h);
                 h = (case (first, nc) of
                        (Some _, Some p) \<Rightarrow> upd_node p (\<lambda>m. m\<lparr>nd_next := Some a\<rparr>) h
                      | _ \<Rightarrow> h);
                 first = (if first = None then Some a else first);
                 h = index_node ms mi (nd_k n) a h in
             copy_nodes z ms mi cs (Some a) first h)))"

definition ht_doCopy :: "addr \<Rightarrow> heap \<Rightarrow> heap option" where
  "ht_doCopy z h =
     (case ht_nodes h z of
        None \<Rightarrow> None
      | Some cs \<Rightarrow>
         (let (ms, h) = new_map_s h;
              (mi, h) = new_map_i h in
          case copy_nodes z ms mi cs None None h of
            None \<Rightarrow> None
          | Some (nc, first, h) \<Rightarrow>
              Some (upd_tab z (\<lambda>t. t\<lparr>ht_first := first, ht_last := nc, ht_idx_s := ms,
                                     ht_idx_i := mi, ht_cow := False\<rparr>) h)))"

definition ht_SeparateCow :: "addr \<Rightarrow> heap \<Rightarrow> heap option" where
  "ht_SeparateCow z h = (if ht_cow (hp_tabs h z) then ht_doCopy z h else Some h)"

text \<open>\<open>if z.cow { z.doCopy() }\<close> at the start of a writer.\<close>

definition sep_then :: "addr \<Rightarrow> heap \<Rightarrow> (heap \<Rightarrow> 'a option) \<Rightarrow> 'a option" where
  "sep_then z h k = Option.bind (ht_SeparateCow z h) k"

text \<open>\<open>DeepCopy\<close>: the values of references with one alias are copied out of them.\<close>

definition deep_val :: "addr \<Rightarrow> heap \<Rightarrow> (addr \<times> heap) option" where
  "deep_val v h =
     (case zv_RefTarget h v of
        Some inner \<Rightarrow>
          if zv_AliasCount h inner \<le> 1
          then map_option (\<lambda>w. NewZVal w h) (zv_Value h v) else Some (v, h)
      | None \<Rightarrow> zv_ZVal v h)"

fun deep_nodes :: "addr \<Rightarrow> addr list \<Rightarrow> addr option \<Rightarrow> heap \<Rightarrow> (addr option \<times> heap) option" where
  "deep_nodes n [] lst h = Some (lst, h)"
| "deep_nodes n (c # cs) lst h =
     (let nd = hp_nodes h c in
      if nd_deleted nd then deep_nodes n cs lst h
      else
        (case deep_val (nd_v nd) h of
           None \<Rightarrow> None
         | Some (v, h) \<Rightarrow>
            (let (a, h) = new_node \<lparr>nd_prev = lst, nd_next = None, nd_k = nd_k nd, nd_v = v,
                                    nd_deleted = False\<rparr> h;
                 h = upd_tab n (\<lambda>t. t\<lparr>ht_count := ht_count t + 1\<rparr>) h;
                 h = (if ht_first (hp_tabs h n) = None
                      then upd_tab n (\<lambda>t. t\<lparr>ht_first := Some a\<rparr>) h else h);
                 h = (case lst of Some p \<Rightarrow> upd_node p (\<lambda>m. m\<lparr>nd_next := Some a\<rparr>) h | None \<Rightarrow> h);
                 h = index_node (ht_idx_s (hp_tabs h n)) (ht_idx_i (hp_tabs h n)) (nd_k nd) a h in
             deep_nodes n cs (Some a) h)))"

definition ht_DeepCopy :: "addr \<Rightarrow> heap \<Rightarrow> (addr \<times> heap) option" where
  "ht_DeepCopy z h =
     (case ht_nodes h z of
        None \<Rightarrow> None
      | Some cs \<Rightarrow>
         (let t = hp_tabs h z;
              (ms, h) = new_map_s h;
              (mi, h) = new_map_i h;
              (n, h) = new_table
                \<lparr>ht_first = None, ht_last = None, ht_inc = ht_inc t, ht_count = 0, ht_cow = False,
                 ht_incInit = False, ht_idx_s = ms, ht_idx_i = mi,
                 ht_mainIterator = \<lparr>hi_t = hp_next h, hi_cur = None, hi_prevRef = None\<rparr>,
                 ht_memTracker = ht_memTracker t\<rparr> h in
          case deep_nodes n cs None h of
            None \<Rightarrow> None
          | Some (lst, h) \<Rightarrow>
             (let h = upd_tab n (\<lambda>t. t\<lparr>ht_last := lst\<rparr>) h in
              Some (n, set_cur n (ht_first (hp_tabs h n)) h))))"

section \<open>Emptying\<close>

fun mark_deleted :: "addr list \<Rightarrow> heap \<Rightarrow> heap" where
  "mark_deleted [] h = h"
| "mark_deleted (a # as) h = mark_deleted as (upd_node a (\<lambda>n. n\<lparr>nd_deleted := True\<rparr>) h)"

definition clear_table :: "addr \<Rightarrow> heap \<Rightarrow> heap" where
  "clear_table z h =
     (let h = upd_tab z (\<lambda>t. t\<lparr>ht_count := 0, ht_inc := 0, ht_incInit := False,
                              ht_first := None, ht_last := None\<rparr>) h;
          h = set_cur z None h;
          h = upd_map_i (ht_idx_i (hp_tabs h z)) (\<lambda>_. []) h in
      upd_map_s (ht_idx_s (hp_tabs h z)) (\<lambda>_. []) h)"

definition mem_free :: "addr \<Rightarrow> zint \<Rightarrow> heap \<Rightarrow> heap" where
  "mem_free z n h =
     (if ht_memTracker (hp_tabs h z) then h\<lparr>hp_mem := mm_MemFree n (hp_mem h)\<rparr> else h)"

definition ht_Clear :: "addr \<Rightarrow> heap \<Rightarrow> heap option" where
  "ht_Clear z h =
     sep_then z h (\<lambda>h.
       let oldCount = ht_count (hp_tabs h z);
           h = mark_deleted (go_vals (idx_i h z)) h;
           h = mark_deleted (go_vals (idx_s h z)) h;
           h = clear_table z h in
       Some (if oldCount > 0 then mem_free z (word_of_int oldCount * memEstimatePerElement) h else h))"

definition ht_Empty :: "addr \<Rightarrow> heap \<Rightarrow> heap option" where
  "ht_Empty z h = sep_then z h (\<lambda>h. Some (clear_table z h))"

section \<open>Reading\<close>

definition ht_GetStringB :: "bytes \<Rightarrow> addr \<Rightarrow> heap \<Rightarrow> (addr \<times> bool) \<times> heap" where
  "ht_GetStringB k z h =
     (case map_of (idx_s h z) k of
        None \<Rightarrow> (case NewZVal VNull h of (a, h) \<Rightarrow> ((a, False), h))
      | Some t \<Rightarrow> ((nd_v (hp_nodes h t), True), h))"

definition ht_GetString :: "bytes \<Rightarrow> addr \<Rightarrow> heap \<Rightarrow> addr \<times> heap" where
  "ht_GetString k z h =
     (case map_of (idx_s h z) k of
        None \<Rightarrow> NewZVal VNull h
      | Some t \<Rightarrow> (nd_v (hp_nodes h t), h))"

definition ht_HasString :: "bytes \<Rightarrow> addr \<Rightarrow> heap \<Rightarrow> bool" where
  "ht_HasString k z h = (map_of (idx_s h z) k \<noteq> None)"

definition ht_GetInt :: "int \<Rightarrow> addr \<Rightarrow> heap \<Rightarrow> addr \<times> heap" where
  "ht_GetInt k z h =
     (case map_of (idx_i h z) k of
        None \<Rightarrow> NewZVal VNull h
      | Some t \<Rightarrow> (nd_v (hp_nodes h t), h))"

definition ht_HasInt :: "int \<Rightarrow> addr \<Rightarrow> heap \<Rightarrow> bool" where
  "ht_HasInt k z h = (map_of (idx_i h z) k \<noteq> None)"

definition ht_Count :: "addr \<Rightarrow> heap \<Rightarrow> int" where
  "ht_Count z h = ht_count (hp_tabs h z)"

definition ht_HasStringKeys :: "addr \<Rightarrow> heap \<Rightarrow> bool" where
  "ht_HasStringKeys z h = (idx_s h z \<noteq> [])"

definition ht_LastIntKey :: "addr \<Rightarrow> heap \<Rightarrow> int option" where
  "ht_LastIntKey z h =
     (case ht_last (hp_tabs h z) of
        None \<Rightarrow> None
      | Some a \<Rightarrow> (case nd_k (hp_nodes h a) of KInt i \<Rightarrow> Some i | KStr _ \<Rightarrow> None))"

section \<open>Removing\<close>

definition ht_unlink :: "addr \<Rightarrow> addr \<Rightarrow> heap \<Rightarrow> heap" where
  "ht_unlink t z h =
     (let h = (if ht_first (hp_tabs h z) = Some t
               then upd_tab z (\<lambda>x. x\<lparr>ht_first := nd_next (hp_nodes h t)\<rparr>) h else h);
          h = (if ht_last (hp_tabs h z) = Some t
               then upd_tab z (\<lambda>x. x\<lparr>ht_last := nd_prev (hp_nodes h t)\<rparr>) h else h);
          h = (case nd_prev (hp_nodes h t) of
                 Some p \<Rightarrow> upd_node p (\<lambda>m. m\<lparr>nd_next := nd_next (hp_nodes h t)\<rparr>) h | None \<Rightarrow> h) in
      case nd_next (hp_nodes h t) of
        Some q \<Rightarrow> upd_node q (\<lambda>m. m\<lparr>nd_prev := nd_prev (hp_nodes h t)\<rparr>) h | None \<Rightarrow> h)"

definition ht_UnsetString :: "bytes \<Rightarrow> addr \<Rightarrow> heap \<Rightarrow> heap option" where
  "ht_UnsetString k z h =
     sep_then z h (\<lambda>h.
       case map_of (idx_s h z) k of
         None \<Rightarrow> Some h
       | Some t \<Rightarrow>
          (let h = upd_tab z (\<lambda>x. x\<lparr>ht_count := ht_count x - 1\<rparr>) h;
               h = upd_map_s (ht_idx_s (hp_tabs h z)) (go_del k) h;
               h = upd_node t (\<lambda>n. n\<lparr>nd_deleted := True\<rparr>) h in
           Some (mem_free z memEstimatePerElement (ht_unlink t z h))))"

definition ht_UnsetInt :: "int \<Rightarrow> addr \<Rightarrow> heap \<Rightarrow> heap option" where
  "ht_UnsetInt k z h =
     sep_then z h (\<lambda>h.
       case map_of (idx_i h z) k of
         None \<Rightarrow> Some h
       | Some t \<Rightarrow>
          (let h = upd_tab z (\<lambda>x. x\<lparr>ht_count := ht_count x - 1\<rparr>) h;
               h = upd_map_i (ht_idx_i (hp_tabs h z)) (go_del k) h;
               h = upd_node t (\<lambda>n. n\<lparr>nd_deleted := True\<rparr>) h in
           Some (mem_free z memEstimatePerElement (ht_unlink t z h))))"

section \<open>Storing\<close>

definition zv_private :: "addr \<Rightarrow> heap \<Rightarrow> addr \<times> heap" where
  "zv_private v h = (if zv_isCached h v then NewZVal (zv_v (hp_zvals h v)) h else (v, h))"

definition mem_alloc :: "addr \<Rightarrow> heap \<Rightarrow> bool \<times> heap" where
  "mem_alloc z h =
     (if ht_memTracker (hp_tabs h z) then
        (case mm_MemAlloc memEstimatePerElement (hp_mem h) of (ok, m) \<Rightarrow> (ok, h\<lparr>hp_mem := m\<rparr>))
      else (True, h))"

text \<open>Storing into an existing node: through a reference, or by replacing the pointer.\<close>

definition assign_node :: "addr \<Rightarrow> addr \<Rightarrow> heap \<Rightarrow> heap go option" where
  "assign_node t v h =
     (if zv_IsRef h (nd_v (hp_nodes h t)) then zv_Set h (nd_v (hp_nodes h t)) v
      else (case zv_private v h of (v, h) \<Rightarrow> Some (Ok (upd_node t (\<lambda>n. n\<lparr>nd_v := v\<rparr>) h))))"

text \<open>Linking a new node at the end; \<open>adjust\<close> is false where the source does not move an
  iterator that is past the end onto it.\<close>

definition link_last :: "bool \<Rightarrow> addr \<Rightarrow> addr \<Rightarrow> heap \<Rightarrow> heap" where
  "link_last adjust nt z h =
     (case ht_last (hp_tabs h z) of
        None \<Rightarrow> set_cur z (Some nt) (upd_tab z (\<lambda>t. t\<lparr>ht_first := Some nt, ht_last := Some nt\<rparr>) h)
      | Some l \<Rightarrow>
         (let pastEnd = (ht_cur h z = None);
              h = upd_node l (\<lambda>n. n\<lparr>nd_next := Some nt\<rparr>) h;
              h = upd_node nt (\<lambda>n. n\<lparr>nd_prev := Some l\<rparr>) h;
              h = upd_tab z (\<lambda>t. t\<lparr>ht_last := Some nt\<rparr>) h in
          if adjust \<and> pastEnd then set_cur z (Some nt) h else h))"

definition fresh_node :: "key \<Rightarrow> addr \<Rightarrow> heap \<Rightarrow> addr \<times> heap" where
  "fresh_node k v h =
     new_node \<lparr>nd_prev = None, nd_next = None, nd_k = k, nd_v = v, nd_deleted = False\<rparr> h"

definition ht_SetString :: "bytes \<Rightarrow> addr option \<Rightarrow> addr \<Rightarrow> heap \<Rightarrow> heap go option" where
  "ht_SetString k vo z h =
     (case vo of
        None \<Rightarrow> map_option Ok (ht_UnsetString k z h)
      | Some v \<Rightarrow>
         sep_then z h (\<lambda>h.
           case map_of (idx_s h z) k of
             Some t \<Rightarrow> assign_node t v h
           | None \<Rightarrow>
              (let (v, h) = zv_private v h;
                   (ok, h) = mem_alloc z h in
               if \<not> ok then Some (Fail MemExhausted h)
               else
                 (let (nt, h) = fresh_node (KStr k) v h;
                      h = upd_tab z (\<lambda>t. t\<lparr>ht_count := ht_count t + 1\<rparr>) h;
                      h = upd_map_s (ht_idx_s (hp_tabs h z)) (go_put k nt) h in
                  Some (Ok (link_last True nt z h))))))"

definition ht_ForceSetString :: "bytes \<Rightarrow> addr option \<Rightarrow> addr \<Rightarrow> heap \<Rightarrow> heap go option" where
  "ht_ForceSetString k vo z h =
     (case vo of
        None \<Rightarrow> map_option Ok (ht_UnsetString k z h)
      | Some v \<Rightarrow>
         sep_then z h (\<lambda>h.
           case map_of (idx_s h z) k of
             Some t \<Rightarrow> Some (Ok (upd_node t (\<lambda>n. n\<lparr>nd_v := v\<rparr>) h))
           | None \<Rightarrow>
              (let (ok, h) = mem_alloc z h in
               if \<not> ok then Some (Fail MemExhausted h)
               else
                 (let (nt, h) = fresh_node (KStr k) v h;
                      h = upd_tab z (\<lambda>t. t\<lparr>ht_count := ht_count t + 1\<rparr>) h;
                      h = upd_map_s (ht_idx_s (hp_tabs h z)) (go_put k nt) h in
                  Some (Ok (link_last False nt z h))))))"

text \<open>The next free integer key after an explicit integer key \<open>k\<close> was stored.\<close>

definition note_int_key :: "int \<Rightarrow> table \<Rightarrow> table" where
  "note_int_key k t =
     (if \<not> ht_incInit t \<or> k \<ge> ht_inc t
      then t\<lparr>ht_incInit := True, ht_inc := (if k < int64_max then k + 1 else k)\<rparr> else t)"

definition ht_SetInt :: "int \<Rightarrow> addr option \<Rightarrow> addr \<Rightarrow> heap \<Rightarrow> heap go option" where
  "ht_SetInt k vo z h =
     (case vo of
        None \<Rightarrow> map_option Ok (ht_UnsetInt k z h)
      | Some v \<Rightarrow>
         sep_then z h (\<lambda>h.
           case map_of (idx_i h z) k of
             Some t \<Rightarrow> assign_node t v h
           | None \<Rightarrow>
              (let (v, h) = zv_private v h;
                   (ok, h) = mem_alloc z h in
               if \<not> ok then Some (Fail MemExhausted h)
               else
                 (let (nt, h) = fresh_node (KInt k) v h;
                      h = upd_tab z (\<lambda>t. note_int_key k (t\<lparr>ht_count := ht_count t + 1\<rparr>)) h;
                      h = upd_map_i (ht_idx_i (hp_tabs h z)) (go_put k nt) h in
                  Some (Ok (link_last True nt z h))))))"

section \<open>Appending\<close>

text \<open>The loop of \<open>Append\<close> and \<open>WouldOverflow\<close>: the first free key from \<open>inc\<close> on, or that there
  is none. Keys are 64-bit, so the loop does not go past \<open>int64_max\<close>.\<close>

function next_free :: "(int \<times> addr) list \<Rightarrow> int \<Rightarrow> bool \<times> int" where
  "next_free m inc =
     (if map_of m inc = None then (True, inc)
      else if inc \<ge> int64_max then (False, inc)
      else next_free m (inc + 1))"
  by pat_completeness auto
termination by (relation "measure (\<lambda>(m, inc). nat (int64_max - inc))") auto

declare next_free.simps [simp del]

definition ht_WouldOverflow :: "addr \<Rightarrow> heap \<Rightarrow> bool" where
  "ht_WouldOverflow z h = (\<not> fst (next_free (idx_i h z) (ht_inc (hp_tabs h z))))"

definition ht_Append :: "addr \<Rightarrow> addr \<Rightarrow> heap \<Rightarrow> heap go option" where
  "ht_Append v z h =
     sep_then z h (\<lambda>h.
       let (free, inc) = next_free (idx_i h z) (ht_inc (hp_tabs h z));
           h = upd_tab z (\<lambda>t. t\<lparr>ht_inc := inc\<rparr>) h in
       if \<not> free then Some (Fail NextElementOccupied h)
       else
         (let (ok, h) = mem_alloc z h in
          if \<not> ok then Some (Fail MemExhausted h)
          else
            (let (nt, h) = fresh_node (KInt inc) v h;
                 h = upd_map_i (ht_idx_i (hp_tabs h z)) (go_put inc nt) h;
                 h = upd_tab z (\<lambda>t. t\<lparr>ht_inc := (if inc < int64_max then inc + 1 else inc),
                                      ht_count := ht_count t + 1\<rparr>) h in
             Some (Ok (link_last True nt z h)))))"

section \<open>Integer keys\<close>

definition ht_RecalcNextIntKey :: "addr \<Rightarrow> heap \<Rightarrow> heap" where
  "ht_RecalcNextIntKey z h =
     (if idx_i h z = [] then upd_tab z (\<lambda>t. t\<lparr>ht_inc := 0, ht_incInit := False\<rparr>) h
      else
        (let maxKey = fold max (map fst (idx_i h z)) (fst (hd (idx_i h z))) in
         upd_tab z (\<lambda>t. t\<lparr>ht_inc := (if maxKey < int64_max then maxKey + 1 else maxKey)\<rparr>) h))"

definition ht_AdjustNextIntKeyAfterPop :: "int \<Rightarrow> addr \<Rightarrow> heap \<Rightarrow> heap" where
  "ht_AdjustNextIntKeyAfterPop poppedKey z h =
     (if wrap64 (poppedKey + 1) = ht_inc (hp_tabs h z)
      then upd_tab z (\<lambda>t. t\<lparr>ht_inc := poppedKey\<rparr>) h else h)"

text \<open>The loop that renumbers the integer keys from \<open>i\<close> on.\<close>

fun renumber :: "addr \<Rightarrow> addr list \<Rightarrow> int \<Rightarrow> heap \<Rightarrow> int \<times> heap" where
  "renumber mi [] i h = (i, h)"
| "renumber mi (c # cs) i h =
     (case nd_k (hp_nodes h c) of
        KStr _ \<Rightarrow> renumber mi cs i h
      | KInt _ \<Rightarrow>
          if nd_deleted (hp_nodes h c) then renumber mi cs i h
          else renumber mi cs (i + 1)
                 (upd_map_i mi (go_put i c) (upd_node c (\<lambda>n. n\<lparr>nd_k := KInt i\<rparr>) h)))"

definition ht_ResetIntKeys :: "addr \<Rightarrow> heap \<Rightarrow> heap option" where
  "ht_ResetIntKeys z h =
     map_option (\<lambda>cs.
       let mi = ht_idx_i (hp_tabs h z);
           (i, h) = renumber mi cs 0 (upd_map_i mi (\<lambda>_. []) h) in
       upd_tab z (\<lambda>t. t\<lparr>ht_inc := i\<rparr>) h) (ht_nodes h z)"

fun first_live :: "heap \<Rightarrow> addr list \<Rightarrow> addr option" where
  "first_live h [] = None"
| "first_live h (c # cs) = (if nd_deleted (hp_nodes h c) then first_live h cs else Some c)"

definition ht_Shift :: "addr \<Rightarrow> heap \<Rightarrow> (addr option \<times> heap) option" where
  "ht_Shift z h =
     sep_then z h (\<lambda>h.
       Option.bind (ht_nodes h z) (\<lambda>cs.
         case first_live h cs of
           None \<Rightarrow> Some (None, h)
         | Some target \<Rightarrow>
            (let val = nd_v (hp_nodes h target);
                 h = (case nd_k (hp_nodes h target) of
                        KInt i \<Rightarrow> upd_map_i (ht_idx_i (hp_tabs h z)) (go_del i) h
                      | KStr s \<Rightarrow> upd_map_s (ht_idx_s (hp_tabs h z)) (go_del s) h);
                 h = upd_tab z (\<lambda>t. t\<lparr>ht_count := ht_count t - 1\<rparr>) h;
                 h = upd_node target (\<lambda>n. n\<lparr>nd_deleted := True\<rparr>) h;
                 h = ht_unlink target z h in
             map_option (\<lambda>h. (Some val, mem_free z memEstimatePerElement h)) (ht_ResetIntKeys z h))))"

fun unshift_nodes :: "addr list \<Rightarrow> addr option \<Rightarrow> addr option \<Rightarrow> heap \<Rightarrow> addr option \<times> addr option \<times> heap" where
  "unshift_nodes [] newFirst newLast h = (newFirst, newLast, h)"
| "unshift_nodes (v # vs) newFirst newLast h =
     (let (nt, h) = fresh_node (KInt 0) v h in
      case newLast of
        None \<Rightarrow> unshift_nodes vs (Some nt) (Some nt) h
      | Some l \<Rightarrow>
          unshift_nodes vs newFirst (Some nt)
            (upd_node nt (\<lambda>n. n\<lparr>nd_prev := Some l\<rparr>) (upd_node l (\<lambda>n. n\<lparr>nd_next := Some nt\<rparr>) h)))"

definition ht_Unshift :: "addr list \<Rightarrow> addr \<Rightarrow> heap \<Rightarrow> heap option" where
  "ht_Unshift values z h =
     sep_then z h (\<lambda>h.
       let (newFirst, newLast, h) = unshift_nodes values None None h;
           h = upd_tab z (\<lambda>t. t\<lparr>ht_count := ht_count t + int (length values)\<rparr>) h in
       case newLast of
         None \<Rightarrow> Some h
       | Some l \<Rightarrow>
          (let h = (case ht_first (hp_tabs h z) of
                      Some f \<Rightarrow> upd_node f (\<lambda>n. n\<lparr>nd_prev := Some l\<rparr>)
                                  (upd_node l (\<lambda>n. n\<lparr>nd_next := Some f\<rparr>) h)
                    | None \<Rightarrow> upd_tab z (\<lambda>t. t\<lparr>ht_last := Some l\<rparr>) h) in
           ht_ResetIntKeys z (upd_tab z (\<lambda>t. t\<lparr>ht_first := newFirst\<rparr>) h)))"

section \<open>Merging\<close>

definition merge_one :: "addr \<Rightarrow> addr \<Rightarrow> heap \<Rightarrow> heap option" where
  "merge_one z c h =
     (if nd_deleted (hp_nodes h c) then Some h
      else
        (case zv_ZVal (nd_v (hp_nodes h c)) h of
           None \<Rightarrow> None
         | Some (v, h) \<Rightarrow>
            (let (nc, h) = new_node
                   \<lparr>nd_prev = ht_last (hp_tabs h z), nd_next = None, nd_k = nd_k (hp_nodes h c),
                    nd_v = v, nd_deleted = False\<rparr> h;
                 link = (\<lambda>h.
                   case ht_last (hp_tabs h z) of
                     None \<Rightarrow> upd_tab z (\<lambda>t. t\<lparr>ht_first := Some nc, ht_last := Some nc\<rparr>) h
                   | Some l \<Rightarrow> upd_tab z (\<lambda>t. t\<lparr>ht_last := Some nc\<rparr>)
                                 (upd_node l (\<lambda>n. n\<lparr>nd_next := Some nc\<rparr>) h)) in
             case nd_k (hp_nodes h nc) of
               KInt _ \<Rightarrow>
                 (let inc = ht_inc (hp_tabs h z);
                      h = upd_node nc (\<lambda>n. n\<lparr>nd_k := KInt inc\<rparr>) h;
                      h = upd_map_i (ht_idx_i (hp_tabs h z)) (go_put inc nc) h;
                      h = upd_tab z (\<lambda>t. t\<lparr>ht_inc := wrap64 (inc + 1),
                                           ht_count := ht_count t + 1\<rparr>) h in
                  Some (link h))
             | KStr k \<Rightarrow>
                 (case map_of (idx_s h z) k of
                    Some e \<Rightarrow> Some (upd_node e (\<lambda>n. n\<lparr>nd_v := v\<rparr>) h)
                  | None \<Rightarrow> Some (link (upd_tab z (\<lambda>t. t\<lparr>ht_count := ht_count t + 1\<rparr>) h))))))"

partial_function (option) merge_loop :: "addr \<Rightarrow> addr option \<Rightarrow> heap \<Rightarrow> heap option" where
  "merge_loop z c h =
     (case c of
        None \<Rightarrow> Some h
      | Some a \<Rightarrow> Option.bind (merge_one z a h) (\<lambda>h. merge_loop z (nd_next (hp_nodes h a)) h))"

definition ht_MergeTable :: "addr \<Rightarrow> addr \<Rightarrow> heap \<Rightarrow> heap option" where
  "ht_MergeTable b z h = sep_then z h (\<lambda>h. merge_loop z (ht_first (hp_tabs h b)) h)"

end
