(* ===== verification/HashInv.thy ===== *)
theory HashInv
  imports HashTable
begin

text \<open>
  What a hash table in the heap represents, and the invariant of the whole heap: every table has
  a proper doubly linked list of live nodes which its two maps index by key, and a table that is
  not marked copy-on-write shares neither nodes nor maps with another one. \<open>heap_grows\<close> collects the
  transitions that only allocate or share: they keep the invariant and what every table shows.
\<close>

section \<open>Lists of nodes\<close>

text \<open>\<open>dseg ns p c xs q l\<close>: from the node \<open>c\<close>, whose \<open>prev\<close> is \<open>p\<close>, the links lead through the live
  nodes \<open>xs\<close> to \<open>q\<close>; \<open>l\<close> is the last node of them (or \<open>p\<close>).\<close>

fun dseg :: "(addr \<Rightarrow> node) \<Rightarrow> addr option \<Rightarrow> addr option \<Rightarrow> addr list \<Rightarrow> addr option \<Rightarrow> addr option \<Rightarrow> bool" where
  "dseg ns p c [] q l = (c = q \<and> l = p)"
| "dseg ns p c (a # as) q l =
     (c = Some a \<and> nd_prev (ns a) = p \<and> \<not> nd_deleted (ns a)
      \<and> dseg ns (Some a) (nd_next (ns a)) as q l)"

lemma dseg_append:
  "dseg ns p c (xs @ ys) q l \<longleftrightarrow> (\<exists>m r. dseg ns p c xs m r \<and> dseg ns r m ys q l)"
  by (induction xs arbitrary: p c) auto

lemma dseg_cong:
  "(\<And>a. a \<in> set xs \<Longrightarrow> ns' a = ns a) \<Longrightarrow> dseg ns' p c xs q l = dseg ns p c xs q l"
  by (induction xs arbitrary: p c) auto

lemma dseg_walk: "dseg ns p c xs None l \<Longrightarrow> ht_walk ns c = Some xs"
proof (induction xs arbitrary: p c)
  case Nil
  then show ?case by (simp add: ht_walk.simps[of ns None])
next
  case (Cons a as)
  then show ?case by (subst ht_walk.simps) auto
qed

lemma dseg_live: "dseg ns p c xs q l \<Longrightarrow> a \<in> set xs \<Longrightarrow> \<not> nd_deleted (ns a)"
  by (induction xs arbitrary: p c) auto

lemma dseg_last: "dseg ns p c xs q l \<Longrightarrow> l = (if xs = [] then p else Some (last xs))"
  by (induction xs arbitrary: p c) auto

lemma dseg_first: "dseg ns p c xs q l \<Longrightarrow> c = (if xs = [] then q else Some (hd xs))"
  by (cases xs) auto

text \<open>A node at the end: the old last node points to the new one.\<close>

lemma dseg_snoc:
  assumes "dseg ns p c xs None l" "a \<notin> set xs" "distinct xs"
    and "nd_prev (ns' a) = l" "nd_next (ns' a) = q" "\<not> nd_deleted (ns' a)"
    and "\<And>b. b \<in> set xs \<Longrightarrow> nd_prev (ns' b) = nd_prev (ns b)
        \<and> nd_deleted (ns' b) = nd_deleted (ns b)
        \<and> nd_next (ns' b) = (if Some b = l then Some a else nd_next (ns b))"
  shows "dseg ns' p (if xs = [] then Some a else c) (xs @ [a]) q (Some a)"
  using assms(1-4,7)
proof (induction xs arbitrary: p c)
  case Nil
  then show ?case using assms(5,6) by simp
next
  case (Cons b bs)
  have l: "l = (if bs = [] then Some b else Some (last bs))"
    using dseg_last[of ns "Some b" "nd_next (ns b)" bs None l] Cons.prems(1) by simp
  have b: "nd_prev (ns' b) = nd_prev (ns b)" "nd_deleted (ns' b) = nd_deleted (ns b)"
    "nd_next (ns' b) = (if Some b = l then Some a else nd_next (ns b))"
    using Cons.prems(5)[of b] by auto
  have IH: "dseg ns' (Some b) (if bs = [] then Some a else nd_next (ns b)) (bs @ [a]) q (Some a)"
    using Cons.IH[of "Some b" "nd_next (ns b)"] Cons.prems by auto
  have "nd_next (ns' b) = (if bs = [] then Some a else nd_next (ns b))"
    using b(3) l Cons.prems(3) by (auto split: if_splits)
  then show ?case using Cons.prems(1) b IH by simp
qed

text \<open>Cutting a node out: its neighbours point to each other.\<close>

lemma dseg_cut:
  assumes d: "dseg ns p c (xs @ t # ys) q l" and dist: "distinct (xs @ t # ys)"
    and same: "\<And>b. b \<in> set xs \<union> set ys \<Longrightarrow> nd_deleted (ns' b) = nd_deleted (ns b)"
    and nxt: "\<And>b. b \<in> set xs \<Longrightarrow>
        nd_next (ns' b) = (if nd_prev (ns t) = Some b then nd_next (ns t) else nd_next (ns b))"
    and nxt': "\<And>b. b \<in> set ys \<Longrightarrow> nd_next (ns' b) = nd_next (ns b)"
    and prv: "\<And>b. b \<in> set ys \<Longrightarrow>
        nd_prev (ns' b) = (if nd_next (ns t) = Some b then nd_prev (ns t) else nd_prev (ns b))"
    and prv': "\<And>b. b \<in> set xs \<Longrightarrow> nd_prev (ns' b) = nd_prev (ns b)"
  shows "dseg ns' p (if xs = [] then nd_next (ns t) else c) (xs @ ys) q
     (if ys = [] then nd_prev (ns t) else l)"
proof -
  from d obtain m r where 1: "dseg ns p c xs m r" and 2: "dseg ns r m (t # ys) q l"
    by (auto simp: dseg_append)
  then have t: "m = Some t" "nd_prev (ns t) = r" and 3: "dseg ns (Some t) (nd_next (ns t)) ys q l"
    by auto
  have first: "dseg ns' p (if xs = [] then nd_next (ns t) else c) xs (nd_next (ns t)) r"
    using 1 dist same nxt prv' t
  proof (induction xs arbitrary: p c)
    case (Cons b bs)
    have r: "r = (if bs = [] then Some b else Some (last bs))"
      using dseg_last[of ns "Some b" "nd_next (ns b)" bs m r] Cons.prems(1) by simp
    have IH: "dseg ns' (Some b) (if bs = [] then nd_next (ns t) else nd_next (ns b)) bs (nd_next (ns t)) r"
      using Cons.IH[of "Some b" "nd_next (ns b)"] Cons.prems by auto
    have "nd_next (ns' b) = (if bs = [] then nd_next (ns t) else nd_next (ns b))"
      using Cons.prems(4)[of b] Cons.prems(2,7) r by (auto split: if_splits)
    then show ?case
      using IH Cons.prems(1) Cons.prems(3)[of b] Cons.prems(5)[of b] by simp
  qed simp
  have second: "dseg ns' r (nd_next (ns t)) ys q (if ys = [] then r else l)"
  proof (cases ys)
    case Nil
    then show ?thesis using 3 by simp
  next
    case (Cons b bs)
    then have b: "nd_next (ns t) = Some b" "\<not> nd_deleted (ns b)" "dseg ns (Some b) (nd_next (ns b)) bs q l"
      using 3 by auto
    have "dseg ns' (Some b) (nd_next (ns b)) bs q l = dseg ns (Some b) (nd_next (ns b)) bs q l"
    proof -
      have "dseg ns' p' c' bs q l = dseg ns p' c' bs q l" if "set bs \<subseteq> set ys" "b \<notin> set bs" for p' c'
        using that
      proof (induction bs arbitrary: p' c')
        case (Cons a as)
        then show ?case using same[of a] nxt'[of a] prv[of a] b(1) by auto
      qed simp
      then show ?thesis using Cons dist by auto
    qed
    then show ?thesis
      using b Cons nxt'[of b] prv[of b] same[of b] t(2) by simp
  qed
  show ?thesis unfolding dseg_append t(2) using first second by blast
qed

section \<open>Representation\<close>

definition ht_rep :: "heap \<Rightarrow> addr \<Rightarrow> addr list \<Rightarrow> bool" where
  "ht_rep h z xs =
     (dseg (hp_nodes h) None (ht_first (hp_tabs h z)) xs None (ht_last (hp_tabs h z))
      \<and> distinct xs
      \<and> (\<forall>k a. map_of (idx_i h z) k = Some a \<longleftrightarrow> a \<in> set xs \<and> nd_k (hp_nodes h a) = KInt k)
      \<and> (\<forall>k a. map_of (idx_s h z) k = Some a \<longleftrightarrow> a \<in> set xs \<and> nd_k (hp_nodes h a) = KStr k)
      \<and> ht_count (hp_tabs h z) = int (length xs)
      \<and> (\<forall>a \<in> set xs. a < hp_next h \<and> nd_v (hp_nodes h a) < hp_next h)
      \<and> ht_idx_s (hp_tabs h z) < hp_next h \<and> ht_idx_i (hp_tabs h z) < hp_next h)"

definition xs_of :: "heap \<Rightarrow> addr \<Rightarrow> addr list" where
  "xs_of h z = the (ht_nodes h z)"

lemma rep_nodes: "ht_rep h z xs \<Longrightarrow> ht_nodes h z = Some xs"
  by (auto simp: ht_rep_def ht_nodes_def dest: dseg_walk)

lemma rep_xs_of: "ht_rep h z xs \<Longrightarrow> xs_of h z = xs"
  by (simp add: xs_of_def rep_nodes)

definition val_bound :: "addr \<Rightarrow> val \<Rightarrow> bool" where
  "val_bound n v = (case v of VArray t \<Rightarrow> t < n | VRef r \<Rightarrow> r < n | _ \<Rightarrow> True)"

text \<open>The invariant. Addresses that were never handed out hold default cells, for which it is true
  as well (an empty table marked copy-on-write).\<close>

definition excl :: "heap \<Rightarrow> addr \<Rightarrow> addr \<Rightarrow> bool" where
  "excl h z z' =
     (set (xs_of h z) \<inter> set (xs_of h z') = {}
      \<and> ht_idx_s (hp_tabs h z) \<noteq> ht_idx_s (hp_tabs h z')
      \<and> ht_idx_i (hp_tabs h z) \<noteq> ht_idx_i (hp_tabs h z'))"

definition heap_inv :: "heap \<Rightarrow> bool" where
  "heap_inv h =
     ((\<forall>z. ht_rep h z (xs_of h z))
      \<and> (\<forall>z z'. z \<noteq> z' \<longrightarrow> \<not> ht_cow (hp_tabs h z) \<longrightarrow> excl h z z')
      \<and> (\<forall>a. val_bound (hp_next h) (zv_v (hp_zvals h a))))"

lemma heap_inv_rep: "heap_inv h \<Longrightarrow> ht_rep h z (xs_of h z)"
  by (simp add: heap_inv_def)

definition default_table :: table where
  "default_table =
     \<lparr>ht_first = None, ht_last = None, ht_inc = 0, ht_count = 0, ht_cow = True, ht_incInit = False,
      ht_idx_s = 0, ht_idx_i = 0,
      ht_mainIterator = \<lparr>hi_t = 0, hi_cur = None, hi_prevRef = None\<rparr>, ht_memTracker = False\<rparr>"

definition empty_heap :: "memmgr \<Rightarrow> heap" where
  "empty_heap m =
     \<lparr>hp_zvals = (\<lambda>_. plain_zval VNull),
      hp_nodes = (\<lambda>_. \<lparr>nd_prev = None, nd_next = None, nd_k = KInt 0, nd_v = 0, nd_deleted = False\<rparr>),
      hp_tabs = (\<lambda>_. default_table), hp_maps_s = (\<lambda>_. []), hp_maps_i = (\<lambda>_. []),
      hp_mem = m, hp_next = 1\<rparr>"

lemma heap_inv_empty: "heap_inv (empty_heap m)"
proof -
  have "ht_nodes (empty_heap m) z = Some []" for z
    by (simp add: ht_nodes_def empty_heap_def default_table_def ht_walk.simps)
  then show ?thesis
    by (simp add: heap_inv_def ht_rep_def xs_of_def idx_i_def idx_s_def)
       (simp add: empty_heap_def default_table_def val_bound_def plain_zval_def)
qed

section \<open>What a table shows\<close>

text \<open>A value as the outside sees it: an array is identified by its integer map, which copies share
  until one of them is written to.\<close>

definition val_view :: "heap \<Rightarrow> val \<Rightarrow> val" where
  "val_view h v = (case v of VArray t \<Rightarrow> VArray (ht_idx_i (hp_tabs h t)) | _ \<Rightarrow> v)"

definition cell_view :: "heap \<Rightarrow> addr \<Rightarrow> val" where
  "cell_view h a = val_view h (zv_v (hp_zvals h a))"

definition ht_view :: "heap \<Rightarrow> addr \<Rightarrow> (key \<times> val) list" where
  "ht_view h z =
     map (\<lambda>a. (nd_k (hp_nodes h a), cell_view h (nd_v (hp_nodes h a)))) (xs_of h z)"

definition ht_keys :: "heap \<Rightarrow> addr \<Rightarrow> key list" where
  "ht_keys h z = map (\<lambda>a. nd_k (hp_nodes h a)) (xs_of h z)"

lemma keys_view: "map fst (ht_view h z) = ht_keys h z"
  by (simp add: ht_view_def ht_keys_def)

text \<open>Keys are distinct.\<close>

lemma rep_key_inj:
  assumes "ht_rep h z xs" "a \<in> set xs" "b \<in> set xs" "nd_k (hp_nodes h a) = nd_k (hp_nodes h b)"
  shows "a = b"
proof (cases "nd_k (hp_nodes h a)")
  case (KInt k)
  then have "map_of (idx_i h z) k = Some a" "map_of (idx_i h z) k = Some b"
    using assms by (simp_all add: ht_rep_def)
  then show ?thesis by simp
next
  case (KStr k)
  then have "map_of (idx_s h z) k = Some a" "map_of (idx_s h z) k = Some b"
    using assms by (simp_all add: ht_rep_def)
  then show ?thesis by simp
qed

lemma rep_keys_distinct: "ht_rep h z xs \<Longrightarrow> distinct (map (\<lambda>a. nd_k (hp_nodes h a)) xs)"
  using rep_key_inj by (auto simp: distinct_map inj_on_def ht_rep_def)

section \<open>Transitions that allocate or share\<close>

definition same_data :: "table \<Rightarrow> table \<Rightarrow> bool" where
  "same_data t t0 =
     (ht_first t = ht_first t0 \<and> ht_last t = ht_last t0 \<and> ht_count t = ht_count t0
      \<and> ht_idx_s t = ht_idx_s t0 \<and> ht_idx_i t = ht_idx_i t0)"

text \<open>The fields of a table that sharing does not change.\<close>

definition same_ctl :: "table \<Rightarrow> table \<Rightarrow> bool" where
  "same_ctl t t0 =
     (ht_inc t = ht_inc t0 \<and> ht_incInit t = ht_incInit t0 \<and> ht_memTracker t = ht_memTracker t0)"

definition shares :: "heap \<Rightarrow> heap \<Rightarrow> addr \<Rightarrow> addr \<Rightarrow> bool" where
  "shares h0 h t t0 =
     (same_data (hp_tabs h t) (hp_tabs h0 t0)
      \<and> (t < hp_next h0 \<longrightarrow> t0 = t \<and> same_ctl (hp_tabs h t) (hp_tabs h0 t))
      \<and> (t0 \<noteq> t \<longrightarrow> ht_cow (hp_tabs h t0))
      \<and> (\<not> ht_cow (hp_tabs h t) \<longrightarrow> t0 = t \<and> \<not> ht_cow (hp_tabs h0 t)))"

definition heap_grows :: "heap \<Rightarrow> heap \<Rightarrow> bool" where
  "heap_grows h0 h =
     (hp_next h0 \<le> hp_next h
      \<and> (\<forall>a < hp_next h0. hp_nodes h a = hp_nodes h0 a \<and> hp_zvals h a = hp_zvals h0 a
            \<and> hp_maps_s h a = hp_maps_s h0 a \<and> hp_maps_i h a = hp_maps_i h0 a)
      \<and> hp_mem h = hp_mem h0
      \<and> (\<forall>t. \<exists>t0. shares h0 h t t0)
      \<and> ((\<forall>a. val_bound (hp_next h0) (zv_v (hp_zvals h0 a)))
            \<longrightarrow> (\<forall>a. val_bound (hp_next h) (zv_v (hp_zvals h a)))))"

lemma same_data_refl [simp]: "same_data t t"
  by (simp add: same_data_def)

lemma shares_refl [simp]: "shares h h t t"
  by (simp add: shares_def same_ctl_def)

lemma grows_refl: "heap_grows h h"
  unfolding heap_grows_def by (auto intro: shares_refl)

lemma shares_trans:
  assumes "shares h0 h1 t1 t0" "shares h1 h2 t t1" "hp_next h0 \<le> hp_next h1"
    and "\<And>t. ht_cow (hp_tabs h1 t) \<Longrightarrow> ht_cow (hp_tabs h2 t)"
  shows "shares h0 h2 t t0"
  using assms by (auto simp: shares_def same_data_def same_ctl_def)

lemma ext_cow: "heap_grows h0 h \<Longrightarrow> ht_cow (hp_tabs h0 t) \<Longrightarrow> ht_cow (hp_tabs h t)"
  unfolding heap_grows_def shares_def by blast

lemma grows_trans:
  assumes "heap_grows h0 h1" "heap_grows h1 h2"
  shows "heap_grows h0 h2"
proof -
  have next01: "hp_next h0 \<le> hp_next h1" using assms(1) by (simp add: heap_grows_def)
  have "\<exists>t0. shares h0 h2 t t0" for t
  proof -
    obtain t1 where 1: "shares h1 h2 t t1" using assms(2) unfolding heap_grows_def by blast
    obtain t0 where 0: "shares h0 h1 t1 t0" using assms(1) unfolding heap_grows_def by blast
    from shares_trans[OF 0 1 next01 ext_cow[OF assms(2)]] show ?thesis by blast
  qed
  then show ?thesis using assms next01 unfolding heap_grows_def by (auto intro: order_trans)
qed

lemma ext_rep:
  assumes "heap_grows h0 h" "ht_rep h0 t0 xs" "same_data (hp_tabs h t) (hp_tabs h0 t0)"
  shows "ht_rep h t xs"
proof -
  note e = assms(1)[unfolded heap_grows_def]
  note r = assms(2)[unfolded ht_rep_def]
  have sd: "ht_first (hp_tabs h t) = ht_first (hp_tabs h0 t0)"
    "ht_last (hp_tabs h t) = ht_last (hp_tabs h0 t0)"
    "ht_count (hp_tabs h t) = ht_count (hp_tabs h0 t0)"
    "ht_idx_s (hp_tabs h t) = ht_idx_s (hp_tabs h0 t0)"
    "ht_idx_i (hp_tabs h t) = ht_idx_i (hp_tabs h0 t0)"
    using assms(3) by (simp_all add: same_data_def)
  have n: "a \<in> set xs \<Longrightarrow> hp_nodes h a = hp_nodes h0 a" for a using e r by auto
  have "idx_i h t = idx_i h0 t0" "idx_s h t = idx_s h0 t0"
    using e r sd by (auto simp: idx_i_def idx_s_def)
  moreover have "dseg (hp_nodes h) None (ht_first (hp_tabs h t)) xs None (ht_last (hp_tabs h t))"
    using r sd dseg_cong[OF n] by simp
  ultimately show ?thesis
    using r n e unfolding ht_rep_def sd by fastforce
qed

lemma ext_share: "heap_grows h0 h \<Longrightarrow> \<exists>t0. shares h0 h t t0"
  by (simp add: heap_grows_def)

lemma shares_rep:
  assumes "heap_inv h0" "heap_grows h0 h" "shares h0 h t t0"
  shows "ht_rep h t (xs_of h0 t0)" "xs_of h t = xs_of h0 t0"
proof -
  show "ht_rep h t (xs_of h0 t0)"
    using ext_rep[OF assms(2) heap_inv_rep[OF assms(1)]] assms(3) by (simp add: shares_def)
  then show "xs_of h t = xs_of h0 t0" by (rule rep_xs_of)
qed

lemma heap_inv_grows:
  assumes "heap_inv h0" "heap_grows h0 h"
  shows "heap_inv h"
proof -
  have "excl h z z'" if "z \<noteq> z'" "\<not> ht_cow (hp_tabs h z)" for z z'
  proof -
    obtain t0 where t0: "shares h0 h z' t0" using ext_share[OF assms(2)] by blast
    obtain z0 where z0: "shares h0 h z z0" using ext_share[OF assms(2)] by blast
    then have z: "z0 = z" "\<not> ht_cow (hp_tabs h0 z)" using that(2) by (simp_all add: shares_def)
    have "t0 \<noteq> z" using t0 that by (auto simp: shares_def)
    then have "excl h0 z t0" using assms(1) z(2) unfolding heap_inv_def by metis
    then show ?thesis
      using t0 z0 z shares_rep(2)[OF assms t0] shares_rep(2)[OF assms z0]
      by (simp add: excl_def shares_def same_data_def)
  qed
  moreover have "ht_rep h t (xs_of h t)" for t
    using ext_share[OF assms(2), of t] shares_rep[OF assms] by metis
  moreover have "\<forall>a. val_bound (hp_next h) (zv_v (hp_zvals h a))"
    using assms unfolding heap_inv_def heap_grows_def by blast
  ultimately show ?thesis unfolding heap_inv_def by blast
qed

text \<open>What every table shows stays the same.\<close>

lemma ext_tab:
  assumes "heap_grows h0 h" "t < hp_next h0"
  shows "same_data (hp_tabs h t) (hp_tabs h0 t)"
  using ext_share[OF assms(1), of t] assms(2) by (auto simp: shares_def)

lemma ext_ctl:
  assumes "heap_grows h0 h" "t < hp_next h0"
  shows "same_ctl (hp_tabs h t) (hp_tabs h0 t)"
  using ext_share[OF assms(1), of t] assms(2) by (auto simp: shares_def)

lemma ext_val_view:
  "heap_grows h0 h \<Longrightarrow> val_bound (hp_next h0) v \<Longrightarrow> val_view h v = val_view h0 v"
  using ext_tab[of h0 h] by (cases v) (simp_all add: val_view_def val_bound_def same_data_def)

lemma ext_cell_view:
  assumes "heap_inv h0" "heap_grows h0 h" "a < hp_next h0"
  shows "cell_view h a = cell_view h0 a"
proof -
  have "val_bound (hp_next h0) (zv_v (hp_zvals h0 a))" using assms(1) by (simp add: heap_inv_def)
  then show ?thesis
    using ext_val_view[OF assms(2)] assms(2,3) by (simp add: cell_view_def heap_grows_def)
qed

lemma ext_view:
  assumes "heap_inv h0" "heap_grows h0 h" "z < hp_next h0"
  shows "ht_view h z = ht_view h0 z" "xs_of h z = xs_of h0 z"
proof -
  obtain t0 where t0: "shares h0 h z t0" using ext_share[OF assms(2)] by blast
  then have "t0 = z" using assms(3) by (simp add: shares_def)
  then show xs: "xs_of h z = xs_of h0 z" using shares_rep(2)[OF assms(1,2) t0] by simp
  have "a < hp_next h0 \<and> nd_v (hp_nodes h0 a) < hp_next h0" if "a \<in> set (xs_of h0 z)" for a
    using heap_inv_rep[OF assms(1), of z] that by (simp add: ht_rep_def)
  then show "ht_view h z = ht_view h0 z"
    using assms(2) ext_cell_view[OF assms(1,2)]
    by (auto simp: ht_view_def xs heap_grows_def)
qed

end
