(* ===== verification/HashCopy.thy ===== *)
theory HashCopy
  imports HashInv
begin

text \<open>
  Copies: \<open>Dup\<close> shares, \<open>doCopy\<close> separates. After \<open>doCopy\<close> a table shows what it showed before, has
  nodes and maps of its own, and no other table has changed.
\<close>

section \<open>Allocation is an extension\<close>

lemma grows_I:
  assumes "hp_next h0 \<le> hp_next h" "hp_mem h = hp_mem h0"
    and "\<And>a. a < hp_next h0 \<Longrightarrow> hp_nodes h a = hp_nodes h0 a \<and> hp_zvals h a = hp_zvals h0 a
          \<and> hp_maps_s h a = hp_maps_s h0 a \<and> hp_maps_i h a = hp_maps_i h0 a"
    and "\<And>t. shares h0 h t t"
    and "\<And>a. \<lbrakk>\<forall>a. val_bound (hp_next h0) (zv_v (hp_zvals h0 a))\<rbrakk> \<Longrightarrow>
          val_bound (hp_next h) (zv_v (hp_zvals h a))"
  shows "heap_grows h0 h"
  unfolding heap_grows_def using assms by blast

lemma val_bound_mono: "val_bound n v \<Longrightarrow> n \<le> m \<Longrightarrow> val_bound m v"
  by (cases v) (auto simp: val_bound_def)

lemma new_zval_simps [simp]:
  "fst (new_zval z h) = hp_next h" "hp_next (snd (new_zval z h)) = Suc (hp_next h)"
  "hp_zvals (snd (new_zval z h)) = (hp_zvals h)(hp_next h := z)"
  "hp_nodes (snd (new_zval z h)) = hp_nodes h" "hp_tabs (snd (new_zval z h)) = hp_tabs h"
  "hp_maps_s (snd (new_zval z h)) = hp_maps_s h" "hp_maps_i (snd (new_zval z h)) = hp_maps_i h"
  "hp_mem (snd (new_zval z h)) = hp_mem h"
  by (simp_all add: new_zval_def)

lemma new_node_simps [simp]:
  "fst (new_node n h) = hp_next h" "hp_next (snd (new_node n h)) = Suc (hp_next h)"
  "hp_nodes (snd (new_node n h)) = (hp_nodes h)(hp_next h := n)"
  "hp_zvals (snd (new_node n h)) = hp_zvals h" "hp_tabs (snd (new_node n h)) = hp_tabs h"
  "hp_maps_s (snd (new_node n h)) = hp_maps_s h" "hp_maps_i (snd (new_node n h)) = hp_maps_i h"
  "hp_mem (snd (new_node n h)) = hp_mem h"
  by (simp_all add: new_node_def)

lemma upd_simps [simp]:
  "hp_nodes (upd_node a f h) = (hp_nodes h)(a := f (hp_nodes h a))"
  "hp_zvals (upd_node a f h) = hp_zvals h" "hp_tabs (upd_node a f h) = hp_tabs h"
  "hp_maps_s (upd_node a f h) = hp_maps_s h" "hp_maps_i (upd_node a f h) = hp_maps_i h"
  "hp_mem (upd_node a f h) = hp_mem h" "hp_next (upd_node a f h) = hp_next h"
  "hp_tabs (upd_tab t g h) = (hp_tabs h)(t := g (hp_tabs h t))"
  "hp_nodes (upd_tab t g h) = hp_nodes h" "hp_zvals (upd_tab t g h) = hp_zvals h"
  "hp_maps_s (upd_tab t g h) = hp_maps_s h" "hp_maps_i (upd_tab t g h) = hp_maps_i h"
  "hp_mem (upd_tab t g h) = hp_mem h" "hp_next (upd_tab t g h) = hp_next h"
  "hp_zvals (upd_zval a k h) = (hp_zvals h)(a := k (hp_zvals h a))"
  "hp_nodes (upd_zval a k h) = hp_nodes h" "hp_tabs (upd_zval a k h) = hp_tabs h"
  "hp_maps_s (upd_zval a k h) = hp_maps_s h" "hp_maps_i (upd_zval a k h) = hp_maps_i h"
  "hp_mem (upd_zval a k h) = hp_mem h" "hp_next (upd_zval a k h) = hp_next h"
  by (simp_all add: upd_node_def upd_tab_def upd_zval_def)

lemma upd_map_simps [simp]:
  "hp_maps_s (upd_map_s m f h) = (hp_maps_s h)(m := f (hp_maps_s h m))"
  "hp_nodes (upd_map_s m f h) = hp_nodes h" "hp_zvals (upd_map_s m f h) = hp_zvals h"
  "hp_tabs (upd_map_s m f h) = hp_tabs h" "hp_maps_i (upd_map_s m f h) = hp_maps_i h"
  "hp_mem (upd_map_s m f h) = hp_mem h" "hp_next (upd_map_s m f h) = hp_next h"
  "hp_maps_i (upd_map_i m g h) = (hp_maps_i h)(m := g (hp_maps_i h m))"
  "hp_nodes (upd_map_i m g h) = hp_nodes h" "hp_zvals (upd_map_i m g h) = hp_zvals h"
  "hp_tabs (upd_map_i m g h) = hp_tabs h" "hp_maps_s (upd_map_i m g h) = hp_maps_s h"
  "hp_mem (upd_map_i m g h) = hp_mem h" "hp_next (upd_map_i m g h) = hp_next h"
  by (simp_all add: upd_map_s_def upd_map_i_def)

lemma new_map_simps [simp]:
  "fst (new_map_s h) = hp_next h" "fst (new_map_i h) = hp_next h"
  "hp_next (snd (new_map_s h)) = Suc (hp_next h)" "hp_next (snd (new_map_i h)) = Suc (hp_next h)"
  "hp_nodes (snd (new_map_s h)) = hp_nodes h" "hp_nodes (snd (new_map_i h)) = hp_nodes h"
  "hp_zvals (snd (new_map_s h)) = hp_zvals h" "hp_zvals (snd (new_map_i h)) = hp_zvals h"
  "hp_tabs (snd (new_map_s h)) = hp_tabs h" "hp_tabs (snd (new_map_i h)) = hp_tabs h"
  "hp_mem (snd (new_map_s h)) = hp_mem h" "hp_mem (snd (new_map_i h)) = hp_mem h"
  "hp_maps_s (snd (new_map_s h)) = (hp_maps_s h)(hp_next h := [])"
  "hp_maps_i (snd (new_map_s h)) = hp_maps_i h" "hp_maps_s (snd (new_map_i h)) = hp_maps_s h"
  "hp_maps_i (snd (new_map_i h)) = (hp_maps_i h)(hp_next h := [])"
  by (simp_all add: new_map_s_def new_map_i_def)

lemma set_cur_simps [simp]:
  "hp_nodes (set_cur z c h) = hp_nodes h" "hp_zvals (set_cur z c h) = hp_zvals h"
  "hp_maps_s (set_cur z c h) = hp_maps_s h" "hp_maps_i (set_cur z c h) = hp_maps_i h"
  "hp_mem (set_cur z c h) = hp_mem h" "hp_next (set_cur z c h) = hp_next h"
  by (simp_all add: set_cur_def)

lemma same_tab_shares: "hp_tabs h = hp_tabs h0 \<Longrightarrow> shares h0 h t t"
  by (simp add: shares_def same_ctl_def)

lemma ext_new_zval: "val_bound (hp_next h) (zv_v z) \<Longrightarrow> heap_grows h (snd (new_zval z h))"
  by (rule grows_I) (auto simp: same_tab_shares intro: val_bound_mono)

lemma ext_new_node: "heap_grows h (snd (new_node n h))"
  by (rule grows_I) (auto simp: same_tab_shares intro: val_bound_mono)

lemma ext_new_map: "heap_grows h (snd (new_map_s h))" "heap_grows h (snd (new_map_i h))"
  by (rule grows_I; auto simp: same_tab_shares intro: val_bound_mono)+

lemma ext_set_cur: "heap_grows h (set_cur z c h)"
  by (rule grows_I) (auto simp: set_cur_def shares_def same_data_def same_ctl_def)

text \<open>Cells that did not exist in \<open>h0\<close> may be written.\<close>

lemma ext_fresh_node: "heap_grows h0 h \<Longrightarrow> hp_next h0 \<le> a \<Longrightarrow> heap_grows h0 (upd_node a f h)"
  by (simp add: heap_grows_def shares_def)

lemma ext_fresh_map:
  "heap_grows h0 h \<Longrightarrow> hp_next h0 \<le> m \<Longrightarrow> heap_grows h0 (upd_map_s m f h)"
  "heap_grows h0 h \<Longrightarrow> hp_next h0 \<le> m \<Longrightarrow> heap_grows h0 (upd_map_i m g h)"
  by (simp_all add: heap_grows_def shares_def)

lemma ext_index_node:
  "heap_grows h0 h \<Longrightarrow> hp_next h0 \<le> ms \<Longrightarrow> hp_next h0 \<le> mi \<Longrightarrow> heap_grows h0 (index_node ms mi k a h)"
  by (cases k) (simp_all add: index_node_def ext_fresh_map)

section \<open>Dup\<close>

lemma dup_simps:
  "fst (ht_Dup z h) = hp_next h" "hp_next (snd (ht_Dup z h)) = Suc (hp_next h)"
  "hp_nodes (snd (ht_Dup z h)) = hp_nodes h" "hp_zvals (snd (ht_Dup z h)) = hp_zvals h"
  "hp_maps_s (snd (ht_Dup z h)) = hp_maps_s h" "hp_maps_i (snd (ht_Dup z h)) = hp_maps_i h"
  "hp_mem (snd (ht_Dup z h)) = hp_mem h"
  by (simp_all add: ht_Dup_def new_table_def Let_def)

lemma dup_tabs:
  assumes "z < hp_next h"
  shows "same_data (hp_tabs (snd (ht_Dup z h)) (hp_next h)) (hp_tabs h z)"
    "ht_cow (hp_tabs (snd (ht_Dup z h)) (hp_next h))" "ht_cow (hp_tabs (snd (ht_Dup z h)) z)"
    "t \<noteq> hp_next h \<Longrightarrow> t \<noteq> z \<Longrightarrow> hp_tabs (snd (ht_Dup z h)) t = hp_tabs h t"
    "same_data (hp_tabs (snd (ht_Dup z h)) z) (hp_tabs h z)"
    "same_ctl (hp_tabs (snd (ht_Dup z h)) z) (hp_tabs h z)"
  using assms by (simp_all add: ht_Dup_def new_table_def Let_def same_data_def same_ctl_def)

lemma ext_Dup:
  assumes "z < hp_next h"
  shows "heap_grows h (snd (ht_Dup z h))"
proof -
  note d = dup_tabs[OF assms]
  have "\<exists>t0. shares h (snd (ht_Dup z h)) t t0" for t
  proof (cases "t = hp_next h")
    case True
    then have "shares h (snd (ht_Dup z h)) t z" using d by (simp add: shares_def)
    then show ?thesis by blast
  next
    case False
    then have "shares h (snd (ht_Dup z h)) t t"
      using d by (cases "t = z") (simp_all add: shares_def same_ctl_def)
    then show ?thesis by blast
  qed
  then show ?thesis
    unfolding heap_grows_def by (auto simp: dup_simps intro: val_bound_mono)
qed

text \<open>The copy shows what the original shows, and both are marked.\<close>

lemma dup_view:
  assumes "heap_inv h" "z < hp_next h"
  shows "ht_view (snd (ht_Dup z h)) (hp_next h) = ht_view h z"
    "ht_view (snd (ht_Dup z h)) z = ht_view h z" "heap_inv (snd (ht_Dup z h))"
proof -
  let ?h = "snd (ht_Dup z h)"
  note e = ext_Dup[OF assms(2)]
  show inv: "heap_inv ?h" by (rule heap_inv_grows[OF assms(1) e])
  show v: "ht_view ?h z = ht_view h z" by (rule ext_view(1)[OF assms(1) e assms(2)])
  have "xs_of ?h (hp_next h) = xs_of ?h z"
    using dup_tabs(1,5)[OF assms(2)] by (simp add: xs_of_def ht_nodes_def same_data_def)
  then have "ht_view ?h (hp_next h) = ht_view ?h z" by (simp add: ht_view_def)
  then show "ht_view ?h (hp_next h) = ht_view h z" using v by simp
qed

section \<open>Copies of cells\<close>

lemma value_nonref: "\<not> zv_IsRef h z \<Longrightarrow> zv_Value h z = Some (zv_v (hp_zvals h z))"
  by (subst zv_Value.simps) (auto simp: zv_IsRef_def)

text \<open>The arrays a copied cell holds are new tables.\<close>

definition new_arrays :: "heap \<Rightarrow> heap \<Rightarrow> addr \<Rightarrow> bool" where
  "new_arrays h0 h a = (\<forall>t. zv_v (hp_zvals h a) = VArray t \<longrightarrow> hp_next h0 \<le> t)"

lemma wrap_copy_spec:
  assumes "val_bound (hp_next h) v"
  shows "heap_grows h (snd (wrap_copy v nm h))" "fst (wrap_copy v nm h) < hp_next (snd (wrap_copy v nm h))"
    "hp_next h \<le> fst (wrap_copy v nm h)"
    "cell_view (snd (wrap_copy v nm h)) (fst (wrap_copy v nm h)) = val_view h v"
    "hp_nodes (snd (wrap_copy v nm h)) = hp_nodes h"
    "hp_maps_s (snd (wrap_copy v nm h)) = hp_maps_s h" "hp_maps_i (snd (wrap_copy v nm h)) = hp_maps_i h"
    "new_arrays h (snd (wrap_copy v nm h)) (fst (wrap_copy v nm h))"
proof -
  have "heap_grows h (snd (wrap_copy v nm h)) \<and> fst (wrap_copy v nm h) < hp_next (snd (wrap_copy v nm h))
    \<and> hp_next h \<le> fst (wrap_copy v nm h)
    \<and> cell_view (snd (wrap_copy v nm h)) (fst (wrap_copy v nm h)) = val_view h v
    \<and> hp_nodes (snd (wrap_copy v nm h)) = hp_nodes h
    \<and> hp_maps_s (snd (wrap_copy v nm h)) = hp_maps_s h
    \<and> hp_maps_i (snd (wrap_copy v nm h)) = hp_maps_i h
    \<and> new_arrays h (snd (wrap_copy v nm h)) (fst (wrap_copy v nm h))"
  proof (cases "\<exists>t. v = VArray t")
    case True
    then obtain t where v: "v = VArray t" by blast
    then have t: "t < hp_next h" using assms by (simp add: val_bound_def)
    let ?h = "snd (ht_Dup t h)"
    have "heap_grows ?h (snd (new_zval ((plain_zval (VArray (hp_next h)))\<lparr>zv_Name := nm\<rparr>) ?h))"
      by (rule ext_new_zval) (simp add: plain_zval_def val_bound_def dup_simps)
    then show ?thesis
      using grows_trans[OF ext_Dup[OF t]] dup_tabs(1)[OF t]
      by (simp add: v wrap_copy_def case_prod_unfold dup_simps cell_view_def val_view_def
          plain_zval_def same_data_def new_arrays_def)
  next
    case False
    then have w: "wrap_copy v nm h = new_zval ((plain_zval v)\<lparr>zv_Name := nm\<rparr>) h"
      by (auto simp: wrap_copy_def split: val.splits)
    have "val_view (snd (new_zval ((plain_zval v)\<lparr>zv_Name := nm\<rparr>) h)) v = val_view h v"
      by (simp add: val_view_def split: val.splits)
    then show ?thesis
      using ext_new_zval[of h "(plain_zval v)\<lparr>zv_Name := nm\<rparr>"] assms
        False
      by (simp add: w cell_view_def plain_zval_def new_arrays_def)
  qed
  then show "heap_grows h (snd (wrap_copy v nm h))"
    "fst (wrap_copy v nm h) < hp_next (snd (wrap_copy v nm h))"
    "hp_next h \<le> fst (wrap_copy v nm h)"
    "cell_view (snd (wrap_copy v nm h)) (fst (wrap_copy v nm h)) = val_view h v"
    "hp_nodes (snd (wrap_copy v nm h)) = hp_nodes h"
    "hp_maps_s (snd (wrap_copy v nm h)) = hp_maps_s h" "hp_maps_i (snd (wrap_copy v nm h)) = hp_maps_i h"
    "new_arrays h (snd (wrap_copy v nm h)) (fst (wrap_copy v nm h))"
    by blast+
qed

text \<open>The cell a copied node gets: the same one for a reference, otherwise a new one with the same
  content.\<close>

definition copy_cell :: "addr \<Rightarrow> heap \<Rightarrow> (addr \<times> heap) option" where
  "copy_cell v h = (if zv_IsRef h v then Some (v, h) else zv_ZVal v h)"

lemma copy_cell_spec:
  assumes "heap_inv h" "v < hp_next h"
  obtains v' h' where "copy_cell v h = Some (v', h')" "heap_grows h h'" "v' < hp_next h'"
    "cell_view h' v' = cell_view h v" "hp_nodes h' = hp_nodes h"
    "hp_maps_s h' = hp_maps_s h" "hp_maps_i h' = hp_maps_i h" "new_arrays h h' v'"
proof (cases "zv_IsRef h v")
  case True
  then have "new_arrays h h v" by (auto simp: new_arrays_def zv_IsRef_def)
  then show ?thesis
    using that[of v h] assms(2) True by (simp add: copy_cell_def grows_refl)
next
  case False
  define w where "w = zv_v (hp_zvals h v)"
  have b: "val_bound (hp_next h) w" using assms(1) by (simp add: heap_inv_def w_def)
  show ?thesis
  proof (cases "w = VNull")
    case True
    then have "copy_cell v h = Some (NewZVal VNull h)"
      using False by (simp add: copy_cell_def zv_ZVal_def value_nonref w_def)
    moreover have "heap_grows h (snd (NewZVal VNull h))"
      unfolding NewZVal_def by (rule ext_new_zval) (simp add: plain_zval_def val_bound_def)
    moreover have "cell_view (snd (NewZVal VNull h)) (fst (NewZVal VNull h)) = cell_view h v"
      "fst (NewZVal VNull h) < hp_next (snd (NewZVal VNull h))"
      "new_arrays h (snd (NewZVal VNull h)) (fst (NewZVal VNull h))"
      using True
      by (simp_all add: NewZVal_def cell_view_def plain_zval_def val_view_def w_def new_arrays_def)
    ultimately show ?thesis
      by (intro that[of "fst (NewZVal VNull h)" "snd (NewZVal VNull h)"])
         (simp_all add: NewZVal_def prod_eq_iff)
  next
    case nn: False
    let ?r = "wrap_copy w (zv_Name (hp_zvals h v)) h"
    have "copy_cell v h = Some ?r"
      using False nn by (simp add: copy_cell_def zv_ZVal_def value_nonref w_def)
    then show ?thesis
      using that[of "fst ?r" "snd ?r"] wrap_copy_spec[OF b]
      by (simp add: cell_view_def w_def)
  qed
qed

section \<open>doCopy\<close>

definition entry :: "heap \<Rightarrow> addr \<Rightarrow> key \<times> val" where
  "entry h a = (nd_k (hp_nodes h a), cell_view h (nd_v (hp_nodes h a)))"

lemma view_entries: "ht_view h z = map (entry h) (xs_of h z)"
  by (simp add: ht_view_def entry_def[abs_def])

lemma entry_grows:
  assumes "heap_inv h0" "heap_grows h0 h" "a < hp_next h0" "nd_v (hp_nodes h0 a) < hp_next h0"
  shows "entry h a = entry h0 a"
  using ext_cell_view[OF assms(1,2,4)] assms(2,3) by (simp add: entry_def heap_grows_def)

text \<open>The state of the copying loop after the nodes \<open>done\<close>: the new nodes \<open>ys\<close> show the same
  entries, are linked, and are indexed in the new maps.\<close>

definition copying :: "heap \<Rightarrow> addr \<Rightarrow> addr \<Rightarrow> addr list \<Rightarrow> addr list \<Rightarrow> addr option \<Rightarrow> addr option \<Rightarrow> heap \<Rightarrow> bool" where
  "copying h0 ms mi done ys nc first h =
     (heap_grows h0 h
      \<and> hp_next h0 \<le> ms \<and> ms < hp_next h \<and> hp_next h0 \<le> mi \<and> mi < hp_next h
      \<and> dseg (hp_nodes h) None first ys None nc \<and> distinct ys
      \<and> (\<forall>y \<in> set ys. hp_next h0 \<le> y \<and> y < hp_next h \<and> nd_v (hp_nodes h y) < hp_next h
            \<and> new_arrays h0 h (nd_v (hp_nodes h y)))
      \<and> map (entry h) ys = map (entry h0) done
      \<and> (\<forall>k a. map_of (hp_maps_i h mi) k = Some a \<longleftrightarrow> a \<in> set ys \<and> nd_k (hp_nodes h a) = KInt k)
      \<and> (\<forall>k a. map_of (hp_maps_s h ms) k = Some a \<longleftrightarrow> a \<in> set ys \<and> nd_k (hp_nodes h a) = KStr k))"

lemma index_node_simps [simp]:
  "hp_nodes (index_node ms mi k a h) = hp_nodes h" "hp_zvals (index_node ms mi k a h) = hp_zvals h"
  "hp_tabs (index_node ms mi k a h) = hp_tabs h" "hp_next (index_node ms mi k a h) = hp_next h"
  "hp_mem (index_node ms mi k a h) = hp_mem h"
  by (simp_all add: index_node_def split: key.splits)

lemma index_node_maps:
  "map_of (hp_maps_i (index_node ms mi k a h) mi) =
     (case k of KInt i \<Rightarrow> (map_of (hp_maps_i h mi))(i \<mapsto> a) | KStr _ \<Rightarrow> map_of (hp_maps_i h mi))"
  "map_of (hp_maps_s (index_node ms mi k a h) ms) =
     (case k of KStr i \<Rightarrow> (map_of (hp_maps_s h ms))(i \<mapsto> a) | KInt _ \<Rightarrow> map_of (hp_maps_s h ms))"
  by (simp_all add: index_node_def split: key.splits)

text \<open>One round of the loop, after the cell \<open>v\<close> of the new node is there.\<close>

definition add_copy :: "addr \<Rightarrow> addr \<Rightarrow> addr \<Rightarrow> key \<Rightarrow> addr \<Rightarrow> addr \<Rightarrow> addr option \<Rightarrow> addr option \<Rightarrow> heap
    \<Rightarrow> addr option \<times> addr option \<times> heap" where
  "add_copy z ms mi k v c nc first h =
     (let (a, h) = new_node \<lparr>nd_prev = nc, nd_next = None, nd_k = k, nd_v = v, nd_deleted = False\<rparr> h;
          h = (if ht_cur h z = Some c then set_cur z (Some a) h else h);
          h = (case (first, nc) of
                 (Some _, Some p) \<Rightarrow> upd_node p (\<lambda>m. m\<lparr>nd_next := Some a\<rparr>) h
               | _ \<Rightarrow> h);
          first = (if first = None then Some a else first);
          h = index_node ms mi k a h in
      (Some a, first, h))"

lemma copy_nodes_live:
  assumes "\<not> nd_deleted (hp_nodes h c)"
  shows "copy_nodes z ms mi (c # cs) nc first h =
    (case copy_cell (nd_v (hp_nodes h c)) h of
       None \<Rightarrow> None
     | Some (v, h1) \<Rightarrow>
        (case add_copy z ms mi (nd_k (hp_nodes h c)) v c nc first h1 of
           (nc, first, h) \<Rightarrow> copy_nodes z ms mi cs nc first h))"
  using assms
  by (simp add: copy_cell_def add_copy_def Let_def case_prod_unfold split: option.splits)

lemma add_copy_spec:
  assumes cp: "copying h0 ms mi done ys nc first h"
    and v: "v < hp_next h" "new_arrays h0 h v" and e: "(k, cell_view h v) = entry h0 c" and inv: "heap_inv h0"
    and fresh_key: "k \<notin> fst ` set (map (entry h0) done)"
  shows "copying h0 ms mi (done @ [c]) (ys @ [hp_next h])
     (fst (add_copy z ms mi k v c' nc first h)) (fst (snd (add_copy z ms mi k v c' nc first h)))
     (snd (snd (add_copy z ms mi k v c' nc first h)))"
proof -
  note cp' = cp[unfolded copying_def]
  let ?a = "hp_next h"
  let ?n = "\<lparr>nd_prev = nc, nd_next = None, nd_k = k, nd_v = v, nd_deleted = False\<rparr>"
  define h1 where "h1 = snd (new_node ?n h)"
  define h2 where "h2 = (if ht_cur h1 z = Some c' then set_cur z (Some ?a) h1 else h1)"
  define h3 where "h3 = (case (first, nc) of
      (Some _, Some p) \<Rightarrow> upd_node p (\<lambda>m. m\<lparr>nd_next := Some ?a\<rparr>) h2 | _ \<Rightarrow> h2)"
  define h4 where "h4 = index_node ms mi k ?a h3"
  have r: "add_copy z ms mi k v c' nc first h = (Some ?a, if first = None then Some ?a else first, h4)"
  proof -
    have "new_node ?n h = (?a, h1)" by (simp add: h1_def prod_eq_iff)
    then show ?thesis unfolding h4_def h3_def h2_def by (simp add: add_copy_def Let_def)
  qed
  have nc: "nc = (if ys = [] then None else Some (last ys))" using cp' dseg_last by blast
  have fs: "first = (if ys = [] then None else Some (hd ys))" using cp' dseg_first by blast
  have ys_lt: "y \<in> set ys \<Longrightarrow> y < ?a" for y using cp' by blast
  have grow0: "hp_next h0 \<le> ?a" using cp' by (simp add: heap_grows_def)
  have g2: "heap_grows h h2"
    using ext_new_node[of h ?n] grows_trans[OF ext_new_node ext_set_cur] by (simp add: h2_def h1_def)
  have g02: "heap_grows h0 h2" using cp' grows_trans[OF _ g2] by blast
  have g03: "heap_grows h0 h3"
    using g02 cp' fs nc by (auto simp: h3_def intro!: ext_fresh_node split: option.splits)
  have g04: "heap_grows h0 h4" using g03 cp' by (simp add: h4_def ext_index_node)
  have n2: "hp_nodes h2 = (hp_nodes h)(?a := ?n)" "hp_next h2 = Suc ?a"
    "hp_zvals h2 = hp_zvals h" by (simp_all add: h2_def h1_def)
  have m2: "hp_maps_i h2 = hp_maps_i h" "hp_maps_s h2 = hp_maps_s h" by (simp_all add: h2_def h1_def)
  have m3: "hp_maps_i h3 = hp_maps_i h" "hp_maps_s h3 = hp_maps_s h" "hp_next h3 = Suc ?a"
    using m2 n2 by (simp_all add: h3_def split: option.splits)
  have tabs: "hp_tabs h4 = hp_tabs h2" and zv: "hp_zvals h4 = hp_zvals h"
    using n2 by (simp_all add: h4_def h3_def split: option.splits)
  have nodes: "hp_nodes h4 b =
      (if b = ?a then ?n
       else if ys \<noteq> [] \<and> b = last ys then (hp_nodes h b)\<lparr>nd_next := Some ?a\<rparr> else hp_nodes h b)" for b
  proof (cases "ys = []")
    case True
    then show ?thesis using n2 fs nc by (simp add: h4_def h3_def)
  next
    case False
    then have "last ys < ?a" using ys_lt by simp
    then show ?thesis using n2 fs nc False by (auto simp: h4_def h3_def)
  qed
  have nk: "nd_k (hp_nodes h4 b) = nd_k (hp_nodes h b)" "nd_v (hp_nodes h4 b) = nd_v (hp_nodes h b)"
    if "b \<in> set ys" for b
    using nodes[of b] ys_lt[OF that] by auto
  have na: "hp_nodes h4 ?a = ?n" using nodes[of ?a] by simp
  have invh: "heap_inv h" using cp' heap_inv_grows[OF inv] by blast
  have cv: "cell_view h4 b = cell_view h b" if "b < ?a" for b
  proof -
    have "cell_view h2 b = cell_view h b" by (rule ext_cell_view[OF invh g2 that])
    then show ?thesis using tabs zv n2 by (simp add: cell_view_def val_view_def split: val.splits)
  qed
  have ents: "map (entry h4) (ys @ [?a]) = map (entry h0) (done @ [c])"
  proof -
    have "entry h4 y = entry h y" if "y \<in> set ys" for y
      using nk[OF that] cv[of "nd_v (hp_nodes h y)"] cp' that by (simp add: entry_def)
    then have "map (entry h4) ys = map (entry h) ys" by (rule map_cong[OF refl])
    then have "map (entry h4) ys = map (entry h0) done" using cp' by metis
    moreover have "entry h4 ?a = entry h0 c" using na cv[OF v(1)] e by (simp add: entry_def)
    ultimately show ?thesis by simp
  qed
  have seg: "dseg (hp_nodes h4) None (if first = None then Some ?a else first) (ys @ [?a]) None (Some ?a)"
  proof -
    have "dseg (hp_nodes h4) None (if ys = [] then Some ?a else first) (ys @ [?a]) None (Some ?a)"
    proof (rule dseg_snoc)
      show "dseg (hp_nodes h) None first ys None nc" using cp' by blast
      show "?a \<notin> set ys" using ys_lt by blast
      show "distinct ys" using cp' by blast
      fix b assume b: "b \<in> set ys"
      show "nd_prev (hp_nodes h4 b) = nd_prev (hp_nodes h b)
          \<and> nd_deleted (hp_nodes h4 b) = nd_deleted (hp_nodes h b)
          \<and> nd_next (hp_nodes h4 b) = (if Some b = nc then Some ?a else nd_next (hp_nodes h b))"
        using nodes[of b] ys_lt[OF b] nc b by auto
    qed (simp_all add: na)
    then show ?thesis using fs by (cases "ys = []") simp_all
  qed
  have keys_done: "nd_k (hp_nodes h y) \<noteq> k" if "y \<in> set ys" for y
  proof
    assume "nd_k (hp_nodes h y) = k"
    then have "k \<in> fst ` set (map (entry h) ys)" using that by (force simp: entry_def)
    then show False using fresh_key cp' by simp
  qed
  have mi4: "map_of (hp_maps_i h4 mi) i = Some b \<longleftrightarrow> b \<in> set (ys @ [?a]) \<and> nd_k (hp_nodes h4 b) = KInt i" for i b
    using cp' nk na keys_done ys_lt
    by (auto simp: h4_def index_node_maps(1) m3 split: key.splits)
  have ms4: "map_of (hp_maps_s h4 ms) i = Some b \<longleftrightarrow> b \<in> set (ys @ [?a]) \<and> nd_k (hp_nodes h4 b) = KStr i" for i b
    using cp' nk na keys_done ys_lt
    by (auto simp: h4_def index_node_maps(2) m3 split: key.splits)
  have next4: "hp_next h4 = Suc ?a" by (simp add: h4_def m3)
  have each: "hp_next h0 \<le> y \<and> y < hp_next h4 \<and> nd_v (hp_nodes h4 y) < hp_next h4
      \<and> new_arrays h0 h4 (nd_v (hp_nodes h4 y))" if "y \<in> set (ys @ [?a])" for y
  proof (cases "y = ?a")
    case True
    then show ?thesis using na v grow0 zv by (simp add: next4 new_arrays_def)
  next
    case False
    then have y: "y \<in> set ys" using that by simp
    then show ?thesis using nk[OF y] cp' zv by (auto simp: next4 new_arrays_def)
  qed
  have "distinct (ys @ [?a])" using cp' ys_lt by auto
  moreover have "ms < hp_next h4" "mi < hp_next h4" "hp_next h0 \<le> ms" "hp_next h0 \<le> mi"
    using cp' by (simp_all add: next4)
  ultimately show ?thesis
    unfolding r copying_def fst_conv snd_conv using g04 seg ents mi4 ms4 each by blast
qed

text \<open>The whole loop.\<close>

lemma copy_nodes_spec:
  assumes "heap_inv h0" "ht_rep h0 z xs" "xs = done @ cs" "copying h0 ms mi done ys nc first h"
  obtains ys' nc' first' h' where
    "copy_nodes z ms mi cs nc first h = Some (nc', first', h')"
    "copying h0 ms mi xs ys' nc' first' h'"
  using assms
proof (induction cs arbitrary: "done" ys nc first h thesis)
  case Nil
  then show ?case by simp
next
  case (Cons c cs)
  note cp = Cons.prems(5)
  note r = Cons.prems(3)[unfolded ht_rep_def]
  have c: "c \<in> set xs" "c < hp_next h0" "nd_v (hp_nodes h0 c) < hp_next h0" "\<not> nd_deleted (hp_nodes h0 c)"
    using Cons.prems(4) r dseg_live by auto
  have g: "heap_grows h0 h" using cp by (simp add: copying_def)
  have same: "hp_nodes h c = hp_nodes h0 c" using g c(2) by (simp add: heap_grows_def)
  have next0: "hp_next h0 \<le> hp_next h" using g by (simp add: heap_grows_def)
  have invh: "heap_inv h" by (rule heap_inv_grows[OF Cons.prems(2) g])
  have "nd_v (hp_nodes h c) < hp_next h" using c(3) same next0 by simp
  from copy_cell_spec[OF invh this] obtain v h1 where
    v: "copy_cell (nd_v (hp_nodes h c)) h = Some (v, h1)" "heap_grows h h1" "v < hp_next h1"
      "cell_view h1 v = cell_view h (nd_v (hp_nodes h c))" "hp_nodes h1 = hp_nodes h"
      "hp_maps_s h1 = hp_maps_s h" "hp_maps_i h1 = hp_maps_i h" "new_arrays h h1 v"
    by blast
  have next1: "hp_next h \<le> hp_next h1" using v(2) by (simp add: heap_grows_def)
  have "entry h1 y = entry h y" if "y \<in> set ys" for y
    using that cp entry_grows[OF invh v(2)] by (auto simp: copying_def)
  then have "map (entry h1) ys = map (entry h) ys" by (rule map_cong[OF refl])
  then have "map (entry h1) ys = map (entry h0) done" using cp unfolding copying_def by metis
  moreover have "new_arrays h0 h1 (nd_v (hp_nodes h y))" if "y \<in> set ys" for y
    using that cp v(2) by (auto simp: copying_def new_arrays_def heap_grows_def)
  ultimately have cp1: "copying h0 ms mi done ys nc first h1"
    using cp next1 grows_trans[OF g v(2)] unfolding copying_def v(5-7)
    by (auto intro: less_le_trans)
  have v0: "new_arrays h0 h1 v" using v(8) next0 by (auto simp: new_arrays_def intro: order_trans)
  have e: "(nd_k (hp_nodes h0 c), cell_view h1 v) = entry h0 c"
    using v(4) same ext_cell_view[OF Cons.prems(2) g c(3)] by (simp add: entry_def)
  have "nd_k (hp_nodes h0 c) \<notin> fst ` set (map (entry h0) done)"
  proof
    assume "nd_k (hp_nodes h0 c) \<in> fst ` set (map (entry h0) done)"
    then obtain d where d: "d \<in> set done" "nd_k (hp_nodes h0 d) = nd_k (hp_nodes h0 c)"
      by (auto simp: entry_def)
    then have "d = c" using rep_key_inj[OF Cons.prems(3)] Cons.prems(4) by auto
    then show False using d(1) Cons.prems(4) r by auto
  qed
  note step = add_copy_spec[OF cp1 v(3) v0 e Cons.prems(2) this, of z c]
  obtain nc1 first1 h2 where a: "add_copy z ms mi (nd_k (hp_nodes h0 c)) v c nc first h1 = (nc1, first1, h2)"
    using prod_cases3 by blast
  have "copying h0 ms mi (done @ [c]) (ys @ [hp_next h1]) nc1 first1 h2" using step a by simp
  moreover have "xs = (done @ [c]) @ cs" using Cons.prems(4) by simp
  ultimately obtain ys' nc' first' h' where
    "copy_nodes z ms mi cs nc1 first1 h2 = Some (nc', first', h')"
    "copying h0 ms mi xs ys' nc' first' h'"
    using Cons.IH[OF _ Cons.prems(2,3)] by metis
  moreover have "copy_nodes z ms mi (c # cs) nc first h = copy_nodes z ms mi cs nc1 first1 h2"
    using copy_nodes_live[of h c] c(4) same v(1) a by simp
  ultimately show ?case using Cons.prems(1) by simp
qed

text \<open>\<open>doCopy\<close>: it returns; afterwards the table is writable and shows what it showed; the other
  tables have the nodes, the values and the maps they had; the heap invariant holds.\<close>

definition others_same :: "heap \<Rightarrow> addr \<Rightarrow> heap \<Rightarrow> bool" where
  "others_same h z h' =
     (\<forall>z' < hp_next h. z' \<noteq> z \<longrightarrow> xs_of h' z' = xs_of h z'
        \<and> same_data (hp_tabs h' z') (hp_tabs h z') \<and> same_ctl (hp_tabs h' z') (hp_tabs h z')
        \<and> (\<forall>a \<in> set (xs_of h z'). hp_nodes h' a = hp_nodes h a))"

lemma tab_other:
  assumes "t \<noteq> z"
  shows "ht_rep (upd_tab z f h) t xs = ht_rep h t xs" "xs_of (upd_tab z f h) t = xs_of h t"
  using assms by (simp_all add: ht_rep_def xs_of_def ht_nodes_def idx_i_def idx_s_def)

lemma doCopy_spec:
  assumes inv: "heap_inv h" and z: "z < hp_next h"
  obtains h' where "ht_doCopy z h = Some h'" "heap_inv h'" "\<not> ht_cow (hp_tabs h' z)"
    "ht_view h' z = ht_view h z" "others_same h z h'" "hp_next h \<le> hp_next h'"
    "\<And>a. a < hp_next h \<Longrightarrow> hp_zvals h' a = hp_zvals h a" "hp_mem h' = hp_mem h"
    "same_ctl (hp_tabs h' z) (hp_tabs h z)"
proof -
  let ?ms = "hp_next h" and ?mi = "Suc (hp_next h)"
  define h1 where "h1 = snd (new_map_s h)"
  define h2 where "h2 = snd (new_map_i h1)"
  note r = heap_inv_rep[OF inv, of z]
  have "heap_grows h h2"
    unfolding h1_def h2_def by (rule grows_trans[OF ext_new_map(1) ext_new_map(2)])
  then have cp0: "copying h ?ms ?mi [] [] None None h2"
    by (simp add: copying_def h1_def h2_def)
  have "xs_of h z = [] @ xs_of h z" by simp
  from copy_nodes_spec[OF inv r this cp0] obtain ys nc first h3 where
    loop: "copy_nodes z ?ms ?mi (xs_of h z) None None h2 = Some (nc, first, h3)"
    and cp: "copying h ?ms ?mi (xs_of h z) ys nc first h3"
    by metis
  note cp' = cp[unfolded copying_def]
  have g: "heap_grows h h3" using cp' by blast
  have inv3: "heap_inv h3" by (rule heap_inv_grows[OF inv g])
  let ?f = "\<lambda>t. t\<lparr>ht_first := first, ht_last := nc, ht_idx_s := ?ms, ht_idx_i := ?mi, ht_cow := False\<rparr>"
  let ?h = "upd_tab z ?f h3"
  have res: "ht_doCopy z h = Some ?h"
    using loop rep_nodes[OF r]
    by (simp add: ht_doCopy_def Let_def case_prod_unfold h1_def[symmetric] h2_def[symmetric])
       (simp add: h1_def)
  have len: "length ys = length (xs_of h z)" using cp' by (metis length_map)
  have cnt: "ht_count (hp_tabs h3 z) = int (length ys)"
    using ext_tab[OF g z] r len by (simp add: same_data_def ht_rep_def)
  have repz: "ht_rep ?h z ys"
    using cp' cnt by (auto simp: ht_rep_def idx_i_def idx_s_def)
  have ent: "entry ?h y = entry h3 y" if "y \<in> set ys" for y
    using cp' that z
    by (auto simp: entry_def cell_view_def val_view_def new_arrays_def split: val.splits)
  have "map (entry ?h) ys = map (entry h3) ys" by (rule map_cong[OF refl ent])
  then have view: "ht_view ?h z = ht_view h z"
    unfolding view_entries rep_xs_of[OF repz] using cp' by metis
  have others: "others_same h z ?h"
    unfolding others_same_def
    using ext_view(2)[OF inv g] ext_tab[OF g] ext_ctl[OF g] tab_other(2) heap_inv_rep[OF inv] g
    by (auto simp: ht_rep_def heap_grows_def)
  have old: "set (xs_of h3 t) \<inter> set ys = {} \<and> ht_idx_s (hp_tabs h3 t) \<noteq> ?ms \<and> ht_idx_i (hp_tabs h3 t) \<noteq> ?mi"
    for t
  proof -
    obtain t0 where t0: "shares h h3 t t0" using ext_share[OF g] by blast
    note rep0 = heap_inv_rep[OF inv, of t0]
    have "xs_of h3 t = xs_of h t0" by (rule shares_rep(2)[OF inv g t0])
    then show ?thesis
      using t0 rep0 cp' by (fastforce simp: shares_def same_data_def ht_rep_def)
  qed
  have "excl ?h t t'" if "t \<noteq> t'" "\<not> ht_cow (hp_tabs ?h t)" for t t'
  proof -
    consider "t = z" | "t' = z" | "t \<noteq> z" "t' \<noteq> z" by blast
    then show ?thesis
    proof cases
      case 1
      then show ?thesis
        using that(1) old[of t'] rep_xs_of[OF repz] tab_other(2)[of t' z]
        by (auto simp: excl_def)
    next
      case 2
      then show ?thesis
        using that(1) old[of t] rep_xs_of[OF repz] tab_other(2)[of t z]
        by (auto simp: excl_def)
    next
      case 3
      have "excl h3 t t'"
        using inv3 that 3 unfolding heap_inv_def by simp
      then show ?thesis using 3 by (simp add: excl_def tab_other)
    qed
  qed
  moreover have "ht_rep ?h t (xs_of ?h t)" for t
    using repz rep_xs_of[OF repz] heap_inv_rep[OF inv3, of t] tab_other[of t z]
    by (cases "t = z") simp_all
  moreover have "\<forall>a. val_bound (hp_next ?h) (zv_v (hp_zvals ?h a))"
    using inv3 by (simp add: heap_inv_def)
  ultimately have "heap_inv ?h" unfolding heap_inv_def by blast
  then show ?thesis
    using that[OF res] view others g ext_ctl[OF g z] by (simp add: heap_grows_def same_ctl_def)
qed

end
