(* ===== verification/HashOps.thy ===== *)
theory HashOps
  imports HashCopy
begin

text \<open>
  What the writers of a hash table do to the list of entries it shows: replace in place, add at the
  end, remove, renumber. All of them separate a shared table first, return, keep the heap invariant
  and leave every other table alone.
\<close>

section \<open>Separation\<close>

definition separated :: "heap \<Rightarrow> addr \<Rightarrow> heap \<Rightarrow> bool" where
  "separated h z h' =
     (heap_inv h' \<and> \<not> ht_cow (hp_tabs h' z) \<and> ht_view h' z = ht_view h z \<and> others_same h z h'
      \<and> hp_next h \<le> hp_next h' \<and> (\<forall>a < hp_next h. hp_zvals h' a = hp_zvals h a)
      \<and> hp_mem h' = hp_mem h \<and> same_ctl (hp_tabs h' z) (hp_tabs h z))"

lemma same_refl [simp]: "same_ctl t t" "others_same h z h"
  by (simp_all add: same_ctl_def others_same_def)

lemma SeparateCow_spec:
  assumes "heap_inv h" "z < hp_next h"
  obtains h' where "ht_SeparateCow z h = Some h'" "separated h z h'"
proof (cases "ht_cow (hp_tabs h z)")
  case True
  from doCopy_spec[OF assms] obtain h' where "ht_doCopy z h = Some h'" "separated h z h'"
    unfolding separated_def by metis
  then show ?thesis using that True by (simp add: ht_SeparateCow_def)
next
  case False
  then show ?thesis using that[of h] assms(1) by (simp add: ht_SeparateCow_def separated_def)
qed

lemma sep_then_spec:
  assumes "heap_inv h" "z < hp_next h"
  obtains h' where "separated h z h'" "\<And>k. sep_then z h k = k h'"
  using SeparateCow_spec[OF assms] by (metis sep_then_def bind.bind_lunit)

section \<open>Writing to an unshared table\<close>

text \<open>A change confined to the nodes and maps of a table that shares nothing, and to new cells.\<close>

definition confined :: "heap \<Rightarrow> addr \<Rightarrow> heap \<Rightarrow> bool" where
  "confined h z h' =
     (hp_next h \<le> hp_next h'
      \<and> (\<forall>t. t \<noteq> z \<longrightarrow> hp_tabs h' t = hp_tabs h t)
      \<and> ht_idx_s (hp_tabs h' z) = ht_idx_s (hp_tabs h z)
      \<and> ht_idx_i (hp_tabs h' z) = ht_idx_i (hp_tabs h z)
      \<and> (\<forall>a < hp_next h. a \<notin> set (xs_of h z) \<longrightarrow> hp_nodes h' a = hp_nodes h a)
      \<and> (\<forall>m. m \<noteq> ht_idx_i (hp_tabs h z) \<longrightarrow> hp_maps_i h' m = hp_maps_i h m)
      \<and> (\<forall>m. m \<noteq> ht_idx_s (hp_tabs h z) \<longrightarrow> hp_maps_s h' m = hp_maps_s h m)
      \<and> (\<forall>a. val_bound (hp_next h') (zv_v (hp_zvals h' a))))"

lemma confined_inv:
  assumes inv: "heap_inv h" and nc: "\<not> ht_cow (hp_tabs h z)" and c: "confined h z h'"
    and rep: "ht_rep h' z ys" and ys: "set ys \<subseteq> set (xs_of h z) \<union> {hp_next h..}"
  shows "heap_inv h'" "others_same h z h'"
proof -
  note c' = c[unfolded confined_def]
  have other: "ht_rep h' t (xs_of h t)" "xs_of h' t = xs_of h t"
    "\<forall>a \<in> set (xs_of h t). hp_nodes h' a = hp_nodes h a" if t: "t \<noteq> z" for t
  proof -
    have ex: "excl h z t" using inv nc t unfolding heap_inv_def by metis
    note r = heap_inv_rep[OF inv, of t, unfolded ht_rep_def]
    have n: "hp_nodes h' a = hp_nodes h a" if "a \<in> set (xs_of h t)" for a
      using c' ex r that by (auto simp: excl_def)
    then show "\<forall>a \<in> set (xs_of h t). hp_nodes h' a = hp_nodes h a" by blast
    have tab: "hp_tabs h' t = hp_tabs h t" using c' t by blast
    have maps: "idx_i h' t = idx_i h t" "idx_s h' t = idx_s h t"
      using c' ex tab by (simp_all add: idx_i_def idx_s_def excl_def)
    have "dseg (hp_nodes h') None (ht_first (hp_tabs h t)) (xs_of h t) None (ht_last (hp_tabs h t))"
      by (subst dseg_cong[OF n]) (use r in simp_all)
    moreover have "\<forall>k a. map_of (idx_i h t) k = Some a \<longleftrightarrow> a \<in> set (xs_of h t) \<and> nd_k (hp_nodes h' a) = KInt k"
      "\<forall>k a. map_of (idx_s h t) k = Some a \<longleftrightarrow> a \<in> set (xs_of h t) \<and> nd_k (hp_nodes h' a) = KStr k"
      using r by (simp_all add: n cong: conj_cong)
    moreover have "\<forall>a \<in> set (xs_of h t). a < hp_next h' \<and> nd_v (hp_nodes h' a) < hp_next h'"
      "ht_idx_s (hp_tabs h t) < hp_next h'" "ht_idx_i (hp_tabs h t) < hp_next h'"
      using r n c' by (auto intro: less_le_trans)
    ultimately show rp: "ht_rep h' t (xs_of h t)"
      using r unfolding ht_rep_def tab maps by blast
    show "xs_of h' t = xs_of h t" by (rule rep_xs_of[OF rp])
  qed
  have zys: "xs_of h' z = ys" by (rule rep_xs_of[OF rep])
  have old: "a < hp_next h" if "a \<in> set (xs_of h t)" for a t
    using heap_inv_rep[OF inv, of t] that by (simp add: ht_rep_def)
  have ex': "excl h' z t" if t: "t \<noteq> z" for t
  proof -
    have "excl h z t" using inv nc t unfolding heap_inv_def by metis
    then show ?thesis
      using c' t ys old[of _ t] other(2)[OF t] zys by (fastforce simp: excl_def)
  qed
  have "excl h' t t'" if "t \<noteq> t'" "\<not> ht_cow (hp_tabs h' t)" for t t'
  proof (cases "t = z \<or> t' = z")
    case True
    then show ?thesis using ex'[of t] ex'[of t'] that(1) by (auto simp: excl_def)
  next
    case False
    then have "excl h t t'" using inv that c' unfolding heap_inv_def by metis
    then show ?thesis using False other c' by (simp add: excl_def)
  qed
  moreover have "ht_rep h' t (xs_of h' t)" for t
    using rep zys other by (cases "t = z") simp_all
  ultimately show "heap_inv h'"
    using c' unfolding heap_inv_def by blast
  show "others_same h z h'"
    using other c' by (simp add: others_same_def same_data_def)
qed

text \<open>The abstract operations on lists of entries.\<close>

definition kv_update :: "'k \<Rightarrow> 'v \<Rightarrow> ('k \<times> 'v) list \<Rightarrow> ('k \<times> 'v) list" where
  "kv_update k c kvs = map (\<lambda>e. if fst e = k then (k, c) else e) kvs"

definition kv_set :: "'k \<Rightarrow> 'v \<Rightarrow> ('k \<times> 'v) list \<Rightarrow> ('k \<times> 'v) list" where
  "kv_set k c kvs = (if k \<in> fst ` set kvs then kv_update k c kvs else kvs @ [(k, c)])"

definition kv_unset :: "'k \<Rightarrow> ('k \<times> 'v) list \<Rightarrow> ('k \<times> 'v) list" where
  "kv_unset k kvs = filter (\<lambda>e. fst e \<noteq> k) kvs"

lemma kv_update_map:
  "map_of (kv_update k c kvs) x = (if x = k then map_option (\<lambda>_. c) (map_of kvs k) else map_of kvs x)"
  by (induction kvs) (auto simp: kv_update_def)

lemma kv_set_map: "map_of (kv_set k c kvs) = (map_of kvs)(k \<mapsto> c)"
proof
  fix x
  have "map_of kvs k = None \<longleftrightarrow> k \<notin> fst ` set kvs" by (rule map_of_eq_None_iff)
  then show "map_of (kv_set k c kvs) x = ((map_of kvs)(k \<mapsto> c)) x"
    by (cases "map_of kvs k") (auto simp: kv_set_def kv_update_map map_add_def split: option.splits)
qed

lemma kv_unset_map: "map_of (kv_unset k kvs) = (map_of kvs)(k := None)"
  unfolding kv_unset_def by (induction kvs) auto

lemma kv_set_keys: "distinct (map fst kvs) \<Longrightarrow> distinct (map fst (kv_set k c kvs))"
proof -
  have "map fst (kv_update k c kvs) = map fst kvs" by (simp add: kv_update_def)
  then show "distinct (map fst kvs) \<Longrightarrow> distinct (map fst (kv_set k c kvs))"
    by (auto simp: kv_set_def)
qed

lemma view_keys_distinct: "heap_inv h \<Longrightarrow> distinct (map fst (ht_view h z))"
  using rep_keys_distinct[OF heap_inv_rep] by (simp add: ht_view_def comp_def)

section \<open>Lookup\<close>


lemma index_view:
  assumes "heap_inv h"
  shows "map_of (idx_i h z) i = Some a \<Longrightarrow> map_of (ht_view h z) (KInt i) = Some (cell_view h (nd_v (hp_nodes h a)))"
    "map_of (idx_s h z) s = Some a \<Longrightarrow> map_of (ht_view h z) (KStr s) = Some (cell_view h (nd_v (hp_nodes h a)))"
    "map_of (idx_i h z) i = None \<Longrightarrow> map_of (ht_view h z) (KInt i) = None"
    "map_of (idx_s h z) s = None \<Longrightarrow> map_of (ht_view h z) (KStr s) = None"
proof -
  note r = heap_inv_rep[OF assms, of z]
  have in_view: "map_of (ht_view h z) (nd_k (hp_nodes h a)) = Some (cell_view h (nd_v (hp_nodes h a)))"
    if "a \<in> set (xs_of h z)" for a
    using that view_keys_distinct[OF assms, of z] by (auto simp: ht_view_def intro!: map_of_is_SomeI)
  show "map_of (idx_i h z) i = Some a \<Longrightarrow> map_of (ht_view h z) (KInt i) = Some (cell_view h (nd_v (hp_nodes h a)))"
    "map_of (idx_s h z) s = Some a \<Longrightarrow> map_of (ht_view h z) (KStr s) = Some (cell_view h (nd_v (hp_nodes h a)))"
    using r in_view[of a] unfolding ht_rep_def by metis+
  have key_in: "\<exists>a \<in> set (xs_of h z). nd_k (hp_nodes h a) = k" if "map_of (ht_view h z) k \<noteq> None" for k
    using that map_of_eq_None_iff[of "ht_view h z" k] by (auto simp: ht_view_def)
  have none: "(\<forall>i. nd_k (hp_nodes h a) = KInt i \<longrightarrow> map_of (idx_i h z) i \<noteq> None)
      \<and> (\<forall>s. nd_k (hp_nodes h a) = KStr s \<longrightarrow> map_of (idx_s h z) s \<noteq> None)" if "a \<in> set (xs_of h z)" for a
    using r that unfolding ht_rep_def by (metis option.distinct(1))
  show "map_of (idx_i h z) i = None \<Longrightarrow> map_of (ht_view h z) (KInt i) = None"
    using key_in[of "KInt i"] none by blast
  show "map_of (idx_s h z) s = None \<Longrightarrow> map_of (ht_view h z) (KStr s) = None"
    using key_in[of "KStr s"] none by blast
qed

section \<open>A new entry\<close>

text \<open>The heap a writer has made before it links the new node at the end: the node is there, counted
  and indexed.\<close>

definition cells_same :: "heap \<Rightarrow> heap \<Rightarrow> bool" where
  "cells_same h h' =
     (\<forall>a < hp_next h. hp_zvals h' a = hp_zvals h a \<and> cell_view h' a = cell_view h a)"

definition zvals_same :: "heap \<Rightarrow> heap \<Rightarrow> bool" where
  "zvals_same h h' = (\<forall>a < hp_next h. hp_zvals h' a = hp_zvals h a)"

lemma cells_trans:
  "cells_same h h1 \<Longrightarrow> cells_same h1 h2 \<Longrightarrow> hp_next h \<le> hp_next h1 \<Longrightarrow> cells_same h h2"
  by (simp add: cells_same_def)

definition ready_to_link :: "heap \<Rightarrow> addr \<Rightarrow> key \<Rightarrow> addr \<Rightarrow> heap \<Rightarrow> bool" where
  "ready_to_link h z k v h' =
     (hp_next h' = Suc (hp_next h)
      \<and> hp_nodes h' = (hp_nodes h)(hp_next h :=
          \<lparr>nd_prev = None, nd_next = None, nd_k = k, nd_v = v, nd_deleted = False\<rparr>)
      \<and> hp_zvals h' = hp_zvals h
      \<and> (\<forall>t. t \<noteq> z \<longrightarrow> hp_tabs h' t = hp_tabs h t)
      \<and> ht_first (hp_tabs h' z) = ht_first (hp_tabs h z)
      \<and> ht_last (hp_tabs h' z) = ht_last (hp_tabs h z)
      \<and> ht_idx_s (hp_tabs h' z) = ht_idx_s (hp_tabs h z)
      \<and> ht_idx_i (hp_tabs h' z) = ht_idx_i (hp_tabs h z)
      \<and> ht_count (hp_tabs h' z) = ht_count (hp_tabs h z) + 1
      \<and> hp_maps_i h' = (case k of
          KInt i \<Rightarrow> (hp_maps_i h)(ht_idx_i (hp_tabs h z) := go_put i (hp_next h) (idx_i h z))
        | KStr _ \<Rightarrow> hp_maps_i h)
      \<and> hp_maps_s h' = (case k of
          KStr s \<Rightarrow> (hp_maps_s h)(ht_idx_s (hp_tabs h z) := go_put s (hp_next h) (idx_s h z))
        | KInt _ \<Rightarrow> hp_maps_s h))"

lemma link_last_simps [simp]:
  "hp_zvals (link_last b nt z h) = hp_zvals h" "hp_maps_s (link_last b nt z h) = hp_maps_s h"
  "hp_maps_i (link_last b nt z h) = hp_maps_i h" "hp_mem (link_last b nt z h) = hp_mem h"
  "hp_next (link_last b nt z h) = hp_next h"
  by (simp_all add: link_last_def Let_def split: option.splits)

lemma link_last_tabs:
  "t \<noteq> z \<Longrightarrow> hp_tabs (link_last b nt z h) t = hp_tabs h t"
  "ht_idx_s (hp_tabs (link_last b nt z h) z) = ht_idx_s (hp_tabs h z)"
  "ht_idx_i (hp_tabs (link_last b nt z h) z) = ht_idx_i (hp_tabs h z)"
  "ht_count (hp_tabs (link_last b nt z h) z) = ht_count (hp_tabs h z)"
  "ht_cow (hp_tabs (link_last b nt z h) z) = ht_cow (hp_tabs h z)"
  "same_ctl (hp_tabs (link_last b nt z h) z) (hp_tabs h z)"
  "ht_first (hp_tabs (link_last b nt z h) z) =
     (if ht_last (hp_tabs h z) = None then Some nt else ht_first (hp_tabs h z))"
  "ht_last (hp_tabs (link_last b nt z h) z) = Some nt"
  by (auto simp: link_last_def Let_def set_cur_def same_ctl_def split: option.splits)

lemma link_last_nodes:
  "hp_nodes (link_last b nt z h) =
     (case ht_last (hp_tabs h z) of
        None \<Rightarrow> hp_nodes h
      | Some l \<Rightarrow> ((hp_nodes h)(l := (hp_nodes h l)\<lparr>nd_next := Some nt\<rparr>))
                    (nt := (((hp_nodes h)(l := (hp_nodes h l)\<lparr>nd_next := Some nt\<rparr>)) nt)\<lparr>nd_prev := Some l\<rparr>))"
  by (simp add: link_last_def Let_def split: option.splits)

lemma link_spec:
  fixes b :: bool
  assumes inv: "heap_inv h" and nc: "\<not> ht_cow (hp_tabs h z)" and z: "z < hp_next h"
    and v: "v < hp_next h" and k: "k \<notin> set (ht_keys h z)" and r: "ready_to_link h z k v h1"
  defines "h2 \<equiv> link_last b (hp_next h) z h1"
  shows "heap_inv h2" "others_same h z h2" "ht_view h2 z = ht_view h z @ [(k, cell_view h v)]"
    "xs_of h2 z = xs_of h z @ [hp_next h]" "cells_same h h2"
proof -
  let ?a = "hp_next h" and ?xs = "xs_of h z"
  note r' = r[unfolded ready_to_link_def]
  note rep = heap_inv_rep[OF inv, of z, unfolded ht_rep_def]
  have lt: "a \<in> set ?xs \<Longrightarrow> a < ?a" for a using rep by blast
  have l: "ht_last (hp_tabs h1 z) = (if ?xs = [] then None else Some (last ?xs))"
    using rep r' dseg_last by metis
  have f: "ht_first (hp_tabs h1 z) = (if ?xs = [] then None else Some (hd ?xs))"
    using rep r' dseg_first by metis
  have n1: "hp_nodes h1 = (hp_nodes h)(?a :=
      \<lparr>nd_prev = None, nd_next = None, nd_k = k, nd_v = v, nd_deleted = False\<rparr>)"
    using r' by blast
  have nodes: "hp_nodes h2 c =
      (if c = ?a then \<lparr>nd_prev = ht_last (hp_tabs h1 z), nd_next = None, nd_k = k, nd_v = v, nd_deleted = False\<rparr>
       else if ?xs \<noteq> [] \<and> c = last ?xs then (hp_nodes h c)\<lparr>nd_next := Some ?a\<rparr> else hp_nodes h c)" for c
  proof (cases "?xs = []")
    case True
    then show ?thesis using n1 l by (simp add: h2_def link_last_nodes)
  next
    case False
    then have "last ?xs \<noteq> ?a" using lt[of "last ?xs"] by auto
    then show ?thesis using n1 l False by (auto simp: h2_def link_last_nodes)
  qed
  have nk: "nd_k (hp_nodes h2 c) = nd_k (hp_nodes h c)" "nd_v (hp_nodes h2 c) = nd_v (hp_nodes h c)"
    "nd_prev (hp_nodes h2 c) = nd_prev (hp_nodes h c)"
    "nd_deleted (hp_nodes h2 c) = nd_deleted (hp_nodes h c)"
    "nd_next (hp_nodes h2 c) = (if Some c = ht_last (hp_tabs h1 z) then Some ?a else nd_next (hp_nodes h c))"
    if "c \<in> set ?xs" for c
    using nodes[of c] lt[OF that] that l by auto
  have na: "hp_nodes h2 ?a =
      \<lparr>nd_prev = ht_last (hp_tabs h1 z), nd_next = None, nd_k = k, nd_v = v, nd_deleted = False\<rparr>"
    using nodes[of ?a] by simp
  have seg: "dseg (hp_nodes h2) None (ht_first (hp_tabs h2 z)) (?xs @ [?a]) None (ht_last (hp_tabs h2 z))"
  proof -
    have "dseg (hp_nodes h2) None (if ?xs = [] then Some ?a else ht_first (hp_tabs h z)) (?xs @ [?a]) None (Some ?a)"
    proof (rule dseg_snoc)
      show "dseg (hp_nodes h) None (ht_first (hp_tabs h z)) ?xs None (ht_last (hp_tabs h1 z))"
        using rep r' by simp
      show "?a \<notin> set ?xs" using lt by blast
      show "distinct ?xs" using rep by blast
    qed (simp_all add: na nk)
    then show ?thesis
      using l r' by (cases "?xs = []") (simp_all add: h2_def link_last_tabs)
  qed
  have keys: "c \<in> set ?xs \<Longrightarrow> nd_k (hp_nodes h c) \<noteq> k" for c
    using k by (auto simp: ht_keys_def)
  have ii: "idx_i h2 z = hp_maps_i h1 (ht_idx_i (hp_tabs h z))"
    and is_eq: "idx_s h2 z = hp_maps_s h1 (ht_idx_s (hp_tabs h z))"
    using r' by (simp_all add: h2_def idx_i_def idx_s_def link_last_tabs)
  have "a \<noteq> ?a" if "map_of (idx_i h z) i = Some a \<or> map_of (idx_s h z) s = Some a" for a i s
    using that rep lt by blast
  then have mi: "map_of (idx_i h2 z) i = Some a \<longleftrightarrow> a \<in> set (?xs @ [?a]) \<and> nd_k (hp_nodes h2 a) = KInt i"
    and ms: "map_of (idx_s h2 z) s = Some a \<longleftrightarrow> a \<in> set (?xs @ [?a]) \<and> nd_k (hp_nodes h2 a) = KStr s" for i s a
    using rep r' na nk keys lt unfolding ii is_eq
    by (cases k; cases "a = ?a"; auto simp: idx_i_def idx_s_def)+
  have rep2: "ht_rep h2 z (?xs @ [?a])"
    unfolding ht_rep_def
  proof (intro conjI)
    show "distinct (?xs @ [?a])" using rep lt by auto
    show "ht_count (hp_tabs h2 z) = int (length (?xs @ [?a]))"
      using rep r' by (simp add: h2_def link_last_tabs)
    have next2: "hp_next h2 = Suc ?a" using r' by (simp add: h2_def)
    show "\<forall>a\<in>set (?xs @ [?a]). a < hp_next h2 \<and> nd_v (hp_nodes h2 a) < hp_next h2"
      using rep na nk v by (auto simp: next2 less_Suc_eq)
    show "ht_idx_s (hp_tabs h2 z) < hp_next h2" "ht_idx_i (hp_tabs h2 z) < hp_next h2"
      using rep r' by (simp_all add: h2_def link_last_tabs)
  qed (use seg mi ms in blast)+
  show xs2: "xs_of h2 z = ?xs @ [?a]" by (rule rep_xs_of[OF rep2])
  have zv: "hp_zvals h2 = hp_zvals h" using r' by (simp add: h2_def)
  have con: "confined h z h2"
    unfolding confined_def
  proof (intro conjI allI impI)
    show "hp_next h \<le> hp_next h2" using r' by (simp add: h2_def)
    show "val_bound (hp_next h2) (zv_v (hp_zvals h2 a))" for a
      using inv r' val_bound_mono[of ?a _ "Suc ?a"] by (simp add: zv heap_inv_def) (simp add: h2_def)
    show "hp_nodes h2 a = hp_nodes h a" if "a < hp_next h" "a \<notin> set ?xs" for a
      using nodes[of a] that by (cases "?xs = []") auto
    show "hp_maps_i h2 m = hp_maps_i h m" if "m \<noteq> ht_idx_i (hp_tabs h z)" for m
      using that r' by (cases k) (simp_all add: h2_def)
    show "hp_maps_s h2 m = hp_maps_s h m" if "m \<noteq> ht_idx_s (hp_tabs h z)" for m
      using that r' by (cases k) (simp_all add: h2_def)
  qed (use r' in \<open>simp_all add: h2_def link_last_tabs\<close>)
  show "heap_inv h2" "others_same h z h2"
    using confined_inv[OF inv nc con rep2] by auto
  have tabs: "ht_idx_i (hp_tabs h2 t) = ht_idx_i (hp_tabs h t)" for t
    using r' by (cases "t = z") (simp_all add: h2_def link_last_tabs)
  have cv: "cell_view h2 a = cell_view h a" for a
    by (simp add: cell_view_def val_view_def zv tabs split: val.splits)
  show "cells_same h h2" by (simp add: cells_same_def zv cv)
  have "map (entry h2) ?xs = map (entry h) ?xs"
    using nk cv by (intro map_cong) (simp_all add: entry_def)
  then show "ht_view h2 z = ht_view h z @ [(k, cell_view h v)]"
    using na cv by (simp add: view_entries xs2) (simp add: entry_def)
qed

section \<open>Composing the steps of a writer\<close>

lemma mem_irrelevant [simp]:
  "xs_of (h\<lparr>hp_mem := m\<rparr>) z = xs_of h z" "idx_i (h\<lparr>hp_mem := m\<rparr>) z = idx_i h z"
  "idx_s (h\<lparr>hp_mem := m\<rparr>) z = idx_s h z" "cell_view (h\<lparr>hp_mem := m\<rparr>) a = cell_view h a"
  by (simp_all add: xs_of_def ht_nodes_def idx_i_def idx_s_def cell_view_def val_view_def
      split: val.splits)

lemma mem_irrelevant' [simp]:
  "ht_view (h\<lparr>hp_mem := m\<rparr>) z = ht_view h z" "ht_keys (h\<lparr>hp_mem := m\<rparr>) z = ht_keys h z"
  "ht_rep (h\<lparr>hp_mem := m\<rparr>) z xs = ht_rep h z xs" "heap_inv (h\<lparr>hp_mem := m\<rparr>) = heap_inv h"
  "others_same h0 z (h\<lparr>hp_mem := m\<rparr>) = others_same h0 z h"
  by (simp_all add: ht_view_def ht_keys_def ht_rep_def heap_inv_def excl_def others_same_def)

lemma others_trans:
  assumes "others_same h z h1" "others_same h1 z h2" "hp_next h \<le> hp_next h1"
  shows "others_same h z h2"
  unfolding others_same_def
proof (intro allI impI)
  fix z' assume z': "z' < hp_next h" "z' \<noteq> z"
  then have "z' < hp_next h1" using assms(3) by simp
  with z' assms(1,2) show "xs_of h2 z' = xs_of h z'
      \<and> same_data (hp_tabs h2 z') (hp_tabs h z') \<and> same_ctl (hp_tabs h2 z') (hp_tabs h z')
      \<and> (\<forall>a \<in> set (xs_of h z'). hp_nodes h2 a = hp_nodes h a)"
    by (simp add: others_same_def same_data_def same_ctl_def)
qed

lemma grows_others:
  assumes "heap_inv h" "heap_grows h h'"
  shows "others_same h z h'"
proof -
  have "a < hp_next h" if "a \<in> set (xs_of h t)" for a t
    using heap_inv_rep[OF assms(1), of t] that by (simp add: ht_rep_def)
  then show ?thesis
    using ext_view(2)[OF assms] ext_tab[OF assms(2)] ext_ctl[OF assms(2)] assms(2)
    by (auto simp: others_same_def heap_grows_def)
qed

lemma private_spec:
  assumes inv: "heap_inv h" and v: "v < hp_next h"
  obtains v' h' where "zv_private v h = (v', h')" "heap_inv h'" "v' < hp_next h'"
    "others_same h z h'" "hp_next h \<le> hp_next h'" "hp_tabs h' = hp_tabs h"
    "cell_view h' v' = cell_view h v" "ht_view h' z = ht_view h z" "xs_of h' z = xs_of h z"
    "idx_i h' z = idx_i h z" "idx_s h' z = idx_s h z" "cells_same h h'"
proof (cases "zv_isCached h v")
  case False
  then show ?thesis using that[of v h] inv v by (simp add: zv_private_def cells_same_def)
next
  case True
  let ?h = "snd (NewZVal (zv_v (hp_zvals h v)) h)"
  have b: "val_bound (hp_next h) (zv_v (hp_zvals h v))" using inv by (simp add: heap_inv_def)
  have g: "heap_grows h ?h" unfolding NewZVal_def by (rule ext_new_zval) (simp add: plain_zval_def b)
  have cs: "cells_same h ?h"
    using ext_cell_view[OF inv g] g by (simp add: cells_same_def heap_grows_def)
  have rr: "xs_of ?h z = xs_of h z" "idx_i ?h z = idx_i h z" "idx_s ?h z = idx_s h z"
    by (simp_all add: NewZVal_def xs_of_def ht_nodes_def idx_i_def idx_s_def)
  have "nd_v (hp_nodes h a) < hp_next h" if "a \<in> set (xs_of h z)" for a
    using heap_inv_rep[OF inv, of z] that by (simp add: ht_rep_def)
  then have "ht_view ?h z = ht_view h z"
    using ext_cell_view[OF inv g] by (simp add: ht_view_def rr(1)) (simp add: NewZVal_def)
  moreover have "cell_view ?h (hp_next h) = cell_view h v"
    by (simp add: NewZVal_def cell_view_def plain_zval_def val_view_def split: val.splits)
  ultimately show ?thesis
    using that[of "hp_next h" ?h] True heap_inv_grows[OF inv g] grows_others[OF inv g] rr cs
    by (simp add: zv_private_def NewZVal_def prod_eq_iff)
qed

lemma mem_alloc_spec:
  obtains ok m where "mem_alloc z h = (ok, h\<lparr>hp_mem := m\<rparr>)"
    "ht_memTracker (hp_tabs h z) \<Longrightarrow> mm_MemAlloc memEstimatePerElement (hp_mem h) = (ok, m)"
    "\<not> ht_memTracker (hp_tabs h z) \<Longrightarrow> ok \<and> m = hp_mem h"
  by (cases "ht_memTracker (hp_tabs h z)"; cases "mm_MemAlloc memEstimatePerElement (hp_mem h)")
     (auto simp: mem_alloc_def)

lemma zvals_mem: "zvals_same h0 (h\<lparr>hp_mem := m\<rparr>) = zvals_same h0 h"
  by (simp add: zvals_same_def)

text \<open>What a call of a writer of table \<open>z\<close> gives: it returns; on success the heap is good, the
  table shows \<open>P\<close> and no other table has changed; on failure the table shows what it did.\<close>

definition wrote :: "heap \<Rightarrow> addr \<Rightarrow> (heap \<Rightarrow> bool) \<Rightarrow> heap go option \<Rightarrow> bool" where
  "wrote h z P r =
     (case r of
        Some (Ok h') \<Rightarrow> heap_inv h' \<and> others_same h z h' \<and> hp_next h \<le> hp_next h'
          \<and> zvals_same h h' \<and> P h'
      | Some (Fail e h') \<Rightarrow> heap_inv h' \<and> others_same h z h' \<and> hp_next h \<le> hp_next h'
          \<and> zvals_same h h' \<and> ht_view h' z = ht_view h z
      | _ \<Rightarrow> False)"

lemma zvals_trans:
  "zvals_same h h1 \<Longrightarrow> zvals_same h1 h2 \<Longrightarrow> hp_next h \<le> hp_next h1 \<Longrightarrow> zvals_same h h2"
  by (simp add: zvals_same_def)

lemma wrote_from:
  assumes "wrote h1 z P r" "separated h z h1" "\<And>h'. P h' \<Longrightarrow> Q h'"
  shows "wrote h z Q r"
proof -
  have s: "others_same h z h1" "hp_next h \<le> hp_next h1" "ht_view h1 z = ht_view h z" "zvals_same h h1"
    using assms(2) by (simp_all add: separated_def zvals_same_def)
  show ?thesis
    using assms(1,3) others_trans[OF s(1) _ s(2)] zvals_trans[OF s(4) _ s(2)] s(2,3)
    by (auto simp: wrote_def split: option.splits go.splits)
qed

lemma cells_zvals: "cells_same h h' \<Longrightarrow> zvals_same h h'"
  by (simp add: cells_same_def zvals_same_def)

section \<open>Storing\<close>

text \<open>Replacing the value pointer of an existing node.\<close>

lemma replace_spec:
  assumes inv: "heap_inv h" and nc: "\<not> ht_cow (hp_tabs h z)" and z: "z < hp_next h"
    and v: "v < hp_next h" and t: "t \<in> set (xs_of h z)"
  defines "h' \<equiv> upd_node t (\<lambda>n. n\<lparr>nd_v := v\<rparr>) h"
  shows "heap_inv h'" "others_same h z h'"
    "ht_view h' z = kv_update (nd_k (hp_nodes h t)) (cell_view h v) (ht_view h z)" "cells_same h h'"
proof -
  note rep = heap_inv_rep[OF inv, of z]
  note rep' = rep[unfolded ht_rep_def]
  have nodes: "hp_nodes h' = (hp_nodes h)(t := (hp_nodes h t)\<lparr>nd_v := v\<rparr>)" by (simp add: h'_def)
  have d: "dseg (hp_nodes h') p c xs q l = dseg (hp_nodes h) p c xs q l" for p c xs q l
    by (induction xs arbitrary: p c) (simp_all add: nodes)
  have k: "nd_k (hp_nodes h' a) = nd_k (hp_nodes h a)" for a by (simp add: nodes)
  have "idx_i h' z = idx_i h z" "idx_s h' z = idx_s h z" by (simp_all add: h'_def idx_i_def idx_s_def)
  then have rep2: "ht_rep h' z (xs_of h z)"
    using rep' v by (simp add: ht_rep_def d k) (simp add: h'_def)
  have con: "confined h z h'"
    using inv t by (simp add: confined_def h'_def heap_inv_def)
  show "heap_inv h'" "others_same h z h'" using confined_inv[OF inv nc con rep2] by auto
  have cv: "cell_view h' a = cell_view h a" for a
    by (simp add: cell_view_def val_view_def h'_def split: val.splits)
  then show "cells_same h h'" by (simp add: cells_same_def h'_def)
  have "entry h' a = (if fst (entry h a) = nd_k (hp_nodes h t)
      then (nd_k (hp_nodes h t), cell_view h v) else entry h a)" if "a \<in> set (xs_of h z)" for a
    using rep_key_inj[OF rep that t] by (auto simp: entry_def nodes cv)
  then show "ht_view h' z = kv_update (nd_k (hp_nodes h t)) (cell_view h v) (ht_view h z)"
    by (simp add: view_entries kv_update_def rep_xs_of[OF rep2])
qed

text \<open>The part of \<open>SetString\<close>, \<open>SetInt\<close> and \<open>Append\<close> that makes and links a new node.\<close>

lemma insert_spec:
  assumes inv: "heap_inv h" and nc: "\<not> ht_cow (hp_tabs h z)" and z: "z < hp_next h"
    and v: "v < hp_next h" and k: "k \<notin> set (ht_keys h z)"
    and r: "ready_to_link (h\<lparr>hp_mem := m\<rparr>) z k v h1"
  shows "wrote h z (\<lambda>h'. ht_view h' z = ht_view h z @ [(k, cell_view h v)]
     \<and> cells_same h h')
     (Some (Ok (link_last b (hp_next h) z h1)))"
proof -
  have "heap_inv (h\<lparr>hp_mem := m\<rparr>)" "k \<notin> set (ht_keys (h\<lparr>hp_mem := m\<rparr>) z)" using inv k by simp_all
  from link_spec[OF this(1) _ _ _ this(2) r, of b] nc z v r show ?thesis
    by (simp add: wrote_def ready_to_link_def others_same_def cells_same_def zvals_same_def)
qed

lemma keys_none:
  assumes "heap_inv h"
  shows "map_of (idx_i h z) i = None \<Longrightarrow> KInt i \<notin> set (ht_keys h z)"
    "map_of (idx_s h z) s = None \<Longrightarrow> KStr s \<notin> set (ht_keys h z)"
  using index_view(3,4)[OF assms, of z] by (auto simp: map_of_eq_None_iff keys_view[symmetric])

lemma keys_some:
  assumes "heap_inv h"
  shows "map_of (idx_i h z) i = Some t \<Longrightarrow> t \<in> set (xs_of h z) \<and> nd_k (hp_nodes h t) = KInt i"
    "map_of (idx_s h z) s = Some t \<Longrightarrow> t \<in> set (xs_of h z) \<and> nd_k (hp_nodes h t) = KStr s"
  using heap_inv_rep[OF assms, of z] unfolding ht_rep_def by blast+

text \<open>Storing into an existing entry that is not a reference.\<close>

lemma assign_spec:
  assumes inv: "heap_inv h" and nc: "\<not> ht_cow (hp_tabs h z)" and z: "z < hp_next h"
    and v: "v < hp_next h" and t: "t \<in> set (xs_of h z)"
    and nr: "\<not> zv_IsRef h (nd_v (hp_nodes h t))"
  shows "wrote h z (\<lambda>h'. ht_view h' z = kv_update (nd_k (hp_nodes h t)) (cell_view h v) (ht_view h z)
     \<and> cells_same h h') (assign_node t v h)"
proof -
  from private_spec[OF inv v, of z] obtain v' h1 where
    p: "zv_private v h = (v', h1)" "heap_inv h1" "v' < hp_next h1" "others_same h z h1"
      "hp_next h \<le> hp_next h1" "hp_tabs h1 = hp_tabs h" "cell_view h1 v' = cell_view h v"
      "ht_view h1 z = ht_view h z" "xs_of h1 z = xs_of h z"
      "cells_same h h1"
    by metis
  have n: "hp_nodes h1 = hp_nodes h"
    using p(1) by (auto simp: zv_private_def NewZVal_def new_zval_def split: if_splits)
  have "\<not> ht_cow (hp_tabs h1 z)" "z < hp_next h1" "t \<in> set (xs_of h1 z)"
    using nc z t p by simp_all
  from replace_spec[OF p(2) this(1,2) p(3) this(3)] show ?thesis
    using p others_trans[OF p(4) _ p(5)] cells_trans[OF p(10) _ p(5)] nr cells_zvals
    by (simp add: assign_node_def wrote_def n)
qed

text \<open>The branch for a new key.\<close>

lemma new_entry_spec:
  assumes inv: "heap_inv h" and nc: "\<not> ht_cow (hp_tabs h z)" and z: "z < hp_next h"
    and v: "v < hp_next h" and k: "k \<notin> set (ht_keys h z)"
    and r: "\<And>v h m. ready_to_link (h\<lparr>hp_mem := m\<rparr>) z k v (mk v (h\<lparr>hp_mem := m\<rparr>))"
  shows "wrote h z (\<lambda>h'. ht_view h' z = ht_view h z @ [(k, cell_view h v)]
       \<and> cells_same h h')
     (case zv_private v h of (v, h) \<Rightarrow>
        (case mem_alloc z h of (ok, h) \<Rightarrow>
           if \<not> ok then Some (Fail MemExhausted h)
           else Some (Ok (link_last b (hp_next h) z (mk v h)))))"
proof -
  from private_spec[OF inv v, of z] obtain v' h1 where
    p: "zv_private v h = (v', h1)" "heap_inv h1" "v' < hp_next h1" "others_same h z h1"
      "hp_next h \<le> hp_next h1" "hp_tabs h1 = hp_tabs h" "cell_view h1 v' = cell_view h v"
      "ht_view h1 z = ht_view h z" "xs_of h1 z = xs_of h z"
      "cells_same h h1"
    by metis
  from mem_alloc_spec[of z h1] obtain ok m where m: "mem_alloc z h1 = (ok, h1\<lparr>hp_mem := m\<rparr>)" by metis
  have k1: "k \<notin> set (ht_keys h1 z)" using k p(8) keys_view by metis
  have "\<not> ht_cow (hp_tabs h1 z)" "z < hp_next h1" using nc z p by simp_all
  from insert_spec[OF p(2) this p(3) k1 r, where m = m and b = b] show ?thesis
    using p others_trans[OF p(4) _ p(5)] cells_trans[OF p(10) _ p(5)] cells_zvals[OF p(10)]
      zvals_trans[OF cells_zvals[OF p(10)] _ p(5)]
    by (simp add: p(1) m wrote_def zvals_mem)
qed

text \<open>\<open>SetString\<close> and \<open>SetInt\<close>, when the entry is no reference.\<close>

definition no_ref_at :: "heap \<Rightarrow> addr \<Rightarrow> key \<Rightarrow> bool" where
  "no_ref_at h z k = (\<forall>r. map_of (ht_view h z) k \<noteq> Some (VRef r))"

lemma cell_view_ref: "cell_view h a = VRef r \<longleftrightarrow> zv_v (hp_zvals h a) = VRef r"
  by (simp add: cell_view_def val_view_def split: val.splits)

lemma no_ref_cell:
  assumes "no_ref_at h z k" "map_of (ht_view h z) k = Some (cell_view h a)"
  shows "\<not> zv_IsRef h a"
  using assms cell_view_ref[of h a] by (cases "zv_v (hp_zvals h a)") (auto simp: no_ref_at_def zv_IsRef_def)

text \<open>A writer that separates, looks its key up, and then assigns or makes a new entry.\<close>

lemma set_spec:
  assumes inv: "heap_inv h" and z: "z < hp_next h" and v: "v < hp_next h" and nr: "no_ref_at h z k"
    and step: "\<And>h1. \<lbrakk>heap_inv h1; \<not> ht_cow (hp_tabs h1 z); z < hp_next h1; v < hp_next h1;
        no_ref_at h1 z k\<rbrakk> \<Longrightarrow>
      wrote h1 z (\<lambda>h'. ht_view h' z = kv_set k (cell_view h1 v) (ht_view h1 z) \<and> cells_same h1 h') (body h1)"
  shows "wrote h z (\<lambda>h'. ht_view h' z = kv_set k (cell_view h' v) (ht_view h z))
     (sep_then z h body)"
proof -
  from sep_then_spec[OF inv z] obtain h1 where
    s: "separated h z h1" "sep_then z h body = body h1" by metis
  note s' = s(1)[unfolded separated_def]
  have "z < hp_next h1" "v < hp_next h1" "no_ref_at h1 z k"
    using s' z v nr by (simp_all add: no_ref_at_def)
  with step[of h1] s' have "wrote h1 z (\<lambda>h'. ht_view h' z = kv_set k (cell_view h1 v) (ht_view h1 z)
      \<and> cells_same h1 h') (body h1)" by blast
  then show ?thesis
    unfolding s(2) by (rule wrote_from[OF _ s(1)]) (use s' \<open>v < hp_next h1\<close> in \<open>auto simp: cells_same_def\<close>)
qed

lemma kv_set_new: "k \<notin> set (ht_keys h z) \<Longrightarrow> kv_set k c (ht_view h z) = ht_view h z @ [(k, c)]"
  by (auto simp: kv_set_def keys_view[symmetric])

lemma kv_set_old: "k \<in> set (ht_keys h z) \<Longrightarrow> kv_set k c (ht_view h z) = kv_update k c (ht_view h z)"
  by (auto simp: kv_set_def keys_view[symmetric])

lemma in_keys: "a \<in> set (xs_of h z) \<Longrightarrow> nd_k (hp_nodes h a) \<in> set (ht_keys h z)"
  by (simp add: ht_keys_def)

lemma assign_step:
  assumes "heap_inv h" "\<not> ht_cow (hp_tabs h z)" "z < hp_next h" "v < hp_next h" "no_ref_at h z k"
    and t: "t \<in> set (xs_of h z)" "nd_k (hp_nodes h t) = k"
    and m: "map_of (ht_view h z) k = Some (cell_view h (nd_v (hp_nodes h t)))"
  shows "wrote h z (\<lambda>h'. ht_view h' z = kv_set k (cell_view h v) (ht_view h z) \<and> cells_same h h')
     (assign_node t v h)"
  using assign_spec[OF assms(1-4) t(1) no_ref_cell[OF assms(5) m]] in_keys[OF t(1)] t(2)
  by (simp add: kv_set_old)

lemma note_int_key_simps [simp]:
  "ht_idx_i (note_int_key k t) = ht_idx_i t" "ht_idx_s (note_int_key k t) = ht_idx_s t"
  "ht_first (note_int_key k t) = ht_first t" "ht_last (note_int_key k t) = ht_last t"
  "ht_count (note_int_key k t) = ht_count t" "ht_cow (note_int_key k t) = ht_cow t"
  "ht_memTracker (note_int_key k t) = ht_memTracker t"
  by (simp_all add: note_int_key_def)

lemma SetInt_wrote:
  assumes inv: "heap_inv h" and z: "z < hp_next h" and v: "v < hp_next h" and nr: "no_ref_at h z (KInt k)"
  shows "wrote h z (\<lambda>h'. ht_view h' z = kv_set (KInt k) (cell_view h' v) (ht_view h z))
     (ht_SetInt k (Some v) z h)"
  unfolding ht_SetInt_def option.case
proof (rule set_spec[OF inv z v nr])
  fix h1 assume h1: "heap_inv h1" "\<not> ht_cow (hp_tabs h1 z)" "z < hp_next h1" "v < hp_next h1"
    "no_ref_at h1 z (KInt k)"
  define mk where "mk = (\<lambda>v h. upd_map_i (ht_idx_i (hp_tabs h z)) (go_put k (hp_next h))
      (upd_tab z (\<lambda>t. note_int_key k (t\<lparr>ht_count := ht_count t + 1\<rparr>)) (snd (fresh_node (KInt k) v h))))"
  have r: "ready_to_link h z (KInt k) v (mk v h)" for v h
    by (simp add: ready_to_link_def mk_def fresh_node_def idx_i_def)
  show "wrote h1 z (\<lambda>h'. ht_view h' z = kv_set (KInt k) (cell_view h1 v) (ht_view h1 z) \<and> cells_same h1 h')
     (case map_of (idx_i h1 z) k of
        Some t \<Rightarrow> assign_node t v h1
      | None \<Rightarrow>
         (let (v, h) = zv_private v h1; (ok, h) = mem_alloc z h in
          if \<not> ok then Some (Fail MemExhausted h)
          else
            (let (nt, h) = fresh_node (KInt k) v h;
                 h = upd_tab z (\<lambda>t. note_int_key k (t\<lparr>ht_count := ht_count t + 1\<rparr>)) h;
                 h = upd_map_i (ht_idx_i (hp_tabs h z)) (go_put k nt) h in
             Some (Ok (link_last True nt z h)))))"
  proof (cases "map_of (idx_i h1 z) k")
    case (Some t)
    then show ?thesis
      using assign_step[OF h1, of t] keys_some(1)[OF h1(1) Some] index_view(1)[OF h1(1) Some] by simp
  next
    case None
    note new = keys_none(1)[OF h1(1) None]
    show ?thesis
      using new_entry_spec[OF h1(1-4) new r, of True] None
      by (simp add: Let_def case_prod_unfold mk_def fresh_node_def kv_set_new[OF new] cong: if_cong)
  qed
qed

lemma SetString_wrote:
  assumes inv: "heap_inv h" and z: "z < hp_next h" and v: "v < hp_next h" and nr: "no_ref_at h z (KStr k)"
  shows "wrote h z (\<lambda>h'. ht_view h' z = kv_set (KStr k) (cell_view h' v) (ht_view h z))
     (ht_SetString k (Some v) z h)"
  unfolding ht_SetString_def option.case
proof (rule set_spec[OF inv z v nr])
  fix h1 assume h1: "heap_inv h1" "\<not> ht_cow (hp_tabs h1 z)" "z < hp_next h1" "v < hp_next h1"
    "no_ref_at h1 z (KStr k)"
  define mk where "mk = (\<lambda>v h. upd_map_s (ht_idx_s (hp_tabs h z)) (go_put k (hp_next h))
      (upd_tab z (\<lambda>t. t\<lparr>ht_count := ht_count t + 1\<rparr>) (snd (fresh_node (KStr k) v h))))"
  have r: "ready_to_link h z (KStr k) v (mk v h)" for v h
    by (simp add: ready_to_link_def mk_def fresh_node_def idx_s_def)
  show "wrote h1 z (\<lambda>h'. ht_view h' z = kv_set (KStr k) (cell_view h1 v) (ht_view h1 z) \<and> cells_same h1 h')
     (case map_of (idx_s h1 z) k of
        Some t \<Rightarrow> assign_node t v h1
      | None \<Rightarrow>
         (let (v, h) = zv_private v h1; (ok, h) = mem_alloc z h in
          if \<not> ok then Some (Fail MemExhausted h)
          else
            (let (nt, h) = fresh_node (KStr k) v h;
                 h = upd_tab z (\<lambda>t. t\<lparr>ht_count := ht_count t + 1\<rparr>) h;
                 h = upd_map_s (ht_idx_s (hp_tabs h z)) (go_put k nt) h in
             Some (Ok (link_last True nt z h)))))"
  proof (cases "map_of (idx_s h1 z) k")
    case (Some t)
    then show ?thesis
      using assign_step[OF h1, of t] keys_some(2)[OF h1(1) Some] index_view(2)[OF h1(1) Some] by simp
  next
    case None
    note new = keys_none(2)[OF h1(1) None]
    show ?thesis
      using new_entry_spec[OF h1(1-4) new r, of True] None
      by (simp add: Let_def case_prod_unfold mk_def fresh_node_def kv_set_new[OF new] cong: if_cong)
  qed
qed

end
