(* ===== verification/HashWrite.thy ===== *)
theory HashWrite
  imports HashOps
begin

text \<open>
  The other operations of a hash table against the list of entries it shows: lookup, append,
  removal, emptying, and the constructors.
\<close>

section \<open>Lookup\<close>

lemma HasInt_view: "heap_inv h \<Longrightarrow> ht_HasInt k z h \<longleftrightarrow> KInt k \<in> set (ht_keys h z)"
  using keys_none(1)[of h z k] keys_some(1)[of h z k] in_keys[of _ h z]
  by (cases "map_of (idx_i h z) k") (auto simp: ht_HasInt_def, metis)

lemma HasString_view: "heap_inv h \<Longrightarrow> ht_HasString k z h \<longleftrightarrow> KStr k \<in> set (ht_keys h z)"
  using keys_none(2)[of h z k] keys_some(2)[of h z k] in_keys[of _ h z]
  by (cases "map_of (idx_s h z) k") (auto simp: ht_HasString_def, metis)

lemma Count_view: "heap_inv h \<Longrightarrow> ht_Count z h = int (length (ht_view h z))"
  using heap_inv_rep[of h z] by (simp add: ht_Count_def ht_view_def ht_rep_def)

text \<open>A lookup shows the entry, or null.\<close>

definition looked_up :: "heap \<Rightarrow> addr \<Rightarrow> key \<Rightarrow> addr \<times> heap \<Rightarrow> bool" where
  "looked_up h z k r =
     (case r of (a, h') \<Rightarrow>
        (case map_of (ht_view h z) k of
           Some c \<Rightarrow> h' = h \<and> cell_view h a = c
         | None \<Rightarrow> heap_grows h h' \<and> zv_v (hp_zvals h' a) = VNull))"

lemma null_grows: "heap_grows h (snd (NewZVal VNull h))" "fst (NewZVal v h) = hp_next h"
  "zv_v (hp_zvals (snd (NewZVal v h)) (hp_next h)) = v"
proof -
  show "heap_grows h (snd (NewZVal VNull h))"
    unfolding NewZVal_def by (rule ext_new_zval) (simp add: plain_zval_def val_bound_def)
qed (simp_all add: NewZVal_def plain_zval_def)

lemma GetInt_view: "heap_inv h \<Longrightarrow> looked_up h z (KInt k) (ht_GetInt k z h)"
  using index_view(1,3)[of h z k] null_grows(1)[of h] null_grows(2,3)[of VNull h]
  by (cases "map_of (idx_i h z) k")
     (simp_all add: looked_up_def ht_GetInt_def case_prod_unfold)

lemma GetString_view: "heap_inv h \<Longrightarrow> looked_up h z (KStr k) (ht_GetString k z h)"
  using index_view(2,4)[of h z k] null_grows(1)[of h] null_grows(2,3)[of VNull h]
  by (cases "map_of (idx_s h z) k")
     (simp_all add: looked_up_def ht_GetString_def case_prod_unfold)

lemma HasStringKeys_view: "heap_inv h \<Longrightarrow> ht_HasStringKeys z h \<longleftrightarrow> (\<exists>s. KStr s \<in> set (ht_keys h z))"
proof -
  assume inv: "heap_inv h"
  have "idx_s h z \<noteq> [] \<longleftrightarrow> (\<exists>s. map_of (idx_s h z) s \<noteq> None)"
    by (cases "idx_s h z") (auto simp: neq_Nil_conv split: if_splits)
  then show ?thesis
    using HasString_view[OF inv] by (simp add: ht_HasStringKeys_def ht_HasString_def)
qed

section \<open>Appending\<close>

lemma next_free_spec:
  "next_free m inc = (ok, k) \<Longrightarrow>
     inc \<le> k \<and> (\<forall>j. inc \<le> j \<longrightarrow> j < k \<longrightarrow> map_of m j \<noteq> None)
     \<and> (ok \<longrightarrow> map_of m k = None) \<and> (\<not> ok \<longrightarrow> map_of m k \<noteq> None \<and> int64_max \<le> k)
     \<and> (inc \<le> int64_max \<longrightarrow> k \<le> int64_max)"
proof (induction m inc arbitrary: ok k rule: next_free.induct)
  case (1 m inc)
  have eq: "next_free m inc = (if map_of m inc = None then (True, inc)
      else if inc \<ge> int64_max then (False, inc) else next_free m (inc + 1))"
    by (rule next_free.simps)
  show ?case
  proof (cases "map_of m inc = None \<or> inc \<ge> int64_max")
    case True
    then show ?thesis using "1.prems" eq by (auto split: if_splits)
  next
    case False
    then have r: "next_free m (inc + 1) = (ok, k)" using "1.prems" eq by auto
    have IH: "inc + 1 \<le> k \<and> (\<forall>j. inc + 1 \<le> j \<longrightarrow> j < k \<longrightarrow> map_of m j \<noteq> None)
     \<and> (ok \<longrightarrow> map_of m k = None) \<and> (\<not> ok \<longrightarrow> map_of m k \<noteq> None \<and> int64_max \<le> k)
     \<and> (inc + 1 \<le> int64_max \<longrightarrow> k \<le> int64_max)"
      by (rule "1.IH") (use False r in auto)
    have "map_of m j \<noteq> None" if "inc \<le> j" "j < k" for j
      using IH that False by (cases "j = inc") auto
    then show ?thesis using IH False by auto
  qed
qed

lemma next_free_cong:
  "(\<And>j. map_of m j = None \<longleftrightarrow> map_of m' j = None) \<Longrightarrow> next_free m inc = next_free m' inc"
proof (induction m inc rule: next_free.induct)
  case (1 m inc)
  then show ?case
    by (subst (1 2) next_free.simps) auto
qed

lemma WouldOverflow_view:
  assumes "heap_inv h" "ht_inc (hp_tabs h z) \<le> int64_max"
  shows "ht_WouldOverflow z h \<longleftrightarrow>
     (\<forall>j. ht_inc (hp_tabs h z) \<le> j \<longrightarrow> j \<le> int64_max \<longrightarrow> KInt j \<in> set (ht_keys h z))"
proof -
  obtain ok k where nf: "next_free (idx_i h z) (ht_inc (hp_tabs h z)) = (ok, k)" by fastforce
  note s = next_free_spec[OF nf]
  have m: "KInt j \<in> set (ht_keys h z) \<longleftrightarrow> map_of (idx_i h z) j \<noteq> None" for j
    using HasInt_view[OF assms(1)] by (simp add: ht_HasInt_def)
  show ?thesis
  proof (cases ok)
    case True
    then show ?thesis using s assms(2) nf by (auto simp: ht_WouldOverflow_def m)
  next
    case False
    then have "map_of (idx_i h z) j \<noteq> None" if "ht_inc (hp_tabs h z) \<le> j" "j \<le> int64_max" for j
      using s that by (cases "j = k") auto
    then show ?thesis using False nf by (auto simp: ht_WouldOverflow_def m)
  qed
qed

text \<open>A change of the control fields of a table is not visible.\<close>

definition ctl_only :: "(table \<Rightarrow> table) \<Rightarrow> bool" where
  "ctl_only f = (\<forall>t. same_data (f t) t \<and> ht_cow (f t) = ht_cow t)"

lemma ctl_upd:
  assumes "ctl_only f"
  shows "idx_i (upd_tab z f h) t = idx_i h t" "idx_s (upd_tab z f h) t = idx_s h t"
    "xs_of (upd_tab z f h) t = xs_of h t" "ht_rep (upd_tab z f h) t xs = ht_rep h t xs"
    "cell_view (upd_tab z f h) a = cell_view h a" "ht_view (upd_tab z f h) t = ht_view h t"
    "ht_keys (upd_tab z f h) t = ht_keys h t"
    "excl (upd_tab z f h) t t' = excl h t t'"
    "heap_inv (upd_tab z f h) = heap_inv h" "ht_cow (hp_tabs (upd_tab z f h) t) = ht_cow (hp_tabs h t)"
    "others_same h z (upd_tab z f h)" "cells_same h (upd_tab z f h)"
proof -
  let ?h = "upd_tab z f h"
  have t: "ht_first (hp_tabs ?h t) = ht_first (hp_tabs h t)" "ht_last (hp_tabs ?h t) = ht_last (hp_tabs h t)"
    "ht_count (hp_tabs ?h t) = ht_count (hp_tabs h t)" "ht_idx_s (hp_tabs ?h t) = ht_idx_s (hp_tabs h t)"
    "ht_idx_i (hp_tabs ?h t) = ht_idx_i (hp_tabs h t)" "ht_cow (hp_tabs ?h t) = ht_cow (hp_tabs h t)" for t
    using assms by (simp_all add: ctl_only_def same_data_def)
  show c: "ht_cow (hp_tabs ?h t) = ht_cow (hp_tabs h t)" for t by (rule t)
  show i: "idx_i ?h t = idx_i h t" "idx_s ?h t = idx_s h t" for t
    unfolding idx_i_def idx_s_def t by simp_all
  show x: "xs_of ?h t = xs_of h t" for t unfolding xs_of_def ht_nodes_def t by simp
  show r: "ht_rep ?h t xs = ht_rep h t xs" for t xs unfolding ht_rep_def t i by simp
  show cv: "cell_view ?h a = cell_view h a" for a unfolding cell_view_def val_view_def t unfolding upd_simps by (rule refl)
  show v: "ht_view ?h t = ht_view h t" for t unfolding ht_view_def x cv by simp
  show "ht_keys ?h t = ht_keys h t" for t unfolding ht_keys_def x by simp
  show e: "excl ?h t t' = excl h t t'" for t t' unfolding excl_def x t by simp
  show "heap_inv ?h = heap_inv h" unfolding heap_inv_def r x c e by simp
  show "others_same h z ?h" unfolding others_same_def x by simp
  show "cells_same h ?h" unfolding cells_same_def cv by simp
qed


text \<open>\<open>Append\<close> adds the value under the first free key from \<open>inc\<close> on; when there is none up to the
  largest integer it fails and the table shows what it did.\<close>

definition appended :: "heap \<Rightarrow> addr \<Rightarrow> addr \<Rightarrow> int \<Rightarrow> heap \<Rightarrow> bool" where
  "appended h z v k h' =
     (ht_view h' z = ht_view h z @ [(KInt k, cell_view h' v)]
      \<and> ht_inc (hp_tabs h' z) = (if k < int64_max then k + 1 else k))"

lemma link_last_inc [simp]: "ht_inc (hp_tabs (link_last b nt z h) z) = ht_inc (hp_tabs h z)"
  using link_last_tabs(6)[of b nt z h] by (simp add: same_ctl_def)

lemma Append_step:
  assumes inv: "heap_inv h" and nc: "\<not> ht_cow (hp_tabs h z)" and z: "z < hp_next h" and v: "v < hp_next h"
    and k: "KInt k \<notin> set (ht_keys h z)"
  shows "wrote h z (appended h z v k)
     (case mem_alloc z (upd_tab z (\<lambda>t. t\<lparr>ht_inc := k\<rparr>) h) of (ok, h) \<Rightarrow>
        if \<not> ok then Some (Fail MemExhausted h)
        else
          (let (nt, h) = fresh_node (KInt k) v h;
               h = upd_map_i (ht_idx_i (hp_tabs h z)) (go_put k nt) h;
               h = upd_tab z (\<lambda>t. t\<lparr>ht_inc := (if k < int64_max then k + 1 else k),
                                    ht_count := ht_count t + 1\<rparr>) h in
           Some (Ok (link_last True nt z h))))"
proof -
  let ?h = "upd_tab z (\<lambda>t. t\<lparr>ht_inc := k\<rparr>) h"
  have co: "ctl_only (\<lambda>t. t\<lparr>ht_inc := k\<rparr>)" by (simp add: ctl_only_def same_data_def)
  note u = ctl_upd[OF co, where z = z and h = h]
  obtain ok m where m: "mem_alloc z ?h = (ok, ?h\<lparr>hp_mem := m\<rparr>)" by (metis mem_alloc_spec)
  define h1 where "h1 = upd_tab z (\<lambda>t. t\<lparr>ht_inc := (if k < int64_max then k + 1 else k),
                                    ht_count := ht_count t + 1\<rparr>)
      (upd_map_i (ht_idx_i (hp_tabs h z)) (go_put k (hp_next h)) (snd (fresh_node (KInt k) v (?h\<lparr>hp_mem := m\<rparr>))))"
  have r: "ready_to_link (?h\<lparr>hp_mem := m\<rparr>) z (KInt k) v h1"
    by (simp add: ready_to_link_def h1_def fresh_node_def idx_i_def)
  have inc: "ht_inc (hp_tabs h1 z) = (if k < int64_max then k + 1 else k)" by (simp add: h1_def)
  have "heap_inv ?h" "\<not> ht_cow (hp_tabs ?h z)" "z < hp_next ?h" "v < hp_next ?h" "KInt k \<notin> set (ht_keys ?h z)"
    using assms u by simp_all
  note w = insert_spec[OF this r, of True]
  have "wrote h z (appended h z v k) (Some (Ok (link_last True (hp_next h) z h1)))"
    using w u others_trans[OF u(11)] inc v
    by (simp add: wrote_def appended_def cells_same_def zvals_same_def)
  moreover have "wrote h z (appended h z v k) (Some (Fail MemExhausted (?h\<lparr>hp_mem := m\<rparr>)))"
    using u inv by (simp add: wrote_def zvals_same_def)
  ultimately show ?thesis
    unfolding m by (simp add: h1_def fresh_node_def Let_def case_prod_unfold)
qed

lemma Append_spec:
  assumes inv: "heap_inv h" and z: "z < hp_next h" and v: "v < hp_next h"
    and nf: "next_free (idx_i h z) (ht_inc (hp_tabs h z)) = (ok, k)"
  shows "ok \<Longrightarrow> wrote h z (appended h z v k) (ht_Append v z h)"
    "\<not> ok \<Longrightarrow> \<exists>h'. ht_Append v z h = Some (Fail NextElementOccupied h')
       \<and> wrote h z (\<lambda>_. False) (ht_Append v z h)"
proof -
  from sep_then_spec[OF inv z] obtain h1 where
    s: "separated h z h1" "\<And>k. sep_then z h k = (k h1 :: heap go option)" by metis
  note s' = s(1)[unfolded separated_def]
  have keys: "ht_keys h1 z = ht_keys h z" using s' keys_view by metis
  have "map_of (idx_i h1 z) j = None \<longleftrightarrow> map_of (idx_i h z) j = None" for j
    using HasInt_view[OF inv, of j z] HasInt_view[of h1 j z] s' keys by (auto simp: ht_HasInt_def)
  from next_free_cong[OF this] have nf1: "next_free (idx_i h1 z) (ht_inc (hp_tabs h1 z)) = (ok, k)"
    using s' nf by (simp add: same_ctl_def)
  note body = ht_Append_def[of v z h, unfolded s(2), unfolded nf1]
  have lt: "z < hp_next h1" "v < hp_next h1" using s' z v by auto
  show "wrote h z (appended h z v k) (ht_Append v z h)" if ok
  proof -
    have "KInt k \<notin> set (ht_keys h1 z)"
      using next_free_spec[OF nf1] that HasInt_view[of h1 k z] s' by (simp add: ht_HasInt_def)
    from Append_step[OF _ _ lt this] s' have
      "wrote h1 z (appended h1 z v k) (ht_Append v z h)"
      unfolding body using that by simp
    then show ?thesis
      by (rule wrote_from[OF _ s(1)]) (use s' in \<open>auto simp: appended_def\<close>)
  qed
  show "\<exists>h'. ht_Append v z h = Some (Fail NextElementOccupied h')
       \<and> wrote h z (\<lambda>_. False) (ht_Append v z h)" if "\<not> ok"
  proof -
    have co: "ctl_only (\<lambda>t. t\<lparr>ht_inc := k\<rparr>)" by (simp add: ctl_only_def same_data_def)
    note u = ctl_upd[OF co, where z = z and h = h1]
    have "others_same h z (upd_tab z (\<lambda>t. t\<lparr>ht_inc := k\<rparr>) h1)"
      using others_trans[OF _ u(11)] s' by blast
    then show ?thesis unfolding body using that u s' by (simp add: wrote_def zvals_same_def)
  qed
qed

section \<open>Removing\<close>

lemma ht_unlink_simps [simp]:
  "hp_zvals (ht_unlink t z h) = hp_zvals h" "hp_maps_s (ht_unlink t z h) = hp_maps_s h"
  "hp_maps_i (ht_unlink t z h) = hp_maps_i h" "hp_mem (ht_unlink t z h) = hp_mem h"
  "hp_next (ht_unlink t z h) = hp_next h"
  by (simp_all add: ht_unlink_def Let_def split: option.splits)

lemma ht_unlink_tabs:
  "u \<noteq> z \<Longrightarrow> hp_tabs (ht_unlink t z h) u = hp_tabs h u"
  "ht_idx_s (hp_tabs (ht_unlink t z h) u) = ht_idx_s (hp_tabs h u)"
  "ht_idx_i (hp_tabs (ht_unlink t z h) u) = ht_idx_i (hp_tabs h u)"
  "ht_count (hp_tabs (ht_unlink t z h) u) = ht_count (hp_tabs h u)"
  "ht_cow (hp_tabs (ht_unlink t z h) u) = ht_cow (hp_tabs h u)"
  "ht_first (hp_tabs (ht_unlink t z h) z) =
     (if ht_first (hp_tabs h z) = Some t then nd_next (hp_nodes h t) else ht_first (hp_tabs h z))"
  "ht_last (hp_tabs (ht_unlink t z h) z) =
     (if ht_last (hp_tabs h z) = Some t then nd_prev (hp_nodes h t) else ht_last (hp_tabs h z))"
  by (auto simp: ht_unlink_def Let_def split: option.splits)

lemma ht_unlink_nodes:
  assumes "nd_prev (hp_nodes h t) \<noteq> Some t" "nd_next (hp_nodes h t) \<noteq> Some t"
  shows "hp_nodes (ht_unlink t z h) b =
     (hp_nodes h b)\<lparr>nd_next := (if nd_prev (hp_nodes h t) = Some b then nd_next (hp_nodes h t) else nd_next (hp_nodes h b)),
                    nd_prev := (if nd_next (hp_nodes h t) = Some b then nd_prev (hp_nodes h t) else nd_prev (hp_nodes h b))\<rparr>"
  using assms by (auto simp: ht_unlink_def Let_def split: option.splits)

text \<open>The heap a writer has made before it unlinks a node: the node is marked, uncounted and no
  longer indexed.\<close>

definition ready_to_unlink :: "heap \<Rightarrow> addr \<Rightarrow> addr \<Rightarrow> heap \<Rightarrow> bool" where
  "ready_to_unlink h z t h' =
     (hp_next h' = hp_next h
      \<and> hp_nodes h' = (hp_nodes h)(t := (hp_nodes h t)\<lparr>nd_deleted := True\<rparr>)
      \<and> hp_zvals h' = hp_zvals h
      \<and> hp_tabs h' = (hp_tabs h)(z := (hp_tabs h z)\<lparr>ht_count := ht_count (hp_tabs h z) - 1\<rparr>)
      \<and> hp_maps_i h' = (case nd_k (hp_nodes h t) of
          KInt i \<Rightarrow> (hp_maps_i h)(ht_idx_i (hp_tabs h z) := go_del i (idx_i h z))
        | KStr _ \<Rightarrow> hp_maps_i h)
      \<and> hp_maps_s h' = (case nd_k (hp_nodes h t) of
          KStr s \<Rightarrow> (hp_maps_s h)(ht_idx_s (hp_tabs h z) := go_del s (idx_s h z))
        | KInt _ \<Rightarrow> hp_maps_s h))"

lemma dseg_no_self:
  assumes "dseg ns None c xs None l" "distinct xs" "t \<in> set xs"
  shows "nd_prev (ns t) \<noteq> Some t" "nd_next (ns t) \<noteq> Some t"
proof -
  from assms(3) obtain as bs where xs: "xs = as @ t # bs" by (metis split_list)
  from assms(1) obtain m r where d: "dseg ns None c as m r" "dseg ns r m (t # bs) None l"
    unfolding xs dseg_append by blast
  then have "nd_prev (ns t) = r" "dseg ns (Some t) (nd_next (ns t)) bs None l" by auto
  moreover have "r = (if as = [] then None else Some (last as))" by (rule dseg_last[OF d(1)])
  moreover have "nd_next (ns t) = (if bs = [] then None else Some (hd bs))"
    using dseg_first[OF calculation(2)] by simp
  ultimately show "nd_prev (ns t) \<noteq> Some t" "nd_next (ns t) \<noteq> Some t"
    using assms(2) xs last_in_set[of as] list.set_sel(1)[of bs] by (auto split: if_splits)
qed

lemma dseg_neighbours:
  assumes "dseg ns None c xs None l" "t \<in> set xs"
  shows "nd_prev (ns t) = Some a \<Longrightarrow> a \<in> set xs" "nd_next (ns t) = Some a \<Longrightarrow> a \<in> set xs"
proof -
  from assms(2) obtain as bs where xs: "xs = as @ t # bs" by (metis split_list)
  from assms(1) obtain m r where d: "dseg ns None c as m r" "dseg ns r m (t # bs) None l"
    unfolding xs dseg_append by blast
  then have "nd_prev (ns t) = r" and d2: "dseg ns (Some t) (nd_next (ns t)) bs None l" by auto
  then show "nd_prev (ns t) = Some a \<Longrightarrow> a \<in> set xs"
    using dseg_last[OF d(1)] by (auto simp: xs split: if_splits)
  show "nd_next (ns t) = Some a \<Longrightarrow> a \<in> set xs"
    using dseg_first[OF d2] by (auto simp: xs split: if_splits)
qed

lemma unlink_seg:
  assumes inv: "heap_inv h" and t: "t \<in> set (xs_of h z)" and r: "ready_to_unlink h z t h1"
  defines "h2 \<equiv> ht_unlink t z h1"
  shows "dseg (hp_nodes h2) None (ht_first (hp_tabs h2 z)) (remove1 t (xs_of h z)) None (ht_last (hp_tabs h2 z))"
proof -
  note r' = r[unfolded ready_to_unlink_def]
  note rep = heap_inv_rep[OF inv, of z, unfolded ht_rep_def]
  from t obtain as bs where xs: "xs_of h z = as @ t # bs" "t \<notin> set as" by (metis split_list_first)
  have seg: "dseg (hp_nodes h) None (ht_first (hp_tabs h z)) (as @ t # bs) None (ht_last (hp_tabs h z))"
    and dist: "distinct (as @ t # bs)"
    using rep by (simp_all add: xs(1))
  note ns = dseg_no_self[OF seg dist]
  have n1: "hp_nodes h1 = (hp_nodes h)(t := (hp_nodes h t)\<lparr>nd_deleted := True\<rparr>)" using r' by blast
  then have "nd_prev (hp_nodes h1 t) \<noteq> Some t" "nd_next (hp_nodes h1 t) \<noteq> Some t" using ns by simp_all
  note un = ht_unlink_nodes[OF this, of z]
  have nodes: "hp_nodes h2 b = (hp_nodes h b)
      \<lparr>nd_next := (if nd_prev (hp_nodes h t) = Some b then nd_next (hp_nodes h t) else nd_next (hp_nodes h b)),
       nd_prev := (if nd_next (hp_nodes h t) = Some b then nd_prev (hp_nodes h t) else nd_prev (hp_nodes h b))\<rparr>"
    if "b \<noteq> t" for b
    using that un[of b] by (simp add: h2_def n1)
  have cut: "dseg (hp_nodes h2) None
      (if as = [] then nd_next (hp_nodes h t) else ht_first (hp_tabs h z)) (as @ bs) None
      (if bs = [] then nd_prev (hp_nodes h t) else ht_last (hp_tabs h z))"
  proof (rule dseg_cut[OF seg dist])
    have out: "nd_prev (hp_nodes h t) = Some b \<Longrightarrow> b \<in> set as" "nd_next (hp_nodes h t) = Some b \<Longrightarrow> b \<in> set bs" for b
    proof -
      obtain m r where d: "dseg (hp_nodes h) None (ht_first (hp_tabs h z)) as m r"
        "dseg (hp_nodes h) r m (t # bs) None (ht_last (hp_tabs h z))"
        using seg unfolding dseg_append by blast
      have "nd_prev (hp_nodes h t) = r" using d(2) by simp
      then show "nd_prev (hp_nodes h t) = Some b \<Longrightarrow> b \<in> set as"
        using dseg_last[OF d(1)] by (auto split: if_splits)
      have "dseg (hp_nodes h) (Some t) (nd_next (hp_nodes h t)) bs None (ht_last (hp_tabs h z))"
        using d(2) by simp
      then show "nd_next (hp_nodes h t) = Some b \<Longrightarrow> b \<in> set bs"
        by (auto dest!: dseg_first split: if_splits)
    qed
    fix b
    have bt: "b \<in> set as \<union> set bs \<Longrightarrow> b \<noteq> t" using dist by auto
    show "b \<in> set as \<union> set bs \<Longrightarrow> nd_deleted (hp_nodes h2 b) = nd_deleted (hp_nodes h b)"
      using nodes[OF bt] by simp
    show "b \<in> set as \<Longrightarrow> nd_next (hp_nodes h2 b) =
        (if nd_prev (hp_nodes h t) = Some b then nd_next (hp_nodes h t) else nd_next (hp_nodes h b))"
      using nodes[OF bt] by simp
    show "b \<in> set bs \<Longrightarrow> nd_next (hp_nodes h2 b) = nd_next (hp_nodes h b)"
      using nodes[OF bt] out(1)[of b] dist by auto
    show "b \<in> set bs \<Longrightarrow> nd_prev (hp_nodes h2 b) =
        (if nd_next (hp_nodes h t) = Some b then nd_prev (hp_nodes h t) else nd_prev (hp_nodes h b))"
      using nodes[OF bt] by simp
    show "b \<in> set as \<Longrightarrow> nd_prev (hp_nodes h2 b) = nd_prev (hp_nodes h b)"
      using nodes[OF bt] out(2)[of b] dist by auto
  qed
  have fl: "ht_first (hp_tabs h z) = Some t \<longleftrightarrow> as = []" "ht_last (hp_tabs h z) = Some t \<longleftrightarrow> bs = []"
  proof -
    have "ht_first (hp_tabs h z) = Some (hd (as @ t # bs))" "ht_last (hp_tabs h z) = Some (last (as @ t # bs))"
      using dseg_first[OF seg] dseg_last[OF seg] by simp_all
    then show "ht_first (hp_tabs h z) = Some t \<longleftrightarrow> as = []" "ht_last (hp_tabs h z) = Some t \<longleftrightarrow> bs = []"
      using dist list.set_sel(1)[of as] last_in_set[of bs] by (auto simp: hd_append)
  qed
  have rem: "remove1 t (xs_of h z) = as @ bs" using xs by (simp add: remove1_append)
  have fst2: "ht_first (hp_tabs h2 z) = (if as = [] then nd_next (hp_nodes h t) else ht_first (hp_tabs h z))"
    using fl r' by (simp add: h2_def ht_unlink_tabs)
  have lst2: "ht_last (hp_tabs h2 z) = (if bs = [] then nd_prev (hp_nodes h t) else ht_last (hp_tabs h z))"
    using fl r' by (simp add: h2_def ht_unlink_tabs)
  show ?thesis unfolding rem fst2 lst2 by (rule cut)
qed

lemma unlink_spec:
  assumes inv: "heap_inv h" and nc: "\<not> ht_cow (hp_tabs h z)" and z: "z < hp_next h"
    and t: "t \<in> set (xs_of h z)" and r: "ready_to_unlink h z t h1"
  defines "h2 \<equiv> ht_unlink t z h1"
  shows "heap_inv h2" "others_same h z h2"
    "ht_view h2 z = kv_unset (nd_k (hp_nodes h t)) (ht_view h z)" "cells_same h h2" "hp_next h2 = hp_next h"
proof -
  note r' = r[unfolded ready_to_unlink_def]
  note rep = heap_inv_rep[OF inv, of z]
  note rep' = rep[unfolded ht_rep_def]
  let ?ys = "remove1 t (xs_of h z)"
  show nx: "hp_next h2 = hp_next h" using r' by (simp add: h2_def)
  have dist: "distinct (xs_of h z)" using rep' by blast
  then have ys: "set ?ys = set (xs_of h z) - {t}" by simp
  have "dseg (hp_nodes h) None (ht_first (hp_tabs h z)) (xs_of h z) None (ht_last (hp_tabs h z))"
    using rep' by blast
  note ns = dseg_no_self[OF this dist t]
  have "nd_prev (hp_nodes h1 t) \<noteq> Some t" "nd_next (hp_nodes h1 t) \<noteq> Some t" using r' ns by simp_all
  note un = ht_unlink_nodes[OF this, of z]
  have kv: "nd_k (hp_nodes h2 b) = nd_k (hp_nodes h b)" "nd_v (hp_nodes h2 b) = nd_v (hp_nodes h b)" for b
    using un[of b] r' by (simp_all add: h2_def)
  have tabs: "ht_idx_i (hp_tabs h2 u) = ht_idx_i (hp_tabs h u)" "ht_idx_s (hp_tabs h2 u) = ht_idx_s (hp_tabs h u)" for u
    using r' by (cases "u = z"; simp add: h2_def ht_unlink_tabs)+
  have ii: "idx_i h2 z = hp_maps_i h1 (ht_idx_i (hp_tabs h z))" "idx_s h2 z = hp_maps_s h1 (ht_idx_s (hp_tabs h z))"
    by (simp_all add: idx_i_def idx_s_def tabs) (simp_all add: h2_def)
  have other_key: "nd_k (hp_nodes h b) \<noteq> nd_k (hp_nodes h t)" if "b \<in> set (xs_of h z)" "b \<noteq> t" for b
    using rep_key_inj[OF rep that(1) t] that(2) by blast
  have mi: "map_of (idx_i h2 z) i = Some a \<longleftrightarrow> a \<in> set ?ys \<and> nd_k (hp_nodes h2 a) = KInt i" for i a
    using rep' r' other_key[of a] t unfolding ii ys kv
    by (cases "nd_k (hp_nodes h t)") (auto simp: idx_i_def)
  have ms: "map_of (idx_s h2 z) i = Some a \<longleftrightarrow> a \<in> set ?ys \<and> nd_k (hp_nodes h2 a) = KStr i" for i a
    using rep' r' other_key[of a] t unfolding ii ys kv
    by (cases "nd_k (hp_nodes h t)") (auto simp: idx_s_def)
  have len: "length (xs_of h z) = Suc (length ?ys)"
    using t length_pos_if_in_set[OF t] by (simp add: length_remove1)
  have rep2: "ht_rep h2 z ?ys"
    unfolding ht_rep_def
  proof (intro conjI)
    show "dseg (hp_nodes h2) None (ht_first (hp_tabs h2 z)) ?ys None (ht_last (hp_tabs h2 z))"
      unfolding h2_def by (rule unlink_seg[OF inv t r])
    show "ht_count (hp_tabs h2 z) = int (length ?ys)"
      using rep' r' len by (simp add: h2_def ht_unlink_tabs)
  qed (use dist mi ms rep' ys kv nx tabs in \<open>auto simp: distinct_remove1\<close>)
  have xs2: "xs_of h2 z = ?ys" by (rule rep_xs_of[OF rep2])
  have zv: "hp_zvals h2 = hp_zvals h" using r' by (simp add: h2_def)
  have con: "confined h z h2"
    unfolding confined_def
  proof (intro conjI allI impI)
    fix a assume a: "a < hp_next h" "a \<notin> set (xs_of h z)"
    have "hp_nodes h2 a = hp_nodes h1 a"
    proof -
      have "nd_prev (hp_nodes h t) \<noteq> Some a \<and> nd_next (hp_nodes h t) \<noteq> Some a"
        using dseg_neighbours rep' t a(2) by blast
      then show ?thesis using un[of a] r' by (simp add: h2_def)
    qed
    then show "hp_nodes h2 a = hp_nodes h a" using r' t a(2) by auto
  next
    show "hp_maps_i h2 m = hp_maps_i h m" if "m \<noteq> ht_idx_i (hp_tabs h z)" for m
      using that r' by (simp add: h2_def split: key.splits)
    show "hp_maps_s h2 m = hp_maps_s h m" if "m \<noteq> ht_idx_s (hp_tabs h z)" for m
      using that r' by (simp add: h2_def split: key.splits)
  qed (use r' inv in \<open>simp_all add: nx tabs zv heap_inv_def\<close>, simp_all add: h2_def ht_unlink_tabs)
  have "set ?ys \<subseteq> set (xs_of h z) \<union> {hp_next h..}" using ys by blast
  from confined_inv[OF inv nc con rep2 this] show "heap_inv h2" "others_same h z h2" by auto
  have cv: "cell_view h2 a = cell_view h a" for a
    by (simp add: cell_view_def val_view_def zv tabs split: val.splits)
  show "cells_same h h2" by (simp add: cells_same_def zv cv)
  have "map (entry h2) ?ys = map (entry h) ?ys" by (simp add: entry_def kv cv)
  moreover have "?ys = filter (\<lambda>b. nd_k (hp_nodes h b) \<noteq> nd_k (hp_nodes h t)) (xs_of h z)"
    using other_key t dist by (auto simp: distinct_remove1_removeAll removeAll_filter_not_eq intro!: filter_cong)
  ultimately show "ht_view h2 z = kv_unset (nd_k (hp_nodes h t)) (ht_view h z)"
    by (simp add: view_entries xs2 kv_unset_def filter_map comp_def) (simp add: entry_def)
qed

lemma mem_free_form: "\<exists>m. mem_free z n h = h\<lparr>hp_mem := m\<rparr>"
proof (cases "ht_memTracker (hp_tabs h z)")
  case False
  then have "mem_free z n h = h\<lparr>hp_mem := hp_mem h\<rparr>" by (simp add: mem_free_def)
  then show ?thesis by blast
qed (auto simp: mem_free_def)

lemma mem_free_if: "\<exists>m. (if b then mem_free z n h else h) = h\<lparr>hp_mem := m\<rparr>"
proof (cases b)
  case False
  then have "(if b then mem_free z n h else h) = h\<lparr>hp_mem := hp_mem h\<rparr>" by simp
  then show ?thesis by blast
qed (simp add: mem_free_form)

lemma kv_unset_absent: "k \<notin> set (ht_keys h z) \<Longrightarrow> kv_unset k (ht_view h z) = ht_view h z"
  by (auto simp: kv_unset_def keys_view[symmetric] filter_id_conv)

text \<open>A writer that separates, looks its key up, and removes the node if there is one.\<close>

lemma unset_spec:
  assumes inv: "heap_inv h" and z: "z < hp_next h"
    and absent: "\<And>h. heap_inv h \<Longrightarrow> look h = None \<Longrightarrow> k \<notin> set (ht_keys h z)"
    and present: "\<And>h t. heap_inv h \<Longrightarrow> look h = Some t \<Longrightarrow>
        t \<in> set (xs_of h z) \<and> nd_k (hp_nodes h t) = k \<and> ready_to_unlink h z t (mk t h)"
  shows "wrote h z (\<lambda>h'. ht_view h' z = kv_unset k (ht_view h z))
     (map_option Ok (sep_then z h (\<lambda>h. case look h of
        None \<Rightarrow> Some h | Some t \<Rightarrow> Some (mem_free z n (ht_unlink t z (mk t h))))))"
proof -
  from sep_then_spec[OF inv z] obtain h1 where
    s: "separated h z h1" "\<And>k. sep_then z h k = (k h1 :: heap option)" by metis
  note s' = s(1)[unfolded separated_def]
  have "wrote h1 z (\<lambda>h'. ht_view h' z = kv_unset k (ht_view h1 z) \<and> cells_same h1 h')
     (map_option Ok (case look h1 of
        None \<Rightarrow> Some h1 | Some t \<Rightarrow> Some (mem_free z n (ht_unlink t z (mk t h1)))))"
  proof (cases "look h1")
    case None
    have "kv_unset k (ht_view h1 z) = ht_view h1 z"
      using s' kv_unset_absent[OF absent[OF _ None]] by blast
    then show ?thesis using s' None by (simp add: wrote_def cells_same_def zvals_same_def)
  next
    case (Some t)
    then have p: "t \<in> set (xs_of h1 z)" "nd_k (hp_nodes h1 t) = k" "ready_to_unlink h1 z t (mk t h1)"
      using present s' by blast+
    obtain m where m: "mem_free z n (ht_unlink t z (mk t h1)) = (ht_unlink t z (mk t h1))\<lparr>hp_mem := m\<rparr>"
      using mem_free_form by blast
    have "z < hp_next h1" "\<not> ht_cow (hp_tabs h1 z)" "heap_inv h1" using s' z by auto
    from unlink_spec[OF this(3,2,1) p(1,3)] show ?thesis
      using Some p(2) by (simp add: m wrote_def cells_same_def zvals_same_def)
  qed
  then show ?thesis
    unfolding s(2) by (rule wrote_from[OF _ s(1)]) (use s' in \<open>auto simp: cells_same_def\<close>)
qed

lemma UnsetInt_wrote:
  assumes inv: "heap_inv h" and z: "z < hp_next h"
  shows "wrote h z (\<lambda>h'. ht_view h' z = kv_unset (KInt k) (ht_view h z))
     (map_option Ok (ht_UnsetInt k z h))"
proof -
  define mk where "mk = (\<lambda>t h. upd_node t (\<lambda>n. n\<lparr>nd_deleted := True\<rparr>)
      (upd_map_i (ht_idx_i (hp_tabs h z)) (go_del k) (upd_tab z (\<lambda>x. x\<lparr>ht_count := ht_count x - 1\<rparr>) h)))"
  have eq: "ht_UnsetInt k z h = sep_then z h (\<lambda>h. case map_of (idx_i h z) k of
        None \<Rightarrow> Some h | Some t \<Rightarrow> Some (mem_free z memEstimatePerElement (ht_unlink t z (mk t h))))"
    unfolding ht_UnsetInt_def mk_def Let_def by (simp cong: option.case_cong)
  show ?thesis
    unfolding eq
  proof (rule unset_spec[OF inv z])
    fix h assume "heap_inv h" "map_of (idx_i h z) k = None"
    then show "KInt k \<notin> set (ht_keys h z)" by (rule keys_none(1))
  next
    fix h t assume "heap_inv h" "map_of (idx_i h z) k = Some t"
    then have "t \<in> set (xs_of h z) \<and> nd_k (hp_nodes h t) = KInt k" by (rule keys_some(1))
    then show "t \<in> set (xs_of h z) \<and> nd_k (hp_nodes h t) = KInt k \<and> ready_to_unlink h z t (mk t h)"
      by (simp add: ready_to_unlink_def mk_def idx_i_def)
  qed
qed

lemma UnsetString_wrote:
  assumes inv: "heap_inv h" and z: "z < hp_next h"
  shows "wrote h z (\<lambda>h'. ht_view h' z = kv_unset (KStr k) (ht_view h z))
     (map_option Ok (ht_UnsetString k z h))"
proof -
  define mk where "mk = (\<lambda>t h. upd_node t (\<lambda>n. n\<lparr>nd_deleted := True\<rparr>)
      (upd_map_s (ht_idx_s (hp_tabs h z)) (go_del k) (upd_tab z (\<lambda>x. x\<lparr>ht_count := ht_count x - 1\<rparr>) h)))"
  have eq: "ht_UnsetString k z h = sep_then z h (\<lambda>h. case map_of (idx_s h z) k of
        None \<Rightarrow> Some h | Some t \<Rightarrow> Some (mem_free z memEstimatePerElement (ht_unlink t z (mk t h))))"
    unfolding ht_UnsetString_def mk_def Let_def by (simp cong: option.case_cong)
  show ?thesis
    unfolding eq
  proof (rule unset_spec[OF inv z])
    fix h assume "heap_inv h" "map_of (idx_s h z) k = None"
    then show "KStr k \<notin> set (ht_keys h z)" by (rule keys_none(2))
  next
    fix h t assume "heap_inv h" "map_of (idx_s h z) k = Some t"
    then have "t \<in> set (xs_of h z) \<and> nd_k (hp_nodes h t) = KStr k" by (rule keys_some(2))
    then show "t \<in> set (xs_of h z) \<and> nd_k (hp_nodes h t) = KStr k \<and> ready_to_unlink h z t (mk t h)"
      by (simp add: ready_to_unlink_def mk_def idx_s_def)
  qed
qed

section \<open>Emptying\<close>

lemma mark_deleted_simps [simp]:
  "hp_zvals (mark_deleted as h) = hp_zvals h" "hp_tabs (mark_deleted as h) = hp_tabs h"
  "hp_maps_s (mark_deleted as h) = hp_maps_s h" "hp_maps_i (mark_deleted as h) = hp_maps_i h"
  "hp_next (mark_deleted as h) = hp_next h" "hp_mem (mark_deleted as h) = hp_mem h"
  "a \<notin> set as \<Longrightarrow> hp_nodes (mark_deleted as h) a = hp_nodes h a"
  by (induction as arbitrary: h) auto

lemma idx_mark: "idx_s (mark_deleted as h) z = idx_s h z" "idx_i (mark_deleted as h) z = idx_i h z"
  by (simp_all add: idx_s_def idx_i_def)

lemma clear_table_simps [simp]:
  "hp_zvals (clear_table z h) = hp_zvals h" "hp_nodes (clear_table z h) = hp_nodes h"
  "hp_maps_s (clear_table z h) = (hp_maps_s h)(ht_idx_s (hp_tabs h z) := [])"
  "hp_maps_i (clear_table z h) = (hp_maps_i h)(ht_idx_i (hp_tabs h z) := [])"
  "hp_next (clear_table z h) = hp_next h" "hp_mem (clear_table z h) = hp_mem h"
  "t \<noteq> z \<Longrightarrow> hp_tabs (clear_table z h) t = hp_tabs h t"
  "ht_first (hp_tabs (clear_table z h) z) = None" "ht_last (hp_tabs (clear_table z h) z) = None"
  "ht_count (hp_tabs (clear_table z h) z) = 0" "ht_inc (hp_tabs (clear_table z h) z) = 0"
  "ht_idx_s (hp_tabs (clear_table z h) t) = ht_idx_s (hp_tabs h t)"
  "ht_idx_i (hp_tabs (clear_table z h) t) = ht_idx_i (hp_tabs h t)"
  "ht_memTracker (hp_tabs (clear_table z h) z) = ht_memTracker (hp_tabs h z)"
  by (simp_all add: clear_table_def Let_def set_cur_def upd_map_i_def upd_map_s_def)

lemma clear_spec:
  assumes inv: "heap_inv h" and nc: "\<not> ht_cow (hp_tabs h z)" and z: "z < hp_next h"
    and as: "set as \<subseteq> set (xs_of h z)"
  defines "h2 \<equiv> clear_table z (mark_deleted as h)"
  shows "heap_inv h2" "others_same h z h2" "ht_view h2 z = []" "hp_next h2 = hp_next h"
    "hp_zvals h2 = hp_zvals h"
proof -
  note rep = heap_inv_rep[OF inv, of z, unfolded ht_rep_def]
  have rep2: "ht_rep h2 z []"
    using rep by (simp add: ht_rep_def h2_def idx_i_def idx_s_def)
  have con: "confined h z h2"
    using inv as by (auto simp: confined_def h2_def heap_inv_def intro!: mark_deleted_simps(7))
  show "heap_inv h2" "others_same h z h2" using confined_inv[OF inv nc con rep2] by auto
  show "ht_view h2 z = []" by (simp add: ht_view_def rep_xs_of[OF rep2])
  show "hp_next h2 = hp_next h" "hp_zvals h2 = hp_zvals h" by (simp_all add: h2_def)
qed

definition emptied :: "heap \<Rightarrow> addr \<Rightarrow> heap \<Rightarrow> bool" where
  "emptied h z h' = (ht_view h' z = [] \<and> ht_inc (hp_tabs h' z) = 0)"

lemma Empty_wrote:
  assumes "heap_inv h" "z < hp_next h"
  shows "wrote h z (emptied h z) (map_option Ok (ht_Empty z h))"
proof -
  from sep_then_spec[OF assms] obtain h1 where
    s: "separated h z h1" "\<And>k. sep_then z h k = (k h1 :: heap option)" by metis
  note s' = s(1)[unfolded separated_def]
  have "heap_inv h1" "\<not> ht_cow (hp_tabs h1 z)" "z < hp_next h1" using s' assms(2) by auto
  from clear_spec[OF this, of "[]"] have
    "wrote h1 z (emptied h1 z) (map_option Ok (ht_Empty z h))"
    by (simp add: ht_Empty_def s(2) wrote_def emptied_def zvals_same_def)
  then show ?thesis by (rule wrote_from[OF _ s(1)]) (use s' in \<open>auto simp: emptied_def\<close>)
qed

lemma Clear_wrote:
  assumes "heap_inv h" "z < hp_next h"
  shows "wrote h z (emptied h z) (map_option Ok (ht_Clear z h))"
proof -
  from sep_then_spec[OF assms] obtain h1 where
    s: "separated h z h1" "\<And>k. sep_then z h k = (k h1 :: heap option)" by metis
  note s' = s(1)[unfolded separated_def]
  let ?as = "go_vals (idx_i h1 z) @ go_vals (idx_s h1 z)"
  have md: "mark_deleted ys (mark_deleted xs h) = mark_deleted (xs @ ys) h" for xs ys h
    by (induction xs arbitrary: h) auto
  have inv1: "heap_inv h1" "\<not> ht_cow (hp_tabs h1 z)" "z < hp_next h1" using s' assms(2) by auto
  let ?h2 = "clear_table z (mark_deleted ?as h1)"
  obtain m where m: "(if ht_count (hp_tabs h1 z) > 0
      then mem_free z (word_of_int (ht_count (hp_tabs h1 z)) * memEstimatePerElement) ?h2 else ?h2)
      = ?h2\<lparr>hp_mem := m\<rparr>"
    using mem_free_if by blast
  have r: "ht_Clear z h = Some (?h2\<lparr>hp_mem := m\<rparr>)"
    unfolding ht_Clear_def s(2) Let_def idx_mark md m by (rule refl)
  have "set ?as \<subseteq> set (xs_of h1 z)"
    using keys_some[OF inv1(1), of z] by (auto simp: go_vals_set)
  from clear_spec[OF inv1 this] have
    "wrote h1 z (emptied h1 z) (map_option Ok (ht_Clear z h))"
    by (simp add: r wrote_def emptied_def zvals_same_def)
  then show ?thesis by (rule wrote_from[OF _ s(1)]) (use s' in \<open>auto simp: emptied_def\<close>)
qed

end
