(* ===== verification/HashShare.thy ===== *)
theory HashShare
  imports HashWrite
begin

text \<open>
  The contract of a hash table as a whole: construction, copies that share until one side writes,
  every writer as one kind of step, the invariant of every heap the operations can reach, and the
  interface its clients use.
\<close>

section \<open>Construction\<close>

lemma NewHashTable_simps:
  "fst (NewHashTable h) = hp_next h + 2" "hp_next (snd (NewHashTable h)) = hp_next h + 3"
  "hp_zvals (snd (NewHashTable h)) = hp_zvals h" "hp_nodes (snd (NewHashTable h)) = hp_nodes h"
  "hp_maps_s (snd (NewHashTable h)) = (hp_maps_s h)(hp_next h := [])"
  "hp_maps_i (snd (NewHashTable h)) = (hp_maps_i h)(Suc (hp_next h) := [])"
  "hp_mem (snd (NewHashTable h)) = hp_mem h"
  "hp_tabs (snd (NewHashTable h)) = (hp_tabs h)(hp_next h + 2 :=
     \<lparr>ht_first = None, ht_last = None, ht_inc = 0, ht_count = 0, ht_cow = False,
      ht_incInit = False, ht_idx_s = hp_next h, ht_idx_i = Suc (hp_next h),
      ht_mainIterator = \<lparr>hi_t = hp_next h + 2, hi_cur = None, hi_prevRef = None\<rparr>,
      ht_memTracker = False\<rparr>)"
  by (simp_all add: NewHashTable_def new_table_def new_map_s_def new_map_i_def Let_def numeral_2_eq_2 numeral_3_eq_3)

lemma NewHashTable_spec:
  assumes inv: "heap_inv h"
  defines "h' \<equiv> snd (NewHashTable h)" and "n \<equiv> hp_next h + 2"
  shows "heap_inv h'" "ht_view h' n = []" "others_same h n h'" "zvals_same h h'"
    "z < hp_next h \<Longrightarrow> ht_view h' z = ht_view h z"
proof -
  note s = NewHashTable_simps[of h, folded h'_def n_def]
  have repn: "ht_rep h' n []"
    by (simp add: ht_rep_def s idx_i_def idx_s_def)
  have other: "ht_rep h' t (xs_of h t)" "xs_of h' t = xs_of h t" if t: "t \<noteq> n" for t
  proof -
    note r = heap_inv_rep[OF inv, of t, unfolded ht_rep_def]
    have "ht_idx_s (hp_tabs h t) \<noteq> hp_next h" "ht_idx_i (hp_tabs h t) \<noteq> Suc (hp_next h)" using r by auto
    then have maps: "idx_i h' t = idx_i h t" "idx_s h' t = idx_s h t"
      using t by (simp_all add: idx_i_def idx_s_def s)
    show rp: "ht_rep h' t (xs_of h t)"
      unfolding ht_rep_def maps using r t by (auto simp: s)
    show "xs_of h' t = xs_of h t" by (rule rep_xs_of[OF rp])
  qed
  have xn: "xs_of h' n = []" by (rule rep_xs_of[OF repn])
  have "excl h' t t'" if "t \<noteq> t'" "\<not> ht_cow (hp_tabs h' t)" for t t'
  proof -
    have b: "ht_idx_s (hp_tabs h u) < hp_next h" "ht_idx_i (hp_tabs h u) < hp_next h" for u
      using heap_inv_rep[OF inv, of u] by (simp_all add: ht_rep_def)
    show ?thesis
    proof (cases "t = n \<or> t' = n")
      case True
      then show ?thesis using that(1) xn b[of t] b[of t'] by (auto simp: excl_def s)
    next
      case False
      then have "excl h t t'" using inv that by (simp add: heap_inv_def s)
      then show ?thesis using False other(2) by (simp add: excl_def s)
    qed
  qed
  moreover have "ht_rep h' t (xs_of h' t)" for t
    using repn xn other by (cases "t = n") simp_all
  moreover have "val_bound (hp_next h') (zv_v (hp_zvals h' a))" for a
    using inv val_bound_mono[of "hp_next h" _ "hp_next h'"] by (simp add: heap_inv_def s)
  ultimately show "heap_inv h'" unfolding heap_inv_def by blast
  show "ht_view h' n = []" by (simp add: ht_view_def xn)
  show os: "others_same h n h'" using other(2) by (simp add: others_same_def s)
  show "zvals_same h h'" by (simp add: zvals_same_def s)
  show "ht_view h' z = ht_view h z" if z: "z < hp_next h"
  proof -
    have zn: "z \<noteq> n" using z by (simp add: n_def)
    have b: "val_bound (hp_next h) (zv_v (hp_zvals h a))" for a using inv by (simp add: heap_inv_def)
    have "cell_view h' a = cell_view h a" for a
      using b[of a] by (cases "zv_v (hp_zvals h a)") (auto simp: cell_view_def val_view_def s n_def val_bound_def)
    then show ?thesis by (simp add: ht_view_def other(2)[OF zn] s)
  qed
qed

section \<open>Writers as steps\<close>

text \<open>The entries of a table with the values as they are stored.\<close>

definition ht_raw :: "heap \<Rightarrow> addr \<Rightarrow> (key \<times> val) list" where
  "ht_raw h z = map (\<lambda>a. (nd_k (hp_nodes h a), zv_v (hp_zvals h (nd_v (hp_nodes h a))))) (xs_of h z)"

datatype awrite =
    WSetInt int addr | WSetString bytes addr | WAppend addr
  | WUnsetInt int | WUnsetString bytes | WClear | WEmpty

fun run_write :: "awrite \<Rightarrow> addr \<Rightarrow> heap \<Rightarrow> heap go option" where
  "run_write (WSetInt k v) z h = ht_SetInt k (Some v) z h"
| "run_write (WSetString k v) z h = ht_SetString k (Some v) z h"
| "run_write (WAppend v) z h = ht_Append v z h"
| "run_write (WUnsetInt k) z h = ht_SetInt k None z h"
| "run_write (WUnsetString k) z h = ht_SetString k None z h"
| "run_write WClear z h = map_option Ok (ht_Clear z h)"
| "run_write WEmpty z h = map_option Ok (ht_Empty z h)"

text \<open>Its value exists, and it does not store through a reference.\<close>

fun write_ok :: "heap \<Rightarrow> addr \<Rightarrow> awrite \<Rightarrow> bool" where
  "write_ok h z (WSetInt k v) = (v < hp_next h \<and> no_ref_at h z (KInt k))"
| "write_ok h z (WSetString k v) = (v < hp_next h \<and> no_ref_at h z (KStr k))"
| "write_ok h z (WAppend v) = (v < hp_next h)"
| "write_ok h z _ = True"

text \<open>What it makes of the entries of the table.\<close>

fun write_effect :: "awrite \<Rightarrow> heap \<Rightarrow> addr \<Rightarrow> heap \<Rightarrow> bool" where
  "write_effect (WSetInt k v) h z h' = (ht_view h' z = kv_set (KInt k) (cell_view h' v) (ht_view h z))"
| "write_effect (WSetString k v) h z h' = (ht_view h' z = kv_set (KStr k) (cell_view h' v) (ht_view h z))"
| "write_effect (WAppend v) h z h' =
     (\<exists>k \<ge> ht_inc (hp_tabs h z). KInt k \<notin> set (ht_keys h z)
        \<and> (\<forall>j. ht_inc (hp_tabs h z) \<le> j \<longrightarrow> j < k \<longrightarrow> KInt j \<in> set (ht_keys h z))
        \<and> ht_view h' z = ht_view h z @ [(KInt k, cell_view h' v)])"
| "write_effect (WUnsetInt k) h z h' = (ht_view h' z = kv_unset (KInt k) (ht_view h z))"
| "write_effect (WUnsetString k) h z h' = (ht_view h' z = kv_unset (KStr k) (ht_view h z))"
| "write_effect WClear h z h' = (ht_view h' z = [])"
| "write_effect WEmpty h z h' = (ht_view h' z = [])"

lemma wrote_mono: "wrote h z P r \<Longrightarrow> (\<And>h'. P h' \<Longrightarrow> Q h') \<Longrightarrow> wrote h z Q r"
  by (auto simp: wrote_def split: option.splits go.splits)

lemma run_write_wrote:
  assumes "heap_inv h" "z < hp_next h" "write_ok h z w"
  shows "wrote h z (write_effect w h z) (run_write w z h)"
proof (cases w)
  case (WSetInt k v)
  then show ?thesis using wrote_mono[OF SetInt_wrote[OF assms(1,2)]] assms(3) by simp
next
  case (WSetString k v)
  then show ?thesis using wrote_mono[OF SetString_wrote[OF assms(1,2)]] assms(3) by simp
next
  case (WUnsetInt k)
  then show ?thesis using wrote_mono[OF UnsetInt_wrote[OF assms(1,2)]] assms(3)
    by (simp add: ht_SetInt_def ht_SetString_def)
next
  case (WUnsetString k)
  then show ?thesis using wrote_mono[OF UnsetString_wrote[OF assms(1,2)]] assms(3)
    by (simp add: ht_SetInt_def ht_SetString_def)
next
  case WClear
  then show ?thesis using wrote_mono[OF Clear_wrote[OF assms(1,2)]] assms(3) by (simp add: emptied_def)
next
  case WEmpty
  then show ?thesis using wrote_mono[OF Empty_wrote[OF assms(1,2)]] assms(3) by (simp add: emptied_def)
next
  case (WAppend v)
  then have v: "v < hp_next h" using assms(3) by simp
  obtain ok k where nf: "next_free (idx_i h z) (ht_inc (hp_tabs h z)) = (ok, k)" by fastforce
  note A = Append_spec[OF assms(1,2) v nf]
  have m: "KInt j \<in> set (ht_keys h z) \<longleftrightarrow> map_of (idx_i h z) j \<noteq> None" for j
    using HasInt_view[OF assms(1)] by (simp add: ht_HasInt_def)
  show ?thesis
  proof (cases ok)
    case True
    then show ?thesis
      using A(1) next_free_spec[OF nf] WAppend
      by (auto simp: wrote_def appended_def m split: option.splits go.splits)
  next
    case False
    then show ?thesis using A(2) WAppend by (auto simp: wrote_def)
  qed
qed

definition go_heap :: "'a go \<Rightarrow> 'a option" where
  "go_heap r = (case r of Ok h \<Rightarrow> Some h | Fail _ h \<Rightarrow> Some h | Panic _ \<Rightarrow> None)"

lemma wrote_always:
  assumes "wrote h z P r"
  shows "\<exists>x h'. r = Some x \<and> go_heap x = Some h' \<and> heap_inv h' \<and> others_same h z h'
     \<and> hp_next h \<le> hp_next h' \<and> zvals_same h h'"
  using assms by (auto simp: wrote_def go_heap_def split: option.splits go.splits)

section \<open>Isolation of copies\<close>

text \<open>A run of writes on one table; it also passes through the heaps of failed calls.\<close>

inductive writes_on :: "addr \<Rightarrow> heap \<Rightarrow> heap \<Rightarrow> bool" for z where
  stop: "writes_on z h h"
| step: "writes_on z h h1 \<Longrightarrow> write_ok h1 z w \<Longrightarrow> run_write w z h1 = Some r \<Longrightarrow> go_heap r = Some h2
    \<Longrightarrow> writes_on z h h2"

inductive_cases writes_onE: "writes_on z h h'"

lemma raw_others:
  assumes "heap_inv h" "others_same h z h'" "zvals_same h h'" "z' < hp_next h" "z' \<noteq> z"
  shows "ht_raw h' z' = ht_raw h z'" "ht_Count z' h' = ht_Count z' h"
proof -
  have "nd_v (hp_nodes h a) < hp_next h" if "a \<in> set (xs_of h z')" for a
    using heap_inv_rep[OF assms(1), of z'] that by (simp add: ht_rep_def)
  then show "ht_raw h' z' = ht_raw h z'"
    using assms(2-5) by (simp add: ht_raw_def others_same_def zvals_same_def)
  show "ht_Count z' h' = ht_Count z' h"
    using assms(2,4,5) by (simp add: others_same_def ht_Count_def same_data_def)
qed

lemma writes_on_spec:
  assumes "writes_on z h h'" "heap_inv h" "z < hp_next h"
  shows "heap_inv h' \<and> others_same h z h' \<and> zvals_same h h' \<and> hp_next h \<le> hp_next h'"
  using assms
proof (induction rule: writes_on.induct)
  case (stop h)
  then show ?case by (simp add: zvals_same_def)
next
  case (step h h1 w r h2)
  then have 1: "heap_inv h1" "others_same h z h1" "zvals_same h h1" "hp_next h \<le> hp_next h1" by auto
  then have "z < hp_next h1" using step.prems(2) by simp
  from wrote_always[OF run_write_wrote[OF 1(1) this step.hyps(2)]] step.hyps(3,4)
  have "heap_inv h2" "others_same h1 z h2" "hp_next h1 \<le> hp_next h2" "zvals_same h1 h2" by auto
  then show ?case
    using 1 others_trans zvals_trans by (meson le_trans)
qed

lemma dup_isolated:
  assumes inv: "heap_inv h" and z: "z < hp_next h" and d: "ht_Dup z h = (n, h1)" and w: "writes_on m h1 h2"
    and m: "m = n \<or> m = z" and k: "k = n \<or> k = z" "k \<noteq> m"
  shows "ht_raw h2 k = ht_raw h z" "ht_Count k h2 = ht_Count z h" "heap_inv h2"
proof -
  have e: "n = hp_next h" "h1 = snd (ht_Dup z h)" using d dup_simps(1)[of z h] by auto
  note g = ext_Dup[OF z, folded e]
  have i1: "heap_inv h1" and nx: "hp_next h1 = Suc (hp_next h)"
    using dup_view(3)[OF inv z] dup_simps(2)[of z h] by (simp_all add: e)
  have mk: "m < hp_next h1" "k < hp_next h1" using m k z nx e(1) by auto
  note W = writes_on_spec[OF w i1 mk(1)]
  then show "heap_inv h2" by blast
  have r: "ht_raw h2 k = ht_raw h1 k" "ht_Count k h2 = ht_Count k h1"
    using raw_others[OF i1 _ _ mk(2) k(2)] W by blast+
  have sd: "same_data (hp_tabs h1 k) (hp_tabs h z)"
    using dup_tabs(1,5)[OF z] k(1) e by auto
  then have "xs_of h1 k = xs_of h z"
    by (simp add: xs_of_def ht_nodes_def same_data_def e dup_simps)
  then have "ht_raw h1 k = ht_raw h z" by (simp add: ht_raw_def e dup_simps)
  then show "ht_raw h2 k = ht_raw h z" "ht_Count k h2 = ht_Count z h"
    using r sd by (simp_all add: ht_Count_def same_data_def)
qed

section \<open>Storing through references\<close>

text \<open>The operations on single cells touch no table.\<close>

definition cells_only :: "heap \<Rightarrow> heap \<Rightarrow> bool" where
  "cells_only h h' =
     (hp_nodes h' = hp_nodes h \<and> hp_tabs h' = hp_tabs h \<and> hp_maps_s h' = hp_maps_s h
      \<and> hp_maps_i h' = hp_maps_i h \<and> hp_mem h' = hp_mem h \<and> hp_next h \<le> hp_next h'
      \<and> (\<forall>a. val_bound (hp_next h') (zv_v (hp_zvals h' a))))"

lemma cells_only_inv:
  assumes "heap_inv h" "cells_only h h'"
  shows "heap_inv h'" "xs_of h' z = xs_of h z" "ht_keys h' z = ht_keys h z" "ht_Count z h' = ht_Count z h"
proof -
  note c = assms(2)[unfolded cells_only_def]
  show x: "xs_of h' z = xs_of h z" for z using c by (simp add: xs_of_def ht_nodes_def)
  have i: "idx_i h' z = idx_i h z" "idx_s h' z = idx_s h z" for z using c by (simp_all add: idx_i_def idx_s_def)
  have "ht_rep h' z (xs_of h z)" for z
    using heap_inv_rep[OF assms(1), of z] c unfolding ht_rep_def i by auto
  then show "heap_inv h'" using assms(1) c by (simp add: heap_inv_def excl_def x)
  show "ht_keys h' z = ht_keys h z" using c by (simp add: ht_keys_def x)
  show "ht_Count z h' = ht_Count z h" using c by (simp add: ht_Count_def)
qed

lemma cells_only_upd:
  assumes "heap_inv h" "val_bound (hp_next h) (zv_v (f (hp_zvals h a)))"
  shows "cells_only h (upd_zval a f h)"
  using assms by (simp add: cells_only_def heap_inv_def)

lemma cells_only_new:
  assumes "heap_inv h" "val_bound (Suc (hp_next h)) (zv_v c)"
  shows "cells_only h (snd (new_zval c h))"
  using assms val_bound_mono[of "hp_next h" _ "Suc (hp_next h)"] by (simp add: cells_only_def heap_inv_def)

lemma cells_only_trans: "cells_only h h1 \<Longrightarrow> cells_only h1 h2 \<Longrightarrow> cells_only h h2"
  by (auto simp: cells_only_def)

lemma cells_only_redirect:
  assumes "heap_inv h" "val_bound (hp_next h) (zv_v c)"
  shows "cells_only h (upd_zval z (\<lambda>x. x\<lparr>zv_v := VRef (hp_next h)\<rparr>) (snd (new_zval c h)))"
proof (rule cells_only_trans)
  have b: "val_bound (Suc (hp_next h)) (zv_v c)" using assms(2) val_bound_mono by (metis le_SucI order_refl)
  show n: "cells_only h (snd (new_zval c h))" by (rule cells_only_new[OF assms(1) b])
  show "cells_only (snd (new_zval c h)) (upd_zval z (\<lambda>x. x\<lparr>zv_v := VRef (hp_next h)\<rparr>) (snd (new_zval c h)))"
    by (rule cells_only_upd) (use cells_only_inv(1)[OF assms(1) n] in \<open>simp_all add: val_bound_def\<close>)
qed

lemma zv_Set_cells:
  assumes "heap_inv h" "zv_Set h z nz = Some r"
  shows "case r of Ok h' \<Rightarrow> cells_only h h' | Panic _ \<Rightarrow> True | Fail _ _ \<Rightarrow> False"
proof -
  have b: "val_bound (hp_next h) (zv_v (hp_zvals h a))" for a using assms(1) by (simp add: heap_inv_def)
  show ?thesis
  proof (rule zv_Set.raw_induct[OF _ assms(2), of "\<lambda>g z nz r. g = h \<longrightarrow>
      (case r of Ok h' \<Rightarrow> cells_only h h' | Panic _ \<Rightarrow> True | Fail _ _ \<Rightarrow> False)", rule_format])
    fix S g z nz r
    assume IH: "\<And>g z nz r. S g z nz = Some r \<Longrightarrow> g = h \<Longrightarrow>
        case r of Ok h' \<Rightarrow> cells_only h h' | Panic _ \<Rightarrow> True | Fail _ _ \<Rightarrow> False"
      and r: "(if zv_isCached g z then Some (Panic ''Set() called on cached ZVal'')
      else
        (case ref_target (zv_v (hp_zvals g nz)) of
           Some inner \<Rightarrow>
             (if z \<noteq> inner then Some (Ok (upd_zval z (\<lambda>c. c\<lparr>zv_v := VRef inner\<rparr>) g))
              else (case NewZVal (zv_v (hp_zvals g z)) g of
                      (a, h) \<Rightarrow> Some (Ok (upd_zval z (\<lambda>c. c\<lparr>zv_v := VRef a\<rparr>) h))))
         | None \<Rightarrow>
             (case ref_target (zv_v (hp_zvals g z)) of
                Some rz \<Rightarrow> S g rz nz
              | None \<Rightarrow>
                  Some (Ok (upd_zval z (\<lambda>c. c\<lparr>zv_v := zv_v (hp_zvals g nz)\<rparr>) g))))) = Some r"
      and g: "g = h"
    have ref: "val_bound (hp_next h) (VRef inner)" if "ref_target (zv_v (hp_zvals h nz)) = Some inner" for inner
      using b[of nz] that by (cases "zv_v (hp_zvals h nz)") auto
    show "case r of Ok h' \<Rightarrow> cells_only h h' | Panic _ \<Rightarrow> True | Fail _ _ \<Rightarrow> False"
    proof (cases "zv_isCached h z")
      case True
      then show ?thesis using r g by auto
    next
      case nc: False
      show ?thesis
      proof (cases "ref_target (zv_v (hp_zvals h nz))")
        case (Some inner)
        have "cells_only h (upd_zval z (\<lambda>c. c\<lparr>zv_v := VRef inner\<rparr>) h)"
          by (rule cells_only_upd[OF assms(1)]) (simp add: ref[OF Some])
        moreover have "cells_only h (upd_zval z (\<lambda>c. c\<lparr>zv_v := VRef (hp_next h)\<rparr>)
            (snd (new_zval (plain_zval (zv_v (hp_zvals h z))) h)))"
          by (rule cells_only_redirect[OF assms(1)]) (simp add: plain_zval_def b)
        ultimately show ?thesis
          using r g nc Some by (auto simp: NewZVal_def case_prod_unfold split: if_splits)
      next
        case None
        have "cells_only h (upd_zval z (\<lambda>c. c\<lparr>zv_v := zv_v (hp_zvals h nz)\<rparr>) h)"
          by (rule cells_only_upd[OF assms(1)]) (simp add: b)
        then show ?thesis
          using r g nc None IH[of h _ nz r] by (auto split: option.splits)
      qed
    qed
  qed simp
qed

text \<open>A writer without the restriction on references: it keeps the invariant.\<close>

lemma sep_unshared: "\<not> ht_cow (hp_tabs h z) \<Longrightarrow> sep_then z h k = k h"
  by (simp add: sep_then_def ht_SeparateCow_def)

lemma ref_at_cell:
  assumes "map_of (ht_view h z) k = Some (cell_view h a)" "\<not> no_ref_at h z k"
  shows "zv_IsRef h a"
  using assms cell_view_ref[of h a] by (auto simp: no_ref_at_def zv_IsRef_def)

lemma no_ref_absent: "map_of (ht_view h z) k = None \<Longrightarrow> no_ref_at h z k"
  by (simp add: no_ref_at_def)

lemma set_any:
  assumes inv: "heap_inv h" and z: "z < hp_next h" and v: "v < hp_next h"
    and W: "\<And>h. heap_inv h \<Longrightarrow> z < hp_next h \<Longrightarrow> v < hp_next h \<Longrightarrow> no_ref_at h z k \<Longrightarrow> \<exists>P. wrote h z P (run h)"
    and S: "\<And>h h1. (\<And>k. sep_then z h k = (k h1 :: heap go option)) \<Longrightarrow> \<not> ht_cow (hp_tabs h1 z) \<Longrightarrow> run h = run h1"
    and F: "\<And>h. heap_inv h \<Longrightarrow> \<not> ht_cow (hp_tabs h z) \<Longrightarrow> \<not> no_ref_at h z k
        \<Longrightarrow> \<exists>t. run h = assign_node t v h \<and> zv_IsRef h (nd_v (hp_nodes h t))"
    and r: "run h = Some r" "go_heap r = Some h'"
  shows "heap_inv h' \<and> hp_next h \<le> hp_next h'"
proof -
  from sep_then_spec[OF inv z] obtain h1 where
    s: "separated h z h1" "\<And>k. sep_then z h k = (k h1 :: heap go option)" by metis
  note s' = s(1)[unfolded separated_def]
  have lt: "z < hp_next h1" "v < hp_next h1" "heap_inv h1" using s' z v by auto
  have nc: "\<not> ht_cow (hp_tabs h1 z)" using s' by blast
  have r1: "run h1 = Some r" using S[OF s(2) nc] r(1) by simp
  show ?thesis
  proof (cases "no_ref_at h1 z k")
    case True
    from W[OF lt(3,1,2) True] obtain P where "wrote h1 z P (run h1)" by blast
    from wrote_always[OF this] r1 r(2) s' show ?thesis by auto
  next
    case False
    from F[OF lt(3) nc False] obtain t where
      "run h1 = assign_node t v h1" "zv_IsRef h1 (nd_v (hp_nodes h1 t))" by blast
    then have "zv_Set h1 (nd_v (hp_nodes h1 t)) v = Some r" using r1 by (simp add: assign_node_def)
    from zv_Set_cells[OF lt(3) this] r(2) have "cells_only h1 h'"
      by (cases r) (auto simp: go_heap_def)
    then show ?thesis
      using cells_only_inv(1)[OF lt(3)] s' by (auto simp: cells_only_def)
  qed
qed

lemma SetInt_any:
  assumes "heap_inv h" "z < hp_next h" "v < hp_next h" "ht_SetInt k (Some v) z h = Some r" "go_heap r = Some h'"
  shows "heap_inv h' \<and> hp_next h \<le> hp_next h'"
proof (rule set_any[where run = "ht_SetInt k (Some v) z" and k = "KInt k", OF assms(1-3) _ _ _ assms(4,5)])
  show "\<exists>P. wrote g z P (ht_SetInt k (Some v) z g)"
    if "heap_inv g" "z < hp_next g" "v < hp_next g" "no_ref_at g z (KInt k)" for g
    using SetInt_wrote[OF that] by blast
  show "ht_SetInt k (Some v) z g = ht_SetInt k (Some v) z g1"
    if "\<And>k. sep_then z g k = (k g1 :: heap go option)" "\<not> ht_cow (hp_tabs g1 z)" for g g1
    unfolding ht_SetInt_def option.case that(1) sep_unshared[OF that(2)] by (rule refl)
  fix g assume g: "heap_inv g" "\<not> ht_cow (hp_tabs g z)" "\<not> no_ref_at g z (KInt k)"
  then obtain t where t: "map_of (idx_i g z) k = Some t"
    using index_view(3)[OF g(1)] no_ref_absent by (metis not_None_eq)
  then show "\<exists>t. ht_SetInt k (Some v) z g = assign_node t v g \<and> zv_IsRef g (nd_v (hp_nodes g t))"
    using ref_at_cell[OF index_view(1)[OF g(1) t] g(3)] t by (auto simp: ht_SetInt_def sep_unshared[OF g(2)])
qed

lemma SetString_any:
  assumes "heap_inv h" "z < hp_next h" "v < hp_next h" "ht_SetString k (Some v) z h = Some r" "go_heap r = Some h'"
  shows "heap_inv h' \<and> hp_next h \<le> hp_next h'"
proof (rule set_any[where run = "ht_SetString k (Some v) z" and k = "KStr k", OF assms(1-3) _ _ _ assms(4,5)])
  show "\<exists>P. wrote g z P (ht_SetString k (Some v) z g)"
    if "heap_inv g" "z < hp_next g" "v < hp_next g" "no_ref_at g z (KStr k)" for g
    using SetString_wrote[OF that] by blast
  show "ht_SetString k (Some v) z g = ht_SetString k (Some v) z g1"
    if "\<And>k. sep_then z g k = (k g1 :: heap go option)" "\<not> ht_cow (hp_tabs g1 z)" for g g1
    unfolding ht_SetString_def option.case that(1) sep_unshared[OF that(2)] by (rule refl)
  fix g assume g: "heap_inv g" "\<not> ht_cow (hp_tabs g z)" "\<not> no_ref_at g z (KStr k)"
  then obtain t where t: "map_of (idx_s g z) k = Some t"
    using index_view(4)[OF g(1)] no_ref_absent by (metis not_None_eq)
  then show "\<exists>t. ht_SetString k (Some v) z g = assign_node t v g \<and> zv_IsRef g (nd_v (hp_nodes g t))"
    using ref_at_cell[OF index_view(2)[OF g(1) t] g(3)] t by (auto simp: ht_SetString_def sep_unshared[OF g(2)])
qed

end
