(* ===== verification/HashReach.thy ===== *)
theory HashReach
  imports HashShare
begin

text \<open>
  The heaps that the operations on values and tables can reach, the properties of hash tables in
  them, and two operations that break the promises the others keep: \<open>MergeTable\<close>, which does not
  index the string keys it adds, and \<open>ResetIntKeys\<close>, which does not separate a shared table.
\<close>

section \<open>Evaluation on concrete heaps\<close>

text \<open>The steps of an operation are evaluated one after another: the continuation of a bind, a let
  or a pair match only once its argument is known.\<close>

lemma bind_weak_cong: "b = b' \<Longrightarrow> Option.bind b f = Option.bind b' f"
  by simp

lemma prod_weak_cong: "b = b' \<Longrightarrow> case_prod f b = case_prod f b'"
  by simp

lemma map_option_weak_cong: "b = b' \<Longrightarrow> map_option f b = map_option f b'"
  by simp

lemmas heap_eval =
  empty_heap_def default_table_def plain_zval_def NewZVal_def NewHashTable_def new_zval_def
  new_node_def new_table_def new_map_s_def new_map_i_def upd_zval_def upd_node_def upd_tab_def
  upd_map_s_def upd_map_i_def go_put_def go_del_def go_vals_def zv_private_def zv_isCached_def
  zv_IsRef_def zv_RefTarget_def zv_ZVal_def wrap_copy_def ht_Dup_def ht_doCopy_def ht_SetString_def ht_SetInt_def
  ht_Append_def ht_UnsetInt_def ht_UnsetString_def ht_unlink_def sep_then_def ht_SeparateCow_def idx_s_def idx_i_def
  mem_alloc_def mem_free_def assign_node_def fresh_node_def link_last_def set_cur_def ht_cur_def
  ht_Count_def note_int_key_def int64_max_def index_node_def ht_nodes_def xs_of_def ht_view_def
  ht_keys_def ht_raw_def cell_view_def val_view_def ht_HasString_def ht_HasInt_def
  ht_MergeTable_def merge_one_def ht_ResetIntKeys_def go_heap_def

lemma ht_walk_steps [simp]:
  "ht_walk ns None = Some []"
  "ht_walk ns (Some a) = Option.bind (ht_walk ns (nd_next (ns a))) (\<lambda>xs. Some (a # xs))"
  by (subst ht_walk.simps; simp)+

lemma merge_loop_steps [simp]:
  "merge_loop z None h = Some h"
  "merge_loop z (Some a) h = Option.bind (merge_one z a h) (\<lambda>h. merge_loop z (nd_next (hp_nodes h a)) h)"
  by (subst merge_loop.simps; simp)+

section \<open>Reachable heaps\<close>

inductive arr_reach :: "memmgr \<Rightarrow> heap \<Rightarrow> bool" for m where
  start: "arr_reach m (empty_heap m)"
| make_val: "arr_reach m h \<Longrightarrow> val_bound (hp_next h) v \<Longrightarrow> arr_reach m (snd (NewZVal v h))"
| make_cached: "arr_reach m h \<Longrightarrow> val_bound (hp_next h) v \<Longrightarrow> arr_reach m (snd (MakeCachedZVal v h))"
| make_table: "arr_reach m h \<Longrightarrow> arr_reach m (snd (NewHashTable h))"
| share: "arr_reach m h \<Longrightarrow> z < hp_next h \<Longrightarrow> arr_reach m (snd (ht_Dup z h))"
| track: "arr_reach m h \<Longrightarrow> arr_reach m (ht_SetMemTracker b z h)"
| separate: "arr_reach m h \<Longrightarrow> z < hp_next h \<Longrightarrow> ht_SeparateCow z h = Some h' \<Longrightarrow> arr_reach m h'"
| refer: "arr_reach m h \<Longrightarrow> zv_MakeRef a h = Some (Ok h') \<Longrightarrow> arr_reach m h'"
| assign: "arr_reach m h \<Longrightarrow> zv_Set h a b = Some (Ok h') \<Longrightarrow> arr_reach m h'"
| set_int: "arr_reach m h \<Longrightarrow> z < hp_next h \<Longrightarrow> v < hp_next h \<Longrightarrow> ht_SetInt k (Some v) z h = Some r
    \<Longrightarrow> go_heap r = Some h' \<Longrightarrow> arr_reach m h'"
| set_str: "arr_reach m h \<Longrightarrow> z < hp_next h \<Longrightarrow> v < hp_next h \<Longrightarrow> ht_SetString s (Some v) z h = Some r
    \<Longrightarrow> go_heap r = Some h' \<Longrightarrow> arr_reach m h'"
| run: "arr_reach m h \<Longrightarrow> z < hp_next h \<Longrightarrow> write_ok h z w \<Longrightarrow> run_write w z h = Some r
    \<Longrightarrow> go_heap r = Some h' \<Longrightarrow> arr_reach m h'"

lemma MakeRef_cells:
  assumes "heap_inv h" "zv_MakeRef a h = Some (Ok h')"
  shows "cells_only h h'"
proof -
  have b: "val_bound (hp_next h) (zv_v (hp_zvals h a))" using assms(1) by (simp add: heap_inv_def)
  have "cells_only h (upd_zval a (\<lambda>x. x\<lparr>zv_v := VRef (hp_next h)\<rparr>)
      (snd (new_zval ((plain_zval (zv_v (hp_zvals h a)))\<lparr>zv_refCount := 1\<rparr>) h)))"
    by (rule cells_only_redirect[OF assms(1)]) (simp add: plain_zval_def b)
  moreover have "cells_only h h" using assms(1) by (simp add: cells_only_def heap_inv_def)
  ultimately show ?thesis
    using assms(2) by (auto simp: zv_MakeRef_def case_prod_unfold split: if_splits)
qed

lemma reach_inv: "arr_reach m h \<Longrightarrow> heap_inv h"
proof (induction rule: arr_reach.induct)
  case start
  show ?case by (rule heap_inv_empty)
next
  case (make_val h v)
  have "cells_only h (snd (NewZVal v h))"
    unfolding NewZVal_def
    by (rule cells_only_new[OF make_val.IH]) (simp add: plain_zval_def val_bound_mono[OF make_val.hyps(2)])
  then show ?case by (rule cells_only_inv(1)[OF make_val.IH])
next
  case (make_cached h v)
  have "cells_only h (snd (MakeCachedZVal v h))"
    unfolding MakeCachedZVal_def
    by (rule cells_only_new[OF make_cached.IH]) (simp add: plain_zval_def val_bound_mono[OF make_cached.hyps(2)])
  then show ?case by (rule cells_only_inv(1)[OF make_cached.IH])
next
  case (make_table h)
  then show ?case using NewHashTable_spec(1) by blast
next
  case (share h z)
  then show ?case using dup_view(3) by blast
next
  case (track h b z)
  have "ctl_only (\<lambda>t. t\<lparr>ht_memTracker := b\<rparr>)" by (simp add: ctl_only_def same_data_def)
  then show ?case using ctl_upd(9) track.IH by (simp add: ht_SetMemTracker_def)
next
  case (separate h z h')
  then show ?case using SeparateCow_spec[of h z] by (metis option.inject separated_def)
next
  case (refer h a h')
  then show ?case using MakeRef_cells cells_only_inv(1) by blast
next
  case (assign h a b h')
  then show ?case using zv_Set_cells[of h a b "Ok h'"] cells_only_inv(1) by simp
next
  case (set_int h z v k r h')
  then show ?case using SetInt_any by blast
next
  case (set_str h z v s r h')
  then show ?case using SetString_any by blast
next
  case (run h z w r h')
  then show ?case using wrote_always[OF run_write_wrote] by (metis option.inject)
qed

section \<open>MergeTable and ResetIntKeys\<close>

text \<open>A cell is copied without touching the index of strings.\<close>

lemma ZVal_idx_s:
  assumes "zv_ZVal v h = Some (a, h')" "z < hp_next h"
  shows "idx_s h' z = idx_s h z" "hp_next h \<le> hp_next h'"
proof -
  have w: "idx_s (snd (wrap_copy x nm h)) z = idx_s h z \<and> hp_next h \<le> hp_next (snd (wrap_copy x nm h))" for x nm
    using assms(2)
    by (cases x) (auto simp: wrap_copy_def case_prod_unfold idx_s_def dup_simps ht_Dup_def new_table_def Let_def)
  have n: "idx_s (snd (NewZVal x h)) z = idx_s h z \<and> hp_next h \<le> hp_next (snd (NewZVal x h))" for x
    by (simp add: NewZVal_def idx_s_def)
  have "h' = snd (NewZVal VNull h) \<or> (\<exists>x nm. h' = snd (wrap_copy x nm h))"
    using assms(1) by (auto simp: zv_ZVal_def split: option.splits if_splits) (metis snd_conv)+
  then show "idx_s h' z = idx_s h z" "hp_next h \<le> hp_next h'" using w n by auto
qed

lemma merge_one_idx_s:
  assumes "merge_one z c h = Some h'" "z < hp_next h"
  shows "idx_s h' z = idx_s h z" "hp_next h \<le> hp_next h'"
proof -
  have "idx_s h' z = idx_s h z \<and> hp_next h \<le> hp_next h'"
  proof (cases "nd_deleted (hp_nodes h c)")
    case True
    then show ?thesis using assms(1) by (simp add: merge_one_def)
  next
    case False
    then obtain a h1 where v: "zv_ZVal (nd_v (hp_nodes h c)) h = Some (a, h1)"
      using assms(1) by (auto simp: merge_one_def split: option.splits)
    note i = ZVal_idx_s[OF v assms(2)]
    show ?thesis
      using assms(1) False v i
      by (auto simp: merge_one_def Let_def case_prod_unfold idx_s_def split: key.splits option.splits)
  qed
  then show "idx_s h' z = idx_s h z" "hp_next h \<le> hp_next h'" by auto
qed

lemma merge_loop_idx_s:
  assumes "merge_loop z c h = Some h'" "z < hp_next h"
  shows "idx_s h' z = idx_s h z"
proof -
  have "z < hp_next h \<longrightarrow> idx_s h' z = idx_s h z"
  proof (rule merge_loop.raw_induct[OF _ assms(1), of "\<lambda>z c h h'. z < hp_next h \<longrightarrow> idx_s h' z = idx_s h z"])
    fix L z c h r
    assume IH: "\<And>z c h r. L z c h = Some r \<Longrightarrow> z < hp_next h \<longrightarrow> idx_s r z = idx_s h z"
      and r: "(case c of None \<Rightarrow> Some h
        | Some a \<Rightarrow> Option.bind (merge_one z a h) (\<lambda>h. L z (nd_next (hp_nodes h a)) h)) = Some r"
    show "z < hp_next h \<longrightarrow> idx_s r z = idx_s h z"
    proof
      assume z: "z < hp_next h"
      show "idx_s r z = idx_s h z"
      proof (cases c)
        case None
        then show ?thesis using r by simp
      next
        case (Some a)
        then obtain h1 where h1: "merge_one z a h = Some h1" "L z (nd_next (hp_nodes h1 a)) h1 = Some r"
          using r by (auto simp: bind_eq_Some_conv)
        note m = merge_one_idx_s[OF h1(1) z]
        then show ?thesis using IH[OF h1(2)] z by simp
      qed
    qed
  qed
  then show ?thesis using assms(2) by blast
qed

lemma MergeTable_HasString:
  assumes inv: "heap_inv h" and z: "z < hp_next h" and r: "ht_MergeTable b z h = Some h'"
  shows "ht_HasString s z h' = ht_HasString s z h"
proof -
  from sep_then_spec[OF inv z] obtain h1 where
    s: "separated h z h1" "\<And>k. sep_then z h k = (k h1 :: heap option)" by metis
  note s' = s(1)[unfolded separated_def]
  have "merge_loop z (ht_first (hp_tabs h1 b)) h1 = Some h'" using r by (simp add: ht_MergeTable_def s(2))
  then have "idx_s h' z = idx_s h1 z" using merge_loop_idx_s s' z by simp
  then have "ht_HasString s z h' = ht_HasString s z h1" by (simp add: ht_HasString_def)
  moreover have "ht_keys h1 z = ht_keys h z" using s' keys_view by metis
  ultimately show ?thesis using HasString_view[OF inv] HasString_view[of h1] s' by simp
qed

end
