(* ===== verification/HashClient.thy ===== *)
theory HashClient
  imports HashReach
begin

text \<open>
  The interface of a PHP array for the code that uses it: an ordered map with a store and a remove
  operation. The clients' facts are proved from the laws alone; the hash table provides them.
\<close>

section \<open>Ordered maps\<close>

locale ordered_map =
  fixes inv :: "'s \<Rightarrow> bool"
    and view :: "'s \<Rightarrow> ('k \<times> 'v) list"
    and good :: "'s \<Rightarrow> 'k \<Rightarrow> 'c \<Rightarrow> bool"
    and cont :: "'s \<Rightarrow> 'c \<Rightarrow> 'v"
    and put :: "'k \<Rightarrow> 'c \<Rightarrow> 's \<Rightarrow> 's option"
    and del :: "'k \<Rightarrow> 's \<Rightarrow> 's option"
  assumes keys_once: "inv s \<Longrightarrow> distinct (map fst (view s))"
    and put_law: "inv s \<Longrightarrow> good s k c \<Longrightarrow> put k c s = Some s'
      \<Longrightarrow> inv s' \<and> view s' = kv_set k (cont s' c) (view s)"
    and del_law: "inv s \<Longrightarrow> del k s = Some s' \<Longrightarrow> inv s' \<and> view s' = kv_unset k (view s)"
begin

lemma put_lookup:
  assumes "inv s" "good s k c" "put k c s = Some s'"
  shows "map_of (view s') x = (if x = k then Some (cont s' c) else map_of (view s) x)"
  using put_law[OF assms] by (simp add: kv_set_map)

lemma put_order:
  assumes "inv s" "good s k c" "put k c s = Some s'"
  shows "map fst (view s') =
     (if k \<in> set (map fst (view s)) then map fst (view s) else map fst (view s) @ [k])"
proof -
  have "map fst (kv_update k v kvs) = map fst kvs" for v and kvs :: "('k \<times> 'v) list"
    by (simp add: kv_update_def)
  then show ?thesis using put_law[OF assms] by (simp add: kv_set_def)
qed

lemma del_lookup:
  assumes "inv s" "del k s = Some s'"
  shows "map_of (view s') x = (if x = k then None else map_of (view s) x)"
  using del_law[OF assms] by (simp add: kv_unset_map)

lemma del_order:
  assumes "inv s" "del k s = Some s'"
  shows "map fst (view s') = filter (\<lambda>x. x \<noteq> k) (map fst (view s))"
  using del_law[OF assms] by (simp add: kv_unset_def filter_map comp_def)

lemma put_new_del:
  assumes "inv s" "good s k c" "put k c s = Some s1" "del k s1 = Some s2" "k \<notin> set (map fst (view s))"
  shows "view s2 = view s"
proof -
  have "kv_unset k (view s) = view s" using assms(5) by (auto simp: kv_unset_def filter_id_conv)
  then show ?thesis
    using put_law[OF assms(1-3)] del_law[OF _ assms(4)] assms(5) by (simp add: kv_set_def kv_unset_def)
qed

lemma del_put_last:
  assumes "inv s" "del k s = Some s1" "good s1 k c" "put k c s1 = Some s2"
  shows "map fst (view s2) = filter (\<lambda>x. x \<noteq> k) (map fst (view s)) @ [k]"
proof -
  have "k \<notin> set (map fst (view s1))" using del_order[OF assms(1,2)] by simp
  then show ?thesis
    using put_order[OF _ assms(3,4)] del_law[OF assms(1,2)] del_order[OF assms(1,2)] by simp
qed

end

section \<open>The hash table as an ordered map\<close>

text \<open>A table in its heap; a store or a remove under a key of either kind.\<close>

fun arr_inv :: "heap \<times> addr \<Rightarrow> bool" where
  "arr_inv (h, z) = (heap_inv h \<and> z < hp_next h)"

fun arr_view :: "heap \<times> addr \<Rightarrow> (key \<times> val) list" where
  "arr_view (h, z) = ht_view h z"

fun arr_good :: "heap \<times> addr \<Rightarrow> key \<Rightarrow> addr \<Rightarrow> bool" where
  "arr_good (h, z) k v = (v < hp_next h \<and> no_ref_at h z k)"

fun arr_cont :: "heap \<times> addr \<Rightarrow> addr \<Rightarrow> val" where
  "arr_cont (h, z) v = cell_view h v"

fun ht_store :: "key \<Rightarrow> addr option \<Rightarrow> addr \<Rightarrow> heap \<Rightarrow> heap go option" where
  "ht_store (KInt k) v z h = ht_SetInt k v z h"
| "ht_store (KStr k) v z h = ht_SetString k v z h"

definition only_ok :: "heap go option \<Rightarrow> heap option" where
  "only_ok r = (case r of Some (Ok h) \<Rightarrow> Some h | _ \<Rightarrow> None)"

fun arr_put :: "key \<Rightarrow> addr \<Rightarrow> heap \<times> addr \<Rightarrow> (heap \<times> addr) option" where
  "arr_put k v (h, z) = map_option (\<lambda>h. (h, z)) (only_ok (ht_store k (Some v) z h))"

fun arr_del :: "key \<Rightarrow> heap \<times> addr \<Rightarrow> (heap \<times> addr) option" where
  "arr_del k (h, z) = map_option (\<lambda>h. (h, z)) (only_ok (ht_store k None z h))"

lemma only_ok_Some: "only_ok r = Some h' \<longleftrightarrow> r = Some (Ok h')"
  by (auto simp: only_ok_def split: option.splits go.splits)

lemma store_wrote:
  assumes "heap_inv h" "z < hp_next h" "v < hp_next h" "no_ref_at h z k"
  shows "wrote h z (\<lambda>h'. ht_view h' z = kv_set k (cell_view h' v) (ht_view h z)) (ht_store k (Some v) z h)"
  using SetInt_wrote[OF assms(1-3)] SetString_wrote[OF assms(1-3)] assms(4) by (cases k) simp_all

lemma remove_wrote:
  assumes "heap_inv h" "z < hp_next h"
  shows "wrote h z (\<lambda>h'. ht_view h' z = kv_unset k (ht_view h z)) (ht_store k None z h)"
  using UnsetInt_wrote[OF assms] UnsetString_wrote[OF assms]
  by (cases k) (simp_all add: ht_SetInt_def ht_SetString_def)

lemma wrote_OkD:
  assumes "wrote h z P r" "r = Some (Ok h')"
  shows "P h'" "heap_inv h'" "hp_next h \<le> hp_next h'"
  using assms by (simp_all add: wrote_def)

interpretation arr: ordered_map arr_inv arr_view arr_good arr_cont arr_put arr_del
proof
  fix s k c s'
  show "arr_inv s \<Longrightarrow> distinct (map fst (arr_view s))"
    by (cases s) (simp add: view_keys_distinct)
  show "arr_inv s' \<and> arr_view s' = kv_set k (arr_cont s' c) (arr_view s)"
    if "arr_inv s" "arr_good s k c" "arr_put k c s = Some s'"
  proof -
    note p = that
    obtain h z where s: "s = (h, z)" by fastforce
    then obtain h' where s': "s' = (h', z)" "ht_store k (Some c) z h = Some (Ok h')"
      using p(3) by (auto simp: only_ok_Some)
    have "wrote h z (\<lambda>h'. ht_view h' z = kv_set k (cell_view h' c) (ht_view h z)) (ht_store k (Some c) z h)"
      using store_wrote that(1,2) s by simp
    from wrote_OkD[OF this s'(2)] show ?thesis using s s'(1) that(1) by simp
  qed
  show "arr_inv s' \<and> arr_view s' = kv_unset k (arr_view s)"
    if "arr_inv s" "arr_del k s = Some s'"
  proof -
    note p = that
    obtain h z where s: "s = (h, z)" by fastforce
    then obtain h' where s': "s' = (h', z)" "ht_store k None z h = Some (Ok h')"
      using p(2) by (auto simp: only_ok_Some)
    have "wrote h z (\<lambda>h'. ht_view h' z = kv_unset k (ht_view h z)) (ht_store k None z h)"
      using remove_wrote that(1) s by simp
    from wrote_OkD[OF this s'(2)] show ?thesis using s s'(1) that(1) by simp
  qed
qed

end
