(* ===== verification/HashProps.thy ===== *)
theory HashProps
  imports HashClient
begin

text \<open>
  The properties of the hash table, each with a run on a concrete heap: one value and one or two
  tables made by the constructors.
\<close>

section \<open>Concrete heaps\<close>

definition one_table :: "memmgr \<Rightarrow> heap" where
  "one_table m = snd (NewHashTable (snd (NewZVal (VInt 7) (empty_heap m))))"

definition two_tables :: "memmgr \<Rightarrow> heap" where
  "two_tables m = snd (NewHashTable (one_table m))"

lemma one_table_facts:
  "arr_reach m (one_table m)" "heap_inv (one_table m)" "hp_next (one_table m) = 5"
  "\<not> ht_cow (hp_tabs (one_table m) 4)" "ht_inc (hp_tabs (one_table m) 4) = 0"
  "\<not> ht_memTracker (hp_tabs (one_table m) 4)" "ht_view (one_table m) 4 = []"
  "hp_zvals (one_table m) 1 = plain_zval (VInt 7)"
proof -
  have "arr_reach m (snd (NewZVal (VInt 7) (empty_heap m)))"
    by (intro arr_reach.make_val arr_reach.start) (simp add: val_bound_def)
  then show r: "arr_reach m (one_table m)" unfolding one_table_def by (rule arr_reach.make_table)
  show "heap_inv (one_table m)" by (rule reach_inv[OF r])
qed (simp_all add: one_table_def heap_eval Let_def)

text \<open>The table after \<open>$a['x'] = 7\<close> and after \<open>$a[] = 7\<close>.\<close>

definition with_x :: "memmgr \<Rightarrow> heap" where
  "with_x m = the (only_ok (ht_SetString ''x'' (Some 1) 4 (one_table m)))"

lemma with_x_run: "ht_SetString ''x'' (Some 1) 4 (one_table m) = Some (Ok (with_x m))"
  by (simp add: with_x_def one_table_def only_ok_def heap_eval Let_def
      cong: bind_weak_cong let_weak_cong prod_weak_cong)

definition with_0 :: "memmgr \<Rightarrow> heap" where
  "with_0 m = the (only_ok (ht_Append 1 4 (one_table m)))"

lemma with_0_run: "ht_Append 1 4 (one_table m) = Some (Ok (with_0 m))"
  by (simp add: with_0_def one_table_def only_ok_def heap_eval next_free.simps Let_def
      cong: bind_weak_cong let_weak_cong prod_weak_cong)

text \<open>Two empty tables 4 and 7; \<open>$b['y'] = 7\<close> and \<open>$a[5] = 7\<close>.\<close>

lemma two_tables_facts:
  "arr_reach m (two_tables m)" "hp_next (two_tables m) = 8"
proof -
  show "arr_reach m (two_tables m)"
    unfolding two_tables_def by (rule arr_reach.make_table[OF one_table_facts(1)])
qed (simp add: two_tables_def one_table_def heap_eval Let_def)

definition with_y :: "memmgr \<Rightarrow> heap" where
  "with_y m = the (only_ok (ht_SetString ''y'' (Some 1) 7 (two_tables m)))"

lemma with_y_run: "ht_SetString ''y'' (Some 1) 7 (two_tables m) = Some (Ok (with_y m))"
  by (simp add: with_y_def two_tables_def one_table_def only_ok_def heap_eval Let_def
      cong: bind_weak_cong let_weak_cong prod_weak_cong)

definition with_5 :: "memmgr \<Rightarrow> heap" where
  "with_5 m = the (only_ok (ht_SetInt 5 (Some 1) 4 (one_table m)))"

lemma with_5_run: "ht_SetInt 5 (Some 1) 4 (one_table m) = Some (Ok (with_5 m))"
  by (simp add: with_5_def one_table_def only_ok_def heap_eval Let_def
      cong: bind_weak_cong let_weak_cong prod_weak_cong)

lemma with_reach: "arr_reach m (with_y m)" "arr_reach m (with_5 m)"
proof -
  show "arr_reach m (with_y m)"
    by (rule arr_reach.set_str[OF two_tables_facts(1) _ _ with_y_run])
       (simp_all add: two_tables_facts go_heap_def)
  show "arr_reach m (with_5 m)"
    by (rule arr_reach.set_int[OF one_table_facts(1) _ _ with_5_run])
       (simp_all add: one_table_facts go_heap_def)
qed

lemma merge_y:
  obtains h where "ht_MergeTable 7 4 (with_y m) = Some h" "ht_keys h 4 = [KStr ''y'']"
    "\<not> ht_HasString ''y'' 4 h" "ht_Count 4 h = 1"
proof -
  have "\<exists>h. ht_MergeTable 7 4 (with_y m) = Some h \<and> ht_keys h 4 = [KStr ''y'']
      \<and> \<not> ht_HasString ''y'' 4 h \<and> ht_Count 4 h = 1"
    by (simp add: with_y_def two_tables_def one_table_def only_ok_def heap_eval Let_def zv_Value.simps
      cong: bind_weak_cong let_weak_cong prod_weak_cong)
  then show ?thesis using that by blast
qed

lemma reset_5:
  obtains h1 h2 where "ht_Dup 4 (with_5 m) = (6, h1)" "ht_ResetIntKeys 6 h1 = Some h2"
    "ht_raw (with_5 m) 4 = [(KInt 5, VInt 7)]" "ht_raw h2 4 = [(KInt 0, VInt 7)]"
    "ht_HasInt 5 4 (with_5 m)" "\<not> ht_HasInt 5 4 h2"
proof -
  have "\<exists>h1 h2. ht_Dup 4 (with_5 m) = (6, h1) \<and> ht_ResetIntKeys 6 h1 = Some h2
    \<and> ht_raw (with_5 m) 4 = [(KInt 5, VInt 7)] \<and> ht_raw h2 4 = [(KInt 0, VInt 7)]
    \<and> ht_HasInt 5 4 (with_5 m) \<and> \<not> ht_HasInt 5 4 h2"
    by (simp add: with_5_def one_table_def only_ok_def heap_eval Let_def
      cong: bind_weak_cong let_weak_cong prod_weak_cong map_option_weak_cong)
  then show ?thesis using that by blast
qed

section \<open>Properties\<close>







text \<open>C10. Separating a shared table (\<open>SeparateCow\<close>, and the start of every writer) always returns; it
  makes the table writable, changes nothing of what it shows or of its control fields, and touches
  no other table and no value cell that existed.\<close>

theorem array_separates:
  assumes "heap_inv h" "z < hp_next h"
  shows "\<exists>h'. ht_SeparateCow z h = Some h' \<and> separated h z h'"
  using SeparateCow_spec[OF assms] by blast

theorem array_separates_witness:
  "\<exists>h'. ht_SeparateCow 4 (snd (ht_Dup 4 (with_5 (NewMemMgr 0)))) = Some h' \<and> \<not> ht_cow (hp_tabs h' 4)"
proof -
  have inv: "heap_inv (with_5 (NewMemMgr 0))" by (rule reach_inv[OF with_reach(2)])
  obtain h1 where d: "ht_Dup 4 (with_5 (NewMemMgr 0)) = (6, h1)" by (rule reset_5)
  have nx: "hp_next (with_5 (NewMemMgr 0)) = 6" using dup_simps(1)[of 4 "with_5 (NewMemMgr 0)"] d by auto
  have "heap_inv (snd (ht_Dup 4 (with_5 (NewMemMgr 0))))" by (rule dup_view(3)[OF inv]) (simp add: nx)
  moreover have "4 < hp_next (snd (ht_Dup 4 (with_5 (NewMemMgr 0))))" by (simp add: dup_simps nx)
  ultimately show ?thesis using array_separates unfolding separated_def by blast
qed



text \<open>A lookup by integer or string key gives the cell of the entry with that key without changing
  the heap; without such an entry it gives a new null and the key is reported as missing.\<close>

theorem array_lookup:
  assumes "heap_inv h"
  shows "looked_up h z (KInt i) (ht_GetInt i z h) \<and> looked_up h z (KStr s) (ht_GetString s z h)
     \<and> (ht_HasInt i z h \<longleftrightarrow> map_of (ht_view h z) (KInt i) \<noteq> None)
     \<and> (ht_HasString s z h \<longleftrightarrow> map_of (ht_view h z) (KStr s) \<noteq> None)"
  using GetInt_view[OF assms] GetString_view[OF assms] HasInt_view[OF assms] HasString_view[OF assms]
  by (simp add: map_of_eq_None_iff keys_view[symmetric])

theorem array_lookup_witness:
  "looked_up (with_5 (NewMemMgr 0)) 4 (KInt 5) (ht_GetInt 5 4 (with_5 (NewMemMgr 0)))"
  using array_lookup[OF reach_inv[OF with_reach(2)], where z = 4 and i = 5] by blast



text \<open>Removing an entry and storing under its key again moves the key to the end and leaves the
  order of the others.\<close>

theorem array_remove_store_order:
  assumes "heap_inv h" "z < hp_next h" "ht_store k None z h = Some (Ok h1)"
    and "v < hp_next h1" "no_ref_at h1 z k" "ht_store k (Some v) z h1 = Some (Ok h2)"
  shows "ht_keys h2 z = filter (\<lambda>x. x \<noteq> k) (ht_keys h z) @ [k]"
proof -
  have p: "arr_inv (h, z)" "arr_del k (h, z) = Some (h1, z)" "arr_good (h1, z) k v"
    "arr_put k v (h1, z) = Some (h2, z)"
    using assms by (simp_all add: only_ok_Some)
  show ?thesis using arr.del_put_last[OF p] by (simp add: keys_view)
qed

theorem array_remove_store_order_witness:
  "ht_keys (with_x (NewMemMgr 0)) 4 = [KStr ''x'']"
proof -
  let ?h = "one_table (NewMemMgr 0)"
  have "ht_store (KStr ''x'') None 4 ?h = Some (Ok ?h)"
    by (simp add: one_table_def heap_eval Let_def cong: bind_weak_cong let_weak_cong prod_weak_cong)
  moreover have "ht_store (KStr ''x'') (Some 1) 4 ?h = Some (Ok (with_x (NewMemMgr 0)))"
    unfolding ht_store.simps by (rule with_x_run)
  ultimately have "ht_keys (with_x (NewMemMgr 0)) 4 = filter (\<lambda>x. x \<noteq> KStr ''x'') (ht_keys ?h 4) @ [KStr ''x'']"
    by (intro array_remove_store_order[of ?h _ _ ?h 1])
       (simp_all add: one_table_facts no_ref_at_def)
  moreover have "ht_keys ?h 4 = []" using keys_view[of ?h 4] by (simp add: one_table_facts)
  ultimately show ?thesis by simp
qed

text \<open>C13. \<open>MergeTable\<close> never makes a string key findable: whatever is merged into a table, a lookup by
  string finds a key afterwards exactly if it found it before.\<close>

theorem merge_never_indexes_strings:
  assumes "heap_inv h" "z < hp_next h" "ht_MergeTable b z h = Some h'"
  shows "ht_HasString s z h' = ht_HasString s z h"
  using assms by (rule MergeTable_HasString)

theorem merge_never_indexes_strings_witness:
  "\<exists>h. ht_MergeTable 7 4 (with_y (NewMemMgr 0)) = Some h
     \<and> ht_HasString ''y'' 4 h = ht_HasString ''y'' 4 (with_y (NewMemMgr 0))"
proof -
  obtain h where h: "ht_MergeTable 7 4 (with_y (NewMemMgr 0)) = Some h" by (rule merge_y)
  have "8 \<le> hp_next (with_y (NewMemMgr 0))"
    using SetString_any[OF reach_inv[OF two_tables_facts(1)] _ _ with_y_run, of "NewMemMgr 0"]
    by (simp add: two_tables_facts go_heap_def)
  then have lt: "4 < hp_next (with_y (NewMemMgr 0))" by simp
  show ?thesis
    using merge_never_indexes_strings[OF reach_inv[OF with_reach(1)] lt h] h by blast
qed

text \<open>So merging a table with a new string key (as \<open>array_merge\<close> and the set-up of the environment
  arrays do) gives a table that lists and counts the key but does not find it.\<close>

theorem merged_key_not_found:
  "\<exists>h a b h'. arr_reach m h \<and> ht_MergeTable b a h = Some h' \<and> ht_keys h' a = [KStr ''y'']
     \<and> ht_Count a h' = 1 \<and> \<not> ht_HasString ''y'' a h'"
proof -
  obtain h where "ht_MergeTable 7 4 (with_y m) = Some h" "ht_keys h 4 = [KStr ''y'']"
    "\<not> ht_HasString ''y'' 4 h" "ht_Count 4 h = 1"
    by (rule merge_y)
  then show ?thesis using with_reach(1) by blast
qed


end
