(* ===== verification/HashIter.thy ===== *)
theory HashIter
  imports HashClient
begin

text \<open>
  Iterators over a hash table, \<^verbatim>\<open>src/core/phpv/hashtable-iter.go\<close>. An iterator is a record with the
  node it stands on; its methods give it back updated. Nodes that were removed keep their link to
  what followed them, so an iterator that stands on one finds its way on.
\<close>

section \<open>Methods\<close>

text \<open>The loops that step over removed nodes, forwards and backwards.\<close>

partial_function (option) skip_deleted :: "(addr \<Rightarrow> node) \<Rightarrow> addr option \<Rightarrow> addr option option" where
  "skip_deleted ns c =
     (case c of
        None \<Rightarrow> Some None
      | Some a \<Rightarrow> if nd_deleted (ns a) then skip_deleted ns (nd_next (ns a)) else Some (Some a))"

partial_function (option) skip_deleted_back :: "(addr \<Rightarrow> node) \<Rightarrow> addr option \<Rightarrow> addr option option" where
  "skip_deleted_back ns c =
     (case c of
        None \<Rightarrow> Some None
      | Some a \<Rightarrow> if nd_deleted (ns a) then skip_deleted_back ns (nd_prev (ns a)) else Some (Some a))"

definition NewIterator :: "addr \<Rightarrow> heap \<Rightarrow> hiter" where
  "NewIterator z h = \<lparr>hi_t = z, hi_cur = ht_first (hp_tabs h z), hi_prevRef = None\<rparr>"

definition it_Valid :: "hiter \<Rightarrow> heap \<Rightarrow> (bool \<times> hiter) option" where
  "it_Valid it h =
     map_option (\<lambda>c. (c \<noteq> None, it\<lparr>hi_cur := c\<rparr>)) (skip_deleted (hp_nodes h) (hi_cur it))"

text \<open>\<open>Current\<close> gives a copy of the value, or the cell itself when it is a reference; nil at the
  end.\<close>

definition it_Current :: "hiter \<Rightarrow> heap \<Rightarrow> (addr option \<times> hiter \<times> heap) option" where
  "it_Current it h =
     Option.bind (it_Valid it h) (\<lambda>(_, it).
       case hi_cur it of
         None \<Rightarrow> Some (None, it, h)
       | Some c \<Rightarrow>
          (let v = nd_v (hp_nodes h c) in
           if zv_IsRef h v then Some (Some v, it, h)
           else map_option (\<lambda>(v, h). (Some v, it, h)) (zv_Dup v h)))"

definition it_CurrentRef :: "hiter \<Rightarrow> heap \<Rightarrow> (addr option \<times> hiter) option" where
  "it_CurrentRef it h =
     map_option (\<lambda>(_, it). (map_option (\<lambda>c. nd_v (hp_nodes h c)) (hi_cur it), it)) (it_Valid it h)"

text \<open>A reference made by \<open>CurrentMakeRef\<close> is taken away again: the cell gets the value at the end of
  the chain.\<close>

definition collapse_ref :: "addr \<Rightarrow> heap \<Rightarrow> heap option" where
  "collapse_ref pv h =
     (case ref_target (zv_v (hp_zvals h pv)) of
        None \<Rightarrow> Some h
      | Some inner \<Rightarrow> map_option (\<lambda>v. upd_zval pv (\<lambda>c. c\<lparr>zv_v := v\<rparr>) h) (zv_Value h inner))"

definition it_CurrentMakeRef :: "hiter \<Rightarrow> heap \<Rightarrow> (addr option \<times> hiter \<times> heap) option" where
  "it_CurrentMakeRef it h =
     Option.bind (it_Valid it h) (\<lambda>(_, it).
       case hi_cur it of
         None \<Rightarrow> Some (None, it, h)
       | Some c \<Rightarrow>
          Option.bind
            (case hi_prevRef it of
               None \<Rightarrow> Some h
             | Some p \<Rightarrow> if p = c then Some h else collapse_ref (nd_v (hp_nodes h p)) h)
            (\<lambda>h.
              let v = nd_v (hp_nodes h c);
                  h = (if zv_IsRef h v then h
                       else case NewZVal (zv_v (hp_zvals h v)) h of
                              (inner, h) \<Rightarrow> upd_zval v (\<lambda>x. x\<lparr>zv_v := VRef inner\<rparr>) h);
                  (r, h) = NewZVal (zv_v (hp_zvals h v)) h in
              Some (Some r, it\<lparr>hi_prevRef := Some c\<rparr>, h)))"

definition it_CleanupRef :: "hiter \<Rightarrow> heap \<Rightarrow> (hiter \<times> heap) option" where
  "it_CleanupRef it h =
     (case hi_prevRef it of
        None \<Rightarrow> Some (it, h)
      | Some p \<Rightarrow>
          map_option (\<lambda>h. (it\<lparr>hi_prevRef := None\<rparr>, h)) (collapse_ref (nd_v (hp_nodes h p)) h))"

fun key_val :: "key \<Rightarrow> val" where
  "key_val (KInt i) = VInt i"
| "key_val (KStr s) = VString s"

definition it_Key :: "hiter \<Rightarrow> heap \<Rightarrow> (addr option \<times> hiter \<times> heap) option" where
  "it_Key it h =
     Option.bind (it_Valid it h) (\<lambda>(_, it).
       case hi_cur it of
         None \<Rightarrow> Some (None, it, h)
       | Some c \<Rightarrow>
          (case NewZVal (key_val (nd_k (hp_nodes h c))) h of
             (k, h) \<Rightarrow> map_option (\<lambda>(k, h). (Some k, it, h)) (zv_Dup k h)))"

definition it_Next :: "hiter \<Rightarrow> heap \<Rightarrow> (addr option \<times> hiter \<times> heap) option" where
  "it_Next it h =
     (case hi_cur it of
        None \<Rightarrow> Some (None, it, h)
      | Some c \<Rightarrow>
          it_Current (if nd_deleted (hp_nodes h c) then it else it\<lparr>hi_cur := nd_next (hp_nodes h c)\<rparr>) h)"

definition it_Prev :: "hiter \<Rightarrow> heap \<Rightarrow> (addr option \<times> hiter) option" where
  "it_Prev it h =
     (let step = (\<lambda>c. map_option (\<lambda>c. (map_option (\<lambda>c. nd_v (hp_nodes h c)) c, it\<lparr>hi_cur := c\<rparr>))
                        (skip_deleted_back (hp_nodes h) c)) in
      case hi_cur it of
        None \<Rightarrow> step (ht_last (hp_tabs h (hi_t it)))
      | Some c \<Rightarrow>
          Option.bind (skip_deleted_back (hp_nodes h) (Some c)) (\<lambda>c.
            case c of
              None \<Rightarrow> Some (None, it\<lparr>hi_cur := None\<rparr>)
            | Some c \<Rightarrow> step (nd_prev (hp_nodes h c))))"

definition it_Reset :: "hiter \<Rightarrow> heap \<Rightarrow> (addr option \<times> hiter \<times> heap) option" where
  "it_Reset it h = it_Current (it\<lparr>hi_cur := ht_first (hp_tabs h (hi_t it))\<rparr>) h"

definition it_ResetIfEnd :: "hiter \<Rightarrow> heap \<Rightarrow> (addr option \<times> hiter \<times> heap) option" where
  "it_ResetIfEnd it h =
     Option.bind (it_Valid it h) (\<lambda>(ok, it).
       if ok then Some (None, it, h)
       else it_Current (it\<lparr>hi_cur := ht_first (hp_tabs h (hi_t it))\<rparr>) h)"

definition it_End :: "hiter \<Rightarrow> heap \<Rightarrow> (addr option \<times> hiter \<times> heap) option" where
  "it_End it h = it_Current (it\<lparr>hi_cur := ht_last (hp_tabs h (hi_t it))\<rparr>) h"

text \<open>\<open>IterateRaw\<close>: the consumer gets each key cell and value cell, may change the heap and its own
  state, and says whether to go on. The cursor has moved on before it is called.\<close>

partial_function (option) it_IterateRaw ::
  "('s \<Rightarrow> addr \<Rightarrow> addr \<Rightarrow> heap \<Rightarrow> bool \<times> 's \<times> heap) \<Rightarrow> addr option \<Rightarrow> 's \<Rightarrow> heap
     \<Rightarrow> (addr option \<times> 's \<times> heap) option" where
  "it_IterateRaw f c s h =
     (case c of
        None \<Rightarrow> Some (None, s, h)
      | Some a \<Rightarrow>
          if nd_deleted (hp_nodes h a) then it_IterateRaw f (nd_next (hp_nodes h a)) s h
          else
            (case NewZVal (key_val (nd_k (hp_nodes h a))) h of
               (k, h') \<Rightarrow>
                 (case f s k (nd_v (hp_nodes h a)) h' of
                    (go, s, h') \<Rightarrow>
                      if go then it_IterateRaw f (nd_next (hp_nodes h a)) s h'
                      else Some (nd_next (hp_nodes h a), s, h'))))"

text \<open>\<open>Iterate\<close>: the consumer gets copies.\<close>

partial_function (option) it_Iterate ::
  "('s \<Rightarrow> addr \<Rightarrow> addr \<Rightarrow> heap \<Rightarrow> bool \<times> 's \<times> heap) \<Rightarrow> hiter \<Rightarrow> 's \<Rightarrow> heap
     \<Rightarrow> (hiter \<times> 's \<times> heap) option" where
  "it_Iterate f it s h =
     Option.bind (it_Valid it h) (\<lambda>(ok, it).
       if \<not> ok then Some (it, s, h)
       else
         Option.bind (it_Key it h) (\<lambda>(k, it, h).
         Option.bind (it_Current it h) (\<lambda>(v, it, h).
         Option.bind (if zv_IsRef h (the v) then Some (the v, h) else zv_Dup (the v) h) (\<lambda>(v, h).
         Option.bind (zv_Dup (the k) h) (\<lambda>(k, h).
           case f s k v h of
             (go, s, h) \<Rightarrow>
               if \<not> go then Some (it, s, h)
               else Option.bind (it_Next it h) (\<lambda>(_, it, h). it_Iterate f it s h))))))"


section \<open>A run over the entries\<close>

text \<open>What a consumer that only reads does over a list of entries, until it says stop.\<close>

fun fold_until :: "('s \<Rightarrow> 'k \<Rightarrow> 'v \<Rightarrow> bool \<times> 's) \<Rightarrow> 's \<Rightarrow> ('k \<times> 'v) list \<Rightarrow> 's" where
  "fold_until g s [] = s"
| "fold_until g s ((k, v) # es) = (case g s k v of (go, s) \<Rightarrow> if go then fold_until g s es else s)"

text \<open>A consumer of views as a consumer of cells.\<close>

definition reads :: "('s \<Rightarrow> val \<Rightarrow> val \<Rightarrow> bool \<times> 's) \<Rightarrow> 's \<Rightarrow> addr \<Rightarrow> addr \<Rightarrow> heap \<Rightarrow> bool \<times> 's \<times> heap" where
  "reads g s k v h = (case g s (cell_view h k) (cell_view h v) of (go, s) \<Rightarrow> (go, s, h))"

definition shown :: "(key \<times> val) list \<Rightarrow> (val \<times> val) list" where
  "shown es = map (\<lambda>(k, v). (key_val k, v)) es"

lemma key_cell:
  assumes "heap_inv h"
  shows "heap_grows h (snd (NewZVal (key_val k) h))" "fst (NewZVal (key_val k) h) = hp_next h"
    "cell_view (snd (NewZVal (key_val k) h)) (hp_next h) = key_val k"
  by (cases k; simp add: NewZVal_def ext_new_zval val_bound_def plain_zval_def cell_view_def val_view_def)+

lemma raw_steps:
  "it_IterateRaw f None s h = Some (None, s, h)"
  "nd_deleted (hp_nodes h a) \<Longrightarrow> it_IterateRaw f (Some a) s h = it_IterateRaw f (nd_next (hp_nodes h a)) s h"
  "\<not> nd_deleted (hp_nodes h a) \<Longrightarrow> it_IterateRaw f (Some a) s h =
     (case f s (hp_next h) (nd_v (hp_nodes h a)) (snd (NewZVal (key_val (nd_k (hp_nodes h a))) h)) of
        (go, s, h') \<Rightarrow>
          if go then it_IterateRaw f (nd_next (hp_nodes h a)) s h'
          else Some (nd_next (hp_nodes h a), s, h'))"
  by (subst it_IterateRaw.simps; simp add: NewZVal_def case_prod_unfold)+

text \<open>From a cursor at the head of a run of live nodes the consumer folds over their entries.\<close>

lemma raw_fold:
  assumes "heap_inv h" "dseg (hp_nodes h) p c xs None l"
    and "\<forall>a \<in> set xs. a < hp_next h \<and> nd_v (hp_nodes h a) < hp_next h"
  shows "\<exists>c' h'. it_IterateRaw (reads g) c s h = Some (c', fold_until g s (shown (map (entry h) xs)), h')
     \<and> heap_grows h h'"
  using assms
proof (induction xs arbitrary: p c s h)
  case Nil
  then show ?case by (simp add: raw_steps shown_def grows_refl)
next
  case (Cons a xs)
  let ?h = "snd (NewZVal (key_val (nd_k (hp_nodes h a))) h)"
  note key = key_cell[OF Cons.prems(1), of "nd_k (hp_nodes h a)"]
  have inv: "heap_inv ?h" by (rule heap_inv_grows[OF Cons.prems(1) key(1)])
  have nx: "hp_next h \<le> hp_next ?h" using key(1) by (simp add: heap_grows_def)
  have n: "hp_nodes ?h b = hp_nodes h b" for b by (simp add: NewZVal_def)
  have live: "\<not> nd_deleted (hp_nodes h a)" "c = Some a" and
    seg: "dseg (hp_nodes h) (Some a) (nd_next (hp_nodes h a)) xs None l"
    using Cons.prems(2) by auto
  have cv: "cell_view ?h (nd_v (hp_nodes h a)) = cell_view h (nd_v (hp_nodes h a))"
    using Cons.prems ext_cell_view[OF Cons.prems(1) key(1)] by auto
  have es: "map (entry ?h) xs = map (entry h) xs"
    using Cons.prems(3) ext_cell_view[OF Cons.prems(1) key(1)] by (auto simp: entry_def n)
  have seg': "dseg (hp_nodes ?h) (Some a) (nd_next (hp_nodes h a)) xs None l"
    using seg dseg_cong[of xs "hp_nodes ?h" "hp_nodes h"] n by metis
  have low: "\<forall>b \<in> set xs. b < hp_next ?h \<and> nd_v (hp_nodes ?h b) < hp_next ?h"
    using Cons.prems(3) nx by (auto simp: n)
  obtain go s' where g: "g s (key_val (nd_k (hp_nodes h a))) (cell_view h (nd_v (hp_nodes h a))) = (go, s')"
    by fastforce
  have step: "it_IterateRaw (reads g) c s h =
     (if go then it_IterateRaw (reads g) (nd_next (hp_nodes h a)) s' ?h
      else Some (nd_next (hp_nodes h a), s', ?h))"
    using raw_steps(3)[OF live(1), of "reads g" s] live(2) g key(3) cv by (simp add: reads_def)
  show ?case
  proof (cases go)
    case True
    from Cons.IH[OF inv seg' low, of s', unfolded es] obtain c' h' where
      r: "it_IterateRaw (reads g) (nd_next (hp_nodes h a)) s' ?h
            = Some (c', fold_until g s' (shown (map (entry h) xs)), h')" "heap_grows ?h h'" by blast
    have "it_IterateRaw (reads g) c s h = Some (c', fold_until g s (shown (map (entry h) (a # xs))), h')"
      unfolding step r(1) using True g by (simp add: shown_def entry_def)
    then show ?thesis using grows_trans[OF key(1) r(2)] by blast
  next
    case False
    then show ?thesis using step g key(1) by (auto simp: shown_def entry_def)
  qed
qed

lemma raw_from_start:
  assumes inv: "heap_inv h"
  shows "\<exists>c' h'. it_IterateRaw (reads g) (hi_cur (NewIterator z h)) s h
     = Some (c', fold_until g s (shown (ht_view h z)), h') \<and> heap_grows h h'"
proof -
  note rep = heap_inv_rep[OF inv, of z, unfolded ht_rep_def]
  then have "dseg (hp_nodes h) None (ht_first (hp_tabs h z)) (xs_of h z) None (ht_last (hp_tabs h z))"
    "\<forall>a \<in> set (xs_of h z). a < hp_next h \<and> nd_v (hp_nodes h a) < hp_next h" by blast+
  from raw_fold[OF inv this] show ?thesis by (simp add: NewIterator_def view_entries)
qed


section \<open>Removing the entry under the iterator\<close>

lemma remove_form:
  assumes inv: "heap_inv h" and nc: "\<not> ht_cow (hp_tabs h z)" and t: "t \<in> set (xs_of h z)"
  shows "\<exists>h1 m. ready_to_unlink h z t h1
     \<and> ht_store (nd_k (hp_nodes h t)) None z h = Some (Ok ((ht_unlink t z h1)\<lparr>hp_mem := m\<rparr>))"
proof (cases "nd_k (hp_nodes h t)")
  case (KInt k)
  define h1 where "h1 = upd_node t (\<lambda>n. n\<lparr>nd_deleted := True\<rparr>)
      (upd_map_i (ht_idx_i (hp_tabs h z)) (go_del k) (upd_tab z (\<lambda>x. x\<lparr>ht_count := ht_count x - 1\<rparr>) h))"
  have "map_of (idx_i h z) k = Some t" using heap_inv_rep[OF inv, of z] t KInt by (simp add: ht_rep_def)
  then have "ht_UnsetInt k z h = Some (mem_free z memEstimatePerElement (ht_unlink t z h1))"
    using nc by (simp add: ht_UnsetInt_def sep_unshared h1_def Let_def)
  moreover have "ready_to_unlink h z t h1"
    using KInt by (simp add: h1_def ready_to_unlink_def idx_i_def)
  moreover obtain m where "mem_free z memEstimatePerElement (ht_unlink t z h1) = (ht_unlink t z h1)\<lparr>hp_mem := m\<rparr>"
    using mem_free_form by blast
  ultimately show ?thesis using KInt by (auto simp: ht_SetInt_def)
next
  case (KStr k)
  define h1 where "h1 = upd_node t (\<lambda>n. n\<lparr>nd_deleted := True\<rparr>)
      (upd_map_s (ht_idx_s (hp_tabs h z)) (go_del k) (upd_tab z (\<lambda>x. x\<lparr>ht_count := ht_count x - 1\<rparr>) h))"
  have "map_of (idx_s h z) k = Some t" using heap_inv_rep[OF inv, of z] t KStr by (simp add: ht_rep_def)
  then have "ht_UnsetString k z h = Some (mem_free z memEstimatePerElement (ht_unlink t z h1))"
    using nc by (simp add: ht_UnsetString_def sep_unshared h1_def Let_def)
  moreover have "ready_to_unlink h z t h1"
    using KStr by (simp add: h1_def ready_to_unlink_def idx_s_def)
  moreover obtain m where "mem_free z memEstimatePerElement (ht_unlink t z h1) = (ht_unlink t z h1)\<lparr>hp_mem := m\<rparr>"
    using mem_free_form by blast
  ultimately show ?thesis using KStr by (auto simp: ht_SetString_def)
qed

text \<open>The removed node is marked and still links to what followed it.\<close>

lemma removed_node:
  assumes inv: "heap_inv h" and t: "t \<in> set (xs_of h z)" and r: "ready_to_unlink h z t h1"
  shows "nd_deleted (hp_nodes (ht_unlink t z h1) t)"
    "nd_next (hp_nodes (ht_unlink t z h1) t) = nd_next (hp_nodes h t)"
proof -
  note rep = heap_inv_rep[OF inv, of z, unfolded ht_rep_def]
  have "hp_nodes h1 = (hp_nodes h)(t := (hp_nodes h t)\<lparr>nd_deleted := True\<rparr>)"
    using r by (simp add: ready_to_unlink_def)
  moreover have "nd_prev (hp_nodes h t) \<noteq> Some t" "nd_next (hp_nodes h t) \<noteq> Some t"
    using dseg_no_self[of "hp_nodes h" _ "xs_of h z" _ t] rep t by blast+
  ultimately show "nd_deleted (hp_nodes (ht_unlink t z h1) t)"
    "nd_next (hp_nodes (ht_unlink t z h1) t) = nd_next (hp_nodes h t)"
    using ht_unlink_nodes[of h1 t z t] by simp_all
qed

lemma remove_continue:
  assumes inv: "heap_inv h" and z: "z < hp_next h" and nc: "\<not> ht_cow (hp_tabs h z)"
    and xs: "ht_nodes h z = Some (as @ t # bs)"
    and r: "ht_store (nd_k (hp_nodes h t)) None z h = Some (Ok h')"
  shows "\<exists>c' h''. it_IterateRaw (reads g) (Some t) s h'
     = Some (c', fold_until g s (shown (drop (Suc (length as)) (ht_view h z))), h'')"
proof -
  have xs': "xs_of h z = as @ t # bs" using xs by (simp add: xs_of_def)
  then have t: "t \<in> set (xs_of h z)" by simp
  from remove_form[OF inv nc t] r obtain h1 m where
    h1: "ready_to_unlink h z t h1" and h': "h' = (ht_unlink t z h1)\<lparr>hp_mem := m\<rparr>" by auto
  let ?h = "ht_unlink t z h1"
  note un = unlink_spec[OF inv nc z t h1]
  have inv': "heap_inv h'" using un(1) by (simp add: h')
  have dist: "distinct (as @ t # bs)" using heap_inv_rep[OF inv, of z] by (simp add: ht_rep_def xs')
  have rest: "xs_of ?h z = as @ bs"
  proof -
    have "ht_nodes ?h z = Some (remove1 t (xs_of h z))"
      unfolding ht_nodes_def by (rule dseg_walk[OF unlink_seg[OF inv t h1]])
    then show ?thesis using dist unfolding xs_of_def[of ?h] xs' by (simp add: remove1_append)
  qed
  note rep = heap_inv_rep[OF un(1), of z, unfolded ht_rep_def rest]
  then obtain p q where seg: "dseg (hp_nodes ?h) p q bs None (ht_last (hp_tabs ?h z))"
    and low: "\<forall>a \<in> set bs. a < hp_next ?h \<and> nd_v (hp_nodes ?h a) < hp_next ?h"
    unfolding dseg_append by auto
  have "dseg (hp_nodes h) None (ht_first (hp_tabs h z)) (as @ t # bs) None (ht_last (hp_tabs h z))"
    using heap_inv_rep[OF inv, of z] by (simp add: ht_rep_def xs')
  then have "nd_next (hp_nodes h t) = (if bs = [] then None else Some (hd bs))"
    unfolding dseg_append by (auto dest!: dseg_first)
  then have q: "q = nd_next (hp_nodes ?h t)"
    using removed_node(2)[OF inv t h1] dseg_first[OF seg] by simp
  have view: "map (entry h') bs = drop (Suc (length as)) (ht_view h z)"
  proof -
    have "nd_k (hp_nodes ?h b) = nd_k (hp_nodes h b) \<and> nd_v (hp_nodes ?h b) = nd_v (hp_nodes h b)" for b
      using ht_unlink_nodes[of h1 t z b] dseg_no_self[of "hp_nodes h" _ "xs_of h z" _ t]
        heap_inv_rep[OF inv, of z] t h1
      by (auto simp: ready_to_unlink_def ht_rep_def)
    then have "entry h' b = entry h b" if "b \<in> set bs" for b
      using un(4) that heap_inv_rep[OF inv, of z]
      by (auto simp: entry_def h' cells_same_def ht_rep_def xs')
    then show ?thesis by (simp add: view_entries xs')
  qed
  have "dseg (hp_nodes h') p q bs None (ht_last (hp_tabs ?h z))"
    "\<forall>a \<in> set bs. a < hp_next h' \<and> nd_v (hp_nodes h' a) < hp_next h'"
    using seg low by (simp_all add: h')
  from raw_fold[OF inv' this] view
  have "\<exists>c' h''. it_IterateRaw (reads g) q s h'
     = Some (c', fold_until g s (shown (drop (Suc (length as)) (ht_view h z))), h'')" by metis
  moreover have "it_IterateRaw (reads g) (Some t) s h' = it_IterateRaw (reads g) q s h'"
    using raw_steps(2)[of h' t] removed_node(1)[OF inv t h1] q by (simp add: h')
  ultimately show ?thesis by simp
qed

end
