(* ===== verification/HashIterProps.thy ===== *)
theory HashIterProps
  imports HashProps HashIter
begin

text \<open>
  The properties of the iterators of \<open>HashIter\<close>: a loop sees the entries in order, a loop whose body
  removes the entry it stands on still sees all the others, and a loop by reference takes away a
  reference that was there before it.
\<close>

section \<open>Concrete heaps\<close>

text \<open>\<open>$a[0] = 7; $a[1] = 7\<close>, and a table whose entry is the reference \<open>&$x\<close>.\<close>

definition with_01 :: "memmgr \<Rightarrow> heap" where
  "with_01 m = the (only_ok (ht_Append 1 4 (with_0 m)))"

definition one_ref :: "memmgr \<Rightarrow> heap" where
  "one_ref m = the (only_ok (zv_MakeRef 1 (one_table m)))"

definition with_ref :: "memmgr \<Rightarrow> heap" where
  "with_ref m = the (only_ok (ht_SetString ''x'' (Some 1) 4 (one_ref m)))"

lemma append_run: "ht_Append 1 4 (with_0 m) = Some (Ok (with_01 m))"
  by (simp add: with_01_def with_0_def one_table_def only_ok_def heap_eval next_free.simps Let_def
      cong: bind_weak_cong let_weak_cong prod_weak_cong)

lemma ref_run:
  "zv_MakeRef 1 (one_table m) = Some (Ok (one_ref m))"
  "ht_SetString ''x'' (Some 1) 4 (one_ref m) = Some (Ok (with_ref m))"
  by (simp_all add: with_ref_def one_ref_def zv_MakeRef_def one_table_def only_ok_def heap_eval Let_def
      cong: bind_weak_cong let_weak_cong prod_weak_cong)

lemma with_0_next: "hp_next (with_0 m) = 6"
  by (simp add: with_0_def one_table_def only_ok_def heap_eval next_free.simps Let_def
      cong: bind_weak_cong let_weak_cong prod_weak_cong)

lemma with_01_facts:
  "heap_inv (with_01 m)" "ht_nodes (with_01 m) 4 = Some [5, 6]" "\<not> ht_cow (hp_tabs (with_01 m) 4)"
  "4 < hp_next (with_01 m)" "ht_view (with_01 m) 4 = [(KInt 0, VInt 7), (KInt 1, VInt 7)]"
  "nd_k (hp_nodes (with_01 m) 5) = KInt 0"
proof -
  have "arr_reach m (with_0 m)"
    by (rule arr_reach.run[OF one_table_facts(1), where z = 4 and w = "WAppend 1" and r = "Ok (with_0 m)"])
       (simp_all add: one_table_facts go_heap_def with_0_run[simplified])
  then have "arr_reach m (with_01 m)"
    by (rule arr_reach.run[where z = 4 and w = "WAppend 1" and r = "Ok (with_01 m)"])
       (simp_all add: go_heap_def append_run[simplified] with_0_next)
  then show "heap_inv (with_01 m)" by (rule reach_inv)
qed (simp_all add: with_01_def with_0_def one_table_def only_ok_def heap_eval next_free.simps Let_def
      cong: bind_weak_cong let_weak_cong prod_weak_cong)

lemma with_ref_facts:
  "heap_inv (with_ref m)" "6 \<in> set (the (ht_nodes (with_ref m) 4))" "hp_next (with_ref m) = 7"
  "nd_v (hp_nodes (with_ref m) 6) = 1" "zv_v (hp_zvals (with_ref m) 1) = VRef 5"
  "zv_v (hp_zvals (with_ref m) 5) = VInt 7"
proof -
  have "arr_reach m (one_ref m)"
    by (rule arr_reach.refer[OF one_table_facts(1) ref_run(1)])
  then have "arr_reach m (with_ref m)"
    by (rule arr_reach.set_str[OF _ _ _ ref_run(2)])
       (simp_all add: go_heap_def one_ref_def one_table_def only_ok_def zv_MakeRef_def heap_eval Let_def
          cong: bind_weak_cong let_weak_cong prod_weak_cong)
  then show "heap_inv (with_ref m)" by (rule reach_inv)
qed (simp_all add: with_ref_def one_ref_def one_table_def only_ok_def zv_MakeRef_def heap_eval Let_def
      cong: bind_weak_cong let_weak_cong prod_weak_cong)

section \<open>Properties\<close>

text \<open>C15. A loop over a table with \<open>IterateRaw\<close>, whose consumer reads the key and the value and may
  stop the loop, gives what a fold over the entries in insertion order gives, stopped at the same
  entry; it returns and changes nothing that existed.\<close>

theorem iterate_is_fold:
  assumes "heap_inv h"
  shows "\<exists>c' h'. it_IterateRaw (reads g) (hi_cur (NewIterator z h)) s h
     = Some (c', fold_until g s (shown (ht_view h z)), h') \<and> heap_grows h h'"
  using assms by (rule raw_from_start)

theorem iterate_is_fold_witness:
  "\<exists>c' h'. it_IterateRaw (reads (\<lambda>s k v. (True, s @ [(k, v)])))
     (hi_cur (NewIterator 4 (with_01 (NewMemMgr 0)))) [] (with_01 (NewMemMgr 0))
     = Some (c', [(VInt 0, VInt 7), (VInt 1, VInt 7)], h')"
  using iterate_is_fold[OF with_01_facts(1), of "\<lambda>s k v. (True, s @ [(k, v)])" 4 "NewMemMgr 0" "[]"]
  by (auto simp: with_01_facts shown_def)

text \<open>C16. When the entry an iterator stands on is removed from a table that is not shared, the
  iterator goes on with exactly the entries that followed it, in their order.\<close>

theorem iteration_survives_removal:
  assumes "heap_inv h" "z < hp_next h" "\<not> ht_cow (hp_tabs h z)"
    and "ht_nodes h z = Some (as @ t # bs)"
    and "ht_store (nd_k (hp_nodes h t)) None z h = Some (Ok h')"
  shows "\<exists>c' h''. it_IterateRaw (reads g) (Some t) s h'
     = Some (c', fold_until g s (shown (drop (Suc (length as)) (ht_view h z))), h'')"
  using assms by (rule remove_continue)

theorem iteration_survives_removal_witness:
  "\<exists>h' c' h''. ht_store (KInt 0) None 4 (with_01 (NewMemMgr 0)) = Some (Ok h')
     \<and> it_IterateRaw (reads (\<lambda>s k v. (True, s @ [k]))) (Some 5) [] h' = Some (c', [VInt 1], h'')"
proof -
  let ?h = "with_01 (NewMemMgr 0)"
  have "5 \<in> set (xs_of ?h 4)" by (simp add: xs_of_def with_01_facts)
  from remove_form[OF with_01_facts(1,3) this] obtain h' where
    r: "ht_store (nd_k (hp_nodes ?h 5)) None 4 ?h = Some (Ok h')" by blast
  have "ht_nodes ?h 4 = Some ([] @ 5 # [6])" by (simp add: with_01_facts)
  from iteration_survives_removal[OF with_01_facts(1,4,3) this r, of "\<lambda>s k v. (True, s @ [k])" "[]"]
  show ?thesis using r by (auto simp: with_01_facts shown_def)
qed

text \<open>C17. A \<open>foreach\<close> by reference over an element that already was a reference (\<open>$a = [&$x]\<close>) ends
  with the element holding a plain value: the loop variable is bound to the element's reference, and
  \<open>CleanupRef\<close> then cuts the element off from it, although \<open>$x\<close> still refers to it.\<close>

theorem foreach_by_ref_cuts_alias:
  assumes inv: "heap_inv h" and a: "a \<in> set (the (ht_nodes h z))"
    and it: "hi_cur it = Some a" "hi_prevRef it = None"
    and ref: "zv_v (hp_zvals h (nd_v (hp_nodes h a))) = VRef r" "\<not> zv_IsRef h r"
  shows "\<exists>x it' h1 it'' h2. it_CurrentMakeRef it h = Some (Some x, it', h1)
     \<and> zv_v (hp_zvals h1 x) = VRef r
     \<and> zv_v (hp_zvals h1 (nd_v (hp_nodes h1 a))) = VRef r
     \<and> it_CleanupRef it' h1 = Some (it'', h2)
     \<and> zv_v (hp_zvals h2 (nd_v (hp_nodes h2 a))) = zv_v (hp_zvals h r) \<and> \<not> zv_IsRef h2 (nd_v (hp_nodes h2 a))"
proof -
  let ?v = "nd_v (hp_nodes h a)"
  let ?h1 = "snd (NewZVal (VRef r) h)"
  have "a \<in> set (xs_of h z)" using a by (simp add: xs_of_def)
  then have live: "\<not> nd_deleted (hp_nodes h a)" and v: "?v < hp_next h"
    using heap_inv_rep[OF inv, of z] dseg_live unfolding ht_rep_def by blast+
  have "val_bound (hp_next h) (zv_v (hp_zvals h ?v))" using inv by (simp add: heap_inv_def)
  then have r: "r < hp_next h" using ref by (simp add: val_bound_def)
  have valid: "it_Valid it h = Some (True, it)"
    using it live by (simp add: it_Valid_def skip_deleted.simps)
  have mk: "it_CurrentMakeRef it h = Some (Some (hp_next h), it\<lparr>hi_prevRef := Some a\<rparr>, ?h1)"
    using it ref by (simp add: it_CurrentMakeRef_def valid zv_IsRef_def NewZVal_def new_zval_def Let_def)
  have r1: "\<not> zv_IsRef ?h1 r" using ref(2) r by (simp add: zv_IsRef_def NewZVal_def)
  have same: "hp_nodes ?h1 = hp_nodes h" "zv_v (hp_zvals ?h1 ?v) = VRef r"
    "zv_v (hp_zvals ?h1 (hp_next h)) = VRef r" "zv_v (hp_zvals ?h1 r) = zv_v (hp_zvals h r)"
    using ref v r by (simp_all add: NewZVal_def plain_zval_def)
  let ?h2 = "upd_zval ?v (\<lambda>c. c\<lparr>zv_v := zv_v (hp_zvals h r)\<rparr>) ?h1"
  have "it_CleanupRef (it\<lparr>hi_prevRef := Some a\<rparr>) ?h1 = Some (it\<lparr>hi_prevRef := None\<rparr>, ?h2)"
    by (simp add: it_CleanupRef_def collapse_ref_def same value_nonref[OF r1])
  moreover have "zv_v (hp_zvals ?h2 (nd_v (hp_nodes ?h2 a))) = zv_v (hp_zvals h r)"
    "\<not> zv_IsRef ?h2 (nd_v (hp_nodes ?h2 a))"
    using ref(2) same by (simp_all add: zv_IsRef_def)
  ultimately show ?thesis using mk same by auto
qed

theorem foreach_by_ref_cuts_alias_witness:
  "\<exists>x it' h1 it'' h2. it_CurrentMakeRef (NewIterator 4 (with_ref (NewMemMgr 0))) (with_ref (NewMemMgr 0)) = Some (Some x, it', h1)
     \<and> zv_v (hp_zvals h1 (nd_v (hp_nodes h1 6))) = VRef 5
     \<and> it_CleanupRef it' h1 = Some (it'', h2) \<and> zv_v (hp_zvals h2 (nd_v (hp_nodes h2 6))) = VInt 7"
proof -
  let ?h = "with_ref (NewMemMgr 0)"
  have it: "hi_cur (NewIterator 4 ?h) = Some 6" "hi_prevRef (NewIterator 4 ?h) = None"
    by (simp_all add: NewIterator_def with_ref_def one_ref_def one_table_def only_ok_def zv_MakeRef_def heap_eval Let_def
      cong: bind_weak_cong let_weak_cong prod_weak_cong)
  have ref: "zv_v (hp_zvals ?h (nd_v (hp_nodes ?h 6))) = VRef 5" "\<not> zv_IsRef ?h 5"
    unfolding with_ref_facts zv_IsRef_def by simp_all
  from foreach_by_ref_cuts_alias[OF with_ref_facts(1,2) it ref] show ?thesis
    unfolding with_ref_facts(6) by blast
qed

end
