(* ===== verification/ZArray.thy ===== *)
theory ZArray
  imports HashIter
begin

text \<open>
  PHP arrays, \<^verbatim>\<open>src/core/phpv/zarray.go\<close>: how a PHP value becomes a key of the hash table
  (\<open>getArrayKeyValue\<close>), and the operations behind \<open>$a[k]\<close>, \<open>isset\<close>, \<open>unset\<close> and \<open>$a[] = v\<close>. A
  \<open>ZArray\<close> is its hash table. An error is the left side of a sum; a warning is a message that the
  operation gives back beside its result.
\<close>

section \<open>Keys\<close>

text \<open>\<open>ZString.LooksInt\<close>: blanks and minus signs, digits, blanks. Every rune above 127 ends the loop
  with false, so the loop over runes is a loop over bytes.\<close>

definition is_blank :: "char \<Rightarrow> bool" where
  "is_blank c = (byte c \<in> {32, 9, 10, 13, 11, 12})"

fun looks_int_from :: "bool \<Rightarrow> bool \<Rightarrow> bool \<Rightarrow> bytes \<Rightarrow> bool" where
  "looks_int_from first gotDigit trailing [] = gotDigit"
| "looks_int_from first gotDigit trailing (c # cs) =
     (if trailing then is_blank c \<and> looks_int_from first gotDigit trailing cs
      else if first \<and> (c = CHR '' '' \<or> c = CHR ''-'') then looks_int_from first gotDigit trailing cs
      else if is_digit c then looks_int_from False True trailing cs
      else gotDigit \<and> is_blank c \<and> looks_int_from first gotDigit True cs)"

definition LooksInt :: "bytes \<Rightarrow> bool" where
  "LooksInt s = (s \<noteq> [] \<and> looks_int_from True False False s)"

text \<open>Go's conversion of a float64 to an int64, on amd64: the integer part, and the least integer for
  what is out of range or not a number. The float is given by its bits.\<close>

definition float_trunc :: "64 word \<Rightarrow> int" where
  "float_trunc w =
     (let u = uint w; e = (u div 2 ^ 52) mod 2 ^ 11; m = u mod 2 ^ 52;
          n = (if e < 1023 then 0
               else if e < 1075 then (2 ^ 52 + m) div 2 ^ nat (1075 - e)
               else (2 ^ 52 + m) * 2 ^ nat (e - 1075));
          v = (if u div 2 ^ 63 = 1 then - n else n) in
      if e = 2047 \<or> v < int64_min \<or> int64_max < v then int64_min else v)"

text \<open>The key is given by its value, where \<open>GetType\<close> and \<open>Value\<close> have followed its references.\<close>

definition getArrayKeyValue :: "val \<Rightarrow> int \<times> bytes \<times> bool" where
  "getArrayKeyValue s =
     (case s of
        VNull \<Rightarrow> (0, [], False)
      | VBool b \<Rightarrow> ((if b then 1 else 0), [], True)
      | VFloat w \<Rightarrow> (float_trunc w, [], True)
      | VInt i \<Rightarrow> (i, [], True)
      | VResource i \<Rightarrow> (i, [], True)
      | VString str \<Rightarrow>
         (if LooksInt str then
            (case parse_int64 str of
               Some i \<Rightarrow> if str = format_int i then (i, [], True) else (0, str, False)
             | None \<Rightarrow> (0, str, False))
          else (0, str, False))
      | _ \<Rightarrow> (0, [], False))"

definition array_key :: "val \<Rightarrow> key" where
  "array_key s = (case getArrayKeyValue s of (i, str, isint) \<Rightarrow> if isint then KInt i else KStr str)"

section \<open>Operations\<close>

text \<open>A key is \<open>None\<close> for \<open>$a[]\<close>.\<close>

definition read_err :: bytes where "read_err = ''Cannot use [] for reading''"
definition unset_err :: bytes where "unset_err = ''Cannot use [] for unset''"
definition isset_err :: bytes where "isset_err = ''Cannot use [] for isset''"

definition za_OffsetGet :: "val option \<Rightarrow> addr \<Rightarrow> heap \<Rightarrow> bytes + addr \<times> heap" where
  "za_OffsetGet key z h =
     (case key of
        None \<Rightarrow> Inl read_err
      | Some k \<Rightarrow>
         (case getArrayKeyValue k of (zi, zs, isint) \<Rightarrow>
            Inr (if isint then ht_GetInt zi z h else ht_GetString zs z h)))"

definition za_OffsetGetWarn :: "val option \<Rightarrow> addr \<Rightarrow> heap \<Rightarrow> bytes + bytes list \<times> addr \<times> heap" where
  "za_OffsetGetWarn key z h =
     (case key of
        None \<Rightarrow> Inl read_err
      | Some k \<Rightarrow>
         (case getArrayKeyValue k of (zi, zs, isint) \<Rightarrow>
            Inr (if isint then
                   (if \<not> ht_HasInt zi z h then ([''Undefined array key '' @ format_int zi], NewZVal VNull h)
                    else ([], ht_GetInt zi z h))
                 else if \<not> ht_HasString zs z h
                   then ([''Undefined array key '' @ CHR 0x22 # zs @ [CHR 0x22]], NewZVal VNull h)
                   else ([], ht_GetString zs z h))))"

definition za_OffsetCheck :: "val option \<Rightarrow> addr \<Rightarrow> heap \<Rightarrow> bytes + (addr \<times> heap) \<times> bool" where
  "za_OffsetCheck key z h =
     (case key of
        None \<Rightarrow> Inl read_err
      | Some k \<Rightarrow>
         (case getArrayKeyValue k of (zi, zs, isint) \<Rightarrow>
            Inr (if isint then (ht_GetInt zi z h, ht_HasInt zi z h)
                 else (ht_GetString zs z h, ht_HasString zs z h))))"

definition za_OffsetExists :: "val option \<Rightarrow> addr \<Rightarrow> heap \<Rightarrow> bytes + bool" where
  "za_OffsetExists key z h =
     (case key of
        None \<Rightarrow> Inl isset_err
      | Some k \<Rightarrow>
         (case getArrayKeyValue k of (zi, zs, isint) \<Rightarrow>
            Inr (if isint then ht_HasInt zi z h else ht_HasString zs z h)))"

text \<open>The value is not nil (a nil value is a removal, which has its own operation). The type
  constraints attached to a cell are Go closures: \<open>typed\<close> says that a cell has some and \<open>set_ctx\<close>
  stores through them. The lookup of the old cell may allocate a null that is dropped.\<close>

definition za_OffsetSet ::
  "bool \<Rightarrow> (heap \<Rightarrow> addr \<Rightarrow> bool) \<Rightarrow> (addr \<Rightarrow> addr \<Rightarrow> heap \<Rightarrow> heap go option)
     \<Rightarrow> val option \<Rightarrow> addr \<Rightarrow> addr \<Rightarrow> heap \<Rightarrow> heap go option" where
  "za_OffsetSet ctx typed set_ctx key v z h =
     (case key of
        None \<Rightarrow> ht_Append v z h
      | Some k \<Rightarrow>
         (case getArrayKeyValue k of (zi, zs, isint) \<Rightarrow>
            let store = (\<lambda>h. if isint then ht_SetInt zi (Some v) z h else ht_SetString zs (Some v) z h) in
            if \<not> zv_IsRef h v \<and> ctx then
              (case (if isint then ht_GetInt zi z h else ht_GetString zs z h) of
                 (old, h) \<Rightarrow> if typed h old then set_ctx old v h else store h)
            else store h))"

definition za_OffsetUnset :: "val option \<Rightarrow> addr \<Rightarrow> heap \<Rightarrow> bytes + heap option" where
  "za_OffsetUnset key z h =
     (case key of
        None \<Rightarrow> Inl unset_err
      | Some k \<Rightarrow>
         (case getArrayKeyValue k of (zi, zs, isint) \<Rightarrow>
            Inr (if isint then ht_UnsetInt zi z h else ht_UnsetString zs z h)))"

text \<open>The identity of an array for cycle detection: its first node, or the table itself (the pointer
  to the \<open>ZArray\<close>) when it is empty.\<close>

definition za_CycleKey :: "addr \<Rightarrow> heap \<Rightarrow> addr + addr" where
  "za_CycleKey z h = (case ht_first (hp_tabs h z) of None \<Rightarrow> Inl z | Some a \<Rightarrow> Inr a)"

definition za_Reset :: "addr \<Rightarrow> heap \<Rightarrow> heap option" where
  "za_Reset z h =
     Option.bind (ht_ResetIntKeys z h) (\<lambda>h.
       map_option (\<lambda>(_, it, h). upd_tab z (\<lambda>t. t\<lparr>ht_mainIterator := it\<rparr>) h)
         (it_Reset (ht_mainIterator (hp_tabs h z)) h))"

section \<open>Canonical keys\<close>

lemma digit_not_sign: "is_digit c \<Longrightarrow> c \<noteq> CHR '' '' \<and> c \<noteq> CHR ''-''"
  by (auto simp: is_digit_def byte_def)

lemma looks_int_digits:
  assumes "\<forall>c \<in> set s. is_digit c"
  shows "looks_int_from f g False s \<longleftrightarrow> g \<or> s \<noteq> []"
  using assms
proof (induction s arbitrary: f g)
  case (Cons c s)
  then show ?case using digit_not_sign[of c] by simp
qed simp

lemma LooksInt_format [simp]: "LooksInt (format_int i)"
proof -
  have "looks_int_from f g False (format_nat n)" for f g n
    using looks_int_digits[of "format_nat n"] format_nat_digits[of n] by simp
  then show ?thesis by (simp add: LooksInt_def format_int_def)
qed

definition int64 :: "int \<Rightarrow> bool" where
  "int64 i = (int64_min \<le> i \<and> i \<le> int64_max)"

lemma array_key_canonical: "int64 i \<Longrightarrow> array_key (VString (format_int i)) = KInt i"
  by (simp add: array_key_def getArrayKeyValue_def int64_def parse_format_int)

lemma array_key_other:
  assumes "\<And>i. int64 i \<Longrightarrow> s \<noteq> format_int i"
  shows "array_key (VString s) = KStr s"
proof -
  have "s \<noteq> format_int i" if "parse_int64 s = Some i" for i
    using assms[of i] parse_int64_range[OF that] by (simp add: int64_def)
  then show ?thesis by (simp add: array_key_def getArrayKeyValue_def split: option.splits)
qed

lemma array_key_string:
  "array_key (VString s) = (if \<exists>i. int64 i \<and> s = format_int i then KInt (the (parse_int64 s)) else KStr s)"
  using array_key_canonical array_key_other[of s] by (auto simp: int64_def parse_format_int)

text \<open>A key and its printed form are the same key.\<close>

definition key_text :: "key \<Rightarrow> bytes" where
  "key_text k = (case k of KInt i \<Rightarrow> format_int i | KStr s \<Rightarrow> s)"

lemma array_key_inj:
  assumes "array_key (VString s) = array_key (VString t)"
  shows "s = t"
proof -
  have "key_text (array_key (VString u)) = u" for u
    unfolding array_key_string by (auto simp: key_text_def int64_def parse_format_int)
  then show ?thesis using assms by metis
qed

lemma float_trunc_range: "int64 (float_trunc w)"
  by (simp add: float_trunc_def int64_def Let_def int64_min_def int64_max_def)

section \<open>Stores and lookups by value\<close>

lemma offset_forms:
  "za_OffsetGet (Some k) z h = Inr (case array_key k of KInt i \<Rightarrow> ht_GetInt i z h | KStr s \<Rightarrow> ht_GetString s z h)"
  "za_OffsetExists (Some k) z h = Inr (case array_key k of KInt i \<Rightarrow> ht_HasInt i z h | KStr s \<Rightarrow> ht_HasString s z h)"
  "za_OffsetUnset (Some k) z h = Inr (case array_key k of KInt i \<Rightarrow> ht_UnsetInt i z h | KStr s \<Rightarrow> ht_UnsetString s z h)"
  by (simp_all add: za_OffsetGet_def za_OffsetExists_def za_OffsetUnset_def array_key_def case_prod_unfold)

lemma offset_set_form:
  assumes "\<And>h a. \<not> typed h a"
  obtains h1 where "za_OffsetSet ctx typed set_ctx (Some k) v z h = ht_store (array_key k) (Some v) z h1"
    "h1 = h \<or> h1 = snd (NewZVal VNull h)"
proof -
  have g: "snd (ht_GetInt i z h) \<in> {h, snd (NewZVal VNull h)}" "snd (ht_GetString s z h) \<in> {h, snd (NewZVal VNull h)}" for i s
    by (simp_all add: ht_GetInt_def ht_GetString_def split: option.splits)
  obtain i s b where k: "getArrayKeyValue k = (i, s, b)" by (metis prod_cases3)
  let ?h = "if \<not> zv_IsRef h v \<and> ctx then (if b then snd (ht_GetInt i z h) else snd (ht_GetString s z h)) else h"
  have "za_OffsetSet ctx typed set_ctx (Some k) v z h = ht_store (array_key k) (Some v) z ?h"
    using assms by (simp add: za_OffsetSet_def array_key_def k Let_def case_prod_unfold)
  moreover have "?h = h \<or> ?h = snd (NewZVal VNull h)" using g by auto
  ultimately show ?thesis using that by blast
qed

lemma exists_view:
  assumes "heap_inv h"
  shows "za_OffsetExists (Some k) z h = Inr (array_key k \<in> set (ht_keys h z))"
  using HasInt_view[OF assms] HasString_view[OF assms]
  by (simp add: offset_forms split: key.splits)

lemma get_view:
  assumes "heap_inv h" "map_of (ht_view h z) (array_key k) = Some c"
  shows "\<exists>a. za_OffsetGet (Some k) z h = Inr (a, h) \<and> cell_view h a = c"
proof -
  define r where "r = (case array_key k of KInt i \<Rightarrow> ht_GetInt i z h | KStr s \<Rightarrow> ht_GetString s z h)"
  have "looked_up h z (array_key k) r"
    using GetInt_view[OF assms(1)] GetString_view[OF assms(1)] by (simp add: r_def split: key.split)
  then have "snd r = h \<and> cell_view h (fst r) = c" using assms(2) by (simp add: looked_up_def case_prod_unfold)
  moreover have "za_OffsetGet (Some k) z h = Inr (fst r, snd r)" by (simp add: offset_forms r_def)
  ultimately show ?thesis by auto
qed

lemma set_then_look:
  assumes inv: "heap_inv h" and z: "z < hp_next h" and v: "v < hp_next h"
    and nr: "no_ref_at h z (array_key k)" and nt: "\<And>h a. \<not> typed h a"
    and r: "za_OffsetSet ctx typed set_ctx (Some k) v z h = Some (Ok h')"
  shows "heap_inv h'"
    "map_of (ht_view h' z) x = (if x = array_key k then Some (cell_view h' v) else map_of (ht_view h z) x)"
proof -
  obtain h1 where f: "za_OffsetSet ctx typed set_ctx (Some k) v z h = ht_store (array_key k) (Some v) z h1"
    and n: "h1 = h \<or> h1 = snd (NewZVal VNull h)"
    by (rule offset_set_form[OF nt])
  have h1: "ht_store (array_key k) (Some v) z h1 = Some (Ok h')" using r f by simp
  have g: "heap_grows h h1" using n null_grows(1)[of h] grows_refl[of h] by auto
  have i1: "heap_inv h1" by (rule heap_inv_grows[OF inv g])
  have view: "ht_view h1 z = ht_view h z" by (rule ext_view(1)[OF inv g z])
  have lt: "z < hp_next h1" "v < hp_next h1" using z v g by (auto simp: heap_grows_def)
  have nr1: "no_ref_at h1 z (array_key k)" using nr view by (simp add: no_ref_at_def)
  have p: "arr_inv (h1, z)" "arr_good (h1, z) (array_key k) v" "arr_put (array_key k) v (h1, z) = Some (h', z)"
    using i1 lt nr1 h1 by (simp_all add: only_ok_Some)
  show "map_of (ht_view h' z) x = (if x = array_key k then Some (cell_view h' v) else map_of (ht_view h z) x)"
    using arr.put_lookup[OF p, of x] view by simp
  show "heap_inv h'" using arr.put_law[OF p] by simp
qed

end
