(* ===== verification/ZArrayProps.thy ===== *)
theory ZArrayProps
  imports ZArray HashProps
begin

text \<open>The properties of PHP arrays at the level of PHP values as keys.\<close>

section \<open>Properties\<close>

text \<open>C18. The decimal spelling of a 64-bit integer is the same key as the integer, every other string
  (leading zeros, blanks, a plus sign, out of range) is a string key, and no two strings are the same
  key.\<close>

theorem array_key_strings:
  "(int64 i \<longrightarrow> array_key (VString (format_int i)) = KInt i \<and> array_key (VInt i) = KInt i)
   \<and> ((\<forall>j. int64 j \<longrightarrow> s \<noteq> format_int j) \<longrightarrow> array_key (VString s) = KStr s)
   \<and> (array_key (VString s) = array_key (VString t) \<longrightarrow> s = t)"
  using array_key_canonical[of i] array_key_other[of s] array_key_inj[of s t]
  by (auto simp: array_key_def getArrayKeyValue_def)

theorem array_key_strings_witness:
  "array_key (VString ''-12'') = KInt (-12) \<and> array_key (VString ''012'') = KStr ''012''"
proof -
  have f: "format_int (-12) = ''-12''" "format_int 12 = ''12''" by code_simp+
  have p: "parse_int64 ''012'' = Some 12"
    by (simp add: parse_int64_def split_sign_def parse_nat_def is_digit_def digit_val_def byte_def
        int64_of_def int64_min_def int64_max_def)
  have "''012'' \<noteq> format_int j" if "int64 j" for j
  proof
    assume e: "''012'' = format_int j"
    then have "j = 12" using p that parse_format_int[of j] by (simp add: int64_def)
    then show False using e f by simp
  qed
  then have "array_key (VString ''012'') = KStr ''012''" using array_key_strings[of 0 "''012''"] by blast
  moreover have "int64 (-12)" by (simp add: int64_def int64_min_def int64_max_def)
  ultimately show ?thesis using array_key_strings[of "-12"] f by metis
qed

text \<open>C19. After a successful store at \<open>$a[k]\<close> (through no typed reference, and where the entry is no
  reference), \<open>isset\<close> finds exactly the keys from before and every value that is the same key as \<open>k\<close>,
  and reading through any of these gives the cell with what was stored.\<close>

theorem offset_set_get:
  assumes "heap_inv h" "z < hp_next h" "v < hp_next h" "no_ref_at h z (array_key k)"
    and "\<And>h a. \<not> typed h a"
    and "za_OffsetSet ctx typed set_ctx (Some k) v z h = Some (Ok h')"
  shows "za_OffsetExists (Some k') z h' = Inr (array_key k' = array_key k \<or> array_key k' \<in> set (ht_keys h z))
     \<and> (array_key k' = array_key k
         \<longrightarrow> (\<exists>a. za_OffsetGet (Some k') z h' = Inr (a, h') \<and> cell_view h' a = cell_view h' v))"
proof -
  note s = set_then_look[OF assms]
  have "array_key k' \<in> set (ht_keys h' z) \<longleftrightarrow> map_of (ht_view h' z) (array_key k') \<noteq> None"
    "array_key k' \<in> set (ht_keys h z) \<longleftrightarrow> map_of (ht_view h z) (array_key k') \<noteq> None"
    by (simp_all add: map_of_eq_None_iff keys_view[symmetric])
  then show ?thesis
    using s(2)[of "array_key k'"] exists_view[OF s(1), of k' z] get_view[OF s(1), of z k'] by auto
qed

theorem offset_set_get_witness:
  "\<exists>a. za_OffsetGet (Some (VFloat 0x4014000000000000)) 4 (with_5 (NewMemMgr 0)) = Inr (a, with_5 (NewMemMgr 0))
     \<and> cell_view (with_5 (NewMemMgr 0)) a = VInt 7"
proof -
  have k: "array_key (VFloat 0x4014000000000000) = KInt 5" "array_key (VInt 5) = KInt 5"
    by (simp_all add: array_key_def getArrayKeyValue_def float_trunc_def int64_min_def int64_max_def)
  have s: "za_OffsetSet False (\<lambda>_ _. False) (\<lambda>_ _ _. None) (Some (VInt 5)) 1 4 (one_table (NewMemMgr 0))
      = Some (Ok (with_5 (NewMemMgr 0)))"
    by (simp add: za_OffsetSet_def getArrayKeyValue_def Let_def with_5_run[simplified])
  have c: "cell_view (with_5 (NewMemMgr 0)) 1 = VInt 7"
    by (simp add: with_5_def one_table_def only_ok_def heap_eval Let_def
        cong: bind_weak_cong let_weak_cong prod_weak_cong)
  have "za_OffsetExists (Some (VFloat 0x4014000000000000)) 4 (with_5 (NewMemMgr 0)) = Inr (
      array_key (VFloat 0x4014000000000000) = array_key (VInt 5)
      \<or> array_key (VFloat 0x4014000000000000) \<in> set (ht_keys (one_table (NewMemMgr 0)) 4))
     \<and> (array_key (VFloat 0x4014000000000000) = array_key (VInt 5)
         \<longrightarrow> (\<exists>a. za_OffsetGet (Some (VFloat 0x4014000000000000)) 4 (with_5 (NewMemMgr 0)) = Inr (a, with_5 (NewMemMgr 0))
              \<and> cell_view (with_5 (NewMemMgr 0)) a = cell_view (with_5 (NewMemMgr 0)) 1))"
    by (rule offset_set_get[OF one_table_facts(2) _ _ _ _ s])
       (simp_all add: one_table_facts no_ref_at_def)
  then show ?thesis using k c by simp
qed

text \<open>A read that warns gives the entry without a warning when the key is there; otherwise it
  gives a new null and one warning, which spells the key as an integer or in quotes.\<close>

theorem missing_key_warns:
  assumes "heap_inv h"
  shows "\<exists>ws a h'. za_OffsetGetWarn (Some k) z h = Inr (ws, a, h')
     \<and> (case map_of (ht_view h z) (array_key k) of
          Some c \<Rightarrow> ws = [] \<and> h' = h \<and> cell_view h a = c
        | None \<Rightarrow> zv_v (hp_zvals h' a) = VNull \<and> heap_grows h h'
            \<and> ws = [''Undefined array key '' @ (case array_key k of
                KInt i \<Rightarrow> format_int i | KStr s \<Rightarrow> CHR 0x22 # s @ [CHR 0x22])])"
proof -
  have n: "za_OffsetGetWarn (Some k) z h = Inr (
      if array_key k \<in> set (ht_keys h z)
      then ([], case array_key k of KInt i \<Rightarrow> ht_GetInt i z h | KStr s \<Rightarrow> ht_GetString s z h)
      else ([''Undefined array key '' @ (case array_key k of
                KInt i \<Rightarrow> format_int i | KStr s \<Rightarrow> CHR 0x22 # s @ [CHR 0x22])], NewZVal VNull h))"
    using HasInt_view[OF assms] HasString_view[OF assms]
    by (simp add: za_OffsetGetWarn_def array_key_def case_prod_unfold)
  have l: "looked_up h z (array_key k) (case array_key k of KInt i \<Rightarrow> ht_GetInt i z h | KStr s \<Rightarrow> ht_GetString s z h)"
    using GetInt_view[OF assms] GetString_view[OF assms] by (simp split: key.split)
  show ?thesis
  proof (cases "map_of (ht_view h z) (array_key k)")
    case None
    then have "array_key k \<notin> set (ht_keys h z)" by (simp add: map_of_eq_None_iff keys_view[symmetric])
    then show ?thesis
      using n None null_grows(1)[of h] null_grows(2,3)[of VNull h] by (auto simp: prod_eq_iff)
  next
    case (Some c)
    have "array_key k \<in> set (ht_keys h z)" using map_of_SomeD[OF Some] unfolding keys_view[symmetric] by force
    then show ?thesis using n l Some by (auto simp: looked_up_def split: prod.splits)
  qed
qed

theorem missing_key_warns_witness:
  "\<exists>ws a h'. za_OffsetGetWarn (Some (VString ''12'')) 4 (one_table (NewMemMgr 0)) = Inr (ws, a, h')
     \<and> ws = [''Undefined array key 12'']"
proof -
  have f: "format_int 12 = ''12''" by code_simp
  have "int64 12" by (simp add: int64_def int64_min_def int64_max_def)
  then have "array_key (VString ''12'') = KInt 12" using array_key_canonical[of 12] f by simp
  then show ?thesis
    using missing_key_warns[OF one_table_facts(2)[of "NewMemMgr 0"], where k = "VString ''12''" and z = 4] f
    by (auto simp: one_table_facts)
qed

end
