(* ===== verification/ZArrayGraph.thy ===== *)
theory ZArrayGraph
  imports ZArrayProps
begin

text \<open>
  Arrays inside arrays, \<^verbatim>\<open>src/core/phpv/zarray.go\<close>: \<open>IsRecursive\<close> looks for an array that contains itself. It is a
  depth-first walk with the tables on the way down as its only memory.
\<close>

section \<open>The walk\<close>

text \<open>\<open>isRecursiveWith\<close>: at a table (\<open>Inl\<close>), and at the node it has come to in the list of a table (\<open>Inr\<close>). A table
  that the walk leaves is deleted from \<open>seen\<close>, which therefore is the way from the start. \<open>zv_Value\<close> is the value at
  the end of a chain of references (\<open>Nude\<close>); removed nodes are not skipped.\<close>

partial_function (option) isRecursiveWith :: "heap \<Rightarrow> addr list \<Rightarrow> addr + addr option \<Rightarrow> bool option" where
  "isRecursiveWith h seen x =
     (case x of
        Inl t \<Rightarrow>
          if t \<in> set seen then Some True
          else isRecursiveWith h (t # seen) (Inr (ht_first (hp_tabs h t)))
      | Inr None \<Rightarrow> Some False
      | Inr (Some c) \<Rightarrow>
          Option.bind (zv_Value h (nd_v (hp_nodes h c))) (\<lambda>v.
            case v of
              VArray t \<Rightarrow>
                Option.bind (isRecursiveWith h seen (Inl t)) (\<lambda>r.
                  if r then Some True else isRecursiveWith h seen (Inr (nd_next (hp_nodes h c))))
            | _ \<Rightarrow> isRecursiveWith h seen (Inr (nd_next (hp_nodes h c)))))"

definition za_IsRecursive :: "addr \<Rightarrow> heap \<Rightarrow> bool option" where
  "za_IsRecursive z h = isRecursiveWith h [] (Inl z)"

section \<open>The graph of arrays\<close>

text \<open>A table has an element that is, or refers to, an array with the table \<open>u\<close>.\<close>

definition holds :: "heap \<Rightarrow> (addr \<times> addr) set" where
  "holds h = {(t, u). \<exists>a \<in> set (xs_of h t). zv_Value h (nd_v (hp_nodes h a)) = Some (VArray u)}"

text \<open>From \<open>t\<close> the walk meets a table of the way again, or one that contains itself.\<close>

definition meets :: "heap \<Rightarrow> addr set \<Rightarrow> addr \<Rightarrow> bool" where
  "meets h way t = ((\<exists>u \<in> way. (t, u) \<in> (holds h)\<^sup>*) \<or> (\<exists>u. (t, u) \<in> (holds h)\<^sup>* \<and> (u, u) \<in> (holds h)\<^sup>+))"

lemma meets_step:
  assumes "t \<notin> way"
  shows "meets h way t \<longleftrightarrow> (\<exists>u. (t, u) \<in> holds h \<and> meets h (insert t way) u)"
proof
  assume "meets h way t"
  then consider u where "u \<in> way" "(t, u) \<in> (holds h)\<^sup>*" | u where "(t, u) \<in> (holds h)\<^sup>*" "(u, u) \<in> (holds h)\<^sup>+"
    unfolding meets_def by blast
  then show "\<exists>u. (t, u) \<in> holds h \<and> meets h (insert t way) u"
  proof cases
    case 1
    then obtain c where "(t, c) \<in> holds h" "(c, u) \<in> (holds h)\<^sup>*" using assms by (metis converse_rtranclE)
    then show ?thesis using 1(1) by (auto simp: meets_def)
  next
    case 2
    show ?thesis
    proof (cases "t = u")
      case True
      then obtain c where "(t, c) \<in> holds h" "(c, t) \<in> (holds h)\<^sup>*" using 2(2) by (meson tranclD)
      then show ?thesis by (auto simp: meets_def)
    next
      case False
      then obtain c where "(t, c) \<in> holds h" "(c, u) \<in> (holds h)\<^sup>*" using 2(1) by (metis converse_rtranclE)
      then show ?thesis using 2(2) by (auto simp: meets_def)
    qed
  qed
next
  assume "\<exists>u. (t, u) \<in> holds h \<and> meets h (insert t way) u"
  then obtain c where c: "(t, c) \<in> holds h" "meets h (insert t way) c" by blast
  then show "meets h way t"
    unfolding meets_def by (metis insert_iff rtrancl.rtrancl_refl rtrancl_into_trancl2 converse_rtrancl_into_rtrancl)
qed

lemma value_bound: "zv_Value h a = Some v \<Longrightarrow> heap_inv h \<Longrightarrow> val_bound (hp_next h) v"
proof -
  assume v: "zv_Value h a = Some v" and inv: "heap_inv h"
  have "heap_inv h \<longrightarrow> val_bound (hp_next h) v"
    by (rule zv_Value.raw_induct[OF _ v]) (auto simp: heap_inv_def split: option.splits)
  then show ?thesis using inv by blast
qed

lemma holds_bound: "heap_inv h \<Longrightarrow> (t, u) \<in> holds h \<Longrightarrow> u < hp_next h"
  using value_bound by (fastforce simp: holds_def val_bound_def)

section \<open>The walk returns\<close>

text \<open>A list of nodes, when the walk is known to return at the tables it holds.\<close>

lemma walk_list:
  assumes "dseg (hp_nodes h) p c xs None l"
    and "\<forall>a \<in> set xs. \<exists>v. zv_Value h (nd_v (hp_nodes h a)) = Some v \<and>
      (\<forall>u. v = VArray u \<longrightarrow> isRecursiveWith h seen (Inl u) = Some (P u))"
  shows "isRecursiveWith h seen (Inr c) =
    Some (\<exists>a \<in> set xs. \<exists>u. zv_Value h (nd_v (hp_nodes h a)) = Some (VArray u) \<and> P u)"
  using assms
proof (induction xs arbitrary: p c)
  case Nil
  then show ?case by (subst isRecursiveWith.simps) simp
next
  case (Cons a xs)
  have c: "c = Some a" using Cons.prems(1) by simp
  obtain v where v: "zv_Value h (nd_v (hp_nodes h a)) = Some v"
      "\<And>u. v = VArray u \<Longrightarrow> isRecursiveWith h seen (Inl u) = Some (P u)"
    using Cons.prems(2) by auto
  have ih: "isRecursiveWith h seen (Inr (nd_next (hp_nodes h a))) =
      Some (\<exists>a \<in> set xs. \<exists>u. zv_Value h (nd_v (hp_nodes h a)) = Some (VArray u) \<and> P u)"
    by (rule Cons.IH[of "Some a"]) (use Cons.prems in auto)
  show ?case unfolding c by (subst isRecursiveWith.simps) (use v ih in \<open>auto split: val.split\<close>)
qed

lemma walk_table:
  assumes inv: "heap_inv h" and ends: "\<And>a. \<exists>v. zv_Value h a = Some v" and t: "t < hp_next h"
    and way: "distinct seen" "set seen \<subseteq> {..<hp_next h}"
  shows "isRecursiveWith h seen (Inl t) = Some (meets h (set seen) t)"
  using t way
proof (induction "hp_next h - length seen" arbitrary: seen t rule: less_induct)
  case less
  show ?case
  proof (cases "t \<in> set seen")
    case True
    then have "meets h (set seen) t" by (auto simp: meets_def)
    then show ?thesis using True by (subst isRecursiveWith.simps) simp
  next
    case False
    have "card (set (t # seen)) \<le> card {..<hp_next h}" using less.prems by (intro card_mono) auto
    then have "length (t # seen) \<le> hp_next h" using distinct_card[of "t # seen"] less.prems(2) False by simp
    then have m: "hp_next h - length (t # seen) < hp_next h - length seen" by simp
    have w: "distinct (t # seen)" "set (t # seen) \<subseteq> {..<hp_next h}" using less.prems False by simp_all
    have "isRecursiveWith h (t # seen) (Inl u) = Some (meets h (insert t (set seen)) u)" if "(t, u) \<in> holds h" for u
      using less.hyps[OF m holds_bound[OF inv that] w] by simp
    then have nodes: "\<forall>a \<in> set (xs_of h t). \<exists>v. zv_Value h (nd_v (hp_nodes h a)) = Some v \<and>
        (\<forall>u. v = VArray u \<longrightarrow> isRecursiveWith h (t # seen) (Inl u) = Some (meets h (insert t (set seen)) u))"
      using ends unfolding holds_def by blast
    have "dseg (hp_nodes h) None (ht_first (hp_tabs h t)) (xs_of h t) None (ht_last (hp_tabs h t))"
      using heap_inv_rep[OF inv, of t] by (simp add: ht_rep_def)
    from walk_list[OF this nodes]
    have "isRecursiveWith h seen (Inl t) = Some (\<exists>u. (t, u) \<in> holds h \<and> meets h (insert t (set seen)) u)"
      using False by (subst isRecursiveWith.simps) (auto simp: holds_def)
    then show ?thesis using meets_step[OF False] by simp
  qed
qed

section \<open>An array that refers to itself\<close>

text \<open>\<open>$a = []; $a[] = &$a;\<close>: the cell 5 refers to the cell 1, whose value is the array.\<close>

definition self_cells :: "memmgr \<Rightarrow> heap" where
  "self_cells m = snd (NewZVal (VRef 5) (snd (NewZVal (VArray 4) (one_table m))))"

definition self_heap :: "memmgr \<Rightarrow> heap" where
  "self_heap m = the (only_ok (ht_Append 6 4 (self_cells m)))"

lemma self_heap_run: "ht_Append 6 4 (self_cells m) = Some (Ok (self_heap m))"
  by (simp add: self_heap_def self_cells_def one_table_def only_ok_def heap_eval next_free.simps Let_def
      cong: bind_weak_cong let_weak_cong prod_weak_cong)

lemma self_heap_facts:
  "heap_inv (self_heap m)" "ht_nodes (self_heap m) 4 = Some [7]" "4 < hp_next (self_heap m)"
  "nd_v (hp_nodes (self_heap m) 7) = 6" "zv_v (hp_zvals (self_heap m) 6) = VRef 5"
  "zv_v (hp_zvals (self_heap m) 5) = VArray 4" "a \<noteq> 6 \<Longrightarrow> \<not> zv_IsRef (self_heap m) a"
proof -
  have nx: "hp_next (self_cells m) = 7" "hp_next (snd (NewZVal (VArray 4) (one_table m))) = 6"
    using one_table_facts(3)[of m] by (simp_all add: self_cells_def NewZVal_def new_zval_def)
  have "arr_reach m (self_cells m)"
    unfolding self_cells_def
    by (intro arr_reach.make_val one_table_facts(1)) (simp_all add: val_bound_def one_table_facts(3) nx)
  then have "arr_reach m (self_heap m)"
    by (rule arr_reach.run[where z = 4 and w = "WAppend 6" and r = "Ok (self_heap m)"])
       (simp_all add: go_heap_def self_heap_run[simplified] nx)
  then show "heap_inv (self_heap m)" by (rule reach_inv)
qed (simp_all add: self_heap_def self_cells_def one_table_def only_ok_def heap_eval next_free.simps Let_def zv_IsRef_def
      empty_heap_def plain_zval_def cong: bind_weak_cong let_weak_cong prod_weak_cong)

lemma self_heap_value: "zv_Value (self_heap m) 6 = Some (VArray 4)" "zv_Value (self_heap m) a \<noteq> None"
proof -
  have 5: "zv_Value (self_heap m) 5 = Some (VArray 4)"
    using value_nonref[OF self_heap_facts(7)[of 5 m]] self_heap_facts(6) by simp
  then show 6: "zv_Value (self_heap m) 6 = Some (VArray 4)"
    by (subst zv_Value.simps) (simp add: self_heap_facts(5))
  show "zv_Value (self_heap m) a \<noteq> None"
    using 6 value_nonref[OF self_heap_facts(7)[of a m]] by (cases "a = 6") auto
qed

section \<open>Properties\<close>

text \<open>C20. \<open>IsRecursive\<close> returns on every array, if no chain of references runs in a circle, and says yes exactly when
  the array holds itself, or it holds, through any number of arrays and references, an array that holds itself.\<close>

theorem is_recursive_iff_cycle:
  assumes "heap_inv h" "\<And>a. zv_Value h a \<noteq> None" "z < hp_next h"
  shows "za_IsRecursive z h = Some (\<exists>u. (z, u) \<in> (holds h)\<^sup>* \<and> (u, u) \<in> (holds h)\<^sup>+)"
proof -
  have "isRecursiveWith h [] (Inl z) = Some (meets h (set []) z)"
    by (rule walk_table) (use assms in auto)
  then show ?thesis by (simp add: za_IsRecursive_def meets_def)
qed

theorem is_recursive_iff_cycle_witness: "za_IsRecursive 4 (self_heap (NewMemMgr 0)) = Some True"
proof -
  have "(4, 4) \<in> holds (self_heap (NewMemMgr 0))"
    by (simp add: holds_def xs_of_def self_heap_facts self_heap_value)
  then have "\<exists>u. (4, u) \<in> (holds (self_heap (NewMemMgr 0)))\<^sup>* \<and> (u, u) \<in> (holds (self_heap (NewMemMgr 0)))\<^sup>+" by blast
  then show ?thesis
    using is_recursive_iff_cycle[OF self_heap_facts(1) self_heap_value(2) self_heap_facts(3)] by simp
qed

end
