(* ===== verification/VmInst.thy ===== *)
theory VmInst
  imports "HOL-Library.Word"
begin

text \<open>
  Instructions of the bytecode machine, \<^verbatim>\<open>src/core/vm/inst.go\<close> and \<^verbatim>\<open>opcode.go\<close>: 64-bit words with an
  8-bit opcode, two 16-bit operands and a signed 24-bit one.
\<close>

unbundle bit_operations_syntax

section \<open>Opcodes\<close>

text \<open>\<open>type Op uint8\<close>: the opcodes that the models of the machine and of the emitter know, with their
  places in the enumeration.\<close>

abbreviation OpNop :: "8 word" where "OpNop \<equiv> 0"
abbreviation OpLoadConst :: "8 word" where "OpLoadConst \<equiv> 1"
abbreviation OpLoadNull :: "8 word" where "OpLoadNull \<equiv> 2"
abbreviation OpLoadTrue :: "8 word" where "OpLoadTrue \<equiv> 3"
abbreviation OpLoadFalse :: "8 word" where "OpLoadFalse \<equiv> 4"
abbreviation OpLoadLocal :: "8 word" where "OpLoadLocal \<equiv> 5"
abbreviation OpLoadLocalOrWarn :: "8 word" where "OpLoadLocalOrWarn \<equiv> 6"
abbreviation OpStoreLocal :: "8 word" where "OpStoreLocal \<equiv> 7"
abbreviation OpStoreLocalKeep :: "8 word" where "OpStoreLocalKeep \<equiv> 8"
abbreviation OpDup :: "8 word" where "OpDup \<equiv> 9"
abbreviation OpPop :: "8 word" where "OpPop \<equiv> 10"
abbreviation OpAdd :: "8 word" where "OpAdd \<equiv> 11"
abbreviation OpSub :: "8 word" where "OpSub \<equiv> 12"
abbreviation OpMul :: "8 word" where "OpMul \<equiv> 13"
abbreviation OpDiv :: "8 word" where "OpDiv \<equiv> 14"
abbreviation OpMod :: "8 word" where "OpMod \<equiv> 15"
abbreviation OpPow :: "8 word" where "OpPow \<equiv> 16"
abbreviation OpBitAnd :: "8 word" where "OpBitAnd \<equiv> 17"
abbreviation OpBitOr :: "8 word" where "OpBitOr \<equiv> 18"
abbreviation OpBitXor :: "8 word" where "OpBitXor \<equiv> 19"
abbreviation OpShl :: "8 word" where "OpShl \<equiv> 20"
abbreviation OpShr :: "8 word" where "OpShr \<equiv> 21"
abbreviation OpNeg :: "8 word" where "OpNeg \<equiv> 22"
abbreviation OpBitNot :: "8 word" where "OpBitNot \<equiv> 23"
abbreviation OpConcat :: "8 word" where "OpConcat \<equiv> 24"
abbreviation OpCmpEq :: "8 word" where "OpCmpEq \<equiv> 25"
abbreviation OpCmpNe :: "8 word" where "OpCmpNe \<equiv> 26"
abbreviation OpCmpId :: "8 word" where "OpCmpId \<equiv> 27"
abbreviation OpCmpNid :: "8 word" where "OpCmpNid \<equiv> 28"
abbreviation OpCmpLt :: "8 word" where "OpCmpLt \<equiv> 29"
abbreviation OpCmpLe :: "8 word" where "OpCmpLe \<equiv> 30"
abbreviation OpCmpGt :: "8 word" where "OpCmpGt \<equiv> 31"
abbreviation OpCmpGe :: "8 word" where "OpCmpGe \<equiv> 32"
abbreviation OpCmpSpaceship :: "8 word" where "OpCmpSpaceship \<equiv> 33"
abbreviation OpNot :: "8 word" where "OpNot \<equiv> 34"
abbreviation OpBool :: "8 word" where "OpBool \<equiv> 35"
abbreviation OpIncLocal :: "8 word" where "OpIncLocal \<equiv> 36"
abbreviation OpDecLocal :: "8 word" where "OpDecLocal \<equiv> 37"
abbreviation OpPostIncLocal :: "8 word" where "OpPostIncLocal \<equiv> 38"
abbreviation OpPostDecLocal :: "8 word" where "OpPostDecLocal \<equiv> 39"
abbreviation OpOpAssignLocal :: "8 word" where "OpOpAssignLocal \<equiv> 40"
abbreviation OpJmp :: "8 word" where "OpJmp \<equiv> 41"
abbreviation OpJmpIfFalse :: "8 word" where "OpJmpIfFalse \<equiv> 42"
abbreviation OpJmpIfTrue :: "8 word" where "OpJmpIfTrue \<equiv> 43"
abbreviation OpJmpIfFalsePeek :: "8 word" where "OpJmpIfFalsePeek \<equiv> 44"
abbreviation OpJmpIfTruePeek :: "8 word" where "OpJmpIfTruePeek \<equiv> 45"
abbreviation OpJmpIfNotNullPeek :: "8 word" where "OpJmpIfNotNullPeek \<equiv> 46"
abbreviation OpCallUser :: "8 word" where "OpCallUser \<equiv> 47"
abbreviation OpRet :: "8 word" where "OpRet \<equiv> 50"
abbreviation OpRetNull :: "8 word" where "OpRetNull \<equiv> 51"
abbreviation OpThrow :: "8 word" where "OpThrow \<equiv> 58"
abbreviation OpTryFinally :: "8 word" where "OpTryFinally \<equiv> 61"
abbreviation OpRefreshSlots :: "8 word" where "OpRefreshSlots \<equiv> 62"
abbreviation OpForeachInit :: "8 word" where "OpForeachInit \<equiv> 67"
abbreviation OpForeachStep :: "8 word" where "OpForeachStep \<equiv> 68"
abbreviation OpForeachAdvance :: "8 word" where "OpForeachAdvance \<equiv> 69"
abbreviation OpForeachUnwind :: "8 word" where "OpForeachUnwind \<equiv> 70"
abbreviation OpTick :: "8 word" where "OpTick \<equiv> 71"
abbreviation OpInlineHtml :: "8 word" where "OpInlineHtml \<equiv> 75"
abbreviation OpFinallyEnd :: "8 word" where "OpFinallyEnd \<equiv> 111"

section \<open>Encoding\<close>

type_synonym instruction = "64 word"

text \<open>\<open>None\<close> is the panic on an operand that does not fit 24 bits.\<close>

definition Encode :: "8 word \<Rightarrow> 16 word \<Rightarrow> 16 word \<Rightarrow> 32 word \<Rightarrow> instruction option" where
  "Encode opc a b c =
     (if sint c < - (2 ^ 23) \<or> sint c \<ge> 2 ^ 23 then None
      else Some (push_bit 56 (ucast opc) OR push_bit 40 (ucast a) OR push_bit 24 (ucast b)
                 OR ucast (c AND 0xFFFFFF)))"

definition EncodeABx :: "8 word \<Rightarrow> 32 word \<Rightarrow> 32 word \<Rightarrow> instruction option" where
  "EncodeABx opc abx c =
     (let a = ucast (drop_bit 16 abx); b = ucast (abx AND 0xFFFF) in Encode opc a b c)"

definition in_Op :: "instruction \<Rightarrow> 8 word" where
  "in_Op i = ucast (drop_bit 56 i)"

definition in_A :: "instruction \<Rightarrow> 16 word" where
  "in_A i = ucast (drop_bit 40 i)"

definition in_B :: "instruction \<Rightarrow> 16 word" where
  "in_B i = ucast (drop_bit 24 i)"

definition in_C :: "instruction \<Rightarrow> 32 word" where
  "in_C i =
     (let c = ucast (i AND 0xFFFFFF) in
      if c AND push_bit 23 1 \<noteq> 0 then c OR NOT 0xFFFFFF else c)"

definition in_ABx :: "instruction \<Rightarrow> 32 word" where
  "in_ABx i = ucast (drop_bit 24 i) AND 0xFFFFFFFF"

section \<open>What decoding an encoded instruction gives\<close>

definition fits24 :: "32 word \<Rightarrow> bool" where
  "fits24 c = (- (2 ^ 23) \<le> sint c \<and> sint c < 2 ^ 23)"

lemma fits24_bits:
  assumes "fits24 c" "23 \<le> n" "n < 32"
  shows "bit c n = bit c 23"
proof -
  have "signed_take_bit 23 (sint c) = sint c"
    using assms(1) by (simp add: fits24_def signed_take_bit_int_eq_self_iff)
  then have "bit (sint c) n = bit (sint c) (min 23 n)"
    by (metis bit_signed_take_bit_iff possible_bit_int)
  then show ?thesis using assms(2,3) by (simp add: bit_sint_iff)
qed

lemma mask24: "(0xFFFFFF :: 'a::len word) = mask 24"
  by (simp add: mask_eq_exp_minus_1)

lemma encode_bits:
  assumes "Encode opc a b c = Some i"
  shows "bit i n \<longleftrightarrow> 56 \<le> n \<and> n < 64 \<and> bit opc (n - 56) \<or> 40 \<le> n \<and> n < 56 \<and> bit a (n - 40)
     \<or> 24 \<le> n \<and> n < 40 \<and> bit b (n - 24) \<or> n < 24 \<and> bit c n"
proof -
  have i: "i = push_bit 56 (ucast opc) OR push_bit 40 (ucast a) OR push_bit 24 (ucast b) OR ucast (c AND 0xFFFFFF)"
    using assms by (simp add: Encode_def split: if_splits)
  have l: "bit opc (n - 56) \<Longrightarrow> n - 56 < 8" "bit a (n - 40) \<Longrightarrow> n - 40 < 16" "bit b (n - 24) \<Longrightarrow> n - 24 < 16"
    using bit_imp_le_length by fastforce+
  have "bit i n \<longleftrightarrow> 56 \<le> n \<and> n < 64 \<and> bit opc (n - 56) \<or> 40 \<le> n \<and> n < 64 \<and> bit a (n - 40)
     \<or> 24 \<le> n \<and> n < 64 \<and> bit b (n - 24) \<or> n < 24 \<and> bit c n"
    unfolding i mask24 by (simp add: bit_simps) linarith
  then show ?thesis using l by (cases "n < 64") auto
qed

lemma encode_fields:
  assumes "Encode opc a b c = Some i"
  shows "in_Op i = opc" and "in_A i = a" and "in_B i = b"
proof -
  note e = encode_bits[OF assms]
  show "in_Op i = opc" unfolding in_Op_def by (rule bit_word_eqI) (simp add: bit_simps e)
  show "in_A i = a" unfolding in_A_def by (rule bit_word_eqI) (simp add: bit_simps e)
  show "in_B i = b" unfolding in_B_def by (rule bit_word_eqI) (simp add: bit_simps e)
qed

lemma encode_C:
  assumes "Encode opc a b c = Some i"
  shows "in_C i = c"
proof -
  note e = encode_bits[OF assms]
  have f: "fits24 c" using assms by (auto simp: Encode_def fits24_def split: if_splits)
  let ?c = "ucast (i AND 0xFFFFFF) :: 32 word"
  have b: "bit ?c n \<longleftrightarrow> n < 24 \<and> bit c n" for n
    unfolding mask24 by (auto simp: bit_simps e)
  have t: "?c AND push_bit 23 1 \<noteq> 0 \<longleftrightarrow> bit c 23"
    using b[of 23] unfolding bit_iff_and_push_bit_not_eq_0[symmetric] by simp
  show ?thesis
  proof (rule bit_word_eqI)
    fix n assume "n < LENGTH(32)"
    then show "bit (in_C i) n = bit c n"
      using fits24_bits[OF f, of n] t b[of n]
      by (auto simp: in_C_def Let_def bit_or_iff bit_not_iff mask24 bit_mask_iff)
  qed
qed

lemma encode_ABx:
  assumes "EncodeABx opc abx c = Some i"
  shows "in_ABx i = abx"
proof -
  have e: "Encode opc (ucast (drop_bit 16 abx)) (ucast (abx AND 0xFFFF)) c = Some i"
    using assms by (simp add: EncodeABx_def Let_def)
  have m: "(0xFFFF :: 32 word) = mask 16" "(0xFFFFFFFF :: 32 word) = mask 32"
    by (simp_all add: mask_eq_exp_minus_1)
  show ?thesis
  proof (rule bit_word_eqI)
    fix n assume "n < LENGTH(32)"
    then show "bit (in_ABx i) n = bit abx n"
      unfolding in_ABx_def m using encode_bits[OF e, of "24 + n"]
      by (cases "n < 16") (auto simp: bit_simps m)
  qed
qed

section \<open>Properties\<close>

text \<open>C21. Encoding panics exactly when the third operand does not fit in 24 signed bits; otherwise the
  opcode and all operands are read back unchanged, a negative jump offset included. The wide form
  gives its 32-bit operand back.\<close>

theorem instruction_roundtrip:
  "(Encode opc a b c = None \<longleftrightarrow> \<not> fits24 c)
   \<and> (Encode opc a b c = Some i \<longrightarrow> in_Op i = opc \<and> in_A i = a \<and> in_B i = b \<and> in_C i = c)
   \<and> (EncodeABx opc abx c = Some i \<longrightarrow> in_Op i = opc \<and> in_ABx i = abx \<and> in_C i = c)"
  using encode_fields[of opc a b c i] encode_C[of opc a b c i] encode_ABx[of opc abx c i]
    encode_fields(1)[of opc "ucast (drop_bit 16 abx)" "ucast (abx AND 0xFFFF)" c i]
    encode_C[of opc "ucast (drop_bit 16 abx)" "ucast (abx AND 0xFFFF)" c i]
  by (auto simp: Encode_def fits24_def EncodeABx_def Let_def split: if_splits)

theorem instruction_roundtrip_witness:
  "Encode OpJmp 7 9 (-5) \<noteq> None \<and> in_C (the (Encode OpJmp 7 9 (-5))) = -5 \<and> in_A (the (Encode OpJmp 7 9 (-5))) = 7"
proof -
  have "fits24 (-5)" by (simp add: fits24_def)
  then obtain i where "Encode OpJmp 7 9 (-5) = Some i" using instruction_roundtrip[of OpJmp 7 9 "-5"] by blast
  then show ?thesis using instruction_roundtrip[of OpJmp 7 9 "-5" i] by simp
qed

end
