(* ===== verification/VmArith.thy ===== *)
theory VmArith
  imports VmInst "HOL-Library.Signed_Division"
begin

text \<open>
  The integer fast paths of the dispatch loop, \<^verbatim>\<open>src/core/vm/vm.go\<close>: when both operands are
  integers the result is computed in 64 bits, and \<open>None\<close> sends the operands to the generic operator
  instead (which goes over to floats). Go's \<open>/\<close> and \<open>%\<close> truncate, and
  the quotient of the least integer by -1 wraps.
\<close>

section \<open>Fast paths\<close>

type_synonym i64 = "64 word"

definition go_quot :: "i64 \<Rightarrow> i64 \<Rightarrow> i64" where
  "go_quot a b = word_of_int (sint a sdiv sint b)"

definition go_rem :: "i64 \<Rightarrow> i64 \<Rightarrow> i64" where
  "go_rem a b = word_of_int (sint a smod sint b)"

definition min64 :: i64 where "min64 = push_bit 63 1"

definition fast_add :: "i64 \<Rightarrow> i64 \<Rightarrow> i64 option" where
  "fast_add ai bi = (let c = ai + bi in if (ai <s c) = (0 <s bi) then Some c else None)"

definition fast_sub :: "i64 \<Rightarrow> i64 \<Rightarrow> i64 option" where
  "fast_sub ai bi = (let c = ai - bi in if (c <s ai) = (0 <s bi) then Some c else None)"

definition fast_mul :: "i64 \<Rightarrow> i64 \<Rightarrow> i64 option" where
  "fast_mul ai bi =
     (if ai = 0 \<or> bi = 0 then Some 0
      else (let c = ai * bi in
            if (c <s 0) = ((ai <s 0) \<noteq> (bi <s 0)) \<and> go_quot c bi = ai then Some c else None))"

definition fast_div :: "i64 \<Rightarrow> i64 \<Rightarrow> i64 option" where
  "fast_div ai bi =
     (if bi \<noteq> 0 \<and> \<not> (ai = min64 \<and> bi = -1) \<and> go_rem ai bi = 0 then Some (go_quot ai bi) else None)"

definition fast_mod :: "i64 \<Rightarrow> i64 \<Rightarrow> i64 option" where
  "fast_mod ai bi = (if bi \<noteq> 0 \<and> \<not> (ai = min64 \<and> bi = -1) then Some (go_rem ai bi) else None)"

definition fast_shl :: "i64 \<Rightarrow> i64 \<Rightarrow> i64 option" where
  "fast_shl ai bi =
     (if 0 \<le>s bi then Some (if 64 \<le>s bi then 0 else push_bit (unat bi) ai) else None)"

definition fast_shr :: "i64 \<Rightarrow> i64 \<Rightarrow> i64 option" where
  "fast_shr ai bi =
     (if 0 \<le>s bi then
        Some (if 64 \<le>s bi then (if ai <s 0 then -1 else 0) else signed_drop_bit (unat bi) ai)
      else None)"

section \<open>Exactness\<close>

definition i64_range :: "int \<Rightarrow> bool" where
  "i64_range i = (- (2 ^ 63) \<le> i \<and> i < 2 ^ 63)"

lemma sint_range: "i64_range (sint (a :: i64))"
  using sint_ge[of a] sint_lt[of a] by (simp add: i64_range_def)

lemma sint_of_range: "i64_range i \<Longrightarrow> sint (word_of_int i :: i64) = i"
  by (simp add: i64_range_def int_word_sint)

text \<open>A sum that is out of range by less than the modulus wraps to the other end.\<close>

lemma wrap_near:
  assumes "- (2 ^ 64) \<le> i" "i < 2 ^ 64"
  shows "i < - (2 ^ 63) \<Longrightarrow> sint (word_of_int i :: i64) = i + 2 ^ 64"
    and "2 ^ 63 \<le> i \<Longrightarrow> sint (word_of_int i :: i64) = i - 2 ^ 64"
proof -
  have eq: "(of_int (i + 2 ^ 64) :: i64) = of_int i" "(of_int (i - 2 ^ 64) :: i64) = of_int i"
    by simp_all
  show "sint (word_of_int i :: i64) = i + 2 ^ 64" if "i < - (2 ^ 63)"
  proof -
    have "i64_range (i + 2 ^ 64)" using that assms by (simp add: i64_range_def)
    from sint_of_range[OF this] show ?thesis unfolding eq .
  qed
  show "sint (word_of_int i :: i64) = i - 2 ^ 64" if "2 ^ 63 \<le> i"
  proof -
    have "i64_range (i - 2 ^ 64)" using that assms by (simp add: i64_range_def)
    from sint_of_range[OF this] show ?thesis unfolding eq .
  qed
qed

lemma word_ops_int:
  "(a :: i64) + b = word_of_int (sint a + sint b)" "a - b = word_of_int (sint a - sint b)"
  "a * b = word_of_int (sint a * sint b)"
  by simp_all

lemma fast_add_exact:
  "fast_add a b = (if i64_range (sint a + sint b) then Some (word_of_int (sint a + sint b)) else None)"
proof -
  let ?s = "sint a + sint b"
  have r: "- (2 ^ 63) \<le> sint a" "sint a < 2 ^ 63" "- (2 ^ 63) \<le> sint b" "sint b < 2 ^ 63"
    using sint_range[of a] sint_range[of b] by (simp_all add: i64_range_def)
  then have l: "- (2 ^ 64) \<le> ?s" "?s < 2 ^ 64" by simp_all
  consider "?s < - (2 ^ 63)" | "2 ^ 63 \<le> ?s" | "i64_range ?s" unfolding i64_range_def by linarith
  then have "(sint a < sint (a + b)) = (0 < sint b) \<longleftrightarrow> i64_range ?s"
  proof cases
    case 1
    then show ?thesis unfolding word_ops_int(1) wrap_near(1)[OF l 1] using r by (simp add: i64_range_def)
  next
    case 2
    then show ?thesis unfolding word_ops_int(1) wrap_near(2)[OF l 2] using r by (simp add: i64_range_def)
  next
    case 3
    then show ?thesis unfolding word_ops_int(1) sint_of_range[OF 3] by auto
  qed
  then show ?thesis by (simp add: fast_add_def Let_def word_sless_alt word_ops_int(1) del: of_int_add of_int_diff)
qed

lemma fast_sub_exact:
  "fast_sub a b = (if i64_range (sint a - sint b) then Some (word_of_int (sint a - sint b)) else None)"
proof -
  let ?s = "sint a - sint b"
  have r: "- (2 ^ 63) \<le> sint a" "sint a < 2 ^ 63" "- (2 ^ 63) \<le> sint b" "sint b < 2 ^ 63"
    using sint_range[of a] sint_range[of b] by (simp_all add: i64_range_def)
  then have l: "- (2 ^ 64) \<le> ?s" "?s < 2 ^ 64" by simp_all
  consider "?s < - (2 ^ 63)" | "2 ^ 63 \<le> ?s" | "i64_range ?s" unfolding i64_range_def by linarith
  then have "(sint (a - b) < sint a) = (0 < sint b) \<longleftrightarrow> i64_range ?s"
  proof cases
    case 1
    then show ?thesis unfolding word_ops_int(2) wrap_near(1)[OF l 1] using r by (simp add: i64_range_def)
  next
    case 2
    then show ?thesis unfolding word_ops_int(2) wrap_near(2)[OF l 2] using r by (simp add: i64_range_def)
  next
    case 3
    then show ?thesis unfolding word_ops_int(2) sint_of_range[OF 3] by auto
  qed
  then show ?thesis by (simp add: fast_sub_def Let_def word_sless_alt word_ops_int(2) del: of_int_add of_int_diff)
qed

text \<open>Truncated division.\<close>

lemma sdiv_exact: "(b :: int) \<noteq> 0 \<Longrightarrow> (q * b) sdiv b = q"
  by (simp add: signed_divide_int_eq_divide_int)

lemma min64_sint: "sint (a :: i64) = - (2 ^ 63) \<longleftrightarrow> a = min64"
proof -
  have "sint min64 = - (2 ^ 63)" by (simp add: min64_def)
  then show ?thesis by (metis signed_word_eqI)
qed

lemma minus1_sint: "sint (b :: i64) = -1 \<longleftrightarrow> b = -1"
  by (metis sint_n1 signed_word_eqI)

lemma quot_range:
  assumes "\<not> (a = min64 \<and> (b :: i64) = -1)"
  shows "i64_range (sint a sdiv sint b)"
proof -
  have a: "\<bar>sint a\<bar> \<le> 2 ^ 63" using sint_range[of a] by (auto simp: i64_range_def)
  have q: "- \<bar>sint a\<bar> \<le> sint a sdiv sint b" "sint a sdiv sint b \<le> \<bar>sint a\<bar>"
    using sdiv_int_range[of "sint a" "sint b"] by simp_all
  have "sint a sdiv sint b \<noteq> 2 ^ 63"
  proof
    assume e: "sint a sdiv sint b = 2 ^ 63"
    then have m: "sint a = - (2 ^ 63)" using a q(2) sint_range[of a] by (auto simp: i64_range_def)
    then have "sint a sdiv sint b = - sint a" "sint a \<noteq> 0" using e by simp_all
    then have "sint b = -1" using int_sdiv_negated_is_minus1 by blast
    then show False using assms min64_sint[of a] minus1_sint[of b] m by blast
  qed
  then show ?thesis using a q by (auto simp: i64_range_def)
qed

lemma fast_mul_exact:
  "fast_mul a b = (if i64_range (sint a * sint b) then Some (word_of_int (sint a * sint b)) else None)"
proof (cases "a = 0 \<or> b = 0")
  case True
  then show ?thesis by (auto simp: fast_mul_def i64_range_def)
next
  case False
  let ?A = "sint a" and ?B = "sint b" and ?c = "a * b"
  have nz: "?A \<noteq> 0" "?B \<noteq> 0" using False by (simp_all add: signed_eq_0_iff)
  have c: "?c = word_of_int (?A * ?B)" by (rule word_ops_int(3))
  have "(?c <s 0) = ((a <s 0) \<noteq> (b <s 0)) \<and> go_quot ?c b = a \<longleftrightarrow> i64_range (?A * ?B)"
  proof
    assume r: "i64_range (?A * ?B)"
    then have C: "sint ?c = ?A * ?B" unfolding c by (rule sint_of_range)
    have "go_quot ?c b = a" using sdiv_exact[OF nz(2), of ?A] by (simp add: go_quot_def C)
    moreover have "(?c <s 0) = ((a <s 0) \<noteq> (b <s 0))"
      unfolding word_sless_alt C using nz by (auto simp: mult_less_0_iff)
    ultimately show "(?c <s 0) = ((a <s 0) \<noteq> (b <s 0)) \<and> go_quot ?c b = a" by blast
  next
    assume p: "(?c <s 0) = ((a <s 0) \<noteq> (b <s 0)) \<and> go_quot ?c b = a"
    have "\<not> (?c = min64 \<and> b = -1)"
    proof
      assume m: "?c = min64 \<and> b = -1"
      then have "sint ?c = - (2 ^ 63)" "?B = -1" using min64_sint[of ?c] minus1_sint[of b] by blast+
      moreover from this have "go_quot ?c b = word_of_int (2 ^ 63)" by (simp add: go_quot_def)
      then have "?A = - (2 ^ 63)" using p int_word_sint[of "2 ^ 63", where 'a = 64] by simp
      ultimately show False using p by (simp add: word_sless_alt)
    qed
    then have "?A = sint ?c sdiv ?B"
      using p sint_of_range[OF quot_range, of ?c b] by (simp add: go_quot_def)
    then have e: "sint ?c = ?A * ?B + sint ?c smod ?B" using sdiv_mult_smod_eq[of "sint ?c" ?B] by simp
    have "\<bar>sint ?c smod ?B\<bar> < \<bar>?B\<bar>" using smod_int_range[OF nz(2), of "sint ?c"] by auto
    also have "\<bar>?B\<bar> \<le> 2 ^ 63" using sint_range[of b] by (auto simp: i64_range_def)
    finally have s: "\<bar>sint ?c - ?A * ?B\<bar> < 2 ^ 63" using e by linarith
    have "sint ?c = (?A * ?B + 2 ^ 63) mod 2 ^ 64 - 2 ^ 63"
      unfolding c by (simp only: int_word_sint) simp
    then have "sint ?c - ?A * ?B = - ((?A * ?B + 2 ^ 63) div 2 ^ 64 * 2 ^ 64)"
      using div_mult_mod_eq[of "?A * ?B + 2 ^ 63" "2 ^ 64"] by linarith
    then have "2 ^ 64 dvd sint ?c - ?A * ?B" by (simp only: dvd_minus_iff dvd_triv_right)
    then have "sint ?c = ?A * ?B" using s dvd_imp_le_int[of "sint ?c - ?A * ?B" "2 ^ 64"] by fastforce
    then show "i64_range (?A * ?B)" using sint_range[of ?c] by simp
  qed
  then show ?thesis using False by (simp add: fast_mul_def Let_def)
qed

lemma fast_div_exact:
  "fast_div a b =
     (if sint b \<noteq> 0 \<and> sint b dvd sint a \<and> i64_range (sint a div sint b)
      then Some (word_of_int (sint a div sint b)) else None)"
proof -
  have z: "b = 0 \<longleftrightarrow> sint b = 0" by (simp add: signed_eq_0_iff)
  have m: "go_rem a b = 0 \<longleftrightarrow> sint b dvd sint a" if "sint b \<noteq> 0"
  proof -
    have "i64_range (sint a smod sint b)"
      using smod_int_range[OF that, of "sint a"] sint_range[of b] by (auto simp: i64_range_def)
    from sint_of_range[OF this] have "go_rem a b = 0 \<longleftrightarrow> sint a smod sint b = 0"
      by (metis go_rem_def signed_0 word_of_int_0)
    also have "\<dots> \<longleftrightarrow> sint b dvd sint a"
      by (auto simp: signed_modulo_int_def sgn_eq_0_iff dvd_eq_mod_eq_0[of "\<bar>sint b\<bar>", symmetric])
    finally show ?thesis .
  qed
  have q: "sint a sdiv sint b = sint a div sint b" if "sint b dvd sint a"
    using that by (simp add: signed_divide_int_eq_divide_int)
  have o: "\<not> i64_range (sint a div sint b)" if "a = min64" "b = -1"
    using that min64_sint[of a] minus1_sint[of b] by (simp add: i64_range_def)
  show ?thesis
    using m q o quot_range[of a b] by (auto simp: fast_div_def go_quot_def z)
qed

lemma fast_shift_exact:
  "fast_shl a b = (if 0 \<le> sint b then Some (word_of_int (sint a * 2 ^ nat (sint b))) else None)"
  "fast_shr a b = (if 0 \<le> sint b then Some (word_of_int (sint a div 2 ^ nat (sint b))) else None)"
proof -
  have n: "unat b = nat (sint b)" if "0 \<le> sint b" 
  proof -
    have "sint b < 2 ^ 64" using sint_range[of b] by (simp add: i64_range_def)
    then have "uint b = sint b" using that by (simp add: uint_sint take_bit_int_eq_self)
    then show ?thesis by (simp add: unat_eq_nat_uint)
  qed
  have l: "(word_of_int (sint a * 2 ^ nat (sint b)) :: i64) = 0" if "64 \<le> sint b"
  proof -
    have "nat (sint b) = 64 + (nat (sint b) - 64)" using that by simp
    then have "(2 :: i64) ^ nat (sint b) = 2 ^ 64 * 2 ^ (nat (sint b) - 64)" by (metis power_add)
    moreover have "(2 :: i64) ^ 64 = 0" by simp
    ultimately have "(2 :: i64) ^ nat (sint b) = 0" by (metis mult_zero_left)
    then show ?thesis by (simp only: of_int_mult of_int_power of_int_numeral of_int_sint mult_zero_right)
  qed
  have r: "sint a div 2 ^ nat (sint b) = (if sint a < 0 then -1 else 0)" if "64 \<le> sint b"
  proof -
    have "(2 :: int) ^ 63 \<le> 2 ^ nat (sint b)" using that by (intro power_increasing) auto
    then have "- (2 ^ nat (sint b)) \<le> sint a" "sint a < 2 ^ nat (sint b)"
      using sint_range[of a] unfolding i64_range_def by linarith+
    then show ?thesis
      using int_div_pos_eq[of "sint a" "2 ^ nat (sint b)" "-1" "sint a + 2 ^ nat (sint b)"] by auto
  qed
  show "fast_shl a b = (if 0 \<le> sint b then Some (word_of_int (sint a * 2 ^ nat (sint b))) else None)"
    using n l by (simp add: fast_shl_def word_sle_eq push_bit_eq_mult)
  have "signed_drop_bit k a = word_of_int (sint a div 2 ^ k)" for k
  proof -
    have "sint (signed_drop_bit k a) = sint a div 2 ^ k"
      by (simp only: sint_signed_drop_bit_eq drop_bit_eq_div)
    then have "word_of_int (sint (signed_drop_bit k a)) = (word_of_int (sint a div 2 ^ k) :: i64)" by (rule arg_cong)
    then show ?thesis by simp
  qed
  then show "fast_shr a b = (if 0 \<le> sint b then Some (word_of_int (sint a div 2 ^ nat (sint b))) else None)"
    using n r by (simp add: fast_shr_def word_sle_eq word_sless_alt)
qed

section \<open>Properties\<close>

text \<open>C22. The fast path of \<open>+\<close>, \<open>-\<close> and \<open>*\<close> is taken exactly when the integer result fits in 64 bits,
  and gives it; the one of \<open>/\<close> exactly when the division has no remainder and its result fits; \<open>%\<close> gives
  the truncated remainder unless the divisor is 0 (or the division overflows); the shifts by a
  non-negative amount multiply and floor-divide by the power of two, whatever the amount.\<close>

theorem int_fast_paths_exact:
  "fast_add a b = (if i64_range (sint a + sint b) then Some (word_of_int (sint a + sint b)) else None)
   \<and> fast_sub a b = (if i64_range (sint a - sint b) then Some (word_of_int (sint a - sint b)) else None)
   \<and> fast_mul a b = (if i64_range (sint a * sint b) then Some (word_of_int (sint a * sint b)) else None)
   \<and> fast_div a b = (if sint b \<noteq> 0 \<and> sint b dvd sint a \<and> i64_range (sint a div sint b)
        then Some (word_of_int (sint a div sint b)) else None)
   \<and> fast_mod a b = (if sint b \<noteq> 0 \<and> i64_range (sint a sdiv sint b)
        then Some (word_of_int (sint a smod sint b)) else None)
   \<and> fast_shl a b = (if 0 \<le> sint b then Some (word_of_int (sint a * 2 ^ nat (sint b))) else None)
   \<and> fast_shr a b = (if 0 \<le> sint b then Some (word_of_int (sint a div 2 ^ nat (sint b))) else None)"
proof -
  have "sint b = 0 \<longleftrightarrow> b = 0" by (simp add: signed_eq_0_iff)
  moreover have "a = min64 \<and> b = -1 \<longleftrightarrow> \<not> i64_range (sint a sdiv sint b)"
    using quot_range[of a b] min64_sint[of a] minus1_sint[of b] by (auto simp: i64_range_def)
  ultimately have "fast_mod a b = (if sint b \<noteq> 0 \<and> i64_range (sint a sdiv sint b)
        then Some (word_of_int (sint a smod sint b)) else None)"
    by (simp add: fast_mod_def go_rem_def)
  then show ?thesis
    by (intro conjI fast_add_exact fast_sub_exact fast_mul_exact fast_div_exact fast_shift_exact)
qed

end
