(* ===== verification/VmMachine.thy ===== *)
theory VmMachine
  imports VmArith TokItem PhpHeap
begin

text \<open>
  The bytecode machine, \<^verbatim>\<open>src/core/vm\<close>: functions, frames, the dispatch loop (\<open>vm.go\<close>), exceptions
  and \<open>finally\<close> (\<open>ops_try.go\<close>), for the opcodes of \<open>VmInst\<close>.

  A slot is a value of a type \<open>'v\<close> (a pointer to a ZVal), the rest of the engine is a world of type
  \<open>'w\<close>. What the loop calls outside the machine (operators, conversions, warnings, the variables of
  the function context, iterators, calls, the class check of a catch) is a field of \<open>host\<close>. The
  value stack is a list with the top first; its bound \<open>MaxStack\<close> is checked where a push would run
  over the slice. Every Go panic of the loop (index out of range, underflow) is \<open>Crash\<close>.
\<close>

section \<open>Errors and the host\<close>

text \<open>Errors: a PHP exception with its object, the control-flow errors of the tree walker, or any
  other error.\<close>

datatype 'v verr = PhpThrow 'v | PhpReturn 'v | PhpBreak nat | PhpContinue nat | OtherErr bytes

record ('v, 'w) host =
  h_int :: "'w \<Rightarrow> 'v \<Rightarrow> i64 option"
  h_str :: "'w \<Rightarrow> 'v \<Rightarrow> bytes option"
  h_zbool :: "'w \<Rightarrow> 'v \<Rightarrow> bool option"
  h_AsBool :: "'v \<Rightarrow> 'w \<Rightarrow> bool \<times> 'w"
  h_IsNull :: "'w \<Rightarrow> 'v \<Rightarrow> bool"
  h_IsRef :: "'w \<Rightarrow> 'v \<Rightarrow> bool"
  h_IsCached :: "'w \<Rightarrow> 'v \<Rightarrow> bool"
  h_IsArray :: "'w \<Rightarrow> 'v \<Rightarrow> bool"
  h_IsObject :: "'w \<Rightarrow> 'v \<Rightarrow> bool"
  h_cached :: "val \<Rightarrow> 'v"
  h_mk :: "val \<Rightarrow> 'w \<Rightarrow> 'v \<times> 'w"
  h_NewZVal :: "'v \<Rightarrow> 'w \<Rightarrow> 'v \<times> 'w"
  h_Dup :: "'v \<Rightarrow> 'w \<Rightarrow> 'v \<times> 'w"
  h_NudeDup :: "'v \<Rightarrow> 'w \<Rightarrow> 'v \<times> 'w"
  h_ZVal :: "'v \<Rightarrow> 'w \<Rightarrow> 'v \<times> 'w"
  h_binop :: "8 word \<Rightarrow> 'v \<Rightarrow> 'v \<Rightarrow> 'w \<Rightarrow> ('v verr + 'v) \<times> 'w"
  h_unop :: "8 word \<Rightarrow> 'v \<Rightarrow> 'w \<Rightarrow> ('v verr + 'v) \<times> 'w"
  h_DoInc :: "'v \<Rightarrow> bool \<Rightarrow> 'w \<Rightarrow> 'v verr option \<times> 'w"
  h_WarnUndef :: "bytes \<Rightarrow> 'w \<Rightarrow> 'v verr option \<times> 'w"
  h_This :: "'w \<Rightarrow> 'v option"
  h_NoThis :: "'w \<Rightarrow> 'v verr \<times> 'w"
  h_OffsetSet :: "bytes \<Rightarrow> 'v option \<Rightarrow> 'w \<Rightarrow> 'v verr option \<times> 'w"
  h_OffsetCheck :: "bytes \<Rightarrow> 'w \<Rightarrow> 'v option \<times> 'w"
  h_Call :: "bytes \<Rightarrow> 'v list \<Rightarrow> 'w \<Rightarrow> ('v verr + 'v) \<times> 'w"
  h_RunAST :: "nat \<Rightarrow> 'w \<Rightarrow> 'v verr option \<times> 'w"
  h_ThrowObject :: "'v \<Rightarrow> 'w \<Rightarrow> 'v verr \<times> 'w"
  h_InstanceOf :: "bytes \<Rightarrow> 'v \<Rightarrow> 'w \<Rightarrow> bool \<times> 'w"
  h_DecRef :: "'v \<Rightarrow> 'w \<Rightarrow> 'v verr option \<times> 'w"
  h_ChainPrevious :: "'v \<Rightarrow> 'v \<Rightarrow> 'w \<Rightarrow> 'w"
  h_Tick :: "nat \<Rightarrow> 'w \<Rightarrow> 'v verr option \<times> 'w"
  h_DrainTemps :: "'w \<Rightarrow> 'w"
  h_Write :: "bytes \<Rightarrow> 'w \<Rightarrow> 'v verr option \<times> 'w"
  h_foreachInit :: "'v \<Rightarrow> 'w \<Rightarrow> ('v verr + nat option) \<times> 'w"
  h_foreachWarn :: "'v \<Rightarrow> nat \<Rightarrow> 'w \<Rightarrow> 'w"
  h_Valid :: "nat \<Rightarrow> 'w \<Rightarrow> bool \<times> 'w"
  h_Current :: "nat \<Rightarrow> 'w \<Rightarrow> ('v verr + 'v option) \<times> 'w"
  h_Key :: "nat \<Rightarrow> 'w \<Rightarrow> ('v verr + 'v option) \<times> 'w"
  h_Next :: "nat \<Rightarrow> 'w \<Rightarrow> 'v verr option \<times> 'w"
  h_Cleanup :: "nat \<Rightarrow> 'w \<Rightarrow> 'w"

section \<open>Functions\<close>

text \<open>A source location is the pointer to it. Offsets into the code are \<open>int\<close>: the code is far
  shorter than \<open>2^32\<close>.\<close>

record catch_clause =
  cc_Types :: "bytes list"
  cc_VarIdx :: "16 word"
  cc_PC :: int
  cc_Loc :: "nat option"

record try_handler =
  th_Start :: int
  th_End :: int
  th_AfterCatch :: int
  th_StackBase :: nat
  th_Catches :: "catch_clause list"
  th_HasFinally :: bool
  th_FinallyPC :: int
  th_FinallyEnd :: int

record func =
  fn_Code :: "instruction list"
  fn_Consts :: "val list"
  fn_Locals :: "bytes list"
  fn_LocsSparse :: "(int \<times> nat) list"
  fn_TryHandlers :: "try_handler list"
  fn_MaxStack :: nat
  fn_Source :: nat
  fn_SlotOnly :: bool

text \<open>\<open>LocAt\<close>: the binary search of \<open>sort.Search\<close> for the first entry above \<open>pc\<close>.\<close>

function sort_search :: "(nat \<Rightarrow> bool) \<Rightarrow> nat \<Rightarrow> nat \<Rightarrow> nat" where
  "sort_search p i j =
     (if i < j then
        (let m = (i + j) div 2 in if \<not> p m then sort_search p (m + 1) j else sort_search p i m)
      else i)"
  by auto
termination by (relation "measure (\<lambda>(p, i, j). j - i)") (auto simp: Let_def)

declare sort_search.simps [simp del]

definition LocAt :: "func \<Rightarrow> int \<Rightarrow> nat" where
  "LocAt f pc =
     (if fn_LocsSparse f = [] then fn_Source f
      else (let idx = sort_search (\<lambda>i. fst (fn_LocsSparse f ! i) > pc) 0 (length (fn_LocsSparse f)) in
            if idx = 0 then fn_Source f else snd (fn_LocsSparse f ! (idx - 1))))"

section \<open>Frames\<close>

datatype 'v pending = pendingNone | pendingReturn 'v | pendingThrow 'v

record 'v frame =
  fr_pc :: int
  fr_stack :: "'v list"
  fr_iters :: "nat list"
  fr_locals :: "'v option list"
  fr_handlerPending :: "'v pending list"

definition acquireFrame :: "func \<Rightarrow> 'v frame" where
  "acquireFrame fn =
     \<lparr>fr_pc = 0, fr_stack = [], fr_iters = [], fr_locals = replicate (length (fn_Locals fn)) None,
      fr_handlerPending = replicate (length (fn_TryHandlers fn)) pendingNone\<rparr>"

text \<open>The first handler, in the order they were appended, with a finally that protects \<open>pc\<close>.\<close>

fun find_finally :: "try_handler list \<Rightarrow> nat \<Rightarrow> int \<Rightarrow> (nat \<times> try_handler) option" where
  "find_finally [] i pc = None"
| "find_finally (h # hs) i pc =
     (if th_HasFinally h \<and> pc \<ge> th_Start h \<and> pc < th_FinallyPC h then Some (i, h)
      else find_finally hs (Suc i) pc)"

definition findEnclosingFinally :: "func \<Rightarrow> int \<Rightarrow> (nat \<times> try_handler) option" where
  "findEnclosingFinally fn pc = find_finally (fn_TryHandlers fn) 0 pc"

definition resetStackTo :: "nat \<Rightarrow> 'v frame \<Rightarrow> 'v frame" where
  "resetStackTo n f = f\<lparr>fr_stack := drop (length (fr_stack f) - n) (fr_stack f)\<rparr>"

end
