(* ===== verification/VmStep.thy ===== *)
theory VmStep
  imports VmMachine
begin

text \<open>The dispatch loop: one instruction (\<open>vm_step\<close>), the handlers of an exception
  (\<open>dispatchTryHandler\<close>) and the run of a function (\<open>vm_exec\<close>).\<close>

section \<open>Access to the frame\<close>

datatype 'v outcome = Running | Finished 'v | Raised "'v verr" | Crash

type_synonym ('v, 'w) stepped = "'v outcome \<times> 'v frame \<times> 'w"

definition push :: "func \<Rightarrow> 'v \<Rightarrow> 'v frame \<Rightarrow> 'w \<Rightarrow> ('v, 'w) stepped" where
  "push fn v f w =
     (if length (fr_stack f) < fn_MaxStack fn
      then (Running, f\<lparr>fr_stack := v # fr_stack f\<rparr>, w) else (Crash, f, w))"

definition pop :: "'v frame \<Rightarrow> 'w \<Rightarrow> ('v \<Rightarrow> 'v frame \<Rightarrow> ('v, 'w) stepped) \<Rightarrow> ('v, 'w) stepped" where
  "pop f w k = (case fr_stack f of [] \<Rightarrow> (Crash, f, w) | v # st \<Rightarrow> k v (f\<lparr>fr_stack := st\<rparr>))"

definition peek :: "'v frame \<Rightarrow> 'w \<Rightarrow> ('v \<Rightarrow> ('v, 'w) stepped) \<Rightarrow> ('v, 'w) stepped" where
  "peek f w k = (case fr_stack f of [] \<Rightarrow> (Crash, f, w) | v # st \<Rightarrow> k v)"

definition set_top :: "'v \<Rightarrow> 'v frame \<Rightarrow> 'v frame" where
  "set_top v f = f\<lparr>fr_stack := v # tl (fr_stack f)\<rparr>"

definition raise :: "'v verr \<Rightarrow> 'v frame \<Rightarrow> 'w \<Rightarrow> ('v, 'w) stepped" where
  "raise e f w = (Raised e, f, w)"

definition unless :: "'v verr option \<times> 'w \<Rightarrow> 'v frame \<Rightarrow> ('w \<Rightarrow> ('v, 'w) stepped) \<Rightarrow> ('v, 'w) stepped" where
  "unless r f k = (case r of (Some e, w) \<Rightarrow> raise e f w | (None, w) \<Rightarrow> k w)"

definition value_or :: "('v verr + 'a) \<times> 'w \<Rightarrow> 'v frame \<Rightarrow> ('a \<Rightarrow> 'w \<Rightarrow> ('v, 'w) stepped) \<Rightarrow> ('v, 'w) stepped" where
  "value_or r f k = (case r of (Inl e, w) \<Rightarrow> raise e f w | (Inr v, w) \<Rightarrow> k v w)"

definition local_at :: "nat \<Rightarrow> 'v frame \<Rightarrow> 'w \<Rightarrow> ('v option \<Rightarrow> ('v, 'w) stepped) \<Rightarrow> ('v, 'w) stepped" where
  "local_at i f w k = (if i < length (fr_locals f) then k (fr_locals f ! i) else (Crash, f, w))"

definition set_local :: "nat \<Rightarrow> 'v option \<Rightarrow> 'v frame \<Rightarrow> 'v frame" where
  "set_local i v f = f\<lparr>fr_locals := (fr_locals f)[i := v]\<rparr>"

definition goto :: "int \<Rightarrow> 'v frame \<Rightarrow> 'v frame" where
  "goto pc f = f\<lparr>fr_pc := pc\<rparr>"

text \<open>The mirror of a local in the function context, which slot-only functions skip.\<close>

definition mirror :: "('v, 'w) host \<Rightarrow> func \<Rightarrow> nat \<Rightarrow> 'v option \<Rightarrow> 'w \<Rightarrow> 'v verr option \<times> 'w" where
  "mirror h fn i v w = (if fn_SlotOnly fn then (None, w) else h_OffsetSet h (fn_Locals fn ! i) v w)"

text \<open>\<open>storeLocal\<close>: the copy that goes into the slot, then the mirror.\<close>

definition stored_copy :: "('v, 'w) host \<Rightarrow> 'v \<Rightarrow> 'w \<Rightarrow> 'v \<times> 'w" where
  "stored_copy h v w =
     (case (if h_IsCached h w v then h_NewZVal h v w else (v, w)) of
        (v, w) \<Rightarrow>
          if h_IsArray h w v then (if h_IsRef h w v then h_NudeDup h v w else h_Dup h v w)
          else if \<not> h_IsRef h w v then h_ZVal h v w
          else (v, w))"

definition storeLocal ::
  "('v, 'w) host \<Rightarrow> func \<Rightarrow> nat \<Rightarrow> 'v option \<Rightarrow> 'v frame \<Rightarrow> 'w
     \<Rightarrow> ('v frame \<Rightarrow> 'w \<Rightarrow> ('v, 'w) stepped) \<Rightarrow> ('v, 'w) stepped" where
  "storeLocal h fn i v f w k =
     local_at i f w (\<lambda>_.
       case v of
         None \<Rightarrow> (let f = set_local i None f in unless (mirror h fn i None w) f (k f))
       | Some v \<Rightarrow>
          (case stored_copy h v w of
             (v, w) \<Rightarrow> (let f = set_local i (Some v) f in unless (mirror h fn i (Some v) w) f (k f))))"

text \<open>\<open>refreshSlots\<close>.\<close>

fun refresh :: "('v, 'w) host \<Rightarrow> bytes list \<Rightarrow> 'w \<Rightarrow> 'v option list \<times> 'w" where
  "refresh h [] w = ([], w)"
| "refresh h (n # ns) w =
     (case h_OffsetCheck h n w of (v, w) \<Rightarrow> case refresh h ns w of (vs, w) \<Rightarrow> (v # vs, w))"

definition refreshSlots :: "('v, 'w) host \<Rightarrow> func \<Rightarrow> 'v frame \<Rightarrow> 'w \<Rightarrow> ('v, 'w) stepped" where
  "refreshSlots h fn f w =
     (case refresh h (fn_Locals fn) w of (vs, w) \<Rightarrow> (Running, f\<lparr>fr_locals := vs\<rparr>, w))"

section \<open>Groups of instructions\<close>

datatype fast = FInt i64 | FBool bool

text \<open>The cases with an integer fast path.\<close>

definition int_case :: "8 word \<Rightarrow> i64 \<Rightarrow> i64 \<Rightarrow> fast option" where
  "int_case opc a b =
     (if opc = OpAdd then map_option FInt (fast_add a b)
      else if opc = OpSub then map_option FInt (fast_sub a b)
      else if opc = OpMul then map_option FInt (fast_mul a b)
      else if opc = OpDiv then map_option FInt (fast_div a b)
      else if opc = OpMod then map_option FInt (fast_mod a b)
      else if opc = OpBitAnd then Some (FInt (a AND b))
      else if opc = OpBitOr then Some (FInt (a OR b))
      else if opc = OpBitXor then Some (FInt (a XOR b))
      else if opc = OpShl then map_option FInt (fast_shl a b)
      else if opc = OpShr then map_option FInt (fast_shr a b)
      else if opc = OpCmpEq \<or> opc = OpCmpId then Some (FBool (a = b))
      else if opc = OpCmpNe \<or> opc = OpCmpNid then Some (FBool (a \<noteq> b))
      else if opc = OpCmpLt then Some (FBool (a <s b))
      else if opc = OpCmpLe then Some (FBool (a \<le>s b))
      else if opc = OpCmpGt then Some (FBool (b <s a))
      else if opc = OpCmpGe then Some (FBool (b \<le>s a))
      else None)"

fun fast_val :: "fast \<Rightarrow> val" where
  "fast_val (FInt i) = VInt (sint i)"
| "fast_val (FBool b) = VBool b"

definition fast_case :: "('v, 'w) host \<Rightarrow> 8 word \<Rightarrow> 'v \<Rightarrow> 'v \<Rightarrow> 'w \<Rightarrow> val option" where
  "fast_case h opc a b w =
     (if opc = OpConcat then
        (case (h_str h w a, h_str h w b) of (Some s, Some t) \<Rightarrow> Some (VString (s @ t)) | _ \<Rightarrow> None)
      else
        (case (h_int h w a, h_int h w b) of
           (Some i, Some j) \<Rightarrow> map_option fast_val (int_case opc i j) | _ \<Rightarrow> None))"

definition step_binary :: "('v, 'w) host \<Rightarrow> 8 word \<Rightarrow> 'v frame \<Rightarrow> 'w \<Rightarrow> ('v, 'w) stepped" where
  "step_binary h opc f w =
     (case fr_stack f of
        b # a # st \<Rightarrow>
          (case fast_case h opc a b w of
             Some v \<Rightarrow> (case h_mk h v w of (v, w) \<Rightarrow> (Running, f\<lparr>fr_stack := v # st\<rparr>, w))
           | None \<Rightarrow>
               value_or (h_binop h opc a b w) (f\<lparr>fr_stack := st\<rparr>)
                 (\<lambda>v w. (Running, f\<lparr>fr_stack := v # st\<rparr>, w)))
      | _ \<Rightarrow> (Crash, f, w))"

definition step_unary :: "('v, 'w) host \<Rightarrow> 8 word \<Rightarrow> 'v frame \<Rightarrow> 'w \<Rightarrow> ('v, 'w) stepped" where
  "step_unary h opc f w =
     pop f w (\<lambda>a f. value_or (h_unop h opc a w) f (\<lambda>v w. (Running, f\<lparr>fr_stack := v # fr_stack f\<rparr>, w)))"

definition step_load_local :: "('v, 'w) host \<Rightarrow> func \<Rightarrow> bool \<Rightarrow> nat \<Rightarrow> 'v frame \<Rightarrow> 'w \<Rightarrow> ('v, 'w) stepped" where
  "step_load_local h fn warn i f w =
     local_at i f w (\<lambda>v.
       case v of
         Some v \<Rightarrow> push fn v f w
       | None \<Rightarrow>
           if fn_Locals fn ! i = ''this'' then
             (case h_This h w of
                None \<Rightarrow> (case h_NoThis h w of (e, w) \<Rightarrow> raise e f w)
              | Some v \<Rightarrow> push fn v f w)
           else
             unless (if warn then h_WarnUndef h (fn_Locals fn ! i) w else (None, w)) f
               (\<lambda>w. case h_mk h VNull w of (v, w) \<Rightarrow> push fn v f w))"

definition step_store_keep :: "('v, 'w) host \<Rightarrow> func \<Rightarrow> nat \<Rightarrow> 'v frame \<Rightarrow> 'w \<Rightarrow> ('v, 'w) stepped" where
  "step_store_keep h fn i f w =
     peek f w (\<lambda>v.
       case (if h_IsCached h w v then h_NewZVal h v w else (v, w)) of
         (v, w) \<Rightarrow> storeLocal h fn i (Some v) (set_top v f) w (\<lambda>f w. (Running, f, w)))"

text \<open>\<open>incDecLocal\<close>, and the fast path before it.\<close>

definition incDecLocal :: "('v, 'w) host \<Rightarrow> func \<Rightarrow> nat \<Rightarrow> bool \<Rightarrow> bool \<Rightarrow> 'v frame \<Rightarrow> 'w \<Rightarrow> ('v, 'w) stepped" where
  "incDecLocal h fn i inc post f w =
     local_at i f w (\<lambda>cur.
       unless (if cur = None \<and> fn_Locals fn ! i \<noteq> ''this'' then h_WarnUndef h (fn_Locals fn ! i) w else (None, w)) f
       (\<lambda>w.
         case (case cur of Some v \<Rightarrow> (v, w) | None \<Rightarrow> h_mk h VNull w) of (v, w) \<Rightarrow>
         case (if h_IsCached h w v then h_NewZVal h v w else (v, w)) of (v, w) \<Rightarrow>
         case (if post then h_Dup h v w else (v, w)) of (pre, w) \<Rightarrow>
         unless (h_DoInc h v inc w) f (\<lambda>w.
         storeLocal h fn i (Some v) f w (\<lambda>f w. push fn (if post then pre else v) f w))))"

definition int64_max_w :: i64 where "int64_max_w = 0x7FFFFFFFFFFFFFFF"

definition step_inc_dec :: "('v, 'w) host \<Rightarrow> func \<Rightarrow> nat \<Rightarrow> bool \<Rightarrow> bool \<Rightarrow> 'v frame \<Rightarrow> 'w \<Rightarrow> ('v, 'w) stepped" where
  "step_inc_dec h fn i inc post f w =
     local_at i f w (\<lambda>cur.
       case (case cur of Some v \<Rightarrow> if h_IsRef h w v then None else h_int h w v | None \<Rightarrow> None) of
         None \<Rightarrow> incDecLocal h fn i inc post f w
       | Some ci \<Rightarrow>
           if ci = (if inc then int64_max_w else min64) then incDecLocal h fn i inc post f w
           else
             (case h_mk h (VInt (sint (if inc then ci + 1 else ci - 1))) w of
                (v, w) \<Rightarrow>
                  (let f = set_local i (Some v) f in
                   unless (mirror h fn i (Some v) w) f (push fn (if post then the cur else v) f))))"

text \<open>Compound assignment: the operator of the token in B.\<close>

definition compoundOp :: "item_type \<Rightarrow> 8 word option" where
  "compoundOp t =
     (if t = T_PLUS_EQUAL then Some OpAdd else if t = T_MINUS_EQUAL then Some OpSub
      else if t = T_MUL_EQUAL then Some OpMul else if t = T_DIV_EQUAL then Some OpDiv
      else if t = T_POW_EQUAL then Some OpPow else if t = T_MOD_EQUAL then Some OpMod
      else if t = T_AND_EQUAL then Some OpBitAnd else if t = T_OR_EQUAL then Some OpBitOr
      else if t = T_XOR_EQUAL then Some OpBitXor else if t = T_SL_EQUAL then Some OpShl
      else if t = T_SR_EQUAL then Some OpShr else if t = T_CONCAT_EQUAL then Some OpConcat
      else None)"

definition step_op_assign :: "('v, 'w) host \<Rightarrow> func \<Rightarrow> nat \<Rightarrow> item_type \<Rightarrow> 'v frame \<Rightarrow> 'w \<Rightarrow> ('v, 'w) stepped" where
  "step_op_assign h fn i t f w =
     pop f w (\<lambda>rhs f.
     local_at i f w (\<lambda>cur.
       let quick = (case cur of
             None \<Rightarrow> None
           | Some c \<Rightarrow>
               if h_IsRef h w c then None
               else if t = T_PLUS_EQUAL then fast_case h OpAdd c rhs w
               else if t = T_CONCAT_EQUAL then fast_case h OpConcat c rhs w
               else None) in
       case quick of
         Some v \<Rightarrow>
           (case h_mk h v w of
              (v, w) \<Rightarrow> (let f = set_local i (Some v) f in
                         unless (mirror h fn i (Some v) w) f (\<lambda>w. (Running, f, w))))
       | None \<Rightarrow>
           (case compoundOp t of
              None \<Rightarrow> raise (OtherErr ''vm: unknown compound op'') f w
            | Some opc \<Rightarrow>
                (case (case cur of Some c \<Rightarrow> (c, w) | None \<Rightarrow> h_mk h VNull w) of
                   (c, w) \<Rightarrow>
                     (case h_Dup h c w of
                        (c, w) \<Rightarrow>
                          value_or (h_binop h opc c rhs w) f
                            (\<lambda>v w. storeLocal h fn i (Some v) f w (\<lambda>f w. (Running, f, w))))))))"

text \<open>\<open>v.Value().(ZBool)\<close>, or \<open>AsBool\<close> for other types.\<close>

definition truth :: "('v, 'w) host \<Rightarrow> 'v \<Rightarrow> 'w \<Rightarrow> bool \<times> 'w" where
  "truth h v w = (case h_zbool h w v of Some b \<Rightarrow> (b, w) | None \<Rightarrow> h_AsBool h v w)"

definition jump_if :: "bool \<Rightarrow> int \<Rightarrow> 'v frame \<Rightarrow> 'v frame" where
  "jump_if c d f = (if c then goto (fr_pc f + d) f else f)"

text \<open>A return, through the innermost finally that protects it.\<close>

definition route_return :: "func \<Rightarrow> 'v \<Rightarrow> 'v frame \<Rightarrow> 'w \<Rightarrow> ('v, 'w) stepped" where
  "route_return fn v f w =
     (case findEnclosingFinally fn (fr_pc f - 1) of
        Some (i, h) \<Rightarrow>
          (Running, goto (th_FinallyPC h) (resetStackTo (th_StackBase h)
             (f\<lparr>fr_handlerPending := (fr_handlerPending f)[i := pendingReturn v]\<rparr>)), w)
      | None \<Rightarrow> (Finished v, f, w))"

definition step_finally_end :: "func \<Rightarrow> nat \<Rightarrow> 'v frame \<Rightarrow> 'w \<Rightarrow> ('v, 'w) stepped" where
  "step_finally_end fn i f w =
     (if i < length (fr_handlerPending f) then
        (let p = fr_handlerPending f ! i;
             f = f\<lparr>fr_handlerPending := (fr_handlerPending f)[i := pendingNone]\<rparr> in
         case p of
           pendingNone \<Rightarrow> (Running, f, w)
         | pendingReturn v \<Rightarrow> route_return fn v f w
         | pendingThrow e \<Rightarrow> raise (PhpThrow e) f w)
      else (Crash, f, w))"

fun pop_args :: "nat \<Rightarrow> 'v list \<Rightarrow> 'v list \<Rightarrow> ('v list \<times> 'v list) option" where
  "pop_args 0 args st = Some (args, st)"
| "pop_args (Suc n) args [] = None"
| "pop_args (Suc n) args (v # st) = pop_args n (v # args) st"

definition step_call :: "('v, 'w) host \<Rightarrow> func \<Rightarrow> bytes \<Rightarrow> nat \<Rightarrow> 'v frame \<Rightarrow> 'w \<Rightarrow> ('v, 'w) stepped" where
  "step_call h fn name argc f w =
     (case pop_args argc [] (fr_stack f) of
        None \<Rightarrow> (Crash, f, w)
      | Some (args, st) \<Rightarrow>
          value_or (h_Call h name args w) (f\<lparr>fr_stack := st\<rparr>) (\<lambda>v w. push fn v (f\<lparr>fr_stack := st\<rparr>) w))"


section \<open>Loops over containers\<close>

definition with_iter :: "'v frame \<Rightarrow> 'w \<Rightarrow> (nat \<Rightarrow> ('v, 'w) stepped) \<Rightarrow> ('v, 'w) stepped" where
  "with_iter f w k = (case fr_iters f of [] \<Rightarrow> (Crash, f, w) | it # its \<Rightarrow> k it)"

definition step_foreach_init :: "('v, 'w) host \<Rightarrow> func \<Rightarrow> int \<Rightarrow> 'v frame \<Rightarrow> 'w \<Rightarrow> ('v, 'w) stepped" where
  "step_foreach_init h fn d f w =
     pop f w (\<lambda>src f.
       value_or (h_foreachInit h src w) f (\<lambda>it w.
         case it of
           None \<Rightarrow> (Running, goto (fr_pc f + d) f, h_foreachWarn h src (LocAt fn (fr_pc f - 1)) w)
         | Some it \<Rightarrow> (Running, f\<lparr>fr_iters := it # fr_iters f\<rparr>, w)))"

definition step_foreach_step ::
  "('v, 'w) host \<Rightarrow> func \<Rightarrow> nat \<Rightarrow> 16 word \<Rightarrow> int \<Rightarrow> 'v frame \<Rightarrow> 'w \<Rightarrow> ('v, 'w) stepped" where
  "step_foreach_step h fn a b d f w =
     with_iter f w (\<lambda>it.
       case h_Valid h it w of
         (False, w) \<Rightarrow> (Running, goto (fr_pc f + d) f, w)
       | (True, w) \<Rightarrow>
           value_or (h_Current h it w) f (\<lambda>cur w.
           storeLocal h fn a cur f w (\<lambda>f w.
             if b = 0xFFFF then (Running, f, w)
             else value_or (h_Key h it w) f (\<lambda>key w.
                    storeLocal h fn (unat b) key f w (\<lambda>f w. (Running, f, w))))))"

definition step_foreach_advance :: "('v, 'w) host \<Rightarrow> 'v frame \<Rightarrow> 'w \<Rightarrow> ('v, 'w) stepped" where
  "step_foreach_advance h f w =
     with_iter f w (\<lambda>it. unless (h_Next h it w) f (\<lambda>w. (Running, f, w)))"

definition step_foreach_unwind :: "('v, 'w) host \<Rightarrow> 'v frame \<Rightarrow> 'w \<Rightarrow> ('v, 'w) stepped" where
  "step_foreach_unwind h f w =
     with_iter f w (\<lambda>it. (Running, f\<lparr>fr_iters := tl (fr_iters f)\<rparr>, h_Cleanup h it w))"

section \<open>One instruction\<close>

definition const_at :: "func \<Rightarrow> nat \<Rightarrow> 'v frame \<Rightarrow> 'w \<Rightarrow> (val \<Rightarrow> ('v, 'w) stepped) \<Rightarrow> ('v, 'w) stepped" where
  "const_at fn i f w k = (if i < length (fn_Consts fn) then k (fn_Consts fn ! i) else (Crash, f, w))"

definition is_binary :: "8 word \<Rightarrow> bool" where
  "is_binary opc = (opc \<in> set [OpAdd, OpSub, OpMul, OpDiv, OpMod, OpPow, OpBitAnd, OpBitOr, OpBitXor,
     OpShl, OpShr, OpConcat, OpCmpEq, OpCmpNe, OpCmpId, OpCmpNid, OpCmpLt, OpCmpLe, OpCmpGt, OpCmpGe,
     OpCmpSpaceship])"

definition vm_dispatch :: "('v, 'w) host \<Rightarrow> func \<Rightarrow> instruction \<Rightarrow> 'v frame \<Rightarrow> 'w \<Rightarrow> ('v, 'w) stepped" where
  "vm_dispatch h fn ins f w =
     (let opc = in_Op ins; a = unat (in_A ins); d = sint (in_C ins) in
      if opc = OpNop then (Running, f, w)
      else if opc = OpLoadConst then const_at fn a f w (\<lambda>v. push fn (h_cached h v) f w)
      else if opc = OpLoadNull then (case h_mk h VNull w of (v, w) \<Rightarrow> push fn v f w)
      else if opc = OpLoadTrue then (case h_mk h (VBool True) w of (v, w) \<Rightarrow> push fn v f w)
      else if opc = OpLoadFalse then (case h_mk h (VBool False) w of (v, w) \<Rightarrow> push fn v f w)
      else if opc = OpLoadLocal then step_load_local h fn False a f w
      else if opc = OpLoadLocalOrWarn then step_load_local h fn True a f w
      else if opc = OpStoreLocal then
        pop f w (\<lambda>v f. storeLocal h fn a (Some v) f w (\<lambda>f w. (Running, f, w)))
      else if opc = OpStoreLocalKeep then step_store_keep h fn a f w
      else if opc = OpDup then peek f w (\<lambda>v. push fn v f w)
      else if opc = OpPop then pop f w (\<lambda>v f. (Running, f, w))
      else if is_binary opc then step_binary h opc f w
      else if opc = OpNeg \<or> opc = OpBitNot \<or> opc = OpNot then step_unary h opc f w
      else if opc = OpBool then
        peek f w (\<lambda>v. case h_AsBool h v w of (b, w) \<Rightarrow>
          case h_mk h (VBool b) w of (v, w) \<Rightarrow> (Running, set_top v f, w))
      else if opc = OpIncLocal then step_inc_dec h fn a True False f w
      else if opc = OpDecLocal then step_inc_dec h fn a False False f w
      else if opc = OpPostIncLocal then step_inc_dec h fn a True True f w
      else if opc = OpPostDecLocal then step_inc_dec h fn a False True f w
      else if opc = OpOpAssignLocal then step_op_assign h fn a (uint (in_B ins)) f w
      else if opc = OpJmp then (Running, goto (fr_pc f + d) f, w)
      else if opc = OpJmpIfFalse then
        pop f w (\<lambda>v f. case truth h v w of (b, w) \<Rightarrow> (Running, jump_if (\<not> b) d f, w))
      else if opc = OpJmpIfTrue then
        pop f w (\<lambda>v f. case truth h v w of (b, w) \<Rightarrow> (Running, jump_if b d f, w))
      else if opc = OpJmpIfFalsePeek then
        peek f w (\<lambda>v. case truth h v w of (b, w) \<Rightarrow> (Running, jump_if (\<not> b) d f, w))
      else if opc = OpJmpIfTruePeek then
        peek f w (\<lambda>v. case h_AsBool h v w of (b, w) \<Rightarrow> (Running, jump_if b d f, w))
      else if opc = OpJmpIfNotNullPeek then
        peek f w (\<lambda>v. (Running, jump_if (\<not> h_IsNull h w v) d f, w))
      else if opc = OpCallUser then
        const_at fn a f w (\<lambda>c. case c of
          VString name \<Rightarrow> step_call h fn name (unat (in_B ins)) f w
        | _ \<Rightarrow> raise (OtherErr ''vm: OP_CALL_USER name const is not ZString'') f w)
      else if opc = OpRet then pop f w (\<lambda>v f. route_return fn v f w)
      else if opc = OpRetNull then (case h_mk h VNull w of (v, w) \<Rightarrow> route_return fn v f w)
      else if opc = OpFinallyEnd then step_finally_end fn a f w
      else if opc = OpThrow then
        pop f w (\<lambda>v f. case h_ThrowObject h v w of (e, w) \<Rightarrow> raise e f w)
      else if opc = OpTryFinally then unless (h_RunAST h a w) f (refreshSlots h fn f)
      else if opc = OpRefreshSlots then refreshSlots h fn f w
      else if opc = OpForeachInit then step_foreach_init h fn d f w
      else if opc = OpForeachStep then step_foreach_step h fn a (in_B ins) d f w
      else if opc = OpForeachAdvance then step_foreach_advance h f w
      else if opc = OpForeachUnwind then step_foreach_unwind h f w
      else if opc = OpTick then
        unless (h_Tick h (LocAt fn (fr_pc f - 1)) w) f (\<lambda>w. (Running, f, h_DrainTemps h w))
      else if opc = OpInlineHtml then
        const_at fn a f w (\<lambda>c. case c of
          VString s \<Rightarrow> unless (h_Write h s w) f (\<lambda>w. (Running, f, w))
        | _ \<Rightarrow> raise (OtherErr ''vm: OP_INLINE_HTML const is not ZString'') f w)
      else raise (OtherErr ''vm: unknown opcode'') f w)"

text \<open>The fetch moves \<open>pc\<close> on before the instruction is carried out.\<close>

definition vm_step :: "('v, 'w) host \<Rightarrow> func \<Rightarrow> 'v frame \<Rightarrow> 'w \<Rightarrow> ('v, 'w) stepped" where
  "vm_step h fn f w =
     (if 0 \<le> fr_pc f \<and> fr_pc f < int (length (fn_Code fn))
      then vm_dispatch h fn (fn_Code fn ! nat (fr_pc f)) (goto (fr_pc f + 1) f) w
      else (Crash, f, w))"

section \<open>Exceptions\<close>

fun match_any :: "('v, 'w) host \<Rightarrow> bytes list \<Rightarrow> 'v \<Rightarrow> 'w \<Rightarrow> bool \<times> 'w" where
  "match_any h [] ex w = (False, w)"
| "match_any h (n # ns) ex w =
     (case h_InstanceOf h n ex w of (ok, w) \<Rightarrow> if ok then (True, w) else match_any h ns ex w)"

definition matchCatchTypes :: "('v, 'w) host \<Rightarrow> bytes list \<Rightarrow> 'v \<Rightarrow> 'w \<Rightarrow> bool \<times> 'w" where
  "matchCatchTypes h types ex w = (if types = [] then (True, w) else match_any h types ex w)"

fun find_clause :: "('v, 'w) host \<Rightarrow> catch_clause list \<Rightarrow> 'v \<Rightarrow> 'w \<Rightarrow> catch_clause option \<times> 'w" where
  "find_clause h [] ex w = (None, w)"
| "find_clause h (c # cs) ex w =
     (case matchCatchTypes h (cc_Types c) ex w of
        (ok, w) \<Rightarrow> if ok then (Some c, w) else find_clause h cs ex w)"

datatype 'v handled = Handled | NotHandled | NewErr "'v verr"

text \<open>Binding the variable of a catch: the object it held before may be destroyed, and a destructor
  that throws takes the place of the exception.\<close>

definition enter_catch ::
  "('v, 'w) host \<Rightarrow> func \<Rightarrow> nat \<Rightarrow> try_handler \<Rightarrow> catch_clause \<Rightarrow> 'v \<Rightarrow> 'v frame \<Rightarrow> 'w
     \<Rightarrow> 'v handled \<times> 'v frame \<times> 'w" where
  "enter_catch h fn i th c ex f w =
     (let f = resetStackTo (th_StackBase th) f in
      if cc_VarIdx c = 0xFFFF then (Handled, goto (cc_PC c) f, w)
      else
        (let x = unat (cc_VarIdx c);
             old = fr_locals f ! x;
             f = set_local x (Some ex) f in
         case h_OffsetSet h (fn_Locals fn ! x) (Some ex) w of
           (Some e, w) \<Rightarrow> (NewErr e, f, w)
         | (None, w) \<Rightarrow>
             (case old of
                Some v \<Rightarrow>
                  if fn_SlotOnly fn \<and> h_IsObject h w v \<and> \<not> h_IsRef h w v then
                    (case (case cc_Loc c of Some l \<Rightarrow> snd (h_Tick h l w) | None \<Rightarrow> w) of
                       w \<Rightarrow>
                         (case h_DecRef h v w of
                            (None, w) \<Rightarrow> (Handled, goto (cc_PC c) f, w)
                          | (Some (PhpThrow e), w) \<Rightarrow>
                              if th_HasFinally th then
                                (Handled, goto (th_FinallyPC th) (f\<lparr>fr_handlerPending :=
                                   (fr_handlerPending f)[i := pendingThrow e]\<rparr>), w)
                              else (NewErr (PhpThrow e), goto (th_AfterCatch th + 1) f, w)
                          | (Some e, w) \<Rightarrow> (NewErr e, goto (th_AfterCatch th + 1) f, w)))
                  else (Handled, goto (cc_PC c) f, w)
              | None \<Rightarrow> (Handled, goto (cc_PC c) f, w))))"

text \<open>The exceptions parked in the finally bodies that the new one leaves become its previous
  exceptions, and are forgotten.\<close>

fun chain_pending :: "('v, 'w) host \<Rightarrow> int \<Rightarrow> 'v \<Rightarrow> try_handler list \<Rightarrow> nat \<Rightarrow> 'v frame \<Rightarrow> 'w \<Rightarrow> 'v frame \<times> 'w" where
  "chain_pending h pc ex [] i f w = (f, w)"
| "chain_pending h pc ex (th # ths) i f w =
     (if \<not> th_HasFinally th \<or> pc < th_FinallyPC th \<or> pc \<ge> th_FinallyEnd th
      then chain_pending h pc ex ths (Suc i) f w
      else
        chain_pending h pc ex ths (Suc i)
          (f\<lparr>fr_handlerPending := (fr_handlerPending f)[i := pendingNone]\<rparr>)
          (case fr_handlerPending f ! i of pendingThrow e \<Rightarrow> h_ChainPrevious h ex e w | _ \<Rightarrow> w))"

fun try_handlers ::
  "('v, 'w) host \<Rightarrow> func \<Rightarrow> int \<Rightarrow> 'v \<Rightarrow> try_handler list \<Rightarrow> nat \<Rightarrow> 'v frame \<Rightarrow> 'w
     \<Rightarrow> 'v handled \<times> 'v frame \<times> 'w" where
  "try_handlers h fn failPC ex [] i f w =
     (case chain_pending h failPC ex (fn_TryHandlers fn) 0 f w of (f, w) \<Rightarrow> (NotHandled, f, w))"
| "try_handlers h fn failPC ex (th # ths) i f w =
     (let protectedEnd = (if th_HasFinally th then th_FinallyPC th else th_End th) in
      if failPC < th_Start th \<or> failPC \<ge> protectedEnd then try_handlers h fn failPC ex ths (Suc i) f w
      else
        (case (if failPC < th_End th then find_clause h (th_Catches th) ex w else (None, w)) of
           (Some c, w) \<Rightarrow> enter_catch h fn i th c ex f w
         | (None, w) \<Rightarrow>
             if th_HasFinally th then
               (Handled, goto (th_FinallyPC th) ((resetStackTo (th_StackBase th) f)
                  \<lparr>fr_handlerPending := (fr_handlerPending f)[i := pendingThrow ex]\<rparr>), w)
             else try_handlers h fn failPC ex ths (Suc i) f w))"

definition dispatchTryHandler :: "('v, 'w) host \<Rightarrow> func \<Rightarrow> 'v \<Rightarrow> 'v frame \<Rightarrow> 'w \<Rightarrow> 'v handled \<times> 'v frame \<times> 'w" where
  "dispatchTryHandler h fn ex f w =
     (if fn_TryHandlers fn = [] then (NotHandled, f, w)
      else try_handlers h fn (fr_pc f - 1) ex (fn_TryHandlers fn) 0 f w)"

section \<open>The run of a function\<close>

text \<open>\<open>exec\<close> with \<open>runUntilError\<close>: instructions until an error, then the handlers, until a return.
  The first argument is the error in flight. The result is the outcome of the run; an error that is
  not one of control flow comes with the location the deferred function gives it.\<close>

partial_function (option) vm_exec ::
  "('v, 'w) host \<Rightarrow> func \<Rightarrow> 'v verr option \<Rightarrow> 'v frame \<Rightarrow> 'w \<Rightarrow> ('v, 'w) stepped option" where
  "vm_exec h fn err f w =
     (case err of
        None \<Rightarrow>
          (case vm_step h fn f w of
             (Running, f, w) \<Rightarrow> vm_exec h fn None f w
           | (Raised e, f, w) \<Rightarrow> vm_exec h fn (Some e) f w
           | (Finished v, f, w) \<Rightarrow> Some (Finished v, f, w)
           | (Crash, f, w) \<Rightarrow> Some (Crash, f, w))
      | Some (PhpThrow ex) \<Rightarrow>
          (case dispatchTryHandler h fn ex f w of
             (Handled, f, w) \<Rightarrow> vm_exec h fn None f w
           | (NewErr e, f, w) \<Rightarrow> vm_exec h fn (Some e) f w
           | (NotHandled, f, w) \<Rightarrow> Some (Raised (PhpThrow ex), f, w))
      | Some e \<Rightarrow> Some (Raised e, f, w))"

text \<open>\<open>Run\<close>: a fresh frame whose locals are what the function context has under their names.\<close>

definition vm_Run :: "('v, 'w) host \<Rightarrow> func \<Rightarrow> 'w \<Rightarrow> ('v outcome \<times> nat option \<times> 'w) option" where
  "vm_Run h fn w =
     (case refresh h (fn_Locals fn) w of
        (vs, w) \<Rightarrow>
          map_option (\<lambda>(r, f, w).
             (r, (case r of Raised (OtherErr _) \<Rightarrow> Some (LocAt fn (max 0 (fr_pc f - 1))) | _ \<Rightarrow> None), w))
            (vm_exec h fn None ((acquireFrame fn)\<lparr>fr_locals := vs\<rparr>) w))"

end
