(* ===== verification/VmEmit.thy ===== *)
theory VmEmit
  imports VmStep
begin

text \<open>
  The bytecode emitter, \<^verbatim>\<open>src/core/vm/vmcompiler\<close>: the state of \<open>emit.go\<close>, expressions of
  \<open>emit_expr.go\<close>, statements of \<open>emit_stmt.go\<close> and \<open>emit_try.go\<close>, and \<open>Compile\<close>.

  A node of the syntax tree is a \<open>node\<close> with the accessors the emitter reads as its arguments.
  \<open>Opaque\<close> stands for every node that the model does not know; the emitter gives up on it with
  \<open>Outside\<close>, while \<open>Unsupported\<close> is the source's own \<open>ErrUnsupported\<close>. Operators on targets other
  than simple locals are outside as well. \<open>lo\<close> gives the location \<open>stmtLoc\<close> finds in a node.
\<close>

section \<open>Syntax\<close>

datatype node =
    Literal val
  | Variable bytes
  | ConcatNode "node list"
  | Operator item_type "node option" "node option" bool bool
  | FunctionCall bytes "node list"
  | IfNode node "node option" "node option" bool
  | WhileNode node "node option"
  | DoWhileNode "node option" node
  | ForNode "node list" "node list" "node list" "node option"
  | ForeachNode node "bytes option" bytes "node option"
  | SwitchNode node "(node option \<times> node option) list"
  | ReturnNode "node option"
  | ThrowNode node
  | TryNode "node option" "(bytes list \<times> bytes \<times> nat option \<times> node option) list" "node option"
  | BreakNode int
  | ContinueNode int
  | Runnables "node list"
  | InlineHtml bytes
  | Opaque nat

section \<open>State\<close>

record loop_ctx =
  lc_breakPCs :: "nat list"
  lc_continuePCs :: "nat list"
  lc_isForeach :: bool

text \<open>The maps from constants and names to their indices are association lists, the newest first; the
  innermost loop comes first.\<close>

record emitter =
  em_code :: "instruction list"
  em_consts :: "val list"
  em_constMap :: "(val \<times> 16 word) list"
  em_locals :: "bytes list"
  em_localMap :: "(bytes \<times> 16 word) list"
  em_tryHandlers :: "try_handler list"
  em_locs :: "(int \<times> nat) list"
  em_loops :: "loop_ctx list"
  em_finallyLoopDepths :: "nat list"
  em_stmtCtx :: bool
  em_curStack :: int
  em_maxStack :: int
  em_synthSeq :: int

datatype emitted = EOk emitter | Unsupported | EPanic | Outside

definition e_then :: "emitted \<Rightarrow> (emitter \<Rightarrow> emitted) \<Rightarrow> emitted" where
  "e_then r k = (case r of EOk e \<Rightarrow> k e | Unsupported \<Rightarrow> Unsupported | EPanic \<Rightarrow> EPanic | Outside \<Rightarrow> Outside)"

definition newEmitter :: emitter where
  "newEmitter =
     \<lparr>em_code = [], em_consts = [], em_constMap = [], em_locals = [], em_localMap = [],
      em_tryHandlers = [], em_locs = [], em_loops = [], em_finallyLoopDepths = [], em_stmtCtx = False,
      em_curStack = 0, em_maxStack = 0, em_synthSeq = 0\<rparr>"

definition here :: "emitter \<Rightarrow> nat" where
  "here e = length (em_code e)"

definition emit :: "8 word \<Rightarrow> 16 word \<Rightarrow> 16 word \<Rightarrow> 32 word \<Rightarrow> emitter \<Rightarrow> emitted" where
  "emit opc a b c e =
     (case Encode opc a b c of
        Some i \<Rightarrow> EOk (e\<lparr>em_code := em_code e @ [i]\<rparr>)
      | None \<Rightarrow> EPanic)"

definition patchJump :: "nat \<Rightarrow> nat \<Rightarrow> emitter \<Rightarrow> emitted" where
  "patchJump jumpPC target e =
     (if jumpPC < here e then
        (let c = (of_nat target :: 32 word) - (of_nat jumpPC + 1); i = em_code e ! jumpPC in
         case Encode (in_Op i) (in_A i) (in_B i) c of
           Some i \<Rightarrow> EOk (e\<lparr>em_code := (em_code e)[jumpPC := i]\<rparr>)
         | None \<Rightarrow> EPanic)
      else EPanic)"

fun patch_all :: "nat list \<Rightarrow> nat \<Rightarrow> emitter \<Rightarrow> emitted" where
  "patch_all [] target e = EOk e"
| "patch_all (pc # pcs) target e = e_then (patchJump pc target e) (patch_all pcs target)"

text \<open>The index is cut to 16 bits.\<close>

definition constIndex :: "val \<Rightarrow> emitter \<Rightarrow> 16 word \<times> emitter" where
  "constIndex v e =
     (case map_of (em_constMap e) v of
        Some i \<Rightarrow> (i, e)
      | None \<Rightarrow>
          (let i = of_nat (length (em_consts e)) in
           (i, e\<lparr>em_consts := em_consts e @ [v], em_constMap := (v, i) # em_constMap e\<rparr>)))"

definition localIndex :: "bytes \<Rightarrow> emitter \<Rightarrow> 16 word \<times> emitter" where
  "localIndex n e =
     (case map_of (em_localMap e) n of
        Some i \<Rightarrow> (i, e)
      | None \<Rightarrow>
          (let i = of_nat (length (em_locals e)) in
           (i, e\<lparr>em_locals := em_locals e @ [n], em_localMap := (n, i) # em_localMap e\<rparr>)))"

definition recordLoc :: "nat option \<Rightarrow> emitter \<Rightarrow> emitter" where
  "recordLoc loc e =
     (case loc of
        None \<Rightarrow> e
      | Some l \<Rightarrow>
          if em_locs e \<noteq> [] \<and> snd (last (em_locs e)) = l then e
          else e\<lparr>em_locs := em_locs e @ [(int (here e), l)]\<rparr>)"

definition pushStack :: "nat \<Rightarrow> emitter \<Rightarrow> emitted" where
  "pushStack n e =
     (let c = em_curStack e + int n in EOk (e\<lparr>em_curStack := c, em_maxStack := max c (em_maxStack e)\<rparr>))"

definition popStack :: "nat \<Rightarrow> emitter \<Rightarrow> emitted" where
  "popStack n e =
     (let c = em_curStack e - int n in if c < 0 then EPanic else EOk (e\<lparr>em_curStack := c\<rparr>))"

definition nextSynthID :: "emitter \<Rightarrow> int \<times> emitter" where
  "nextSynthID e = (em_synthSeq e, e\<lparr>em_synthSeq := em_synthSeq e + 1\<rparr>)"

definition pushLoop :: "bool \<Rightarrow> emitter \<Rightarrow> emitter" where
  "pushLoop fe e =
     e\<lparr>em_loops := \<lparr>lc_breakPCs = [], lc_continuePCs = [], lc_isForeach = fe\<rparr> # em_loops e\<rparr>"

definition popLoop :: "emitter \<Rightarrow> emitter" where
  "popLoop e = e\<lparr>em_loops := tl (em_loops e)\<rparr>"

definition curLoop :: "emitter \<Rightarrow> loop_ctx" where
  "curLoop e = hd (em_loops e)"

text \<open>\<open>withSubexpr\<close>.\<close>

definition subexpr :: "(emitter \<Rightarrow> emitted) \<Rightarrow> emitter \<Rightarrow> emitted" where
  "subexpr k e =
     e_then (k (e\<lparr>em_stmtCtx := False\<rparr>)) (\<lambda>e'. EOk (e'\<lparr>em_stmtCtx := em_stmtCtx e\<rparr>))"

section \<open>Operator tables\<close>

definition binaryOpcode :: "item_type \<Rightarrow> 8 word option" where
  "binaryOpcode t =
     map_of
       [(RuneType (byte CHR ''+''), OpAdd), (RuneType (byte CHR ''-''), OpSub),
        (RuneType (byte CHR ''*''), OpMul), (RuneType (byte CHR ''/''), OpDiv),
        (RuneType (byte CHR ''%''), OpMod), (T_POW, OpPow), (RuneType (byte CHR ''&''), OpBitAnd),
        (RuneType (byte CHR ''|''), OpBitOr), (RuneType (byte CHR ''^''), OpBitXor), (T_SL, OpShl),
        (T_SR, OpShr), (RuneType (byte CHR ''.''), OpConcat), (T_IS_EQUAL, OpCmpEq),
        (T_IS_NOT_EQUAL, OpCmpNe), (T_IS_IDENTICAL, OpCmpId), (T_IS_NOT_IDENTICAL, OpCmpNid),
        (RuneType (byte CHR ''<''), OpCmpLt), (T_IS_SMALLER_OR_EQUAL, OpCmpLe),
        (RuneType (byte CHR ''>''), OpCmpGt), (T_IS_GREATER_OR_EQUAL, OpCmpGe),
        (T_SPACESHIP, OpCmpSpaceship)] t"

definition unaryOpcode :: "item_type \<Rightarrow> 8 word option" where
  "unaryOpcode t =
     map_of [(RuneType (byte CHR ''-''), OpNeg), (RuneType (byte CHR ''~''), OpBitNot),
             (RuneType (byte CHR ''!''), OpNot)] t"

section \<open>Sequencing\<close>

fun seq :: "(emitter \<Rightarrow> emitted) list \<Rightarrow> emitter \<Rightarrow> emitted" where
  "seq [] e = EOk e"
| "seq (k # ks) e = e_then (k e) (seq ks)"

definition at_pc :: "(nat \<Rightarrow> emitter \<Rightarrow> emitted) \<Rightarrow> emitter \<Rightarrow> emitted" where
  "at_pc k e = k (here e) e"

definition act :: "(emitter \<Rightarrow> emitter) \<Rightarrow> emitter \<Rightarrow> emitted" where
  "act g e = EOk (g e)"

definition with_const :: "val \<Rightarrow> (16 word \<Rightarrow> emitter \<Rightarrow> emitted) \<Rightarrow> emitter \<Rightarrow> emitted" where
  "with_const v k e = (case constIndex v e of (i, e) \<Rightarrow> k i e)"

definition with_local :: "bytes \<Rightarrow> (16 word \<Rightarrow> emitter \<Rightarrow> emitted) \<Rightarrow> emitter \<Rightarrow> emitted" where
  "with_local n k e = (case localIndex n e of (i, e) \<Rightarrow> k i e)"

definition in_stmt :: "(bool \<Rightarrow> emitter \<Rightarrow> emitted) \<Rightarrow> emitter \<Rightarrow> emitted" where
  "in_stmt k e = k (em_stmtCtx e) e"

definition op0 :: "8 word \<Rightarrow> emitter \<Rightarrow> emitted" where
  "op0 opc = emit opc 0 0 0"

definition op1 :: "8 word \<Rightarrow> 16 word \<Rightarrow> emitter \<Rightarrow> emitted" where
  "op1 opc a = emit opc a 0 0"

text \<open>An instruction that pushes a value.\<close>

definition load :: "8 word \<Rightarrow> 16 word \<Rightarrow> emitter \<Rightarrow> emitted" where
  "load opc a = seq [op1 opc a, pushStack 1]"

text \<open>A result that is dropped in statement context.\<close>

definition drop_in_stmt :: "emitter \<Rightarrow> emitted" where
  "drop_in_stmt = in_stmt (\<lambda>b. if b then seq [op0 OpPop, popStack 1] else EOk)"

section \<open>Expressions\<close>

definition emitLiteral :: "val \<Rightarrow> emitter \<Rightarrow> emitted" where
  "emitLiteral v =
     (case v of
        VNull \<Rightarrow> load OpLoadNull 0
      | VBool b \<Rightarrow> load (if b then OpLoadTrue else OpLoadFalse) 0
      | VInt _ \<Rightarrow> with_const v (load OpLoadConst)
      | VFloat _ \<Rightarrow> with_const v (load OpLoadConst)
      | VString _ \<Rightarrow> with_const v (load OpLoadConst)
      | _ \<Rightarrow> (\<lambda>e. Unsupported))"

definition emitIncDec :: "node option \<Rightarrow> node option \<Rightarrow> bool \<Rightarrow> emitter \<Rightarrow> emitted" where
  "emitIncDec a b inc =
     (let post = (a \<noteq> None) in
      case (if post then a else b) of
        Some (Variable x) \<Rightarrow>
          with_local x (\<lambda>i. seq
            [op1 (if post then (if inc then OpPostIncLocal else OpPostDecLocal)
                  else (if inc then OpIncLocal else OpDecLocal)) i,
             pushStack 1, drop_in_stmt])
      | _ \<Rightarrow> (\<lambda>e. Outside))"

text \<open>The parts of an operator node around the code of its operands \<open>ka\<close> and \<open>kb\<close>.\<close>

definition emitAssign :: "node option \<Rightarrow> (emitter \<Rightarrow> emitted) \<Rightarrow> emitter \<Rightarrow> emitted" where
  "emitAssign a kb =
     (case a of
        Some (Variable x) \<Rightarrow>
          seq [subexpr kb, with_local x (\<lambda>i. in_stmt (\<lambda>st.
            if st then seq [op1 OpStoreLocal i, popStack 1] else op1 OpStoreLocalKeep i))]
      | _ \<Rightarrow> (\<lambda>e. Outside))"

definition emitCompoundAssign :: "item_type \<Rightarrow> node option \<Rightarrow> (emitter \<Rightarrow> emitted) \<Rightarrow> emitter \<Rightarrow> emitted" where
  "emitCompoundAssign t a kb =
     (case a of
        Some (Variable x) \<Rightarrow>
          seq [subexpr kb, with_local x (\<lambda>i. seq [emit OpOpAssignLocal i (word_of_int t) 0, popStack 1,
            in_stmt (\<lambda>st. if st then EOk else load OpLoadLocal i)])]
      | _ \<Rightarrow> (\<lambda>e. Outside))"

definition emitShortCircuit :: "bool \<Rightarrow> (emitter \<Rightarrow> emitted) \<Rightarrow> (emitter \<Rightarrow> emitted) \<Rightarrow> emitter \<Rightarrow> emitted" where
  "emitShortCircuit orMode ka kb =
     seq [subexpr ka, op0 OpBool,
       at_pc (\<lambda>j. seq [op0 (if orMode then OpJmpIfTruePeek else OpJmpIfFalsePeek), op0 OpPop, popStack 1,
         subexpr kb, op0 OpBool, at_pc (patchJump j)])]"

definition emitCoalesce :: "node option \<Rightarrow> node option \<Rightarrow> (emitter \<Rightarrow> emitted) \<Rightarrow> emitter \<Rightarrow> emitted" where
  "emitCoalesce a b kb =
     (if a = None \<or> b = None then (\<lambda>e. Unsupported)
      else
        (case a of
           Some (Variable x) \<Rightarrow>
             seq [with_local x (load OpLoadLocal),
               at_pc (\<lambda>j. seq [op0 OpJmpIfNotNullPeek, op0 OpPop, popStack 1, subexpr kb, at_pc (patchJump j)])]
         | _ \<Rightarrow> (\<lambda>e. Outside)))"

definition emitOperator ::
  "item_type \<Rightarrow> node option \<Rightarrow> node option \<Rightarrow> bool \<Rightarrow> bool \<Rightarrow> (emitter \<Rightarrow> emitted) \<Rightarrow> (emitter \<Rightarrow> emitted)
     \<Rightarrow> emitter \<Rightarrow> emitted" where
  "emitOperator t a b isWrite isCompound ka kb =
     (if t = T_INC \<or> t = T_DEC then emitIncDec a b (t = T_INC)
      else if isWrite \<and> \<not> isCompound then emitAssign a kb
      else if isCompound then emitCompoundAssign t a kb
      else if t = T_BOOLEAN_AND \<or> t = T_LOGICAL_AND then emitShortCircuit False ka kb
      else if t = T_BOOLEAN_OR \<or> t = T_LOGICAL_OR then emitShortCircuit True ka kb
      else if t = T_COALESCE then emitCoalesce a b kb
      else if a = None \<and> b \<noteq> None then
        (case unaryOpcode t of None \<Rightarrow> (\<lambda>e. Unsupported) | Some u \<Rightarrow> seq [subexpr kb, op0 u])
      else if a \<noteq> None \<and> b \<noteq> None then
        (case binaryOpcode t of
           None \<Rightarrow> (\<lambda>e. Unsupported)
         | Some bop \<Rightarrow> seq [subexpr ka, subexpr kb, op0 bop, popStack 1])
      else (\<lambda>e. Unsupported))"

definition emitTernary :: "bool \<Rightarrow> (emitter \<Rightarrow> emitted) \<Rightarrow> (emitter \<Rightarrow> emitted) \<Rightarrow> (emitter \<Rightarrow> emitted) \<Rightarrow> emitter \<Rightarrow> emitted" where
  "emitTernary short kc ky kn =
     (if short then
        seq [subexpr kc,
          at_pc (\<lambda>jmpFalse. seq [op0 OpJmpIfFalsePeek,
          at_pc (\<lambda>jmpEnd. seq [op0 OpJmp,
            at_pc (patchJump jmpFalse), popStack 1, subexpr kn, at_pc (patchJump jmpEnd)])])]
      else
        seq [subexpr kc,
          at_pc (\<lambda>jmpFalse. seq [op0 OpJmpIfFalse, popStack 1, subexpr ky,
          at_pc (\<lambda>jmpEnd. seq [op0 OpJmp,
            at_pc (patchJump jmpFalse), popStack 1, subexpr kn, at_pc (patchJump jmpEnd)])])])"

definition emitCall :: "bytes \<Rightarrow> nat \<Rightarrow> (emitter \<Rightarrow> emitted) \<Rightarrow> emitter \<Rightarrow> emitted" where
  "emitCall name argc kargs =
     (if name = [] \<or> argc > 0xFFFF then (\<lambda>e. Unsupported)
      else seq [kargs, with_const (VString name) (\<lambda>i. emit OpCallUser i (of_nat argc) 0),
        if argc > 0 then popStack (argc - 1) else pushStack 1, drop_in_stmt])"

text \<open>\<open>emitOpt\<close> is \<open>emitExpr\<close> of a node that may be nil.\<close>

fun emitExpr :: "node \<Rightarrow> emitter \<Rightarrow> emitted"
  and emitOpt :: "node option \<Rightarrow> emitter \<Rightarrow> emitted"
  and emitArgs :: "node list \<Rightarrow> emitter \<Rightarrow> emitted"
  and emitConcatRest :: "node list \<Rightarrow> emitter \<Rightarrow> emitted" where
  "emitExpr (Literal v) = emitLiteral v"
| "emitExpr (Variable x) = with_local x (load OpLoadLocalOrWarn)"
| "emitExpr (ConcatNode ps) =
     (case ps of
        [] \<Rightarrow> with_const (VString []) (load OpLoadConst)
      | p # ps' \<Rightarrow> seq [subexpr (emitExpr p), emitConcatRest ps'])"
| "emitExpr (Operator t a b w c) = emitOperator t a b w c (emitOpt a) (emitOpt b)"
| "emitExpr (FunctionCall name args) = emitCall name (length args) (emitArgs args)"
| "emitExpr (IfNode c y n short) = emitTernary short (emitExpr c) (emitOpt y) (emitOpt n)"
| "emitExpr (Runnables ns) = (case ns of [n] \<Rightarrow> emitExpr n | _ \<Rightarrow> (\<lambda>e. Unsupported))"
| "emitExpr (Opaque n) = (\<lambda>e. Outside)"
| "emitExpr _ = (\<lambda>e. Unsupported)"
| "emitOpt None = load OpLoadNull 0"
| "emitOpt (Some n) = emitExpr n"
| "emitArgs [] = EOk"
| "emitArgs (a # as) = seq [subexpr (emitExpr a), emitArgs as]"
| "emitConcatRest [] = EOk"
| "emitConcatRest (p # ps) = seq [subexpr (emitExpr p), op0 OpConcat, popStack 1, emitConcatRest ps]"

section \<open>Statements\<close>

text \<open>An expression whose value is dropped, when it left one.\<close>

definition discard :: "(emitter \<Rightarrow> emitted) \<Rightarrow> emitter \<Rightarrow> emitted" where
  "discard k e =
     e_then (k (e\<lparr>em_stmtCtx := True\<rparr>)) (\<lambda>e'.
     e_then (if em_curStack e' > em_curStack e then seq [op0 OpPop, popStack 1] e' else EOk e') (\<lambda>e''.
     EOk (e''\<lparr>em_stmtCtx := em_stmtCtx e\<rparr>)))"

text \<open>\<open>popLoop\<close> after the pending jumps of the loop are patched.\<close>

definition patch_breaks :: "nat \<Rightarrow> emitter \<Rightarrow> emitted" where
  "patch_breaks target e = patch_all (lc_breakPCs (curLoop e)) target e"

definition patch_continues :: "nat \<Rightarrow> emitter \<Rightarrow> emitted" where
  "patch_continues target e = patch_all (lc_continuePCs (curLoop e)) target e"

definition jump_back :: "nat \<Rightarrow> emitter \<Rightarrow> emitted" where
  "jump_back target = at_pc (\<lambda>j. seq [op0 OpJmp, patchJump j target])"

definition emitIf :: "(emitter \<Rightarrow> emitted) \<Rightarrow> (emitter \<Rightarrow> emitted) \<Rightarrow> (emitter \<Rightarrow> emitted) option \<Rightarrow> emitter \<Rightarrow> emitted" where
  "emitIf kc ky kn =
     seq [subexpr kc,
       at_pc (\<lambda>jmpFalse. seq [op0 OpJmpIfFalse, popStack 1, ky,
         (case kn of
            None \<Rightarrow> at_pc (patchJump jmpFalse)
          | Some kn \<Rightarrow>
              at_pc (\<lambda>jmpEnd. seq [op0 OpJmp, at_pc (patchJump jmpFalse), kn, at_pc (patchJump jmpEnd)]))])]"

definition emitWhile :: "(emitter \<Rightarrow> emitted) \<Rightarrow> (emitter \<Rightarrow> emitted) \<Rightarrow> emitter \<Rightarrow> emitted" where
  "emitWhile kc kb =
     seq [act (pushLoop False),
       at_pc (\<lambda>loopHead. seq [subexpr kc,
         at_pc (\<lambda>exitJmp. seq [op0 OpJmpIfFalse, popStack 1, kb, patch_continues loopHead,
           jump_back loopHead,
           at_pc (\<lambda>exit. seq [patchJump exitJmp exit, patch_breaks exit])])]),
       act popLoop]"

definition emitDoWhile :: "(emitter \<Rightarrow> emitted) \<Rightarrow> (emitter \<Rightarrow> emitted) \<Rightarrow> emitter \<Rightarrow> emitted" where
  "emitDoWhile kb kc =
     seq [act (pushLoop False),
       at_pc (\<lambda>bodyStart. seq [kb, at_pc patch_continues, subexpr kc,
         at_pc (\<lambda>j. seq [op0 OpJmpIfTrue, popStack 1, patchJump j bodyStart]),
         at_pc patch_breaks]),
       act popLoop]"

text \<open>The conditions of a \<open>for\<close>: all but the last are dropped; without any there is no exit jump.\<close>

fun emitConds :: "(emitter \<Rightarrow> emitted) list \<Rightarrow> (nat option \<Rightarrow> emitter \<Rightarrow> emitted) \<Rightarrow> emitter \<Rightarrow> emitted" where
  "emitConds [] k = k None"
| "emitConds [kc] k = seq [subexpr kc, at_pc (\<lambda>j. seq [op0 OpJmpIfFalse, popStack 1, k (Some j)])]"
| "emitConds (kc # kcs) k = seq [subexpr kc, op0 OpPop, popStack 1, emitConds kcs k]"

definition emitFor ::
  "(emitter \<Rightarrow> emitted) list \<Rightarrow> (emitter \<Rightarrow> emitted) list \<Rightarrow> (emitter \<Rightarrow> emitted) list \<Rightarrow> (emitter \<Rightarrow> emitted)
     \<Rightarrow> emitter \<Rightarrow> emitted" where
  "emitFor kstart kconds kstep kb =
     seq [seq (map discard kstart), act (pushLoop False),
       at_pc (\<lambda>loopHead.
         emitConds kconds (\<lambda>exitJmp. seq
           [kb, at_pc patch_continues, seq (map discard kstep), jump_back loopHead,
            at_pc (\<lambda>exit. seq [(case exitJmp of None \<Rightarrow> EOk | Some j \<Rightarrow> patchJump j exit), patch_breaks exit])])),
       act popLoop]"

definition emitForeach :: "(emitter \<Rightarrow> emitted) \<Rightarrow> bytes option \<Rightarrow> bytes \<Rightarrow> (emitter \<Rightarrow> emitted) \<Rightarrow> emitter \<Rightarrow> emitted" where
  "emitForeach ksrc key value kb =
     with_local value (\<lambda>vi.
     (case key of None \<Rightarrow> (\<lambda>k. k 0xFFFF) | Some x \<Rightarrow> with_local x) (\<lambda>ki.
       seq [subexpr ksrc,
         at_pc (\<lambda>initPC. seq [op0 OpForeachInit, popStack 1, act (pushLoop True),
           at_pc (\<lambda>loopHead. seq [emit OpForeachStep vi ki 0, kb, at_pc patch_continues,
             op0 OpForeachAdvance, jump_back loopHead,
             at_pc (\<lambda>unwindStart. seq [patchJump loopHead unwindStart, patch_breaks unwindStart]),
             op0 OpForeachUnwind]),
           at_pc (patchJump initPC), act popLoop])]))"

text \<open>A name for the value of a \<open>switch\<close>: \<open>fmt.Sprintf("__switch_cond_%d", n)\<close>.\<close>

definition switch_name :: "int \<Rightarrow> bytes" where
  "switch_name n = ''__switch_cond_'' @ format_int n"

fun switch_tests ::
  "16 word \<Rightarrow> (emitter \<Rightarrow> emitted) option list \<Rightarrow> nat option list \<Rightarrow> (nat option list \<Rightarrow> emitter \<Rightarrow> emitted)
     \<Rightarrow> emitter \<Rightarrow> emitted" where
  "switch_tests ci [] jumps k = k jumps"
| "switch_tests ci (None # bs) jumps k = switch_tests ci bs (jumps @ [None]) k"
| "switch_tests ci (Some kc # bs) jumps k =
     seq [load OpLoadLocal ci, subexpr kc, op0 OpCmpEq, popStack 1,
       at_pc (\<lambda>j. seq [op0 OpJmpIfTrue, popStack 1, switch_tests ci bs (jumps @ [Some j]) k])]"

fun switch_bodies :: "(emitter \<Rightarrow> emitted) list \<Rightarrow> nat list \<Rightarrow> (nat list \<Rightarrow> emitter \<Rightarrow> emitted) \<Rightarrow> emitter \<Rightarrow> emitted" where
  "switch_bodies [] pcs k = k pcs"
| "switch_bodies (kb # kbs) pcs k = at_pc (\<lambda>pc. seq [kb, switch_bodies kbs (pcs @ [pc]) k])"

fun patch_tests :: "nat option list \<Rightarrow> nat list \<Rightarrow> emitter \<Rightarrow> emitted" where
  "patch_tests (Some j # js) (pc # pcs) = seq [patchJump j pc, patch_tests js pcs]"
| "patch_tests (None # js) (pc # pcs) = patch_tests js pcs"
| "patch_tests _ _ = EOk"

definition add_break :: "nat \<Rightarrow> nat \<Rightarrow> emitter \<Rightarrow> emitter" where
  "add_break depth pc e =
     e\<lparr>em_loops := (em_loops e)[depth - 1 := (em_loops e ! (depth - 1))
         \<lparr>lc_breakPCs := lc_breakPCs (em_loops e ! (depth - 1)) @ [pc]\<rparr>]\<rparr>"

definition add_continue :: "nat \<Rightarrow> nat \<Rightarrow> emitter \<Rightarrow> emitter" where
  "add_continue depth pc e =
     e\<lparr>em_loops := (em_loops e)[depth - 1 := (em_loops e ! (depth - 1))
         \<lparr>lc_continuePCs := lc_continuePCs (em_loops e ! (depth - 1)) @ [pc]\<rparr>]\<rparr>"

text \<open>The index of the last block without a condition.\<close>

definition default_index :: "nat option list \<Rightarrow> nat option" where
  "default_index js = (case filter (\<lambda>i. js ! i = None) [0..<length js] of [] \<Rightarrow> None | is' \<Rightarrow> Some (last is'))"

definition emitSwitch ::
  "(emitter \<Rightarrow> emitted) \<Rightarrow> ((emitter \<Rightarrow> emitted) option \<times> (emitter \<Rightarrow> emitted)) list \<Rightarrow> emitter \<Rightarrow> emitted" where
  "emitSwitch kc blocks =
     seq [subexpr kc, (\<lambda>e. case nextSynthID e of (n, e) \<Rightarrow>
       with_local (switch_name n) (\<lambda>ci. seq [op1 OpStoreLocal ci, popStack 1, act (pushLoop False),
         switch_tests ci (map fst blocks) [] (\<lambda>js.
           at_pc (\<lambda>noMatch. seq [op0 OpJmp,
             (case default_index js of None \<Rightarrow> act (add_break 1 noMatch) | Some _ \<Rightarrow> EOk),
             switch_bodies (map snd blocks) [] (\<lambda>pcs. seq [patch_tests js pcs,
               (case default_index js of None \<Rightarrow> EOk | Some d \<Rightarrow> patchJump noMatch (pcs ! d)),
               at_pc (\<lambda>brk. seq [patch_breaks brk, patch_continues brk])])])),
         act popLoop]) e)]"

text \<open>\<open>break\<close> and \<open>continue\<close>: not across a \<open>finally\<close>; the iterators of the loops that are left are
  unwound.\<close>

definition unwindForeachesAbove :: "nat \<Rightarrow> emitter \<Rightarrow> emitted" where
  "unwindForeachesAbove n e =
     seq (map (\<lambda>l. op0 OpForeachUnwind) (filter lc_isForeach (take n (em_loops e)))) e"

definition leave_loop :: "int \<Rightarrow> (nat \<Rightarrow> nat \<Rightarrow> emitter \<Rightarrow> emitter) \<Rightarrow> emitter \<Rightarrow> emitted" where
  "leave_loop n add e =
     (let depth = (if n < 1 then 1 else nat n) in
      if length (em_loops e) < depth then Unsupported
      else if em_finallyLoopDepths e \<noteq> [] \<and> length (em_loops e) - depth < hd (em_finallyLoopDepths e)
      then Unsupported
      else seq [unwindForeachesAbove (depth - 1), at_pc (\<lambda>pc. seq [op0 OpJmp, act (add depth pc)])] e)"

definition emitReturn :: "(emitter \<Rightarrow> emitted) option \<Rightarrow> emitter \<Rightarrow> emitted" where
  "emitReturn v =
     (case v of
        Some kv \<Rightarrow> seq [subexpr kv, op0 OpRet, popStack 1]
      | None \<Rightarrow> op0 OpRetNull)"

text \<open>The catch clauses: their start, their variable, their body, the jump behind all of them.\<close>

fun emitCatches ::
  "(bytes list \<times> bytes \<times> nat option \<times> (emitter \<Rightarrow> emitted)) list \<Rightarrow> catch_clause list \<Rightarrow> nat list
     \<Rightarrow> (catch_clause list \<Rightarrow> nat list \<Rightarrow> emitter \<Rightarrow> emitted) \<Rightarrow> emitter \<Rightarrow> emitted" where
  "emitCatches [] cl js k = k cl js"
| "emitCatches ((ts, x, l, kb) # cs) cl js k =
     at_pc (\<lambda>pc. (if x = [] then (\<lambda>k. k 0xFFFF) else with_local x) (\<lambda>xi.
       seq [kb, at_pc (\<lambda>j. seq [op0 OpJmp,
         emitCatches cs (cl @ [\<lparr>cc_Types = ts, cc_VarIdx = xi, cc_PC = int pc, cc_Loc = l\<rparr>]) (js @ [j]) k])]))"

definition push_finally :: "emitter \<Rightarrow> emitter" where
  "push_finally e = e\<lparr>em_finallyLoopDepths := length (em_loops e) # em_finallyLoopDepths e\<rparr>"

definition pop_finally :: "emitter \<Rightarrow> emitter" where
  "pop_finally e = e\<lparr>em_finallyLoopDepths := tl (em_finallyLoopDepths e)\<rparr>"

definition add_handler :: "try_handler \<Rightarrow> emitter \<Rightarrow> emitter" where
  "add_handler th e = e\<lparr>em_tryHandlers := em_tryHandlers e @ [th]\<rparr>"

definition emitTry ::
  "(emitter \<Rightarrow> emitted) \<Rightarrow> (bytes list \<times> bytes \<times> nat option \<times> (emitter \<Rightarrow> emitted)) list
     \<Rightarrow> (emitter \<Rightarrow> emitted) option \<Rightarrow> emitter \<Rightarrow> emitted" where
  "emitTry kb catches finally e =
     (if catches = [] \<and> finally = None then Unsupported
      else
        (let tryStart = here e; stackBase = nat (em_curStack e) in
         seq [(if finally \<noteq> None then act push_finally else EOk), kb,
           at_pc (\<lambda>skipCatches. seq [op0 OpJmp,
             at_pc (\<lambda>tryEnd. emitCatches catches [] [] (\<lambda>clauses ends.
               at_pc (\<lambda>afterCatch.
                 let th = \<lparr>th_Start = int tryStart, th_End = int tryEnd, th_AfterCatch = int afterCatch,
                           th_StackBase = stackBase, th_Catches = clauses, th_HasFinally = False,
                           th_FinallyPC = 0, th_FinallyEnd = 0\<rparr> in
                 seq [patchJump skipCatches afterCatch, patch_all ends afterCatch,
                   (case finally of
                      None \<Rightarrow> act (add_handler th)
                    | Some kf \<Rightarrow>
                        seq [act pop_finally, kf,
                          (\<lambda>e. if length (em_tryHandlers e) > 0xFFFF then Unsupported
                               else at_pc (\<lambda>pc. seq [op1 OpFinallyEnd (of_nat (length (em_tryHandlers e))),
                                      act (add_handler (th\<lparr>th_HasFinally := True,
                                        th_FinallyPC := int afterCatch, th_FinallyEnd := int pc\<rparr>))]) e)])])))])] e))"

text \<open>What \<open>emitStmt\<close> emits before the code \<open>k\<close> of a statement at \<open>loc\<close>.\<close>

definition at_stmt :: "nat option \<Rightarrow> (emitter \<Rightarrow> emitted) \<Rightarrow> emitter \<Rightarrow> emitted" where
  "at_stmt loc k = seq [act (recordLoc loc), op0 OpTick, k]"

text \<open>\<open>None\<close> is a nil node: no code.\<close>

fun emitStmt :: "(node \<Rightarrow> nat option) \<Rightarrow> node \<Rightarrow> emitter \<Rightarrow> emitted"
  and emitBody :: "(node \<Rightarrow> nat option) \<Rightarrow> node option \<Rightarrow> emitter \<Rightarrow> emitted"
  and emitStmts :: "(node \<Rightarrow> nat option) \<Rightarrow> node list \<Rightarrow> emitter \<Rightarrow> emitted"
  and stmt_blocks :: "(node \<Rightarrow> nat option) \<Rightarrow> (node option \<times> node option) list
    \<Rightarrow> ((emitter \<Rightarrow> emitted) option \<times> (emitter \<Rightarrow> emitted)) list"
  and stmt_catches :: "(node \<Rightarrow> nat option) \<Rightarrow> (bytes list \<times> bytes \<times> nat option \<times> node option) list
    \<Rightarrow> (bytes list \<times> bytes \<times> nat option \<times> (emitter \<Rightarrow> emitted)) list" where
  "emitStmt lo (Runnables ns) = emitStmts lo ns"
| "emitStmt lo (SwitchNode c bs) =
     at_stmt (lo (SwitchNode c bs)) (emitSwitch (emitExpr c) (stmt_blocks lo bs))"
| "emitStmt lo (InlineHtml s) = at_stmt (lo (InlineHtml s)) (with_const (VString s) (op1 OpInlineHtml))"
| "emitStmt lo (IfNode c y no short) =
     at_stmt (lo (IfNode c y no short))
       (emitIf (emitExpr c) (emitBody lo y) (case no of None \<Rightarrow> None | Some b \<Rightarrow> Some (emitStmt lo b)))"
| "emitStmt lo (WhileNode c b) = at_stmt (lo (WhileNode c b)) (emitWhile (emitExpr c) (emitBody lo b))"
| "emitStmt lo (DoWhileNode b c) = at_stmt (lo (DoWhileNode b c)) (emitDoWhile (emitBody lo b) (emitExpr c))"
| "emitStmt lo (ForNode st cs step b) =
     at_stmt (lo (ForNode st cs step b))
       (emitFor (map emitExpr st) (map emitExpr cs) (map emitExpr step) (emitBody lo b))"
| "emitStmt lo (ForeachNode src key v b) =
     at_stmt (lo (ForeachNode src key v b)) (emitForeach (emitExpr src) key v (emitBody lo b))"
| "emitStmt lo (ReturnNode v) = at_stmt (lo (ReturnNode v)) (emitReturn (map_option emitExpr v))"
| "emitStmt lo (ThrowNode v) =
     at_stmt (lo (ThrowNode v)) (seq [subexpr (emitExpr v), op0 OpThrow, popStack 1])"
| "emitStmt lo (TryNode b cs fin) =
     at_stmt (lo (TryNode b cs fin))
       (emitTry (emitBody lo b) (stmt_catches lo cs) (case fin of None \<Rightarrow> None | Some g \<Rightarrow> Some (emitStmt lo g)))"
| "emitStmt lo (BreakNode d) = at_stmt (lo (BreakNode d)) (leave_loop d add_break)"
| "emitStmt lo (ContinueNode d) = at_stmt (lo (ContinueNode d)) (leave_loop d add_continue)"
| "emitStmt lo (Variable x) = at_stmt (lo (Variable x)) EOk"
| "emitStmt lo n = at_stmt (lo n) (discard (emitExpr n))"
| "emitBody lo None = EOk"
| "emitBody lo (Some n) = emitStmt lo n"
| "emitStmts lo [] = EOk"
| "emitStmts lo (n # ns) = seq [emitStmt lo n, emitStmts lo ns]"
| "stmt_blocks lo [] = []"
| "stmt_blocks lo ((c, b) # bs) = (map_option emitExpr c, emitBody lo b) # stmt_blocks lo bs"
| "stmt_catches lo [] = []"
| "stmt_catches lo ((ts, x, l, b) # cs) = (ts, x, l, emitBody lo b) # stmt_catches lo cs"

section \<open>Compile\<close>

definition finish :: "nat \<Rightarrow> bool \<Rightarrow> emitter \<Rightarrow> func" where
  "finish source slotOnly e =
     \<lparr>fn_Code = em_code e, fn_Consts = em_consts e, fn_Locals = em_locals e, fn_LocsSparse = em_locs e,
      fn_TryHandlers = em_tryHandlers e, fn_MaxStack = max 4 (nat (em_maxStack e)), fn_Source = source,
      fn_SlotOnly = slotOnly\<rparr>"

text \<open>\<open>slotOnly\<close> is the answer of \<open>IsSlotSafe\<close> for the body.\<close>

definition Compile :: "(node \<Rightarrow> nat option) \<Rightarrow> nat \<Rightarrow> bool \<Rightarrow> node option \<Rightarrow> func option" where
  "Compile lo source slotOnly body =
     (case seq [emitBody lo body, op0 OpRetNull] newEmitter of
        EOk e \<Rightarrow> Some (finish source slotOnly e)
      | _ \<Rightarrow> None)"

end
