(* ===== verification/VmEval.thy ===== *)
theory VmEval
  imports VmEmit "HOL-Library.Sublist"
begin

text \<open>
  What an expression means: a big-step reading of the syntax tree over the host of the machine, with
  the slots of the function as its store. It is the specification of the code the emitter gives for
  expressions: no stack, no jumps, no program counter.
\<close>

section \<open>Results\<close>

type_synonym ('v, 'w, 'a) result = "('v verr + 'a) \<times> 'v option list \<times> 'w"

type_synonym ('v, 'w) comp = "'v option list \<Rightarrow> 'w \<Rightarrow> ('v, 'w, 'v) result"

definition bindr ::
  "('v, 'w, 'a) result \<Rightarrow> ('a \<Rightarrow> 'v option list \<Rightarrow> 'w \<Rightarrow> ('v, 'w, 'b) result) \<Rightarrow> ('v, 'w, 'b) result" where
  "bindr r k = (case r of (Inl e, ls, w) \<Rightarrow> (Inl e, ls, w) | (Inr x, ls, w) \<Rightarrow> k x ls w)"

lemma bindr_simps [simp]:
  "bindr (Inl e, ls, w) k = (Inl e, ls, w)"
  "bindr (Inr x, ls, w) k = k x ls w"
  by (simp_all add: bindr_def)

lemma bindr_ret [simp]: "bindr r (\<lambda>x ls w. (Inr x, ls, w)) = r"
  by (simp add: bindr_def split: prod.splits sum.splits)

lemma bindr_assoc: "bindr (bindr r k) k' = bindr r (\<lambda>x ls w. bindr (k x ls w) k')"
  by (simp add: bindr_def split: prod.splits sum.splits)

definition of_host :: "('v verr + 'v) \<times> 'w \<Rightarrow> 'v option list \<Rightarrow> ('v, 'w, 'v) result" where
  "of_host r ls = (case r of (x, w) \<Rightarrow> (x, ls, w))"

section \<open>Variables\<close>

definition slot :: "func \<Rightarrow> bytes \<Rightarrow> nat" where
  "slot fn x = length (takeWhile (\<lambda>n. n \<noteq> x) (fn_Locals fn))"

text \<open>Reading the variable of a slot: its value, or null with a warning (\<open>warn\<close>) when it has none.\<close>

definition read_local :: "('v, 'w) host \<Rightarrow> func \<Rightarrow> bool \<Rightarrow> nat \<Rightarrow> ('v, 'w) comp" where
  "read_local h fn warn i ls w =
     (case ls ! i of
        Some v \<Rightarrow> (Inr v, ls, w)
      | None \<Rightarrow>
          if fn_Locals fn ! i = ''this'' then
            (case h_This h w of
               None \<Rightarrow> (case h_NoThis h w of (e, w) \<Rightarrow> (Inl e, ls, w))
             | Some v \<Rightarrow> (Inr v, ls, w))
          else
            (case (if warn then h_WarnUndef h (fn_Locals fn ! i) w else (None, w)) of
               (Some e, w) \<Rightarrow> (Inl e, ls, w)
             | (None, w) \<Rightarrow> (case h_mk h VNull w of (v, w) \<Rightarrow> (Inr v, ls, w))))"

text \<open>A slot gets a new value, which the function context sees too.\<close>

definition set_slot :: "('v, 'w) host \<Rightarrow> func \<Rightarrow> nat \<Rightarrow> 'v \<Rightarrow> 'v option list \<Rightarrow> 'w \<Rightarrow> ('v, 'w, unit) result" where
  "set_slot h fn i v ls w =
     (case mirror h fn i (Some v) w of
        (Some e, w) \<Rightarrow> (Inl e, ls[i := Some v], w)
      | (None, w) \<Rightarrow> (Inr (), ls[i := Some v], w))"

definition write_local :: "('v, 'w) host \<Rightarrow> func \<Rightarrow> nat \<Rightarrow> 'v \<Rightarrow> 'v option list \<Rightarrow> 'w \<Rightarrow> ('v, 'w, unit) result" where
  "write_local h fn i v ls w = (case stored_copy h v w of (v, w) \<Rightarrow> set_slot h fn i v ls w)"

section \<open>Operators\<close>

definition binary_value :: "('v, 'w) host \<Rightarrow> 8 word \<Rightarrow> 'v \<Rightarrow> 'v \<Rightarrow> 'w \<Rightarrow> ('v verr + 'v) \<times> 'w" where
  "binary_value h opc a b w =
     (case fast_case h opc a b w of
        Some v \<Rightarrow> (case h_mk h v w of (v, w) \<Rightarrow> (Inr v, w))
      | None \<Rightarrow> h_binop h opc a b w)"

text \<open>\<open>++\<close> and \<open>--\<close>: an integer that is not at its limit and not shared is stepped, anything else goes
  through \<open>DoInc\<close>.\<close>

definition stepped_int :: "('v, 'w) host \<Rightarrow> bool \<Rightarrow> 'v option \<Rightarrow> 'w \<Rightarrow> val option" where
  "stepped_int h inc cur w =
     (case (case cur of Some v \<Rightarrow> if h_IsRef h w v then None else h_int h w v | None \<Rightarrow> None) of
        None \<Rightarrow> None
      | Some ci \<Rightarrow>
          if ci = (if inc then int64_max_w else min64) then None
          else Some (VInt (sint (if inc then ci + 1 else ci - 1))))"

definition eval_inc_dec :: "('v, 'w) host \<Rightarrow> func \<Rightarrow> nat \<Rightarrow> bool \<Rightarrow> bool \<Rightarrow> ('v, 'w) comp" where
  "eval_inc_dec h fn i inc post ls w =
     (case stepped_int h inc (ls ! i) w of
        Some v \<Rightarrow>
          (case h_mk h v w of
             (v, w) \<Rightarrow> bindr (set_slot h fn i v ls w)
               (\<lambda>_ ls' w. (Inr (if post then the (ls ! i) else v), ls', w)))
      | None \<Rightarrow>
          (case (if ls ! i = None \<and> fn_Locals fn ! i \<noteq> ''this''
                 then h_WarnUndef h (fn_Locals fn ! i) w else (None, w)) of
             (Some e, w) \<Rightarrow> (Inl e, ls, w)
           | (None, w) \<Rightarrow>
               (case (case ls ! i of Some v \<Rightarrow> (v, w) | None \<Rightarrow> h_mk h VNull w) of (v, w) \<Rightarrow>
                case (if h_IsCached h w v then h_NewZVal h v w else (v, w)) of (v, w) \<Rightarrow>
                case (if post then h_Dup h v w else (v, w)) of (pre, w) \<Rightarrow>
                case h_DoInc h v inc w of
                  (Some e, w) \<Rightarrow> (Inl e, ls, w)
                | (None, w) \<Rightarrow>
                    bindr (write_local h fn i v ls w) (\<lambda>_ ls w. (Inr (if post then pre else v), ls, w)))))"

text \<open>\<open>$x op= v\<close>.\<close>

definition quick_assign :: "('v, 'w) host \<Rightarrow> item_type \<Rightarrow> 'v option \<Rightarrow> 'v \<Rightarrow> 'w \<Rightarrow> val option" where
  "quick_assign h t cur rhs w =
     (case cur of
        None \<Rightarrow> None
      | Some c \<Rightarrow>
          if h_IsRef h w c then None
          else if t = T_PLUS_EQUAL then fast_case h OpAdd c rhs w
          else if t = T_CONCAT_EQUAL then fast_case h OpConcat c rhs w
          else None)"

definition compound_assign ::
  "('v, 'w) host \<Rightarrow> func \<Rightarrow> nat \<Rightarrow> item_type \<Rightarrow> 'v \<Rightarrow> 'v option list \<Rightarrow> 'w \<Rightarrow> ('v, 'w, unit) result" where
  "compound_assign h fn i t rhs ls w =
     (case quick_assign h t (ls ! i) rhs w of
        Some v \<Rightarrow> (case h_mk h v w of (v, w) \<Rightarrow> set_slot h fn i v ls w)
      | None \<Rightarrow>
          (case compoundOp t of
             None \<Rightarrow> (Inl (OtherErr ''vm: unknown compound op''), ls, w)
           | Some opc \<Rightarrow>
               (case (case ls ! i of Some c \<Rightarrow> (c, w) | None \<Rightarrow> h_mk h VNull w) of (c, w) \<Rightarrow>
                case h_Dup h c w of (c, w) \<Rightarrow>
                  bindr (of_host (h_binop h opc c rhs w) ls) (\<lambda>v ls w. write_local h fn i v ls w))))"

text \<open>The boolean a value becomes as the operand of a logical operator.\<close>

definition as_bool :: "('v, 'w) host \<Rightarrow> 'v \<Rightarrow> ('v, 'w) comp" where
  "as_bool h v ls w =
     (case h_AsBool h v w of (b, w) \<Rightarrow> case h_mk h (VBool b) w of (v, w) \<Rightarrow> (Inr v, ls, w))"

definition eval_assign :: "('v, 'w) host \<Rightarrow> func \<Rightarrow> bytes \<Rightarrow> ('v, 'w) comp \<Rightarrow> ('v, 'w) comp" where
  "eval_assign h fn x mb ls w =
     bindr (mb ls w) (\<lambda>v ls w.
       case (if h_IsCached h w v then h_NewZVal h v w else (v, w)) of
         (v, w) \<Rightarrow> bindr (write_local h fn (slot fn x) v ls w) (\<lambda>_ ls w. (Inr v, ls, w)))"

definition eval_compound :: "('v, 'w) host \<Rightarrow> func \<Rightarrow> bytes \<Rightarrow> item_type \<Rightarrow> ('v, 'w) comp \<Rightarrow> ('v, 'w) comp" where
  "eval_compound h fn x t mb ls w =
     bindr (mb ls w) (\<lambda>v ls w.
       bindr (compound_assign h fn (slot fn x) t v ls w) (\<lambda>_ ls w. read_local h fn False (slot fn x) ls w))"

text \<open>\<open>&&\<close> and \<open>||\<close>.\<close>

definition eval_short_circuit ::
  "('v, 'w) host \<Rightarrow> bool \<Rightarrow> ('v, 'w) comp \<Rightarrow> ('v, 'w) comp \<Rightarrow> ('v, 'w) comp" where
  "eval_short_circuit h orMode ma mb ls w =
     bindr (ma ls w) (\<lambda>v ls w. bindr (as_bool h v ls w) (\<lambda>v ls w.
       case (if orMode then h_AsBool h v w else truth h v w) of
         (b, w) \<Rightarrow> if b = orMode then (Inr v, ls, w) else bindr (mb ls w) (as_bool h)))"

definition eval_coalesce :: "('v, 'w) host \<Rightarrow> func \<Rightarrow> bytes \<Rightarrow> ('v, 'w) comp \<Rightarrow> ('v, 'w) comp" where
  "eval_coalesce h fn x mb ls w =
     bindr (read_local h fn False (slot fn x) ls w) (\<lambda>v ls w.
       if h_IsNull h w v then mb ls w else (Inr v, ls, w))"

definition eval_binary :: "('v, 'w) host \<Rightarrow> 8 word \<Rightarrow> ('v, 'w) comp \<Rightarrow> ('v, 'w) comp \<Rightarrow> ('v, 'w) comp" where
  "eval_binary h opc ma mb ls w =
     bindr (ma ls w) (\<lambda>a ls w. bindr (mb ls w) (\<lambda>b ls w. of_host (binary_value h opc a b w) ls))"

definition eval_unary :: "('v, 'w) host \<Rightarrow> 8 word \<Rightarrow> ('v, 'w) comp \<Rightarrow> ('v, 'w) comp" where
  "eval_unary h opc ma ls w = bindr (ma ls w) (\<lambda>a ls w. of_host (h_unop h opc a w) ls)"

definition eval_ternary :: "('v, 'w) host \<Rightarrow> ('v, 'w) comp \<Rightarrow> ('v, 'w) comp \<Rightarrow> ('v, 'w) comp \<Rightarrow> ('v, 'w) comp" where
  "eval_ternary h mc my mn ls w =
     bindr (mc ls w) (\<lambda>v ls w. case truth h v w of (b, w) \<Rightarrow> if b then my ls w else mn ls w)"

text \<open>\<open>c ?: n\<close> is \<open>c\<close> when it is truthy.\<close>

definition eval_short_ternary :: "('v, 'w) host \<Rightarrow> ('v, 'w) comp \<Rightarrow> ('v, 'w) comp \<Rightarrow> ('v, 'w) comp" where
  "eval_short_ternary h mc mn ls w =
     bindr (mc ls w) (\<lambda>v ls w. case truth h v w of (b, w) \<Rightarrow> if b then (Inr v, ls, w) else mn ls w)"

section \<open>Expressions\<close>

definition eval_literal :: "('v, 'w) host \<Rightarrow> val \<Rightarrow> ('v, 'w) comp" where
  "eval_literal h v ls w =
     (if v = VNull \<or> v = VBool True \<or> v = VBool False then (case h_mk h v w of (v, w) \<Rightarrow> (Inr v, ls, w))
      else (Inr (h_cached h v), ls, w))"

definition eval_operator ::
  "('v, 'w) host \<Rightarrow> func \<Rightarrow> item_type \<Rightarrow> node option \<Rightarrow> node option \<Rightarrow> bool \<Rightarrow> bool \<Rightarrow> ('v, 'w) comp
     \<Rightarrow> ('v, 'w) comp \<Rightarrow> ('v, 'w) comp" where
  "eval_operator h fn t a b isWrite isCompound ma mb =
     (if t = T_INC \<or> t = T_DEC then
        (case (if a \<noteq> None then a else b) of
           Some (Variable x) \<Rightarrow> eval_inc_dec h fn (slot fn x) (t = T_INC) (a \<noteq> None)
         | _ \<Rightarrow> mb)
      else if isWrite \<and> \<not> isCompound then
        (case a of Some (Variable x) \<Rightarrow> eval_assign h fn x mb | _ \<Rightarrow> mb)
      else if isCompound then
        (case a of Some (Variable x) \<Rightarrow> eval_compound h fn x t mb | _ \<Rightarrow> mb)
      else if t = T_BOOLEAN_AND \<or> t = T_LOGICAL_AND then eval_short_circuit h False ma mb
      else if t = T_BOOLEAN_OR \<or> t = T_LOGICAL_OR then eval_short_circuit h True ma mb
      else if t = T_COALESCE then
        (case a of Some (Variable x) \<Rightarrow> eval_coalesce h fn x mb | _ \<Rightarrow> mb)
      else if a = None then eval_unary h (the (unaryOpcode t)) mb
      else eval_binary h (the (binaryOpcode t)) ma mb)"

text \<open>The arguments of a call, from the left.\<close>

definition eval_call :: "('v, 'w) host \<Rightarrow> bytes \<Rightarrow> ('v option list \<Rightarrow> 'w \<Rightarrow> ('v, 'w, 'v list) result) \<Rightarrow> ('v, 'w) comp" where
  "eval_call h name margs ls w = bindr (margs ls w) (\<lambda>args ls w. of_host (h_Call h name args w) ls)"

fun eval :: "('v, 'w) host \<Rightarrow> func \<Rightarrow> node \<Rightarrow> ('v, 'w) comp"
  and eval_opt :: "('v, 'w) host \<Rightarrow> func \<Rightarrow> node option \<Rightarrow> ('v, 'w) comp"
  and eval_args :: "('v, 'w) host \<Rightarrow> func \<Rightarrow> node list \<Rightarrow> 'v option list \<Rightarrow> 'w \<Rightarrow> ('v, 'w, 'v list) result"
  and eval_concat :: "('v, 'w) host \<Rightarrow> func \<Rightarrow> node list \<Rightarrow> 'v \<Rightarrow> ('v, 'w) comp" where
  "eval h fn (Literal v) = eval_literal h v"
| "eval h fn (Variable x) = read_local h fn True (slot fn x)"
| "eval h fn (ConcatNode ps) =
     (case ps of
        [] \<Rightarrow> (\<lambda>ls w. (Inr (h_cached h (VString [])), ls, w))
      | p # ps' \<Rightarrow> (\<lambda>ls w. bindr (eval h fn p ls w) (eval_concat h fn ps')))"
| "eval h fn (Operator t a b wr c) = eval_operator h fn t a b wr c (eval_opt h fn a) (eval_opt h fn b)"
| "eval h fn (FunctionCall name args) = eval_call h name (eval_args h fn args)"
| "eval h fn (IfNode c y n short) =
     (if short then eval_short_ternary h (eval h fn c) (eval_opt h fn n)
      else eval_ternary h (eval h fn c) (eval_opt h fn y) (eval_opt h fn n))"
| "eval h fn (Runnables ns) = (case ns of [n] \<Rightarrow> eval h fn n | _ \<Rightarrow> eval_literal h VNull)"
| "eval h fn _ = eval_literal h VNull"
| "eval_opt h fn None = eval_literal h VNull"
| "eval_opt h fn (Some n) = eval h fn n"
| "eval_args h fn [] = (\<lambda>ls w. (Inr [], ls, w))"
| "eval_args h fn (a # as) =
     (\<lambda>ls w. bindr (eval h fn a ls w) (\<lambda>v ls w. bindr (eval_args h fn as ls w) (\<lambda>vs ls w. (Inr (v # vs), ls, w))))"
| "eval_concat h fn [] v = (\<lambda>ls w. (Inr v, ls, w))"
| "eval_concat h fn (p # ps) v =
     (\<lambda>ls w. bindr (eval h fn p ls w) (\<lambda>v' ls w.
        bindr (of_host (binary_value h OpConcat v v' w) ls) (eval_concat h fn ps)))"

end
