(* ===== verification/VmRuns.thy ===== *)
theory VmRuns
  imports VmEval
begin

text \<open>
  Pieces of code and what running them does: \<open>frag\<close> places a piece of code in a function, \<open>computes\<close>
  says that control that enters a piece at its start leaves it at its end with the result of a
  computation on the stack, or raises the error of the computation inside the piece. One lemma for
  each instruction of an expression, and the rules that put pieces together.
\<close>

section \<open>Code in place\<close>

definition frag :: "func \<Rightarrow> nat \<Rightarrow> instruction list \<Rightarrow> bool" where
  "frag fn p cs =
     (p + length cs \<le> length (fn_Code fn) \<and> (\<forall>i<length cs. fn_Code fn ! (p + i) = cs ! i))"

lemma frag_Nil: "frag fn p [] \<longleftrightarrow> p \<le> length (fn_Code fn)"
  by (simp add: frag_def)

lemma frag_append: "frag fn p (xs @ ys) \<longleftrightarrow> frag fn p xs \<and> frag fn (p + length xs) ys"
proof -
  have "(\<forall>i<length (xs @ ys). fn_Code fn ! (p + i) = (xs @ ys) ! i)
    \<longleftrightarrow> (\<forall>i<length xs. fn_Code fn ! (p + i) = xs ! i)
      \<and> (\<forall>i<length ys. fn_Code fn ! (p + length xs + i) = ys ! i)" (is "?l = (?a \<and> ?b)")
  proof
    assume l: ?l
    have "fn_Code fn ! (p + i) = xs ! i" if "i < length xs" for i
      using l[rule_format, of i] that by (simp add: nth_append)
    moreover have "fn_Code fn ! (p + length xs + i) = ys ! i" if "i < length ys" for i
      using l[rule_format, of "length xs + i"] that by (simp add: nth_append add.assoc)
    ultimately show "?a \<and> ?b" by blast
  next
    assume r: "?a \<and> ?b"
    show ?l
    proof (intro allI impI)
      fix i assume i: "i < length (xs @ ys)"
      show "fn_Code fn ! (p + i) = (xs @ ys) ! i"
      proof (cases "i < length xs")
        case True then show ?thesis using r by (simp add: nth_append)
      next
        case False
        then have "fn_Code fn ! (p + length xs + (i - length xs)) = ys ! (i - length xs)"
          using r i by (metis add_diff_inverse_nat length_append nat_add_left_cancel_less)
        then show ?thesis using False by (simp add: nth_append)
      qed
    qed
  qed
  then show ?thesis by (auto simp: frag_def)
qed

lemma frag_Cons: "frag fn p (x # xs) \<longleftrightarrow> p < length (fn_Code fn) \<and> fn_Code fn ! p = x \<and> frag fn (Suc p) xs"
  using frag_append[of fn p "[x]" xs] by (auto simp: frag_def)

section \<open>Running a piece\<close>

definition raised_at :: "func \<Rightarrow> nat \<Rightarrow> nat \<Rightarrow> 'v list \<Rightarrow> 'v option list \<Rightarrow> 'v frame \<Rightarrow> 'v frame \<Rightarrow> bool" where
  "raised_at fn p q st ls f f' =
     (int p < fr_pc f' \<and> fr_pc f' \<le> int q \<and> fr_locals f' = ls \<and> length ls = length (fn_Locals fn)
      \<and> suffix st (fr_stack f') \<and> fr_iters f' = fr_iters f \<and> fr_handlerPending f' = fr_handlerPending f)"

definition computes ::
  "('v, 'w) host \<Rightarrow> func \<Rightarrow> nat \<Rightarrow> nat \<Rightarrow> nat \<Rightarrow> 'v list
     \<Rightarrow> ('v option list \<Rightarrow> 'w \<Rightarrow> ('v, 'w, 'v list) result) \<Rightarrow> bool" where
  "computes h fn p q D us m =
     (\<forall>f w st. fr_pc f = int p \<longrightarrow> fr_stack f = us @ st \<longrightarrow> length st \<le> D
        \<longrightarrow> length (fr_locals f) = length (fn_Locals fn) \<longrightarrow>
        (case m (fr_locals f) w of
           (Inr vs, ls, w') \<Rightarrow>
             length ls = length (fn_Locals fn)
             \<and> vm_exec h fn None f w
               = vm_exec h fn None (f\<lparr>fr_pc := int q, fr_stack := vs @ st, fr_locals := ls\<rparr>) w'
         | (Inl e, ls, w') \<Rightarrow>
             (\<exists>f'. vm_exec h fn None f w = vm_exec h fn (Some e) f' w' \<and> raised_at fn p q st ls f f')))"

lemma computesI:
  assumes "\<And>f w st. fr_pc f = int p \<Longrightarrow> fr_stack f = us @ st \<Longrightarrow> length st \<le> D
      \<Longrightarrow> length (fr_locals f) = length (fn_Locals fn) \<Longrightarrow>
        (case m (fr_locals f) w of
           (Inr vs, ls, w') \<Rightarrow>
             length ls = length (fn_Locals fn)
             \<and> vm_exec h fn None f w
               = vm_exec h fn None (f\<lparr>fr_pc := int q, fr_stack := vs @ st, fr_locals := ls\<rparr>) w'
         | (Inl e, ls, w') \<Rightarrow>
             (\<exists>f'. vm_exec h fn None f w = vm_exec h fn (Some e) f' w' \<and> raised_at fn p q st ls f f'))"
  shows "computes h fn p q D us m"
  using assms by (simp add: computes_def)

lemma raised_at_mono:
  "raised_at fn p q st ls f f' \<Longrightarrow> p' \<le> p \<Longrightarrow> q \<le> q' \<Longrightarrow> suffix st' st \<Longrightarrow> raised_at fn p' q' st' ls f f'"
  unfolding raised_at_def by (auto dest: suffix_order.trans)

lemma computes_empty:
  "computes h fn p p D us (\<lambda>ls w. (Inr us, ls, w))"
  unfolding computes_def
proof (intro allI impI)
  fix f :: "'a frame" and w st
  assume "fr_pc f = int p" "fr_stack f = us @ st" "length (fr_locals f) = length (fn_Locals fn)"
  then show "case (Inr us, fr_locals f, w) of
           (Inr vs, ls, w') \<Rightarrow>
             length ls = length (fn_Locals fn)
             \<and> vm_exec h fn None f w
               = vm_exec h fn None (f\<lparr>fr_pc := int p, fr_stack := vs @ st, fr_locals := ls\<rparr>) w'
         | (Inl e, ls, w') \<Rightarrow>
             (\<exists>f'. vm_exec h fn None f w = vm_exec h fn (Some e) f' w' \<and> raised_at fn p p st ls f f')"
    by (cases f) simp
qed

lemma computes_bind:
  assumes "computes h fn p q D us m" and "\<And>vs ls w ls' w'. m ls w = (Inr vs, ls', w') \<Longrightarrow> computes h fn q r D vs (k vs)"
    and "p \<le> q" "q \<le> r"
  shows "computes h fn p r D us (\<lambda>ls w. bindr (m ls w) k)"
proof (rule computesI)
  fix f :: "'a frame" and w st
  assume f: "fr_pc f = int p" "fr_stack f = us @ st" "length st \<le> D" "length (fr_locals f) = length (fn_Locals fn)"
  note one = assms(1)[unfolded computes_def, rule_format, OF f, of w]
  obtain x ls w1 where m: "m (fr_locals f) w = (x, ls, w1)" by (cases "m (fr_locals f) w") auto
  show "case bindr (m (fr_locals f) w) k of
           (Inr vs, ls, w') \<Rightarrow>
             length ls = length (fn_Locals fn)
             \<and> vm_exec h fn None f w
               = vm_exec h fn None (f\<lparr>fr_pc := int r, fr_stack := vs @ st, fr_locals := ls\<rparr>) w'
         | (Inl e, ls, w') \<Rightarrow>
             (\<exists>f'. vm_exec h fn None f w = vm_exec h fn (Some e) f' w' \<and> raised_at fn p r st ls f f')"
  proof (cases x)
    case (Inl e)
    then show ?thesis using one m assms(3,4) by (auto intro: raised_at_mono)
  next
    case (Inr vs)
    let ?f = "f\<lparr>fr_pc := int q, fr_stack := vs @ st, fr_locals := ls\<rparr>"
    have l: "length ls = length (fn_Locals fn)" and e: "vm_exec h fn None f w = vm_exec h fn None ?f w1"
      using one m Inr by auto
    have two: "case k vs ls w1 of
           (Inr vs, ls, w') \<Rightarrow>
             length ls = length (fn_Locals fn)
             \<and> vm_exec h fn None ?f w1
               = vm_exec h fn None (?f\<lparr>fr_pc := int r, fr_stack := vs @ st, fr_locals := ls\<rparr>) w'
         | (Inl e, ls, w') \<Rightarrow>
             (\<exists>f'. vm_exec h fn None ?f w1 = vm_exec h fn (Some e) f' w' \<and> raised_at fn q r st ls ?f f')"
      using assms(2)[OF m[unfolded Inr], unfolded computes_def, rule_format, of ?f st w1] f(3) l by simp
    obtain y ls2 w2 where k: "k vs ls w1 = (y, ls2, w2)" by (cases "k vs ls w1") auto
    show ?thesis
    proof (cases y)
      case (Inl e')
      then obtain f' where f': "vm_exec h fn None ?f w1 = vm_exec h fn (Some e') f' w2" "raised_at fn q r st ls2 ?f f'"
        using two k by auto
      have "raised_at fn p r st ls2 f f'" using f'(2) assms(3) by (auto simp: raised_at_def)
      then show ?thesis using Inl Inr m k e f'(1) by auto
    next
      case (Inr us')
      then show ?thesis using two k m \<open>x = Inr vs\<close> e by simp
    qed
  qed
qed

text \<open>Values below the ones a piece uses stay where they are.\<close>

definition above :: "'v list \<Rightarrow> ('v, 'w, 'v list) result \<Rightarrow> ('v, 'w, 'v list) result" where
  "above xs r = bindr r (\<lambda>vs ls w. (Inr (vs @ xs), ls, w))"

lemma computes_above:
  assumes "computes h fn p q (D + length xs) us m"
  shows "computes h fn p q D (us @ xs) (\<lambda>ls w. above xs (m ls w))"
proof (rule computesI)
  fix f :: "'a frame" and w st
  assume f: "fr_pc f = int p" "fr_stack f = (us @ xs) @ st" "length st \<le> D" "length (fr_locals f) = length (fn_Locals fn)"
  have s: "suffix st (xs @ st)" by (simp add: suffix_def)
  from assms[unfolded computes_def, rule_format, of f "xs @ st" w] f
  show "case above xs (m (fr_locals f) w) of
           (Inr vs, ls, w') \<Rightarrow>
             length ls = length (fn_Locals fn)
             \<and> vm_exec h fn None f w
               = vm_exec h fn None (f\<lparr>fr_pc := int q, fr_stack := vs @ st, fr_locals := ls\<rparr>) w'
         | (Inl e, ls, w') \<Rightarrow>
             (\<exists>f'. vm_exec h fn None f w = vm_exec h fn (Some e) f' w' \<and> raised_at fn p q st ls f f')"
    by (auto simp: above_def bindr_def split: prod.splits sum.splits)
      (blast intro: raised_at_mono[OF _ le_refl le_refl s])
qed

section \<open>One instruction\<close>

text \<open>An instruction in place whose dispatch gives the result of a computation.\<close>

definition instr_at :: "func \<Rightarrow> nat \<Rightarrow> 8 word \<Rightarrow> 16 word \<Rightarrow> 16 word \<Rightarrow> int \<Rightarrow> bool" where
  "instr_at fn p opc a b d =
     (p < length (fn_Code fn) \<and> in_Op (fn_Code fn ! p) = opc \<and> in_A (fn_Code fn ! p) = a
      \<and> in_B (fn_Code fn ! p) = b \<and> sint (in_C (fn_Code fn ! p)) = d)"

lemma vm_exec_step:
  "vm_exec h fn None f w =
     (case vm_step h fn f w of
        (Running, f, w) \<Rightarrow> vm_exec h fn None f w
      | (Raised e, f, w) \<Rightarrow> vm_exec h fn (Some e) f w
      | (Finished v, f, w) \<Rightarrow> Some (Finished v, f, w)
      | (Crash, f, w) \<Rightarrow> Some (Crash, f, w))"
  by (subst vm_exec.simps) simp

lemma vm_step_at:
  assumes "p < length (fn_Code fn)" "fr_pc f = int p"
  shows "vm_step h fn f w = vm_dispatch h fn (fn_Code fn ! p) (goto (int (Suc p)) f) w"
  using assms by (simp add: vm_step_def add.commute)

text \<open>The outcome of a step that the result of a computation stands for.\<close>

definition steps_to ::
  "nat \<Rightarrow> 'v list \<Rightarrow> 'v frame \<Rightarrow> ('v, 'w) stepped \<Rightarrow> ('v, 'w, 'v list) result \<Rightarrow> bool" where
  "steps_to p st f s r =
     (case r of
        (Inr vs, ls, w') \<Rightarrow> s = (Running, f\<lparr>fr_pc := int p, fr_stack := vs @ st, fr_locals := ls\<rparr>, w')
      | (Inl e, ls, w') \<Rightarrow> (\<exists>us. s = (Raised e, f\<lparr>fr_pc := int p, fr_stack := us @ st, fr_locals := ls\<rparr>, w')))"

text \<open>Slots keep their number.\<close>

definition keeps :: "('v option list \<Rightarrow> 'w \<Rightarrow> ('v, 'w, 'a) result) \<Rightarrow> bool" where
  "keeps m = (\<forall>ls w x ls' w'. m ls w = (x, ls', w') \<longrightarrow> length ls' = length ls)"

lemma keepsD: "keeps m \<Longrightarrow> m ls w = (x, ls', w') \<Longrightarrow> length ls' = length ls"
  unfolding keeps_def by blast

lemma computes_step:
  assumes "p < length (fn_Code fn)"
    and step: "\<And>f w st. fr_stack f = us @ st \<Longrightarrow> length st \<le> D \<Longrightarrow> length (fr_locals f) = length (fn_Locals fn)
      \<Longrightarrow> fr_pc f = int (Suc p)
      \<Longrightarrow> steps_to (Suc p) st f (vm_dispatch h fn (fn_Code fn ! p) f w) (m (fr_locals f) w)"
    and len: "keeps m"
  shows "computes h fn p (Suc p) D us m"
proof (rule computesI)
  fix f :: "'a frame" and w st
  assume f: "fr_pc f = int p" "fr_stack f = us @ st" "length st \<le> D" "length (fr_locals f) = length (fn_Locals fn)"
  have s: "steps_to (Suc p) st (goto (int (Suc p)) f) (vm_step h fn f w) (m (fr_locals f) w)"
    using step[of "goto (int (Suc p)) f" st w] f vm_step_at[OF assms(1) f(1), of h w] by (simp add: goto_def)
  obtain x ls' w' where m: "m (fr_locals f) w = (x, ls', w')" by (cases "m (fr_locals f) w") auto
  then show "case m (fr_locals f) w of
           (Inr vs, ls, w') \<Rightarrow>
             length ls = length (fn_Locals fn)
             \<and> vm_exec h fn None f w
               = vm_exec h fn None (f\<lparr>fr_pc := int (Suc p), fr_stack := vs @ st, fr_locals := ls\<rparr>) w'
         | (Inl e, ls, w') \<Rightarrow>
             (\<exists>f'. vm_exec h fn None f w = vm_exec h fn (Some e) f' w' \<and> raised_at fn p (Suc p) st ls f f')"
    using s f(4) keepsD[OF len m]
    by (cases x) (auto simp: steps_to_def vm_exec_step[of h fn f w] goto_def raised_at_def suffix_def)
qed

section \<open>Instructions of expressions\<close>

definition one :: "('v, 'w, 'v) result \<Rightarrow> ('v, 'w, 'v list) result" where
  "one r = bindr r (\<lambda>v ls w. (Inr [v], ls, w))"

definition none :: "('v, 'w, unit) result \<Rightarrow> ('v, 'w, 'v list) result" where
  "none r = bindr r (\<lambda>_ ls w. (Inr [], ls, w))"

lemma one_simps [simp]: "one (Inl e, ls, w) = (Inl e, ls, w)" "one (Inr v, ls, w) = (Inr [v], ls, w)"
  by (simp_all add: one_def)

lemma none_simps [simp]: "none (Inl e, ls, w) = (Inl e, ls, w)" "none (Inr u, ls, w) = (Inr [], ls, w)"
  by (simp_all add: none_def)

lemma one_bindr: "one (bindr r k) = bindr r (\<lambda>x ls w. one (k x ls w))"
  by (simp add: one_def bindr_assoc)

lemma none_bindr: "none (bindr r k) = bindr r (\<lambda>x ls w. none (k x ls w))"
  by (simp add: none_def bindr_assoc)

lemma bindr_one: "bindr (one r) k = bindr r (\<lambda>v. k [v])"
  by (simp add: one_def bindr_assoc)

lemma bindr_none: "bindr (none r) k = bindr r (\<lambda>_. k [])"
  by (simp add: none_def bindr_assoc)

lemma frame_eta [simp]:
  "f\<lparr>fr_locals := fr_locals f\<rparr> = f" "f\<lparr>fr_stack := fr_stack f\<rparr> = f" "f\<lparr>fr_pc := fr_pc f\<rparr> = f"
  for f :: "'v frame"
  by simp_all

lemma keepsI: "(\<And>ls w x ls' w'. m ls w = (x, ls', w') \<Longrightarrow> length ls' = length ls) \<Longrightarrow> keeps m"
  by (simp add: keeps_def)

lemma keeps_iff: "keeps m \<longleftrightarrow> (\<forall>ls w. length (fst (snd (m ls w))) = length ls)"
  unfolding keeps_def by (metis fst_conv snd_conv prod.collapse)

lemma length_bindr [simp]:
  "(\<And>x ls w. length (fst (snd (k x ls w))) = length ls) \<Longrightarrow> length (fst (snd (bindr r k))) = length (fst (snd r))"
  by (simp add: bindr_def split: prod.splits sum.splits)

lemma keeps_bindr: "keeps m \<Longrightarrow> (\<And>x. keeps (k x)) \<Longrightarrow> keeps (\<lambda>ls w. bindr (m ls w) k)"
  by (fastforce simp: keeps_def bindr_def split: prod.splits sum.splits)

lemma keeps_ret: "keeps (\<lambda>ls w. (Inr x, ls, w))" "keeps (\<lambda>ls w. (Inl e, ls, w))"
  by (simp_all add: keeps_def)

lemma keeps_set_slot: "keeps (set_slot h fn i v)"
  by (auto simp: keeps_def set_slot_def split: prod.splits option.splits)

lemma keeps_write_local: "keeps (write_local h fn i v)"
  using keeps_set_slot by (fastforce simp: keeps_def write_local_def split: prod.splits)

lemma keeps_read_local: "keeps (read_local h fn warn i)"
  by (auto simp: keeps_def read_local_def split: prod.splits option.splits if_splits)

lemma keeps_of_host: "keeps (\<lambda>ls w. of_host (r w) ls)"
  by (rule keepsI) (simp add: of_host_def split: prod.splits)

lemma keeps_one: "keeps m \<Longrightarrow> keeps (\<lambda>ls w. one (m ls w))"
  unfolding one_def by (rule keeps_bindr) (auto intro: keeps_ret)

lemma keeps_none: "keeps m \<Longrightarrow> keeps (\<lambda>ls w. none (m ls w))"
  unfolding none_def by (rule keeps_bindr) (auto intro: keeps_ret)

lemma steps_to_raised [simp]:
  "fr_pc f = int p \<Longrightarrow> steps_to p st f (Raised e, f\<lparr>fr_stack := st, fr_locals := ls\<rparr>, w) (Inl e, ls, w)"
  "fr_pc f = int p \<Longrightarrow> steps_to p st f (Raised e, f\<lparr>fr_stack := st\<rparr>, w) (Inl e, fr_locals f, w)"
  by (cases f; auto simp: steps_to_def)+

lemma steps_to_running [simp]:
  "fr_pc f = int p \<Longrightarrow> steps_to p st f (Running, f\<lparr>fr_stack := st, fr_locals := ls\<rparr>, w) (Inr [], ls, w)"
  by (cases f) (auto simp: steps_to_def)

lemmas access_defs = push_def pop_def peek_def local_at_def const_at_def raise_def unless_def
  value_or_def set_top_def set_local_def

lemmas step_defs = steps_to_def access_defs

lemma run_LoadConst:
  assumes "instr_at fn p OpLoadConst a b d" "unat a < length (fn_Consts fn)" "D < fn_MaxStack fn"
  shows "computes h fn p (Suc p) D [] (\<lambda>ls w. (Inr [h_cached h (fn_Consts fn ! unat a)], ls, w))"
  using assms
  by (intro computes_step keeps_ret) (auto simp: instr_at_def vm_dispatch_def is_binary_def step_defs)

lemma run_LoadLiteral:
  assumes "instr_at fn p opc a b d" "D < fn_MaxStack fn"
    "opc = OpLoadNull \<and> v = VNull \<or> opc = OpLoadTrue \<and> v = VBool True \<or> opc = OpLoadFalse \<and> v = VBool False"
  shows "computes h fn p (Suc p) D [] (\<lambda>ls w. case h_mk h v w of (v, w) \<Rightarrow> (Inr [v], ls, w))"
  using assms
  by (intro computes_step keepsI) (auto simp: instr_at_def vm_dispatch_def is_binary_def step_defs split: prod.splits)

lemma read_local_step:
  assumes "i < length (fr_locals f)" "length (fr_stack f) < fn_MaxStack fn" "fr_pc f = int p"
  shows "steps_to p (fr_stack f) f (step_load_local h fn warn i f w) (one (read_local h fn warn i (fr_locals f) w))"
  using assms
  by (cases f) (auto simp: step_load_local_def read_local_def step_defs split: prod.splits option.splits if_splits)

lemma run_LoadLocal:
  assumes "instr_at fn p (if warn then OpLoadLocalOrWarn else OpLoadLocal) a b d" "unat a < length (fn_Locals fn)"
    "D < fn_MaxStack fn"
  shows "computes h fn p (Suc p) D [] (\<lambda>ls w. one (read_local h fn warn (unat a) ls w))"
proof (rule computes_step)
  show "p < length (fn_Code fn)" using assms(1) by (simp add: instr_at_def)
  fix f :: "'a frame" and w st
  assume f: "fr_stack f = [] @ st" "length st \<le> D" "length (fr_locals f) = length (fn_Locals fn)" "fr_pc f = int (Suc p)"
  have "vm_dispatch h fn (fn_Code fn ! p) f w = step_load_local h fn warn (unat a) f w"
    using assms(1) by (cases warn) (simp_all add: instr_at_def vm_dispatch_def is_binary_def Let_def)
  then show "steps_to (Suc p) st f (vm_dispatch h fn (fn_Code fn ! p) f w) (one (read_local h fn warn (unat a) (fr_locals f) w))"
    using read_local_step[of "unat a" f fn "Suc p" h warn w] f assms by simp
qed (rule keeps_one[OF keeps_read_local])

text \<open>Instructions that go on at the next one: their dispatch is a step to the result.\<close>

lemma run_instr:
  assumes "instr_at fn p opc a b d" "keeps m"
    and "\<And>f w st. fr_stack f = us @ st \<Longrightarrow> length st \<le> D \<Longrightarrow> length (fr_locals f) = length (fn_Locals fn)
      \<Longrightarrow> fr_pc f = int (Suc p) \<Longrightarrow> in_Op (fn_Code fn ! p) = opc \<Longrightarrow> in_A (fn_Code fn ! p) = a
      \<Longrightarrow> in_B (fn_Code fn ! p) = b
      \<Longrightarrow> steps_to (Suc p) st f (vm_dispatch h fn (fn_Code fn ! p) f w) (m (fr_locals f) w)"
  shows "computes h fn p (Suc p) D us m"
  using assms by (intro computes_step) (auto simp: instr_at_def)

lemma run_Pop:
  assumes "instr_at fn p OpPop a b d"
  shows "computes h fn p (Suc p) D [v] (\<lambda>ls w. (Inr [], ls, w))"
  by (rule run_instr[OF assms keeps_ret(1)]) (auto simp: vm_dispatch_def is_binary_def step_defs)

lemma run_binary:
  assumes "instr_at fn p opc a b d" "is_binary opc"
  shows "computes h fn p (Suc p) D [y, x] (\<lambda>ls w. one (of_host (binary_value h opc x y w) ls))"
proof (rule run_instr[OF assms(1)])
  show "keeps (\<lambda>ls w. one (of_host (binary_value h opc x y w) ls))"
    by (rule keeps_one[OF keeps_of_host])
next
  fix f :: "'a frame" and w st
  assume f: "fr_stack f = [y, x] @ st" "fr_pc f = int (Suc p)" "in_Op (fn_Code fn ! p) = opc"
  have "vm_dispatch h fn (fn_Code fn ! p) f w = step_binary h opc f w"
    using assms(2) f(3) by (auto simp: vm_dispatch_def is_binary_def Let_def)
  then show "steps_to (Suc p) st f (vm_dispatch h fn (fn_Code fn ! p) f w)
      (one (of_host (binary_value h opc x y w) (fr_locals f)))"
    using f(1,2)
    by (cases f) (auto simp: step_binary_def binary_value_def of_host_def step_defs
        split: option.splits prod.splits sum.splits)
qed

lemma run_unary:
  assumes "instr_at fn p opc a b d" "opc = OpNeg \<or> opc = OpBitNot \<or> opc = OpNot"
  shows "computes h fn p (Suc p) D [x] (\<lambda>ls w. one (of_host (h_unop h opc x w) ls))"
proof (rule run_instr[OF assms(1)])
  show "keeps (\<lambda>ls w. one (of_host (h_unop h opc x w) ls))"
    by (rule keeps_one[OF keeps_of_host])
next
  fix f :: "'a frame" and w st
  assume f: "fr_stack f = [x] @ st" "fr_pc f = int (Suc p)" "in_Op (fn_Code fn ! p) = opc"
  have "vm_dispatch h fn (fn_Code fn ! p) f w = step_unary h opc f w"
    using assms(2) f(3) by (auto simp: vm_dispatch_def is_binary_def Let_def)
  then show "steps_to (Suc p) st f (vm_dispatch h fn (fn_Code fn ! p) f w)
      (one (of_host (h_unop h opc x w) (fr_locals f)))"
    using f(1,2)
    by (cases f) (auto simp: step_unary_def of_host_def step_defs split: option.splits prod.splits sum.splits)
qed

lemma run_Bool:
  assumes "instr_at fn p OpBool a b d"
  shows "computes h fn p (Suc p) D [v] (\<lambda>ls w. one (as_bool h v ls w))"
proof (rule run_instr[OF assms])
  show "keeps (\<lambda>ls w. one (as_bool h v ls w))"
    by (auto intro!: keeps_one simp: keeps_def as_bool_def split: prod.splits)
next
  fix f :: "'a frame" and w st
  assume "fr_stack f = [v] @ st" "fr_pc f = int (Suc p)" "in_Op (fn_Code fn ! p) = OpBool"
  then show "steps_to (Suc p) st f (vm_dispatch h fn (fn_Code fn ! p) f w) (one (as_bool h v (fr_locals f) w))"
    by (cases f) (auto simp: vm_dispatch_def is_binary_def as_bool_def step_defs split: prod.splits)
qed

text \<open>Stores.\<close>

lemma storeLocal_steps:
  assumes "i < length (fr_locals f)"
  shows "storeLocal h fn i (Some v) f w k =
    (case write_local h fn i v (fr_locals f) w of
       (Inl e, ls, w) \<Rightarrow> (Raised e, f\<lparr>fr_locals := ls\<rparr>, w)
     | (Inr _, ls, w) \<Rightarrow> k (f\<lparr>fr_locals := ls\<rparr>) w)"
  using assms
  by (auto simp: storeLocal_def write_local_def set_slot_def step_defs Let_def split: prod.splits option.splits)

lemma run_StoreLocal:
  assumes "instr_at fn p OpStoreLocal a b d" "unat a < length (fn_Locals fn)"
  shows "computes h fn p (Suc p) D [v] (\<lambda>ls w. none (write_local h fn (unat a) v ls w))"
proof (rule run_instr[OF assms(1) keeps_none[OF keeps_write_local]])
  fix f :: "'a frame" and w st
  assume "fr_stack f = [v] @ st" "length (fr_locals f) = length (fn_Locals fn)" "fr_pc f = int (Suc p)"
    "in_Op (fn_Code fn ! p) = OpStoreLocal" "in_A (fn_Code fn ! p) = a"
  then show "steps_to (Suc p) st f (vm_dispatch h fn (fn_Code fn ! p) f w)
      (none (write_local h fn (unat a) v (fr_locals f) w))"
    using assms(2)
    by (cases f) (auto simp: vm_dispatch_def is_binary_def storeLocal_steps step_defs split: prod.splits sum.splits)
qed

definition keep_local :: "('v, 'w) host \<Rightarrow> func \<Rightarrow> nat \<Rightarrow> 'v \<Rightarrow> ('v, 'w) comp" where
  "keep_local h fn i v ls w =
     (case (if h_IsCached h w v then h_NewZVal h v w else (v, w)) of
        (v, w) \<Rightarrow> bindr (write_local h fn i v ls w) (\<lambda>_ ls w. (Inr v, ls, w)))"

lemma keeps_keep_local: "keeps (keep_local h fn i v)"
proof (rule keepsI)
  fix ls w x ls' w'
  assume "keep_local h fn i v ls w = (x, ls', w')"
  then show "length ls' = length ls"
    using keepsD[OF keeps_write_local]
    by (fastforce simp: keep_local_def bindr_def split: prod.splits sum.splits)
qed

lemma run_StoreLocalKeep:
  assumes "instr_at fn p OpStoreLocalKeep a b d" "unat a < length (fn_Locals fn)"
  shows "computes h fn p (Suc p) D [v] (\<lambda>ls w. one (keep_local h fn (unat a) v ls w))"
proof (rule run_instr[OF assms(1) keeps_one[OF keeps_keep_local]])
  fix f :: "'a frame" and w st
  assume "fr_stack f = [v] @ st" "length (fr_locals f) = length (fn_Locals fn)" "fr_pc f = int (Suc p)"
    "in_Op (fn_Code fn ! p) = OpStoreLocalKeep" "in_A (fn_Code fn ! p) = a"
  then show "steps_to (Suc p) st f (vm_dispatch h fn (fn_Code fn ! p) f w)
      (one (keep_local h fn (unat a) v (fr_locals f) w))"
    using assms(2)
    by (cases f) (auto simp: vm_dispatch_def is_binary_def step_store_keep_def keep_local_def storeLocal_steps step_defs
        split: prod.splits sum.splits)
qed

text \<open>Increments.\<close>

lemma length_set_slot [simp]: "length (fst (snd (set_slot h fn i v ls w))) = length ls"
  using keeps_set_slot[of h fn i v] by (simp add: keeps_iff)

lemma length_write_local [simp]: "length (fst (snd (write_local h fn i v ls w))) = length ls"
  using keeps_write_local[of h fn i v] by (simp add: keeps_iff)

lemma keeps_inc_dec: "keeps (eval_inc_dec h fn i inc post)"
  unfolding keeps_iff eval_inc_dec_def
  by (simp split: prod.split option.split)

definition inc_dec_opcode :: "bool \<Rightarrow> bool \<Rightarrow> 8 word" where
  "inc_dec_opcode inc post =
     (if post then (if inc then OpPostIncLocal else OpPostDecLocal) else (if inc then OpIncLocal else OpDecLocal))"

lemma inc_dec_slow:
  assumes "i < length (fr_locals f)" "length (fr_stack f) < fn_MaxStack fn" "fr_pc f = int p"
    "stepped_int h inc (fr_locals f ! i) w = None"
  shows "steps_to p (fr_stack f) f (incDecLocal h fn i inc post f w) (one (eval_inc_dec h fn i inc post (fr_locals f) w))"
proof -
  let ?cur = "fr_locals f ! i"
  obtain e1 w1 where 1: "(if ?cur = None \<and> fn_Locals fn ! i \<noteq> ''this'' then h_WarnUndef h (fn_Locals fn ! i) w else (None, w)) = (e1, w1)"
    by (rule prod.exhaust)
  obtain v2 w2 where 2: "(case ?cur of Some v \<Rightarrow> (v, w1) | None \<Rightarrow> h_mk h VNull w1) = (v2, w2)"
    by (rule prod.exhaust)
  obtain v3 w3 where 3: "(if h_IsCached h w2 v2 then h_NewZVal h v2 w2 else (v2, w2)) = (v3, w3)"
    by (rule prod.exhaust)
  obtain pre w4 where 4: "(if post then h_Dup h v3 w3 else (v3, w3)) = (pre, w4)"
    by (rule prod.exhaust)
  obtain e5 w5 where 5: "h_DoInc h v3 inc w4 = (e5, w5)"
    by (rule prod.exhaust)
  obtain x6 ls6 w6 where 6: "write_local h fn i v3 (fr_locals f) w5 = (x6, ls6, w6)"
    by (rule prod_cases3)
  have machine: "incDecLocal h fn i inc post f w =
      (case e1 of Some e \<Rightarrow> (Raised e, f, w1)
       | None \<Rightarrow> (case e5 of Some e \<Rightarrow> (Raised e, f, w5)
           | None \<Rightarrow> (case x6 of Inl e \<Rightarrow> (Raised e, f\<lparr>fr_locals := ls6\<rparr>, w6)
               | Inr _ \<Rightarrow> (Running, f\<lparr>fr_locals := ls6, fr_stack := (if post then pre else v3) # fr_stack f\<rparr>, w6))))"
    using assms(1,2) unfolding incDecLocal_def local_at_def unless_def 1
    by (cases e1; cases e5; cases x6) (simp_all add: 2 3 4 5 6 storeLocal_steps raise_def push_def)
  have spec: "eval_inc_dec h fn i inc post (fr_locals f) w =
      (case e1 of Some e \<Rightarrow> (Inl e, fr_locals f, w1)
       | None \<Rightarrow> (case e5 of Some e \<Rightarrow> (Inl e, fr_locals f, w5)
           | None \<Rightarrow> (case x6 of Inl e \<Rightarrow> (Inl e, ls6, w6) | Inr _ \<Rightarrow> (Inr (if post then pre else v3), ls6, w6))))"
    unfolding eval_inc_dec_def assms(4) 1
    by (cases e1; cases e5; cases x6) (simp_all add: 2 3 4 5 6)
  show ?thesis
    unfolding machine spec using assms(3)
    by (cases f) (auto simp: steps_to_def split: option.splits sum.splits)
qed

lemma inc_dec_step:
  assumes "i < length (fr_locals f)" "length (fr_stack f) < fn_MaxStack fn" "fr_pc f = int p"
  shows "steps_to p (fr_stack f) f (step_inc_dec h fn i inc post f w) (one (eval_inc_dec h fn i inc post (fr_locals f) w))"
proof (cases "stepped_int h inc (fr_locals f ! i) w")
  case None
  then have "step_inc_dec h fn i inc post f w = incDecLocal h fn i inc post f w"
    using assms(1) by (auto simp: step_inc_dec_def stepped_int_def local_at_def split: option.splits if_splits)
  then show ?thesis using inc_dec_slow[OF assms None] by simp
next
  case (Some v)
  then obtain c ci where c: "fr_locals f ! i = Some c" "\<not> h_IsRef h w c" "h_int h w c = Some ci"
      "ci \<noteq> (if inc then int64_max_w else min64)" "v = VInt (sint (if inc then ci + 1 else ci - 1))"
    by (auto simp: stepped_int_def split: option.splits if_splits)
  obtain v' w' where mk: "h_mk h v w = (v', w')" by (cases "h_mk h v w") auto
  have "step_inc_dec h fn i inc post f w
      = (let f = set_local i (Some v') f in
         unless (mirror h fn i (Some v') w') f (push fn (if post then the (Some c) else v') f))"
    using assms(1) c mk by (simp add: step_inc_dec_def local_at_def)
  then show ?thesis
    using assms mk Some c(1)
    by (cases f) (auto simp: eval_inc_dec_def set_slot_def step_defs Let_def split: prod.splits option.splits)
qed

lemma run_inc_dec:
  assumes "instr_at fn p (inc_dec_opcode inc post) a b d" "unat a < length (fn_Locals fn)" "D < fn_MaxStack fn"
  shows "computes h fn p (Suc p) D [] (\<lambda>ls w. one (eval_inc_dec h fn (unat a) inc post ls w))"
proof (rule run_instr[OF assms(1) keeps_one[OF keeps_inc_dec]])
  fix f :: "'a frame" and w st
  assume f: "fr_stack f = [] @ st" "length st \<le> D" "length (fr_locals f) = length (fn_Locals fn)" "fr_pc f = int (Suc p)"
    "in_Op (fn_Code fn ! p) = inc_dec_opcode inc post" "in_A (fn_Code fn ! p) = a"
  have "vm_dispatch h fn (fn_Code fn ! p) f w = step_inc_dec h fn (unat a) inc post f w"
    using f(5,6) by (cases inc; cases post) (simp_all add: inc_dec_opcode_def vm_dispatch_def is_binary_def Let_def)
  then show "steps_to (Suc p) st f (vm_dispatch h fn (fn_Code fn ! p) f w)
      (one (eval_inc_dec h fn (unat a) inc post (fr_locals f) w))"
    using inc_dec_step[of "unat a" f fn "Suc p" h inc post w] f assms(2,3) by simp
qed

text \<open>Compound assignment.\<close>

lemma keeps_compound_assign: "keeps (compound_assign h fn i t rhs)"
  unfolding keeps_iff compound_assign_def
  by (simp add: of_host_def split: prod.split option.split)

lemma op_assign_step:
  assumes "i < length (fr_locals f)" "fr_stack f = rhs # st" "fr_pc f = int p"
  shows "steps_to p st f (step_op_assign h fn i t f w) (none (compound_assign h fn i t rhs (fr_locals f) w))"
proof -
  define q where "q = quick_assign h t (fr_locals f ! i) rhs w"
  have q: "(case fr_locals f ! i of
             None \<Rightarrow> None
           | Some c \<Rightarrow>
               if h_IsRef h w c then None
               else if t = T_PLUS_EQUAL then fast_case h OpAdd c rhs w
               else if t = T_CONCAT_EQUAL then fast_case h OpConcat c rhs w
               else None) = q"
    unfolding q_def quick_assign_def by (rule refl)
  show ?thesis
  proof (cases q)
    case (Some v)
    obtain v' w' where mk: "h_mk h v w = (v', w')" by (rule prod.exhaust)
    show ?thesis
      using assms unfolding step_op_assign_def pop_def local_at_def compound_assign_def q_def[symmetric] Some Let_def
      by (auto simp: q Some mk set_slot_def access_defs split: prod.splits option.splits)
  next
    case None
    show ?thesis
    proof (cases "compoundOp t")
      case no: None
      then show ?thesis
        using assms unfolding step_op_assign_def pop_def local_at_def compound_assign_def q_def[symmetric] None Let_def
        by (simp add: q None no access_defs)
    next
      case opc: (Some opc)
      obtain c1 w1 where 1: "(case fr_locals f ! i of Some c \<Rightarrow> (c, w) | None \<Rightarrow> h_mk h VNull w) = (c1, w1)"
        by (rule prod.exhaust)
      obtain c2 w2 where 2: "h_Dup h c1 w1 = (c2, w2)" by (rule prod.exhaust)
      obtain x3 w3 where 3: "h_binop h opc c2 rhs w2 = (x3, w3)" by (rule prod.exhaust)
      show ?thesis
      proof (cases x3)
        case (Inl e)
        then show ?thesis
          using assms unfolding step_op_assign_def pop_def local_at_def compound_assign_def q_def[symmetric] None Let_def
          by (simp add: q None opc 1 2 3 of_host_def access_defs)
      next
        case (Inr v)
        obtain x4 ls4 w4 where 4: "write_local h fn i v (fr_locals f) w3 = (x4, ls4, w4)"
          by (rule prod_cases3)
        show ?thesis
          using assms 4 unfolding step_op_assign_def pop_def local_at_def compound_assign_def q_def[symmetric] None Let_def
          by (cases x4) (simp_all add: q None opc 1 2 3 Inr of_host_def access_defs storeLocal_steps)
      qed
    qed
  qed
qed

lemma run_OpAssign:
  assumes "instr_at fn p OpOpAssignLocal a b d" "unat a < length (fn_Locals fn)"
  shows "computes h fn p (Suc p) D [v] (\<lambda>ls w. none (compound_assign h fn (unat a) (uint b) v ls w))"
proof (rule run_instr[OF assms(1) keeps_none[OF keeps_compound_assign]])
  fix f :: "'a frame" and w st
  assume f: "fr_stack f = [v] @ st" "length (fr_locals f) = length (fn_Locals fn)" "fr_pc f = int (Suc p)"
    "in_Op (fn_Code fn ! p) = OpOpAssignLocal" "in_A (fn_Code fn ! p) = a" "in_B (fn_Code fn ! p) = b"
  have "vm_dispatch h fn (fn_Code fn ! p) f w = step_op_assign h fn (unat a) (uint b) f w"
    using f(4-6) by (simp add: vm_dispatch_def is_binary_def Let_def)
  then show "steps_to (Suc p) st f (vm_dispatch h fn (fn_Code fn ! p) f w)
      (none (compound_assign h fn (unat a) (uint b) v (fr_locals f) w))"
    using op_assign_step[of "unat a" f v st "Suc p"] f assms(2) by simp
qed

text \<open>Calls.\<close>

lemma pop_args_rev: "pop_args (length vs) args (rev vs @ st) = Some (vs @ args, st)"
proof (induction vs arbitrary: args rule: rev_induct)
  case Nil
  then show ?case by simp
next
  case (snoc v vs)
  then show ?case using snoc[of "v # args"] by simp
qed

lemma run_Call:
  assumes "instr_at fn p OpCallUser a b d" "unat a < length (fn_Consts fn)" "fn_Consts fn ! unat a = VString name"
    "length vs = unat b" "D < fn_MaxStack fn"
  shows "computes h fn p (Suc p) D (rev vs) (\<lambda>ls w. one (of_host (h_Call h name vs w) ls))"
proof (rule run_instr[OF assms(1) keeps_one[OF keeps_of_host]])
  fix f :: "'a frame" and w st
  assume f: "fr_stack f = rev vs @ st" "length st \<le> D" "fr_pc f = int (Suc p)"
    "in_Op (fn_Code fn ! p) = OpCallUser" "in_A (fn_Code fn ! p) = a" "in_B (fn_Code fn ! p) = b"
  have p: "pop_args (unat b) [] (fr_stack f) = Some (vs, st)"
    using pop_args_rev[of vs "[]" st] assms(4) f(1) by simp
  have "vm_dispatch h fn (fn_Code fn ! p) f w = step_call h fn name (unat b) f w"
    using f(4-6) assms(2,3) by (simp add: vm_dispatch_def is_binary_def Let_def const_at_def)
  then show "steps_to (Suc p) st f (vm_dispatch h fn (fn_Code fn ! p) f w) (one (of_host (h_Call h name vs w) (fr_locals f)))"
    using f assms(5) p
    by (cases f) (auto simp: step_call_def of_host_def step_defs split: prod.splits sum.splits)
qed

section \<open>Jumps\<close>

lemma run_branch:
  assumes "p < length (fn_Code fn)"
    and step: "\<And>f w st. fr_stack f = us @ st \<Longrightarrow> fr_pc f = int (Suc p) \<Longrightarrow>
       vm_dispatch h fn (fn_Code fn ! p) f w =
       (case g w of (b, w) \<Rightarrow> (Running, f\<lparr>fr_pc := int (if b then t else Suc p), fr_stack := us' @ st\<rparr>, w))"
    and "computes h fn t q D us' mt" "(\<exists>w. \<not> fst (g w)) \<Longrightarrow> computes h fn (Suc p) q D us' mf" "p \<le> t"
  shows "computes h fn p q D us (\<lambda>ls w. case g w of (b, w) \<Rightarrow> if b then mt ls w else mf ls w)"
proof (rule computesI)
  fix f :: "'a frame" and w st
  assume f: "fr_pc f = int p" "fr_stack f = us @ st" "length st \<le> D" "length (fr_locals f) = length (fn_Locals fn)"
  obtain b w1 where g: "g w = (b, w1)" by (cases "g w") auto
  let ?t = "if b then t else Suc p"
  let ?m = "if b then mt else mf"
  let ?f = "f\<lparr>fr_pc := int ?t, fr_stack := us' @ st\<rparr>"
  have "vm_step h fn f w = (Running, ?f, w1)"
    using step[of "goto (int (Suc p)) f" st w] vm_step_at[OF assms(1) f(1), of h w] f(2) g
    by (simp add: goto_def)
  then have e: "vm_exec h fn None f w = vm_exec h fn None ?f w1"
    by (subst vm_exec_step) simp
  have "computes h fn ?t q D us' ?m" using assms(3,4) g by (cases b) (simp_all, metis fst_conv)
  from this[unfolded computes_def, rule_format, of ?f st w1] f(3,4)
  have r: "case ?m (fr_locals f) w1 of
           (Inr vs, ls, w') \<Rightarrow>
             length ls = length (fn_Locals fn)
             \<and> vm_exec h fn None ?f w1
               = vm_exec h fn None (?f\<lparr>fr_pc := int q, fr_stack := vs @ st, fr_locals := ls\<rparr>) w'
         | (Inl e, ls, w') \<Rightarrow>
             (\<exists>f'. vm_exec h fn None ?f w1 = vm_exec h fn (Some e) f' w' \<and> raised_at fn ?t q st ls ?f f')"
    by simp
  have w: "raised_at fn ?t q st ls ?f f' \<Longrightarrow> raised_at fn p q st ls f f'" for ls f'
    using assms(5) by (auto simp: raised_at_def split: if_splits)
  have g': "(case g w of (b, w) \<Rightarrow> if b then mt (fr_locals f) w else mf (fr_locals f) w) = ?m (fr_locals f) w1"
    by (simp add: g)
  obtain x ls w2 where m: "?m (fr_locals f) w1 = (x, ls, w2)" by (rule prod_cases3)
  show "case (case g w of (b, w) \<Rightarrow> if b then mt (fr_locals f) w else mf (fr_locals f) w) of
           (Inr vs, ls, w') \<Rightarrow>
             length ls = length (fn_Locals fn)
             \<and> vm_exec h fn None f w
               = vm_exec h fn None (f\<lparr>fr_pc := int q, fr_stack := vs @ st, fr_locals := ls\<rparr>) w'
         | (Inl e, ls, w') \<Rightarrow>
             (\<exists>f'. vm_exec h fn None f w = vm_exec h fn (Some e) f' w' \<and> raised_at fn p q st ls f f')"
    using r w unfolding g' m e by (cases x) auto
qed

text \<open>The displacement of a jump from \<open>p\<close> to \<open>t\<close>.\<close>

definition disp :: "nat \<Rightarrow> nat \<Rightarrow> int" where
  "disp p t = int t - int p - 1"

lemma disp_jump: "int (Suc p) + disp p t = int t"
  by (simp add: disp_def)

lemma run_Jmp:
  assumes "instr_at fn p OpJmp a b (disp p t)" "computes h fn t q D us m" "p \<le> t"
  shows "computes h fn p q D us m"
proof -
  have "computes h fn p q D us (\<lambda>ls w. case (\<lambda>w. (True, w)) w of (b, w) \<Rightarrow> if b then m ls w else m ls w)"
  proof (rule run_branch[of p fn])
    show "p < length (fn_Code fn)" using assms(1) by (simp add: instr_at_def)
  next
    fix f :: "'a frame" and w st
    assume "fr_stack f = us @ st" "fr_pc f = int (Suc p)"
    then show "vm_dispatch h fn (fn_Code fn ! p) f w =
       (case (\<lambda>w. (True, w)) w of (b, w) \<Rightarrow> (Running, f\<lparr>fr_pc := int (if b then t else Suc p), fr_stack := us @ st\<rparr>, w))"
      using assms(1) disp_jump[of p t]
      by (cases f) (auto simp: instr_at_def vm_dispatch_def is_binary_def goto_def)
  qed (use assms in simp_all)
  then show ?thesis by simp
qed

text \<open>The conditional jumps: \<open>mt\<close> runs at the target, \<open>mf\<close> at the next instruction. The popping ones
  test and drop the top, the peeking ones leave it.\<close>

lemma run_JmpIfFalse:
  assumes "instr_at fn p OpJmpIfFalse a b (disp p t)" "computes h fn (Suc p) q D [] mt" "computes h fn t q D [] mf"
    "p \<le> t"
  shows "computes h fn p q D [v] (\<lambda>ls w. case truth h v w of (b, w) \<Rightarrow> if b then mt ls w else mf ls w)"
proof -
  have "computes h fn p q D [v]
     (\<lambda>ls w. case (\<lambda>w. case truth h v w of (b, w) \<Rightarrow> (\<not> b, w)) w of (b, w) \<Rightarrow> if b then mf ls w else mt ls w)"
  proof (rule run_branch[where t = t and us' = "[]"])
    show "p < length (fn_Code fn)" using assms(1) by (simp add: instr_at_def)
  next
    fix f :: "'a frame" and w st
    assume "fr_stack f = [v] @ st" "fr_pc f = int (Suc p)"
    then show "vm_dispatch h fn (fn_Code fn ! p) f w =
       (case (case truth h v w of (b, w) \<Rightarrow> (\<not> b, w)) of (b, w) \<Rightarrow>
         (Running, f\<lparr>fr_pc := int (if b then t else Suc p), fr_stack := [] @ st\<rparr>, w))"
      using assms(1) disp_jump[of p t]
      by (cases f) (auto simp: instr_at_def vm_dispatch_def is_binary_def goto_def jump_if_def pop_def split: prod.splits)
  qed (use assms in simp_all)
  moreover have "(\<lambda>ls w. case (\<lambda>w. case truth h v w of (b, w) \<Rightarrow> (\<not> b, w)) w of (b, w) \<Rightarrow> if b then mf ls w else mt ls w)
      = (\<lambda>ls w. case truth h v w of (b, w) \<Rightarrow> if b then mt ls w else mf ls w)"
    by (simp add: fun_eq_iff split: prod.splits)
  ultimately show ?thesis by simp
qed

lemma run_JmpIfTrue:
  assumes "instr_at fn p OpJmpIfTrue a b (disp p t)" "computes h fn t q D [] mt" "computes h fn (Suc p) q D [] mf"
    "p \<le> t"
  shows "computes h fn p q D [v] (\<lambda>ls w. case truth h v w of (b, w) \<Rightarrow> if b then mt ls w else mf ls w)"
proof (rule run_branch[where t = t and us' = "[]"])
  show "p < length (fn_Code fn)" using assms(1) by (simp add: instr_at_def)
next
  fix f :: "'a frame" and w st
  assume "fr_stack f = [v] @ st" "fr_pc f = int (Suc p)"
  then show "vm_dispatch h fn (fn_Code fn ! p) f w =
     (case truth h v w of (b, w) \<Rightarrow>
       (Running, f\<lparr>fr_pc := int (if b then t else Suc p), fr_stack := [] @ st\<rparr>, w))"
    using assms(1) disp_jump[of p t]
    by (cases f) (auto simp: instr_at_def vm_dispatch_def is_binary_def goto_def jump_if_def pop_def split: prod.splits)
qed (use assms in simp_all)

text \<open>The test of a peeking jump and whether it jumps.\<close>

definition peek_test :: "('v, 'w) host \<Rightarrow> 8 word \<Rightarrow> 'v \<Rightarrow> 'w \<Rightarrow> bool \<times> 'w" where
  "peek_test h opc v w =
     (if opc = OpJmpIfFalsePeek then (case truth h v w of (b, w) \<Rightarrow> (\<not> b, w))
      else if opc = OpJmpIfTruePeek then h_AsBool h v w
      else (\<not> h_IsNull h w v, w))"

lemma run_peek:
  assumes "instr_at fn p opc a b (disp p t)" "opc \<in> {OpJmpIfFalsePeek, OpJmpIfTruePeek, OpJmpIfNotNullPeek}"
    "computes h fn t q D [v] mt" "computes h fn (Suc p) q D [v] mf" "p \<le> t"
  shows "computes h fn p q D [v] (\<lambda>ls w. case peek_test h opc v w of (b, w) \<Rightarrow> if b then mt ls w else mf ls w)"
proof (rule run_branch[where t = t and us' = "[v]"])
  show "p < length (fn_Code fn)" using assms(1) by (simp add: instr_at_def)
next
  fix f :: "'a frame" and w st
  assume "fr_stack f = [v] @ st" "fr_pc f = int (Suc p)"
  moreover have "opc = OpJmpIfFalsePeek \<or> opc = OpJmpIfTruePeek \<or> opc = OpJmpIfNotNullPeek" using assms(2) by simp
  ultimately show "vm_dispatch h fn (fn_Code fn ! p) f w =
     (case peek_test h opc v w of (b, w) \<Rightarrow>
       (Running, f\<lparr>fr_pc := int (if b then t else Suc p), fr_stack := [v] @ st\<rparr>, w))"
    using assms(1) disp_jump[of p t]
    by (elim disjE; cases f)
      (auto simp: instr_at_def vm_dispatch_def is_binary_def goto_def jump_if_def peek_def peek_test_def split: prod.splits)
qed (use assms in simp_all)

end
