(* ===== verification/VmCorrect.thy ===== *)
theory VmCorrect
  imports VmRuns
begin

text \<open>
  The emitter against \<open>VmEval\<close>: \<open>emits\<close> says of a part of the emitter that the code it appends, wherever
  the rest of the function goes, computes a given meaning; the parts of an expression are put
  together as the emitter puts them together.
\<close>

section \<open>States of the emitter\<close>

text \<open>Few enough constants and variables for 16-bit indices.\<close>

definition small :: "emitter \<Rightarrow> bool" where
  "small e = (length (em_consts e) \<le> 65536 \<and> length (em_locals e) \<le> 65536)"

text \<open>Indices in use name their constants and variables; the simulated stack is within its bound.\<close>

definition tables_ok :: "emitter \<Rightarrow> bool" where
  "tables_ok e =
     ((\<forall>v i. map_of (em_constMap e) v = Some i \<longrightarrow> unat i < length (em_consts e) \<and> em_consts e ! unat i = v)
      \<and> (\<forall>x i. map_of (em_localMap e) x = Some i \<longrightarrow> unat i < length (em_locals e) \<and> em_locals e ! unat i = x)
      \<and> (\<forall>x\<in>set (em_locals e). map_of (em_localMap e) x \<noteq> None) \<and> distinct (em_locals e))"

definition wf_em :: "emitter \<Rightarrow> bool" where
  "wf_em e = ((small e \<longrightarrow> tables_ok e) \<and> 0 \<le> em_curStack e \<and> em_curStack e \<le> em_maxStack e)"

definition grown :: "emitter \<Rightarrow> emitter \<Rightarrow> bool" where
  "grown e e' =
     (prefix (em_code e) (em_code e') \<and> prefix (em_consts e) (em_consts e') \<and> prefix (em_locals e) (em_locals e')
      \<and> em_maxStack e \<le> em_maxStack e' \<and> em_stmtCtx e' = em_stmtCtx e \<and> em_loops e' = em_loops e
      \<and> em_locs e' = em_locs e \<and> em_tryHandlers e' = em_tryHandlers e \<and> em_finallyLoopDepths e' = em_finallyLoopDepths e)"

text \<open>What was appended between two states is in place in \<open>fn\<close>, which has the tables they used.\<close>

definition linked :: "func \<Rightarrow> emitter \<Rightarrow> emitter \<Rightarrow> bool" where
  "linked fn e e' =
     (frag fn (here e) (drop (here e) (em_code e')) \<and> prefix (em_consts e') (fn_Consts fn)
      \<and> prefix (em_locals e') (fn_Locals fn) \<and> distinct (fn_Locals fn)
      \<and> length (fn_Consts fn) \<le> 65536 \<and> length (fn_Locals fn) \<le> 65536
      \<and> em_maxStack e' \<le> int (fn_MaxStack fn) \<and> here e' < 2 ^ 31)"

lemma grown_refl [simp]: "grown e e"
  by (simp add: grown_def)

lemma grown_trans: "grown e e1 \<Longrightarrow> grown e1 e2 \<Longrightarrow> grown e e2"
  by (auto simp: grown_def intro: prefix_order.trans)

lemma small_grown: "grown e e' \<Longrightarrow> small e' \<Longrightarrow> small e"
  by (auto simp: grown_def small_def dest: prefix_length_le)

lemma here_grown: "grown e e' \<Longrightarrow> here e \<le> here e'"
  by (simp add: grown_def here_def prefix_length_le)

lemma linked_small: "linked fn e e' \<Longrightarrow> small e'"
  by (auto simp: linked_def small_def dest!: prefix_length_le)

lemma linked_split:
  assumes "linked fn e e2" "grown e e1" "grown e1 e2"
  shows "linked fn e e1" and "linked fn e1 e2"
proof -
  obtain n1 n2 where c: "em_code e1 = em_code e @ n1" "em_code e2 = em_code e @ n1 @ n2"
    using assms(2,3) by (auto simp: grown_def prefix_def)
  have f: "frag fn (here e) n1" "frag fn (here e + length n1) n2"
    using assms(1) c by (simp_all add: linked_def here_def frag_append)
  have p: "prefix (em_consts e1) (fn_Consts fn)" "prefix (em_locals e1) (fn_Locals fn)"
    using assms(1,3) by (auto simp: linked_def grown_def intro: prefix_order.trans)
  show "linked fn e e1" "linked fn e1 e2"
    using f p c assms by (auto simp: linked_def grown_def here_def)
qed

section \<open>Meaning of a part\<close>

type_synonym ('v, 'w) meaning = "func \<Rightarrow> 'v list \<Rightarrow> 'v option list \<Rightarrow> 'w \<Rightarrow> ('v, 'w, 'v list) result"

text \<open>From \<open>e\<close> to \<open>e'\<close> code was appended that takes \<open>n\<close> values from the stack and leaves \<open>m\<close>, in
  functions that satisfy \<open>P\<close>.\<close>

definition means ::
  "(func \<Rightarrow> bool) \<Rightarrow> ('v, 'w) host \<Rightarrow> nat \<Rightarrow> nat \<Rightarrow> emitter \<Rightarrow> emitter \<Rightarrow> ('v, 'w) meaning \<Rightarrow> bool" where
  "means P h n m e e' M =
     (grown e e' \<and> wf_em e' \<and> em_curStack e' = em_curStack e - int n + int m
      \<and> (\<forall>fn us. linked fn e e' \<longrightarrow> P fn \<longrightarrow> length us = n \<longrightarrow>
           computes h fn (here e) (here e') (nat (em_curStack e - int n)) us (M fn us)
           \<and> (\<forall>ls w vs ls' w'. M fn us ls w = (Inr vs, ls', w') \<longrightarrow> length vs = m)))"

lemma means_computes:
  "means P h n m e e' M \<Longrightarrow> linked fn e e' \<Longrightarrow> P fn \<Longrightarrow> length us = n
     \<Longrightarrow> computes h fn (here e) (here e') (nat (em_curStack e - int n)) us (M fn us)"
  by (simp add: means_def)

lemma means_out:
  "means P h n m e e' M \<Longrightarrow> linked fn e e' \<Longrightarrow> P fn \<Longrightarrow> length us = n \<Longrightarrow> M fn us ls w = (Inr vs, ls', w')
     \<Longrightarrow> length vs = m"
  unfolding means_def by blast

definition emits ::
  "(func \<Rightarrow> bool) \<Rightarrow> bool \<Rightarrow> ('v, 'w) host \<Rightarrow> nat \<Rightarrow> nat \<Rightarrow> (emitter \<Rightarrow> emitted) \<Rightarrow> ('v, 'w) meaning \<Rightarrow> bool" where
  "emits P st h n m k M =
     (\<forall>e e'. k e = EOk e' \<longrightarrow> wf_em e \<longrightarrow> em_stmtCtx e = st \<longrightarrow> int n \<le> em_curStack e \<longrightarrow> means P h n m e e' M)"

lemma emitsI:
  "(\<And>e e'. k e = EOk e' \<Longrightarrow> wf_em e \<Longrightarrow> em_stmtCtx e = st \<Longrightarrow> int n \<le> em_curStack e
     \<Longrightarrow> means P h n m e e' M) \<Longrightarrow> emits P st h n m k M"
  by (simp add: emits_def)

lemma emitsD:
  "emits P st h n m k M \<Longrightarrow> k e = EOk e' \<Longrightarrow> wf_em e \<Longrightarrow> em_stmtCtx e = st \<Longrightarrow> int n \<le> em_curStack e
     \<Longrightarrow> means P h n m e e' M"
  by (simp add: emits_def)

lemma e_then_EOk: "e_then r k = EOk e' \<longleftrightarrow> (\<exists>e1. r = EOk e1 \<and> k e1 = EOk e')"
  by (simp add: e_then_def split: emitted.splits)

lemma e_then_assoc: "e_then (e_then r k) k' = e_then r (\<lambda>e. e_then (k e) k')"
  by (simp add: e_then_def split: emitted.splits)

lemma e_then_EOk_right [simp]: "e_then r EOk = r"
  by (simp add: e_then_def split: emitted.splits)

lemma seq_append: "seq (xs @ ys) e = e_then (seq xs e) (seq ys)"
proof (induction xs arbitrary: e)
  case Nil
  show ?case by (simp add: e_then_def)
next
  case (Cons k ks)
  then show ?case by (simp add: e_then_assoc[of "k e"] fun_eq_iff e_then_def split: emitted.splits)
qed

definition also_then :: "('v, 'w) meaning \<Rightarrow> ('v, 'w) meaning \<Rightarrow> ('v, 'w) meaning" where
  "also_then M1 M2 = (\<lambda>fn us ls w. bindr (M1 fn us ls w) (M2 fn))"

lemma means_trans:
  assumes "means P h n m e e1 M1" "means P h m l e1 e2 M2"
  shows "means P h n l e e2 (also_then M1 M2)"
  unfolding means_def
proof (intro conjI allI impI)
  have g: "grown e e1" "grown e1 e2" using assms by (simp_all add: means_def)
  then show "grown e e2" by (rule grown_trans)
  show "wf_em e2" "em_curStack e2 = em_curStack e - int n + int l" using assms by (simp_all add: means_def)
  fix fn and us :: "'a list"
  assume l: "linked fn e e2" "P fn" "length us = n"
  note l12 = linked_split[OF l(1) g]
  have c1: "computes h fn (here e) (here e1) (nat (em_curStack e - int n)) us (M1 fn us)"
    and o1: "\<And>ls w vs ls' w'. M1 fn us ls w = (Inr vs, ls', w') \<Longrightarrow> length vs = m"
    using assms(1) l12(1) l(2,3) unfolding means_def by blast+
  have d: "em_curStack e1 - int m = em_curStack e - int n" using assms(1) by (simp add: means_def)
  have c2: "computes h fn (here e1) (here e2) (nat (em_curStack e - int n)) vs (M2 fn vs)"
    and o2: "\<And>ls w vs' ls' w'. M2 fn vs ls w = (Inr vs', ls', w') \<Longrightarrow> length vs' = l" if "length vs = m" for vs
    using assms(2) l12(2) l(2) that unfolding means_def d by blast+
  show "computes h fn (here e) (here e2) (nat (em_curStack e - int n)) us (also_then M1 M2 fn us)"
    unfolding also_then_def
    by (rule computes_bind[OF c1 c2[OF o1] here_grown[OF g(1)] here_grown[OF g(2)]])
  fix ls w vs ls' w'
  assume "also_then M1 M2 fn us ls w = (Inr vs, ls', w')"
  then show "length vs = l"
    unfolding also_then_def bindr_def by (auto split: prod.splits sum.splits dest: o1 o2[rotated])
qed

lemma emits_then:
  assumes "emits P st h n m k1 M1" "emits P st h m l k2 M2"
  shows "emits P st h n l (\<lambda>e. e_then (k1 e) k2) (also_then M1 M2)"
proof (rule emitsI)
  fix e e'
  assume a: "e_then (k1 e) k2 = EOk e'" "wf_em e" "em_stmtCtx e = st" "int n \<le> em_curStack e"
  then obtain e1 where e1: "k1 e = EOk e1" "k2 e1 = EOk e'" by (auto simp: e_then_EOk)
  have 1: "means P h n m e e1 M1" by (rule emitsD[OF assms(1) e1(1) a(2-4)])
  then have "wf_em e1" "em_stmtCtx e1 = st" "int m \<le> em_curStack e1"
    using a(3,4) by (simp_all add: means_def grown_def)
  from means_trans[OF 1 emitsD[OF assms(2) e1(2) this]]
  show "means P h n l e e' (also_then M1 M2)" .
qed

lemma emits_weaken:
  assumes "emits P st h n m k M" "\<And>fn. Q fn \<Longrightarrow> P fn" "\<And>fn us. Q fn \<Longrightarrow> length us = n \<Longrightarrow> M fn us = M' fn us"
  shows "emits Q st h n m k M'"
proof (rule emitsI)
  fix e e'
  assume a: "k e = EOk e'" "wf_em e" "em_stmtCtx e = st" "int n \<le> em_curStack e"
  have "means P h n m e e' M" by (rule emitsD[OF assms(1) a])
  then show "means Q h n m e e' M'" using assms(2,3) unfolding means_def by metis
qed

lemma emits_subexpr:
  assumes "emits P False h n m k M"
  shows "emits P st h n m (subexpr k) M"
proof (rule emitsI)
  fix e e'
  assume a: "subexpr k e = EOk e'" "wf_em e" "em_stmtCtx e = st" "int n \<le> em_curStack e"
  let ?e = "e\<lparr>em_stmtCtx := False\<rparr>"
  obtain e1 where e1: "k ?e = EOk e1" "e' = e1\<lparr>em_stmtCtx := em_stmtCtx e\<rparr>"
    using a(1) by (auto simp: subexpr_def e_then_EOk)
  have "means P h n m ?e e1 M"
    using a by (intro emitsD[OF assms e1(1)]) (simp_all add: wf_em_def small_def tables_ok_def)
  moreover have "linked fn e e' = linked fn ?e e1" for fn by (simp add: e1(2) linked_def here_def)
  moreover have "here ?e = here e" "here e' = here e1" by (simp_all add: e1(2) here_def)
  moreover have "grown ?e e1 \<Longrightarrow> grown e e'" "wf_em e1 = wf_em e'"
    by (simp_all add: e1(2) grown_def wf_em_def small_def tables_ok_def)
  ultimately show "means P h n m e e' M"
    unfolding means_def by (simp add: e1(2))
qed

section \<open>Instructions\<close>

lemma emit_EOk:
  "emit opc a b c e = EOk e' \<longleftrightarrow> (\<exists>i. Encode opc a b c = Some i \<and> e' = e\<lparr>em_code := em_code e @ [i]\<rparr>)"
  by (auto simp: emit_def split: option.splits)

lemma encoded_at:
  assumes "Encode opc a b c = Some i" "p < length (fn_Code fn)" "fn_Code fn ! p = i"
  shows "instr_at fn p opc a b (sint c)"
  using encode_fields[OF assms(1)] encode_C[OF assms(1)] assms(2,3) by (simp add: instr_at_def)

text \<open>An instruction, and the change of the simulated stack that goes with it.\<close>

lemma means_instr:
  assumes e: "wf_em e" "int n \<le> em_curStack e"
    and e': "Encode opc a b c = Some i" "em_code e' = em_code e @ [i]" "em_consts e' = em_consts e"
      "em_locals e' = em_locals e" "tables_ok e' = tables_ok e" "em_curStack e' = em_curStack e - int n + int m"
      "em_maxStack e \<le> em_maxStack e'" "em_curStack e' \<le> em_maxStack e'" "grown e e'"
    and run: "\<And>fn us p D. P fn \<Longrightarrow> instr_at fn p opc a b (sint c) \<Longrightarrow> length us = n \<Longrightarrow> D + m \<le> fn_MaxStack fn
       \<Longrightarrow> computes h fn p (Suc p) D us (M fn us)"
    and out: "\<And>fn us ls w vs ls' w'. P fn \<Longrightarrow> length us = n \<Longrightarrow> M fn us ls w = (Inr vs, ls', w') \<Longrightarrow> length vs = m"
  shows "means P h n m e e' M"
  unfolding means_def
proof (intro conjI allI impI)
  show "grown e e'" "em_curStack e' = em_curStack e - int n + int m" using e' by simp_all
  show "wf_em e'" using e e' by (simp add: wf_em_def small_def)
  fix fn and us :: "'a list"
  assume l: "linked fn e e'" "P fn" "length us = n"
  have "instr_at fn (here e) opc a b (sint c)"
    using l(1) e'(1,2) by (intro encoded_at) (auto simp: linked_def here_def frag_Cons)
  moreover have "nat (em_curStack e - int n) + m \<le> fn_MaxStack fn"
    using l(1) e(2) e'(6,8) unfolding linked_def by linarith
  moreover have "here e' = Suc (here e)" using e'(2) by (simp add: here_def)
  ultimately show "computes h fn (here e) (here e') (nat (em_curStack e - int n)) us (M fn us)"
    using run[OF l(2) _ l(3)] by simp
  fix ls w vs ls' w'
  assume "M fn us ls w = (Inr vs, ls', w')"
  then show "length vs = m" by (rule out[OF l(2,3)])
qed

lemma emits_instr:
  assumes run: "\<And>fn us p D. P fn \<Longrightarrow> instr_at fn p opc a b (sint c) \<Longrightarrow> length us = n \<Longrightarrow> D + m \<le> fn_MaxStack fn
       \<Longrightarrow> computes h fn p (Suc p) D us (M fn us)"
    and out: "\<And>fn us ls w vs ls' w'. P fn \<Longrightarrow> length us = n \<Longrightarrow> M fn us ls w = (Inr vs, ls', w') \<Longrightarrow> length vs = m"
  shows "n = m \<Longrightarrow> emits P st h n m (emit opc a b c) M"
    and "n = m + j \<Longrightarrow> emits P st h n m (\<lambda>e. e_then (emit opc a b c e) (popStack j)) M"
    and "m = n + j \<Longrightarrow> emits P st h n m (\<lambda>e. e_then (emit opc a b c e) (pushStack j)) M"
proof -
  assume nm: "n = m"
  show "emits P st h n m (emit opc a b c) M"
  proof (rule emitsI)
    fix e e'
    assume a: "emit opc a b c e = EOk e'" "wf_em e" "int n \<le> em_curStack e"
    then obtain i where i: "Encode opc a b c = Some i" "e' = e\<lparr>em_code := em_code e @ [i]\<rparr>"
      by (auto simp: emit_EOk)
    show "means P h n m e e' M"
      using a nm by (intro means_instr[OF a(2,3) i(1)] run out)
        (auto simp: i(2) wf_em_def tables_ok_def grown_def)
  qed
next
  assume nm: "n = m + j"
  show "emits P st h n m (\<lambda>e. e_then (emit opc a b c e) (popStack j)) M"
  proof (rule emitsI)
    fix e e'
    assume a: "e_then (emit opc a b c e) (popStack j) = EOk e'" "wf_em e" "int n \<le> em_curStack e"
    then obtain i where i: "Encode opc a b c = Some i"
        "e' = e\<lparr>em_code := em_code e @ [i], em_curStack := em_curStack e - int j\<rparr>"
      by (auto simp: emit_EOk e_then_EOk popStack_def Let_def split: if_splits)
    show "means P h n m e e' M"
      using a nm by (intro means_instr[OF a(2,3) i(1)] run out)
        (auto simp: i(2) wf_em_def tables_ok_def grown_def)
  qed
next
  assume nm: "m = n + j"
  show "emits P st h n m (\<lambda>e. e_then (emit opc a b c e) (pushStack j)) M"
  proof (rule emitsI)
    fix e e'
    assume a: "e_then (emit opc a b c e) (pushStack j) = EOk e'" "wf_em e" "int n \<le> em_curStack e"
    then obtain i where i: "Encode opc a b c = Some i"
        "e' = e\<lparr>em_code := em_code e @ [i], em_curStack := em_curStack e + int j,
          em_maxStack := max (em_curStack e + int j) (em_maxStack e)\<rparr>"
      by (auto simp: emit_EOk e_then_EOk pushStack_def Let_def)
    show "means P h n m e e' M"
      using a nm by (intro means_instr[OF a(2,3) i(1)] run out)
        (auto simp: i(2) wf_em_def tables_ok_def grown_def)
  qed
qed

section \<open>Constants and variables\<close>

lemma means_prepared:
  assumes "grown e e0" "em_code e0 = em_code e" "em_curStack e0 = em_curStack e" "means P h n m e0 e' M"
    and "\<And>fn. Q fn \<Longrightarrow> linked fn e0 e' \<Longrightarrow> P fn"
  shows "means Q h n m e e' M"
proof -
  have l: "linked fn e0 e'" if "linked fn e e'" for fn
    using that assms(2) by (simp add: linked_def here_def)
  have "here e0 = here e" using assms(2) by (simp add: here_def)
  then show ?thesis
    using assms(4) l assms(5) grown_trans[OF assms(1)] unfolding means_def assms(3) by metis
qed

lemma unat_index: "n < 65536 \<Longrightarrow> unat (of_nat n :: 16 word) = n"
  by (simp add: unat_of_nat take_bit_nat_eq_self)

lemma constIndex_ok:
  assumes "constIndex v e = (i, e0)" "wf_em e"
  shows "grown e e0" "em_code e0 = em_code e" "em_curStack e0 = em_curStack e" "wf_em e0" "em_stmtCtx e0 = em_stmtCtx e"
    and "small e0 \<Longrightarrow> unat i < length (em_consts e0) \<and> em_consts e0 ! unat i = v"
proof -
  show "grown e e0" "em_code e0 = em_code e" "em_curStack e0 = em_curStack e" "em_stmtCtx e0 = em_stmtCtx e"
    using assms(1) by (auto simp: constIndex_def grown_def Let_def split: option.splits)
  have *: "tables_ok e0 \<and> unat i < length (em_consts e0) \<and> em_consts e0 ! unat i = v" if s: "small e0"
  proof (cases "map_of (em_constMap e) v")
    case (Some j)
    then show ?thesis using assms s by (auto simp: constIndex_def wf_em_def tables_ok_def)
  next
    case None
    then have e0: "i = of_nat (length (em_consts e))"
        "e0 = e\<lparr>em_consts := em_consts e @ [v], em_constMap := (v, i) # em_constMap e\<rparr>"
      using assms(1) by (auto simp: constIndex_def Let_def)
    have u: "unat i = length (em_consts e)" using s e0 unat_index by (simp add: small_def)
    have "tables_ok e" using assms(2) s e0(2) by (simp add: wf_em_def small_def)
    then show ?thesis using u by (auto simp: e0(2) tables_ok_def nth_append dest: less_SucI)
  qed
  then show "wf_em e0" and "small e0 \<Longrightarrow> unat i < length (em_consts e0) \<and> em_consts e0 ! unat i = v"
    using assms by (auto simp: wf_em_def constIndex_def Let_def split: option.splits)
qed

lemma localIndex_ok:
  assumes "localIndex x e = (i, e0)" "wf_em e"
  shows "grown e e0" "em_code e0 = em_code e" "em_curStack e0 = em_curStack e" "wf_em e0" "em_stmtCtx e0 = em_stmtCtx e"
    and "small e0 \<Longrightarrow> unat i < length (em_locals e0) \<and> em_locals e0 ! unat i = x"
proof -
  show "grown e e0" "em_code e0 = em_code e" "em_curStack e0 = em_curStack e" "em_stmtCtx e0 = em_stmtCtx e"
    using assms(1) by (auto simp: localIndex_def grown_def Let_def split: option.splits)
  have *: "tables_ok e0 \<and> unat i < length (em_locals e0) \<and> em_locals e0 ! unat i = x" if s: "small e0"
  proof (cases "map_of (em_localMap e) x")
    case (Some j)
    then show ?thesis using assms s by (auto simp: localIndex_def wf_em_def tables_ok_def)
  next
    case None
    then have e0: "i = of_nat (length (em_locals e))"
        "e0 = e\<lparr>em_locals := em_locals e @ [x], em_localMap := (x, i) # em_localMap e\<rparr>"
      using assms(1) by (auto simp: localIndex_def Let_def)
    have u: "unat i = length (em_locals e)" using s e0 unat_index by (simp add: small_def)
    have "tables_ok e" using assms(2) s e0(2) by (simp add: wf_em_def small_def)
    then show ?thesis using u None by (fastforce simp: e0(2) tables_ok_def nth_append intro: less_SucI)
  qed
  then show "wf_em e0" and "small e0 \<Longrightarrow> unat i < length (em_locals e0) \<and> em_locals e0 ! unat i = x"
    using assms by (auto simp: wf_em_def localIndex_def Let_def split: option.splits)
qed

lemma slot_nth:
  assumes "distinct (fn_Locals fn)" "j < length (fn_Locals fn)"
  shows "slot fn (fn_Locals fn ! j) = j"
proof -
  have "takeWhile (\<lambda>n. n \<noteq> xs ! j) xs = take j xs" if "distinct xs" "j < length xs" for xs :: "bytes list"
    using that by (intro takeWhile_eq_take_P_nth) (auto simp: nth_eq_iff_index_eq)
  then show ?thesis using assms by (simp add: slot_def)
qed

text \<open>The index \<open>i\<close> is the constant \<open>v\<close>, or the slot of \<open>x\<close>, in the finished function.\<close>

definition const_is :: "16 word \<Rightarrow> val \<Rightarrow> func \<Rightarrow> bool" where
  "const_is i v fn = (unat i < length (fn_Consts fn) \<and> fn_Consts fn ! unat i = v)"

definition slot_is :: "16 word \<Rightarrow> bytes \<Rightarrow> func \<Rightarrow> bool" where
  "slot_is i x fn = (unat i < length (fn_Locals fn) \<and> unat i = slot fn x)"

lemma emits_with_const:
  assumes "\<And>i. emits (\<lambda>fn. P fn \<and> const_is i v fn) st h n m (k i) M"
  shows "emits P st h n m (with_const v k) M"
proof (rule emitsI)
  fix e e'
  assume a: "with_const v k e = EOk e'" "wf_em e" "em_stmtCtx e = st" "int n \<le> em_curStack e"
  obtain i e0 where e0: "constIndex v e = (i, e0)" by (rule prod.exhaust)
  note ok = constIndex_ok[OF e0 a(2)]
  have k: "k i e0 = EOk e'" using a(1) e0 by (simp add: with_const_def)
  have m: "means (\<lambda>fn. P fn \<and> const_is i v fn) h n m e0 e' M"
    using a ok by (intro emitsD[OF assms k]) simp_all
  show "means P h n m e e' M"
  proof (rule means_prepared[OF ok(1-3) m])
    fix fn assume p: "P fn" "linked fn e0 e'"
    have "grown e0 e'" using m by (simp add: means_def)
    then have s: "small e0" "prefix (em_consts e0) (fn_Consts fn)"
      using p(2) linked_small small_grown by (auto simp: linked_def grown_def intro: prefix_order.trans)
    then show "P fn \<and> const_is i v fn"
      using ok(6)[OF s(1)] p(1) by (auto simp: const_is_def prefix_def nth_append)
  qed
qed

lemma emits_with_local:
  assumes "\<And>i. emits (\<lambda>fn. P fn \<and> slot_is i x fn) st h n m (k i) M"
  shows "emits P st h n m (with_local x k) M"
proof (rule emitsI)
  fix e e'
  assume a: "with_local x k e = EOk e'" "wf_em e" "em_stmtCtx e = st" "int n \<le> em_curStack e"
  obtain i e0 where e0: "localIndex x e = (i, e0)" by (rule prod.exhaust)
  note ok = localIndex_ok[OF e0 a(2)]
  have k: "k i e0 = EOk e'" using a(1) e0 by (simp add: with_local_def)
  have m: "means (\<lambda>fn. P fn \<and> slot_is i x fn) h n m e0 e' M"
    using a ok by (intro emitsD[OF assms k]) simp_all
  show "means P h n m e e' M"
  proof (rule means_prepared[OF ok(1-3) m])
    fix fn assume p: "P fn" "linked fn e0 e'"
    have "grown e0 e'" using m by (simp add: means_def)
    then have s: "small e0" "prefix (em_locals e0) (fn_Locals fn)" "distinct (fn_Locals fn)"
      using p(2) linked_small small_grown by (auto simp: linked_def grown_def intro: prefix_order.trans)
    then show "P fn \<and> slot_is i x fn"
      using ok(6)[OF s(1)] p(1) slot_nth[OF s(3), of "unat i"] by (auto simp: slot_is_def prefix_def nth_append)
  qed
qed

section \<open>Jumps\<close>

lemma disp_word:
  assumes "t < 2 ^ 31" "j < 2 ^ 31"
  shows "sint (of_nat t - (of_nat j + 1) :: 32 word) = disp j t"
proof -
  have "(of_nat t - (of_nat j + 1) :: 32 word) = of_int (disp j t)"
    by (simp add: disp_def)
  moreover have "- (2 ^ 31) \<le> disp j t" "disp j t < 2 ^ 31" using assms by (simp_all add: disp_def)
  ultimately show ?thesis
    by (simp only: int_word_sint) simp
qed

lemma patchJump_EOk:
  assumes "patchJump j t e = EOk e'"
  obtains i where "j < here e" "e' = e\<lparr>em_code := (em_code e)[j := i]\<rparr>"
    "Encode (in_Op (em_code e ! j)) (in_A (em_code e ! j)) (in_B (em_code e ! j)) (of_nat t - (of_nat j + 1)) = Some i"
  using assms by (auto simp: patchJump_def Let_def split: if_splits option.splits)

text \<open>A forward jump over a part.\<close>

definition forward :: "8 word \<Rightarrow> (emitter \<Rightarrow> emitted) \<Rightarrow> emitter \<Rightarrow> emitted" where
  "forward opc k = at_pc (\<lambda>j. seq [op0 opc, k, at_pc (patchJump j)])"

lemma patched_forward:
  assumes "emit opc a b 0 e = EOk e1" "grown e1' e2" "em_code e1' = em_code e1" "patchJump (here e) (here e2) e2 = EOk e3"
  obtains i where "e3 = e2\<lparr>em_code := em_code e @ [i] @ drop (here e1') (em_code e2)\<rparr>"
    "Encode opc a b (of_nat (here e2) - (of_nat (here e) + 1)) = Some i" "here e3 = here e2" "here e1' = Suc (here e)"
    "em_code e2 = em_code e1' @ drop (here e1') (em_code e2)"
proof -
  obtain i0 where i0: "Encode opc a b 0 = Some i0" "em_code e1 = em_code e @ [i0]"
    using assms(1) by (auto simp: emit_EOk)
  obtain n where n: "em_code e2 = em_code e @ [i0] @ n"
    using assms(2,3) i0 by (auto simp: grown_def prefix_def)
  have at: "em_code e2 ! here e = i0" by (simp add: n here_def nth_append)
  obtain i where i: "e3 = e2\<lparr>em_code := (em_code e2)[here e := i]\<rparr>"
      "Encode opc a b (of_nat (here e2) - (of_nat (here e) + 1)) = Some i"
    using patchJump_EOk[OF assms(4)] encode_fields[OF i0(1)] by (metis at)
  show thesis
  proof (rule that[OF _ i(2)])
    show "e3 = e2\<lparr>em_code := em_code e @ [i] @ drop (here e1') (em_code e2)\<rparr>"
      unfolding i(1) using assms(3) i0(2) by (simp add: n here_def list_update_append)
  qed (use assms(3) i i0(2) in \<open>simp_all add: here_def n\<close>)
qed

lemma linked_forward:
  assumes "emit opc a b 0 e = EOk e1" "em_code e1' = em_code e1" "grown e1' e2" "patchJump (here e) (here e2) e2 = EOk e3"
  shows "prefix (em_code e) (em_code e3)" "here e3 = here e2" "here e1' = Suc (here e)" "e3 = e2\<lparr>em_code := em_code e3\<rparr>"
    and "linked fn e e3 \<Longrightarrow> instr_at fn (here e) opc a b (disp (here e) (here e2))"
    and "linked fn e e3 \<Longrightarrow> linked fn e1' e2"
proof -
  obtain i where i: "e3 = e2\<lparr>em_code := em_code e @ [i] @ drop (here e1') (em_code e2)\<rparr>"
    "Encode opc a b (of_nat (here e2) - (of_nat (here e) + 1)) = Some i" "here e3 = here e2" "here e1' = Suc (here e)"
    "em_code e2 = em_code e1' @ drop (here e1') (em_code e2)"
    by (rule patched_forward[OF assms(1,3,2,4)])
  then have c: "em_code e3 = em_code e @ [i] @ drop (here e1') (em_code e2)"
    by simp
  then have l: "here e2 = Suc (here e) + length (drop (here e1') (em_code e2))"
    using i(3) by (simp add: here_def)
  show "prefix (em_code e) (em_code e3)" "here e3 = here e2" "here e1' = Suc (here e)" "e3 = e2\<lparr>em_code := em_code e3\<rparr>"
    using c i by simp_all
  assume k: "linked fn e e3"
  have f: "here e < length (fn_Code fn)" "fn_Code fn ! here e = i" "frag fn (Suc (here e)) (drop (here e1') (em_code e2))"
    using k c by (simp_all add: linked_def here_def frag_Cons)
  have b: "here e2 < 2 ^ 31" "here e < 2 ^ 31" using k i(3) l by (simp_all add: linked_def)
  show "instr_at fn (here e) opc a b (disp (here e) (here e2))"
    using encoded_at[OF i(2) f(1,2)] disp_word[OF b] by simp
  have "em_consts e3 = em_consts e2" "em_locals e3 = em_locals e2" "em_maxStack e3 = em_maxStack e2"
    using i(1) by simp_all
  then show "linked fn e1' e2"
    using k f(3) i(3,4) unfolding linked_def by simp
qed

lemma emits_forward_peek:
  assumes "emits P st h 1 1 kr Mr" "opc \<in> {OpJmpIfFalsePeek, OpJmpIfTruePeek, OpJmpIfNotNullPeek}"
  shows "emits P st h 1 1 (forward opc kr)
     (\<lambda>fn us ls w. case peek_test h opc (hd us) w of (b, w) \<Rightarrow> if b then (Inr us, ls, w) else Mr fn us ls w)"
proof (rule emitsI)
  fix e e'
  assume a: "forward opc kr e = EOk e'" "wf_em e" "em_stmtCtx e = st" "int 1 \<le> em_curStack e"
  then obtain e1 e2 where e: "emit opc 0 0 0 e = EOk e1" "kr e1 = EOk e2" "patchJump (here e) (here e2) e2 = EOk e'"
    by (auto simp: forward_def at_pc_def op0_def e_then_EOk)
  have e1: "grown e e1" "wf_em e1" "em_curStack e1 = em_curStack e"
    using e(1) a(2) by (auto simp: emit_EOk grown_def wf_em_def small_def tables_ok_def)
  have m: "means P h 1 1 e1 e2 Mr"
    using a e1 by (intro emitsD[OF assms(1) e(2)]) (auto simp: grown_def)
  then have g: "grown e1 e2" by (simp add: means_def)
  note l = linked_forward[OF e(1) refl g e(3)]
  show "means P h 1 1 e e'
     (\<lambda>fn us ls w. case peek_test h opc (hd us) w of (b, w) \<Rightarrow> if b then (Inr us, ls, w) else Mr fn us ls w)"
    unfolding means_def
  proof (intro conjI allI impI)
    show "grown e e'" using l(1) grown_trans[OF e1(1) g] by (subst l(4)) (simp add: grown_def)
    show "wf_em e'" using m by (subst l(4)) (simp add: means_def wf_em_def small_def tables_ok_def)
    show "em_curStack e' = em_curStack e - int 1 + int 1" using m e1 by (subst l(4)) (simp add: means_def)
    fix fn and us :: "'a list"
    assume k: "linked fn e e'" "P fn" "length us = 1"
    then obtain v where v: "us = [v]" by (metis One_nat_def length_0_conv length_Suc_conv)
    have c: "computes h fn (Suc (here e)) (here e2) (nat (em_curStack e - 1)) [v] (Mr fn [v])"
      using means_computes[OF m l(6)[OF k(1)] k(2), of "[v]"] l(3) e1(3) by simp
    show "computes h fn (here e) (here e') (nat (em_curStack e - int 1)) us
       (\<lambda>ls w. case peek_test h opc (hd us) w of (b, w) \<Rightarrow> if b then (Inr us, ls, w) else Mr fn us ls w)"
      unfolding v l(2) using here_grown[OF g] l(3) c
      by (auto intro!: run_peek[OF l(5)[OF k(1)] assms(2)] computes_empty)
    fix ls w vs ls' w'
    assume "(case peek_test h opc (hd us) w of (b, w) \<Rightarrow> if b then (Inr us, ls, w) else Mr fn us ls w) = (Inr vs, ls', w')"
    then show "length vs = 1"
      using k(3) means_out[OF m l(6)[OF k(1)] k(2,3)] by (auto split: prod.splits if_splits)
  qed
qed

text \<open>Two branches behind a popping jump.\<close>

definition branches :: "(emitter \<Rightarrow> emitted) \<Rightarrow> (emitter \<Rightarrow> emitted) \<Rightarrow> emitter \<Rightarrow> emitted" where
  "branches ky kn =
     at_pc (\<lambda>jmpFalse. seq [op0 OpJmpIfFalse, popStack 1, ky,
       at_pc (\<lambda>jmpEnd. seq [op0 OpJmp, at_pc (patchJump jmpFalse), popStack 1, kn, at_pc (patchJump jmpEnd)])])"

lemma popStack_EOk:
  "popStack n e = EOk e' \<longleftrightarrow> int n \<le> em_curStack e \<and> e' = e\<lparr>em_curStack := em_curStack e - int n\<rparr>"
  by (auto simp: popStack_def Let_def)

lemma branches_code:
  assumes "branches ky kn e = EOk e'"
  obtains e1 e2 e4 e5 i j where "ky e1 = EOk e2" "kn e4 = EOk e5" "1 \<le> em_curStack e" "1 \<le> em_curStack e2"
    "e1 = e\<lparr>em_code := em_code e1, em_curStack := em_curStack e - 1\<rparr>" "prefix (em_code e) (em_code e1)"
    "here e1 = Suc (here e)"
    "e4 = e2\<lparr>em_code := em_code e4, em_curStack := em_curStack e2 - 1\<rparr>" "here e4 = Suc (here e2)"
    "e' = e5\<lparr>em_code := em_code e'\<rparr>" "here e' = here e5"
    "grown e1 e2 \<longrightarrow> grown e4 e5 \<longrightarrow>
       em_code e' = em_code e @ [i] @ drop (here e1) (em_code e2) @ [j] @ drop (here e4) (em_code e5)"
    "grown e1 e2 \<longrightarrow> Encode OpJmpIfFalse 0 0 (of_nat (here e4) - (of_nat (here e) + 1)) = Some i"
    "grown e1 e2 \<longrightarrow> grown e4 e5 \<longrightarrow> Encode OpJmp 0 0 (of_nat (here e5) - (of_nat (here e2) + 1)) = Some j"
proof -
  obtain f1 e1 e2 f3 f4 e4 e5 where s: "emit OpJmpIfFalse 0 0 0 e = EOk f1" "popStack 1 f1 = EOk e1" "ky e1 = EOk e2"
      "emit OpJmp 0 0 0 e2 = EOk f3" "patchJump (here e) (here f3) f3 = EOk f4" "popStack 1 f4 = EOk e4"
      "kn e4 = EOk e5" "patchJump (here e2) (here e5) e5 = EOk e'"
    using assms by (auto simp: branches_def at_pc_def op0_def e_then_EOk)
  obtain i0 where i0: "f1 = e\<lparr>em_code := em_code e @ [i0]\<rparr>" "Encode OpJmpIfFalse 0 0 0 = Some i0"
    using s(1) by (auto simp: emit_EOk)
  obtain j0 where j0: "f3 = e2\<lparr>em_code := em_code e2 @ [j0]\<rparr>" "Encode OpJmp 0 0 0 = Some j0"
    using s(4) by (auto simp: emit_EOk)
  obtain i where i: "f4 = f3\<lparr>em_code := (em_code f3)[here e := i]\<rparr>"
      "Encode (in_Op (em_code f3 ! here e)) (in_A (em_code f3 ! here e)) (in_B (em_code f3 ! here e))
         (of_nat (here f3) - (of_nat (here e) + 1)) = Some i"
    by (rule patchJump_EOk[OF s(5)]) auto
  obtain j where j: "e' = e5\<lparr>em_code := (em_code e5)[here e2 := j]\<rparr>"
      "Encode (in_Op (em_code e5 ! here e2)) (in_A (em_code e5 ! here e2)) (in_B (em_code e5 ! here e2))
         (of_nat (here e5) - (of_nat (here e2) + 1)) = Some j"
    by (rule patchJump_EOk[OF s(8)]) auto
  have e1: "e1 = e\<lparr>em_code := em_code e @ [i0], em_curStack := em_curStack e - 1\<rparr>" "1 \<le> em_curStack e"
    using s(2) i0 by (auto simp: popStack_EOk)
  have e4: "e4 = e2\<lparr>em_code := (em_code e2 @ [j0])[here e := i], em_curStack := em_curStack e2 - 1\<rparr>" "1 \<le> em_curStack e2"
    using s(6) i(1) j0 by (auto simp: popStack_EOk)
  have h: "here e4 = Suc (here e2)" "here f3 = here e4" by (simp_all add: e4 j0 here_def)
  have code: "em_code e' = em_code e @ [i] @ drop (here e1) (em_code e2) @ [j] @ drop (here e4) (em_code e5)
      \<and> Encode OpJmp 0 0 (of_nat (here e5) - (of_nat (here e2) + 1)) = Some j"
    if g: "grown e1 e2" "grown e4 e5"
  proof -
    obtain n where n: "em_code e2 = em_code e @ [i0] @ n"
      using g by (auto simp: grown_def e1(1) prefix_def)
    have c4: "em_code e4 = em_code e @ [i] @ n @ [j0]" by (simp add: e4 n here_def list_update_append)
    then obtain n' where n': "em_code e5 = em_code e @ [i] @ n @ [j0] @ n'" using g(2) by (auto simp: grown_def prefix_def)
    have at: "em_code e5 ! here e2 = j0" by (simp add: n' n here_def nth_append)
    have "Encode OpJmp 0 0 (of_nat (here e5) - (of_nat (here e2) + 1)) = Some j"
      using j(2) encode_fields[OF j0(2)] unfolding at by simp
    moreover have "(em_code e5)[here e2 := j] = em_code e @ [i] @ n @ [j] @ n'"
      by (simp add: n' n here_def list_update_append)
    ultimately show ?thesis
      by (simp add: j(1) e1(1) n n' here_def e4(1))
  qed
  have first: "Encode OpJmpIfFalse 0 0 (of_nat (here e4) - (of_nat (here e) + 1)) = Some i" if g: "grown e1 e2"
  proof -
    obtain n where n: "em_code e2 = em_code e @ [i0] @ n"
      using g by (auto simp: grown_def e1(1) prefix_def)
    have "em_code f3 ! here e = i0" by (simp add: j0 n here_def nth_append)
    then show ?thesis
      using i(2) encode_fields[OF i0(2)] h by simp
  qed
  show thesis
    by (rule that[of e1 e2 e4 e5 i j]) (use s e1 e4 h j code first in \<open>auto simp: here_def\<close>)
qed

lemma linked_part:
  assumes "frag fn (here e1) (drop (here e1) (em_code e2))" "grown e2 e3" "prefix (em_consts e3) (fn_Consts fn)"
    "prefix (em_locals e3) (fn_Locals fn)" "distinct (fn_Locals fn)" "length (fn_Consts fn) \<le> 65536"
    "length (fn_Locals fn) \<le> 65536" "em_maxStack e3 \<le> int (fn_MaxStack fn)" "here e3 < 2 ^ 31"
  shows "linked fn e1 e2"
  using assms here_grown[OF assms(2)]
  by (auto simp: linked_def grown_def intro: prefix_order.trans)

lemma emits_branches:
  assumes "emits P st h 0 1 ky My" "emits P st h 0 1 kn Mn"
  shows "emits P st h 1 1 (branches ky kn)
     (\<lambda>fn us ls w. case truth h (hd us) w of (b, w) \<Rightarrow> if b then My fn [] ls w else Mn fn [] ls w)"
proof (rule emitsI)
  fix e e'
  assume a: "branches ky kn e = EOk e'" "wf_em e" "em_stmtCtx e = st" "int 1 \<le> em_curStack e"
  from a(1) obtain e1 e2 e4 e5 i j where s: "ky e1 = EOk e2" "kn e4 = EOk e5" "1 \<le> em_curStack e" "1 \<le> em_curStack e2"
    "e1 = e\<lparr>em_code := em_code e1, em_curStack := em_curStack e - 1\<rparr>" "prefix (em_code e) (em_code e1)"
    "here e1 = Suc (here e)"
    "e4 = e2\<lparr>em_code := em_code e4, em_curStack := em_curStack e2 - 1\<rparr>" "here e4 = Suc (here e2)"
    "e' = e5\<lparr>em_code := em_code e'\<rparr>" "here e' = here e5"
    "grown e1 e2 \<longrightarrow> grown e4 e5 \<longrightarrow>
       em_code e' = em_code e @ [i] @ drop (here e1) (em_code e2) @ [j] @ drop (here e4) (em_code e5)"
    "grown e1 e2 \<longrightarrow> Encode OpJmpIfFalse 0 0 (of_nat (here e4) - (of_nat (here e) + 1)) = Some i"
    "grown e1 e2 \<longrightarrow> grown e4 e5 \<longrightarrow> Encode OpJmp 0 0 (of_nat (here e5) - (of_nat (here e2) + 1)) = Some j"
    by (rule branches_code)
  have f1: "em_curStack e1 = em_curStack e - 1" "em_stmtCtx e1 = em_stmtCtx e" "em_maxStack e1 = em_maxStack e"
      "em_consts e1 = em_consts e" "em_locals e1 = em_locals e" "em_loops e1 = em_loops e"
      "em_tryHandlers e1 = em_tryHandlers e" "em_locs e1 = em_locs e" "em_finallyLoopDepths e1 = em_finallyLoopDepths e"
      "tables_ok e1 = tables_ok e" "small e1 = small e"
    by (subst s(5), simp add: tables_ok_def small_def)+
  have f4: "em_curStack e4 = em_curStack e2 - 1" "em_stmtCtx e4 = em_stmtCtx e2" "em_maxStack e4 = em_maxStack e2"
      "em_consts e4 = em_consts e2" "em_locals e4 = em_locals e2" "em_loops e4 = em_loops e2"
      "em_tryHandlers e4 = em_tryHandlers e2" "em_locs e4 = em_locs e2" "em_finallyLoopDepths e4 = em_finallyLoopDepths e2"
      "tables_ok e4 = tables_ok e2" "small e4 = small e2"
    by (subst s(8), simp add: tables_ok_def small_def)+
  have f': "em_curStack e' = em_curStack e5" "em_stmtCtx e' = em_stmtCtx e5" "em_maxStack e' = em_maxStack e5"
      "em_consts e' = em_consts e5" "em_locals e' = em_locals e5" "em_loops e' = em_loops e5"
      "em_tryHandlers e' = em_tryHandlers e5" "em_locs e' = em_locs e5" "em_finallyLoopDepths e' = em_finallyLoopDepths e5"
      "tables_ok e' = tables_ok e5" "small e' = small e5"
    by (subst s(10), simp add: tables_ok_def small_def)+
  have m1: "means P h 0 1 e1 e2 My"
    using a f1 by (intro emitsD[OF assms(1) s(1)]) (auto simp: wf_em_def)
  then have g1: "grown e1 e2" and c2: "em_curStack e2 = em_curStack e" "wf_em e2" by (simp_all add: means_def f1)
  have m2: "means P h 0 1 e4 e5 Mn"
    using a f1 f4 c2 g1 by (intro emitsD[OF assms(2) s(2)]) (auto simp: wf_em_def grown_def)
  then have g2: "grown e4 e5" and c5: "em_curStack e5 = em_curStack e" "wf_em e5" by (simp_all add: means_def f4 c2)
  note code = s(12)[rule_format, OF g1 g2] and i = s(13)[rule_format, OF g1] and j = s(14)[rule_format, OF g1 g2]
  have l2: "here e2 = Suc (here e) + length (drop (here e1) (em_code e2))"
    using here_grown[OF g1] s(7) by (simp add: here_def)
  have l5: "here e5 = Suc (here e2) + length (drop (here e4) (em_code e5))"
    using here_grown[OF g2] s(9) by (simp add: here_def)
  show "means P h 1 1 e e'
     (\<lambda>fn us ls w. case truth h (hd us) w of (b, w) \<Rightarrow> if b then My fn [] ls w else Mn fn [] ls w)"
    unfolding means_def
  proof (intro conjI allI impI)
    show "grown e e'"
      using g1 g2 code unfolding grown_def f' f1 f4 by (auto intro: prefix_order.trans)
    show "wf_em e'" "em_curStack e' = em_curStack e - int 1 + int 1" using c5 f' by (simp_all add: wf_em_def)
    fix fn and us :: "'a list"
    assume k: "linked fn e e'" "P fn" "length us = 1"
    then obtain v where v: "us = [v]" by (metis One_nat_def length_0_conv length_Suc_conv)
    have d: "drop (here e) (em_code e') = [i] @ drop (here e1) (em_code e2) @ [j] @ drop (here e4) (em_code e5)"
      by (simp add: code here_def)
    have f: "here e < length (fn_Code fn)" "fn_Code fn ! here e = i" "frag fn (here e1) (drop (here e1) (em_code e2))"
        "here e2 < length (fn_Code fn)" "fn_Code fn ! here e2 = j" "frag fn (here e4) (drop (here e4) (em_code e5))"
      using k(1) l2 s(7,9) unfolding linked_def d frag_append frag_Cons by simp_all
    have k5: "prefix (em_consts e5) (fn_Consts fn)" "prefix (em_locals e5) (fn_Locals fn)" "distinct (fn_Locals fn)"
        "length (fn_Consts fn) \<le> 65536" "length (fn_Locals fn) \<le> 65536" "em_maxStack e5 \<le> int (fn_MaxStack fn)"
        "here e5 < 2 ^ 31"
      using k(1) f' s(11) by (simp_all add: linked_def)
    have g25: "prefix (em_consts e2) (em_consts e5)" "prefix (em_locals e2) (em_locals e5)" "em_maxStack e2 \<le> em_maxStack e5"
        "here e2 \<le> here e5"
      using g2 f4 l5 by (simp_all add: grown_def)
    have k12: "linked fn e1 e2"
      using f(3) k5 g25 by (auto simp: linked_def intro: prefix_order.trans)
    have k45: "linked fn e4 e5"
      using f(6) k5 by (simp add: linked_def)
    have cy: "computes h fn (Suc (here e)) (here e2) (nat (em_curStack e - 1)) [] (My fn [])"
      using means_computes[OF m1 k12 k(2), of "[]"] s(7) f1(1) by simp
    have cn: "computes h fn (here e4) (here e5) (nat (em_curStack e - 1)) [] (Mn fn [])"
      using means_computes[OF m2 k45 k(2), of "[]"] f4(1) c2(1) by simp
    have b: "here e4 < 2 ^ 31" "here e < 2 ^ 31" "here e2 < 2 ^ 31" using k5(7) l2 l5 s(9) by simp_all
    have ji: "instr_at fn (here e) OpJmpIfFalse 0 0 (disp (here e) (here e4))"
      using encoded_at[OF i f(1,2)] disp_word[OF b(1,2)] by simp
    have jj: "instr_at fn (here e2) OpJmp 0 0 (disp (here e2) (here e5))"
      using encoded_at[OF j f(4,5)] disp_word[OF k5(7) b(3)] by simp
    have "computes h fn (here e2) (here e5) (nat (em_curStack e - 1)) vs (\<lambda>ls w. (Inr vs, ls, w))" for vs :: "'a list"
      by (rule run_Jmp[OF jj computes_empty]) (use l5 in simp)
    from computes_bind[OF cy this] have "computes h fn (Suc (here e)) (here e5) (nat (em_curStack e - 1)) [] (My fn [])"
      using l2 g25(4) by simp
    from run_JmpIfFalse[OF ji this cn, of v] l2 s(9)
    show "computes h fn (here e) (here e') (nat (em_curStack e - int 1)) us
       (\<lambda>ls w. case truth h (hd us) w of (b, w) \<Rightarrow> if b then My fn [] ls w else Mn fn [] ls w)"
      by (simp add: v s(11))
    fix ls w vs ls' w'
    assume "(case truth h (hd us) w of (b, w) \<Rightarrow> if b then My fn [] ls w else Mn fn [] ls w) = (Inr vs, ls', w')"
    then show "length vs = 1"
      using means_out[OF m1 k12 k(2), of "[]"] means_out[OF m2 k45 k(2), of "[]"] by (auto split: prod.splits if_splits)
  qed
qed

section \<open>Parts of expressions\<close>

lemma seq_nil [simp]: "seq [] = EOk"
  by (simp add: fun_eq_iff)

lemma seq_cons: "seq (k # ks) = (\<lambda>e. e_then (k e) (seq ks))"
  by (simp add: fun_eq_iff)

lemma seq_one [simp]: "seq [k] = k"
  by (simp add: fun_eq_iff)

lemma seq_pair: "seq [k1, k2] = (\<lambda>e. e_then (k1 e) k2)"
  by (simp add: seq_cons)

lemma emits_none: "emits P st h n n EOk (\<lambda>fn us ls w. (Inr us, ls, w))"
  by (rule emitsI) (auto simp: means_def intro: computes_empty)

lemma emits_fail [simp]:
  "emits P st h n m (\<lambda>e. Unsupported) M" "emits P st h n m (\<lambda>e. Outside) M"
  by (simp_all add: emits_def)

lemma emits_seq:
  "emits P st h n m k M \<Longrightarrow> emits P st h m l (seq ks) M' \<Longrightarrow> emits P st h n l (seq (k # ks)) (also_then M M')"
  unfolding seq_cons by (rule emits_then)

lemma emits_above:
  assumes "emits P st h n m k M"
  shows "emits P st h (n + j) (m + j) k (\<lambda>fn us ls w. above (drop n us) (M fn (take n us) ls w))"
proof (rule emitsI)
  fix e e'
  assume a: "k e = EOk e'" "wf_em e" "em_stmtCtx e = st" "int (n + j) \<le> em_curStack e"
  have m: "means P h n m e e' M" using a by (intro emitsD[OF assms a(1)]) simp_all
  show "means P h (n + j) (m + j) e e' (\<lambda>fn us ls w. above (drop n us) (M fn (take n us) ls w))"
    unfolding means_def
  proof (intro conjI allI impI)
    show "grown e e'" "wf_em e'" "em_curStack e' = em_curStack e - int (n + j) + int (m + j)"
      using m by (simp_all add: means_def)
    fix fn and us :: "'a list"
    assume l: "linked fn e e'" "P fn" "length us = n + j"
    then have t: "length (take n us) = n" by simp
    have "nat (em_curStack e - int n) = nat (em_curStack e - int (n + j)) + length (drop n us)"
      using a(4) l(3) by simp
    with means_computes[OF m l(1,2) t]
    have "computes h fn (here e) (here e') (nat (em_curStack e - int (n + j)) + length (drop n us)) (take n us)
        (M fn (take n us))" by simp
    from computes_above[OF this]
    show "computes h fn (here e) (here e') (nat (em_curStack e - int (n + j))) us
        (\<lambda>ls w. above (drop n us) (M fn (take n us) ls w))" by simp
    fix ls w vs ls' w'
    assume "above (drop n us) (M fn (take n us) ls w) = (Inr vs, ls', w')"
    then show "length vs = m + j"
      using means_out[OF m l(1,2) t] l(3) by (auto simp: above_def bindr_def split: prod.splits sum.splits)
  qed
qed

lemma one_out: "one r = (Inr vs, ls', w') \<Longrightarrow> length vs = 1"
  by (auto simp: one_def bindr_def split: prod.splits sum.splits)

lemma none_out: "none r = (Inr vs, ls', w') \<Longrightarrow> length vs = 0"
  by (auto simp: none_def bindr_def split: prod.splits sum.splits)

lemma emits_literal: "emits P st h 0 1 (emitLiteral v) (\<lambda>fn us ls w. one (eval_literal h v ls w))"
proof -
  have simple: "emits P st h 0 1 (load opc 0) (\<lambda>fn us ls w. case h_mk h v w of (v, w) \<Rightarrow> (Inr [v], ls, w))"
    if "opc = OpLoadNull \<and> v = VNull \<or> opc = OpLoadTrue \<and> v = VBool True \<or> opc = OpLoadFalse \<and> v = VBool False" for opc
    unfolding load_def seq_pair op1_def
    by (rule emits_instr(3)) (use that in \<open>auto intro!: run_LoadLiteral split: prod.splits\<close>)
  have const: "emits P st h 0 1 (with_const v (load OpLoadConst)) (\<lambda>fn us ls w. (Inr [h_cached h v], ls, w))"
    unfolding load_def seq_pair op1_def
  proof (rule emits_with_const, rule emits_instr(3))
    fix i fn p D and us :: "'a list"
    assume a: "P fn \<and> const_is i v fn" "instr_at fn p OpLoadConst i 0 (sint (0 :: 32 word))" "length us = 0"
      "D + 1 \<le> fn_MaxStack fn"
    show "computes h fn p (Suc p) D us (\<lambda>ls w. (Inr [h_cached h v], ls, w))"
      using run_LoadConst[OF a(2), of D h] a by (simp add: const_is_def)
  qed auto
  show ?thesis
  proof (cases v)
    case VNull
    then show ?thesis using simple[of OpLoadNull]
      by (auto simp: emitLiteral_def eval_literal_def case_prod_unfold)
  next
    case (VBool b)
    then show ?thesis using simple[of OpLoadTrue] simple[of OpLoadFalse]
      by (cases b) (auto simp: emitLiteral_def eval_literal_def case_prod_unfold)
  qed (use const in \<open>auto simp: emitLiteral_def eval_literal_def\<close>)
qed

lemma emits_read:
  "emits P st h 0 1 (with_local x (load (if warn then OpLoadLocalOrWarn else OpLoadLocal)))
     (\<lambda>fn us ls w. one (read_local h fn warn (slot fn x) ls w))"
  unfolding load_def seq_pair op1_def
proof (rule emits_with_local, rule emits_instr(3))
  fix i fn p D and us :: "'a list"
  assume a: "P fn \<and> slot_is i x fn" "instr_at fn p (if warn then OpLoadLocalOrWarn else OpLoadLocal) i 0 (sint (0 :: 32 word))"
    "length us = 0" "D + 1 \<le> fn_MaxStack fn"
  show "computes h fn p (Suc p) D us (\<lambda>ls w. one (read_local h fn warn (slot fn x) ls w))"
    using run_LoadLocal[OF a(2), of D h] a by (simp add: slot_is_def)
qed (auto dest: one_out)

lemma emits_inc_dec:
  "emits P False h 0 1 (with_local x (\<lambda>i. seq [op1 (inc_dec_opcode inc post) i, pushStack 1, drop_in_stmt]))
     (\<lambda>fn us ls w. one (eval_inc_dec h fn (slot fn x) inc post ls w))"
proof (rule emits_with_local)
  fix i
  have 1: "emits (\<lambda>fn. P fn \<and> slot_is i x fn) False h 0 1
     (\<lambda>e. e_then (emit (inc_dec_opcode inc post) i 0 0 e) (pushStack 1))
     (\<lambda>fn us ls w. one (eval_inc_dec h fn (slot fn x) inc post ls w))"
  proof (rule emits_instr(3))
    fix fn p D and us :: "'a list"
    assume a: "P fn \<and> slot_is i x fn" "instr_at fn p (inc_dec_opcode inc post) i 0 (sint (0 :: 32 word))"
      "length us = 0" "D + 1 \<le> fn_MaxStack fn"
    show "computes h fn p (Suc p) D us (\<lambda>ls w. one (eval_inc_dec h fn (slot fn x) inc post ls w))"
      using run_inc_dec[OF a(2), of D h] a by (simp add: slot_is_def)
  qed (auto dest: one_out)
  have 2: "emits (\<lambda>fn. P fn \<and> slot_is i x fn) False h 1 1 drop_in_stmt (\<lambda>fn us ls w. (Inr us, ls, w))"
    by (rule emitsI) (auto simp: drop_in_stmt_def in_stmt_def means_def intro: computes_empty)
  have k: "seq [op1 (inc_dec_opcode inc post) i, pushStack 1, drop_in_stmt]
      = (\<lambda>e. e_then (e_then (emit (inc_dec_opcode inc post) i 0 0 e) (pushStack 1)) drop_in_stmt)"
    by (simp add: seq_cons op1_def e_then_assoc)
  show "emits (\<lambda>fn. P fn \<and> slot_is i x fn) False h 0 1
     (seq [op1 (inc_dec_opcode inc post) i, pushStack 1, drop_in_stmt])
     (\<lambda>fn us ls w. one (eval_inc_dec h fn (slot fn x) inc post ls w))"
    unfolding k by (rule emits_weaken[OF emits_then[OF 1 2]]) (simp_all add: also_then_def fun_eq_iff)
qed

lemma emits_unary_op:
  "opc = OpNeg \<or> opc = OpBitNot \<or> opc = OpNot \<Longrightarrow>
     emits P st h 1 1 (op0 opc) (\<lambda>fn us ls w. one (of_host (h_unop h opc (hd us) w) ls))"
  unfolding op0_def
  by (rule emits_instr(1)) (auto simp: length_Suc_conv intro: run_unary dest: one_out)

lemma emits_bool: "emits P st h 1 1 (op0 OpBool) (\<lambda>fn us ls w. one (as_bool h (hd us) ls w))"
  unfolding op0_def
  by (rule emits_instr(1)) (auto simp: length_Suc_conv intro: run_Bool dest: one_out)

lemma emits_pop: "emits P st h 1 0 (seq [op0 OpPop, popStack 1]) (\<lambda>fn us ls w. (Inr [], ls, w))"
  unfolding op0_def seq_pair
  by (rule emits_instr(2)) (auto simp: length_Suc_conv intro: run_Pop)

lemma emits_binary_op:
  "is_binary opc \<Longrightarrow>
     emits P st h 2 1 (seq [op0 opc, popStack 1])
       (\<lambda>fn us ls w. one (of_host (binary_value h opc (us ! 1) (us ! 0) w) ls))"
  unfolding op0_def seq_pair
  by (rule emits_instr(2)) (auto simp: numeral_2_eq_2 length_Suc_conv intro: run_binary dest: one_out)

section \<open>Operators\<close>

text \<open>A part that computes one value from nothing, in statement context or not.\<close>

definition expr_in ::
  "bool \<Rightarrow> (func \<Rightarrow> bool) \<Rightarrow> ('v, 'w) host \<Rightarrow> (emitter \<Rightarrow> emitted) \<Rightarrow> (func \<Rightarrow> ('v, 'w) comp) \<Rightarrow> bool" where
  "expr_in st P h k m = emits P st h 0 1 k (\<lambda>fn us ls w. one (m fn ls w))"

abbreviation expr :: "(func \<Rightarrow> bool) \<Rightarrow> ('v, 'w) host \<Rightarrow> (emitter \<Rightarrow> emitted) \<Rightarrow> (func \<Rightarrow> ('v, 'w) comp) \<Rightarrow> bool" where
  "expr \<equiv> expr_in False"

lemma emits_in_stmt: "emits P st h n m (k st) M \<Longrightarrow> emits P st h n m (in_stmt k) M"
  by (auto simp: emits_def in_stmt_def)

lemma emits_sub: "expr P h k m \<Longrightarrow> emits P st h 0 1 (subexpr k) (\<lambda>fn us ls w. one (m fn ls w))"
  unfolding expr_in_def by (rule emits_subexpr)

lemma emits_keep:
  "emits P False h 1 1
     (with_local x (\<lambda>i. in_stmt (\<lambda>st. if st then seq [op1 OpStoreLocal i, popStack 1] else op1 OpStoreLocalKeep i)))
     (\<lambda>fn us ls w. one (keep_local h fn (slot fn x) (hd us) ls w))"
proof (rule emits_with_local, rule emits_in_stmt)
  fix i
  have "emits (\<lambda>fn. P fn \<and> slot_is i x fn) False h 1 1 (op1 OpStoreLocalKeep i)
     (\<lambda>fn us ls w. one (keep_local h fn (slot fn x) (hd us) ls w))"
    unfolding op1_def
  proof (rule emits_instr(1))
    fix fn p D and us :: "'a list"
    assume a: "P fn \<and> slot_is i x fn" "instr_at fn p OpStoreLocalKeep i 0 (sint (0 :: 32 word))" "length us = 1"
    show "computes h fn p (Suc p) D us (\<lambda>ls w. one (keep_local h fn (slot fn x) (hd us) ls w))"
      using run_StoreLocalKeep[OF a(2), of h D "hd us"] a(1,3) by (auto simp: slot_is_def length_Suc_conv)
  qed (auto dest: one_out)
  then show "emits (\<lambda>fn. P fn \<and> slot_is i x fn) False h 1 1
     (if False then seq [op1 OpStoreLocal i, popStack 1] else op1 OpStoreLocalKeep i)
     (\<lambda>fn us ls w. one (keep_local h fn (slot fn x) (hd us) ls w))" by simp
qed

lemma expr_assign:
  assumes "expr P h kb mb"
  shows "expr P h (emitAssign (Some (Variable x)) kb) (\<lambda>fn. eval_assign h fn x (mb fn))"
proof -
  have "emits P False h 0 1 (emitAssign (Some (Variable x)) kb)
     (also_then (\<lambda>fn us ls w. one (mb fn ls w)) (\<lambda>fn us ls w. one (keep_local h fn (slot fn x) (hd us) ls w)))"
    unfolding emitAssign_def seq_pair[of "subexpr kb"] option.case node.case by (rule emits_then[OF emits_sub[OF assms] emits_keep])
  then show ?thesis
    unfolding expr_in_def
    by (rule emits_weaken)
      (simp_all add: also_then_def bindr_one eval_assign_def keep_local_def one_bindr fun_eq_iff cong: if_cong)
qed

lemma emits_op_assign:
  "emits P st h 1 0 (with_local x (\<lambda>i. seq [emit OpOpAssignLocal i (word_of_int t) 0, popStack 1]))
     (\<lambda>fn us ls w. none (compound_assign h fn (slot fn x) (uint (word_of_int t :: 16 word)) (hd us) ls w))"
  unfolding seq_pair
proof (rule emits_with_local, rule emits_instr(2))
  fix i fn p D and us :: "'a list"
  assume a: "P fn \<and> slot_is i x fn" "instr_at fn p OpOpAssignLocal i (word_of_int t) (sint (0 :: 32 word))" "length us = 1"
  show "computes h fn p (Suc p) D us
      (\<lambda>ls w. none (compound_assign h fn (slot fn x) (uint (word_of_int t :: 16 word)) (hd us) ls w))"
    using run_OpAssign[OF a(2), of h D "hd us"] a(1,3) by (auto simp: slot_is_def length_Suc_conv)
qed (auto dest: none_out)

lemma with_local_split:
  "with_local x (\<lambda>i. seq [k1 i, k2 i, k3 i]) = with_local x (\<lambda>i. \<lambda>e. e_then (seq [k1 i, k2 i] e) (k3 i))"
  by (simp add: with_local_def fun_eq_iff seq_cons e_then_assoc split: prod.splits)

lemma expr_compound:
  assumes "expr P h kb mb" "0 \<le> t" "t < 65536"
  shows "expr P h (emitCompoundAssign t (Some (Variable x)) kb) (\<lambda>fn. eval_compound h fn x t (mb fn))"
proof -
  have t: "uint (word_of_int t :: 16 word) = t" using assms(2,3) by (simp add: uint_word_of_int take_bit_int_eq_self)
  have 1: "emits (\<lambda>fn. P fn \<and> slot_is i x fn) False h 1 1
      (\<lambda>e. e_then (seq [emit OpOpAssignLocal i (word_of_int t) 0, popStack 1] e)
        (in_stmt (\<lambda>st. if st then EOk else load OpLoadLocal i)))
      (also_then (\<lambda>fn us ls w. none (compound_assign h fn (slot fn x) t (hd us) ls w))
        (\<lambda>fn us ls w. one (read_local h fn False (slot fn x) ls w)))" for i
  proof (rule emits_then)
    show "emits (\<lambda>fn. P fn \<and> slot_is i x fn) False h 1 0 (seq [emit OpOpAssignLocal i (word_of_int t) 0, popStack 1])
        (\<lambda>fn us ls w. none (compound_assign h fn (slot fn x) t (hd us) ls w))"
      unfolding seq_pair
    proof (rule emits_instr(2))
      fix fn p D and us :: "'a list"
      assume a: "P fn \<and> slot_is i x fn" "instr_at fn p OpOpAssignLocal i (word_of_int t) (sint (0 :: 32 word))"
        "length us = 1"
      show "computes h fn p (Suc p) D us (\<lambda>ls w. none (compound_assign h fn (slot fn x) t (hd us) ls w))"
        using run_OpAssign[OF a(2), of h D "hd us"] a(1,3) t by (auto simp: slot_is_def length_Suc_conv)
    qed (auto dest: none_out)
    have "emits (\<lambda>fn. P fn \<and> slot_is i x fn) False h 0 1 (load OpLoadLocal i)
        (\<lambda>fn us ls w. one (read_local h fn False (slot fn x) ls w))"
      unfolding load_def seq_pair op1_def
    proof (rule emits_instr(3))
      fix fn p D and us :: "'a list"
      assume a: "P fn \<and> slot_is i x fn" "instr_at fn p OpLoadLocal i 0 (sint (0 :: 32 word))" "length us = 0"
        "D + 1 \<le> fn_MaxStack fn"
      show "computes h fn p (Suc p) D us (\<lambda>ls w. one (read_local h fn False (slot fn x) ls w))"
        using run_LoadLocal[of fn p False i 0 "sint (0 :: 32 word)" D h] a by (simp add: slot_is_def)
    qed (auto dest: one_out)
    then show "emits (\<lambda>fn. P fn \<and> slot_is i x fn) False h 0 1 (in_stmt (\<lambda>st. if st then EOk else load OpLoadLocal i))
        (\<lambda>fn us ls w. one (read_local h fn False (slot fn x) ls w))"
      by (intro emits_in_stmt) simp
  qed
  have "emits P False h 0 1 (emitCompoundAssign t (Some (Variable x)) kb)
     (also_then (\<lambda>fn us ls w. one (mb fn ls w))
       (also_then (\<lambda>fn us ls w. none (compound_assign h fn (slot fn x) t (hd us) ls w))
         (\<lambda>fn us ls w. one (read_local h fn False (slot fn x) ls w))))"
    unfolding emitCompoundAssign_def option.case node.case seq_pair[of "subexpr kb"] with_local_split
    by (rule emits_then[OF emits_sub[OF assms(1)] emits_with_local[OF 1]])
  then show ?thesis
    unfolding expr_in_def
    by (rule emits_weaken)
      (simp_all add: also_then_def bindr_one bindr_none eval_compound_def one_bindr fun_eq_iff)
qed

lemma short_circuit_forward:
  "emitShortCircuit orMode ka kb =
     seq [subexpr ka, op0 OpBool, forward (if orMode then OpJmpIfTruePeek else OpJmpIfFalsePeek)
       (seq [seq [op0 OpPop, popStack 1], subexpr kb, op0 OpBool])]"
  by (simp add: emitShortCircuit_def forward_def at_pc_def fun_eq_iff seq_cons e_then_assoc)

lemma expr_short_circuit:
  assumes "expr P h ka ma" "expr P h kb mb"
  shows "expr_in st P h (emitShortCircuit orMode ka kb) (\<lambda>fn. eval_short_circuit h orMode (ma fn) (mb fn))"
proof -
  let ?opc = "if orMode then OpJmpIfTruePeek else OpJmpIfFalsePeek"
  have 1: "emits P st h 1 1 (seq [seq [op0 OpPop, popStack 1], subexpr kb, op0 OpBool])
     (also_then (\<lambda>fn us ls w. (Inr [], ls, w))
       (also_then (\<lambda>fn us ls w. one (mb fn ls w)) (\<lambda>fn us ls w. one (as_bool h (hd us) ls w))))"
    unfolding seq_cons[of "seq [op0 OpPop, popStack 1]"] seq_pair[of "subexpr kb"]
    by (rule emits_then[OF emits_pop emits_then[OF emits_sub[OF assms(2)] emits_bool]])
  have "emits P st h 0 1 (emitShortCircuit orMode ka kb)
     (also_then (\<lambda>fn us ls w. one (ma fn ls w)) (also_then (\<lambda>fn us ls w. one (as_bool h (hd us) ls w))
       (\<lambda>fn us ls w. case peek_test h ?opc (hd us) w of (b, w) \<Rightarrow> if b then (Inr us, ls, w) else
         also_then (\<lambda>fn us ls w. (Inr [], ls, w))
           (also_then (\<lambda>fn us ls w. one (mb fn ls w)) (\<lambda>fn us ls w. one (as_bool h (hd us) ls w))) fn us ls w)))"
    unfolding short_circuit_forward seq_cons[of "subexpr ka"] seq_pair[of "op0 OpBool"]
    by (rule emits_then[OF emits_sub[OF assms(1)] emits_then[OF emits_bool emits_forward_peek[OF 1]]]) auto
  then show ?thesis
    unfolding expr_in_def
    by (rule emits_weaken)
      (auto simp: also_then_def bindr_one one_bindr eval_short_circuit_def peek_test_def fun_eq_iff
        intro!: arg_cong[where f = "bindr _"] split: prod.splits)
qed

lemma coalesce_forward:
  "b \<noteq> None \<Longrightarrow> emitCoalesce (Some (Variable x)) b kb =
     seq [with_local x (load OpLoadLocal), forward OpJmpIfNotNullPeek (seq [seq [op0 OpPop, popStack 1], subexpr kb])]"
  by (cases b) (simp_all add: emitCoalesce_def forward_def at_pc_def fun_eq_iff seq_cons e_then_assoc)

lemma expr_coalesce:
  assumes "b \<noteq> None" "expr P h kb mb"
  shows "expr_in st P h (emitCoalesce (Some (Variable x)) b kb) (\<lambda>fn. eval_coalesce h fn x (mb fn))"
proof -
  have 1: "emits P st h 1 1 (seq [seq [op0 OpPop, popStack 1], subexpr kb])
     (also_then (\<lambda>fn us ls w. (Inr [], ls, w)) (\<lambda>fn us ls w. one (mb fn ls w)))"
    unfolding seq_cons[of "seq [op0 OpPop, popStack 1]"] seq_one by (rule emits_then[OF emits_pop emits_sub[OF assms(2)]])
  have 2: "emits P st h 0 1 (with_local x (load OpLoadLocal)) (\<lambda>fn us ls w. one (read_local h fn False (slot fn x) ls w))"
    using emits_read[of P st h x False] by simp
  have "emits P st h 0 1 (emitCoalesce (Some (Variable x)) b kb)
     (also_then (\<lambda>fn us ls w. one (read_local h fn False (slot fn x) ls w))
       (\<lambda>fn us ls w. case peek_test h OpJmpIfNotNullPeek (hd us) w of (b, w) \<Rightarrow> if b then (Inr us, ls, w) else
         also_then (\<lambda>fn us ls w. (Inr [], ls, w)) (\<lambda>fn us ls w. one (mb fn ls w)) fn us ls w))"
    unfolding coalesce_forward[OF assms(1)] seq_pair[of "with_local x (load OpLoadLocal)"]
    by (rule emits_then[OF 2 emits_forward_peek[OF 1]]) simp
  then show ?thesis
    unfolding expr_in_def
    by (rule emits_weaken)
      (auto simp: also_then_def bindr_one one_bindr eval_coalesce_def peek_test_def fun_eq_iff
        intro!: arg_cong[where f = "bindr _"] split: prod.splits)
qed

lemma expr_unary:
  assumes "unaryOpcode t = Some opc" "expr P h kb mb"
  shows "expr_in st P h (seq [subexpr kb, op0 opc]) (\<lambda>fn. eval_unary h opc (mb fn))"
proof -
  have "opc = OpNeg \<or> opc = OpBitNot \<or> opc = OpNot"
    using assms(1) by (auto simp: unaryOpcode_def split: if_splits)
  from emits_then[OF emits_sub[OF assms(2)] emits_unary_op[OF this]]
  have "emits P st h 0 1 (seq [subexpr kb, op0 opc])
     (also_then (\<lambda>fn us ls w. one (mb fn ls w)) (\<lambda>fn us ls w. one (of_host (h_unop h opc (hd us) w) ls)))"
    by (simp add: seq_pair)
  then show ?thesis
    unfolding expr_in_def
    by (rule emits_weaken) (simp_all add: also_then_def bindr_one one_bindr eval_unary_def fun_eq_iff)
qed

lemma binaryOpcode_binary: "binaryOpcode t = Some opc \<Longrightarrow> is_binary opc"
  by (auto simp: binaryOpcode_def is_binary_def split: if_splits)

text \<open>A second operand, computed above the first.\<close>

lemma emits_second:
  assumes "expr P h k m"
  shows "emits P st h 1 2 (subexpr k) (\<lambda>fn us ls w. bindr (m fn ls w) (\<lambda>v ls w. (Inr [v, hd us], ls, w)))"
proof -
  have "emits P st h (0 + 1) (1 + 1) (subexpr k) (\<lambda>fn us ls w. above (drop 0 us) (one (m fn ls w)))"
    by (rule emits_above[OF emits_sub[OF assms]])
  then have "emits P st h 1 2 (subexpr k) (\<lambda>fn us ls w. above us (one (m fn ls w)))"
    by (simp add: numeral_2_eq_2)
  then show ?thesis
    by (rule emits_weaken) (auto simp: above_def bindr_one length_Suc_conv fun_eq_iff)
qed

lemma expr_binary:
  assumes "is_binary opc" "expr P h ka ma" "expr P h kb mb"
  shows "expr_in st P h (seq [subexpr ka, subexpr kb, op0 opc, popStack 1]) (\<lambda>fn. eval_binary h opc (ma fn) (mb fn))"
proof -
  have "emits P st h 0 1 (seq [subexpr ka, subexpr kb, op0 opc, popStack 1])
     (also_then (\<lambda>fn us ls w. one (ma fn ls w))
       (also_then (\<lambda>fn us ls w. bindr (mb fn ls w) (\<lambda>v ls w. (Inr [v, hd us], ls, w)))
         (\<lambda>fn us ls w. one (of_host (binary_value h opc (us ! 1) (us ! 0) w) ls))))"
    unfolding seq_cons[of "subexpr ka"] seq_cons[of "subexpr kb"]
    by (rule emits_then[OF emits_sub[OF assms(2)] emits_then[OF emits_second[OF assms(3)] emits_binary_op[OF assms(1)]]])
  then show ?thesis
    unfolding expr_in_def
    by (rule emits_weaken) (simp_all add: also_then_def bindr_one one_bindr bindr_assoc eval_binary_def fun_eq_iff)
qed

lemma ternary_branches: "emitTernary False kc ky kn = seq [subexpr kc, branches (subexpr ky) (subexpr kn)]"
  by (simp add: emitTernary_def branches_def)

lemma expr_ternary:
  assumes "expr P h kc mc" "expr P h ky my" "expr P h kn mn"
  shows "expr_in st P h (emitTernary False kc ky kn) (\<lambda>fn. eval_ternary h (mc fn) (my fn) (mn fn))"
proof -
  have "emits P st h 0 1 (emitTernary False kc ky kn)
     (also_then (\<lambda>fn us ls w. one (mc fn ls w))
       (\<lambda>fn us ls w. case truth h (hd us) w of (b, w) \<Rightarrow> if b then one (my fn ls w) else one (mn fn ls w)))"
    unfolding ternary_branches seq_pair
    by (rule emits_then[OF emits_sub[OF assms(1)] emits_branches[OF emits_sub[OF assms(2)] emits_sub[OF assms(3)]]])
  then show ?thesis
    unfolding expr_in_def
    by (rule emits_weaken)
      (auto simp: also_then_def bindr_one one_bindr eval_ternary_def fun_eq_iff
        intro!: arg_cong[where f = "bindr _"] split: prod.splits)
qed

section \<open>Calls and concatenations\<close>

definition args_meaning :: "('v, 'w) host \<Rightarrow> node list \<Rightarrow> ('v, 'w) meaning" where
  "args_meaning h as = (\<lambda>fn us ls w. bindr (eval_args h fn as ls w) (\<lambda>vs ls w. (Inr (rev vs), ls, w)))"

lemma emits_args_cons:
  assumes "expr P h (emitExpr a) (\<lambda>fn. eval h fn a)" "emits P st h 0 (length as) (emitArgs as) (args_meaning h as)"
  shows "emits P st h 0 (length (a # as)) (emitArgs (a # as)) (args_meaning h (a # as))"
proof -
  have "emits P st h (0 + 1) (length as + 1) (emitArgs as)
      (\<lambda>fn us ls w. above (drop 0 us) (args_meaning h as fn (take 0 us) ls w))"
    by (rule emits_above[OF assms(2)])
  then have 1: "emits P st h 1 (length (a # as)) (emitArgs as) (\<lambda>fn us ls w. above us (args_meaning h as fn [] ls w))"
    by simp
  have "emits P st h 0 (length (a # as)) (emitArgs (a # as))
      (also_then (\<lambda>fn us ls w. one (eval h fn a ls w)) (\<lambda>fn us ls w. above us (args_meaning h as fn [] ls w)))"
    unfolding emitArgs.simps seq_pair by (rule emits_then[OF emits_sub[OF assms(1)] 1])
  then show ?thesis
    by (rule emits_weaken)
      (simp_all add: also_then_def bindr_one args_meaning_def above_def bindr_assoc fun_eq_iff)
qed

lemma eval_args_length: "eval_args h fn as ls w = (Inr vs, ls', w') \<Longrightarrow> length vs = length as"
proof (induction as arbitrary: ls w vs ls' w')
  case Nil
  then show ?case by simp
next
  case (Cons a as)
  then show ?case by (fastforce simp: bindr_def split: prod.splits sum.splits)
qed

lemma emits_call_instr:
  assumes "n \<le> 0xFFFF"
  shows "emits (\<lambda>fn. P fn \<and> const_is i (VString name) fn) st h n 1
    (\<lambda>e. e_then (emit OpCallUser i (of_nat n) 0 e) (if n > 0 then popStack (n - 1) else pushStack 1))
    (\<lambda>fn us ls w. one (of_host (h_Call h name (rev us) w) ls))" (is "emits ?P st h n 1 _ ?M")
proof -
  have u: "unat (of_nat n :: 16 word) = n" using assms by (simp add: unat_of_nat take_bit_nat_eq_self)
  have run: "computes h fn p (Suc p) D us (?M fn us)"
    if "const_is i (VString name) fn" "instr_at fn p OpCallUser i (of_nat n) (sint (0 :: 32 word))" "length us = n"
      "D + 1 \<le> fn_MaxStack fn" for fn p D and us :: "'a list"
    using run_Call[OF that(2), of name "rev us" D h] that(1,3,4) u by (simp add: const_is_def)
  show ?thesis
  proof (cases "n > 0")
    case True
    then have "emits ?P st h n 1 (\<lambda>e. e_then (emit OpCallUser i (of_nat n) 0 e) (popStack (n - 1))) ?M"
      by (intro emits_instr(2)) (auto intro: run dest: one_out)
    then show ?thesis using True by simp
  next
    case False
    then have "emits ?P st h n 1 (\<lambda>e. e_then (emit OpCallUser i (of_nat n) 0 e) (pushStack 1)) ?M"
      using run by (intro emits_instr(3)) (auto dest: one_out)
    then show ?thesis using False by simp
  qed
qed

lemma expr_call:
  assumes "emits P False h 0 (length args) (emitArgs args) (args_meaning h args)"
  shows "expr P h (emitCall name (length args) (emitArgs args)) (\<lambda>fn. eval_call h name (eval_args h fn args))"
proof (cases "name = [] \<or> length args > 0xFFFF")
  case True
  then show ?thesis by (auto simp: emitCall_def expr_in_def)
next
  case False
  let ?n = "length args"
  have drop: "emits Q False h 1 1 drop_in_stmt (\<lambda>fn us ls w. (Inr us, ls, w))" for Q
    by (rule emitsI) (auto simp: drop_in_stmt_def in_stmt_def means_def intro: computes_empty)
  let ?M = "\<lambda>fn us ls w. one (of_host (h_Call h name (rev us) w) ls)"
  have k: "emitCall name ?n (emitArgs args) =
      (\<lambda>e. e_then (emitArgs args e) (\<lambda>e. e_then (with_const (VString name) (\<lambda>i e. e_then (emit OpCallUser i (of_nat ?n) 0 e)
          (if ?n > 0 then popStack (?n - 1) else pushStack 1)) e) drop_in_stmt))"
    using False
    by (auto simp: emitCall_def seq_cons with_const_def fun_eq_iff e_then_assoc case_prod_unfold)
  have "emits P False h 0 1 (emitCall name ?n (emitArgs args))
      (also_then (args_meaning h args) (also_then ?M (\<lambda>fn us ls w. (Inr us, ls, w))))"
    unfolding k
    by (rule emits_then[OF assms emits_then[OF emits_with_const[OF emits_call_instr] drop]]) (use False in simp)
  then show ?thesis
    unfolding expr_in_def
    by (rule emits_weaken)
      (simp_all add: also_then_def args_meaning_def eval_call_def bindr_assoc one_bindr fun_eq_iff)
qed

lemma emits_concat_cons:
  assumes "expr P h (emitExpr p) (\<lambda>fn. eval h fn p)"
    "emits P st h 1 1 (emitConcatRest ps) (\<lambda>fn us ls w. one (eval_concat h fn ps (hd us) ls w))"
  shows "emits P st h 1 1 (emitConcatRest (p # ps)) (\<lambda>fn us ls w. one (eval_concat h fn (p # ps) (hd us) ls w))"
proof -
  have k: "emitConcatRest (p # ps) =
      (\<lambda>e. e_then (subexpr (emitExpr p) e) (\<lambda>e. e_then (seq [op0 OpConcat, popStack 1] e) (emitConcatRest ps)))"
    by (simp add: fun_eq_iff seq_cons e_then_assoc)
  have "emits P st h 1 1 (emitConcatRest (p # ps))
     (also_then (\<lambda>fn us ls w. bindr (eval h fn p ls w) (\<lambda>v ls w. (Inr [v, hd us], ls, w)))
       (also_then (\<lambda>fn us ls w. one (of_host (binary_value h OpConcat (us ! 1) (us ! 0) w) ls))
         (\<lambda>fn us ls w. one (eval_concat h fn ps (hd us) ls w))))"
    unfolding k
    by (rule emits_then[OF emits_second[OF assms(1)] emits_then[OF emits_binary_op assms(2)]]) (simp add: is_binary_def)
  then show ?thesis
    by (rule emits_weaken) (simp_all add: also_then_def bindr_one one_bindr bindr_assoc fun_eq_iff)
qed

lemma expr_concat:
  assumes "expr P h (emitExpr p) (\<lambda>fn. eval h fn p)"
    "emits P st h 1 1 (emitConcatRest ps) (\<lambda>fn us ls w. one (eval_concat h fn ps (hd us) ls w))"
  shows "expr_in st P h (emitExpr (ConcatNode (p # ps))) (\<lambda>fn. eval h fn (ConcatNode (p # ps)))"
proof -
  have "emits P st h 0 1 (emitExpr (ConcatNode (p # ps)))
     (also_then (\<lambda>fn us ls w. one (eval h fn p ls w)) (\<lambda>fn us ls w. one (eval_concat h fn ps (hd us) ls w)))"
    unfolding emitExpr.simps list.case seq_pair by (rule emits_then[OF emits_sub[OF assms(1)] assms(2)])
  then show ?thesis
    unfolding expr_in_def
    by (rule emits_weaken) (simp_all add: also_then_def bindr_one one_bindr fun_eq_iff)
qed

section \<open>Expressions\<close>

text \<open>The expressions whose code is right: without \<open>?:\<close> in its short form.\<close>

fun plain :: "node \<Rightarrow> bool" and plain_opt :: "node option \<Rightarrow> bool" and plains :: "node list \<Rightarrow> bool" where
  "plain (ConcatNode ps) = plains ps"
| "plain (Operator t a b w c) = (plain_opt a \<and> plain_opt b \<and> (c \<longrightarrow> 0 \<le> t \<and> t < 65536))"
| "plain (FunctionCall name as) = plains as"
| "plain (IfNode c y n short) = (\<not> short \<and> plain c \<and> plain_opt y \<and> plain_opt n)"
| "plain (Runnables ns) = plains ns"
| "plain _ = True"
| "plain_opt None = True"
| "plain_opt (Some n) = plain n"
| "plains [] = True"
| "plains (n # ns) = (plain n \<and> plains ns)"

lemma expr_incdec_operator:
  "expr P h (emitIncDec a b inc)
     (\<lambda>fn. case (if a \<noteq> None then a else b) of
        Some (Variable x) \<Rightarrow> eval_inc_dec h fn (slot fn x) inc (a \<noteq> None) | _ \<Rightarrow> mb fn)"
proof (cases "\<exists>x. (if a \<noteq> None then a else b) = Some (Variable x)")
  case True
  then obtain x where x: "(if a \<noteq> None then a else b) = Some (Variable x)" by blast
  have "expr P h (with_local x (\<lambda>i. seq [op1 (inc_dec_opcode inc (a \<noteq> None)) i, pushStack 1, drop_in_stmt]))
     (\<lambda>fn. eval_inc_dec h fn (slot fn x) inc (a \<noteq> None))"
    unfolding expr_in_def by (rule emits_inc_dec)
  then show ?thesis
    unfolding emitIncDec_def Let_def x by (simp only: option.case node.case inc_dec_opcode_def)
next
  case False
  then have "emitIncDec a b inc = (\<lambda>e. Outside)"
    unfolding emitIncDec_def Let_def by (auto split: option.splits node.splits)
  then show ?thesis by (simp add: expr_in_def)
qed

lemma expr_fail [simp]: "expr P h (\<lambda>e. Unsupported) m" "expr P h (\<lambda>e. Outside) m"
  by (simp_all add: expr_in_def)

lemma expr_operator:
  assumes "expr P h (emitOpt a) (\<lambda>fn. eval_opt h fn a)" "expr P h (emitOpt b) (\<lambda>fn. eval_opt h fn b)"
    "c \<Longrightarrow> 0 \<le> t \<and> t < 65536"
  shows "expr P h (emitExpr (Operator t a b wr c)) (\<lambda>fn. eval h fn (Operator t a b wr c))"
proof -
  have var: "\<And>k m m'. (\<And>x. a = Some (Variable x) \<Longrightarrow> expr P h (k x) (m x)) \<Longrightarrow>
      expr P h (case a of Some (Variable x) \<Rightarrow> k x | _ \<Rightarrow> (\<lambda>e. Outside)) (\<lambda>fn. case a of Some (Variable x) \<Rightarrow> m x fn | _ \<Rightarrow> m' fn)"
    by (auto split: option.splits node.splits)
  show ?thesis
  proof (cases "t = T_INC \<or> t = T_DEC")
    case True
    then show ?thesis using expr_incdec_operator[of P h a b "t = T_INC" "\<lambda>fn. eval_opt h fn b"]
      by (simp add: emitOperator_def eval_operator_def)
  next
    case step: False
    show ?thesis
    proof (cases "wr \<and> \<not> c")
      case True
      have "expr P h (emitAssign a (emitOpt b))
          (\<lambda>fn. case a of Some (Variable x) \<Rightarrow> eval_assign h fn x (eval_opt h fn b) | _ \<Rightarrow> eval_opt h fn b)"
        using expr_assign[OF assms(2)] by (auto simp: emitAssign_def split: option.splits node.splits)
      then show ?thesis using step True by (simp add: emitOperator_def eval_operator_def)
    next
      case assign: False
      show ?thesis
      proof (cases c)
        case True
        then have t: "0 \<le> t" "t < 65536" using assms(3) by simp_all
        have "expr P h (emitCompoundAssign t a (emitOpt b))
            (\<lambda>fn. case a of Some (Variable x) \<Rightarrow> eval_compound h fn x t (eval_opt h fn b) | _ \<Rightarrow> eval_opt h fn b)"
          using expr_compound[OF assms(2) t] by (auto simp: emitCompoundAssign_def split: option.splits node.splits)
        then show ?thesis using step assign True by (simp add: emitOperator_def eval_operator_def)
      next
        case compound: False
        consider (conj) "t = T_BOOLEAN_AND \<or> t = T_LOGICAL_AND"
          | (disj) "t = T_BOOLEAN_OR \<or> t = T_LOGICAL_OR" "\<not> (t = T_BOOLEAN_AND \<or> t = T_LOGICAL_AND)"
          | (coalesce) "t = T_COALESCE" "\<not> (t = T_BOOLEAN_AND \<or> t = T_LOGICAL_AND)" "\<not> (t = T_BOOLEAN_OR \<or> t = T_LOGICAL_OR)"
          | (other) "t \<noteq> T_COALESCE" "\<not> (t = T_BOOLEAN_AND \<or> t = T_LOGICAL_AND)" "\<not> (t = T_BOOLEAN_OR \<or> t = T_LOGICAL_OR)"
          by blast
        then show ?thesis
        proof cases
          case conj
          then show ?thesis using step assign compound expr_short_circuit[OF assms(1,2), where orMode = False]
            by (simp add: emitOperator_def eval_operator_def)
        next
          case disj
          then show ?thesis using step assign compound expr_short_circuit[OF assms(1,2), where orMode = True]
            by (simp add: emitOperator_def eval_operator_def)
        next
          case coalesce
          have "expr P h (emitCoalesce a b (emitOpt b))
              (\<lambda>fn. case a of Some (Variable x) \<Rightarrow> eval_coalesce h fn x (eval_opt h fn b) | _ \<Rightarrow> eval_opt h fn b)"
            using expr_coalesce[OF _ assms(2), of b]
            by (auto simp: emitCoalesce_def split: option.splits node.splits)
          then show ?thesis using coalesce step assign compound by (simp add: emitOperator_def eval_operator_def)
        next
          case other
          show ?thesis
          proof (cases a)
            case None
            then show ?thesis using other step assign compound expr_unary[OF _ assms(2)]
              by (auto simp: emitOperator_def eval_operator_def split: option.splits)
          next
            case (Some a')
            then show ?thesis using other step assign compound expr_binary[OF binaryOpcode_binary assms(1,2)]
              by (auto simp: emitOperator_def eval_operator_def split: option.splits)
          qed
        qed
      qed
    qed
  qed
qed

lemma expr_emitExpr:
  "plain n \<Longrightarrow> expr P h (emitExpr n) (\<lambda>fn. eval h fn n)"
  "plain_opt a \<Longrightarrow> expr P h (emitOpt a) (\<lambda>fn. eval_opt h fn a)"
  "plains as \<Longrightarrow> \<forall>st. emits P st h 0 (length as) (emitArgs as) (args_meaning h as)"
  "plains ps \<Longrightarrow> \<forall>st. emits P st h 1 1 (emitConcatRest ps) (\<lambda>fn us ls w. one (eval_concat h fn ps (hd us) ls w))"
proof (induction n and a and as and ps rule: emitExpr_emitOpt_emitArgs_emitConcatRest.induct)
  case (1 v)
  then show ?case using emits_literal by (simp add: expr_in_def)
next
  case (2 x)
  then show ?case using emits_read[of P False h x True] by (simp add: expr_in_def)
next
  case (3 ps)
  show ?case
  proof (cases ps)
    case Nil
    have "expr P h (emitLiteral (VString [])) (\<lambda>fn. eval_literal h (VString []))"
      using emits_literal by (simp add: expr_in_def)
    then show ?thesis using Nil by (simp add: emitLiteral_def eval_literal_def fun_eq_iff expr_in_def)
  next
    case (Cons p ps')
    then have "expr P h (emitExpr p) (\<lambda>fn. eval h fn p)"
        "emits P False h 1 1 (emitConcatRest ps') (\<lambda>fn us ls w. one (eval_concat h fn ps' (hd us) ls w))"
      using 3 by simp_all
    then show ?thesis unfolding Cons by (rule expr_concat)
  qed
next
  case (4 t a b w c)
  then show ?case using expr_operator[of P h a b c t w] by simp
next
  case (5 name args)
  then have "emits P False h 0 (length args) (emitArgs args) (args_meaning h args)" by simp
  from expr_call[OF this, of name] show ?case by simp
next
  case (6 c y n short)
  then show ?case using expr_ternary[of P h "emitExpr c"] by simp
next
  case (7 ns)
  then show ?case by (cases ns; cases "tl ns") (auto split: list.splits)
next
  case 10
  then show ?case using emits_literal[where v = VNull and h = h and P = P and st = False] by (simp add: expr_in_def emitLiteral_def)
next
  case 12
  show ?case
    unfolding emitArgs.simps list.size(3)
    by (intro allI, rule emits_weaken[OF emits_none]) (simp_all add: args_meaning_def fun_eq_iff)
next
  case (13 a as)
  then show ?case by (intro allI emits_args_cons) simp_all
next
  case 14
  show ?case
    unfolding emitConcatRest.simps
    by (intro allI, rule emits_weaken[OF emits_none]) (auto simp: length_Suc_conv fun_eq_iff)
next
  case (15 p ps)
  then show ?case by (intro allI emits_concat_cons) simp_all
qed simp_all

end
