(* ===== verification/VmType.thy ===== *)
theory VmType
  imports VmCorrect
begin

text \<open>
  A bytecode verifier and the emitter's promise to it: whatever body \<open>Compile\<close> accepts (\<open>switch\<close> and \<open>try\<close> included),
  every opcode is one the machine knows, every constant, local and handler it names exists, every jump stays within
  the code and every handler covers a range of it.
\<close>

section \<open>The verifier\<close>

definition const_ops :: "8 word list" where
  "const_ops = [OpLoadConst, OpCallUser, OpInlineHtml]"

definition local_ops :: "8 word list" where
  "local_ops =
     [OpLoadLocal, OpLoadLocalOrWarn, OpStoreLocal, OpStoreLocalKeep, OpIncLocal, OpDecLocal, OpPostIncLocal,
      OpPostDecLocal, OpOpAssignLocal, OpForeachStep]"

definition jump_ops :: "8 word list" where
  "jump_ops =
     [OpJmp, OpJmpIfFalse, OpJmpIfTrue, OpJmpIfFalsePeek, OpJmpIfTruePeek, OpJmpIfNotNullPeek, OpForeachInit,
      OpForeachStep]"

definition plain_ops :: "8 word list" where
  "plain_ops =
     [OpLoadNull, OpLoadTrue, OpLoadFalse, OpPop, OpAdd, OpSub, OpMul, OpDiv, OpMod, OpPow, OpBitAnd, OpBitOr, OpBitXor,
      OpShl, OpShr, OpNeg, OpBitNot, OpConcat, OpCmpEq, OpCmpNe, OpCmpId, OpCmpNid, OpCmpLt, OpCmpLe, OpCmpGt, OpCmpGe,
      OpCmpSpaceship, OpNot, OpBool, OpRet, OpRetNull, OpThrow, OpForeachAdvance, OpForeachUnwind, OpTick]"

text \<open>The instruction \<open>i\<close> at \<open>p\<close> in code of length \<open>n\<close> with \<open>c\<close> constants, \<open>l\<close> locals and \<open>h\<close> handlers.\<close>

definition typed_ops :: "nat \<Rightarrow> nat \<Rightarrow> nat \<Rightarrow> 8 word \<Rightarrow> 16 word \<Rightarrow> 16 word \<Rightarrow> bool" where
  "typed_ops c l h opc a b =
     (opc \<in> set (const_ops @ local_ops @ jump_ops @ plain_ops @ [OpFinallyEnd]) \<and>
      (opc \<in> set const_ops \<longrightarrow> unat a < c) \<and>
      (opc \<in> set local_ops \<longrightarrow> unat a < l) \<and>
      (opc = OpForeachStep \<longrightarrow> b = 0xFFFF \<or> unat b < l) \<and>
      (opc = OpFinallyEnd \<longrightarrow> unat a < h))"

definition typed_jump :: "nat \<Rightarrow> nat \<Rightarrow> instruction \<Rightarrow> bool" where
  "typed_jump n p i = (in_Op i \<in> set jump_ops \<longrightarrow> 0 \<le> int p + 1 + sint (in_C i) \<and> int p + 1 + sint (in_C i) \<le> int n)"

definition typed_instr :: "nat \<Rightarrow> nat \<Rightarrow> nat \<Rightarrow> nat \<Rightarrow> nat \<Rightarrow> instruction \<Rightarrow> bool" where
  "typed_instr n c l h p i = (typed_ops c l h (in_Op i) (in_A i) (in_B i) \<and> typed_jump n p i)"

definition typed_clause :: "nat \<Rightarrow> int \<Rightarrow> int \<Rightarrow> catch_clause \<Rightarrow> bool" where
  "typed_clause l lo hi cl = (lo \<le> cc_PC cl \<and> cc_PC cl \<le> hi \<and> (cc_VarIdx cl = 0xFFFF \<or> unat (cc_VarIdx cl) < l))"

definition typed_handler :: "nat \<Rightarrow> nat \<Rightarrow> try_handler \<Rightarrow> bool" where
  "typed_handler n l th =
     (0 \<le> th_Start th \<and> th_Start th < th_End th \<and> th_End th \<le> th_AfterCatch th \<and> th_AfterCatch th \<le> int n \<and>
      (\<forall>cl \<in> set (th_Catches th). typed_clause l (th_End th) (th_AfterCatch th) cl) \<and>
      (th_HasFinally th \<longrightarrow> th_FinallyPC th = th_AfterCatch th \<and> th_FinallyPC th \<le> th_FinallyEnd th \<and> th_FinallyEnd th < int n))"

text \<open>The code ends with a return, and no jump and no handler goes behind it.\<close>

definition typed_func :: "func \<Rightarrow> bool" where
  "typed_func fn =
     (fn_Code fn \<noteq> [] \<and> in_Op (last (fn_Code fn)) = OpRetNull \<and>
      (let n = length (fn_Code fn) - 1; c = length (fn_Consts fn); l = length (fn_Locals fn); h = length (fn_TryHandlers fn) in
       (\<forall>p < length (fn_Code fn). typed_instr n c l h p (fn_Code fn ! p)) \<and> (\<forall>th \<in> set (fn_TryHandlers fn). typed_handler n l th)))"

section \<open>The emitter's state\<close>

definition typed :: "emitter \<Rightarrow> bool" where
  "typed e =
     (let n = here e; c = length (em_consts e); l = length (em_locals e); h = length (em_tryHandlers e) in
      (\<forall>p < n. typed_instr n c l h p (em_code e ! p)) \<and> (\<forall>th \<in> set (em_tryHandlers e). typed_handler n l th))"

definition tables :: "emitter \<Rightarrow> bool" where
  "tables e =
     ((\<forall>(v, i) \<in> set (em_constMap e). unat i < length (em_consts e)) \<and>
      (\<forall>(x, i) \<in> set (em_localMap e). unat i < length (em_locals e)))"

definition em_grows :: "emitter \<Rightarrow> emitter \<Rightarrow> bool" where
  "em_grows e e' =
     (here e \<le> here e' \<and> length (em_consts e) \<le> length (em_consts e') \<and> length (em_locals e) \<le> length (em_locals e') \<and>
      length (em_tryHandlers e) \<le> length (em_tryHandlers e'))"

text \<open>Code that keeps the state typed when the code so far has at least \<open>n\<close> instructions, \<open>c\<close> constants and \<open>l\<close>
  locals.\<close>

definition fit :: "nat \<Rightarrow> nat \<Rightarrow> nat \<Rightarrow> emitter \<Rightarrow> bool" where
  "fit n c l e = (tables e \<and> n \<le> here e \<and> c \<le> length (em_consts e) \<and> l \<le> length (em_locals e))"

definition good :: "nat \<Rightarrow> nat \<Rightarrow> nat \<Rightarrow> (emitter \<Rightarrow> emitted) \<Rightarrow> bool" where
  "good n c l k =
     (\<forall>e e'. fit n c l e \<longrightarrow> k e = EOk e' \<longrightarrow> em_grows e e' \<and> tables e' \<and> (typed e \<longrightarrow> here e' < 2 ^ 31 \<longrightarrow> typed e'))"

lemma goodI:
  "(\<And>e e'. fit n c l e \<Longrightarrow> k e = EOk e' \<Longrightarrow> em_grows e e' \<and> tables e' \<and> (typed e \<longrightarrow> here e' < 2 ^ 31 \<longrightarrow> typed e')) \<Longrightarrow> good n c l k"
  by (simp add: good_def)

lemma goodD:
  "good n c l k \<Longrightarrow> fit n c l e \<Longrightarrow> k e = EOk e' \<Longrightarrow> em_grows e e' \<and> tables e' \<and> (typed e \<longrightarrow> here e' < 2 ^ 31 \<longrightarrow> typed e')"
  by (simp add: good_def)

lemma em_grows_refl [simp]: "em_grows e e"
  by (simp add: em_grows_def)

lemma em_grows_trans: "em_grows e e1 \<Longrightarrow> em_grows e1 e' \<Longrightarrow> em_grows e e'"
  by (simp add: em_grows_def)

lemma fit_grows: "fit n c l e \<Longrightarrow> em_grows e e' \<Longrightarrow> tables e' \<Longrightarrow> fit n c l e'"
  by (auto simp: fit_def em_grows_def)

lemma typed_instr_mono:
  "typed_instr n c l h p i \<Longrightarrow> n \<le> n' \<Longrightarrow> c \<le> c' \<Longrightarrow> l \<le> l' \<Longrightarrow> h \<le> h' \<Longrightarrow> typed_instr n' c' l' h' p i"
  by (auto simp: typed_instr_def typed_ops_def typed_jump_def)

lemma typed_handler_mono: "typed_handler n l th \<Longrightarrow> n \<le> n' \<Longrightarrow> l \<le> l' \<Longrightarrow> typed_handler n' l' th"
  by (fastforce simp: typed_handler_def typed_clause_def)

lemma good_mono: "good n c l k \<Longrightarrow> n \<le> n' \<Longrightarrow> c \<le> c' \<Longrightarrow> l \<le> l' \<Longrightarrow> good n' c' l' k"
  unfolding good_def fit_def by (meson order_trans)

lemma good_any: "good 0 0 0 k \<Longrightarrow> good n c l k"
  by (rule good_mono[of 0 0 0]) simp_all

section \<open>Single steps\<close>

lemma good_EOk: "good n c l EOk"
  by (simp add: good_def fit_def)

lemma good_fail: "good n c l (\<lambda>e. Unsupported)" "good n c l (\<lambda>e. Outside)"
  by (simp_all add: good_def)

lemma good_seq_Nil: "good n c l (seq [])"
  by (simp add: good_def fit_def)

lemma good_seq:
  assumes "good n c l k" "good n c l (seq ks)"
  shows "good n c l (seq (k # ks))"
proof (rule goodI)
  fix e e' assume e: "fit n c l e" "seq (k # ks) e = EOk e'"
  then obtain e1 where e1: "k e = EOk e1" "seq ks e1 = EOk e'" by (auto simp: e_then_EOk)
  note 1 = goodD[OF assms(1) e(1) e1(1)]
  have "fit n c l e1" using fit_grows[OF e(1)] 1 by blast
  note 2 = goodD[OF assms(2) this e1(2)]
  have "here e1 \<le> here e'" using 2 by (simp add: em_grows_def)
  then show "em_grows e e' \<and> tables e' \<and> (typed e \<longrightarrow> here e' < 2 ^ 31 \<longrightarrow> typed e')"
    using 1 2 em_grows_trans[of e e1 e'] by auto
qed

lemma good_seq_all: "\<forall>k \<in> set ks. good n c l k \<Longrightarrow> good n c l (seq ks)"
proof (induction ks)
  case (Cons k ks)
  then show ?case by (intro good_seq) simp_all
qed (rule good_seq_Nil)

lemma good_at_pc:
  assumes "\<And>pc. n \<le> pc \<Longrightarrow> good pc c l (k pc)"
  shows "good n c l (at_pc k)"
proof (rule goodI)
  fix e e' assume "fit n c l e" "at_pc k e = EOk e'"
  then show "em_grows e e' \<and> tables e' \<and> (typed e \<longrightarrow> here e' < 2 ^ 31 \<longrightarrow> typed e')"
    using goodD[OF assms[of "here e"], of e e'] by (simp add: fit_def at_pc_def)
qed

text \<open>An action on the fields that typing does not look at.\<close>

definition silent :: "(emitter \<Rightarrow> emitter) \<Rightarrow> bool" where
  "silent g =
     (\<forall>e. em_code (g e) = em_code e \<and> em_consts (g e) = em_consts e \<and> em_constMap (g e) = em_constMap e \<and>
        em_locals (g e) = em_locals e \<and> em_localMap (g e) = em_localMap e \<and> em_tryHandlers (g e) = em_tryHandlers e)"

lemma silentD: "silent g \<Longrightarrow> em_grows (g e) = em_grows e \<and> em_grows e (g e) \<and> typed (g e) = typed e \<and> tables (g e) = tables e \<and> fit n c l (g e) = fit n c l e \<and> here (g e) = here e"
  by (simp add: silent_def em_grows_def typed_def tables_def fit_def here_def fun_eq_iff)

lemma good_act: "silent g \<Longrightarrow> good n c l (act g)"
  using silentD[of g] by (auto simp: good_def act_def fit_def)

lemma silent_acts:
  "silent (pushLoop b)" "silent popLoop" "silent (recordLoc loc)" "silent (add_break d p)" "silent (add_continue d p)"
  "silent push_finally" "silent pop_finally"
  by (simp_all add: silent_def pushLoop_def popLoop_def recordLoc_def add_break_def add_continue_def push_finally_def
      pop_finally_def split: option.splits)

lemma good_stack: "good n c l (pushStack m)" "good n c l (popStack m)"
  by (auto simp: good_def pushStack_def popStack_def Let_def em_grows_def typed_def tables_def fit_def here_def split: if_splits)

lemma good_subexpr:
  assumes "good n c l k"
  shows "good n c l (subexpr k)"
proof (rule goodI)
  fix e e' assume e: "fit n c l e" "subexpr k e = EOk e'"
  then obtain e1 where e1: "k (e\<lparr>em_stmtCtx := False\<rparr>) = EOk e1" "e' = e1\<lparr>em_stmtCtx := em_stmtCtx e\<rparr>"
    by (auto simp: subexpr_def e_then_EOk)
  have "silent (em_stmtCtx_update (\<lambda>_. b))" for b by (simp add: silent_def)
  note s = silentD[OF this]
  show "em_grows e e' \<and> tables e' \<and> (typed e \<longrightarrow> here e' < 2 ^ 31 \<longrightarrow> typed e')"
    using goodD[OF assms _ e1(1)] e(1) s[of False e] s[of "em_stmtCtx e" e1] by (simp add: e1(2) em_grows_def)
qed

lemma good_in_stmt: "good n c l (k True) \<Longrightarrow> good n c l (k False) \<Longrightarrow> good n c l (in_stmt k)"
  by (auto simp: good_def in_stmt_def) (metis (full_types))+

lemma good_emit:
  assumes "\<And>h. typed_ops c l h opc a b"
  shows "good n c l (emit opc a b 0)"
proof (rule goodI)
  fix e e' assume e: "fit n c l e" "emit opc a b 0 e = EOk e'"
  then obtain i where i: "Encode opc a b 0 = Some i" "e' = e\<lparr>em_code := em_code e @ [i]\<rparr>" by (auto simp: emit_EOk)
  let ?c = "length (em_consts e)" and ?l = "length (em_locals e)" and ?h = "length (em_tryHandlers e)"
  have le: "c \<le> ?c" "l \<le> ?l" using e(1) by (simp_all add: fit_def)
  have "typed_instr (Suc (here e)) c l ?h (here e) i"
    using assms[of ?h] encode_fields[OF i(1)] encode_C[OF i(1)] by (simp add: typed_instr_def typed_jump_def)
  then have new: "typed_instr (Suc (here e)) ?c ?l ?h (here e) i"
    using typed_instr_mono[OF _ order_refl le order_refl] by blast
  have "typed e \<Longrightarrow> typed e'"
    using new typed_instr_mono[of "here e" ?c ?l ?h _ _ "Suc (here e)" ?c ?l ?h]
      typed_handler_mono[of "here e" ?l _ "Suc (here e)" ?l]
    by (auto simp: i(2) typed_def Let_def here_def nth_append less_Suc_eq)
  then show "em_grows e e' \<and> tables e' \<and> (typed e \<longrightarrow> here e' < 2 ^ 31 \<longrightarrow> typed e')" using e(1) by (simp add: i(2) em_grows_def here_def fit_def tables_def)
qed

lemma patched_target:
  assumes "Encode opc a b (of_nat t - (of_nat p + 1)) = Some i" "p < n" "t \<le> n" "n < 2 ^ 31"
  shows "int p + 1 + sint (in_C i) = int t"
proof -
  let ?d = "int t - (int p + 1)"
  have "in_C i = (word_of_int ?d :: 32 word)"
    using encode_C[OF assms(1)] by (simp add: word_of_int_minus)
  moreover have "- (2 ^ 31) \<le> ?d" "?d < 2 ^ 31" using assms(2-4) by simp_all
  then have "sint (word_of_int ?d :: 32 word) = ?d" unfolding int_word_sint by simp
  ultimately show ?thesis by simp
qed

lemma good_patchJump:
  assumes "t \<le> n"
  shows "good n c l (patchJump p t)"
proof (rule goodI)
  fix e e' assume e: "fit n c l e" "patchJump p t e = EOk e'"
  obtain i where i: "p < here e" "e' = e\<lparr>em_code := (em_code e)[p := i]\<rparr>"
      "Encode (in_Op (em_code e ! p)) (in_A (em_code e ! p)) (in_B (em_code e ! p)) (of_nat t - (of_nat p + 1)) = Some i"
    by (rule patchJump_EOk[OF e(2)])
  have h: "here e' = here e" by (simp add: i(2) here_def)
  have t: "t \<le> here e" using assms e(1) by (simp add: fit_def)
  have "typed e'" if w: "typed e" "here e' < 2 ^ 31"
  proof -
    have "typed_instr (here e) (length (em_consts e)) (length (em_locals e)) (length (em_tryHandlers e)) p (em_code e ! p)"
      using w(1) i(1) by (simp add: typed_def Let_def)
    then have "typed_instr (here e) (length (em_consts e)) (length (em_locals e)) (length (em_tryHandlers e)) p i"
      using encode_fields[OF i(3)] patched_target[OF i(3,1) t] t w(2) h by (simp add: typed_instr_def typed_jump_def)
    then show ?thesis using w(1) i(1) by (auto simp: i(2) typed_def Let_def here_def nth_list_update)
  qed
  then show "em_grows e e' \<and> tables e' \<and> (typed e \<longrightarrow> here e' < 2 ^ 31 \<longrightarrow> typed e')" using e(1) by (simp add: em_grows_def i(2) here_def fit_def tables_def)
qed

lemma good_patch_all: "t \<le> n \<Longrightarrow> good n c l (patch_all ps t)"
proof (induction ps)
  case (Cons p ps)
  have e: "patch_all (p # ps) t = seq [patchJump p t, patch_all ps t]" by (simp add: fun_eq_iff)
  show ?case unfolding e using Cons by (intro good_seq good_seq_Nil good_patchJump) simp_all
qed (simp add: good_def fun_eq_iff fit_def)

lemma good_patch_loops: "t \<le> n \<Longrightarrow> good n c l (patch_breaks t)" "t \<le> n \<Longrightarrow> good n c l (patch_continues t)"
  using good_patch_all by (auto simp: good_def patch_breaks_def patch_continues_def)

text \<open>An index is in range even where it wraps around.\<close>

lemma of_nat_16: "unat (of_nat m :: 16 word) \<le> m"
  by (simp add: unat_of_nat)

lemma typed_more:
  assumes "typed e" "em_code e' = em_code e" "em_tryHandlers e' = em_tryHandlers e"
    "length (em_consts e) \<le> length (em_consts e')" "length (em_locals e) \<le> length (em_locals e')"
  shows "typed e'"
  using assms typed_instr_mono[OF _ order_refl assms(4,5) order_refl] typed_handler_mono[OF _ order_refl assms(5)]
  by (simp add: typed_def Let_def here_def)

lemma good_with_const:
  assumes "\<And>i. good n (max c (Suc (unat i))) l (k i)"
  shows "good n c l (with_const v k)"
proof (rule goodI)
  fix e e' assume e: "fit n c l e" "with_const v k e = EOk e'"
  obtain i e1 where i: "constIndex v e = (i, e1)" by (rule prod.exhaust)
  have 1: "em_code e1 = em_code e" "em_tryHandlers e1 = em_tryHandlers e" "em_locals e1 = em_locals e"
      "length (em_consts e) \<le> length (em_consts e1)" "tables e1" "unat i < length (em_consts e1)"
    using i e(1) of_nat_16[of "length (em_consts e)"]
    by (auto simp: constIndex_def Let_def fit_def tables_def less_Suc_eq dest!: map_of_SomeD split: option.splits)
  then have "fit n (max c (Suc (unat i))) l e1" "em_grows e e1" using e(1) by (auto simp: fit_def em_grows_def here_def)
  moreover have "typed e \<Longrightarrow> typed e1" using typed_more[of e e1] 1 by simp
  moreover have "k i e1 = EOk e'" using e(2) by (simp add: with_const_def i)
  ultimately show "em_grows e e' \<and> tables e' \<and> (typed e \<longrightarrow> here e' < 2 ^ 31 \<longrightarrow> typed e')"
    using goodD[OF assms] em_grows_trans[of e e1 e'] by blast
qed

lemma good_with_local:
  assumes "\<And>i. good n c (max l (Suc (unat i))) (k i)"
  shows "good n c l (with_local x k)"
proof (rule goodI)
  fix e e' assume e: "fit n c l e" "with_local x k e = EOk e'"
  obtain i e1 where i: "localIndex x e = (i, e1)" by (rule prod.exhaust)
  have 1: "em_code e1 = em_code e" "em_tryHandlers e1 = em_tryHandlers e" "em_consts e1 = em_consts e"
      "length (em_locals e) \<le> length (em_locals e1)" "tables e1" "unat i < length (em_locals e1)"
    using i e(1) of_nat_16[of "length (em_locals e)"]
    by (auto simp: localIndex_def Let_def fit_def tables_def less_Suc_eq dest!: map_of_SomeD split: option.splits)
  then have "fit n c (max l (Suc (unat i))) e1" "em_grows e e1" using e(1) by (auto simp: fit_def em_grows_def here_def)
  moreover have "typed e \<Longrightarrow> typed e1" using typed_more[of e e1] 1 by simp
  moreover have "k i e1 = EOk e'" using e(2) by (simp add: with_local_def i)
  ultimately show "em_grows e e' \<and> tables e' \<and> (typed e \<longrightarrow> here e' < 2 ^ 31 \<longrightarrow> typed e')"
    using goodD[OF assms] em_grows_trans[of e e1 e'] by blast
qed

section \<open>Expressions\<close>

lemmas ops_defs = typed_ops_def const_ops_def local_ops_def jump_ops_def plain_ops_def

lemma good_op0: "typed_ops 0 0 0 opc 0 0 \<Longrightarrow> good n c l (op0 opc)"
  unfolding op0_def by (rule good_emit) (auto simp: typed_ops_def)

lemma good_op1: "(\<And>h. typed_ops c l h opc a 0) \<Longrightarrow> good n c l (op1 opc a)"
  unfolding op1_def by (rule good_emit)

lemma good_load: "(\<And>h. typed_ops c l h opc a 0) \<Longrightarrow> good n c l (load opc a)"
  unfolding load_def by (intro good_seq good_seq_Nil good_op1 good_stack)

lemmas good_intros = good_seq good_seq_Nil good_EOk good_fail good_stack good_subexpr good_at_pc good_with_const good_with_local
  good_in_stmt good_load good_patch_loops good_patchJump good_patch_all good_act silent_acts

lemma binaryOpcode_typed: "binaryOpcode t = Some opc \<Longrightarrow> typed_ops 0 0 0 opc 0 0"
  unfolding binaryOpcode_def by (drule map_of_SomeD) (auto simp: ops_defs)

lemma unaryOpcode_typed: "unaryOpcode t = Some opc \<Longrightarrow> typed_ops 0 0 0 opc 0 0"
  unfolding unaryOpcode_def by (drule map_of_SomeD) (auto simp: ops_defs)

lemma good_drop: "good n c l drop_in_stmt"
proof -
  have "good n c l (seq [op0 OpPop, popStack 1])" by (intro good_intros good_op0) (simp_all add: ops_defs)
  then show ?thesis unfolding drop_in_stmt_def by (intro good_in_stmt) (simp_all add: good_EOk)
qed

lemma good_literal: "good n c l (emitLiteral v)"
  unfolding emitLiteral_def by (cases v) (auto intro!: good_intros simp: ops_defs)

text \<open>A target that is a simple local.\<close>

lemma good_local_target:
  "(\<And>x. good n c l (k x)) \<Longrightarrow> good n c l (case a of Some (Variable x) \<Rightarrow> k x | _ \<Rightarrow> (\<lambda>e. Outside))"
  by (auto simp: good_fail split: option.split node.split)

lemma good_IncDec: "good n c l (emitIncDec a b inc)"
  unfolding emitIncDec_def Let_def
  by (rule good_local_target, intro good_with_local good_seq good_seq_Nil good_op1 good_drop good_stack) (simp add: ops_defs less_max_iff_disj)

lemma good_assign:
  assumes "good 0 0 0 kb"
  shows "good n c l (emitAssign a kb)"
  unfolding emitAssign_def
  by (rule good_local_target, intro good_seq good_seq_Nil good_subexpr good_any[OF assms] good_with_local good_in_stmt;
      simp only: if_True if_False; intro good_seq good_seq_Nil good_op1 good_stack; simp add: ops_defs less_max_iff_disj)

lemma good_compound:
  assumes "good 0 0 0 kb"
  shows "good n c l (emitCompoundAssign t a kb)"
  unfolding emitCompoundAssign_def
  by (rule good_local_target, intro good_seq good_seq_Nil good_subexpr good_any[OF assms] good_with_local good_in_stmt
      good_emit good_stack; (simp only: if_True if_False; intro good_EOk good_load)?; simp add: ops_defs less_max_iff_disj)

lemma good_short:
  assumes "good 0 0 0 ka" "good 0 0 0 kb"
  shows "good n c l (emitShortCircuit orMode ka kb)"
  unfolding emitShortCircuit_def
  by (intro good_intros good_op0 good_any[OF assms(1)] good_any[OF assms(2)]) (simp_all add: ops_defs)

lemma good_coalesce:
  assumes "good 0 0 0 kb"
  shows "good n c l (emitCoalesce a b kb)"
proof -
  have "good n c l (case a of Some (Variable x) \<Rightarrow> seq [with_local x (load OpLoadLocal),
      at_pc (\<lambda>j. seq [op0 OpJmpIfNotNullPeek, op0 OpPop, popStack 1, subexpr kb, at_pc (patchJump j)])] | _ \<Rightarrow> (\<lambda>e. Outside))"
    by (rule good_local_target, intro good_intros good_op0 good_any[OF assms]) (simp_all add: ops_defs less_max_iff_disj)
  then show ?thesis unfolding emitCoalesce_def by (cases "a = None \<or> b = None") (simp_all only: if_True if_False good_fail)
qed

lemma good_operator:
  assumes "good 0 0 0 ka" "good 0 0 0 kb"
  shows "good n c l (emitOperator t a b w cmp ka kb)"
proof -
  have "good n c l (seq [subexpr kb, op0 u])" if "unaryOpcode t = Some u" for u
    by (intro good_intros good_op0 good_any[OF assms(2)] unaryOpcode_typed[OF that])
  moreover have "good n c l (seq [subexpr ka, subexpr kb, op0 u, popStack 1])" if "binaryOpcode t = Some u" for u
    by (intro good_intros good_op0 good_any[OF assms(1)] good_any[OF assms(2)] binaryOpcode_typed[OF that])
  ultimately show ?thesis
    unfolding emitOperator_def
    by (auto simp: good_fail good_IncDec good_assign[OF assms(2)] good_compound[OF assms(2)] good_short[OF assms]
        good_coalesce[OF assms(2)] simp del: seq.simps split: option.split)
qed

lemma good_ternary:
  assumes "good 0 0 0 kc" "good 0 0 0 ky" "good 0 0 0 kn"
  shows "good n c l (emitTernary short kc ky kn)"
  unfolding emitTernary_def
  by (cases short; simp only: if_True if_False;
      intro good_intros good_op0 good_any[OF assms(1)] good_any[OF assms(2)] good_any[OF assms(3)];
      simp add: ops_defs)

lemma good_call:
  assumes "good 0 0 0 ka"
  shows "good n c l (emitCall name argc ka)"
proof -
  have op: "good n (max c (Suc (unat i))) l (emit OpCallUser i b 0)" for n c l b and i :: "16 word"
    by (rule good_emit) (simp add: ops_defs less_max_iff_disj)
  have "good n c l (if argc > 0 then popStack (argc - 1) else pushStack 1)" for n c l by (simp add: good_stack)
  then have "good n c l (seq [ka, with_const (VString name) (\<lambda>i. emit OpCallUser i (of_nat argc) 0),
      if argc > 0 then popStack (argc - 1) else pushStack 1, drop_in_stmt])"
    by (intro good_seq good_seq_Nil good_with_const op good_drop good_any[OF assms])
  then show ?thesis by (simp add: emitCall_def good_fail del: seq.simps)
qed

lemma good_expr:
  "good 0 0 0 (emitExpr x)" "good 0 0 0 (emitOpt ox)" "good 0 0 0 (emitArgs xs)" "good 0 0 0 (emitConcatRest xs)"
proof (induction x and ox and xs and xs rule: emitExpr_emitOpt_emitArgs_emitConcatRest.induct)
  case (2 x)
  show ?case unfolding emitExpr.simps by (intro good_with_local good_load) (simp add: ops_defs less_max_iff_disj)
next
  case (3 ps)
  have "good 0 0 0 (with_const (VString []) (load OpLoadConst))"
    by (intro good_with_const good_load) (simp add: ops_defs less_max_iff_disj)
  then show ?case using 3 by (cases ps) (auto simp del: seq.simps intro!: good_seq good_seq_Nil good_subexpr)
next
  case (7 ns)
  then show ?case by (auto simp: good_fail split: list.split)
qed (auto simp: good_literal good_operator good_ternary good_call good_fail good_EOk ops_defs simp del: seq.simps
    intro!: good_load good_seq good_seq_Nil good_subexpr good_op0 good_stack)

section \<open>Statements\<close>

lemma good_discard:
  assumes "good 0 0 0 k"
  shows "good n c l (discard k)"
proof (rule goodI)
  fix e e' assume e: "fit n c l e" "discard k e = EOk e'"
  obtain e1 e2 where e1: "k (e\<lparr>em_stmtCtx := True\<rparr>) = EOk e1"
      "(if em_curStack e1 > em_curStack e then seq [op0 OpPop, popStack 1] e1 else EOk e1) = EOk e2"
      "e' = e2\<lparr>em_stmtCtx := em_stmtCtx e\<rparr>"
    using e(2) by (auto simp: discard_def e_then_EOk simp del: seq.simps)
  have sil: "silent (em_stmtCtx_update (\<lambda>_. b))" for b by (simp add: silent_def)
  note s = silentD[OF sil]
  have pop: "good n c l (seq [op0 OpPop, popStack 1])" by (intro good_seq good_seq_Nil good_op0 good_stack) (simp add: ops_defs)
  have 1: "em_grows e e1 \<and> tables e1 \<and> (typed e \<longrightarrow> here e1 < 2 ^ 31 \<longrightarrow> typed e1)"
    using goodD[OF good_any[OF assms] _ e1(1)] e(1) s[of True e] by simp
  then have f: "fit n c l e1" using fit_grows[OF e(1)] by blast
  have 2: "em_grows e1 e2 \<and> tables e2 \<and> (typed e1 \<longrightarrow> here e2 < 2 ^ 31 \<longrightarrow> typed e2)"
  proof (cases "em_curStack e1 > em_curStack e")
    case True
    show ?thesis by (rule goodD[OF pop f]) (use e1(2) True in \<open>simp only: if_True\<close>)
  next
    case False
    show ?thesis by (rule goodD[OF good_EOk f]) (use e1(2) False in \<open>simp only: if_False\<close>)
  qed
  have "here e1 \<le> here e2" using 2 by (simp add: em_grows_def)
  moreover have "em_grows e e'" using em_grows_trans[of e e1 e2] 1 2 by (simp add: e1(3) em_grows_def here_def)
  ultimately show "em_grows e e' \<and> tables e' \<and> (typed e \<longrightarrow> here e' < 2 ^ 31 \<longrightarrow> typed e')"
    using 1 2 s[of "em_stmtCtx e" e2] by (simp add: e1(3))
qed

lemma good_jump_back: "t \<le> n \<Longrightarrow> good n c l (jump_back t)"
  unfolding jump_back_def by (intro good_intros good_op0) (simp_all add: ops_defs)

lemma good_If:
  assumes "good 0 0 0 kc" "good 0 0 0 ky" "\<And>k. kn = Some k \<Longrightarrow> good 0 0 0 k"
  shows "good n c l (emitIf kc ky kn)"
proof (cases kn)
  case None
  show ?thesis
    unfolding emitIf_def None option.case
    by (intro good_intros good_op0 good_any[OF assms(1)] good_any[OF assms(2)]) (simp_all add: ops_defs)
next
  case (Some k)
  show ?thesis
    unfolding emitIf_def Some option.case
    by (intro good_intros good_op0 good_any[OF assms(1)] good_any[OF assms(2)] good_any[OF assms(3)[OF Some]])
      (simp_all add: ops_defs)
qed

lemma good_While:
  assumes "good 0 0 0 kc" "good 0 0 0 kb"
  shows "good n c l (emitWhile kc kb)"
  unfolding emitWhile_def
  by (intro good_intros good_op0 good_jump_back good_any[OF assms(1)] good_any[OF assms(2)]) (simp_all add: ops_defs)

lemma good_DoWhile:
  assumes "good 0 0 0 kb" "good 0 0 0 kc"
  shows "good n c l (emitDoWhile kb kc)"
  unfolding emitDoWhile_def
  by (intro good_intros good_op0 good_any[OF assms(1)] good_any[OF assms(2)]) (simp_all add: ops_defs)

lemma good_conds:
  assumes "\<forall>k \<in> set kcs. good 0 0 0 k" "\<And>m j. n \<le> m \<Longrightarrow> good m c l (k j)"
  shows "good n c l (emitConds kcs k)"
  using assms
proof (induction kcs k arbitrary: n rule: emitConds.induct)
  case (1 k)
  then show ?case by simp
next
  case (2 kc k)
  have kc: "good 0 0 0 kc" using 2(1) by simp
  show ?case
    unfolding emitConds.simps
    by (intro good_seq good_seq_Nil good_subexpr good_at_pc good_op0 good_stack good_any[OF kc] 2(2)) (simp_all add: ops_defs)
next
  case (3 kc kc' kcs k)
  have kc: "good 0 0 0 kc" "\<forall>k \<in> set (kc' # kcs). good 0 0 0 k" using 3(2) by simp_all
  show ?case
    unfolding emitConds.simps
    by (intro good_seq good_seq_Nil good_subexpr good_op0 good_stack good_any[OF kc(1)] 3(1)[OF kc(2) 3(3)]) (simp_all add: ops_defs)
qed

lemma good_For:
  assumes "\<forall>k \<in> set ks. good 0 0 0 k" "\<forall>k \<in> set kcs. good 0 0 0 k" "\<forall>k \<in> set kps. good 0 0 0 k" "good 0 0 0 kb"
  shows "good n c l (emitFor ks kcs kps kb)"
proof -
  have d: "good m c l (seq (map discard ks))" "good m c l (seq (map discard kps))" for m c l
    using assms(1,3) good_discard by (auto intro!: good_seq_all)
  have x: "good m c l (case j of None \<Rightarrow> EOk | Some j \<Rightarrow> patchJump j t)" if "t \<le> m" for m c l j t
    using that by (cases j) (simp_all add: good_EOk good_patchJump)
  show ?thesis
    unfolding emitFor_def
    by (intro good_seq good_seq_Nil d good_act silent_acts good_at_pc good_conds assms(2) good_any[OF assms(4)] x
        good_patch_loops good_jump_back) simp_all
qed

lemma good_Foreach:
  assumes "good 0 0 0 ks" "good 0 0 0 kb"
  shows "good n c l (emitForeach ks key v kb)"
proof -
  have step: "good n c l (emit OpForeachStep vi ki 0)"
    if "unat vi < l" "ki = 0xFFFF \<or> unat ki < l" for n c l ki vi
    using that by (intro good_emit) (auto simp: ops_defs)
  have body: "good n c l (seq [subexpr ks,
         at_pc (\<lambda>initPC. seq [op0 OpForeachInit, popStack 1, act (pushLoop True),
           at_pc (\<lambda>loopHead. seq [emit OpForeachStep vi ki 0, kb, at_pc patch_continues,
             op0 OpForeachAdvance, jump_back loopHead,
             at_pc (\<lambda>unwindStart. seq [patchJump loopHead unwindStart, patch_breaks unwindStart]),
             op0 OpForeachUnwind]),
           at_pc (patchJump initPC), act popLoop])])"
    if "unat vi < l" "ki = 0xFFFF \<or> unat ki < l" for n c l ki vi
    by (intro good_intros good_op0 good_jump_back step that good_any[OF assms(1)] good_any[OF assms(2)])
      (simp_all add: ops_defs)
  show ?thesis
  proof (cases key)
    case None
    show ?thesis unfolding emitForeach_def None option.case
      by (rule good_with_local, rule body) (simp_all add: less_max_iff_disj)
  next
    case (Some x)
    show ?thesis unfolding emitForeach_def Some option.case
      by (rule good_with_local, rule good_with_local, rule body) (simp_all add: less_max_iff_disj)
  qed
qed

lemma good_unwind: "good n c l (unwindForeachesAbove m)"
proof -
  have "good n c l (seq (map (\<lambda>l. op0 OpForeachUnwind) xs))" for xs :: "loop_ctx list"
    by (rule good_seq_all) (auto intro!: good_op0 simp: ops_defs)
  then show ?thesis by (simp add: good_def unwindForeachesAbove_def)
qed

lemma good_leave:
  assumes "\<And>d p. silent (add d p)"
  shows "good n c l (leave_loop d add)"
proof -
  have k: "good n c l (seq [unwindForeachesAbove m, at_pc (\<lambda>pc. seq [op0 OpJmp, act (add dp pc)])])" for m dp
    by (intro good_seq good_seq_Nil good_unwind good_at_pc good_op0 good_act assms) (simp_all add: ops_defs)
  show ?thesis
  proof (rule goodI)
    fix e e' assume e: "fit n c l e" "leave_loop d add e = EOk e'"
    then have "seq [unwindForeachesAbove ((if d < 1 then 1 else nat d) - 1), at_pc (\<lambda>pc. seq [op0 OpJmp,
        act (add (if d < 1 then 1 else nat d) pc)])] e = EOk e'"
      by (auto simp: leave_loop_def Let_def simp del: seq.simps split: if_splits)
    then show "em_grows e e' \<and> tables e' \<and> (typed e \<longrightarrow> here e' < 2 ^ 31 \<longrightarrow> typed e')" by (rule goodD[OF k e(1)])
  qed
qed

lemma good_return: "(\<And>k. v = Some k \<Longrightarrow> good 0 0 0 k) \<Longrightarrow> good n c l (emitReturn v)"
proof (cases v)
  case None
  show ?thesis unfolding emitReturn_def None option.case by (rule good_op0) (simp add: ops_defs)
next
  case (Some k)
  assume "\<And>k. v = Some k \<Longrightarrow> good 0 0 0 k"
  note k = this[OF Some]
  show ?thesis
    unfolding emitReturn_def Some option.case
    by (intro good_seq good_seq_Nil good_subexpr good_op0 good_stack good_any[OF k]) (simp_all add: ops_defs)
qed

lemma good_at_stmt:
  assumes "good 0 0 0 k"
  shows "good n c l (at_stmt loc k)"
  unfolding at_stmt_def
  by (intro good_seq good_seq_Nil good_act silent_acts good_op0 good_any[OF assms]) (simp_all add: ops_defs)

subsection \<open>Switch\<close>

lemma good_switch_tests:
  assumes "\<forall>k \<in> set ks. \<forall>kc. k = Some kc \<longrightarrow> good 0 0 0 kc" "unat ci < l"
    "\<And>m js. n \<le> m \<Longrightarrow> length js = length jumps + length ks \<Longrightarrow> good m c l (k js)"
  shows "good n c l (switch_tests ci ks jumps k)"
  using assms
proof (induction ks arbitrary: n jumps)
  case Nil
  then show ?case by simp
next
  case (Cons b ks)
  show ?case
  proof (cases b)
    case None
    show ?thesis
      unfolding None switch_tests.simps
      by (rule Cons.IH) (use Cons.prems in auto)
  next
    case (Some kc)
    have kc: "good 0 0 0 kc" using Cons.prems(1) Some by simp
    have ih: "good m c l (switch_tests ci ks (jumps @ [Some j]) k)" if "n \<le> m" for m j
      by (rule Cons.IH) (use Cons.prems that in auto)
    show ?thesis
      unfolding Some switch_tests.simps
      by (intro good_seq good_seq_Nil good_load good_subexpr good_any[OF kc] good_op0 good_stack good_at_pc ih)
        (use Cons.prems(2) in \<open>simp_all add: ops_defs\<close>)
  qed
qed

lemma good_switch_bodies:
  assumes "\<forall>k \<in> set ks. good 0 0 0 k" "\<forall>pc \<in> set pcs. pc \<le> n"
    "\<And>m qs. n \<le> m \<Longrightarrow> length qs = length pcs + length ks \<Longrightarrow> \<forall>pc \<in> set qs. pc \<le> m \<Longrightarrow> good m c l (k qs)"
  shows "good n c l (switch_bodies ks pcs k)"
  using assms
proof (induction ks arbitrary: n pcs)
  case Nil
  then show ?case by simp
next
  case (Cons kb ks)
  have kb: "good 0 0 0 kb" using Cons.prems(1) by simp
  have ih: "good m c l (switch_bodies ks (pcs @ [m]) k)" if "n \<le> m" for m
    by (rule Cons.IH) (use Cons.prems that in \<open>auto intro: order_trans\<close>)
  show ?case
    unfolding switch_bodies.simps by (intro good_at_pc good_seq good_seq_Nil good_any[OF kb] ih)
qed

lemma good_patch_tests: "\<forall>pc \<in> set pcs. pc \<le> n \<Longrightarrow> good n c l (patch_tests js pcs)"
proof (induction js pcs rule: patch_tests.induct)
  case (1 j js pc pcs)
  then show ?case unfolding patch_tests.simps by (intro good_seq good_seq_Nil good_patchJump) simp_all
qed (simp_all add: good_EOk)

lemma default_index_less: "default_index js = Some d \<Longrightarrow> d < length js"
proof -
  assume "default_index js = Some d"
  then have "d \<in> set (filter (\<lambda>i. js ! i = None) [0..<length js])"
    by (auto simp: default_index_def simp del: set_filter split: list.splits if_splits)
  then show ?thesis by simp
qed

lemma good_Switch:
  assumes "good 0 0 0 kc" "\<forall>b \<in> set bs. good 0 0 0 (snd b) \<and> (\<forall>k. fst b = Some k \<longrightarrow> good 0 0 0 k)"
  shows "good n c l (emitSwitch kc bs)"
proof -
  have bodies: "\<forall>k \<in> set (map snd bs). good 0 0 0 k" "\<forall>k \<in> set (map fst bs). \<forall>kc. k = Some kc \<longrightarrow> good 0 0 0 kc"
    using assms(2) by auto
  have add: "good m c l (case default_index js of None \<Rightarrow> act (add_break 1 t) | Some _ \<Rightarrow> EOk)" for m c l js t
    by (cases "default_index js") (simp_all add: good_EOk good_act silent_acts)
  have target: "good m c l (case default_index js of None \<Rightarrow> EOk | Some d \<Rightarrow> patchJump t (pcs ! d))"
    if "length js = length pcs" "\<forall>pc \<in> set pcs. pc \<le> m" for m c l js t pcs
    using that default_index_less[of js] by (cases "default_index js") (simp_all add: good_EOk good_patchJump)
  have rest: "good m c l (seq [op0 OpJmp,
             (case default_index js of None \<Rightarrow> act (add_break 1 noMatch) | Some _ \<Rightarrow> EOk),
             switch_bodies (map snd bs) [] (\<lambda>pcs. seq [patch_tests js pcs,
               (case default_index js of None \<Rightarrow> EOk | Some d \<Rightarrow> patchJump noMatch (pcs ! d)),
               at_pc (\<lambda>brk. seq [patch_breaks brk, patch_continues brk])])])"
    if js: "length js = length bs" for m c l js noMatch
  proof (intro good_seq good_seq_Nil add good_switch_bodies bodies(1) good_patch_tests target good_at_pc good_patch_loops)
    show "good m c l (op0 OpJmp)" by (rule good_op0) (simp add: ops_defs)
  qed (use js in simp_all)
  have inner: "good n c l (with_local (switch_name s) (\<lambda>ci. seq [op1 OpStoreLocal ci, popStack 1, act (pushLoop False),
         switch_tests ci (map fst bs) [] (\<lambda>js.
           at_pc (\<lambda>noMatch. seq [op0 OpJmp,
             (case default_index js of None \<Rightarrow> act (add_break 1 noMatch) | Some _ \<Rightarrow> EOk),
             switch_bodies (map snd bs) [] (\<lambda>pcs. seq [patch_tests js pcs,
               (case default_index js of None \<Rightarrow> EOk | Some d \<Rightarrow> patchJump noMatch (pcs ! d)),
               at_pc (\<lambda>brk. seq [patch_breaks brk, patch_continues brk])])])),
         act popLoop]))" for s
    by (rule good_with_local, rule good_seq, rule good_op1, simp add: ops_defs less_max_iff_disj,
        intro good_seq good_seq_Nil good_stack good_act silent_acts good_switch_tests bodies(2) good_at_pc rest)
      (simp_all add: less_max_iff_disj)
  have synth: "good n c l (\<lambda>e. case nextSynthID e of (s, e) \<Rightarrow> with_local (switch_name s) (K s) e)"
    if K: "\<And>s. good n c l (with_local (switch_name s) (K s))" for K
  proof (rule goodI)
    fix e e' assume e: "fit n c l e" "(case nextSynthID e of (s, e) \<Rightarrow> with_local (switch_name s) (K s) e) = EOk e'"
    have "silent (em_synthSeq_update (\<lambda>_. x))" for x by (simp add: silent_def)
    note s = silentD[OF this]
    show "em_grows e e' \<and> tables e' \<and> (typed e \<longrightarrow> here e' < 2 ^ 31 \<longrightarrow> typed e')"
      using goodD[OF K[of "em_synthSeq e"], of "e\<lparr>em_synthSeq := em_synthSeq e + 1\<rparr>" e'] e s[of "em_synthSeq e + 1" e]
      by (simp add: nextSynthID_def em_grows_def)
  qed
  show ?thesis
    unfolding emitSwitch_def
    by (rule good_seq, rule good_subexpr, rule good_any[OF assms(1)], rule good_seq, rule synth, rule inner, rule good_seq_Nil)
qed

subsection \<open>Try\<close>

lemma typed_clause_mono: "typed_clause l lo hi x \<Longrightarrow> l \<le> l' \<Longrightarrow> hi \<le> hi' \<Longrightarrow> typed_clause l' lo hi' x"
  by (auto simp: typed_clause_def)

lemma good_catches:
  assumes "\<forall>x \<in> set cs. good 0 0 0 (snd (snd (snd x)))" "lo \<le> int n" "\<forall>x \<in> set cl. typed_clause l lo (int n) x"
    "\<And>m l' cl js. n \<le> m \<Longrightarrow> l \<le> l' \<Longrightarrow> \<forall>x \<in> set cl. typed_clause l' lo (int m) x \<Longrightarrow> good m c l' (k cl js)"
  shows "good n c l (emitCatches cs cl js k)"
  using assms
proof (induction cs arbitrary: n l cl js)
  case Nil
  then show ?case by simp
next
  case (Cons y cs)
  obtain ts x lc kb where y: "y = (ts, x, lc, kb)" by (metis prod_cases4)
  have kb: "good 0 0 0 kb" using Cons.prems(1) by (simp add: y)
  have rest: "good m c l' (seq [kb, at_pc (\<lambda>j. seq [op0 OpJmp,
      emitCatches cs (cl @ [\<lparr>cc_Types = ts, cc_VarIdx = xi, cc_PC = int pc, cc_Loc = lc\<rparr>]) (js @ [j]) k])])"
    if m: "n \<le> pc" "pc \<le> m" "l \<le> l'" "xi = 0xFFFF \<or> unat xi < l'" for m l' pc and xi :: "16 word"
  proof (intro good_seq good_seq_Nil good_at_pc good_any[OF kb])
    fix j assume j: "m \<le> j"
    show "good j c l' (op0 OpJmp)" by (rule good_op0) (simp add: ops_defs)
    have old: "\<forall>x \<in> set cl. typed_clause l' lo (int j) x"
      using Cons.prems(3) typed_clause_mono[OF _ m(3), of lo "int n" _ "int j"] m(1,2) j by auto
    show "good j c l' (emitCatches cs (cl @ [\<lparr>cc_Types = ts, cc_VarIdx = xi, cc_PC = int pc, cc_Loc = lc\<rparr>]) (js @ [j]) k)"
    proof (rule Cons.IH)
      show "good i c l'' (k cl' js')" if "j \<le> i" "l' \<le> l''" "\<forall>x \<in> set cl'. typed_clause l'' lo (int i) x" for i l'' cl' js'
        by (rule Cons.prems(4)) (use that m j in simp_all)
    qed (use Cons.prems old m j in \<open>auto simp: typed_clause_def\<close>)
  qed
  show ?case
  proof (cases "x = []")
    case True
    show ?thesis unfolding y emitCatches.simps True if_P[OF refl] by (intro good_at_pc rest) simp_all
  next
    case False
    show ?thesis
      unfolding y emitCatches.simps if_not_P[OF False]
      by (rule good_at_pc, rule good_with_local, rule rest) (simp_all add: less_max_iff_disj)
  qed
qed

lemma typed_add:
  assumes "typed e" "typed_handler (here e) (length (em_locals e)) th"
  shows "typed (add_handler th e)"
  using assms typed_instr_mono[OF _ order_refl order_refl order_refl le_SucI[OF order_refl]]
  by (simp add: typed_def Let_def add_handler_def here_def)

lemma good_add_handler:
  assumes "typed_handler n l th"
  shows "good n c l (act (add_handler th))"
proof (rule goodI)
  fix e e' assume e: "fit n c l e" "act (add_handler th) e = EOk e'"
  have "typed_handler (here e) (length (em_locals e)) th"
    using e(1) typed_handler_mono[OF assms] by (simp add: fit_def)
  then show "em_grows e e' \<and> tables e' \<and> (typed e \<longrightarrow> here e' < 2 ^ 31 \<longrightarrow> typed e')"
    using e typed_add[of e th] by (auto simp: act_def add_handler_def em_grows_def here_def fit_def tables_def)
qed

definition end_finally :: "try_handler \<Rightarrow> int \<Rightarrow> emitter \<Rightarrow> emitted" where
  "end_finally th f =
     (\<lambda>e. if length (em_tryHandlers e) > 0xFFFF then Unsupported
          else at_pc (\<lambda>pc. seq [op1 OpFinallyEnd (of_nat (length (em_tryHandlers e))),
                 act (add_handler (th\<lparr>th_HasFinally := True, th_FinallyPC := f, th_FinallyEnd := int pc\<rparr>))]) e)"

lemma good_end_finally:
  assumes th: "typed_handler n l th" "f = th_AfterCatch th"
  shows "good n c l (end_finally th f)"
proof (rule goodI)
  fix e e' assume e: "fit n c l e" "end_finally th f e = EOk e'"
  let ?th = "th\<lparr>th_HasFinally := True, th_FinallyPC := f, th_FinallyEnd := int (here e)\<rparr>"
  let ?a = "of_nat (length (em_tryHandlers e)) :: 16 word"
  let ?l = "length (em_locals e)" and ?c = "length (em_consts e)" and ?h = "length (em_tryHandlers e)"
  have small: "?h \<le> 0xFFFF" using e(2) by (simp add: end_finally_def split: if_splits)
  then obtain i where i: "Encode OpFinallyEnd ?a 0 0 = Some i"
      "e' = e\<lparr>em_code := em_code e @ [i], em_tryHandlers := em_tryHandlers e @ [?th]\<rparr>"
    using e(2) by (auto simp: end_finally_def at_pc_def op1_def e_then_EOk emit_EOk act_def add_handler_def)
  have h: "here e' = Suc (here e)" by (simp add: i(2) here_def)
  have th': "typed_handler (Suc (here e)) ?l ?th"
    using typed_handler_mono[OF th(1), of "here e" ?l] e(1) th(2) by (auto simp: typed_handler_def fit_def)
  have new: "typed_instr (Suc (here e)) ?c ?l (Suc ?h) (here e) i"
  proof -
    have "unat ?a = ?h" using small by (simp add: unat_of_nat)
    then show ?thesis
      using encode_fields[OF i(1)] encode_C[OF i(1)] by (simp add: typed_instr_def typed_jump_def ops_defs)
  qed
  have "typed e'" if t: "typed e"
    unfolding typed_def Let_def
  proof (intro conjI allI impI ballI)
    fix p assume "p < here e'"
    then show "typed_instr (here e') (length (em_consts e')) (length (em_locals e')) (length (em_tryHandlers e')) p (em_code e' ! p)"
      using new t typed_instr_mono[of "here e" ?c ?l ?h p "em_code e ! p" "Suc (here e)" ?c ?l "Suc ?h"]
      by (cases "p = here e") (auto simp: h i(2) nth_append here_def typed_def Let_def)
  next
    fix t' assume "t' \<in> set (em_tryHandlers e')"
    then have "t' = ?th \<or> t' \<in> set (em_tryHandlers e)" by (auto simp: i(2))
    then have "typed_handler (Suc (here e)) ?l t'"
      using th' t typed_handler_mono[of "here e" ?l t' "Suc (here e)" ?l] by (auto simp: typed_def Let_def)
    then show "typed_handler (here e') (length (em_locals e')) t'" unfolding h by (simp add: i(2))
  qed
  then show "em_grows e e' \<and> tables e' \<and> (typed e \<longrightarrow> here e' < 2 ^ 31 \<longrightarrow> typed e')"
    using e(1) by (simp add: em_grows_def h) (simp add: i(2) fit_def tables_def)
qed

lemma good_op0_at:
  assumes "typed_ops 0 0 0 opc 0 0" "\<And>pc. n < pc \<Longrightarrow> good pc c l (k pc)"
  shows "good n c l (seq [op0 opc, at_pc k])"
proof (rule goodI)
  fix e e' assume e: "fit n c l e" "seq [op0 opc, at_pc k] e = EOk e'"
  then obtain e1 where e1: "op0 opc e = EOk e1" "at_pc k e1 = EOk e'" by (auto simp: e_then_EOk)
  note 1 = goodD[OF good_op0[OF assms(1)] e(1) e1(1)]
  have "here e1 = Suc (here e)" using e1(1) by (auto simp: op0_def emit_EOk here_def)
  then have "fit (Suc n) c l e1" using fit_grows[OF e(1)] 1 e(1) by (auto simp: fit_def)
  moreover have "good (Suc n) c l (at_pc k)" by (rule good_at_pc, rule assms(2)) simp
  ultimately have 2: "em_grows e1 e' \<and> tables e' \<and> (typed e1 \<longrightarrow> here e' < 2 ^ 31 \<longrightarrow> typed e')" using e1(2) by (blast dest: goodD)
  have "here e1 \<le> here e'" using 2 by (simp add: em_grows_def)
  then show "em_grows e e' \<and> tables e' \<and> (typed e \<longrightarrow> here e' < 2 ^ 31 \<longrightarrow> typed e')"
    using 1 2 em_grows_trans[of e e1 e'] by auto
qed

lemma good_Try:
  assumes "good 0 0 0 kb" "\<forall>x \<in> set cs. good 0 0 0 (snd (snd (snd x)))" "\<And>k. fin = Some k \<Longrightarrow> good 0 0 0 k"
  shows "good n c l (emitTry kb cs fin)"
proof -
  define th where "th s t f d cl = \<lparr>th_Start = int s, th_End = int t, th_AfterCatch = int f, th_StackBase = d,
    th_Catches = cl, th_HasFinally = False, th_FinallyPC = 0, th_FinallyEnd = 0\<rparr>" for s t f d cl
  have last: "good m c l' (case fin of None \<Rightarrow> act (add_handler (th s t f d cl))
      | Some kf \<Rightarrow> seq [act pop_finally, kf, end_finally (th s t f d cl) (int f)])"
    if "s < t" "t \<le> f" "f \<le> m" "\<forall>x \<in> set cl. typed_clause l' (int t) (int f) x" for s t f d cl m l'
  proof -
    have w: "typed_handler m l' (th s t f d cl)" using that by (simp add: typed_handler_def th_def)
    show ?thesis
    proof (cases fin)
      case None
      show ?thesis unfolding None option.case by (rule good_add_handler[OF w])
    next
      case (Some kf)
      have a: "int f = th_AfterCatch (th s t f d cl)" by (simp add: th_def)
      show ?thesis
        unfolding Some option.case
        by (intro good_seq good_seq_Nil good_act silent_acts good_any[OF assms(3)[OF Some]] good_end_finally[OF w a])
    qed
  qed
  have after: "good m c l' (at_pc (\<lambda>f. seq [patchJump skip f, patch_all ends f, case fin of None \<Rightarrow> act (add_handler (th s t f d cl))
      | Some kf \<Rightarrow> seq [act pop_finally, kf, end_finally (th s t f d cl) (int f)]]))"
    if "s < t" "t \<le> m" "\<forall>x \<in> set cl. typed_clause l' (int t) (int m) x" for s t d cl m l' ends skip
    using that typed_clause_mono[OF _ order_refl, of l' "int t" "int m"]
    by (intro good_at_pc good_seq good_seq_Nil good_patchJump good_patch_all last) auto
  define whole where "whole s d = seq [if fin \<noteq> None then act push_finally else EOk, kb,
      at_pc (\<lambda>skip. seq [op0 OpJmp, at_pc (\<lambda>t. emitCatches cs [] [] (\<lambda>cl ends. at_pc (\<lambda>f.
        seq [patchJump skip f, patch_all ends f, case fin of None \<Rightarrow> act (add_handler (th s t f d cl))
          | Some kf \<Rightarrow> seq [act pop_finally, kf, end_finally (th s t f d cl) (int f)]])))])]" for s d
  have jmp: "good skip c l (seq [op0 OpJmp, at_pc (\<lambda>t. emitCatches cs [] [] (\<lambda>cl ends. at_pc (\<lambda>f.
        seq [patchJump skip f, patch_all ends f, case fin of None \<Rightarrow> act (add_handler (th m t f d cl))
          | Some kf \<Rightarrow> seq [act pop_finally, kf, end_finally (th m t f d cl) (int f)]])))])"
    if "m \<le> skip" for m d skip
  proof (rule good_op0_at)
    show "typed_ops 0 0 0 OpJmp 0 0" by (simp add: ops_defs)
  qed (use that in \<open>intro good_catches assms(2) after; simp\<close>)
  have "good m c l (whole m d)" for m d
  proof -
    have "good m c l (if fin \<noteq> None then act push_finally else EOk)" by (simp add: good_EOk good_act silent_acts)
    then show ?thesis unfolding whole_def by (intro good_seq good_any[OF assms(1)] good_seq_Nil good_at_pc jmp)
  qed
  then have g: "good (here e) c l (whole (here e) d)" for e d by blast
  show ?thesis
  proof (rule goodI)
    fix e e' assume e: "fit n c l e" "emitTry kb cs fin e = EOk e'"
    have "whole (here e) (nat (em_curStack e)) e = EOk e'"
      using e(2) by (simp add: emitTry_def whole_def th_def end_finally_def Let_def del: seq.simps split: if_splits)
    moreover have "fit (here e) c l e" using e(1) by (simp add: fit_def)
    ultimately show "em_grows e e' \<and> tables e' \<and> (typed e \<longrightarrow> here e' < 2 ^ 31 \<longrightarrow> typed e')" by (blast dest: goodD[OF g])
  qed
qed

section \<open>Bodies\<close>

lemma good_stmt:
  "good 0 0 0 (emitStmt lo x)" "good 0 0 0 (emitBody lo ob)" "good 0 0 0 (emitStmts lo ns)"
  "\<forall>b \<in> set (stmt_blocks lo bs). good 0 0 0 (snd b) \<and> (\<forall>k. fst b = Some k \<longrightarrow> good 0 0 0 k)"
  "\<forall>y \<in> set (stmt_catches lo cs). good 0 0 0 (snd (snd (snd y)))"
proof (induction lo x and lo ob and lo ns and lo bs and lo cs rule: emitStmt_emitBody_emitStmts_stmt_blocks_stmt_catches.induct)
  case (3 lo s)
  show ?case unfolding emitStmt.simps
    by (intro good_at_stmt good_with_const good_op1) (simp add: ops_defs less_max_iff_disj)
qed (auto simp: good_expr good_EOk ops_defs simp del: seq.simps emitExpr.simps split: option.splits
    intro!: good_at_stmt good_Switch good_If good_While good_DoWhile good_For good_Foreach good_return good_Try good_leave
      good_discard good_seq good_seq_Nil good_subexpr good_op0 good_stack silent_acts)

lemma Compile_typed:
  assumes "Compile lo source slotOnly body = Some fn" "length (fn_Code fn) < 2 ^ 31"
  shows "typed_func fn"
proof -
  obtain e e' where e: "emitBody lo body newEmitter = EOk e" "op0 OpRetNull e = EOk e'" "fn = finish source slotOnly e'"
    using assms(1) by (auto simp: Compile_def e_then_EOk split: emitted.splits)
  obtain i where i: "Encode OpRetNull 0 0 0 = Some i" "e' = e\<lparr>em_code := em_code e @ [i]\<rparr>"
    using e(2) by (auto simp: op0_def emit_EOk)
  have "fit 0 0 0 newEmitter" "typed newEmitter"
    by (simp_all add: newEmitter_def fit_def tables_def typed_def here_def)
  moreover have "here e < 2 ^ 31" using assms(2) by (simp add: e(3) i(2) finish_def here_def)
  ultimately have "typed e" using goodD[OF good_stmt(2) _ e(1)] by blast
  moreover have "typed_instr (here e) c l h p i" for c l h p
    using encode_fields[OF i(1)] by (simp add: typed_instr_def typed_jump_def ops_defs)
  ultimately show ?thesis
    using encode_fields[OF i(1)] by (auto simp: e(3) i(2) finish_def typed_func_def typed_def here_def nth_append less_Suc_eq Let_def)
qed

end
