(* ===== verification/VmSem.thy ===== *)
theory VmSem
  imports VmCorrect
begin

text \<open>
  What a statement means: its effect on the slots and the host, and how it ends. Loops run on fuel,
  \<open>None\<close> when it is out; the enclosing loops are the list of their iterators (\<open>None\<close> for a loop without
  one), the innermost first, as \<open>break\<close> and \<open>continue\<close> clean up the iterators of the loops they skip.
\<close>

datatype 'v flow = Normal | Broke nat | Continued nat | Returned 'v | Threw "'v verr"

type_synonym ('v, 'w) act = "'v option list \<Rightarrow> 'w \<Rightarrow> ('v flow \<times> 'v option list \<times> 'w) option"

section \<open>Expressions as statements\<close>

text \<open>The value is not needed: an assignment stores it without keeping it.\<close>

fun eval_drop :: "('v, 'w) host \<Rightarrow> func \<Rightarrow> node \<Rightarrow> 'v option list \<Rightarrow> 'w \<Rightarrow> ('v, 'w, unit) result" where
  "eval_drop h fn (Operator t a b wr c) ls w =
     (case a of
        Some (Variable x) \<Rightarrow>
          if t \<noteq> T_INC \<and> t \<noteq> T_DEC \<and> wr \<and> \<not> c then
            bindr (eval_opt h fn b ls w) (\<lambda>v ls w. write_local h fn (slot fn x) v ls w)
          else if t \<noteq> T_INC \<and> t \<noteq> T_DEC \<and> c then
            bindr (eval_opt h fn b ls w) (\<lambda>v ls w. compound_assign h fn (slot fn x) t v ls w)
          else bindr (eval h fn (Operator t a b wr c) ls w) (\<lambda>_ ls w. (Inr (), ls, w))
      | _ \<Rightarrow> bindr (eval h fn (Operator t a b wr c) ls w) (\<lambda>_ ls w. (Inr (), ls, w)))"
| "eval_drop h fn (Runnables ns) ls w =
     (case ns of [n] \<Rightarrow> eval_drop h fn n ls w | _ \<Rightarrow> (Inr (), ls, w))"
| "eval_drop h fn n ls w = bindr (eval h fn n ls w) (\<lambda>_ ls w. (Inr (), ls, w))"

definition run_expr :: "('v, 'w, unit) result \<Rightarrow> ('v flow \<times> 'v option list \<times> 'w) option" where
  "run_expr r = (case r of (Inl e, ls, w) \<Rightarrow> Some (Threw e, ls, w) | (Inr _, ls, w) \<Rightarrow> Some (Normal, ls, w))"

section \<open>Sequences and branches\<close>

definition with_value ::
  "('v, 'w, 'a) result \<Rightarrow> ('a \<Rightarrow> ('v, 'w) act) \<Rightarrow> ('v flow \<times> 'v option list \<times> 'w) option" where
  "with_value r k = (case r of (Inl e, ls, w) \<Rightarrow> Some (Threw e, ls, w) | (Inr v, ls, w) \<Rightarrow> k v ls w)"

definition after :: "('v flow \<times> 'v option list \<times> 'w) option \<Rightarrow> ('v, 'w) act \<Rightarrow> ('v flow \<times> 'v option list \<times> 'w) option" where
  "after r k = (case r of Some (Normal, ls, w) \<Rightarrow> k ls w | _ \<Rightarrow> r)"

definition skip :: "('v, 'w) act" where
  "skip ls w = Some (Normal, ls, w)"

text \<open>The tick before a statement at \<open>loc\<close>.\<close>

definition ticked :: "('v, 'w) host \<Rightarrow> nat \<Rightarrow> ('v, 'w) act \<Rightarrow> ('v, 'w) act" where
  "ticked h loc m ls w =
     (case h_Tick h loc w of (Some e, w) \<Rightarrow> Some (Threw e, ls, w) | (None, w) \<Rightarrow> m ls (h_DrainTemps h w))"

definition sem_if :: "('v, 'w) host \<Rightarrow> ('v, 'w) comp \<Rightarrow> ('v, 'w) act \<Rightarrow> ('v, 'w) act \<Rightarrow> ('v, 'w) act" where
  "sem_if h mc my mn ls w =
     with_value (mc ls w) (\<lambda>v ls w. case truth h v w of (b, w) \<Rightarrow> if b then my ls w else mn ls w)"

section \<open>Loops\<close>

text \<open>What the body of a loop leaves to do: go on with \<open>next\<close>, leave the loop through \<open>out\<close>, or pass on
  what concerns an outer loop.\<close>

definition loop_body ::
  "('v flow \<times> 'v option list \<times> 'w) option \<Rightarrow> ('v, 'w) act \<Rightarrow> ('v, 'w) act \<Rightarrow> ('v flow \<times> 'v option list \<times> 'w) option" where
  "loop_body r again out =
     (case r of
        None \<Rightarrow> None
      | Some (Normal, ls, w) \<Rightarrow> again ls w
      | Some (Continued 0, ls, w) \<Rightarrow> again ls w
      | Some (Broke 0, ls, w) \<Rightarrow> out ls w
      | Some (Broke (Suc d), ls, w) \<Rightarrow> Some (Broke d, ls, w)
      | Some (Continued (Suc d), ls, w) \<Rightarrow> Some (Continued d, ls, w)
      | Some (Returned v, ls, w) \<Rightarrow> Some (Returned v, ls, w)
      | Some (Threw e, ls, w) \<Rightarrow> Some (Threw e, ls, w))"

fun while_loop :: "nat \<Rightarrow> ('v, 'w) host \<Rightarrow> ('v, 'w) comp \<Rightarrow> ('v, 'w) act \<Rightarrow> ('v, 'w) act" where
  "while_loop 0 h mc mb ls w = None"
| "while_loop (Suc k) h mc mb ls w =
     with_value (mc ls w) (\<lambda>v ls w. case truth h v w of
       (b, w) \<Rightarrow> if b then loop_body (mb ls w) (while_loop k h mc mb) skip else skip ls w)"

fun do_loop :: "nat \<Rightarrow> ('v, 'w) host \<Rightarrow> ('v, 'w) comp \<Rightarrow> ('v, 'w) act \<Rightarrow> ('v, 'w) act" where
  "do_loop 0 h mc mb ls w = None"
| "do_loop (Suc k) h mc mb ls w =
     loop_body (mb ls w)
       (\<lambda>ls w. with_value (mc ls w) (\<lambda>v ls w. case truth h v w of
          (b, w) \<Rightarrow> if b then do_loop k h mc mb ls w else skip ls w))
       skip"

fun sem_drops :: "('v, 'w) host \<Rightarrow> func \<Rightarrow> node list \<Rightarrow> ('v, 'w) act" where
  "sem_drops h fn [] ls w = skip ls w"
| "sem_drops h fn (n # ns) ls w = after (run_expr (eval_drop h fn n ls w)) (sem_drops h fn ns)"

text \<open>The conditions of a \<open>for\<close>: only the last one counts, and none is true.\<close>

fun sem_conds :: "('v, 'w) host \<Rightarrow> func \<Rightarrow> node list \<Rightarrow> ('v, 'w) act \<Rightarrow> ('v, 'w) act \<Rightarrow> ('v, 'w) act" where
  "sem_conds h fn [] mt mf ls w = mt ls w"
| "sem_conds h fn [c] mt mf ls w =
     with_value (eval h fn c ls w) (\<lambda>v ls w. case truth h v w of (b, w) \<Rightarrow> if b then mt ls w else mf ls w)"
| "sem_conds h fn (c # cs) mt mf ls w = with_value (eval h fn c ls w) (\<lambda>v. sem_conds h fn cs mt mf)"

fun for_loop ::
  "nat \<Rightarrow> ('v, 'w) host \<Rightarrow> func \<Rightarrow> node list \<Rightarrow> node list \<Rightarrow> ('v, 'w) act \<Rightarrow> ('v, 'w) act" where
  "for_loop 0 h fn cs step mb ls w = None"
| "for_loop (Suc k) h fn cs step mb ls w =
     sem_conds h fn cs
       (\<lambda>ls w. loop_body (mb ls w)
          (\<lambda>ls w. after (sem_drops h fn step ls w) (for_loop k h fn cs step mb)) skip)
       skip ls w"

text \<open>\<open>foreach\<close>: the value, then the key of the current element.\<close>

definition store_opt ::
  "('v, 'w) host \<Rightarrow> func \<Rightarrow> nat \<Rightarrow> 'v option \<Rightarrow> 'v option list \<Rightarrow> 'w \<Rightarrow> ('v, 'w, unit) result" where
  "store_opt h fn i v ls w =
     (case v of
        Some v \<Rightarrow> write_local h fn i v ls w
      | None \<Rightarrow>
          (case mirror h fn i None w of
             (Some e, w) \<Rightarrow> (Inl e, ls[i := None], w)
           | (None, w) \<Rightarrow> (Inr (), ls[i := None], w)))"

definition of_iter :: "('v verr + 'a) \<times> 'w \<Rightarrow> 'v option list \<Rightarrow> ('v, 'w, 'a) result" where
  "of_iter r ls = (case r of (x, w) \<Rightarrow> (x, ls, w))"

definition load_current ::
  "('v, 'w) host \<Rightarrow> func \<Rightarrow> nat \<Rightarrow> nat \<Rightarrow> nat option \<Rightarrow> 'v option list \<Rightarrow> 'w \<Rightarrow> ('v, 'w, unit) result" where
  "load_current h fn it vi ki ls w =
     bindr (of_iter (h_Current h it w) ls) (\<lambda>cur ls w. bindr (store_opt h fn vi cur ls w) (\<lambda>_ ls w.
       case ki of
         None \<Rightarrow> (Inr (), ls, w)
       | Some ki \<Rightarrow> bindr (of_iter (h_Key h it w) ls) (store_opt h fn ki)))"

fun foreach_loop ::
  "nat \<Rightarrow> ('v, 'w) host \<Rightarrow> func \<Rightarrow> nat \<Rightarrow> nat \<Rightarrow> nat option \<Rightarrow> ('v, 'w) act \<Rightarrow> ('v, 'w) act" where
  "foreach_loop 0 h fn it vi ki mb ls w = None"
| "foreach_loop (Suc k) h fn it vi ki mb ls w =
     (case h_Valid h it w of
        (False, w) \<Rightarrow> skip ls (h_Cleanup h it w)
      | (True, w) \<Rightarrow>
          with_value (load_current h fn it vi ki ls w) (\<lambda>_ ls w.
            loop_body (mb ls w)
              (\<lambda>ls w. case h_Next h it w of
                 (Some e, w) \<Rightarrow> Some (Threw e, ls, w)
               | (None, w) \<Rightarrow> foreach_loop k h fn it vi ki mb ls w)
              (\<lambda>ls w. skip ls (h_Cleanup h it w))))"

section \<open>Leaving loops\<close>

fun cleanups :: "('v, 'w) host \<Rightarrow> nat option list \<Rightarrow> 'w \<Rightarrow> 'w" where
  "cleanups h [] w = w"
| "cleanups h (None # its) w = cleanups h its w"
| "cleanups h (Some it # its) w = cleanups h its (h_Cleanup h it w)"

definition leave :: "('v, 'w) host \<Rightarrow> nat option list \<Rightarrow> int \<Rightarrow> (nat \<Rightarrow> 'v flow) \<Rightarrow> ('v, 'w) act" where
  "leave h its n c ls w =
     (let d = (if n < 1 then 0 else nat n - 1) in Some (c d, ls, cleanups h (take d its) w))"

section \<open>Statements\<close>

text \<open>\<open>k\<close> is the fuel of every loop, \<open>lo\<close> the locations, \<open>its\<close> the enclosing loops.\<close>

fun sem :: "nat \<Rightarrow> ('v, 'w) host \<Rightarrow> func \<Rightarrow> (node \<Rightarrow> nat option) \<Rightarrow> nat option list \<Rightarrow> node \<Rightarrow> ('v, 'w) act"
  and sem_opt :: "nat \<Rightarrow> ('v, 'w) host \<Rightarrow> func \<Rightarrow> (node \<Rightarrow> nat option) \<Rightarrow> nat option list \<Rightarrow> node option \<Rightarrow> ('v, 'w) act"
  and sem_list :: "nat \<Rightarrow> ('v, 'w) host \<Rightarrow> func \<Rightarrow> (node \<Rightarrow> nat option) \<Rightarrow> nat option list \<Rightarrow> node list \<Rightarrow> ('v, 'w) act" where
  "sem k h fn lo its (Runnables ns) = sem_list k h fn lo its ns"
| "sem k h fn lo its (InlineHtml s) =
     ticked h (the (lo (InlineHtml s))) (\<lambda>ls w. case h_Write h s w of
       (Some e, w) \<Rightarrow> Some (Threw e, ls, w) | (None, w) \<Rightarrow> skip ls w)"
| "sem k h fn lo its (IfNode c y n short) =
     ticked h (the (lo (IfNode c y n short)))
       (sem_if h (eval h fn c) (sem_opt k h fn lo its y) (sem_opt k h fn lo its n))"
| "sem k h fn lo its (WhileNode c b) =
     ticked h (the (lo (WhileNode c b))) (while_loop k h (eval h fn c) (sem_opt k h fn lo (None # its) b))"
| "sem k h fn lo its (DoWhileNode b c) =
     ticked h (the (lo (DoWhileNode b c))) (do_loop k h (eval h fn c) (sem_opt k h fn lo (None # its) b))"
| "sem k h fn lo its (ForNode st cs step b) =
     ticked h (the (lo (ForNode st cs step b)))
       (\<lambda>ls w. after (sem_drops h fn st ls w) (for_loop k h fn cs step (sem_opt k h fn lo (None # its) b)))"
| "sem k h fn lo its (ForeachNode src key v b) =
     ticked h (the (lo (ForeachNode src key v b)))
       (\<lambda>ls w. with_value (eval h fn src ls w) (\<lambda>c ls w. with_value (of_iter (h_foreachInit h c w) ls) (\<lambda>it ls w.
          case it of
            None \<Rightarrow> skip ls (h_foreachWarn h c (the (lo (ForeachNode src key v b))) w)
          | Some it \<Rightarrow>
              foreach_loop k h fn it (slot fn v) (map_option (slot fn) key)
                (sem_opt k h fn lo (Some it # its) b) ls w)))"
| "sem k h fn lo its (ReturnNode v) =
     ticked h (the (lo (ReturnNode v)))
       (case v of
          None \<Rightarrow> (\<lambda>ls w. case h_mk h VNull w of (v, w) \<Rightarrow> Some (Returned v, ls, w))
        | Some n \<Rightarrow> (\<lambda>ls w. with_value (eval h fn n ls w) (\<lambda>v ls w. Some (Returned v, ls, w))))"
| "sem k h fn lo its (ThrowNode v) =
     ticked h (the (lo (ThrowNode v)))
       (\<lambda>ls w. with_value (eval h fn v ls w) (\<lambda>v ls w. case h_ThrowObject h v w of (e, w) \<Rightarrow> Some (Threw e, ls, w)))"
| "sem k h fn lo its (BreakNode d) = ticked h (the (lo (BreakNode d))) (leave h its d Broke)"
| "sem k h fn lo its (ContinueNode d) = ticked h (the (lo (ContinueNode d))) (leave h its d Continued)"
| "sem k h fn lo its (Variable x) = ticked h (the (lo (Variable x))) skip"
| "sem k h fn lo its n = ticked h (the (lo n)) (\<lambda>ls w. run_expr (eval_drop h fn n ls w))"
| "sem_opt k h fn lo its None = skip"
| "sem_opt k h fn lo its (Some n) = sem k h fn lo its n"
| "sem_list k h fn lo its [] = skip"
| "sem_list k h fn lo its (n # ns) = (\<lambda>ls w. after (sem k h fn lo its n ls w) (sem_list k h fn lo its ns))"

end
