(* ===== verification/VmFlow.thy ===== *)
theory VmFlow
  imports VmSem
begin

text \<open>Pieces of code that are statements: where control goes from them, with the iterators of the loops
  they are in.\<close>

section \<open>Where control goes\<close>

definition somes :: "nat option list \<Rightarrow> nat list" where
  "somes its = map the (filter (\<lambda>i. i \<noteq> None) its)"

lemma somes_simps [simp]:
  "somes [] = []" "somes (None # its) = somes its" "somes (Some it # its) = it # somes its"
  by (simp_all add: somes_def)

text \<open>The run \<open>R\<close> is the one that goes on in the frame \<open>f\<close> at \<open>q\<close>.\<close>

definition arrives ::
  "('v, 'w) host \<Rightarrow> func \<Rightarrow> ('v, 'w) stepped option \<Rightarrow> 'v frame \<Rightarrow> nat \<Rightarrow> 'v option list \<Rightarrow> nat list \<Rightarrow> 'w \<Rightarrow> bool" where
  "arrives h fn R f q ls its w =
     (length ls = length (fn_Locals fn)
      \<and> R = vm_exec h fn None (f\<lparr>fr_pc := int q, fr_locals := ls, fr_iters := its\<rparr>) w)"

text \<open>\<open>B\<close> and \<open>C\<close> are where \<open>break\<close> and \<open>continue\<close> of each level go; \<open>zs\<close> are the iterators on top
  when the piece is done.\<close>

definition flows ::
  "('v, 'w) host \<Rightarrow> func \<Rightarrow> (nat \<Rightarrow> nat) \<Rightarrow> (nat \<Rightarrow> nat) \<Rightarrow> nat option list \<Rightarrow> nat list \<Rightarrow> nat list \<Rightarrow> nat
     \<Rightarrow> ('v, 'w) stepped option \<Rightarrow> 'v frame \<Rightarrow> ('v flow \<times> 'v option list \<times> 'w) option \<Rightarrow> bool" where
  "flows h fn B C its zs rest q R f r =
     (case r of
        None \<Rightarrow> True
      | Some (Normal, ls, w) \<Rightarrow> arrives h fn R f q ls (zs @ rest) w
      | Some (Broke d, ls, w) \<Rightarrow> d < length its \<and> arrives h fn R f (B d) ls (somes (drop d its) @ rest) w
      | Some (Continued d, ls, w) \<Rightarrow> d < length its \<and> arrives h fn R f (C d) ls (somes (drop d its) @ rest) w
      | Some (Returned v, ls, w) \<Rightarrow> (\<exists>f'. R = Some (Finished v, f', w) \<and> fr_locals f' = ls)
      | Some (Threw e, ls, w) \<Rightarrow> (\<exists>f'. R = vm_exec h fn (Some e) f' w \<and> fr_locals f' = ls))"

definition goes ::
  "('v, 'w) host \<Rightarrow> func \<Rightarrow> nat \<Rightarrow> (nat \<Rightarrow> nat) \<Rightarrow> (nat \<Rightarrow> nat) \<Rightarrow> nat option list \<Rightarrow> nat list \<Rightarrow> nat list
     \<Rightarrow> nat \<Rightarrow> nat \<Rightarrow> ('v, 'w) act \<Rightarrow> bool" where
  "goes h fn D B C its as zs p q m =
     (\<forall>f w rest. fr_pc f = int p \<longrightarrow> length (fr_stack f) \<le> D \<longrightarrow> length (fr_locals f) = length (fn_Locals fn)
        \<longrightarrow> fr_iters f = as @ rest
        \<longrightarrow> flows h fn B C its zs rest q (vm_exec h fn None f w) f (m (fr_locals f) w))"

lemma goesI:
  "(\<And>f w rest. fr_pc f = int p \<Longrightarrow> length (fr_stack f) \<le> D \<Longrightarrow> length (fr_locals f) = length (fn_Locals fn)
     \<Longrightarrow> fr_iters f = as @ rest \<Longrightarrow> flows h fn B C its zs rest q (vm_exec h fn None f w) f (m (fr_locals f) w))
   \<Longrightarrow> goes h fn D B C its as zs p q m"
  by (simp add: goes_def)

lemma goesD:
  "goes h fn D B C its as zs p q m \<Longrightarrow> fr_pc f = int p \<Longrightarrow> length (fr_stack f) \<le> D
     \<Longrightarrow> length (fr_locals f) = length (fn_Locals fn) \<Longrightarrow> fr_iters f = as @ rest
     \<Longrightarrow> flows h fn B C its zs rest q (vm_exec h fn None f w) f (m (fr_locals f) w)"
  by (simp add: goes_def)

text \<open>The same with a value on top of the stack, which the piece takes.\<close>

definition takes ::
  "('v, 'w) host \<Rightarrow> func \<Rightarrow> nat \<Rightarrow> (nat \<Rightarrow> nat) \<Rightarrow> (nat \<Rightarrow> nat) \<Rightarrow> nat option list \<Rightarrow> nat list \<Rightarrow> nat list
     \<Rightarrow> nat \<Rightarrow> nat \<Rightarrow> ('v \<Rightarrow> ('v, 'w) act) \<Rightarrow> bool" where
  "takes h fn D B C its as zs p q k =
     (\<forall>v f w st rest. fr_pc f = int p \<longrightarrow> fr_stack f = v # st \<longrightarrow> length st \<le> D
        \<longrightarrow> length (fr_locals f) = length (fn_Locals fn) \<longrightarrow> fr_iters f = as @ rest
        \<longrightarrow> flows h fn B C its zs rest q (vm_exec h fn None f w) (f\<lparr>fr_stack := st\<rparr>) (k v (fr_locals f) w))"

lemma takesI:
  "(\<And>v f w st rest. fr_pc f = int p \<Longrightarrow> fr_stack f = v # st \<Longrightarrow> length st \<le> D
     \<Longrightarrow> length (fr_locals f) = length (fn_Locals fn) \<Longrightarrow> fr_iters f = as @ rest
     \<Longrightarrow> flows h fn B C its zs rest q (vm_exec h fn None f w) (f\<lparr>fr_stack := st\<rparr>) (k v (fr_locals f) w))
   \<Longrightarrow> takes h fn D B C its as zs p q k"
  by (simp add: takes_def)

lemma takesD:
  "takes h fn D B C its as zs p q k \<Longrightarrow> fr_pc f = int p \<Longrightarrow> fr_stack f = v # st \<Longrightarrow> length st \<le> D
     \<Longrightarrow> length (fr_locals f) = length (fn_Locals fn) \<Longrightarrow> fr_iters f = as @ rest
     \<Longrightarrow> flows h fn B C its zs rest q (vm_exec h fn None f w) (f\<lparr>fr_stack := st\<rparr>) (k v (fr_locals f) w)"
  by (simp add: takes_def)

section \<open>Putting pieces together\<close>

text \<open>Only the stack and the parked control of the frame count.\<close>

lemma flows_frame:
  assumes "flows h fn B C its zs rest q R f1 r" "fr_stack f1 = fr_stack f" "fr_handlerPending f1 = fr_handlerPending f"
  shows "flows h fn B C its zs rest q R f r"
proof -
  have "f1\<lparr>fr_pc := p, fr_locals := ls, fr_iters := is\<rparr> = f\<lparr>fr_pc := p, fr_locals := ls, fr_iters := is\<rparr>" for p ls "is"
    using assms(2,3) by (cases f; cases f1) simp
  then show ?thesis
    using assms(1) by (auto simp: flows_def arrives_def split: option.splits prod.splits flow.splits)
qed

lemma goes_skip: "goes h fn D B C its as as p p skip"
proof (rule goesI)
  fix f :: "'a frame" and w rest
  assume "fr_pc f = int p" "length (fr_locals f) = length (fn_Locals fn)" "fr_iters f = as @ rest"
  then show "flows h fn B C its as rest p (vm_exec h fn None f w) f (skip (fr_locals f) w)"
    by (cases f) (simp add: flows_def skip_def arrives_def)
qed

text \<open>A piece is entered from a run that arrives at it.\<close>

lemma flows_goes:
  assumes "goes h fn D B C its as zs p q m" "arrives h fn R f p ls (as @ rest) w" "length (fr_stack f) \<le> D"
  shows "flows h fn B C its zs rest q R f (m ls w)"
proof -
  let ?f = "f\<lparr>fr_pc := int p, fr_locals := ls, fr_iters := as @ rest\<rparr>"
  have r: "R = vm_exec h fn None ?f w" using assms(2) by (simp add: arrives_def)
  have "flows h fn B C its zs rest q (vm_exec h fn None ?f w) ?f (m ls w)"
    using goesD[OF assms(1), of ?f rest w] assms(2,3) by (simp add: arrives_def)
  then show ?thesis unfolding r by (rule flows_frame) simp_all
qed

lemma flows_after:
  assumes "flows h fn B C its bs rest q R f r" "goes h fn D B C its bs zs q q' m" "length (fr_stack f) \<le> D"
  shows "flows h fn B C its zs rest q' R f (after r m)"
proof (cases "\<exists>ls w'. r = Some (Normal, ls, w')")
  case True
  then obtain ls w' where r: "r = Some (Normal, ls, w')" by blast
  then have "arrives h fn R f q ls (bs @ rest) w'" using assms(1) by (simp add: flows_def)
  from flows_goes[OF assms(2) this assms(3)] show ?thesis by (simp add: after_def r)
next
  case False
  then have "after r m = r"
    by (auto simp: after_def split: option.splits flow.splits prod.splits)
  then show ?thesis
    using assms(1) False by (auto simp: flows_def split: option.splits flow.splits prod.splits)
qed

lemma goes_after:
  assumes "goes h fn D B C its as bs p q m1" "goes h fn D B C its bs zs q r m2"
  shows "goes h fn D B C its as zs p r (\<lambda>ls w. after (m1 ls w) m2)"
  by (rule goesI) (rule flows_after[OF goesD[OF assms(1)] assms(2)])

lemma goes_value:
  assumes "computes h fn p q D [] (\<lambda>ls w. one (mc ls w))" "takes h fn D B C its as zs q r k"
  shows "goes h fn D B C its as zs p r (\<lambda>ls w. with_value (mc ls w) k)"
proof (rule goesI)
  fix f :: "'a frame" and w rest
  assume f: "fr_pc f = int p" "length (fr_stack f) \<le> D" "length (fr_locals f) = length (fn_Locals fn)" "fr_iters f = as @ rest"
  obtain x ls w1 where m: "mc (fr_locals f) w = (x, ls, w1)" by (rule prod_cases3)
  have f0: "fr_stack f = [] @ fr_stack f" by simp
  note c = assms(1)[unfolded computes_def, rule_format, OF f(1) f0 f(2,3), of w]
  show "flows h fn B C its zs rest r (vm_exec h fn None f w) f (with_value (mc (fr_locals f) w) k)"
  proof (cases x)
    case (Inl e)
    then have "with_value (mc (fr_locals f) w) k = Some (Threw e, ls, w1)" by (simp add: with_value_def m)
    moreover have "\<exists>f'. vm_exec h fn None f w = vm_exec h fn (Some e) f' w1 \<and> fr_locals f' = ls"
      using c by (auto simp: m Inl raised_at_def)
    ultimately show ?thesis by (simp add: flows_def)
  next
    case (Inr v)
    let ?f = "f\<lparr>fr_pc := int q, fr_stack := v # fr_stack f, fr_locals := ls\<rparr>"
    have l: "length ls = length (fn_Locals fn)" "vm_exec h fn None f w = vm_exec h fn None ?f w1"
      using c by (simp_all add: m Inr)
    have k: "flows h fn B C its zs rest r (vm_exec h fn None ?f w1) (?f\<lparr>fr_stack := fr_stack f\<rparr>) (k v ls w1)"
      using takesD[OF assms(2), of ?f v "fr_stack f" rest w1] f l(1) by simp
    have "with_value (mc (fr_locals f) w) k = k v ls w1" by (simp add: with_value_def m Inr)
    then show ?thesis
      unfolding l(2) using flows_frame[OF k] by simp
  qed
qed

lemma goes_drop:
  assumes "computes h fn p q D [] (\<lambda>ls w. none (m ls w))"
  shows "goes h fn D B C its as as p q (\<lambda>ls w. run_expr (m ls w))"
proof (rule goesI)
  fix f :: "'a frame" and w rest
  assume f: "fr_pc f = int p" "length (fr_stack f) \<le> D" "length (fr_locals f) = length (fn_Locals fn)" "fr_iters f = as @ rest"
  obtain x ls w1 where m: "m (fr_locals f) w = (x, ls, w1)" by (rule prod_cases3)
  have f0: "fr_stack f = [] @ fr_stack f" by simp
  note c = assms(1)[unfolded computes_def, rule_format, OF f(1) f0 f(2,3), of w]
  show "flows h fn B C its as rest q (vm_exec h fn None f w) f (run_expr (m (fr_locals f) w))"
  proof (cases x)
    case (Inl e)
    then show ?thesis
      using c by (auto simp: m run_expr_def flows_def raised_at_def)
  next
    case (Inr u)
    have "f\<lparr>fr_pc := int q, fr_stack := fr_stack f, fr_locals := ls\<rparr> = f\<lparr>fr_pc := int q, fr_locals := ls, fr_iters := as @ rest\<rparr>"
      using f(4) by (cases f) simp
    then show ?thesis
      using c by (simp add: m Inr run_expr_def flows_def arrives_def)
  qed
qed

section \<open>Steps\<close>

lemma goes_step:
  assumes "p < length (fn_Code fn)"
    and "\<And>f w. fr_pc f = int (Suc p) \<Longrightarrow> length (fr_locals f) = length (fn_Locals fn) \<Longrightarrow>
       vm_dispatch h fn (fn_Code fn ! p) f w = (Running, f\<lparr>fr_pc := int q\<rparr>, g w)"
    and "goes h fn D B C its as zs q r m"
  shows "goes h fn D B C its as zs p r (\<lambda>ls w. m ls (g w))"
proof (rule goesI)
  fix f :: "'a frame" and w rest
  assume f: "fr_pc f = int p" "length (fr_stack f) \<le> D" "length (fr_locals f) = length (fn_Locals fn)" "fr_iters f = as @ rest"
  have "vm_step h fn f w = (Running, f\<lparr>fr_pc := int q\<rparr>, g w)"
    using assms(2)[of "goto (int (Suc p)) f" w] vm_step_at[OF assms(1) f(1), of h w] f(3) by (simp add: goto_def)
  then have e: "vm_exec h fn None f w = vm_exec h fn None (f\<lparr>fr_pc := int q\<rparr>) (g w)"
    by (subst vm_exec_step) simp
  have k: "flows h fn B C its zs rest r (vm_exec h fn None (f\<lparr>fr_pc := int q\<rparr>) (g w)) (f\<lparr>fr_pc := int q\<rparr>) (m (fr_locals f) (g w))"
    using goesD[OF assms(3), of "f\<lparr>fr_pc := int q\<rparr>" rest "g w"] f by simp
  show "flows h fn B C its zs rest r (vm_exec h fn None f w) f (m (fr_locals f) (g w))"
    unfolding e by (rule flows_frame[OF k]) simp_all
qed

lemma goes_jmp:
  assumes "instr_at fn p OpJmp a b (disp p t)" "goes h fn D B C its as zs t r m"
  shows "goes h fn D B C its as zs p r m"
proof -
  have "goes h fn D B C its as zs p r (\<lambda>ls w. m ls ((\<lambda>w. w) w))"
  proof (rule goes_step[OF _ _ assms(2)])
    show "p < length (fn_Code fn)" using assms(1) by (simp add: instr_at_def)
  next
    fix f :: "'a frame" and w
    assume "fr_pc f = int (Suc p)"
    then show "vm_dispatch h fn (fn_Code fn ! p) f w = (Running, f\<lparr>fr_pc := int t\<rparr>, w)"
      using assms(1) disp_jump[of p t] by (cases f) (auto simp: instr_at_def vm_dispatch_def is_binary_def goto_def)
  qed
  then show ?thesis by simp
qed

text \<open>A popping conditional jump: \<open>mt\<close> is at \<open>t\<close> when the truth of the value is \<open>jb\<close>.\<close>

lemma takes_jump:
  assumes "instr_at fn p (if jb then OpJmpIfTrue else OpJmpIfFalse) a b (disp p t)"
    "goes h fn D B C its as zs (if jb then t else Suc p) q mt" "goes h fn D B C its as zs (if jb then Suc p else t) q mf"
  shows "takes h fn D B C its as zs p q (\<lambda>v ls w. case truth h v w of (b, w) \<Rightarrow> if b then mt ls w else mf ls w)"
proof (rule takesI)
  fix v and f :: "'a frame" and w st rest
  assume f: "fr_pc f = int p" "fr_stack f = v # st" "length st \<le> D" "length (fr_locals f) = length (fn_Locals fn)"
    "fr_iters f = as @ rest"
  have p: "p < length (fn_Code fn)" using assms(1) by (simp add: instr_at_def)
  obtain b w1 where t: "truth h v w = (b, w1)" by (rule prod.exhaust)
  let ?t = "if b = jb then t else Suc p"
  let ?f = "f\<lparr>fr_pc := int ?t, fr_stack := st\<rparr>"
  have "vm_step h fn f w = (Running, ?f, w1)"
    using assms(1) disp_jump[of p t] f(1,2) vm_step_at[OF p f(1), of h w] t
    by (cases jb; cases f) (auto simp: instr_at_def vm_dispatch_def is_binary_def goto_def jump_if_def pop_def)
  then have e: "vm_exec h fn None f w = vm_exec h fn None ?f w1"
    by (subst vm_exec_step) simp
  have "goes h fn D B C its as zs ?t q (if b then mt else mf)" using assms(2,3) by (cases b; cases jb) simp_all
  from goesD[OF this, of ?f rest w1] f(3-5)
  have k: "flows h fn B C its zs rest q (vm_exec h fn None ?f w1) ?f ((if b then mt else mf) (fr_locals f) w1)" by simp
  show "flows h fn B C its zs rest q (vm_exec h fn None f w) (f\<lparr>fr_stack := st\<rparr>)
      (case truth h v w of (b, w) \<Rightarrow> if b then mt (fr_locals f) w else mf (fr_locals f) w)"
    unfolding e t using flows_frame[OF k, of "f\<lparr>fr_stack := st\<rparr>"] by (cases b) simp_all
qed

lemma takes_pop:
  assumes "instr_at fn p OpPop a b d" "goes h fn D B C its as zs (Suc p) q m"
  shows "takes h fn D B C its as zs p q (\<lambda>v. m)"
proof (rule takesI)
  fix v and f :: "'a frame" and w st rest
  assume f: "fr_pc f = int p" "fr_stack f = v # st" "length st \<le> D" "length (fr_locals f) = length (fn_Locals fn)"
    "fr_iters f = as @ rest"
  have p: "p < length (fn_Code fn)" using assms(1) by (simp add: instr_at_def)
  let ?f = "f\<lparr>fr_pc := int (Suc p), fr_stack := st\<rparr>"
  have "vm_step h fn f w = (Running, ?f, w)"
    using assms(1) f(1,2) vm_step_at[OF p f(1), of h w]
    by (cases f) (auto simp: instr_at_def vm_dispatch_def is_binary_def goto_def pop_def)
  then have e: "vm_exec h fn None f w = vm_exec h fn None ?f w"
    by (subst vm_exec_step) simp
  from goesD[OF assms(2), of ?f rest w] f(3-5)
  have k: "flows h fn B C its zs rest q (vm_exec h fn None ?f w) ?f (m (fr_locals f) w)" by simp
  show "flows h fn B C its zs rest q (vm_exec h fn None f w) (f\<lparr>fr_stack := st\<rparr>) (m (fr_locals f) w)"
    unfolding e by (rule flows_frame[OF k]) simp_all
qed

section \<open>Ends\<close>

lemma no_finally: "fn_TryHandlers fn = [] \<Longrightarrow> findEnclosingFinally fn pc = None"
  by (simp add: findEnclosingFinally_def)

lemma takes_ret:
  assumes "instr_at fn p OpRet a b d" "fn_TryHandlers fn = []"
  shows "takes h fn D B C its as zs p q (\<lambda>v ls w. Some (Returned v, ls, w))"
proof (rule takesI)
  fix v and f :: "'a frame" and w st rest
  assume f: "fr_pc f = int p" "fr_stack f = v # st"
  have p: "p < length (fn_Code fn)" using assms(1) by (simp add: instr_at_def)
  have "vm_step h fn f w = (Finished v, f\<lparr>fr_pc := int (Suc p), fr_stack := st\<rparr>, w)"
    using assms(1) f no_finally[OF assms(2)] vm_step_at[OF p f(1), of h w]
    by (cases f) (auto simp: instr_at_def vm_dispatch_def is_binary_def goto_def pop_def route_return_def)
  then have "vm_exec h fn None f w = Some (Finished v, f\<lparr>fr_pc := int (Suc p), fr_stack := st\<rparr>, w)"
    by (subst vm_exec_step) simp
  then show "flows h fn B C its zs rest q (vm_exec h fn None f w) (f\<lparr>fr_stack := st\<rparr>) (Some (Returned v, fr_locals f, w))"
    by (simp add: flows_def)
qed

lemma goes_ret_null:
  assumes "instr_at fn p OpRetNull a b d" "fn_TryHandlers fn = []"
  shows "goes h fn D B C its as zs p q (\<lambda>ls w. case h_mk h VNull w of (v, w) \<Rightarrow> Some (Returned v, ls, w))"
proof (rule goesI)
  fix f :: "'a frame" and w rest
  assume f: "fr_pc f = int p"
  have p: "p < length (fn_Code fn)" using assms(1) by (simp add: instr_at_def)
  obtain v w1 where mk: "h_mk h VNull w = (v, w1)" by (rule prod.exhaust)
  have "vm_step h fn f w = (Finished v, f\<lparr>fr_pc := int (Suc p)\<rparr>, w1)"
    using assms(1) f no_finally[OF assms(2)] vm_step_at[OF p f(1), of h w] mk
    by (cases f) (auto simp: instr_at_def vm_dispatch_def is_binary_def goto_def route_return_def)
  then have "vm_exec h fn None f w = Some (Finished v, f\<lparr>fr_pc := int (Suc p)\<rparr>, w1)"
    by (subst vm_exec_step) simp
  then show "flows h fn B C its zs rest q (vm_exec h fn None f w) f
      (case h_mk h VNull w of (v, w) \<Rightarrow> Some (Returned v, fr_locals f, w))"
    by (simp add: flows_def mk)
qed

lemma takes_throw:
  assumes "instr_at fn p OpThrow a b d"
  shows "takes h fn D B C its as zs p q
    (\<lambda>v ls w. case h_ThrowObject h v w of (e, w) \<Rightarrow> Some (Threw e, ls, w))"
proof (rule takesI)
  fix v and f :: "'a frame" and w st rest
  assume f: "fr_pc f = int p" "fr_stack f = v # st"
  have p: "p < length (fn_Code fn)" using assms(1) by (simp add: instr_at_def)
  obtain e w1 where t: "h_ThrowObject h v w = (e, w1)" by (rule prod.exhaust)
  have "vm_step h fn f w = (Raised e, f\<lparr>fr_pc := int (Suc p), fr_stack := st\<rparr>, w1)"
    using assms(1) f vm_step_at[OF p f(1), of h w] t
    by (cases f) (auto simp: instr_at_def vm_dispatch_def is_binary_def goto_def pop_def raise_def)
  then have "vm_exec h fn None f w = vm_exec h fn (Some e) (f\<lparr>fr_pc := int (Suc p), fr_stack := st\<rparr>) w1"
    by (subst vm_exec_step) simp
  then show "flows h fn B C its zs rest q (vm_exec h fn None f w) (f\<lparr>fr_stack := st\<rparr>)
      (case h_ThrowObject h v w of (e, w) \<Rightarrow> Some (Threw e, fr_locals f, w))"
    by (auto simp: flows_def t)
qed

section \<open>Steps that may fail\<close>

text \<open>A step whose effect is on the slots and the host.\<close>

lemma goes_effect:
  assumes "p < length (fn_Code fn)"
    and "\<And>f w rest. fr_pc f = int (Suc p) \<Longrightarrow> length (fr_locals f) = length (fn_Locals fn) \<Longrightarrow> fr_iters f = as @ rest \<Longrightarrow>
       (case m (fr_locals f) w of
          (Inr _, ls, w') \<Rightarrow> vm_dispatch h fn (fn_Code fn ! p) f w = (Running, f\<lparr>fr_locals := ls\<rparr>, w')
        | (Inl e, ls, w') \<Rightarrow> vm_dispatch h fn (fn_Code fn ! p) f w = (Raised e, f\<lparr>fr_locals := ls\<rparr>, w'))"
    and "keeps m" "goes h fn D B C its as zs (Suc p) r k"
  shows "goes h fn D B C its as zs p r (\<lambda>ls w. with_value (m ls w) (\<lambda>_. k))"
proof (rule goesI)
  fix f :: "'a frame" and w rest
  assume f: "fr_pc f = int p" "length (fr_stack f) \<le> D" "length (fr_locals f) = length (fn_Locals fn)" "fr_iters f = as @ rest"
  obtain x ls w1 where m: "m (fr_locals f) w = (x, ls, w1)" by (rule prod_cases3)
  let ?f = "goto (int (Suc p)) f"
  have pc: "fr_pc ?f = int (Suc p)" "fr_locals ?f = fr_locals f" "fr_iters ?f = as @ rest"
    using f(4) by (simp_all add: goto_def)
  note d = assms(2)[OF pc(1) _ pc(3), of w, unfolded pc(2), OF f(3), folded vm_step_at[OF assms(1) f(1)]]
  show "flows h fn B C its zs rest r (vm_exec h fn None f w) f (with_value (m (fr_locals f) w) (\<lambda>_. k))"
  proof (cases x)
    case (Inl e)
    then have "vm_exec h fn None f w = vm_exec h fn (Some e) (?f\<lparr>fr_locals := ls\<rparr>) w1"
      using d m by (subst vm_exec_step) simp
    then show ?thesis by (auto simp: with_value_def m Inl flows_def)
  next
    case (Inr u)
    have l: "length ls = length (fn_Locals fn)" using keepsD[OF assms(3) m] f(3) by simp
    have "vm_exec h fn None f w = vm_exec h fn None (?f\<lparr>fr_locals := ls\<rparr>) w1"
      using d m Inr by (subst vm_exec_step) simp
    moreover have "?f\<lparr>fr_locals := ls\<rparr> = f\<lparr>fr_pc := int (Suc p), fr_locals := ls, fr_iters := as @ rest\<rparr>"
      using f(4) by (cases f) (simp add: goto_def)
    ultimately have "arrives h fn (vm_exec h fn None f w) f (Suc p) ls (as @ rest) w1"
      using l by (simp add: arrives_def)
    from flows_goes[OF assms(4) this f(2)] show ?thesis by (simp add: with_value_def m Inr)
  qed
qed

lemma goes_tick:
  assumes "instr_at fn p OpTick a b d" "LocAt fn (int p) = loc" "goes h fn D B C its as zs (Suc p) q m"
  shows "goes h fn D B C its as zs p q (ticked h loc m)"
proof -
  let ?m = "\<lambda>ls w. case h_Tick h loc w of (Some e, w) \<Rightarrow> (Inl e, ls, w) | (None, w) \<Rightarrow> (Inr (), ls, h_DrainTemps h w)"
  have "goes h fn D B C its as zs p q (\<lambda>ls w. with_value (?m ls w) (\<lambda>_. m))"
  proof (rule goes_effect[OF _ _ _ assms(3)])
    show "p < length (fn_Code fn)" using assms(1) by (simp add: instr_at_def)
    show "keeps ?m" by (auto simp: keeps_def split: prod.splits option.splits)
    fix f :: "'a frame" and w rest
    assume "fr_pc f = int (Suc p)"
    then show "case ?m (fr_locals f) w of
          (Inr _, ls, w') \<Rightarrow> vm_dispatch h fn (fn_Code fn ! p) f w = (Running, f\<lparr>fr_locals := ls\<rparr>, w')
        | (Inl e, ls, w') \<Rightarrow> vm_dispatch h fn (fn_Code fn ! p) f w = (Raised e, f\<lparr>fr_locals := ls\<rparr>, w')"
      using assms(1,2)
      by (auto simp: instr_at_def vm_dispatch_def is_binary_def unless_def raise_def split: prod.splits option.splits)
  qed
  moreover have "with_value (?m ls w) (\<lambda>_. m) = ticked h loc m ls w" for ls w
    by (simp add: with_value_def ticked_def split: prod.splits option.splits)
  ultimately show ?thesis by simp
qed

lemma goes_html:
  assumes "instr_at fn p OpInlineHtml a b d" "const_is a (VString s) fn"
  shows "goes h fn D B C its as as p (Suc p)
    (\<lambda>ls w. case h_Write h s w of (Some e, w) \<Rightarrow> Some (Threw e, ls, w) | (None, w) \<Rightarrow> skip ls w)"
proof -
  let ?m = "\<lambda>ls w. case h_Write h s w of (Some e, w) \<Rightarrow> (Inl e, ls, w) | (None, w) \<Rightarrow> (Inr (), ls, w)"
  have "goes h fn D B C its as as p (Suc p) (\<lambda>ls w. with_value (?m ls w) (\<lambda>_. skip))"
  proof (rule goes_effect[OF _ _ _ goes_skip])
    show "p < length (fn_Code fn)" using assms(1) by (simp add: instr_at_def)
    show "keeps ?m" by (auto simp: keeps_def split: prod.splits option.splits)
    fix f :: "'a frame" and w rest
    assume "fr_pc f = int (Suc p)"
    then show "case ?m (fr_locals f) w of
          (Inr _, ls, w') \<Rightarrow> vm_dispatch h fn (fn_Code fn ! p) f w = (Running, f\<lparr>fr_locals := ls\<rparr>, w')
        | (Inl e, ls, w') \<Rightarrow> vm_dispatch h fn (fn_Code fn ! p) f w = (Raised e, f\<lparr>fr_locals := ls\<rparr>, w')"
      using assms
      by (auto simp: instr_at_def vm_dispatch_def is_binary_def unless_def raise_def const_at_def const_is_def
          split: prod.splits option.splits)
  qed
  moreover have "with_value (?m ls w) (\<lambda>_. skip)
      = (case h_Write h s w of (Some e, w) \<Rightarrow> Some (Threw e, ls, w) | (None, w) \<Rightarrow> skip ls w)" for ls w
    by (simp add: with_value_def split: prod.splits option.splits)
  ultimately show ?thesis by simp
qed

section \<open>Loops\<close>

lemma goes_loop_body:
  assumes "goes h fn D B' C' (i # its) (somes (i # its)) (somes (i # its)) p j mb"
    "goes h fn D B C its (somes (i # its)) zs j r again" "goes h fn D B C its (somes (i # its)) zs (C' 0) r again"
    "goes h fn D B C its (somes (i # its)) zs (B' 0) r out"
    "\<And>d. B' (Suc d) = B d" "\<And>d. C' (Suc d) = C d"
  shows "goes h fn D B C its (somes (i # its)) zs p r (\<lambda>ls w. loop_body (mb ls w) again out)"
proof (rule goesI)
  fix f :: "'a frame" and w rest
  assume f: "fr_pc f = int p" "length (fr_stack f) \<le> D" "length (fr_locals f) = length (fn_Locals fn)"
    "fr_iters f = somes (i # its) @ rest"
  note b = goesD[OF assms(1) f, of w]
  let ?R = "vm_exec h fn None f w"
  show "flows h fn B C its zs rest r ?R f (loop_body (mb (fr_locals f) w) again out)"
  proof (cases "mb (fr_locals f) w")
    case None
    then show ?thesis by (simp add: loop_body_def flows_def)
  next
    case (Some r')
    obtain c ls w' where r': "r' = (c, ls, w')" by (rule prod_cases3)
    note m = Some[unfolded r']
    show ?thesis
    proof (cases c)
      case Normal
      then have "arrives h fn ?R f j ls (somes (i # its) @ rest) w'" using b m by (simp add: flows_def)
      from flows_goes[OF assms(2) this f(2)] show ?thesis by (simp add: loop_body_def m Normal)
    next
      case (Broke d)
      show ?thesis
      proof (cases d)
        case 0
        then have "arrives h fn ?R f (B' 0) ls (somes (i # its) @ rest) w'" using b m Broke by (simp add: flows_def)
        from flows_goes[OF assms(4) this f(2)] show ?thesis by (simp add: loop_body_def m Broke 0)
      next
        case (Suc d')
        then show ?thesis using b m Broke assms(5) by (simp add: flows_def loop_body_def)
      qed
    next
      case (Continued d)
      show ?thesis
      proof (cases d)
        case 0
        then have "arrives h fn ?R f (C' 0) ls (somes (i # its) @ rest) w'" using b m Continued by (simp add: flows_def)
        from flows_goes[OF assms(3) this f(2)] show ?thesis by (simp add: loop_body_def m Continued 0)
      next
        case (Suc d')
        then show ?thesis using b m Continued assms(6) by (simp add: flows_def loop_body_def)
      qed
    qed (use b m in \<open>simp_all add: flows_def loop_body_def\<close>)
  qed
qed

lemma goes_none: "goes h fn D B C its as zs p q (\<lambda>ls w. None)"
  by (simp add: goes_def flows_def)

lemma goes_while:
  assumes "computes h fn p x D [] (\<lambda>ls w. one (mc ls w))" "instr_at fn x OpJmpIfFalse 0 0 (disp x q)"
    "goes h fn D B' C' (None # its) (somes (None # its)) (somes (None # its)) (Suc x) j mb"
    "instr_at fn j OpJmp 0 0 (disp j p)" "B' 0 = q" "C' 0 = p" "\<And>d. B' (Suc d) = B d" "\<And>d. C' (Suc d) = C d"
  shows "goes h fn D B C its (somes its) (somes its) p q (while_loop k h mc mb)"
proof (induction k)
  case 0
  show ?case unfolding while_loop.simps by (rule goes_none)
next
  case (Suc k)
  have again: "goes h fn D B C its (somes (None # its)) (somes its) p q (while_loop k h mc mb)"
    using Suc by simp
  have out: "goes h fn D B C its (somes (None # its)) (somes its) q q skip"
    using goes_skip[of h fn D B C its "somes its" q] by simp
  have "goes h fn D B C its (somes its) (somes its) (Suc x) q (\<lambda>ls w. loop_body (mb ls w) (while_loop k h mc mb) skip)"
    using goes_loop_body[OF assms(3) goes_jmp[OF assms(4) again], of skip] again out assms(5-8) by simp
  then have "takes h fn D B C its (somes its) (somes its) x q (\<lambda>v ls w. case truth h v w of (b, w) \<Rightarrow>
      if b then (\<lambda>ls w. loop_body (mb ls w) (while_loop k h mc mb) skip) ls w else skip ls w)"
    using assms(2) out by (intro takes_jump[where jb = False and t = q]) simp_all
  from goes_value[OF assms(1) this] show ?case by simp
qed

lemma goes_do:
  assumes "goes h fn D B' C' (None # its) (somes (None # its)) (somes (None # its)) p j mb"
    "computes h fn j x D [] (\<lambda>ls w. one (mc ls w))" "instr_at fn x OpJmpIfTrue 0 0 (disp x p)"
    "B' 0 = Suc x" "C' 0 = j" "\<And>d. B' (Suc d) = B d" "\<And>d. C' (Suc d) = C d"
  shows "goes h fn D B C its (somes its) (somes its) p (Suc x) (do_loop k h mc mb)"
proof (induction k)
  case 0
  show ?case unfolding do_loop.simps by (rule goes_none)
next
  case (Suc k)
  let ?test = "\<lambda>ls w. with_value (mc ls w) (\<lambda>v ls w. case truth h v w of (b, w) \<Rightarrow>
      if b then do_loop k h mc mb ls w else skip ls w)"
  have out: "goes h fn D B C its (somes its) (somes its) (Suc x) (Suc x) skip" by (rule goes_skip)
  have "takes h fn D B C its (somes its) (somes its) x (Suc x) (\<lambda>v ls w. case truth h v w of (b, w) \<Rightarrow>
      if b then do_loop k h mc mb ls w else skip ls w)"
    using assms(3) Suc out by (intro takes_jump[where jb = True and t = p]) simp_all
  from goes_value[OF assms(2) this]
  have again: "goes h fn D B C its (somes its) (somes its) j (Suc x) ?test" .
  show ?case
    using goes_loop_body[OF assms(1), where B = B and C = C and zs = "somes its" and r = "Suc x"
        and again = ?test and out = skip] again out assms(4-7) by simp
qed

lemma goes_for:
  assumes conds: "\<And>mt mf. goes h fn D B C its (somes its) (somes its) b q mt \<Longrightarrow>
      goes h fn D B C its (somes its) (somes its) q q mf \<Longrightarrow>
      goes h fn D B C its (somes its) (somes its) p q (sem_conds h fn cs mt mf)"
    and body: "goes h fn D B' C' (None # its) (somes (None # its)) (somes (None # its)) b s mb"
    and step: "goes h fn D B C its (somes its) (somes its) s j (sem_drops h fn step)"
    and jmp: "instr_at fn j OpJmp 0 0 (disp j p)" "B' 0 = q" "C' 0 = s" "\<And>d. B' (Suc d) = B d" "\<And>d. C' (Suc d) = C d"
  shows "goes h fn D B C its (somes its) (somes its) p q (for_loop k h fn cs step mb)"
proof (induction k)
  case 0
  show ?case unfolding for_loop.simps by (rule goes_none)
next
  case (Suc k)
  have out: "goes h fn D B C its (somes its) (somes its) q q skip" by (rule goes_skip)
  have again: "goes h fn D B C its (somes its) (somes its) s q
      (\<lambda>ls w. after (sem_drops h fn step ls w) (for_loop k h fn cs step mb))"
    by (rule goes_after[OF step goes_jmp[OF jmp(1) Suc]])
  have "goes h fn D B C its (somes its) (somes its) b q
      (\<lambda>ls w. loop_body (mb ls w) (\<lambda>ls w. after (sem_drops h fn step ls w) (for_loop k h fn cs step mb)) skip)"
    using goes_loop_body[OF body, where B = B and C = C and zs = "somes its" and r = q
        and again = "\<lambda>ls w. after (sem_drops h fn step ls w) (for_loop k h fn cs step mb)" and out = skip]
      again out jmp(2-5) by simp
  from conds[OF this out] show ?case by simp
qed

subsection \<open>Iterators\<close>

lemma keeps_store_opt: "keeps (store_opt h fn i v)"
  using keeps_write_local by (fastforce simp: keeps_def store_opt_def split: option.splits prod.splits)

lemma storeLocal_opt:
  assumes "i < length (fr_locals f)"
  shows "storeLocal h fn i v f w k =
    (case store_opt h fn i v (fr_locals f) w of
       (Inl e, ls, w) \<Rightarrow> (Raised e, f\<lparr>fr_locals := ls\<rparr>, w)
     | (Inr _, ls, w) \<Rightarrow> k (f\<lparr>fr_locals := ls\<rparr>) w)"
proof (cases v)
  case None
  then show ?thesis
    using assms by (auto simp: storeLocal_def store_opt_def step_defs Let_def split: prod.splits option.splits)
next
  case (Some v')
  then show ?thesis using storeLocal_steps[OF assms, of h fn v' w k] by (simp add: store_opt_def)
qed

definition key_is :: "16 word \<Rightarrow> nat option \<Rightarrow> func \<Rightarrow> bool" where
  "key_is b ki fn = (case ki of None \<Rightarrow> b = 0xFFFF | Some i \<Rightarrow> b \<noteq> 0xFFFF \<and> unat b = i \<and> i < length (fn_Locals fn))"

lemma foreach_load:
  assumes "unat a < length (fn_Locals fn)" "length (fr_locals f) = length (fn_Locals fn)" "key_is b ki fn"
  shows "value_or (h_Current h it w) f (\<lambda>cur w.
           storeLocal h fn (unat a) cur f w (\<lambda>f w.
             if b = 0xFFFF then (Running, f, w)
             else value_or (h_Key h it w) f (\<lambda>key w.
                    storeLocal h fn (unat b) key f w (\<lambda>f w. (Running, f, w)))))
     = (case load_current h fn it (unat a) ki (fr_locals f) w of
          (Inl e, ls, w) \<Rightarrow> (Raised e, f\<lparr>fr_locals := ls\<rparr>, w)
        | (Inr _, ls, w) \<Rightarrow> (Running, f\<lparr>fr_locals := ls\<rparr>, w))"
proof -
  obtain x1 w1 where 1: "h_Current h it w = (x1, w1)" by (rule prod.exhaust)
  show ?thesis
  proof (cases x1)
    case (Inl e)
    then show ?thesis by (simp add: value_or_def 1 load_current_def of_iter_def raise_def)
  next
    case (Inr cur)
    obtain x2 ls2 w2 where 2: "store_opt h fn (unat a) cur (fr_locals f) w1 = (x2, ls2, w2)" by (rule prod_cases3)
    have l2: "length ls2 = length (fn_Locals fn)" using keepsD[OF keeps_store_opt 2] assms(2) by simp
    have s: "storeLocal h fn (unat a) cur f w1 k
        = (case x2 of Inl e \<Rightarrow> (Raised e, f\<lparr>fr_locals := ls2\<rparr>, w2) | Inr _ \<Rightarrow> k (f\<lparr>fr_locals := ls2\<rparr>) w2)" for k
      using storeLocal_opt[of "unat a" f h fn cur w1 k] assms(1,2) 2 by (cases x2) simp_all
    show ?thesis
    proof (cases x2)
      case e: (Inl e)
      then show ?thesis using Inr 1 2 s by (simp add: value_or_def load_current_def of_iter_def)
    next
      case ok: (Inr u)
      show ?thesis
      proof (cases ki)
        case None
        then show ?thesis using assms(3) Inr 1 2 s ok by (simp add: value_or_def load_current_def of_iter_def key_is_def)
      next
        case (Some i)
        then have b: "b \<noteq> 0xFFFF" "unat b = i" "i < length (fn_Locals fn)" using assms(3) by (simp_all add: key_is_def)
        obtain x3 w3 where 3: "h_Key h it w2 = (x3, w3)" by (rule prod.exhaust)
        show ?thesis
          using Inr 1 2 3 s ok Some b l2 storeLocal_opt[of i "f\<lparr>fr_locals := ls2\<rparr>" h fn _ w3]
          by (cases x3) (simp_all add: value_or_def load_current_def of_iter_def raise_def split: prod.splits sum.splits)
      qed
    qed
  qed
qed

lemma keeps_of_iter: "keeps (\<lambda>ls w. of_iter (r w) ls)"
  by (rule keepsI) (simp add: of_iter_def split: prod.splits)

lemma keeps_load_current: "keeps (load_current h fn it vi ki)"
  unfolding load_current_def
  by (cases ki) (simp_all, (intro keeps_bindr keeps_of_iter keeps_store_opt keeps_ret)+)

text \<open>The step of a \<open>foreach\<close> at \<open>p\<close>: \<open>body\<close> follows it, \<open>out\<close> is at its target.\<close>

lemma goes_foreach_step:
  assumes "instr_at fn p OpForeachStep a b (disp p u)" "unat a < length (fn_Locals fn)" "key_is b ki fn"
    "goes h fn D B C its (it # as) zs (Suc p) q body" "goes h fn D B C its (it # as) zs u q out"
  shows "goes h fn D B C its (it # as) zs p q
    (\<lambda>ls w. case h_Valid h it w of
       (False, w) \<Rightarrow> out ls w
     | (True, w) \<Rightarrow> with_value (load_current h fn it (unat a) ki ls w) (\<lambda>_. body))"
proof (rule goesI)
  fix f :: "'a frame" and w rest
  assume f: "fr_pc f = int p" "length (fr_stack f) \<le> D" "length (fr_locals f) = length (fn_Locals fn)"
    "fr_iters f = (it # as) @ rest"
  have p: "p < length (fn_Code fn)" using assms(1) by (simp add: instr_at_def)
  let ?f = "goto (int (Suc p)) f"
  have g: "fr_iters ?f = it # as @ rest" "fr_locals ?f = fr_locals f" "fr_pc ?f = int (Suc p)"
    using f(4) by (simp_all add: goto_def)
  have d: "vm_step h fn f w = step_foreach_step h fn (unat a) b (disp p u) ?f w"
    using assms(1) vm_step_at[OF p f(1), of h w]
    by (auto simp: instr_at_def vm_dispatch_def is_binary_def Let_def)
  obtain v w1 where v: "h_Valid h it w = (v, w1)" by (rule prod.exhaust)
  show "flows h fn B C its zs rest q (vm_exec h fn None f w) f
    (case h_Valid h it w of
       (False, w) \<Rightarrow> out (fr_locals f) w
     | (True, w) \<Rightarrow> with_value (load_current h fn it (unat a) ki (fr_locals f) w) (\<lambda>_. body))"
  proof (cases v)
    case False
    then have "vm_step h fn f w = (Running, goto (int u) f, w1)"
      using v disp_jump[of p u] unfolding d step_foreach_step_def with_iter_def g by (simp add: goto_def)
    then have "vm_exec h fn None f w = vm_exec h fn None (goto (int u) f) w1"
      by (subst vm_exec_step) simp
    moreover have "goto (int u) f = f\<lparr>fr_pc := int u, fr_locals := fr_locals f, fr_iters := (it # as) @ rest\<rparr>"
      using f(4) by (cases f) (simp add: goto_def)
    ultimately have "arrives h fn (vm_exec h fn None f w) f u (fr_locals f) ((it # as) @ rest) w1"
      using f(3) by (simp add: arrives_def)
    from flows_goes[OF assms(5) this f(2)] show ?thesis by (simp add: v False)
  next
    case True
    have l: "length (fr_locals ?f) = length (fn_Locals fn)" using f(3) g(2) by simp
    obtain x ls w2 where x: "load_current h fn it (unat a) ki (fr_locals f) w1 = (x, ls, w2)" by (rule prod_cases3)
    have s: "vm_step h fn f w = (case x of Inl e \<Rightarrow> (Raised e, ?f\<lparr>fr_locals := ls\<rparr>, w2)
          | Inr _ \<Rightarrow> (Running, ?f\<lparr>fr_locals := ls\<rparr>, w2))"
      using v True foreach_load[OF assms(2) l assms(3), of h it w1] x
      unfolding d step_foreach_step_def with_iter_def g by (cases x) simp_all
    show ?thesis
    proof (cases x)
      case (Inl e)
      then have "vm_exec h fn None f w = vm_exec h fn (Some e) (?f\<lparr>fr_locals := ls\<rparr>) w2"
        using s by (subst vm_exec_step) simp
      then show ?thesis by (auto simp: v True with_value_def x Inl flows_def)
    next
      case (Inr y)
      then have "vm_exec h fn None f w = vm_exec h fn None (?f\<lparr>fr_locals := ls\<rparr>) w2"
        using s by (subst vm_exec_step) simp
      moreover have "?f\<lparr>fr_locals := ls\<rparr> = f\<lparr>fr_pc := int (Suc p), fr_locals := ls, fr_iters := (it # as) @ rest\<rparr>"
        using f(4) by (cases f) (simp add: goto_def)
      moreover have "length ls = length (fn_Locals fn)" using keepsD[OF keeps_load_current x] f(3) by simp
      ultimately have "arrives h fn (vm_exec h fn None f w) f (Suc p) ls ((it # as) @ rest) w2"
        by (simp add: arrives_def)
      from flows_goes[OF assms(4) this f(2)] show ?thesis by (simp add: v True with_value_def x Inr)
    qed
  qed
qed

lemma goes_advance:
  assumes "instr_at fn p OpForeachAdvance 0 0 d" "goes h fn D B C its (it # as) zs (Suc p) q m"
  shows "goes h fn D B C its (it # as) zs p q
    (\<lambda>ls w. case h_Next h it w of (Some e, w) \<Rightarrow> Some (Threw e, ls, w) | (None, w) \<Rightarrow> m ls w)"
proof -
  let ?m = "\<lambda>ls w. case h_Next h it w of (Some e, w) \<Rightarrow> (Inl e, ls, w) | (None, w) \<Rightarrow> (Inr (), ls, w)"
  have "goes h fn D B C its (it # as) zs p q (\<lambda>ls w. with_value (?m ls w) (\<lambda>_. m))"
  proof (rule goes_effect[OF _ _ _ assms(2)])
    show "p < length (fn_Code fn)" using assms(1) by (simp add: instr_at_def)
    show "keeps ?m" by (auto simp: keeps_def split: prod.splits option.splits)
    fix f :: "'a frame" and w rest
    assume "fr_pc f = int (Suc p)" "fr_iters f = (it # as) @ rest"
    then show "case ?m (fr_locals f) w of
          (Inr _, ls, w') \<Rightarrow> vm_dispatch h fn (fn_Code fn ! p) f w = (Running, f\<lparr>fr_locals := ls\<rparr>, w')
        | (Inl e, ls, w') \<Rightarrow> vm_dispatch h fn (fn_Code fn ! p) f w = (Raised e, f\<lparr>fr_locals := ls\<rparr>, w')"
      using assms(1)
      by (auto simp: instr_at_def vm_dispatch_def is_binary_def step_foreach_advance_def with_iter_def unless_def raise_def
          split: prod.splits option.splits)
  qed
  moreover have "with_value (?m ls w) (\<lambda>_. m)
      = (case h_Next h it w of (Some e, w) \<Rightarrow> Some (Threw e, ls, w) | (None, w) \<Rightarrow> m ls w)" for ls w
    by (simp add: with_value_def split: prod.splits option.splits)
  ultimately show ?thesis by simp
qed

lemma goes_unwind:
  assumes "instr_at fn p OpForeachUnwind 0 0 d" "goes h fn D B C its as zs (Suc p) q m"
  shows "goes h fn D B C its (it # as) zs p q (\<lambda>ls w. m ls (h_Cleanup h it w))"
proof (rule goesI)
  fix f :: "'a frame" and w rest
  assume f: "fr_pc f = int p" "length (fr_stack f) \<le> D" "length (fr_locals f) = length (fn_Locals fn)"
    "fr_iters f = (it # as) @ rest"
  have p: "p < length (fn_Code fn)" using assms(1) by (simp add: instr_at_def)
  have "vm_step h fn f w = (Running, (goto (int (Suc p)) f)\<lparr>fr_iters := as @ rest\<rparr>, h_Cleanup h it w)"
    using assms(1) vm_step_at[OF p f(1), of h w] f(4)
    by (cases f) (auto simp: instr_at_def vm_dispatch_def is_binary_def step_foreach_unwind_def with_iter_def goto_def)
  then have "vm_exec h fn None f w = vm_exec h fn None ((goto (int (Suc p)) f)\<lparr>fr_iters := as @ rest\<rparr>) (h_Cleanup h it w)"
    by (subst vm_exec_step) simp
  moreover have "(goto (int (Suc p)) f)\<lparr>fr_iters := as @ rest\<rparr>
      = f\<lparr>fr_pc := int (Suc p), fr_locals := fr_locals f, fr_iters := as @ rest\<rparr>"
    by (cases f) (simp add: goto_def)
  ultimately have "arrives h fn (vm_exec h fn None f w) f (Suc p) (fr_locals f) (as @ rest) (h_Cleanup h it w)"
    using f(3) by (simp add: arrives_def)
  from flows_goes[OF assms(2) this f(2)]
  show "flows h fn B C its zs rest q (vm_exec h fn None f w) f (m (fr_locals f) (h_Cleanup h it w))" .
qed

text \<open>A loop over a container: head \<open>p\<close>, end of the body \<open>j\<close>, unwinding at \<open>u\<close>.\<close>

lemma goes_foreach:
  assumes step: "instr_at fn p OpForeachStep a b (disp p u)" "unat a < length (fn_Locals fn)" "key_is b ki fn"
    and body: "goes h fn D B' C' (Some it # its) (somes (Some it # its)) (somes (Some it # its)) (Suc p) j mb"
    and advance: "instr_at fn j OpForeachAdvance 0 0 d1" "instr_at fn (Suc j) OpJmp 0 0 (disp (Suc j) p)"
    and unwind: "instr_at fn u OpForeachUnwind 0 0 d2" "B' 0 = u" "C' 0 = j"
    and outer: "\<And>d. B' (Suc d) = B d" "\<And>d. C' (Suc d) = C d"
  shows "goes h fn D B C its (somes (Some it # its)) (somes its) p (Suc u) (foreach_loop k h fn it (unat a) ki mb)"
proof (induction k)
  case 0
  show ?case unfolding foreach_loop.simps by (rule goes_none)
next
  case (Suc k)
  have out: "goes h fn D B C its (somes (Some it # its)) (somes its) u (Suc u) (\<lambda>ls w. skip ls (h_Cleanup h it w))"
    using goes_unwind[OF unwind(1) goes_skip, of h D B C its it "somes its"] by simp
  let ?again = "\<lambda>ls w. case h_Next h it w of
                 (Some e, w) \<Rightarrow> Some (Threw e, ls, w)
               | (None, w) \<Rightarrow> foreach_loop k h fn it (unat a) ki mb ls w"
  have again: "goes h fn D B C its (somes (Some it # its)) (somes its) j (Suc u) ?again"
    using goes_advance[OF advance(1), of h D B C its it "somes its"] goes_jmp[OF advance(2) Suc] by simp
  have "goes h fn D B C its (somes (Some it # its)) (somes its) (Suc p) (Suc u)
      (\<lambda>ls w. loop_body (mb ls w) ?again (\<lambda>ls w. skip ls (h_Cleanup h it w)))"
    using goes_loop_body[OF body, where B = B and C = C and zs = "somes its" and r = "Suc u"
        and again = ?again and out = "\<lambda>ls w. skip ls (h_Cleanup h it w)"]
      again out unwind(2,3) outer by simp
  from goes_foreach_step[OF step, of h D B C its it "somes its" "somes its" "Suc u"] this out
  show ?case by simp
qed

lemma takes_foreach_init:
  assumes "instr_at fn p OpForeachInit 0 0 (disp p q)" "LocAt fn (int p) = loc"
    "\<And>it. goes h fn D B C its (it # somes its) (somes its) (Suc p) q (k it)"
  shows "takes h fn D B C its (somes its) (somes its) p q
    (\<lambda>c ls w. with_value (of_iter (h_foreachInit h c w) ls) (\<lambda>it ls w.
        case it of None \<Rightarrow> skip ls (h_foreachWarn h c loc w) | Some it \<Rightarrow> k it ls w))"
proof (rule takesI)
  fix v and f :: "'a frame" and w st rest
  assume f: "fr_pc f = int p" "fr_stack f = v # st" "length st \<le> D" "length (fr_locals f) = length (fn_Locals fn)"
    "fr_iters f = somes its @ rest"
  have p: "p < length (fn_Code fn)" using assms(1) by (simp add: instr_at_def)
  let ?f = "f\<lparr>fr_pc := int (Suc p), fr_stack := st\<rparr>"
  obtain x w1 where x: "h_foreachInit h v w = (x, w1)" by (rule prod.exhaust)
  have d: "vm_step h fn f w = (case x of Inl e \<Rightarrow> (Raised e, ?f, w1)
      | Inr None \<Rightarrow> (Running, ?f\<lparr>fr_pc := int q\<rparr>, h_foreachWarn h v loc w1)
      | Inr (Some it) \<Rightarrow> (Running, ?f\<lparr>fr_iters := it # fr_iters f\<rparr>, w1))"
    using assms(1,2) f(1,2) vm_step_at[OF p f(1), of h w] x disp_jump[of p q]
    by (cases f) (auto simp: instr_at_def vm_dispatch_def is_binary_def step_foreach_init_def goto_def pop_def value_or_def
        raise_def split: sum.splits option.splits)
  show "flows h fn B C its (somes its) rest q (vm_exec h fn None f w) (f\<lparr>fr_stack := st\<rparr>)
    (with_value (of_iter (h_foreachInit h v w) (fr_locals f)) (\<lambda>it ls w.
        case it of None \<Rightarrow> skip ls (h_foreachWarn h v loc w) | Some it \<Rightarrow> k it ls w))"
  proof (cases x)
    case (Inl e)
    then have "vm_exec h fn None f w = vm_exec h fn (Some e) ?f w1" using d by (subst vm_exec_step) simp
    moreover have "fr_locals ?f = fr_locals f" by simp
    ultimately show ?thesis by (auto simp: x Inl with_value_def of_iter_def flows_def)
  next
    case (Inr it)
    show ?thesis
    proof (cases it)
      case None
      then have "vm_exec h fn None f w = vm_exec h fn None (?f\<lparr>fr_pc := int q\<rparr>) (h_foreachWarn h v loc w1)"
        using d Inr by (subst vm_exec_step) simp
      moreover have "?f\<lparr>fr_pc := int q\<rparr>
          = f\<lparr>fr_stack := st, fr_pc := int q, fr_locals := fr_locals f, fr_iters := somes its @ rest\<rparr>"
        using f(5) by (cases f) simp
      ultimately show ?thesis
        using f(4) by (simp add: x Inr None with_value_def of_iter_def flows_def skip_def arrives_def)
    next
      case (Some i)
      then have "vm_exec h fn None f w = vm_exec h fn None (?f\<lparr>fr_iters := i # fr_iters f\<rparr>) w1"
        using d Inr by (subst vm_exec_step) simp
      moreover have "?f\<lparr>fr_iters := i # fr_iters f\<rparr>
          = f\<lparr>fr_stack := st, fr_pc := int (Suc p), fr_locals := fr_locals f, fr_iters := (i # somes its) @ rest\<rparr>"
        using f(5) by (cases f) simp
      ultimately have "arrives h fn (vm_exec h fn None f w) (f\<lparr>fr_stack := st\<rparr>) (Suc p) (fr_locals f) ((i # somes its) @ rest) w1"
        using f(4) by (simp add: arrives_def)
      from flows_goes[OF assms(3) this] f(3)
      show ?thesis by (simp add: x Inr Some with_value_def of_iter_def)
    qed
  qed
qed

subsection \<open>Leaving loops\<close>

lemma goes_cleanups:
  assumes "\<forall>i<length (somes xs). instr_at fn (p + i) OpForeachUnwind 0 0 0"
    "goes h fn D B C its as zs (p + length (somes xs)) q m"
  shows "goes h fn D B C its (somes xs @ as) zs p q (\<lambda>ls w. m ls (cleanups h xs w))"
  using assms
proof (induction xs arbitrary: p m)
  case Nil
  then show ?case by simp
next
  case (Cons x xs)
  show ?case
  proof (cases x)
    case None
    then show ?thesis using Cons by simp
  next
    case (Some it)
    have "\<forall>i<length (somes xs). instr_at fn (Suc p + i) OpForeachUnwind 0 0 0"
    proof (intro allI impI)
      fix i assume "i < length (somes xs)"
      then show "instr_at fn (Suc p + i) OpForeachUnwind 0 0 0"
        using Cons.prems(1)[rule_format, of "Suc i"] Some by simp
    qed
    then have "goes h fn D B C its (somes xs @ as) zs (Suc p) q (\<lambda>ls w. m ls (cleanups h xs w))"
      using Cons.IH[of "Suc p" m] Cons.prems(2) Some by simp
    then show ?thesis
      using goes_unwind[of fn p 0 h D B C its "somes xs @ as" zs q "\<lambda>ls w. m ls (cleanups h xs w)" it]
        Cons.prems(1)[rule_format, of 0] Some by simp
  qed
qed

lemma somes_append: "somes (xs @ ys) = somes xs @ somes ys"
  by (simp add: somes_def)

lemma goes_out:
  assumes "instr_at fn p OpJmp a b (disp p t)" "d < length its"
    "c = Broke d \<and> t = B d \<or> c = Continued d \<and> t = C d"
  shows "goes h fn D B C its (somes (drop d its)) zs p q (\<lambda>ls w. Some (c, ls, w))"
proof (rule goesI)
  fix f :: "'a frame" and w rest
  assume f: "fr_pc f = int p" "length (fr_stack f) \<le> D" "length (fr_locals f) = length (fn_Locals fn)"
    "fr_iters f = somes (drop d its) @ rest"
  have "goes h fn D B C its (somes (drop d its)) (somes (drop d its)) p t skip"
    by (rule goes_jmp[OF assms(1) goes_skip])
  from goesD[OF this f, of w]
  have "arrives h fn (vm_exec h fn None f w) f t (fr_locals f) (somes (drop d its) @ rest) w"
    by (simp add: flows_def skip_def)
  then show "flows h fn B C its zs rest q (vm_exec h fn None f w) f (Some (c, fr_locals f, w))"
    using assms(2,3) by (auto simp: flows_def)
qed

lemma goes_leave:
  assumes "\<forall>i<length (somes (take d its)). instr_at fn (p + i) OpForeachUnwind 0 0 0" "d < length its"
    "instr_at fn (p + length (somes (take d its))) OpJmp a b (disp (p + length (somes (take d its))) t)"
    "c d = Broke d \<and> t = B d \<or> c d = Continued d \<and> t = C d" "d = (if n < 1 then 0 else nat n - 1)"
  shows "goes h fn D B C its (somes its) zs p q (leave h its n c)"
proof -
  have "goes h fn D B C its (somes (take d its) @ somes (drop d its)) zs p q
      (\<lambda>ls w. (\<lambda>ls w. Some (c d, ls, w)) ls (cleanups h (take d its) w))"
    using assms(2,4)
    by (intro goes_cleanups[OF assms(1)] goes_out[where t = t and B = B and C = C, OF assms(3)]) simp_all
  then show ?thesis
    using assms(5) by (simp add: somes_append[symmetric] leave_def[abs_def] Let_def)
qed

end
