(* ===== verification/VmPlace.thy ===== *)
theory VmPlace
  imports VmFlow
begin

text \<open>
  The code of statements in place. Jumps of \<open>break\<close> and \<open>continue\<close> stay open while the loop they leave
  is emitted, so what the emitter has of a statement is not what is in the function in the end.
  \<open>placed\<close> says what the finished function has at a place, given what the emitter has of it; it is
  carried backwards over the steps of the emitter, from the finished function to each part.
\<close>

section \<open>Steps of the emitter\<close>

definition hole_list :: "emitter \<Rightarrow> nat list" where
  "hole_list e = concat (map (\<lambda>l. lc_breakPCs l @ lc_continuePCs l) (em_loops e))"

abbreviation holes :: "emitter \<Rightarrow> nat set" where
  "holes e \<equiv> set (hole_list e)"

definition shape :: "emitter \<Rightarrow> nat \<Rightarrow> 8 word \<times> 16 word \<times> 16 word" where
  "shape e p = (in_Op (em_code e ! p), in_A (em_code e ! p), in_B (em_code e ! p))"

text \<open>A state with its open jumps: each is a \<open>Jmp\<close> of its own; locations are in order.\<close>

definition wf_s :: "emitter \<Rightarrow> bool" where
  "wf_s e =
     (wf_em e \<and> distinct (hole_list e)
      \<and> (\<forall>p\<in>holes e. p < here e \<and> shape e p = (OpJmp, 0, 0))
      \<and> sorted_wrt (<) (map fst (em_locs e)) \<and> (\<forall>l\<in>set (em_locs e). fst l < int (here e)))"

text \<open>Steps within a statement: code is added, and instructions at \<open>X\<close> get another jump target.\<close>

definition later :: "nat set \<Rightarrow> emitter \<Rightarrow> emitter \<Rightarrow> bool" where
  "later X e e' =
     (here e \<le> here e' \<and> (\<forall>p<here e. p \<notin> X \<longrightarrow> em_code e' ! p = em_code e ! p) \<and> (\<forall>p<here e. shape e' p = shape e p)
      \<and> prefix (em_consts e) (em_consts e') \<and> prefix (em_locals e) (em_locals e')
      \<and> em_maxStack e \<le> em_maxStack e' \<and> em_stmtCtx e' = em_stmtCtx e \<and> em_loops e' = em_loops e
      \<and> em_locs e' = em_locs e \<and> em_tryHandlers e' = em_tryHandlers e \<and> (wf_em e \<longrightarrow> wf_em e'))"

text \<open>Whole statements: code is only added, and jumps of its own may be left open.\<close>

definition more_holes :: "nat \<Rightarrow> nat \<Rightarrow> loop_ctx \<Rightarrow> loop_ctx \<Rightarrow> bool" where
  "more_holes a b l l' =
     (lc_isForeach l' = lc_isForeach l
      \<and> (\<exists>bs cs. lc_breakPCs l' = lc_breakPCs l @ bs \<and> lc_continuePCs l' = lc_continuePCs l @ cs
           \<and> (\<forall>p\<in>set bs \<union> set cs. a \<le> p \<and> p < b)))"

definition advanced :: "emitter \<Rightarrow> emitter \<Rightarrow> bool" where
  "advanced e e' =
     (here e \<le> here e' \<and> (\<forall>p<here e. em_code e' ! p = em_code e ! p)
      \<and> prefix (em_consts e) (em_consts e') \<and> prefix (em_locals e) (em_locals e')
      \<and> em_maxStack e \<le> em_maxStack e' \<and> em_stmtCtx e' = em_stmtCtx e
      \<and> list_all2 (more_holes (here e) (here e')) (em_loops e) (em_loops e')
      \<and> (\<exists>ls. em_locs e' = em_locs e @ ls \<and> (\<forall>l\<in>set ls. int (here e) \<le> fst l)) \<and> em_tryHandlers e' = em_tryHandlers e)"

lemma later_here: "later X e e' \<Longrightarrow> here e \<le> here e'"
  by (simp add: later_def)

lemma advanced_here: "advanced e e' \<Longrightarrow> here e \<le> here e'"
  by (simp add: advanced_def)

lemma later_code: "later X e e' \<Longrightarrow> p < here e \<Longrightarrow> p \<notin> X \<Longrightarrow> em_code e' ! p = em_code e ! p"
  by (simp add: later_def)

lemma advanced_code: "advanced e e' \<Longrightarrow> p < here e \<Longrightarrow> em_code e' ! p = em_code e ! p"
  by (simp add: advanced_def)

lemma later_refl: "later X e e"
  by (simp add: later_def)

lemma later_trans:
  assumes "later X e e1" "later Y e1 e2"
  shows "later (X \<union> Y) e e2"
proof -
  have "here e \<le> here e1" by (rule later_here[OF assms(1)])
  then show ?thesis using assms by (auto simp: later_def intro: prefix_order.trans)
qed

lemma later_mono: "later X e e' \<Longrightarrow> X \<subseteq> Y \<Longrightarrow> later Y e e'"
  by (auto simp: later_def)

lemma later_holes: "later X e e' \<Longrightarrow> hole_list e' = hole_list e"
  by (simp add: later_def hole_list_def)

lemma later_wf:
  assumes "later X e e'" "wf_s e"
  shows "wf_s e'"
proof -
  have "here e \<le> here e'" by (rule later_here[OF assms(1)])
  then show ?thesis
    using assms later_holes[OF assms(1)] by (auto simp: later_def wf_s_def intro: less_le_trans)
qed

lemma more_holes_refl [simp]: "more_holes a b l l"
  by (simp add: more_holes_def)

lemma more_holes_mono:
  "more_holes a b l l' \<Longrightarrow> a' \<le> a \<Longrightarrow> b \<le> b' \<Longrightarrow> more_holes a' b' l l'"
  unfolding more_holes_def by (meson le_trans less_le_trans)

lemma more_holes_trans:
  assumes "more_holes a b l l1" "more_holes a b l1 l2"
  shows "more_holes a b l l2"
proof -
  obtain bs cs where 1: "lc_breakPCs l1 = lc_breakPCs l @ bs" "lc_continuePCs l1 = lc_continuePCs l @ cs"
      "\<forall>p\<in>set bs \<union> set cs. a \<le> p \<and> p < b" "lc_isForeach l1 = lc_isForeach l"
    using assms(1) unfolding more_holes_def by blast
  obtain bs' cs' where 2: "lc_breakPCs l2 = lc_breakPCs l1 @ bs'" "lc_continuePCs l2 = lc_continuePCs l1 @ cs'"
      "\<forall>p\<in>set bs' \<union> set cs'. a \<le> p \<and> p < b" "lc_isForeach l2 = lc_isForeach l1"
    using assms(2) unfolding more_holes_def by blast
  show ?thesis
    unfolding more_holes_def
    by (intro conjI exI[of _ "bs @ bs'"] exI[of _ "cs @ cs'"]) (use 1 2 in auto)
qed

lemma advanced_refl [simp]: "advanced e e"
  by (simp add: advanced_def list_all2_refl)

lemma advanced_loops_mono:
  "list_all2 (more_holes a b) xs ys \<Longrightarrow> a' \<le> a \<Longrightarrow> b \<le> b' \<Longrightarrow> list_all2 (more_holes a' b') xs ys"
  by (erule list_all2_mono) (rule more_holes_mono)

lemma advanced_trans:
  assumes "advanced e e1" "advanced e1 e2"
  shows "advanced e e2"
proof -
  have h: "here e \<le> here e1" "here e1 \<le> here e2" using assms by (simp_all add: advanced_here)
  have 1: "list_all2 (more_holes (here e) (here e2)) (em_loops e) (em_loops e1)"
    using assms(1) h by (auto simp: advanced_def intro: advanced_loops_mono)
  have 2: "list_all2 (more_holes (here e) (here e2)) (em_loops e1) (em_loops e2)"
    using assms(2) h by (auto simp: advanced_def intro: advanced_loops_mono)
  have l: "list_all2 (more_holes (here e) (here e2)) (em_loops e) (em_loops e2)"
    by (rule list_all2_trans[OF more_holes_trans 1 2])
  obtain ls1 where 3: "em_locs e1 = em_locs e @ ls1" "\<forall>l\<in>set ls1. int (here e) \<le> fst l"
    using assms(1) unfolding advanced_def by blast
  obtain ls2 where 4: "em_locs e2 = em_locs e1 @ ls2" "\<forall>l\<in>set ls2. int (here e1) \<le> fst l"
    using assms(2) unfolding advanced_def by blast
  have locs: "\<exists>ls. em_locs e2 = em_locs e @ ls \<and> (\<forall>l\<in>set ls. int (here e) \<le> fst l)"
    by (rule exI[of _ "ls1 @ ls2"]) (use 3 4 h in auto)
  show ?thesis
    using assms h l locs unfolding advanced_def by (auto intro: prefix_order.trans)
qed

lemma advanced_later:
  assumes "advanced e e1" "later X e1 e2" "\<And>p. p \<in> X \<Longrightarrow> p < here e1 \<Longrightarrow> here e \<le> p"
  shows "advanced e e2"
proof -
  have h: "here e \<le> here e1" "here e1 \<le> here e2" using assms by (simp_all add: advanced_here later_here)
  have l: "list_all2 (more_holes (here e) (here e2)) (em_loops e) (em_loops e2)"
    using assms(1,2) h by (auto simp: advanced_def later_def intro: advanced_loops_mono)
  have c: "em_code e2 ! p = em_code e ! p" if "p < here e" for p
    using assms(3)[of p] later_code[OF assms(2), of p] advanced_code[OF assms(1) that] that h(1) by fastforce
  show ?thesis
    using assms(1,2) h l c unfolding advanced_def later_def by (auto intro: prefix_order.trans)
qed

lemma later_advanced: "later {} e e' \<Longrightarrow> advanced e e'"
  by (rule advanced_later[OF advanced_refl]) auto

text \<open>The open jumps after a statement: those before and new ones in its code.\<close>

lemma advanced_loop_nth:
  assumes "advanced e e'"
  shows "length (em_loops e') = length (em_loops e)"
    and "d < length (em_loops e) \<Longrightarrow> more_holes (here e) (here e') (em_loops e ! d) (em_loops e' ! d)"
  using assms by (auto simp: advanced_def list_all2_conv_all_nth)

lemma in_holes: "p \<in> holes e \<longleftrightarrow> (\<exists>d<length (em_loops e). p \<in> set (lc_breakPCs (em_loops e ! d)) \<union> set (lc_continuePCs (em_loops e ! d)))"
  unfolding hole_list_def by (auto simp: in_set_conv_nth[of _ "em_loops e"]) (metis nth_mem)+

lemma holes_advanced:
  assumes "advanced e e'"
  shows "holes e \<subseteq> holes e'" and "p \<in> holes e' \<Longrightarrow> p < here e \<Longrightarrow> p \<in> holes e"
proof -
  note a = advanced_loop_nth[OF assms]
  show "holes e \<subseteq> holes e'"
  proof
    fix p assume "p \<in> holes e"
    then obtain d where d: "d < length (em_loops e)"
        "p \<in> set (lc_breakPCs (em_loops e ! d)) \<union> set (lc_continuePCs (em_loops e ! d))"
      using in_holes by blast
    then have "p \<in> set (lc_breakPCs (em_loops e' ! d)) \<union> set (lc_continuePCs (em_loops e' ! d))"
      using a(2)[OF d(1)] by (auto simp: more_holes_def)
    then show "p \<in> holes e'" using d(1) a(1) in_holes by metis
  qed
  assume p: "p \<in> holes e'" "p < here e"
  then obtain d where d: "d < length (em_loops e)"
      "p \<in> set (lc_breakPCs (em_loops e' ! d)) \<union> set (lc_continuePCs (em_loops e' ! d))"
    using a(1) in_holes by metis
  obtain bs cs where "lc_breakPCs (em_loops e' ! d) = lc_breakPCs (em_loops e ! d) @ bs"
      "lc_continuePCs (em_loops e' ! d) = lc_continuePCs (em_loops e ! d) @ cs" "\<forall>p\<in>set bs \<union> set cs. here e \<le> p"
    using a(2)[OF d(1)] unfolding more_holes_def by blast
  then have "p \<in> set (lc_breakPCs (em_loops e ! d)) \<union> set (lc_continuePCs (em_loops e ! d))"
    using d(2) p(2) leD by auto
  then show "p \<in> holes e" using d(1) in_holes by blast
qed

lemma wf_hole: "wf_s e \<Longrightarrow> p \<in> holes e \<Longrightarrow> p < here e"
  by (simp add: wf_s_def)


section \<open>Places in the finished function\<close>

text \<open>The function has the tables of \<open>e\<close>, whatever it has more, and no handlers.\<close>

definition located_in :: "func \<Rightarrow> emitter \<Rightarrow> bool" where
  "located_in fn e =
     (\<exists>ls. fn_LocsSparse fn = em_locs e @ ls \<and> (\<forall>l\<in>set ls. int (here e) \<le> fst l)
        \<and> sorted_wrt (<) (map fst (fn_LocsSparse fn)))"

definition tabled :: "func \<Rightarrow> emitter \<Rightarrow> bool" where
  "tabled fn e =
     (prefix (em_consts e) (fn_Consts fn) \<and> prefix (em_locals e) (fn_Locals fn) \<and> distinct (fn_Locals fn)
      \<and> length (fn_Consts fn) \<le> 65536 \<and> length (fn_Locals fn) \<le> 65535
      \<and> em_maxStack e \<le> int (fn_MaxStack fn) \<and> length (fn_Code fn) < 2 ^ 31 \<and> here e \<le> length (fn_Code fn)
      \<and> fn_TryHandlers fn = [] \<and> located_in fn e)"

lemma tabled_advanced:
  assumes "advanced e e'" "tabled fn e'"
  shows "tabled fn e"
proof -
  obtain ls where ls: "em_locs e' = em_locs e @ ls" "\<forall>l\<in>set ls. int (here e) \<le> fst l"
    using assms(1) unfolding advanced_def by blast
  have "located_in fn e"
    using assms(2) ls advanced_here[OF assms(1)] by (fastforce simp: tabled_def located_in_def)
  then show ?thesis
    using assms by (auto simp: tabled_def advanced_def intro: prefix_order.trans)
qed

lemma tabled_later:
  assumes "later X e e'" "tabled fn e'"
  shows "tabled fn e"
proof -
  have "located_in fn e"
    using assms later_here[OF assms(1)] by (fastforce simp: tabled_def located_in_def later_def)
  then show ?thesis
    using assms by (auto simp: tabled_def later_def intro: prefix_order.trans)
qed

text \<open>What the function has at \<open>p\<close>: the instruction of the emitter, or, for an open jump, a jump to where
  the loop goes on (\<open>C\<close>) or is left (\<open>B\<close>).\<close>

definition placed :: "func \<Rightarrow> (nat \<Rightarrow> nat) \<Rightarrow> (nat \<Rightarrow> nat) \<Rightarrow> emitter \<Rightarrow> nat \<Rightarrow> bool" where
  "placed fn B C e p =
     (p < length (fn_Code fn) \<and> (p \<notin> holes e \<longrightarrow> fn_Code fn ! p = em_code e ! p)
      \<and> (\<forall>d<length (em_loops e).
           (p \<in> set (lc_breakPCs (em_loops e ! d)) \<longrightarrow> instr_at fn p OpJmp 0 0 (disp p (B d)))
           \<and> (p \<in> set (lc_continuePCs (em_loops e ! d)) \<longrightarrow> instr_at fn p OpJmp 0 0 (disp p (C d)))))"

definition placed_in :: "func \<Rightarrow> (nat \<Rightarrow> nat) \<Rightarrow> (nat \<Rightarrow> nat) \<Rightarrow> emitter \<Rightarrow> nat \<Rightarrow> nat \<Rightarrow> bool" where
  "placed_in fn B C e a b = (\<forall>p. a \<le> p \<longrightarrow> p < b \<longrightarrow> placed fn B C e p)"

lemma placedD: "placed_in fn B C e a b \<Longrightarrow> a \<le> p \<Longrightarrow> p < b \<Longrightarrow> placed fn B C e p"
  by (simp add: placed_in_def)

lemma placed_mono: "placed_in fn B C e a b \<Longrightarrow> a \<le> a' \<Longrightarrow> b' \<le> b \<Longrightarrow> placed_in fn B C e a' b'"
  by (simp add: placed_in_def)

lemma placed_at_later:
  "placed fn B C e' p \<Longrightarrow> later X e e' \<Longrightarrow> p < here e \<Longrightarrow> p \<notin> X - holes e \<Longrightarrow> placed fn B C e p"
  using later_holes[of X e e'] by (auto simp: placed_def later_def)

lemma placed_later:
  assumes "placed_in fn B C e' a b" "later X e e'" "b \<le> here e" "\<And>p. p \<in> X \<Longrightarrow> a \<le> p \<Longrightarrow> p < b \<Longrightarrow> p \<in> holes e"
  shows "placed_in fn B C e a b"
  unfolding placed_in_def
proof (intro allI impI)
  fix p assume p: "a \<le> p" "p < b"
  show "placed fn B C e p"
    using placed_at_later[OF placedD[OF assms(1) p] assms(2)] p assms(3,4) by fastforce
qed

lemma placed_advanced:
  assumes "placed_in fn B C e' a b" "advanced e e'" "b \<le> here e"
  shows "placed_in fn B C e a b"
  unfolding placed_in_def
proof (intro allI impI)
  fix p assume p: "a \<le> p" "p < b"
  have p': "placed fn B C e' p" by (rule placedD[OF assms(1) p])
  have h: "p \<in> holes e' \<longleftrightarrow> p \<in> holes e" using holes_advanced[OF assms(2)] p assms(3) by auto
  have d: "set (lc_breakPCs (em_loops e ! d)) \<subseteq> set (lc_breakPCs (em_loops e' ! d))"
      "set (lc_continuePCs (em_loops e ! d)) \<subseteq> set (lc_continuePCs (em_loops e' ! d))" if "d < length (em_loops e)" for d
    using advanced_loop_nth(2)[OF assms(2) that] by (auto simp: more_holes_def)
  show "placed fn B C e p"
    using p' h d p assms(2,3) advanced_loop_nth(1)[OF assms(2)] by (fastforce simp: placed_def advanced_code)
qed

text \<open>The instruction at a place that is not open.\<close>

definition jumps_to :: "emitter \<Rightarrow> nat \<Rightarrow> 8 word \<Rightarrow> 16 word \<Rightarrow> 16 word \<Rightarrow> nat \<Rightarrow> bool" where
  "jumps_to e p opc a b t = (Encode opc a b (of_nat t - (of_nat p + 1)) = Some (em_code e ! p))"

lemma placed_instr:
  assumes "placed fn B C e p" "p \<notin> holes e" "Encode opc a b c = Some (em_code e ! p)"
  shows "instr_at fn p opc a b (sint c)"
  using encoded_at[OF assms(3), of p fn] assms(1,2) by (simp add: placed_def)

lemma placed_jump:
  assumes "placed fn B C e p" "p \<notin> holes e" "jumps_to e p opc a b t" "length (fn_Code fn) < 2 ^ 31" "t < 2 ^ 31"
  shows "instr_at fn p opc a b (disp p t)"
  using placed_instr[OF assms(1,2) assms(3)[unfolded jumps_to_def]] disp_word[OF assms(5), of p] assms(1,4)
  by (simp add: placed_def)

lemma jumps_later: "jumps_to e p opc a b t \<Longrightarrow> later X e e' \<Longrightarrow> p < here e \<Longrightarrow> p \<notin> X \<Longrightarrow> jumps_to e' p opc a b t"
  by (simp add: jumps_to_def later_code)

lemma jumps_advanced: "jumps_to e p opc a b t \<Longrightarrow> advanced e e' \<Longrightarrow> p < here e \<Longrightarrow> jumps_to e' p opc a b t"
  by (simp add: jumps_to_def advanced_code)

section \<open>Single steps\<close>

lemma emit_step:
  assumes "emit opc a b c e = EOk e'"
  shows "later {} e e'" "here e' = Suc (here e)" "em_curStack e' = em_curStack e"
    "Encode opc a b c = Some (em_code e' ! here e)" "shape e' (here e) = (opc, a, b)"
proof -
  obtain i where i: "Encode opc a b c = Some i" "e' = e\<lparr>em_code := em_code e @ [i]\<rparr>"
    using assms by (auto simp: emit_EOk)
  show "later {} e e'"
    by (simp add: i(2) later_def here_def shape_def nth_append wf_em_def small_def tables_ok_def)
  show "here e' = Suc (here e)" "em_curStack e' = em_curStack e" "Encode opc a b c = Some (em_code e' ! here e)"
    using i(1) by (simp_all add: i(2) here_def)
  show "shape e' (here e) = (opc, a, b)"
    using encode_fields[OF i(1)] by (simp add: i(2) shape_def here_def)
qed

lemma emit_instr:
  assumes "emit opc a b c e = EOk e1" "wf_s e" "later X e1 e'" "here e \<notin> X" "placed fn B C e' (here e)"
  shows "instr_at fn (here e) opc a b (sint c)"
proof -
  note s = emit_step[OF assms(1)]
  have "here e \<notin> holes e'"
    using wf_hole[OF assms(2)] later_holes[OF assms(3)] later_holes[OF s(1)] by auto
  moreover have "em_code e' ! here e = em_code e1 ! here e"
    using s(2) assms(4) by (intro later_code[OF assms(3)]) simp_all
  ultimately show ?thesis
    using placed_instr[OF assms(5), of opc a b c] s(4) by simp
qed

lemma pop_step:
  assumes "popStack n e = EOk e'"
  shows "later {} e e'" "here e' = here e" "em_curStack e' = em_curStack e - int n" "em_code e' = em_code e"
    "int n \<le> em_curStack e"
  using assms by (auto simp: popStack_EOk later_def here_def shape_def wf_em_def small_def tables_ok_def)

lemma patch_step:
  assumes "patchJump j t e = EOk e'"
  shows "later {j} e e'" "here e' = here e" "em_curStack e' = em_curStack e" "j < here e"
    "shape e j = (opc, a, b) \<Longrightarrow> jumps_to e' j opc a b t"
proof -
  obtain i where i: "j < here e" "e' = e\<lparr>em_code := (em_code e)[j := i]\<rparr>"
    "Encode (in_Op (em_code e ! j)) (in_A (em_code e ! j)) (in_B (em_code e ! j)) (of_nat t - (of_nat j + 1)) = Some i"
    by (rule patchJump_EOk[OF assms])
  have s: "shape e' p = shape e p" for p
    using encode_fields[OF i(3)] i(1,2) by (cases "p = j") (simp_all add: shape_def here_def)
  show "later {j} e e'"
    using s by (simp add: later_def i(2) here_def wf_em_def small_def tables_ok_def)
  show "here e' = here e" "em_curStack e' = em_curStack e" "j < here e" using i(1,2) by (simp_all add: here_def)
  assume "shape e j = (opc, a, b)"
  then show "jumps_to e' j opc a b t" using i by (simp add: jumps_to_def shape_def here_def)
qed

lemma patch_all_step:
  assumes "patch_all ps t e = EOk e'"
  shows "later (set ps) e e' \<and> here e' = here e \<and> em_curStack e' = em_curStack e
    \<and> (\<forall>p\<in>set ps. p < here e \<longrightarrow> shape e p = (opc, a, b) \<longrightarrow> jumps_to e' p opc a b t)"
  using assms
proof (induction ps arbitrary: e)
  case Nil
  then show ?case by (simp add: later_refl)
next
  case (Cons j ps)
  then obtain e1 where e1: "patchJump j t e = EOk e1" "patch_all ps t e1 = EOk e'" by (auto simp: e_then_EOk)
  note s = patch_step[OF e1(1)]
  note r = Cons.IH[OF e1(2)]
  have l: "later (set (j # ps)) e e'"
    using later_trans[OF s(1) conjunct1[OF r]] by simp
  have j: "jumps_to e' p opc a b t" if p: "p \<in> set (j # ps)" "p < here e" "shape e p = (opc, a, b)" for p
  proof (cases "p \<in> set ps")
    case True
    moreover have "shape e1 p = (opc, a, b)" using s(1) p(2,3) by (simp add: later_def)
    ultimately show ?thesis using r s(2) p(2) by simp
  next
    case False
    then have "p = j" using p(1) by simp
    then show ?thesis using jumps_later[OF s(5), of opc a b "set ps" e'] r False p s(2) by simp
  qed
  show ?case using l j r s(2,3) by simp
qed

text \<open>The code of an expression.\<close>

lemma emits_step:
  assumes "emits P st h 0 m k M" "k e = EOk e'" "wf_s e" "em_stmtCtx e = st"
  shows "later {} e e'" "em_curStack e' = em_curStack e + int m"
    and "tabled fn e' \<Longrightarrow> placed_in fn B C e' (here e) (here e') \<Longrightarrow> P fn
      \<Longrightarrow> computes h fn (here e) (here e') (nat (em_curStack e)) [] (M fn [])"
proof -
  have w: "wf_em e" using assms(3) by (simp add: wf_s_def)
  have n: "int 0 \<le> em_curStack e" using w by (simp add: wf_em_def)
  have mm: "means P h 0 m e e' M" by (rule emitsD[OF assms(1,2) w assms(4) n])
  then have g: "grown e e'" "wf_em e'" by (simp_all add: means_def)
  then obtain cs where cs: "em_code e' = em_code e @ cs" by (auto simp: grown_def prefix_def)
  then show l: "later {} e e'"
    using g by (simp add: later_def grown_def here_def shape_def nth_append)
  show "em_curStack e' = em_curStack e + int m" using mm by (simp add: means_def)
  assume a: "tabled fn e'" "placed_in fn B C e' (here e) (here e')" "P fn"
  have "fn_Code fn ! p = em_code e' ! p" if "here e \<le> p" "p < here e'" for p
    using placedD[OF a(2) that] wf_hole[OF assms(3), of p] later_holes[OF l] that by (auto simp: placed_def)
  then have "frag fn (here e) (drop (here e) (em_code e'))"
    using a(1) later_here[OF l] by (auto simp: frag_def tabled_def here_def)
  then have "linked fn e e'" using a(1) by (simp add: linked_def tabled_def)
  from means_computes[OF mm this a(3), of "[]"]
  show "computes h fn (here e) (here e') (nat (em_curStack e)) [] (M fn [])" by simp
qed

lemmas expr_step = emits_step[OF emits_sub]

end
