(* ===== verification/VmStmt.thy ===== *)
theory VmStmt
  imports VmPlace
begin

text \<open>
  The statements of the emitter against \<open>VmSem\<close>: \<open>does\<close> says of a part of the emitter that its code,
  once placed in a finished function, goes the way of an action.
\<close>

section \<open>Parts that are actions\<close>

definition fits :: "func \<Rightarrow> (nat \<Rightarrow> nat) \<Rightarrow> (nat \<Rightarrow> nat) \<Rightarrow> nat option list \<Rightarrow> emitter \<Rightarrow> emitter \<Rightarrow> bool" where
  "fits fn B C its e e' =
     (tabled fn e' \<and> placed_in fn B C e' (here e) (here e')
      \<and> map (\<lambda>i. i \<noteq> None) its = map lc_isForeach (em_loops e))"

text \<open>The location that a part starts with, when it matters.\<close>

definition at_loc :: "nat option \<Rightarrow> emitter \<Rightarrow> bool" where
  "at_loc loc e = (case loc of None \<Rightarrow> True | Some l \<Rightarrow> em_locs e \<noteq> [] \<and> snd (last (em_locs e)) = l)"

type_synonym ('v, 'w) meant = "func \<Rightarrow> nat option list \<Rightarrow> ('v, 'w) act"

definition does :: "nat option \<Rightarrow> ('v, 'w) host \<Rightarrow> (emitter \<Rightarrow> emitted) \<Rightarrow> ('v, 'w) meant \<Rightarrow> bool" where
  "does loc h k m =
     (\<forall>e e'. k e = EOk e' \<longrightarrow> wf_s e \<longrightarrow> \<not> em_stmtCtx e \<longrightarrow> at_loc loc e \<longrightarrow>
        advanced e e' \<and> wf_s e' \<and> em_curStack e' = em_curStack e
        \<and> (\<forall>fn B C its. fits fn B C its e e' \<longrightarrow>
             goes h fn (nat (em_curStack e)) B C its (somes its) (somes its) (here e) (here e') (m fn its)))"

text \<open>The same for a part that takes the value on top of the stack.\<close>

definition uses :: "nat option \<Rightarrow> ('v, 'w) host \<Rightarrow> (emitter \<Rightarrow> emitted) \<Rightarrow> (func \<Rightarrow> nat option list \<Rightarrow> 'v \<Rightarrow> ('v, 'w) act) \<Rightarrow> bool" where
  "uses loc h k m =
     (\<forall>e e'. k e = EOk e' \<longrightarrow> wf_s e \<longrightarrow> \<not> em_stmtCtx e \<longrightarrow> at_loc loc e \<longrightarrow> 1 \<le> em_curStack e \<longrightarrow>
        advanced e e' \<and> wf_s e' \<and> em_curStack e' = em_curStack e - 1
        \<and> (\<forall>fn B C its. fits fn B C its e e' \<longrightarrow>
             takes h fn (nat (em_curStack e - 1)) B C its (somes its) (somes its) (here e) (here e') (m fn its)))"

lemma doesI:
  assumes "\<And>e e'. k e = EOk e' \<Longrightarrow> wf_s e \<Longrightarrow> \<not> em_stmtCtx e \<Longrightarrow> at_loc loc e \<Longrightarrow>
      advanced e e' \<and> wf_s e' \<and> em_curStack e' = em_curStack e"
    and "\<And>e e' fn B C its. k e = EOk e' \<Longrightarrow> wf_s e \<Longrightarrow> \<not> em_stmtCtx e \<Longrightarrow> at_loc loc e \<Longrightarrow> fits fn B C its e e' \<Longrightarrow>
      goes h fn (nat (em_curStack e)) B C its (somes its) (somes its) (here e) (here e') (m fn its)"
  shows "does loc h k m"
  using assms by (simp add: does_def)

lemma does_step:
  assumes "does loc h k m" "k e = EOk e'" "wf_s e" "\<not> em_stmtCtx e" "at_loc loc e"
  shows "advanced e e'" "wf_s e'" "em_curStack e' = em_curStack e" "\<not> em_stmtCtx e'"
    and "fits fn B C its e e' \<Longrightarrow>
      goes h fn (nat (em_curStack e)) B C its (somes its) (somes its) (here e) (here e') (m fn its)"
proof -
  have *: "advanced e e' \<and> wf_s e' \<and> em_curStack e' = em_curStack e
        \<and> (\<forall>fn B C its. fits fn B C its e e' \<longrightarrow>
             goes h fn (nat (em_curStack e)) B C its (somes its) (somes its) (here e) (here e') (m fn its))"
    using assms unfolding does_def by blast
  then show "advanced e e'" "wf_s e'" "em_curStack e' = em_curStack e" by simp_all
  then show "\<not> em_stmtCtx e'" using assms(4) by (simp add: advanced_def)
  show "fits fn B C its e e' \<Longrightarrow>
      goes h fn (nat (em_curStack e)) B C its (somes its) (somes its) (here e) (here e') (m fn its)"
    using * by blast
qed

lemma usesI:
  assumes "\<And>e e'. k e = EOk e' \<Longrightarrow> wf_s e \<Longrightarrow> \<not> em_stmtCtx e \<Longrightarrow> at_loc loc e \<Longrightarrow> 1 \<le> em_curStack e \<Longrightarrow>
      advanced e e' \<and> wf_s e' \<and> em_curStack e' = em_curStack e - 1"
    and "\<And>e e' fn B C its. k e = EOk e' \<Longrightarrow> wf_s e \<Longrightarrow> \<not> em_stmtCtx e \<Longrightarrow> at_loc loc e \<Longrightarrow> 1 \<le> em_curStack e \<Longrightarrow>
      fits fn B C its e e' \<Longrightarrow>
      takes h fn (nat (em_curStack e - 1)) B C its (somes its) (somes its) (here e) (here e') (m fn its)"
  shows "uses loc h k m"
  using assms by (simp add: uses_def)

lemma uses_step:
  assumes "uses loc h k m" "k e = EOk e'" "wf_s e" "\<not> em_stmtCtx e" "at_loc loc e" "1 \<le> em_curStack e"
  shows "advanced e e'" "wf_s e'" "em_curStack e' = em_curStack e - 1" "\<not> em_stmtCtx e'"
    and "fits fn B C its e e' \<Longrightarrow>
      takes h fn (nat (em_curStack e - 1)) B C its (somes its) (somes its) (here e) (here e') (m fn its)"
proof -
  have *: "advanced e e' \<and> wf_s e' \<and> em_curStack e' = em_curStack e - 1
        \<and> (\<forall>fn B C its. fits fn B C its e e' \<longrightarrow>
             takes h fn (nat (em_curStack e - 1)) B C its (somes its) (somes its) (here e) (here e') (m fn its))"
    using assms unfolding uses_def by blast
  then show "advanced e e'" "wf_s e'" "em_curStack e' = em_curStack e - 1" by simp_all
  then show "\<not> em_stmtCtx e'" using assms(4) by (simp add: advanced_def)
  show "fits fn B C its e e' \<Longrightarrow>
      takes h fn (nat (em_curStack e - 1)) B C its (somes its) (somes its) (here e) (here e') (m fn its)"
    using * by blast
qed

lemma advanced_foreach: "advanced e e' \<Longrightarrow> map lc_isForeach (em_loops e') = map lc_isForeach (em_loops e)"
  by (auto simp: advanced_def list_all2_conv_all_nth more_holes_def intro!: nth_equalityI)

lemma fits_split:
  assumes "fits fn B C its e e2" "advanced e e1" "advanced e1 e2"
  shows "fits fn B C its e e1" "fits fn B C its e1 e2"
proof -
  have h: "here e \<le> here e1" "here e1 \<le> here e2" using assms(2,3) by (simp_all add: advanced_here)
  have "placed_in fn B C e2 (here e) (here e1)" "placed_in fn B C e2 (here e1) (here e2)"
    using assms(1) h by (auto simp: fits_def intro: placed_mono)
  then show "fits fn B C its e e1" "fits fn B C its e1 e2"
    using assms(1) tabled_advanced[OF assms(3)] placed_advanced[OF _ assms(3), of fn B C "here e" "here e1"]
      advanced_foreach[OF assms(2)]
    by (simp_all add: fits_def)
qed

lemma at_loc_later: "later X e e' \<Longrightarrow> at_loc loc e' = at_loc loc e"
  by (simp add: at_loc_def later_def split: option.splits)

lemma at_loc_None [simp]: "at_loc None e"
  by (simp add: at_loc_def)

section \<open>Sequences\<close>

lemma does_skip: "does loc h EOk (\<lambda>fn its. skip)"
  by (rule doesI) (auto intro: goes_skip)

lemma does_then:
  assumes "does loc h k1 m1" "does None h k2 m2"
  shows "does loc h (\<lambda>e. e_then (k1 e) k2) (\<lambda>fn its ls w. after (m1 fn its ls w) (m2 fn its))"
proof (rule doesI)
  fix e e'
  assume a: "e_then (k1 e) k2 = EOk e'" "wf_s e" "\<not> em_stmtCtx e" "at_loc loc e"
  then obtain e1 where e1: "k1 e = EOk e1" "k2 e1 = EOk e'" by (auto simp: e_then_EOk)
  note 1 = does_step[OF assms(1) e1(1) a(2-4)]
  note 2 = does_step[OF assms(2) e1(2) 1(2,4) at_loc_None]
  show "advanced e e' \<and> wf_s e' \<and> em_curStack e' = em_curStack e"
    using 1(1-3) 2(1-3) advanced_trans by simp
  fix fn B C "its"
  assume f: "fits fn B C its e e'"
  note ff = fits_split[OF f 1(1) 2(1)]
  show "goes h fn (nat (em_curStack e)) B C its (somes its) (somes its) (here e) (here e')
     (\<lambda>ls w. after (m1 fn its ls w) (m2 fn its))"
    using goes_after[OF 1(5)[OF ff(1)]] 2(5)[OF ff(2)] 1(3) by simp
qed

lemma does_value:
  assumes "expr (\<lambda>fn. True) h kc mc" "uses loc h k m"
  shows "does loc h (\<lambda>e. e_then (subexpr kc e) k) (\<lambda>fn its ls w. with_value (mc fn ls w) (m fn its))"
proof (rule doesI)
  fix e e'
  assume a: "e_then (subexpr kc e) k = EOk e'" "wf_s e" "\<not> em_stmtCtx e" "at_loc loc e"
  then obtain e1 where e1: "subexpr kc e = EOk e1" "k e1 = EOk e'" by (auto simp: e_then_EOk)
  note 1 = expr_step[OF assms(1) e1(1) a(2) refl]
  have w: "wf_s e1" "\<not> em_stmtCtx e1" "at_loc loc e1" "1 \<le> em_curStack e1" "0 \<le> em_curStack e"
    using later_wf[OF 1(1) a(2)] 1(1,2) a(2-4) at_loc_later[OF 1(1)]
    by (auto simp: later_def wf_s_def wf_em_def)
  note 2 = uses_step[OF assms(2) e1(2) w(1-4)]
  show "advanced e e' \<and> wf_s e' \<and> em_curStack e' = em_curStack e"
    using later_advanced[OF 1(1)] 1(2) 2(1-3) advanced_trans by fastforce
  fix fn B C "its"
  assume f: "fits fn B C its e e'"
  note ff = fits_split[OF f later_advanced[OF 1(1)] 2(1)]
  have c: "computes h fn (here e) (here e1) (nat (em_curStack e)) [] (\<lambda>ls w. one (mc fn ls w))"
    using 1(3)[of fn B C] ff(1) by (simp add: fits_def)
  have "nat (em_curStack e1 - 1) = nat (em_curStack e)" using 1(2) by simp
  with 2(5)[OF ff(2)] have
    "takes h fn (nat (em_curStack e)) B C its (somes its) (somes its) (here e1) (here e') (m fn its)" by simp
  from goes_value[OF c this]
  show "goes h fn (nat (em_curStack e)) B C its (somes its) (somes its) (here e) (here e')
     (\<lambda>ls w. with_value (mc fn ls w) (m fn its))" .
qed

section \<open>Locations\<close>

lemma sort_search_eq:
  assumes "i \<le> n" "n \<le> j" "\<And>k. i \<le> k \<Longrightarrow> k < n \<Longrightarrow> \<not> p k" "\<And>k. n \<le> k \<Longrightarrow> k < j \<Longrightarrow> p k"
  shows "sort_search p i j = n"
  using assms
proof (induction p i j rule: sort_search.induct)
  case (1 p i j)
  show ?case
  proof (cases "i < j")
    case False
    then show ?thesis using 1(3,4) by (subst sort_search.simps) simp
  next
    case True
    let ?m = "(i + j) div 2"
    have m: "i \<le> ?m" "?m < j" using True by auto
    show ?thesis
    proof (cases "p ?m")
      case False
      then have "?m < n" using 1(6)[of ?m] m by (meson not_le)
      then show ?thesis
        using 1(1)[OF True refl False] 1(4-6) True False by (subst sort_search.simps) (simp add: Let_def)
    next
      case p: True
      then have "n \<le> ?m" using 1(5)[of ?m] m by (meson not_le)
      then show ?thesis
        using 1(2)[OF True refl] 1(3,5,6) True p m by (subst sort_search.simps) (simp add: Let_def)
    qed
  qed
qed

lemma LocAt_last:
  assumes "fn_LocsSparse fn = xs @ ys" "xs \<noteq> []" "\<forall>l\<in>set xs. fst l \<le> pc" "\<forall>l\<in>set ys. pc < fst l"
  shows "LocAt fn pc = snd (last xs)"
proof -
  have "sort_search (\<lambda>i. fst ((xs @ ys) ! i) > pc) 0 (length (xs @ ys)) = length xs"
  proof (rule sort_search_eq)
    fix k assume "k < length xs"
    then show "\<not> fst ((xs @ ys) ! k) > pc" using assms(3) nth_mem by (fastforce simp: nth_append)
  next
    fix k assume "length xs \<le> k" "k < length (xs @ ys)"
    then show "fst ((xs @ ys) ! k) > pc" using assms(4) nth_mem[of "k - length xs" ys] by (simp add: nth_append)
  qed simp_all
  then show ?thesis
    using assms(1,2) by (simp add: LocAt_def Let_def nth_append last_conv_nth)
qed

lemma located:
  assumes "wf_s e" "tabled fn e" "at_loc (Some l) e" "here e = Suc p"
  shows "LocAt fn (int p) = l"
proof -
  obtain ls where ls: "fn_LocsSparse fn = em_locs e @ ls" "\<forall>l\<in>set ls. int (here e) \<le> fst l"
    using assms(2) by (auto simp: tabled_def located_in_def)
  have "\<forall>l\<in>set (em_locs e). fst l \<le> int p"
    using assms(1,4) by (auto simp: wf_s_def)
  then show ?thesis
    using LocAt_last[OF ls(1), of "int p"] ls(2) assms(3,4) by (fastforce simp: at_loc_def)
qed

text \<open>The tick of a statement.\<close>

lemma recordLoc_locs:
  obtains ls where "recordLoc (Some l) e = e\<lparr>em_locs := em_locs e @ ls\<rparr>" "ls = [] \<or> ls = [(int (here e), l)]"
    "em_locs e @ ls \<noteq> []" "snd (last (em_locs e @ ls)) = l"
proof (cases "em_locs e \<noteq> [] \<and> snd (last (em_locs e)) = l")
  case True
  then show thesis using that[of "[]"] by (simp add: recordLoc_def)
next
  case False
  then show thesis using that[of "[(int (here e), l)]"] by (auto simp: recordLoc_def)
qed

lemma tick_step:
  assumes "emit OpTick 0 0 0 (recordLoc (Some l) e) = EOk e'" "wf_s e"
  shows "advanced e e'" "wf_s e'" "here e' = Suc (here e)" "em_curStack e' = em_curStack e" "at_loc (Some l) e'"
    and "tabled fn e' \<Longrightarrow> placed fn B C e' (here e) \<Longrightarrow> instr_at fn (here e) OpTick 0 0 0 \<and> LocAt fn (int (here e)) = l"
proof -
  obtain ls where r: "recordLoc (Some l) e = e\<lparr>em_locs := em_locs e @ ls\<rparr>" "ls = [] \<or> ls = [(int (here e), l)]"
      "em_locs e @ ls \<noteq> []" "snd (last (em_locs e @ ls)) = l" by (rule recordLoc_locs)
  let ?e = "e\<lparr>em_locs := em_locs e @ ls\<rparr>"
  have emit: "emit OpTick 0 0 0 ?e = EOk e'" using assms(1) r(1) by simp
  note s = emit_step[OF emit]
  have h: "here ?e = here e" "hole_list ?e = hole_list e" by (simp_all add: here_def hole_list_def)
  show e': "here e' = Suc (here e)" "em_curStack e' = em_curStack e" using s(2,3) h by simp_all
  have locs: "em_locs e' = em_locs e @ ls" using s(1) by (simp add: later_def)
  then show l: "at_loc (Some l) e'" using r(3,4) by (simp add: at_loc_def)
  have a: "advanced e ?e" using r(2) by (auto simp: advanced_def here_def list_all2_refl)
  then show "advanced e e'" using later_advanced[OF s(1)] advanced_trans by blast
  have w: "wf_em ?e" using assms(2) by (simp add: wf_s_def wf_em_def small_def tables_ok_def)
  have "shape e' p = shape e p" if "p < here e" for p
    using s(1) that h(1) by (auto simp: later_def shape_def)
  then show w': "wf_s e'"
    using assms(2) w s(1) later_holes[OF s(1)] h e'(1) r(2) locs
    by (fastforce simp: wf_s_def later_def sorted_wrt_append)
  assume t: "tabled fn e'" "placed fn B C e' (here e)"
  have "here e \<notin> holes e'"
    using wf_hole[OF assms(2)] later_holes[OF s(1)] h by auto
  then have "instr_at fn (here e) OpTick 0 0 0"
    using placed_instr[OF t(2), of OpTick 0 0 0] s(4) h by simp
  then show "instr_at fn (here e) OpTick 0 0 0 \<and> LocAt fn (int (here e)) = l"
    using located[OF w' t(1) l] e'(1) by simp
qed

lemma does_at_stmt:
  assumes "does (Some l) h k m"
  shows "does loc h (at_stmt (Some l) k) (\<lambda>fn its. ticked h l (m fn its))"
proof (rule doesI)
  fix e e'
  assume a: "at_stmt (Some l) k e = EOk e'" "wf_s e" "\<not> em_stmtCtx e" "at_loc loc e"
  then obtain e1 where e1: "emit OpTick 0 0 0 (recordLoc (Some l) e) = EOk e1" "k e1 = EOk e'"
    by (auto simp: at_stmt_def act_def op0_def e_then_EOk)
  note 1 = tick_step[OF e1(1) a(2)]
  have "\<not> em_stmtCtx e1" using 1(1) a(3) by (simp add: advanced_def)
  note 2 = does_step[OF assms e1(2) 1(2) this 1(5)]
  show "advanced e e' \<and> wf_s e' \<and> em_curStack e' = em_curStack e"
    using 1 2 advanced_trans by simp
  fix fn B C "its"
  assume f: "fits fn B C its e e'"
  note ff = fits_split[OF f 1(1) 2(1)]
  have "instr_at fn (here e) OpTick 0 0 0 \<and> LocAt fn (int (here e)) = l"
    using ff(1) 1(3) by (intro 1(6)[of fn B C]) (simp_all add: fits_def placed_in_def)
  then show "goes h fn (nat (em_curStack e)) B C its (somes its) (somes its) (here e) (here e') (ticked h l (m fn its))"
    using goes_tick[of fn "here e" 0 0 0 l h] 2(5)[OF ff(2)] 1(3,4) by simp
qed

section \<open>Expressions as statements\<close>

text \<open>In statement context an expression leaves its value or, when it takes care of it itself, nothing.\<close>

definition drops :: "('v, 'w) host \<Rightarrow> (emitter \<Rightarrow> emitted) \<Rightarrow> (func \<Rightarrow> ('v, 'w) comp)
    \<Rightarrow> (func \<Rightarrow> 'v option list \<Rightarrow> 'w \<Rightarrow> ('v, 'w, unit) result) \<Rightarrow> bool" where
  "drops h k m md =
     (expr_in True (\<lambda>fn. True) h k m \<and> (\<forall>fn ls w. md fn ls w = bindr (m fn ls w) (\<lambda>_ ls w. (Inr (), ls, w)))
      \<or> emits (\<lambda>fn. True) True h 0 0 k (\<lambda>fn us ls w. none (md fn ls w)))"

lemma drops_expr: "expr_in True (\<lambda>fn. True) h k m \<Longrightarrow> drops h k m (\<lambda>fn ls w. bindr (m fn ls w) (\<lambda>_ ls w. (Inr (), ls, w)))"
  by (simp add: drops_def)

lemma drops_none: "emits (\<lambda>fn. True) True h 0 0 k (\<lambda>fn us ls w. none (md fn ls w)) \<Longrightarrow> drops h k m md"
  by (simp add: drops_def)

lemma drops_fail [simp]: "drops h (\<lambda>e. Unsupported) m md" "drops h (\<lambda>e. Outside) m md"
  by (simp_all add: drops_def)

lemma emits_drop: "emits P True h 1 0 drop_in_stmt (\<lambda>fn us ls w. (Inr [], ls, w))"
  unfolding drop_in_stmt_def by (rule emits_in_stmt) (simp only: if_True emits_pop)

lemma drops_inc_dec:
  "drops h (with_local x (\<lambda>i. seq [op1 (inc_dec_opcode inc post) i, pushStack 1, drop_in_stmt])) m
     (\<lambda>fn ls w. bindr (eval_inc_dec h fn (slot fn x) inc post ls w) (\<lambda>_ ls w. (Inr (), ls, w)))"
proof (rule drops_none, rule emits_with_local)
  fix i
  have 1: "emits (\<lambda>fn. True \<and> slot_is i x fn) True h 0 1
     (\<lambda>e. e_then (emit (inc_dec_opcode inc post) i 0 0 e) (pushStack 1))
     (\<lambda>fn us ls w. one (eval_inc_dec h fn (slot fn x) inc post ls w))"
  proof (rule emits_instr(3))
    fix fn p D and us :: "'a list"
    assume a: "True \<and> slot_is i x fn" "instr_at fn p (inc_dec_opcode inc post) i 0 (sint (0 :: 32 word))"
      "length us = 0" "D + 1 \<le> fn_MaxStack fn"
    show "computes h fn p (Suc p) D us (\<lambda>ls w. one (eval_inc_dec h fn (slot fn x) inc post ls w))"
      using run_inc_dec[OF a(2), of D h] a by (simp add: slot_is_def)
  qed (auto dest: one_out)
  have k: "seq [op1 (inc_dec_opcode inc post) i, pushStack 1, drop_in_stmt]
      = (\<lambda>e. e_then (e_then (emit (inc_dec_opcode inc post) i 0 0 e) (pushStack 1)) drop_in_stmt)"
    by (simp add: seq_cons op1_def e_then_assoc)
  show "emits (\<lambda>fn. True \<and> slot_is i x fn) True h 0 0
     (seq [op1 (inc_dec_opcode inc post) i, pushStack 1, drop_in_stmt])
     (\<lambda>fn us ls w. none (bindr (eval_inc_dec h fn (slot fn x) inc post ls w) (\<lambda>_ ls w. (Inr (), ls, w))))"
    unfolding k
    by (rule emits_weaken[OF emits_then[OF 1 emits_drop]])
      (simp_all add: also_then_def bindr_one none_bindr fun_eq_iff)
qed

lemma drops_assign:
  assumes "expr (\<lambda>fn. True) h kb mb"
  shows "drops h (emitAssign (Some (Variable x)) kb) m (\<lambda>fn ls w. bindr (mb fn ls w) (\<lambda>v. write_local h fn (slot fn x) v))"
proof (rule drops_none)
  have store: "emits (\<lambda>fn. True \<and> slot_is i x fn) True h 1 0 (seq [op1 OpStoreLocal i, popStack 1])
      (\<lambda>fn us ls w. none (write_local h fn (slot fn x) (hd us) ls w))" for i
    unfolding seq_pair op1_def
  proof (rule emits_instr(2))
    fix fn p D and us :: "'a list"
    assume a: "True \<and> slot_is i x fn" "instr_at fn p OpStoreLocal i 0 (sint (0 :: 32 word))" "length us = 1"
    show "computes h fn p (Suc p) D us (\<lambda>ls w. none (write_local h fn (slot fn x) (hd us) ls w))"
      using run_StoreLocal[OF a(2), of h D "hd us"] a(1,3) by (auto simp: slot_is_def length_Suc_conv)
  qed (auto dest: none_out)
  have 2: "emits (\<lambda>fn. True) True h 1 0
     (with_local x (\<lambda>i. in_stmt (\<lambda>st. if st then seq [op1 OpStoreLocal i, popStack 1] else op1 OpStoreLocalKeep i)))
     (\<lambda>fn us ls w. none (write_local h fn (slot fn x) (hd us) ls w))"
    by (rule emits_with_local, rule emits_in_stmt) (simp only: if_True store)
  have "emits (\<lambda>fn. True) True h 0 0 (emitAssign (Some (Variable x)) kb)
     (also_then (\<lambda>fn us ls w. one (mb fn ls w)) (\<lambda>fn us ls w. none (write_local h fn (slot fn x) (hd us) ls w)))"
    unfolding emitAssign_def seq_pair[of "subexpr kb"] option.case node.case by (rule emits_then[OF emits_sub[OF assms] 2])
  then show "emits (\<lambda>fn. True) True h 0 0 (emitAssign (Some (Variable x)) kb)
      (\<lambda>fn us ls w. none (bindr (mb fn ls w) (\<lambda>v. write_local h fn (slot fn x) v)))"
    by (rule emits_weaken) (simp_all add: also_then_def bindr_one none_bindr fun_eq_iff)
qed

lemma drops_compound:
  assumes "expr (\<lambda>fn. True) h kb mb" "0 \<le> t" "t < 65536"
  shows "drops h (emitCompoundAssign t (Some (Variable x)) kb) m
    (\<lambda>fn ls w. bindr (mb fn ls w) (\<lambda>v. compound_assign h fn (slot fn x) t v))"
proof (rule drops_none)
  have t: "uint (word_of_int t :: 16 word) = t" using assms(2,3) by (simp add: uint_word_of_int take_bit_int_eq_self)
  have op: "emits (\<lambda>fn. True \<and> slot_is i x fn) True h 1 0 (seq [emit OpOpAssignLocal i (word_of_int t) 0, popStack 1])
      (\<lambda>fn us ls w. none (compound_assign h fn (slot fn x) t (hd us) ls w))" for i
    unfolding seq_pair
  proof (rule emits_instr(2))
    fix fn p D and us :: "'a list"
    assume a: "True \<and> slot_is i x fn" "instr_at fn p OpOpAssignLocal i (word_of_int t) (sint (0 :: 32 word))"
      "length us = 1"
    show "computes h fn p (Suc p) D us (\<lambda>ls w. none (compound_assign h fn (slot fn x) t (hd us) ls w))"
      using run_OpAssign[OF a(2), of h D "hd us"] a(1,3) t by (auto simp: slot_is_def length_Suc_conv)
  qed (auto dest: none_out)
  have "emits (\<lambda>fn. True) True h 0 0 (emitCompoundAssign t (Some (Variable x)) kb)
     (also_then (\<lambda>fn us ls w. one (mb fn ls w))
       (also_then (\<lambda>fn us ls w. none (compound_assign h fn (slot fn x) t (hd us) ls w)) (\<lambda>fn us ls w. (Inr us, ls, w))))"
    unfolding emitCompoundAssign_def option.case node.case seq_pair[of "subexpr kb"] with_local_split
    by (rule emits_then[OF emits_sub[OF assms(1)] emits_with_local[OF emits_then[OF op]]]) 
      (rule emits_in_stmt, simp only: if_True emits_none)
  then show "emits (\<lambda>fn. True) True h 0 0 (emitCompoundAssign t (Some (Variable x)) kb)
      (\<lambda>fn us ls w. none (bindr (mb fn ls w) (\<lambda>v. compound_assign h fn (slot fn x) t v)))"
    by (rule emits_weaken) (simp_all add: also_then_def bindr_one none_bindr fun_eq_iff)
qed

lemma drops_call:
  assumes "emits (\<lambda>fn. True) True h 0 (length args) (emitArgs args) (args_meaning h args)"
  shows "drops h (emitCall name (length args) (emitArgs args)) m
    (\<lambda>fn ls w. bindr (eval_call h name (eval_args h fn args) ls w) (\<lambda>_ ls w. (Inr (), ls, w)))"
proof (cases "name = [] \<or> length args > 0xFFFF")
  case True
  then show ?thesis by (auto simp: emitCall_def)
next
  case False
  let ?M = "\<lambda>fn us ls w. one (of_host (h_Call h name (rev us) w) ls)"
  have k: "emitCall name (length args) (emitArgs args) =
      (\<lambda>e. e_then (emitArgs args e) (\<lambda>e. e_then (with_const (VString name) (\<lambda>i e. e_then (emit OpCallUser i (of_nat (length args)) 0 e)
          (if length args > 0 then popStack (length args - 1) else pushStack 1)) e) drop_in_stmt))"
    using False
    by (auto simp: emitCall_def seq_cons with_const_def fun_eq_iff e_then_assoc case_prod_unfold)
  have "emits (\<lambda>fn. True) True h 0 0 (emitCall name (length args) (emitArgs args))
      (also_then (args_meaning h args) (also_then ?M (\<lambda>fn us ls w. (Inr [], ls, w))))"
    unfolding k
    by (rule emits_then[OF assms emits_then[OF emits_with_const[OF emits_call_instr] emits_drop]]) (use False in simp)
  then show ?thesis
    by (intro drops_none, elim emits_weaken)
      (simp_all add: also_then_def args_meaning_def eval_call_def bindr_assoc one_bindr bindr_one none_bindr fun_eq_iff)
qed

text \<open>An operator in statement context.\<close>

lemma drops_value:
  assumes "expr_in True (\<lambda>fn. True) h k m" "\<And>fn ls w. md fn ls w = bindr (m fn ls w) (\<lambda>_ ls w. (Inr (), ls, w))"
  shows "drops h k m md"
  using assms by (simp add: drops_def)

lemma eval_drop_operator:
  "t = T_INC \<or> t = T_DEC \<or> \<not> wr \<and> \<not> c \<Longrightarrow>
     eval_drop h fn (Operator t a b wr c) ls w = bindr (eval h fn (Operator t a b wr c) ls w) (\<lambda>_ ls w. (Inr (), ls, w))"
  by (auto split: option.splits node.splits simp del: eval.simps)

lemma drops_operator:
  assumes "plain (Operator t a b wr c)"
  shows "drops h (emitExpr (Operator t a b wr c)) (\<lambda>fn. eval h fn (Operator t a b wr c))
    (\<lambda>fn. eval_drop h fn (Operator t a b wr c))"
proof -
  let ?m = "\<lambda>fn. eval h fn (Operator t a b wr c)"
  have ka: "expr (\<lambda>fn. True) h (emitOpt a) (\<lambda>fn. eval_opt h fn a)"
    and kb: "expr (\<lambda>fn. True) h (emitOpt b) (\<lambda>fn. eval_opt h fn b)" and ct: "c \<Longrightarrow> 0 \<le> t \<and> t < 65536"
    using assms expr_emitExpr(2)[of a _ h] expr_emitExpr(2)[of b _ h] by simp_all
  consider (step) "t = T_INC \<or> t = T_DEC" | (store) "t \<noteq> T_INC" "t \<noteq> T_DEC" "wr \<or> c"
    | (pure) "t \<noteq> T_INC" "t \<noteq> T_DEC" "\<not> wr" "\<not> c" by blast
  then show ?thesis
  proof cases
    case step
    show ?thesis
    proof (cases "\<exists>x. (if a \<noteq> None then a else b) = Some (Variable x)")
      case True
      then obtain x where x: "(if a \<noteq> None then a else b) = Some (Variable x)" by blast
      have e: "emitExpr (Operator t a b wr c) =
          with_local x (\<lambda>i. seq [op1 (inc_dec_opcode (t = T_INC) (a \<noteq> None)) i, pushStack 1, drop_in_stmt])"
        using step unfolding emitExpr.simps emitOperator_def emitIncDec_def Let_def x
        by (simp add: inc_dec_opcode_def)
      have m: "?m = (\<lambda>fn. eval_inc_dec h fn (slot fn x) (t = T_INC) (a \<noteq> None))"
        using step unfolding eval.simps eval_operator_def x by (intro ext) simp
      have s: "t = T_INC \<or> t = T_DEC \<or> \<not> wr \<and> \<not> c" using step by blast
      have d: "(\<lambda>fn. eval_drop h fn (Operator t a b wr c)) =
          (\<lambda>fn ls w. bindr (eval_inc_dec h fn (slot fn x) (t = T_INC) (a \<noteq> None) ls w) (\<lambda>_ ls w. (Inr (), ls, w)))"
        by (intro ext) (simp only: eval_drop_operator[OF s] fun_cong[OF m])
      show ?thesis unfolding e d by (rule drops_inc_dec)
    next
      case False
      then have "emitExpr (Operator t a b wr c) = (\<lambda>e. Outside)"
        using step unfolding emitExpr.simps emitOperator_def emitIncDec_def Let_def
        by (auto split: option.splits node.splits)
      then show ?thesis by simp
    qed
  next
    case store
    then have e: "emitExpr (Operator t a b wr c) =
        (if c then emitCompoundAssign t a (emitOpt b) else emitAssign a (emitOpt b))"
      by (auto simp: emitOperator_def)
    show ?thesis
    proof (cases "\<exists>x. a = Some (Variable x)")
      case True
      then obtain x where x: "a = Some (Variable x)" by blast
      have d: "(\<lambda>fn. eval_drop h fn (Operator t a b wr c)) = (\<lambda>fn ls w.
          bindr (eval_opt h fn b ls w) (\<lambda>v. if c then compound_assign h fn (slot fn x) t v else write_local h fn (slot fn x) v))"
        using store by (intro ext) (auto simp: x)
      show ?thesis
        unfolding e d using drops_compound[OF kb, of t x ?m] drops_assign[OF kb, of x ?m] ct
        unfolding x by (cases c) (simp_all only: if_True if_False HOL.simp_thms)
    next
      case False
      then have "emitExpr (Operator t a b wr c) = (\<lambda>e. Outside)"
        unfolding e by (auto simp: emitCompoundAssign_def emitAssign_def split: option.splits node.splits)
      then show ?thesis by simp
    qed
  next
    case pure
    have "expr_in True (\<lambda>fn. True) h (emitExpr (Operator t a b wr c)) ?m"
    proof (cases "t \<in> {T_BOOLEAN_AND, T_LOGICAL_AND, T_BOOLEAN_OR, T_LOGICAL_OR}")
      case True
      then show ?thesis
        using pure expr_short_circuit[OF ka kb, of True] by (auto simp: emitOperator_def eval_operator_def)
    next
      case logical: False
      show ?thesis
      proof (cases "t = T_COALESCE")
        case True
        then show ?thesis
          using pure logical expr_coalesce[OF _ kb, of b True]
          by (auto simp: emitOperator_def eval_operator_def emitCoalesce_def expr_in_def split: option.splits node.splits)
      next
        case False
        then show ?thesis
          using pure logical expr_unary[OF _ kb, of _ _ True] expr_binary[OF binaryOpcode_binary ka kb, of _ _ True]
          by (auto simp: emitOperator_def eval_operator_def expr_in_def split: option.splits)
      qed
    qed
    then show ?thesis
      by (rule drops_value) (use pure in \<open>intro eval_drop_operator, simp\<close>)
  qed
qed

lemma drops_emitExpr: "plain n \<Longrightarrow> drops h (emitExpr n) (\<lambda>fn. eval h fn n) (\<lambda>fn. eval_drop h fn n)"
proof (induction n rule: measure_induct_rule[of size])
  case (less n)
  have val: "drops h (emitExpr n) (\<lambda>fn. eval h fn n) (\<lambda>fn. eval_drop h fn n)"
    if "expr_in True (\<lambda>fn. True) h (emitExpr n) (\<lambda>fn. eval h fn n)"
      "\<And>fn ls w. eval_drop h fn n ls w = bindr (eval h fn n ls w) (\<lambda>_ ls w. (Inr (), ls, w))"
    by (rule drops_value[OF that])
  show ?case
  proof (cases n)
    case (Literal v)
    then show ?thesis using emits_literal by (intro val) (simp_all add: expr_in_def)
  next
    case (Variable x)
    then show ?thesis using emits_read[of _ True h x True] by (intro val) (simp_all add: expr_in_def)
  next
    case (ConcatNode ps)
    show ?thesis
    proof (intro val)
      show "expr_in True (\<lambda>fn. True) h (emitExpr n) (\<lambda>fn. eval h fn n)"
      proof (cases ps)
        case Nil
        have "expr_in True (\<lambda>fn. True) h (emitLiteral (VString [])) (\<lambda>fn. eval_literal h (VString []))"
          using emits_literal by (simp add: expr_in_def)
        then show ?thesis using Nil ConcatNode by (simp add: emitLiteral_def eval_literal_def fun_eq_iff expr_in_def)
      next
        case (Cons p ps')
        have "expr (\<lambda>fn. True) h (emitExpr p) (\<lambda>fn. eval h fn p)"
            "emits (\<lambda>fn. True) True h 1 1 (emitConcatRest ps') (\<lambda>fn us ls w. one (eval_concat h fn ps' (hd us) ls w))"
          using less.prems expr_emitExpr(1)[of p _ h] expr_emitExpr(4)[of ps' _ h] by (simp_all add: ConcatNode Cons)
        then show ?thesis unfolding ConcatNode Cons by (rule expr_concat)
      qed
    qed (simp add: ConcatNode)
  next
    case (Operator t a b wr c)
    then show ?thesis using drops_operator less.prems by blast
  next
    case (FunctionCall name args)
    then show ?thesis using drops_call[of h args name] expr_emitExpr(3)[of args _ h] less.prems by simp
  next
    case (IfNode c y m short)
    have "expr_in True (\<lambda>fn. True) h (emitExpr n) (\<lambda>fn. eval h fn n)"
      using expr_ternary[of "\<lambda>fn. True" h "emitExpr c" _ "emitOpt y" _ "emitOpt m" _ True]
        expr_emitExpr(1)[of c _ h] expr_emitExpr(2)[of y _ h] expr_emitExpr(2)[of m _ h] less.prems
      by (simp add: IfNode)
    then show ?thesis by (intro val) (simp_all add: IfNode)
  next
    case (Runnables ns)
    show ?thesis
    proof (cases "\<exists>x. ns = [x]")
      case True
      then obtain x where x: "ns = [x]" by blast
      show ?thesis using less.IH[of x] less.prems unfolding Runnables x by simp
    next
      case False
      then have "emitExpr n = (\<lambda>e. Unsupported)" by (auto simp: Runnables split: list.splits)
      then show ?thesis by simp
    qed
  qed simp_all
qed

lemma discard_step:
  assumes n: "plain n" and a: "discard (emitExpr n) e = EOk e'" "wf_s e"
  shows "later {} e e'" "em_curStack e' = em_curStack e"
    and "tabled fn e' \<Longrightarrow> placed_in fn B C e' (here e) (here e')
      \<Longrightarrow> computes h fn (here e) (here e') (nat (em_curStack e)) [] (\<lambda>ls w. none (eval_drop h fn n ls w))"
proof -
  let ?e = "e\<lparr>em_stmtCtx := True\<rparr>"
  obtain e1 e2 where e: "emitExpr n ?e = EOk e1"
      "(if em_curStack e1 > em_curStack e then seq [op0 OpPop, popStack 1] e1 else EOk e1) = EOk e2"
      "e' = e2\<lparr>em_stmtCtx := em_stmtCtx e\<rparr>"
    using a(1) by (auto simp: discard_def e_then_EOk)
  have w: "wf_s ?e"
    using a(2) by (simp add: wf_s_def wf_em_def small_def tables_ok_def hole_list_def here_def shape_def)
  have st: "em_stmtCtx ?e = True" by simp
  have h: "here ?e = here e" "here e' = here e2" "em_curStack ?e = em_curStack e" "em_curStack e' = em_curStack e2"
    by (simp_all add: here_def e(3))
  have adv: "later {} e e'" if "later {} ?e e2"
    using that by (simp add: later_def h e(3) here_def shape_def wf_em_def small_def tables_ok_def)
  have fits': "tabled fn e2" "placed_in fn B C e2 (here ?e) (here e2)" if "tabled fn e'" "placed_in fn B C e' (here e) (here e')" for fn B C
    using that
    by (simp_all add: e(3) tabled_def located_in_def here_def placed_in_def placed_def hole_list_def)
  have *: "later {} ?e e2 \<and> em_curStack e2 = em_curStack e \<and>
      (\<forall>fn B C. tabled fn e' \<longrightarrow> placed_in fn B C e' (here e) (here e') \<longrightarrow>
         computes h fn (here e) (here e') (nat (em_curStack e)) [] (\<lambda>ls w. none (eval_drop h fn n ls w)))" for h :: "('a, 'b) host"
    using drops_emitExpr[OF n, of h, unfolded drops_def]
  proof
    assume v: "expr_in True (\<lambda>fn. True) h (emitExpr n) (\<lambda>fn. eval h fn n) \<and>
      (\<forall>fn ls w. eval_drop h fn n ls w = bindr (eval h fn n ls w) (\<lambda>_ ls w. (Inr (), ls, w)))"
    then have n: "emits (\<lambda>fn. True) True h 0 1 (emitExpr n) (\<lambda>fn us ls w. one (eval h fn n ls w))"
      by (simp add: expr_in_def)
    note 1 = emits_step[OF n e(1) w st]
    have s2: "(\<lambda>e. e_then (emitExpr n e) (seq [op0 OpPop, popStack 1])) ?e = EOk e2"
      using e(1,2) 1(2) by (simp add: e_then_def)
    have m: "emits (\<lambda>fn. True) True h 0 0 (\<lambda>e. e_then (emitExpr n e) (seq [op0 OpPop, popStack 1]))
        (\<lambda>fn us ls w. none (eval_drop h fn n ls w))"
      by (rule emits_weaken[OF emits_then[OF n emits_pop]])
        (use v in \<open>simp_all add: also_then_def bindr_one none_bindr fun_eq_iff\<close>)
    note 2 = emits_step[OF m s2 w st]
    show ?thesis using 2(1,2) 2(3)[OF fits' TrueI] h by simp
  next
    assume n: "emits (\<lambda>fn. True) True h 0 0 (emitExpr n) (\<lambda>fn us ls w. none (eval_drop h fn n ls w))"
    note 1 = emits_step[OF n e(1) w st]
    have "emitExpr n ?e = EOk e2" using e(1,2) 1(2) by simp
    note 2 = emits_step[OF n this w st]
    show ?thesis using 2(1,2) 2(3)[OF fits' TrueI] h by simp
  qed
  show "later {} e e'" "em_curStack e' = em_curStack e" using * adv by (simp_all add: h)
  show "tabled fn e' \<Longrightarrow> placed_in fn B C e' (here e) (here e')
      \<Longrightarrow> computes h fn (here e) (here e') (nat (em_curStack e)) [] (\<lambda>ls w. none (eval_drop h fn n ls w))"
    using * by blast
qed

lemma does_discard:
  assumes "plain n"
  shows "does loc h (discard (emitExpr n)) (\<lambda>fn its ls w. run_expr (eval_drop h fn n ls w))"
proof (rule doesI)
  fix e e'
  assume a: "discard (emitExpr n) e = EOk e'" "wf_s e"
  note d = discard_step[OF assms a]
  show "advanced e e' \<and> wf_s e' \<and> em_curStack e' = em_curStack e"
    using later_advanced[OF d(1)] later_wf[OF d(1) a(2)] d(2) by simp
  fix fn B C "its"
  assume "fits fn B C its e e'"
  then have "tabled fn e'" "placed_in fn B C e' (here e) (here e')" by (simp_all add: fits_def)
  from goes_drop[OF d(3)[OF this]]
  show "goes h fn (nat (em_curStack e)) B C its (somes its) (somes its) (here e) (here e')
      (\<lambda>ls w. run_expr (eval_drop h fn n ls w))" .
qed

section \<open>Single instructions\<close>

lemma fits_no_handlers: "fits fn B C its e e' \<Longrightarrow> fn_TryHandlers fn = []"
  by (simp add: fits_def tabled_def)

lemma emit_does:
  assumes "emit opc a 0 0 e = EOk e'" "wf_s e"
  shows "advanced e e'" "wf_s e'" "em_curStack e' = em_curStack e" "here e' = Suc (here e)"
    and "fits fn B C its e e' \<Longrightarrow> instr_at fn (here e) opc a 0 0"
proof -
  note s = emit_step[OF assms(1)]
  show "advanced e e'" "wf_s e'" "em_curStack e' = em_curStack e" "here e' = Suc (here e)"
    using later_advanced[OF s(1)] later_wf[OF s(1) assms(2)] s(2,3) by simp_all
  show "fits fn B C its e e' \<Longrightarrow> instr_at fn (here e) opc a 0 0"
    using emit_instr[OF assms later_refl[of "{}"], of fn B C] s(2) by (simp add: fits_def placed_in_def)
qed

lemma does_op:
  assumes "\<And>fn B C its p D. instr_at fn p opc 0 0 0 \<Longrightarrow> fn_TryHandlers fn = [] \<Longrightarrow>
      goes h fn D B C its (somes its) (somes its) p (Suc p) (m fn its)"
  shows "does loc h (op0 opc) m"
proof (rule doesI)
  fix e e'
  assume a: "op0 opc e = EOk e'" "wf_s e"
  note s = emit_does[OF a(1)[unfolded op0_def] a(2)]
  show "advanced e e' \<and> wf_s e' \<and> em_curStack e' = em_curStack e" using s(1-3) by simp
  fix fn B C "its"
  assume f: "fits fn B C its e e'"
  from assms[OF s(5)[OF f] fits_no_handlers[OF f]]
  show "goes h fn (nat (em_curStack e)) B C its (somes its) (somes its) (here e) (here e') (m fn its)"
    by (simp add: s(4))
qed

lemma uses_op:
  assumes "\<And>fn B C its p D. instr_at fn p opc 0 0 0 \<Longrightarrow> fn_TryHandlers fn = [] \<Longrightarrow>
      takes h fn D B C its (somes its) (somes its) p (Suc p) (m fn its)"
  shows "uses loc h (seq [op0 opc, popStack 1]) m"
proof (rule usesI)
  fix e e'
  assume a: "seq [op0 opc, popStack 1] e = EOk e'" "wf_s e"
  then obtain e1 where e1: "emit opc 0 0 0 e = EOk e1" "popStack 1 e1 = EOk e'"
    by (auto simp: op0_def e_then_EOk)
  note s = emit_step[OF e1(1)] and p = pop_step[OF e1(2)]
  have l: "later {} e e'" using later_trans[OF s(1) p(1)] by simp
  then show "advanced e e' \<and> wf_s e' \<and> em_curStack e' = em_curStack e - 1"
    using later_advanced later_wf[OF _ a(2)] s(3) p(3) by simp
  fix fn B C "its"
  assume f: "fits fn B C its e e'"
  have "instr_at fn (here e) opc 0 0 0"
    using emit_instr[OF e1(1) a(2) p(1), of fn B C] f s(2) p(2) by (simp add: fits_def placed_in_def)
  from assms[OF this fits_no_handlers[OF f]]
  show "takes h fn (nat (em_curStack e - 1)) B C its (somes its) (somes its) (here e) (here e') (m fn its)"
    by (simp add: s(2) p(2))
qed

lemma const_step:
  assumes "constIndex v e = (i, e0)" "wf_s e"
  shows "later {} e e0" "here e0 = here e" "em_curStack e0 = em_curStack e" "tabled fn e0 \<Longrightarrow> const_is i v fn"
proof -
  have w: "wf_em e" using assms(2) by (simp add: wf_s_def)
  note ok = constIndex_ok[OF assms(1) w]
  show "later {} e e0" "here e0 = here e" "em_curStack e0 = em_curStack e"
    using ok by (simp_all add: later_def grown_def here_def shape_def)
  assume t: "tabled fn e0"
  then have "prefix (em_consts e0) (fn_Consts fn)" "small e0"
    by (auto simp: tabled_def small_def dest!: prefix_length_le)
  then show "const_is i v fn"
    using ok(6) by (auto simp: const_is_def prefix_def nth_append)
qed

lemma local_step:
  assumes "localIndex x e = (i, e0)" "wf_s e"
  shows "later {} e e0" "here e0 = here e" "em_curStack e0 = em_curStack e" "tabled fn e0 \<Longrightarrow> slot_is i x fn"
proof -
  have w: "wf_em e" using assms(2) by (simp add: wf_s_def)
  note ok = localIndex_ok[OF assms(1) w]
  show "later {} e e0" "here e0 = here e" "em_curStack e0 = em_curStack e"
    using ok by (simp_all add: later_def grown_def here_def shape_def)
  assume t: "tabled fn e0"
  then have s: "prefix (em_locals e0) (fn_Locals fn)" "small e0" "distinct (fn_Locals fn)"
    by (auto simp: tabled_def small_def dest!: prefix_length_le)
  then show "slot_is i x fn"
    using ok(6)[OF s(2)] slot_nth[OF s(3), of "unat i"] by (auto simp: slot_is_def prefix_def nth_append)
qed

lemma does_html:
  "does loc h (with_const (VString s) (op1 OpInlineHtml))
     (\<lambda>fn its ls w. case h_Write h s w of (Some e, w) \<Rightarrow> Some (Threw e, ls, w) | (None, w) \<Rightarrow> skip ls w)"
proof (rule doesI)
  fix e e'
  assume a: "with_const (VString s) (op1 OpInlineHtml) e = EOk e'" "wf_s e"
  obtain i e0 where i: "constIndex (VString s) e = (i, e0)" by (rule prod.exhaust)
  note c = const_step[OF i a(2)]
  have k: "emit OpInlineHtml i 0 0 e0 = EOk e'" using a(1) i by (simp add: with_const_def op1_def)
  note w = later_wf[OF c(1) a(2)]
  note d = emit_does[OF k w]
  show "advanced e e' \<and> wf_s e' \<and> em_curStack e' = em_curStack e"
    using d(2,3) advanced_trans[OF later_advanced[OF c(1)] d(1)] c(3) by simp
  fix fn B C "its"
  assume f: "fits fn B C its e e'"
  have f0: "fits fn B C its e0 e'" using f c(1,2) by (simp add: fits_def later_def)
  have "tabled fn e0" using f0 tabled_advanced[OF d(1)] by (simp add: fits_def)
  from goes_html[OF d(5)[OF f0] c(4)[OF this]]
  show "goes h fn (nat (em_curStack e)) B C its (somes its) (somes its) (here e) (here e')
      (\<lambda>ls w. case h_Write h s w of (Some e, w) \<Rightarrow> Some (Threw e, ls, w) | (None, w) \<Rightarrow> skip ls w)"
    by (simp add: c(2) d(4))
qed

lemma does_return:
  assumes "\<And>n. v = Some n \<Longrightarrow> plain n"
  shows "does loc h (emitReturn (map_option emitExpr v))
    (case v of
       None \<Rightarrow> (\<lambda>fn its ls w. case h_mk h VNull w of (v, w) \<Rightarrow> Some (Returned v, ls, w))
     | Some n \<Rightarrow> (\<lambda>fn its ls w. with_value (eval h fn n ls w) (\<lambda>v ls w. Some (Returned v, ls, w))))"
proof (cases v)
  case None
  have "does loc h (op0 OpRetNull) (\<lambda>fn its ls w. case h_mk h VNull w of (v, w) \<Rightarrow> Some (Returned v, ls, w))"
    by (rule does_op[OF goes_ret_null])
  then show ?thesis by (simp add: None emitReturn_def)
next
  case (Some n)
  have k: "seq [subexpr (emitExpr n), op0 OpRet, popStack 1] =
      (\<lambda>e. e_then (subexpr (emitExpr n) e) (seq [op0 OpRet, popStack 1]))"
    by (simp add: seq_cons)
  have "does loc h (seq [subexpr (emitExpr n), op0 OpRet, popStack 1])
      (\<lambda>fn its ls w. with_value (eval h fn n ls w) (\<lambda>v ls w. Some (Returned v, ls, w)))"
    unfolding k by (rule does_value[OF expr_emitExpr(1)[OF assms[OF Some]] uses_op[OF takes_ret]])
  then show ?thesis by (simp add: Some emitReturn_def)
qed

lemma does_throw:
  assumes "plain n"
  shows "does loc h (seq [subexpr (emitExpr n), op0 OpThrow, popStack 1])
    (\<lambda>fn its ls w. with_value (eval h fn n ls w) (\<lambda>v ls w. case h_ThrowObject h v w of (e, w) \<Rightarrow> Some (Threw e, ls, w)))"
proof -
  have k: "seq [subexpr (emitExpr n), op0 OpThrow, popStack 1] =
      (\<lambda>e. e_then (subexpr (emitExpr n) e) (seq [op0 OpThrow, popStack 1]))"
    by (simp add: seq_cons)
  show ?thesis
    unfolding k by (rule does_value[OF expr_emitExpr(1)[OF assms] uses_op[OF takes_throw]])
qed

end
