(* ===== verification/VmLoops.thy ===== *)
theory VmLoops
  imports VmStmt "HOL-Library.Multiset"
begin

text \<open>Branches and loops: the jumps a statement emits and patches itself, and the ones that \<open>break\<close> and
  \<open>continue\<close> leave open in a loop.\<close>

section \<open>Jumps of a statement\<close>

text \<open>A place whose instruction is there, but not a jump that is open in a loop.\<close>

definition fresh :: "emitter \<Rightarrow> nat \<Rightarrow> bool" where
  "fresh e p = (p < here e \<and> p \<notin> holes e)"

definition opened :: "emitter \<Rightarrow> nat \<Rightarrow> 8 word \<Rightarrow> 16 word \<Rightarrow> 16 word \<Rightarrow> bool" where
  "opened e p opc a b = (fresh e p \<and> shape e p = (opc, a, b))"

definition aimed :: "emitter \<Rightarrow> nat \<Rightarrow> 8 word \<Rightarrow> 16 word \<Rightarrow> 16 word \<Rightarrow> nat \<Rightarrow> bool" where
  "aimed e p opc a b t = (fresh e p \<and> jumps_to e p opc a b t)"

lemma shape_advanced: "advanced e e' \<Longrightarrow> p < here e \<Longrightarrow> shape e' p = shape e p"
  by (simp add: shape_def advanced_code)

lemma fresh_later: "fresh e p \<Longrightarrow> later X e e' \<Longrightarrow> fresh e' p"
  using later_here[of X e e'] later_holes[of X e e'] by (simp add: fresh_def)

lemma fresh_advanced: "fresh e p \<Longrightarrow> advanced e e' \<Longrightarrow> fresh e' p"
  using advanced_here[of e e'] holes_advanced(2)[of e e' p] by (auto simp: fresh_def)

lemma opened_later: "opened e p opc a b \<Longrightarrow> later X e e' \<Longrightarrow> opened e' p opc a b"
  using fresh_later[of e p X e'] by (auto simp: opened_def fresh_def later_def)

lemma opened_advanced: "opened e p opc a b \<Longrightarrow> advanced e e' \<Longrightarrow> opened e' p opc a b"
  using fresh_advanced[of e p e'] shape_advanced[of e e' p] by (simp add: opened_def fresh_def)

lemma aimed_later: "aimed e p opc a b t \<Longrightarrow> later X e e' \<Longrightarrow> p \<notin> X \<Longrightarrow> aimed e' p opc a b t"
  using fresh_later[of e p X e'] jumps_later[of e p opc a b t X e'] by (simp add: aimed_def fresh_def)

lemma aimed_advanced: "aimed e p opc a b t \<Longrightarrow> advanced e e' \<Longrightarrow> aimed e' p opc a b t"
  using fresh_advanced[of e p e'] jumps_advanced[of e p opc a b t e'] by (simp add: aimed_def fresh_def)

lemma opened_emit: "emit opc a b c e = EOk e' \<Longrightarrow> wf_s e \<Longrightarrow> opened e' (here e) opc a b"
  using emit_step(2,5)[of opc a b c e e'] later_holes[OF emit_step(1)[of opc a b c e e']] wf_hole[of e "here e"]
  by (auto simp: opened_def fresh_def)

lemma aimed_patch: "patchJump p t e = EOk e' \<Longrightarrow> opened e p opc a b \<Longrightarrow> aimed e' p opc a b t"
  using patch_step(5)[of p t e e' opc a b] fresh_later[OF _ patch_step(1)[of p t e e']] by (simp add: opened_def aimed_def)

text \<open>A region of the finished function as an emitter has it.\<close>

definition seen :: "func \<Rightarrow> (nat \<Rightarrow> nat) \<Rightarrow> (nat \<Rightarrow> nat) \<Rightarrow> emitter \<Rightarrow> nat \<Rightarrow> nat \<Rightarrow> bool" where
  "seen fn B C e l r = (tabled fn e \<and> placed_in fn B C e l r)"

lemma seen_mono: "seen fn B C e l r \<Longrightarrow> l \<le> l' \<Longrightarrow> r' \<le> r \<Longrightarrow> seen fn B C e l' r'"
  using placed_mono by (auto simp: seen_def)

lemma seen_later:
  "seen fn B C e' l r \<Longrightarrow> later X e e' \<Longrightarrow> r \<le> here e \<Longrightarrow> (\<And>p. p \<in> X \<Longrightarrow> l \<le> p \<Longrightarrow> p < r \<Longrightarrow> p \<in> holes e)
     \<Longrightarrow> seen fn B C e l r"
  using placed_later[of fn B C e' l r X e] tabled_later[of X e e' fn] by (simp add: seen_def)

lemma seen_advanced: "seen fn B C e' l r \<Longrightarrow> advanced e e' \<Longrightarrow> r \<le> here e \<Longrightarrow> seen fn B C e l r"
  using placed_advanced[of fn B C e' l r e] tabled_advanced[of e e' fn] by (simp add: seen_def)

lemma fits_seen:
  "fits fn B C its e e' \<longleftrightarrow> seen fn B C e' (here e) (here e') \<and> map (\<lambda>i. i \<noteq> None) its = map lc_isForeach (em_loops e)"
  by (simp add: fits_def seen_def)

lemma aimed_seen:
  assumes "aimed e p opc a b t" "seen fn B C e l r" "l \<le> p" "p < r" "t \<le> here e"
  shows "instr_at fn p opc a b (disp p t)"
  using placed_jump[OF placedD[of fn B C e l r p], of opc a b t] assms by (simp add: aimed_def fresh_def tabled_def seen_def)

section \<open>Branches\<close>

lemma after_skip [simp]: "after r skip = r"
  by (auto simp: after_def skip_def split: option.splits flow.splits)

lemma takes_if:
  assumes "instr_at fn p OpJmpIfFalse a b (disp p t)" "goes h fn D B C its as zs (Suc p) q mt"
    "goes h fn D B C its as zs t q mf"
  shows "takes h fn D B C its as zs p q (\<lambda>v ls w. case truth h v w of (b, w) \<Rightarrow> if b then mt ls w else mf ls w)"
  using takes_jump[where jb = False, of fn p a b t h D B C "its" as zs q mt mf] assms by simp

lemma goes_then_jmp:
  assumes "goes h fn D B C its as zs p x m" "instr_at fn x OpJmp a b (disp x t)"
  shows "goes h fn D B C its as zs p t m"
  using goes_after[OF assms(1) goes_jmp[OF assms(2) goes_skip]] by simp

definition if_parts :: "(emitter \<Rightarrow> emitted) \<Rightarrow> (emitter \<Rightarrow> emitted) option \<Rightarrow> emitter \<Rightarrow> emitted" where
  "if_parts ky kn =
     at_pc (\<lambda>jmpFalse. seq [op0 OpJmpIfFalse, popStack 1, ky,
       (case kn of
          None \<Rightarrow> at_pc (patchJump jmpFalse)
        | Some kn \<Rightarrow>
            at_pc (\<lambda>jmpEnd. seq [op0 OpJmp, at_pc (patchJump jmpFalse), kn, at_pc (patchJump jmpEnd)]))])"

text \<open>The popping jump in front of a part.\<close>

lemma jump_pop_step:
  assumes "emit opc 0 0 0 e = EOk e1" "popStack 1 e1 = EOk e2" "wf_s e"
  shows "later {} e e2" "wf_s e2" "here e2 = Suc (here e)" "em_curStack e2 = em_curStack e - 1" "opened e2 (here e) opc 0 0"
    "em_stmtCtx e2 = em_stmtCtx e"
proof -
  note s = emit_step[OF assms(1)] and p = pop_step[OF assms(2)]
  show l: "later {} e e2" using later_trans[OF s(1) p(1)] by simp
  show "wf_s e2" by (rule later_wf[OF l assms(3)])
  show "here e2 = Suc (here e)" "em_curStack e2 = em_curStack e - 1" using s p by simp_all
  show "opened e2 (here e) opc 0 0" by (rule opened_later[OF opened_emit[OF assms(1,3)] p(1)])
  show "em_stmtCtx e2 = em_stmtCtx e" using l by (simp add: later_def)
qed

lemma uses_if_then:
  assumes "does None h ky my"
  shows "uses loc h (if_parts ky None)
    (\<lambda>fn its v ls w. case truth h v w of (b, w) \<Rightarrow> if b then my fn its ls w else skip ls w)"
proof (rule usesI)
  fix e e'
  assume a: "if_parts ky None e = EOk e'" "wf_s e" "\<not> em_stmtCtx e"
  then obtain e1 e2 e3 where e: "emit OpJmpIfFalse 0 0 0 e = EOk e1" "popStack 1 e1 = EOk e2" "ky e2 = EOk e3"
      "patchJump (here e) (here e3) e3 = EOk e'"
    by (auto simp: if_parts_def at_pc_def op0_def e_then_EOk)
  note j = jump_pop_step[OF e(1,2) a(2)]
  have c: "\<not> em_stmtCtx e2" using j(6) a(3) by simp
  note y = does_step[OF assms e(3) j(2) c at_loc_None]
  note p = patch_step[OF e(4)]
  have h: "here e < here e2" "here e2 \<le> here e3" using j(3) advanced_here[OF y(1)] by simp_all
  have a3: "advanced e e3" by (rule advanced_trans[OF later_advanced[OF j(1)] y(1)])
  show "advanced e e' \<and> wf_s e' \<and> em_curStack e' = em_curStack e - 1"
    using advanced_later[OF a3 p(1)] later_wf[OF p(1) y(2)] y(3) p(3) j(4) by simp
  fix fn B C "its"
  assume f: "fits fn B C its e e'"
  then have s: "seen fn B C e' (here e) (here e')" by (simp add: fits_seen)
  have "aimed e' (here e) OpJmpIfFalse 0 0 (here e3)"
    by (rule aimed_patch[OF e(4) opened_advanced[OF j(5) y(1)]])
  then have 1: "instr_at fn (here e) OpJmpIfFalse 0 0 (disp (here e) (here e3))"
    by (rule aimed_seen[OF _ s]) (use h p(2) in simp_all)
  have "seen fn B C e3 (here e2) (here e3)"
    by (rule seen_later[OF seen_mono[OF s] p(1)]) (use h p(2) in simp_all)
  then have f2: "fits fn B C its e2 e3"
    using f j(1) by (simp add: fits_seen later_def)
  show "takes h fn (nat (em_curStack e - 1)) B C its (somes its) (somes its) (here e) (here e')
      (\<lambda>v ls w. case truth h v w of (b, w) \<Rightarrow> if b then my fn its ls w else skip ls w)"
    using takes_if[OF 1 _ goes_skip] y(5)[OF f2] j(3,4) p(2) by simp
qed

lemma uses_if_else:
  assumes "does None h ky my" "does None h kn mn"
  shows "uses loc h (if_parts ky (Some kn))
    (\<lambda>fn its v ls w. case truth h v w of (b, w) \<Rightarrow> if b then my fn its ls w else mn fn its ls w)"
proof (rule usesI)
  fix e e'
  assume a: "if_parts ky (Some kn) e = EOk e'" "wf_s e" "\<not> em_stmtCtx e"
  then obtain e1 e2 e3 e4 e5 e6 where e: "emit OpJmpIfFalse 0 0 0 e = EOk e1" "popStack 1 e1 = EOk e2" "ky e2 = EOk e3"
      "emit OpJmp 0 0 0 e3 = EOk e4" "patchJump (here e) (here e4) e4 = EOk e5" "kn e5 = EOk e6"
      "patchJump (here e3) (here e6) e6 = EOk e'"
    by (auto simp: if_parts_def at_pc_def op0_def e_then_EOk)
  note j = jump_pop_step[OF e(1,2) a(2)]
  have c: "\<not> em_stmtCtx e2" using j(6) a(3) by simp
  note y = does_step[OF assms(1) e(3) j(2) c at_loc_None]
  note s = emit_step[OF e(4)]
  note p = patch_step[OF e(5)]
  have l35: "later {here e} e3 e5" using later_trans[OF s(1) p(1)] by simp
  have w5: "wf_s e5" "\<not> em_stmtCtx e5" using later_wf[OF l35 y(2)] l35 y(4) by (simp_all add: later_def)
  note n = does_step[OF assms(2) e(6) w5 at_loc_None]
  note q = patch_step[OF e(7)]
  have h: "here e < here e2" "here e2 \<le> here e3" "here e5 = Suc (here e3)" "here e5 \<le> here e6" "here e' = here e6"
    using j(3) advanced_here[OF y(1)] advanced_here[OF n(1)] s(2) p(2) q(2) by simp_all
  have a3: "advanced e e3" by (rule advanced_trans[OF later_advanced[OF j(1)] y(1)])
  have a6: "advanced e e6" by (rule advanced_trans[OF advanced_later[OF a3 l35] n(1)]) simp
  show "advanced e e' \<and> wf_s e' \<and> em_curStack e' = em_curStack e - 1"
    using advanced_later[OF a6 q(1)] later_wf[OF q(1) n(2)] h y(3) s(3) p(3) n(3) q(3) j(4) by simp
  fix fn B C "its"
  assume f: "fits fn B C its e e'"
  then have v: "seen fn B C e' (here e) (here e')" by (simp add: fits_seen)
  have "aimed e5 (here e) OpJmpIfFalse 0 0 (here e4)"
    by (rule aimed_patch[OF e(5) opened_later[OF opened_advanced[OF j(5) y(1)] s(1)]])
  then have "aimed e' (here e) OpJmpIfFalse 0 0 (here e4)"
    using h by (intro aimed_later[OF aimed_advanced[OF _ n(1)] q(1)]) simp_all
  then have 1: "instr_at fn (here e) OpJmpIfFalse 0 0 (disp (here e) (here e4))"
    by (rule aimed_seen[OF _ v]) (use h s(2) in simp_all)
  have "aimed e' (here e3) OpJmp 0 0 (here e6)"
    by (rule aimed_patch[OF e(7) opened_advanced[OF opened_later[OF opened_emit[OF e(4) y(2)] p(1)] n(1)]])
  then have 2: "instr_at fn (here e3) OpJmp 0 0 (disp (here e3) (here e6))"
    by (rule aimed_seen[OF _ v]) (use h s(2) in simp_all)
  have v6: "seen fn B C e6 l r" if "here e \<le> l" "r \<le> here e6" "here e3 < l \<or> r \<le> here e3" for l r
    by (rule seen_later[OF seen_mono[OF v that(1)] q(1)]) (use h that in auto)
  have "seen fn B C e5 (here e2) (here e3)"
    by (rule seen_advanced[OF v6 n(1)]) (use h in simp_all)
  then have "seen fn B C e3 (here e2) (here e3)"
    by (rule seen_later[OF _ l35]) (use h in simp_all)
  then have fy: "fits fn B C its e2 e3" using f j(1) by (simp add: fits_seen later_def)
  have l: "map lc_isForeach (em_loops e5) = map lc_isForeach (em_loops e)"
    using advanced_foreach[OF a3] l35 by (simp add: later_def)
  have "seen fn B C e6 (here e5) (here e6)" using h by (intro v6) simp_all
  then have fn: "fits fn B C its e5 e6" using f l by (simp add: fits_seen)
  have D: "em_curStack e5 = em_curStack e - 1" using y(3) s(3) p(3) j(4) by simp
  have my: "goes h fn (nat (em_curStack e - 1)) B C its (somes its) (somes its) (Suc (here e)) (here e6) (my fn its)"
    using goes_then_jmp[OF y(5)[OF fy] 2] j(3,4) by simp
  have mn: "goes h fn (nat (em_curStack e - 1)) B C its (somes its) (somes its) (here e4) (here e6) (mn fn its)"
    using n(5)[OF fn] D h s(2) by simp
  show "takes h fn (nat (em_curStack e - 1)) B C its (somes its) (somes its) (here e) (here e')
      (\<lambda>v ls w. case truth h v w of (b, w) \<Rightarrow> if b then my fn its ls w else mn fn its ls w)"
    using takes_if[OF 1 my mn] h by simp
qed

lemma does_if:
  assumes "plain c" "does None h ky my" "\<And>k. kn = Some k \<Longrightarrow> does None h k mn" "kn = None \<Longrightarrow> mn = (\<lambda>fn its. skip)"
  shows "does loc h (emitIf (emitExpr c) ky kn) (\<lambda>fn its. sem_if h (eval h fn c) (my fn its) (mn fn its))"
proof -
  have k: "emitIf (emitExpr c) ky kn = (\<lambda>e. e_then (subexpr (emitExpr c) e) (if_parts ky kn))"
    by (simp add: emitIf_def if_parts_def fun_eq_iff)
  have u: "uses loc h (if_parts ky kn)
      (\<lambda>fn its v ls w. case truth h v w of (b, w) \<Rightarrow> if b then my fn its ls w else mn fn its ls w)"
    using uses_if_then[OF assms(2), of loc] uses_if_else[OF assms(2,3), of _ loc] assms(4) by (cases kn) (simp_all cong: if_cong)
  show ?thesis
    unfolding k sem_if_def by (rule does_value[OF expr_emitExpr(1)[OF assms(1)] u])
qed

section \<open>Break and continue\<close>

lemma mset_concat_update:
  "d < length xs \<Longrightarrow> mset (g y) = add_mset p (mset (g (xs ! d)))
     \<Longrightarrow> mset (concat (map g (xs[d := y]))) = add_mset p (mset (concat (map g xs)))"
proof (induction xs arbitrary: d)
  case (Cons x xs)
  then show ?case by (cases d) simp_all
qed simp

text \<open>A jump is left open in the loop of level \<open>d\<close>.\<close>

lemma add_hole:
  assumes "e' = add_break (Suc d) p e \<or> e' = add_continue (Suc d) p e" "d < length (em_loops e)" "wf_s e"
    "opened e p OpJmp 0 0" "advanced e0 e" "here e0 \<le> p"
  shows "advanced e0 e'" "wf_s e'" "here e' = here e" "em_curStack e' = em_curStack e" "em_code e' = em_code e"
    "holes e' = insert p (holes e)" "em_stmtCtx e' = em_stmtCtx e" "tabled fn e' = tabled fn e"
proof -
  let ?g = "\<lambda>l. lc_breakPCs l @ lc_continuePCs l"
  obtain l where l: "e' = e\<lparr>em_loops := (em_loops e)[d := l]\<rparr>" "mset (?g l) = add_mset p (mset (?g (em_loops e ! d)))"
      "more_holes p (Suc p) (em_loops e ! d) l"
    using assms(1)
  proof (elim disjE)
    assume e: "e' = add_break (Suc d) p e"
    show thesis
      by (rule that[of "(em_loops e ! d)\<lparr>lc_breakPCs := lc_breakPCs (em_loops e ! d) @ [p]\<rparr>"])
        (simp_all add: e add_break_def more_holes_def)
  next
    assume e: "e' = add_continue (Suc d) p e"
    show thesis
      by (rule that[of "(em_loops e ! d)\<lparr>lc_continuePCs := lc_continuePCs (em_loops e ! d) @ [p]\<rparr>"])
        (simp_all add: e add_continue_def more_holes_def)
  qed
  show h: "here e' = here e" "em_curStack e' = em_curStack e" "em_code e' = em_code e" "em_stmtCtx e' = em_stmtCtx e"
    by (simp_all add: l(1) here_def)
  show "tabled fn e' = tabled fn e" by (simp add: l(1) tabled_def located_in_def here_def)
  have m: "mset (hole_list e') = mset (p # hole_list e)"
    unfolding hole_list_def l(1) using mset_concat_update[OF assms(2), of ?g l p] l(2) by simp
  then show s: "holes e' = insert p (holes e)" by (metis list.simps(15) set_mset_mset)
  have p: "p < here e" "p \<notin> holes e" "shape e p = (OpJmp, 0, 0)" using assms(4) by (simp_all add: opened_def fresh_def)
  have sh: "shape e' q = shape e q" for q by (simp add: shape_def h(3))
  have w: "wf_em e' = wf_em e" by (simp add: l(1) wf_em_def small_def tables_ok_def)
  have locs: "em_locs e' = em_locs e" by (simp add: l(1))
  have wfe: "wf_em e" "\<forall>q\<in>holes e. q < here e \<and> shape e q = (OpJmp, 0, 0)" "sorted_wrt (<) (map fst (em_locs e))"
      "\<forall>l\<in>set (em_locs e). fst l < int (here e)"
    using assms(3) by (simp_all add: wf_s_def)
  have di: "distinct (hole_list e')"
    using mset_eq_imp_distinct_iff[OF m] assms(3) p(2) by (simp add: wf_s_def)
  show "wf_s e'"
    unfolding wf_s_def w locs h(1)
  proof (intro conjI wfe(1,3,4) di ballI)
    fix q assume "q \<in> holes e'"
    then have "q = p \<or> q \<in> holes e" using s by blast
    then show "q < here e" "shape e' q = (OpJmp, 0, 0)" using wfe(2) p(1,3) sh by auto
  qed
  have 2: "list_all2 (more_holes (here e0) (here e')) (em_loops e) (em_loops e')"
    using l(3) assms(2,6) p(1)
    by (auto simp: l(1) list_all2_conv_all_nth nth_list_update here_def intro: more_holes_mono)
  have 1: "list_all2 (more_holes (here e0) (here e')) (em_loops e0) (em_loops e)"
    using assms(5) h by (simp add: advanced_def)
  have "list_all2 (more_holes (here e0) (here e')) (em_loops e0) (em_loops e')"
    by (rule list_all2_trans[OF more_holes_trans 1 2])
  then show "advanced e0 e'"
    using assms(5) h by (simp add: advanced_def l(1))
qed

lemma emit_many:
  assumes "seq (map (\<lambda>x. op0 opc) xs) e = EOk e'" "wf_s e"
  shows "later {} e e' \<and> here e' = here e + length xs \<and> em_curStack e' = em_curStack e
    \<and> (\<forall>i<length xs. fresh e' (here e + i) \<and> Encode opc 0 0 0 = Some (em_code e' ! (here e + i)))"
  using assms
proof (induction xs arbitrary: e)
  case Nil
  then show ?case by (simp add: later_refl)
next
  case (Cons x xs)
  then obtain e1 where e1: "emit opc 0 0 0 e = EOk e1" "seq (map (\<lambda>x. op0 opc) xs) e1 = EOk e'"
    by (auto simp: op0_def e_then_EOk)
  note s = emit_step[OF e1(1)]
  note r = Cons.IH[OF e1(2) later_wf[OF s(1) Cons.prems(2)]]
  have f: "fresh e' (here e)" "em_code e' ! here e = em_code e1 ! here e"
    using fresh_later[of e1 "here e" "{}" e'] opened_emit[OF e1(1) Cons.prems(2)] r later_code[of "{}" e1 e' "here e"]
    by (auto simp: opened_def fresh_def)
  have "fresh e' (here e + i) \<and> Encode opc 0 0 0 = Some (em_code e' ! (here e + i))" if "i < length (x # xs)" for i
  proof (cases i)
    case 0
    then show ?thesis using f s(4) by simp
  next
    case (Suc j)
    then show ?thesis using r s(2) that by simp
  qed
  then show ?case using r s(2,3) later_trans[OF s(1)] by auto
qed

lemma somes_length: "length (somes xs) = length (filter (\<lambda>b. b) (map (\<lambda>i. i \<noteq> None) xs))"
  by (induction xs) (simp_all add: somes_def)

lemma does_leave:
  assumes "(add = add_break \<and> c = Broke) \<or> (add = add_continue \<and> c = Continued)"
  shows "does loc h (leave_loop n add) (\<lambda>fn its. leave h its n c)"
proof (rule doesI)
  fix e e'
  assume a: "leave_loop n add e = EOk e'" "wf_s e"
  define d where "d = (if n < 1 then 0 else nat n - 1)"
  let ?ls = "filter lc_isForeach (take d (em_loops e))"
  have depth: "(if n < 1 then 1 else nat n) = Suc d" by (auto simp: d_def)
  obtain e1 e2 where e: "d < length (em_loops e)" "seq (map (\<lambda>l. op0 OpForeachUnwind) ?ls) e = EOk e1"
      "emit OpJmp 0 0 0 e1 = EOk e2" "e' = add (Suc d) (here e1) e2"
    using a(1) unfolding leave_loop_def depth Let_def
    by (auto simp: unwindForeachesAbove_def at_pc_def op0_def act_def e_then_EOk split: if_splits)
  have u: "later {} e e1" "here e1 = here e + length ?ls" "em_curStack e1 = em_curStack e"
      "\<And>i. i < length ?ls \<Longrightarrow> fresh e1 (here e + i) \<and> Encode OpForeachUnwind 0 0 0 = Some (em_code e1 ! (here e + i))"
    using emit_many[OF e(2) a(2)] by blast+
  note w1 = later_wf[OF u(1) a(2)]
  note s = emit_step[OF e(3)]
  note w2 = later_wf[OF s(1) w1]
  have l02: "later {} e e2" using later_trans[OF u(1) s(1)] by simp
  have d2: "d < length (em_loops e2)" using e(1) l02 by (simp add: later_def)
  have k: "e' = add_break (Suc d) (here e1) e2 \<or> e' = add_continue (Suc d) (here e1) e2" using e(4) assms by auto
  note ah = add_hole[OF k d2 w2 opened_emit[OF e(3) w1] later_advanced[OF l02]]
  have h: "here e \<le> here e1" "here e' = Suc (here e1)" using u(2) s(2) ah(3) by simp_all
  show "advanced e e' \<and> wf_s e' \<and> em_curStack e' = em_curStack e"
    using ah(1,2,4) h(1) s(3) u(3) by simp
  fix fn B C "its"
  assume f: "fits fn B C its e e'"
  then have v: "placed_in fn B C e' (here e) (here e')" by (simp add: fits_def)
  have m: "map (\<lambda>i. i \<noteq> None) its = map lc_isForeach (em_loops e)" using f by (simp add: fits_def)
  then have li: "length its = length (em_loops e)" by (metis length_map)
  have lu: "length (somes (take d its)) = length ?ls"
    using arg_cong[OF m, of "take d"] by (simp add: somes_length take_map filter_map o_def)
  have un: "instr_at fn (here e + i) OpForeachUnwind 0 0 0" if i: "i < length (somes (take d its))" for i
  proof -
    have p: "here e + i < here e1" using u(2) i lu by simp
    have "fresh e1 (here e + i)" using u(4) i lu by simp
    then have "here e + i \<notin> holes e'" using later_holes[OF s(1)] ah(6) h(1) p by (auto simp: fresh_def)
    moreover have "em_code e' ! (here e + i) = em_code e1 ! (here e + i)"
      using ah(5) h(1) later_code[OF s(1) p] by simp
    ultimately show ?thesis
      using placed_instr[OF placedD[OF v, of "here e + i"], of OpForeachUnwind 0 0 0] u(4)[of i] i lu p h(2) by simp
  qed
  let ?t = "if add = add_break \<and> c = Broke then B d else C d"
  have "d < length (em_loops e')" using d2 k by (auto simp: add_break_def add_continue_def)
  moreover have "(add = add_break \<longrightarrow> here e1 \<in> set (lc_breakPCs (em_loops e' ! d)))
      \<and> (add = add_continue \<longrightarrow> here e1 \<in> set (lc_continuePCs (em_loops e' ! d)))"
    using d2 e(4) by (auto simp: add_break_def add_continue_def)
  ultimately have "instr_at fn (here e1) OpJmp 0 0 (disp (here e1) ?t)"
    using placedD[OF v, of "here e1"] h assms by (auto simp: placed_def)
  then have j: "instr_at fn (here e + length (somes (take d its))) OpJmp 0 0
      (disp (here e + length (somes (take d its))) ?t)" by (simp add: u(2) lu)
  show "goes h fn (nat (em_curStack e)) B C its (somes its) (somes its) (here e) (here e') (leave h its n c)"
    by (rule goes_leave[OF _ _ j]) (use un e(1) li assms d_def in auto)
qed

section \<open>Loops\<close>

lemma push_step:
  assumes "wf_s e"
  shows "wf_s (pushLoop fe e)" "here (pushLoop fe e) = here e" "em_curStack (pushLoop fe e) = em_curStack e"
    "em_stmtCtx (pushLoop fe e) = em_stmtCtx e" "hole_list (pushLoop fe e) = hole_list e"
    "at_loc loc (pushLoop fe e) = at_loc loc e"
proof -
  have "shape (pushLoop fe e) p = shape e p" for p by (simp add: shape_def pushLoop_def)
  then show "wf_s (pushLoop fe e)"
    using assms by (simp add: wf_s_def pushLoop_def hole_list_def here_def wf_em_def small_def tables_ok_def)
qed (simp_all add: pushLoop_def here_def hole_list_def at_loc_def split: option.splits)

text \<open>The loop is left: what was left open in outer loops is still open.\<close>

lemma pop_loop_step:
  assumes "advanced (pushLoop fe e) e1" "wf_s e1" "wf_s e"
  obtains l where "em_loops e1 = l # em_loops (popLoop e1)" "advanced e (popLoop e1)" "wf_s (popLoop e1)"
    "here (popLoop e1) = here e1" "em_curStack (popLoop e1) = em_curStack e1"
proof -
  note p = push_step[OF assms(3), where fe = fe]
  obtain l ls where l: "em_loops e1 = l # ls" "list_all2 (more_holes (here e) (here e1)) (em_loops e) ls"
    using assms(1) by (auto simp: advanced_def p(2)) (auto simp: pushLoop_def list_all2_Cons1)
  have h: "here (popLoop e1) = here e1" "em_curStack (popLoop e1) = em_curStack e1" "em_loops (popLoop e1) = ls"
    by (simp_all add: popLoop_def here_def l(1))
  have a: "advanced e (popLoop e1)"
    using assms(1) l(2) unfolding advanced_def p(2) h by (simp add: popLoop_def pushLoop_def here_def)
  have hl: "hole_list e1 = (lc_breakPCs l @ lc_continuePCs l) @ hole_list (popLoop e1)"
    by (simp add: hole_list_def l(1) popLoop_def)
  have sh: "shape (popLoop e1) q = shape e1 q" for q by (simp add: shape_def popLoop_def)
  have em: "wf_em (popLoop e1) = wf_em e1" "em_locs (popLoop e1) = em_locs e1"
    by (simp_all add: popLoop_def wf_em_def small_def tables_ok_def)
  have w: "wf_s (popLoop e1)"
    using assms(2) unfolding wf_s_def hl em h by (auto simp: sh)
  show thesis by (rule that[OF _ a w h(1,2)]) (simp add: l(1) h(3))
qed

text \<open>The end of a loop: open jumps of the body are patched, \<open>continue\<close> to \<open>y\<close> first, \<open>break\<close> to \<open>x\<close> last;
  in between other jumps, at \<open>X\<close>, are.\<close>

lemma loop_end:
  assumes "wf_s e" "em_loops e = l # ls" "patch_all (lc_continuePCs l) y e = EOk e1" "later X e1 e2"
    "\<forall>p\<in>X. p \<notin> holes e" "patch_all (lc_breakPCs l) x e2 = EOk e3"
  shows "later (X \<union> (set (lc_breakPCs l) \<union> set (lc_continuePCs l))) e e3" "wf_s e3" "em_loops e3 = l # ls"
    "here e3 = here e2" "em_curStack e3 = em_curStack e2" "here e1 = here e" "em_curStack e1 = em_curStack e"
    "wf_s e1" "later (set (lc_continuePCs l)) e e1" "later (set (lc_breakPCs l)) e2 e3"
    and "seen fn B C (popLoop e3) a b \<Longrightarrow> x \<le> here e3 \<Longrightarrow> y \<le> here e3 \<Longrightarrow> seen fn (case_nat x B) (case_nat y C) e3 a b"
proof -
  have c: "later (set (lc_continuePCs l)) e e1" "here e1 = here e" "em_curStack e1 = em_curStack e"
      "\<And>p. p \<in> set (lc_continuePCs l) \<Longrightarrow> p < here e \<Longrightarrow> shape e p = (OpJmp, 0, 0) \<Longrightarrow> jumps_to e1 p OpJmp 0 0 y"
    using patch_all_step[OF assms(3), of OpJmp 0 0] by blast+
  have b: "later (set (lc_breakPCs l)) e2 e3" "here e3 = here e2" "em_curStack e3 = em_curStack e2"
      "\<And>p. p \<in> set (lc_breakPCs l) \<Longrightarrow> p < here e2 \<Longrightarrow> shape e2 p = (OpJmp, 0, 0) \<Longrightarrow> jumps_to e3 p OpJmp 0 0 x"
    using patch_all_step[OF assms(6), of OpJmp 0 0] by blast+
  show "here e3 = here e2" "em_curStack e3 = em_curStack e2" "here e1 = here e" "em_curStack e1 = em_curStack e"
    "later (set (lc_continuePCs l)) e e1" "later (set (lc_breakPCs l)) e2 e3"
    using b(1-3) c(1-3) by simp_all
  show "wf_s e1" by (rule later_wf[OF c(1) assms(1)])
  note l02 = later_trans[OF c(1) assms(4)]
  note l03 = later_trans[OF l02 b(1)]
  show "later (X \<union> (set (lc_breakPCs l) \<union> set (lc_continuePCs l))) e e3"
    by (rule later_mono[OF l03]) auto
  show w3: "wf_s e3" by (rule later_wf[OF l03 assms(1)])
  show loops: "em_loops e3 = l # ls" using l03 assms(2) by (simp add: later_def)
  have hl: "hole_list e = (lc_breakPCs l @ lc_continuePCs l) @ hole_list (popLoop e3)" "hole_list e3 = hole_list e"
    using loops assms(2) by (simp_all add: hole_list_def popLoop_def)
  have d: "distinct (hole_list e)" "\<And>p. p \<in> holes e \<Longrightarrow> p < here e \<and> shape e p = (OpJmp, 0, 0)"
    using assms(1) by (simp_all add: wf_s_def)
  have jc: "jumps_to e3 p OpJmp 0 0 y" if p: "p \<in> set (lc_continuePCs l)" for p
  proof -
    have h: "p \<in> holes e" "p \<notin> set (lc_breakPCs l)" using hl(1) d(1) p by auto
    have "jumps_to e1 p OpJmp 0 0 y" using c(4)[OF p] d(2)[OF h(1)] by simp
    then show ?thesis
      using d(2)[OF h(1)] h assms(5) c(2) later_here[OF assms(4)]
      by (intro jumps_later[OF jumps_later[OF _ assms(4)] b(1)]) auto
  qed
  have jb: "jumps_to e3 p OpJmp 0 0 x" if p: "p \<in> set (lc_breakPCs l)" for p
  proof -
    have h: "p < here e" "shape e p = (OpJmp, 0, 0)" using hl(1) d(2)[of p] p by auto
    then have "p < here e2" "shape e2 p = (OpJmp, 0, 0)" using l02 by (auto simp: later_def)
    then show ?thesis by (rule b(4)[OF p])
  qed
  assume s: "seen fn B C (popLoop e3) a b" and xy: "x \<le> here e3" "y \<le> here e3"
  have t: "tabled fn e3" using s by (simp add: seen_def popLoop_def tabled_def located_in_def here_def)
  then have bound: "length (fn_Code fn) < 2 ^ 31" "x < 2 ^ 31" "y < 2 ^ 31" using xy by (simp_all add: tabled_def)
  have "placed fn (case_nat x B) (case_nat y C) e3 p" if p: "a \<le> p" "p < b" for p
  proof -
    have pl: "placed fn B C (popLoop e3) p" using s p by (simp add: seen_def placed_in_def)
    have jmp: "instr_at fn p OpJmp 0 0 (disp p t)"
      if "jumps_to e3 p OpJmp 0 0 t" "p \<in> set (lc_breakPCs l @ lc_continuePCs l)" "t < 2 ^ 31" for t
    proof (rule placed_jump[OF pl _ _ bound(1) that(3)])
      show "p \<notin> holes (popLoop e3)" using hl(1) d(1) that(2) by auto
      show "jumps_to (popLoop e3) p OpJmp 0 0 t" using that(1) by (simp add: jumps_to_def popLoop_def)
    qed
    have 1: "p < length (fn_Code fn)" "p \<notin> holes e3 \<longrightarrow> fn_Code fn ! p = em_code e3 ! p"
      using pl hl by (auto simp: placed_def popLoop_def)
    have 2: "(p \<in> set (lc_breakPCs (em_loops e3 ! d)) \<longrightarrow> instr_at fn p OpJmp 0 0 (disp p (case_nat x B d)))
        \<and> (p \<in> set (lc_continuePCs (em_loops e3 ! d)) \<longrightarrow> instr_at fn p OpJmp 0 0 (disp p (case_nat y C d)))"
      if "d < length (em_loops e3)" for d
    proof (cases d)
      case 0
      then show ?thesis using jmp jb[of p] jc[of p] bound by (simp add: loops)
    next
      case (Suc j)
      then show ?thesis using pl that by (simp add: loops placed_def popLoop_def)
    qed
    show ?thesis unfolding placed_def using 1 2 by blast
  qed
  then show "seen fn (case_nat x B) (case_nat y C) e3 a b" using t by (simp add: seen_def placed_in_def)
qed

lemma expr_seen:
  assumes "expr (\<lambda>fn. True) h k m" "subexpr k e = EOk e'" "wf_s e" "seen fn B C e' (here e) (here e')"
  shows "computes h fn (here e) (here e') (nat (em_curStack e)) [] (\<lambda>ls w. one (m fn ls w))"
  using assms(4) unfolding seen_def by (elim conjE) (rule expr_step(3)[OF assms(1-3) refl _ _ TrueI])

lemma later_seen: "later X e e' \<Longrightarrow> seen fn B C e' a b \<Longrightarrow> b \<le> here e \<Longrightarrow> (\<And>p. p \<in> X \<Longrightarrow> p < a \<or> b \<le> p \<or> p \<in> holes e) \<Longrightarrow> seen fn B C e a b"
  using seen_later[of fn B C e' a b X e] by (meson leD)

text \<open>A loop whose body ends at \<open>e\<close>, whose code ends at \<open>e2\<close>, up to the end \<open>e3\<close>.\<close>

lemma loop_done:
  assumes e0: "wf_s e0" and e: "advanced (pushLoop fe e0) e" "wf_s e"
    and conts: "patch_all (lc_continuePCs (curLoop e)) y e = EOk e1" and mid: "later X e1 e2"
    and X: "\<forall>p\<in>X. p \<notin> holes e \<and> here e0 \<le> p"
    and breaks: "patch_all (lc_breakPCs (curLoop e2)) x e2 = EOk e3"
  shows "advanced e0 (popLoop e3)" "wf_s (popLoop e3)" "here (popLoop e3) = here e2" "em_curStack (popLoop e3) = em_curStack e2"
    and "wf_s e1" "here e1 = here e" "em_curStack e1 = em_curStack e" "em_stmtCtx e1 = em_stmtCtx e"
    and "aimed e2 p opc u v t \<Longrightarrow> seen fn B C (popLoop e3) a b \<Longrightarrow> a \<le> p \<Longrightarrow> p < b \<Longrightarrow> t \<le> here e2 \<Longrightarrow>
      instr_at fn p opc u v (disp p t)"
    and "seen fn B C (popLoop e3) a b \<Longrightarrow> x \<le> here e2 \<Longrightarrow> y \<le> here e2 \<Longrightarrow> b \<le> here e \<Longrightarrow> (\<And>p. p \<in> X \<Longrightarrow> p < a \<or> b \<le> p) \<Longrightarrow>
      seen fn (case_nat x B) (case_nat y C) e a b"
    and "seen fn B C (popLoop e3) a b \<Longrightarrow> x \<le> here e2 \<Longrightarrow> y \<le> here e2 \<Longrightarrow> here e \<le> a \<Longrightarrow> b \<le> here e2 \<Longrightarrow>
      seen fn (case_nat x B) (case_nat y C) e2 a b"
    and "map lc_isForeach (em_loops e) = fe # map lc_isForeach (em_loops e0)"
    and "later (set (lc_continuePCs (curLoop e))) e e1"
proof -
  note p = push_step[OF e0, where fe = fe]
  obtain l ls where l: "em_loops e = l # ls" "lc_isForeach l = fe" "\<And>p. p \<in> set (lc_breakPCs l) \<union> set (lc_continuePCs l) \<Longrightarrow> here e0 \<le> p"
    using e(1) by (auto simp: advanced_def p(2)) (auto simp: pushLoop_def list_all2_Cons1 more_holes_def)
  have cur: "curLoop e = l" by (simp add: curLoop_def l(1))
  have "em_loops e2 = em_loops e"
    using patch_all_step[OF conts, of 0 0 0] mid by (simp add: later_def)
  then have cur2: "curLoop e2 = l" by (simp add: curLoop_def l(1))
  note le = loop_end[OF e(2) l(1) conts[unfolded cur] mid _ breaks[unfolded cur2]]
  have nX: "\<forall>p\<in>X. p \<notin> holes e" using X by blast
  note le = le[OF nX]
  have a3: "advanced (pushLoop fe e0) e3"
    using X l(3) by (intro advanced_later[OF e(1) le(1)]) (auto simp: p(2))
  obtain l' where pop: "em_loops e3 = l' # em_loops (popLoop e3)" "advanced e0 (popLoop e3)" "wf_s (popLoop e3)"
      "here (popLoop e3) = here e3" "em_curStack (popLoop e3) = em_curStack e3"
    by (rule pop_loop_step[OF a3 le(2) e0])
  show "advanced e0 (popLoop e3)" "wf_s (popLoop e3)" "here (popLoop e3) = here e2" "em_curStack (popLoop e3) = em_curStack e2"
    "wf_s e1" "here e1 = here e" "em_curStack e1 = em_curStack e"
    using pop le by simp_all
  show "later (set (lc_continuePCs (curLoop e))) e e1" using le(9) cur by simp
  show "em_stmtCtx e1 = em_stmtCtx e" using le(9) by (simp add: later_def)
  have "map lc_isForeach (em_loops e) = map lc_isForeach (em_loops (pushLoop fe e0))" by (rule advanced_foreach[OF e(1)])
  then show "map lc_isForeach (em_loops e) = fe # map lc_isForeach (em_loops e0)" by (simp add: pushLoop_def)
  have l2: "\<And>p. p \<in> set (lc_breakPCs l) \<Longrightarrow> p \<in> holes e2 \<and> p < here e"
    using wf_hole[OF e(2)] \<open>em_loops e2 = em_loops e\<close> l(1) by (auto simp: hole_list_def)
  have hx: "here e \<le> here e2" using le(6) later_here[OF mid] by simp
  {
    assume s: "seen fn B C (popLoop e3) a b" and r: "a \<le> p" "p < b" and t: "t \<le> here e2" and i: "aimed e2 p opc u v t"
    have "p \<notin> set (lc_breakPCs l)" using i l2 by (auto simp: aimed_def fresh_def)
    then have "aimed e3 p opc u v t" using aimed_later[OF i le(10)] by blast
    moreover have "holes (popLoop e3) \<subseteq> holes e3" by (auto simp: hole_list_def pop(1))
    ultimately have "aimed (popLoop e3) p opc u v t"
      by (auto simp: aimed_def fresh_def jumps_to_def pop(4)) (simp_all add: popLoop_def)
    then show "instr_at fn p opc u v (disp p t)"
      using t le(4) by (intro aimed_seen[OF _ s r]) (simp_all add: pop(4))
  }
  note s3 = le(11)[unfolded le(4)]
  {
    assume s: "seen fn B C (popLoop e3) a b" "x \<le> here e2" "y \<le> here e2" "b \<le> here e" "\<And>p. p \<in> X \<Longrightarrow> p < a \<or> b \<le> p"
    show "seen fn (case_nat x B) (case_nat y C) e a b"
      using s(4,5) l(1) by (intro later_seen[OF le(1) s3[OF s(1-3)]]) (auto simp: hole_list_def)
  }
  {
    assume s: "seen fn B C (popLoop e3) a b" "x \<le> here e2" "y \<le> here e2" "here e \<le> a" "b \<le> here e2"
    show "seen fn (case_nat x B) (case_nat y C) e2 a b"
      using s(4,5) l2 by (intro later_seen[OF le(10) s3[OF s(1-3)]]) auto
  }
qed

lemma does_while:
  assumes "plain c" "does None h kb mb"
  shows "does loc h (emitWhile (emitExpr c) kb) (\<lambda>fn its. while_loop k h (eval h fn c) (mb fn (None # its)))"
proof (rule doesI)
  fix e e'
  let ?e1 = "pushLoop False e"
  assume a: "emitWhile (emitExpr c) kb e = EOk e'" "wf_s e" "\<not> em_stmtCtx e"
  note p = push_step[OF a(2), where fe = False]
  obtain e2 e3 e4 e5 e6 e7 e8 e9 e10 where e: "subexpr (emitExpr c) ?e1 = EOk e2" "emit OpJmpIfFalse 0 0 0 e2 = EOk e3"
      "popStack 1 e3 = EOk e4" "kb e4 = EOk e5" "patch_all (lc_continuePCs (curLoop e5)) (here e) e5 = EOk e6"
      "emit OpJmp 0 0 0 e6 = EOk e7" "patchJump (here e6) (here e) e7 = EOk e8" "patchJump (here e2) (here e8) e8 = EOk e9"
      "patch_all (lc_breakPCs (curLoop e9)) (here e8) e9 = EOk e10" "e' = popLoop e10"
    using a(1) p(2)
    by (auto simp: emitWhile_def at_pc_def op0_def act_def jump_back_def patch_continues_def patch_breaks_def e_then_EOk)
  note x = expr_step[OF expr_emitExpr(1)[OF assms(1)] e(1) p(1) refl]
  note j = jump_pop_step[OF e(2,3) later_wf[OF x(1) p(1)]]
  have st4: "\<not> em_stmtCtx e4" using j(6) x(1) p(4) a(3) by (simp add: later_def)
  note b = does_step[OF assms(2) e(4) j(2) st4 at_loc_None]
  note s = emit_step[OF e(6)] and p8 = patch_step[OF e(7)] and p9 = patch_step[OF e(8)]
  have a5: "advanced ?e1 e5"
    by (rule advanced_trans[OF later_advanced[OF x(1)] advanced_trans[OF later_advanced[OF j(1)] b(1)]])
  have X: "later {here e6, here e2} e6 e9"
    by (rule later_mono[OF later_trans[OF s(1) later_trans[OF p8(1) p9(1)]]]) auto
  have open2: "opened e5 (here e2) OpJmpIfFalse 0 0" by (rule opened_advanced[OF j(5) b(1)])
  have h6: "here e6 = here e5" using patch_all_step[OF e(5), of 0 0 0] by blast
  have h: "here e \<le> here e2" "here e4 = Suc (here e2)" "here e4 \<le> here e5" "here e8 = Suc (here e6)" "here e9 = here e8"
    using later_here[OF x(1)] p(2) j(3) advanced_here[OF b(1)] s(2) p8(2) p9(2) by simp_all
  have nX: "\<forall>q\<in>{here e6, here e2}. q \<notin> holes e5 \<and> here e \<le> q"
    using open2 wf_hole[OF b(2), of "here e6"] h h6 by (auto simp: opened_def fresh_def)
  note d = loop_done[OF a(2) a5 b(2) e(5) X nX e(9), folded e(10)]
  show "advanced e e' \<and> wf_s e' \<and> em_curStack e' = em_curStack e"
    using d(1,2,4,7) p9(3) p8(3) s(3) b(3) j(4) x(2) p(3) by simp
  fix fn B C "its"
  assume f: "fits fn B C its e e'"
  then have v: "seen fn B C e' (here e) (here e')" by (simp add: fits_seen)
  have h': "here e' = here e8" using d(3) h(5) by simp
  have sb: "seen fn (case_nat (here e8) B) (case_nat (here e) C) e5 a b"
    if "here e \<le> a" "b \<le> here e5" "b \<le> here e2 \<or> here e2 < a" for a b
    by (rule d(10)[OF seen_mono[OF v]]) (use h h' h6 that in auto)
  have "seen fn (case_nat (here e8) B) (case_nat (here e) C) e2 (here ?e1) (here e2)"
    by (rule seen_advanced[OF sb advanced_trans[OF later_advanced[OF j(1)] b(1)]]) (use h p(2) in simp_all)
  from expr_seen[OF expr_emitExpr(1)[OF assms(1)] e(1) p(1) this, of h]
  have c: "computes h fn (here e) (here e2) (nat (em_curStack e)) [] (\<lambda>ls w. one (eval h fn c ls w))"
    by (simp add: p(2,3))
  have "map lc_isForeach (em_loops e4) = map lc_isForeach (em_loops e5)" by (rule advanced_foreach[OF b(1), symmetric])
  then have "fits fn (case_nat (here e8) B) (case_nat (here e) C) (None # its) e4 e5"
    using sb[of "here e4" "here e5"] h d(12) f by (simp add: fits_seen)
  from b(5)[OF this] have body: "goes h fn (nat (em_curStack e)) (case_nat (here e8) B) (case_nat (here e) C) (None # its)
      (somes (None # its)) (somes (None # its)) (Suc (here e2)) (here e6) (mb fn (None # its))"
    using h h6 j(4) x(2) p(3) by simp
  have "opened e8 (here e2) OpJmpIfFalse 0 0"
    by (rule opened_later[OF open2 later_trans[OF d(13) later_trans[OF s(1) p8(1)]]])
  from aimed_patch[OF e(8) this] have i2: "instr_at fn (here e2) OpJmpIfFalse 0 0 (disp (here e2) (here e'))"
    using h h' h6 by (intro d(9)[OF _ v]) auto
  have "aimed e9 (here e6) OpJmp 0 0 (here e)"
    using h h6 by (intro aimed_later[OF aimed_patch[OF e(7) opened_emit[OF e(6) d(5)]] p9(1)]) auto
  from d(9)[OF this v] have i6: "instr_at fn (here e6) OpJmp 0 0 (disp (here e6) (here e))"
    using h h' h6 by simp
  show "goes h fn (nat (em_curStack e)) B C its (somes its) (somes its) (here e) (here e')
      (while_loop k h (eval h fn c) (mb fn (None # its)))"
    by (rule goes_while[OF c i2 body i6]) (use h' in simp_all)
qed

lemma does_do:
  assumes "plain c" "does None h kb mb"
  shows "does loc h (emitDoWhile kb (emitExpr c)) (\<lambda>fn its. do_loop k h (eval h fn c) (mb fn (None # its)))"
proof (rule doesI)
  fix e e'
  let ?e1 = "pushLoop False e"
  assume a: "emitDoWhile kb (emitExpr c) e = EOk e'" "wf_s e" "\<not> em_stmtCtx e"
  note p = push_step[OF a(2), where fe = False]
  obtain e2 e3 e4 e5 e6 e7 e8 where e: "kb ?e1 = EOk e2" "patch_all (lc_continuePCs (curLoop e2)) (here e2) e2 = EOk e3"
      "subexpr (emitExpr c) e3 = EOk e4" "emit OpJmpIfTrue 0 0 0 e4 = EOk e5" "popStack 1 e5 = EOk e6"
      "patchJump (here e4) (here e) e6 = EOk e7"
      "patch_all (lc_breakPCs (curLoop e7)) (here e7) e7 = EOk e8" "e' = popLoop e8"
    using a(1) p(2)
    by (auto simp: emitDoWhile_def at_pc_def op0_def act_def patch_continues_def patch_breaks_def e_then_EOk)
  have st: "\<not> em_stmtCtx ?e1" using a(3) p(4) by simp
  note b = does_step[OF assms(2) e(1) p(1) st at_loc_None]
  have l23: "later (set (lc_continuePCs (curLoop e2))) e2 e3" "here e3 = here e2" "em_curStack e3 = em_curStack e2"
    using patch_all_step[OF e(2), of 0 0 0] by blast+
  note w3 = later_wf[OF l23(1) b(2)]
  note x = expr_step[OF expr_emitExpr(1)[OF assms(1)] e(3) w3 refl]
  note w4 = later_wf[OF x(1) w3]
  note j = jump_pop_step[OF e(4,5) w4] and p7 = patch_step[OF e(6)]
  have X: "later {here e4} e3 e7"
    by (rule later_mono[OF later_trans[OF x(1) later_trans[OF j(1) p7(1)]]]) auto
  have h: "here e \<le> here e2" "here e2 \<le> here e4" "here e6 = Suc (here e4)" "here e7 = here e6"
    using advanced_here[OF b(1)] p(2) l23(2) later_here[OF x(1)] j(3) p7(2) by simp_all
  have nX: "\<forall>q\<in>{here e4}. q \<notin> holes e2 \<and> here e \<le> q"
    using wf_hole[OF b(2), of "here e4"] h by auto
  note d = loop_done[OF a(2) b(1,2) e(2) X nX e(7), folded e(8)]
  show "advanced e e' \<and> wf_s e' \<and> em_curStack e' = em_curStack e"
    using d(1,2,4) p7(3) j(4) x(2) l23(3) b(3) p(3) by simp
  fix fn B C "its"
  assume f: "fits fn B C its e e'"
  then have v: "seen fn B C e' (here e) (here e')" by (simp add: fits_seen)
  have h': "here e' = here e7" using d(3) by simp
  let ?B = "case_nat (here e7) B" and ?C = "case_nat (here e2) C"
  have "seen fn ?B ?C e2 (here ?e1) (here e2)"
    by (rule d(10)[OF seen_mono[OF v]]) (use h h' p(2) in auto)
  moreover have "map lc_isForeach (em_loops ?e1) = map lc_isForeach (em_loops e2)" by (rule advanced_foreach[OF b(1), symmetric])
  ultimately have "fits fn ?B ?C (None # its) ?e1 e2"
    using d(12) f by (simp add: fits_seen)
  from b(5)[OF this] have body: "goes h fn (nat (em_curStack e)) ?B ?C (None # its)
      (somes (None # its)) (somes (None # its)) (here e) (here e3) (mb fn (None # its))"
    using p(2,3) l23(2) by simp
  have "seen fn ?B ?C e7 (here e3) (here e4)"
    by (rule d(11)[OF seen_mono[OF v]]) (use h h' l23(2) in auto)
  then have "seen fn ?B ?C e4 (here e3) (here e4)"
    by (rule later_seen[OF later_trans[OF j(1) p7(1)]]) auto
  from expr_seen[OF expr_emitExpr(1)[OF assms(1)] e(3) w3 this, of h]
  have c: "computes h fn (here e3) (here e4) (nat (em_curStack e)) [] (\<lambda>ls w. one (eval h fn c ls w))"
    using l23(3) b(3) p(3) by simp
  have i4: "instr_at fn (here e4) OpJmpIfTrue 0 0 (disp (here e4) (here e))"
    using h h' by (intro d(9)[OF aimed_patch[OF e(6) j(5)] v]) auto
  have "goes h fn (nat (em_curStack e)) B C its (somes its) (somes its) (here e) (Suc (here e4))
      (do_loop k h (eval h fn c) (mb fn (None # its)))"
    by (rule goes_do[OF body c i4]) (use h l23(2) in simp_all)
  then show "goes h fn (nat (em_curStack e)) B C its (somes its) (somes its) (here e) (here e')
      (do_loop k h (eval h fn c) (mb fn (None # its)))"
    by (simp add: h h')
qed

section \<open>The parts of a \<open>for\<close>\<close>

lemma discards_step:
  assumes "\<forall>n\<in>set ns. plain n" "seq (map discard (map emitExpr ns)) e = EOk e'" "wf_s e"
  shows "later {} e e' \<and> em_curStack e' = em_curStack e
    \<and> (\<forall>fn B C B' C' its as. seen fn B C e' (here e) (here e') \<longrightarrow>
         goes h fn (nat (em_curStack e)) B' C' its as as (here e) (here e') (sem_drops h fn ns))"
  using assms
proof (induction ns arbitrary: e)
  case Nil
  have "sem_drops h fn [] = skip" for fn by (intro ext) simp
  then show ?case using Nil by (simp add: later_refl goes_skip)
next
  case (Cons n ns)
  then obtain e1 where e1: "discard (emitExpr n) e = EOk e1" "seq (map discard (map emitExpr ns)) e1 = EOk e'"
    by (auto simp: e_then_EOk)
  have n: "plain n" using Cons.prems(1) by simp
  note d = discard_step[OF n e1(1) Cons.prems(3)]
  have ns: "\<forall>n\<in>set ns. plain n" using Cons.prems(1) by simp
  note r = Cons.IH[OF ns e1(2) later_wf[OF d(1) Cons.prems(3)]]
  have l: "later {} e e'" using later_trans[OF d(1) conjunct1[OF r]] by simp
  have h: "here e \<le> here e1" "here e1 \<le> here e'" using later_here[OF d(1)] r later_here by blast+
  have g: "goes h fn (nat (em_curStack e)) B' C' its as as (here e) (here e') (sem_drops h fn (n # ns))"
    if s: "seen fn B C e' (here e) (here e')" for fn B C B' C' "its" as
  proof -
    have "seen fn B C e1 (here e) (here e1)"
      by (rule later_seen[OF conjunct1[OF r] seen_mono[OF s]]) (use h in simp_all)
    then have "computes h fn (here e) (here e1) (nat (em_curStack e)) [] (\<lambda>ls w. none (eval_drop h fn n ls w))"
      unfolding seen_def by (elim conjE) (rule d(3))
    moreover have "goes h fn (nat (em_curStack e)) B' C' its as as (here e1) (here e') (sem_drops h fn ns)"
      using r seen_mono[OF s h(1) le_refl] d(2) by metis
    moreover have "sem_drops h fn (n # ns) = (\<lambda>ls w. after (run_expr (eval_drop h fn n ls w)) (sem_drops h fn ns))"
      by (intro ext) simp
    ultimately show ?thesis using goes_after[OF goes_drop] by metis
  qed
  show ?case
    using l d(2) r by (intro conjI allI impI g) simp_all
qed

lemma conds_step:
  assumes "\<forall>c\<in>set cs. plain c" "emitConds (map emitExpr cs) k e = EOk e'" "wf_s e"
  obtains e1 oj where "k oj e1 = EOk e'" "later {} e e1" "em_curStack e1 = em_curStack e" "cs = [] \<longrightarrow> oj = None \<and> e1 = e"
    "cs \<noteq> [] \<longrightarrow> oj = Some (here e1 - 1) \<and> here e < here e1 \<and> opened e1 (here e1 - 1) OpJmpIfFalse 0 0"
    "\<forall>fn B C B' C' its as zs q r mt mf.
       (cs \<noteq> [] \<longrightarrow> seen fn B C e1 (here e) (here e1 - 1) \<and> instr_at fn (here e1 - 1) OpJmpIfFalse 0 0 (disp (here e1 - 1) q))
       \<longrightarrow> goes h fn (nat (em_curStack e)) B' C' its as zs (here e1) r mt
       \<longrightarrow> goes h fn (nat (em_curStack e)) B' C' its as zs q r mf
       \<longrightarrow> goes h fn (nat (em_curStack e)) B' C' its as zs (here e) r (sem_conds h fn cs mt mf)"
  using assms
proof (induction cs arbitrary: e thesis)
  case Nil
  have "sem_conds h fn [] mt mf = mt" for fn and mt mf :: "('a, 'b) act" by (intro ext) simp
  then show ?case using Nil by (intro Nil(1)[of None e]) (simp_all add: later_refl)
next
  case (Cons c cs)
  have c: "plain c" using Cons.prems(2) by simp
  note x = expr_step[OF expr_emitExpr(1)[OF c] _ Cons.prems(4) refl]
  show ?case
  proof (cases "cs = []")
    case True
    then obtain e2 e3 e1 where e: "subexpr (emitExpr c) e = EOk e2" "emit OpJmpIfFalse 0 0 0 e2 = EOk e3"
        "popStack 1 e3 = EOk e1" "k (Some (here e2)) e1 = EOk e'"
      using Cons.prems(3) by (auto simp: at_pc_def op0_def e_then_EOk)
    note x = x[OF e(1)]
    note j = jump_pop_step[OF e(2,3) later_wf[OF x(1) Cons.prems(4)]]
    have h: "here e \<le> here e2" by (rule later_here[OF x(1)])
    have g: "goes h fn (nat (em_curStack e)) B' C' its as zs (here e) r (sem_conds h fn (c # cs) mt mf)"
      if s: "seen fn B C e1 (here e) (here e1 - 1)" "instr_at fn (here e1 - 1) OpJmpIfFalse 0 0 (disp (here e1 - 1) q)"
        "goes h fn (nat (em_curStack e)) B' C' its as zs (here e1) r mt"
        "goes h fn (nat (em_curStack e)) B' C' its as zs q r mf" for fn B C B' C' "its" as zs q r mt mf
    proof -
      have "seen fn B C e2 (here e) (here e2)"
        by (rule later_seen[OF j(1)]) (use s(1) j(3) in simp_all)
      note v = expr_seen[OF expr_emitExpr(1)[OF c] e(1) Cons.prems(4) this, of h]
      have eq: "sem_conds h fn (c # cs) mt mf = (\<lambda>ls w. with_value (eval h fn c ls w)
          (\<lambda>v ls w. case truth h v w of (b, w) \<Rightarrow> if b then mt ls w else mf ls w))"
        by (intro ext) (simp add: True)
      show ?thesis
        unfolding eq by (rule goes_value[OF v takes_if]) (use s(2-4) j(3) in simp_all)
    qed
    show ?thesis
    proof (rule Cons.prems(1)[of "Some (here e2)" e1])
      show "later {} e e1" using later_trans[OF x(1) j(1)] by simp
    qed (use e(4) x(2) j h g in auto)
  next
    case False
    then obtain c' cs' where cs: "cs = c' # cs'" by (cases cs) simp_all
    obtain e2 e3 e4 where e: "subexpr (emitExpr c) e = EOk e2" "emit OpPop 0 0 0 e2 = EOk e3"
        "popStack 1 e3 = EOk e4" "emitConds (map emitExpr cs) k e4 = EOk e'"
      using Cons.prems(3) by (auto simp: cs op0_def e_then_EOk)
    note x = x[OF e(1)]
    note w2 = later_wf[OF x(1) Cons.prems(4)]
    note j = jump_pop_step[OF e(2,3) w2]
    have p: "\<forall>c\<in>set cs. plain c" using Cons.prems(2) by simp
    obtain e1 oj where r: "k oj e1 = EOk e'" "later {} e4 e1" "em_curStack e1 = em_curStack e4" "cs = [] \<longrightarrow> oj = None \<and> e1 = e4"
      "cs \<noteq> [] \<longrightarrow> oj = Some (here e1 - 1) \<and> here e4 < here e1 \<and> opened e1 (here e1 - 1) OpJmpIfFalse 0 0"
      "\<forall>fn B C B' C' its as zs q r mt mf.
       (cs \<noteq> [] \<longrightarrow> seen fn B C e1 (here e4) (here e1 - 1) \<and> instr_at fn (here e1 - 1) OpJmpIfFalse 0 0 (disp (here e1 - 1) q))
       \<longrightarrow> goes h fn (nat (em_curStack e4)) B' C' its as zs (here e1) r mt
       \<longrightarrow> goes h fn (nat (em_curStack e4)) B' C' its as zs q r mf
       \<longrightarrow> goes h fn (nat (em_curStack e4)) B' C' its as zs (here e4) r (sem_conds h fn cs mt mf)"
      by (rule Cons.IH[OF _ p e(4) j(2)])
    have h: "here e \<le> here e2" "here e4 = Suc (here e2)" "here e4 < here e1" "em_curStack e4 = em_curStack e"
      using later_here[OF x(1)] j(3,4) r(5) False x(2) by simp_all
    have l21: "later {} e2 e1" using later_trans[OF j(1) r(2)] by simp
    have g: "goes h fn (nat (em_curStack e)) B' C' its as zs (here e) r (sem_conds h fn (c # cs) mt mf)"
      if s: "seen fn B C e1 (here e) (here e1 - 1)" "instr_at fn (here e1 - 1) OpJmpIfFalse 0 0 (disp (here e1 - 1) q)"
        "goes h fn (nat (em_curStack e)) B' C' its as zs (here e1) r mt"
        "goes h fn (nat (em_curStack e)) B' C' its as zs q r mf" for fn B C B' C' "its" as zs q r mt mf
    proof -
      have "seen fn B C e2 (here e) (here e2)"
        by (rule later_seen[OF l21 seen_mono[OF s(1)]]) (use h in simp_all)
      note v = expr_seen[OF expr_emitExpr(1)[OF c] e(1) Cons.prems(4) this, of h]
      have "placed fn B C e1 (here e2)" using s(1) h by (simp add: seen_def placed_in_def)
      then have pop: "instr_at fn (here e2) OpPop 0 0 (sint (0 :: 32 word))"
        using later_trans[OF pop_step(1)[OF e(3)] r(2)] by (intro emit_instr[OF e(2) w2, of "{}" e1 fn B C]) simp_all
      have "seen fn B C e1 (here e4) (here e1 - 1)" by (rule seen_mono[OF s(1)]) (use h in simp_all)
      then have "goes h fn (nat (em_curStack e)) B' C' its as zs (Suc (here e2)) r (sem_conds h fn cs mt mf)"
        using r(6) s(2-4) h by metis
      note rest = this
      have eq: "sem_conds h fn (c # cs) mt mf = (\<lambda>ls w. with_value (eval h fn c ls w) (\<lambda>v. sem_conds h fn cs mt mf))"
        by (intro ext) (simp add: cs)
      show ?thesis unfolding eq by (rule goes_value[OF v takes_pop[OF pop rest]])
    qed
    show ?thesis
    proof (rule Cons.prems(1)[of oj e1])
      show "later {} e e1" using later_trans[OF x(1) l21] by simp
    qed (use r False h g in auto)
  qed
qed

definition patch_exit :: "nat option \<Rightarrow> nat \<Rightarrow> emitter \<Rightarrow> emitted" where
  "patch_exit oj t = (case oj of None \<Rightarrow> EOk | Some j \<Rightarrow> patchJump j t)"

lemma patch_exit_step:
  assumes "patch_exit oj t e = EOk e'"
  shows "later (set_option oj) e e'" "here e' = here e" "em_curStack e' = em_curStack e"
    and "oj = Some j \<Longrightarrow> opened e j opc a b \<Longrightarrow> aimed e' j opc a b t"
proof -
  have "later (set_option oj) e e' \<and> here e' = here e \<and> em_curStack e' = em_curStack e"
  proof (cases oj)
    case None
    then show ?thesis using assms by (simp add: patch_exit_def later_refl)
  next
    case (Some i)
    then have "patchJump i t e = EOk e'" using assms by (simp add: patch_exit_def)
    from patch_step(1-3)[OF this] show ?thesis by (simp add: Some)
  qed
  then show "later (set_option oj) e e'" "here e' = here e" "em_curStack e' = em_curStack e" by simp_all
  assume "oj = Some j" "opened e j opc a b"
  then show "aimed e' j opc a b t" using assms aimed_patch by (simp add: patch_exit_def)
qed

lemma emitFor_parts:
  "emitFor ks cs ss kb e =
     e_then (seq (map discard ks) e) (\<lambda>ea. e_then
       (emitConds cs (\<lambda>oj. seq [kb, at_pc patch_continues, seq (map discard ss), jump_back (here ea),
            at_pc (\<lambda>exit. seq [patch_exit oj exit, patch_breaks exit])]) (pushLoop False ea))
       (\<lambda>er. EOk (popLoop er)))"
proof -
  have h: "here (pushLoop False ea) = here ea" for ea by (simp add: pushLoop_def here_def)
  show ?thesis
    unfolding emitFor_def patch_exit_def seq.simps at_pc_def[of "\<lambda>loopHead. emitConds cs (f loopHead)" for f]
    by (simp only: act_def e_then_def emitted.case h)
qed

lemma does_for:
  assumes start: "\<forall>n\<in>set st. plain n" and conds: "\<forall>n\<in>set cs. plain n" and steps: "\<forall>n\<in>set step. plain n"
    and body: "does None h kb mb"
  shows "does loc h (emitFor (map emitExpr st) (map emitExpr cs) (map emitExpr step) kb)
    (\<lambda>fn its ls w. after (sem_drops h fn st ls w) (for_loop k h fn cs step (mb fn (None # its))))"
proof (rule doesI)
  fix e e'
  assume a: "emitFor (map emitExpr st) (map emitExpr cs) (map emitExpr step) kb e = EOk e'" "wf_s e" "\<not> em_stmtCtx e"
  obtain ea er where e0: "seq (map discard (map emitExpr st)) e = EOk ea"
      "emitConds (map emitExpr cs) (\<lambda>exitJmp. seq
           [kb, at_pc patch_continues, seq (map discard (map emitExpr step)), jump_back (here ea),
            at_pc (\<lambda>exit. seq [patch_exit exitJmp exit, patch_breaks exit])]) (pushLoop False ea) = EOk er" "e' = popLoop er"
    using a(1) unfolding emitFor_parts e_then_EOk by blast
  have ds: "later {} e ea" "em_curStack ea = em_curStack e"
      "\<And>fn B C B' C' its as. seen fn B C ea (here e) (here ea) \<Longrightarrow>
         goes h fn (nat (em_curStack e)) B' C' its as as (here e) (here ea) (sem_drops h fn st)"
    using discards_step[OF start e0(1) a(2), of h] by blast+
  note wa = later_wf[OF ds(1) a(2)]
  let ?eb = "pushLoop False ea"
  note p = push_step[OF wa, where fe = False]
  obtain e1 oj where e1: "seq [kb, at_pc patch_continues, seq (map discard (map emitExpr step)), jump_back (here ea),
            at_pc (\<lambda>exit. seq [patch_exit oj exit, patch_breaks exit])] e1 = EOk er"
      and l1: "later {} ?eb e1" "em_curStack e1 = em_curStack ?eb" and c0: "cs = [] \<longrightarrow> oj = None \<and> e1 = ?eb"
      and c1: "cs \<noteq> [] \<longrightarrow> oj = Some (here e1 - 1) \<and> here ?eb < here e1 \<and> opened e1 (here e1 - 1) OpJmpIfFalse 0 0"
      and c2: "\<forall>fn B C B' C' its as zs q r mt mf.
       (cs \<noteq> [] \<longrightarrow> seen fn B C e1 (here ?eb) (here e1 - 1) \<and> instr_at fn (here e1 - 1) OpJmpIfFalse 0 0 (disp (here e1 - 1) q))
       \<longrightarrow> goes h fn (nat (em_curStack ?eb)) B' C' its as zs (here e1) r mt
       \<longrightarrow> goes h fn (nat (em_curStack ?eb)) B' C' its as zs q r mf
       \<longrightarrow> goes h fn (nat (em_curStack ?eb)) B' C' its as zs (here ?eb) r (sem_conds h fn cs mt mf)"
    by (rule conds_step[OF conds e0(2) p(1), of h])
  obtain e2 e3 e4 e5 e6 e7 where e: "kb e1 = EOk e2" "patch_all (lc_continuePCs (curLoop e2)) (here e2) e2 = EOk e3"
      "seq (map discard (map emitExpr step)) e3 = EOk e4" "emit OpJmp 0 0 0 e4 = EOk e5"
      "patchJump (here e4) (here ea) e5 = EOk e6" "patch_exit oj (here e6) e6 = EOk e7"
      "patch_all (lc_breakPCs (curLoop e7)) (here e6) e7 = EOk er"
    using e1 by (auto simp: at_pc_def op0_def jump_back_def patch_continues_def patch_breaks_def e_then_EOk)
  have st1: "wf_s e1" "\<not> em_stmtCtx e1"
    using later_wf[OF l1(1) p(1)] l1(1) p(4) ds(1) a(3) by (simp_all add: later_def)
  note b = does_step[OF body e(1) st1 at_loc_None]
  have l23: "later (set (lc_continuePCs (curLoop e2))) e2 e3" "here e3 = here e2" "em_curStack e3 = em_curStack e2"
    using patch_all_step[OF e(2), of 0 0 0] by blast+
  note w3 = later_wf[OF l23(1) b(2)]
  have dt: "later {} e3 e4" "em_curStack e4 = em_curStack e3"
      "\<And>fn B C B' C' its as. seen fn B C e4 (here e3) (here e4) \<Longrightarrow>
         goes h fn (nat (em_curStack e3)) B' C' its as as (here e3) (here e4) (sem_drops h fn step)"
    using discards_step[OF steps e(3) w3, of h] by blast+
  note w4 = later_wf[OF dt(1) w3]
  note s = emit_step[OF e(4)] and p6 = patch_step[OF e(5)] and p7 = patch_exit_step[OF e(6)]
  have l47: "later (insert (here e4) (set_option oj)) e4 e7"
    by (rule later_mono[OF later_trans[OF s(1) later_trans[OF p6(1) p7(1)]]]) auto
  have X: "later (insert (here e4) (set_option oj)) e3 e7"
    by (rule later_mono[OF later_trans[OF dt(1) l47]]) auto
  have h: "here ea \<le> here e1" "here e1 \<le> here e2" "here e3 \<le> here e4" "here e7 = Suc (here e4)" "here e6 = Suc (here e4)"
    using later_here[OF l1(1)] p(2) advanced_here[OF b(1)] later_here[OF dt(1)] p7(2) p6(2) s(2) by simp_all
  have oj: "fresh e2 j \<and> here ea \<le> j \<and> Suc j = here e1 \<and> opened e1 j OpJmpIfFalse 0 0" if "oj = Some j" for j
    using c0 c1 that p(2) fresh_advanced[OF _ b(1), of j] by (cases "cs = []") (auto simp: opened_def)
  have nX: "\<forall>q\<in>insert (here e4) (set_option oj). q \<notin> holes e2 \<and> here ea \<le> q"
    using oj wf_hole[OF b(2), of "here e4"] h l23(2) by (auto simp: fresh_def)
  have a2: "advanced ?eb e2" by (rule advanced_trans[OF later_advanced[OF l1(1)] b(1)])
  note d = loop_done[OF wa a2 b(2) e(2) X nX e(7), folded e0(3)]
  have cur: "em_curStack e7 = em_curStack e" "em_curStack e3 = em_curStack e" "em_curStack e1 = em_curStack e"
    using p7(3) p6(3) s(3) dt(2) l23(3) b(3) l1(2) p(3) ds(2) by simp_all
  show "advanced e e' \<and> wf_s e' \<and> em_curStack e' = em_curStack e"
    using advanced_trans[OF later_advanced[OF ds(1)] d(1)] d(2,4) cur by simp
  fix fn B C "its"
  assume f: "fits fn B C its e e'"
  then have v: "seen fn B C e' (here e) (here e')" by (simp add: fits_seen)
  have he: "here e \<le> here ea" "here e' = here e7" using later_here[OF ds(1)] d(3) by simp_all
  have "seen fn B C ea (here e) (here ea)"
    by (rule seen_advanced[OF seen_mono[OF v] d(1)]) (use h he l23(2) in simp_all)
  note m0 = ds(3)[OF this]
  let ?B = "case_nat (here e6) B" and ?C = "case_nat (here e2) C"
  have sb: "seen fn ?B ?C e2 a b" if "here ea \<le> a" "b \<le> here e2" "\<And>j. oj = Some j \<Longrightarrow> b \<le> j \<or> j < a" for a b
    by (rule d(10)[OF seen_mono[OF v]]) (use h he l23(2) that in auto)
  have "map lc_isForeach (em_loops e1) = map lc_isForeach (em_loops e2)" by (rule advanced_foreach[OF b(1), symmetric])
  moreover have "map lc_isForeach (em_loops ea) = map lc_isForeach (em_loops e)" using ds(1) by (simp add: later_def)
  moreover have "seen fn ?B ?C e2 (here e1) (here e2)"
    by (rule sb) (use h in simp_all, use oj in fastforce)
  ultimately have "fits fn ?B ?C (None # its) e1 e2"
    using d(12) f by (simp add: fits_seen)
  from b(5)[OF this] have mbody: "goes h fn (nat (em_curStack e)) ?B ?C (None # its)
      (somes (None # its)) (somes (None # its)) (here e1) (here e3) (mb fn (None # its))"
    using l23(2) cur by simp
  have "seen fn ?B ?C e7 (here e3) (here e4)"
    by (rule d(11)[OF seen_mono[OF v]]) (use h he l23(2) in auto)
  then have "seen fn ?B ?C e4 (here e3) (here e4)"
    by (rule later_seen[OF l47]) (use oj h l23(2) in fastforce)+
  from dt(3)[OF this] have mstep: "goes h fn (nat (em_curStack e)) B C its (somes its) (somes its) (here e3) (here e4) (sem_drops h fn step)"
    using cur by simp
  have "aimed e7 (here e4) OpJmp 0 0 (here ea)"
    by (rule aimed_later[OF aimed_patch[OF e(5) opened_emit[OF e(4) w4]] p7(1)]) (use oj h l23(2) in fastforce)
  from d(9)[OF this v] have jmp: "instr_at fn (here e4) OpJmp 0 0 (disp (here e4) (here ea))"
    using h he l23(2) by simp
  have mconds: "goes h fn (nat (em_curStack e)) B C its (somes its) (somes its) (here ea) (here e6) (sem_conds h fn cs mt mf)"
    if mt: "goes h fn (nat (em_curStack e)) B C its (somes its) (somes its) (here e1) (here e6) mt"
      and mf: "goes h fn (nat (em_curStack e)) B C its (somes its) (somes its) (here e6) (here e6) mf" for mt mf
  proof -
    have "seen fn ?B ?C e1 (here ?eb) (here e1 - 1) \<and> instr_at fn (here e1 - 1) OpJmpIfFalse 0 0 (disp (here e1 - 1) (here e6))"
      if "cs \<noteq> []"
    proof
      have j: "oj = Some (here e1 - 1)" using c1 that by blast
      have "seen fn ?B ?C e2 (here ea) (here e1 - 1)"
        by (rule sb) (use h j in simp_all)
      then show "seen fn ?B ?C e1 (here ?eb) (here e1 - 1)"
        using p(2) by (intro seen_advanced[OF _ b(1)]) simp_all
      have "opened e6 (here e1 - 1) OpJmpIfFalse 0 0"
        using oj[OF j] by (intro opened_later[OF opened_advanced[OF _ b(1)]
            later_trans[OF l23(1) later_trans[OF dt(1) later_trans[OF s(1) p6(1)]]]]) simp
      from d(9)[OF p7(4)[OF j this] v]
      show "instr_at fn (here e1 - 1) OpJmpIfFalse 0 0 (disp (here e1 - 1) (here e6))"
        using oj[OF j] h he l23(2) by simp
    qed
    then show ?thesis using c2 mt mf cur l1(2) p(2) by metis
  qed
  have "goes h fn (nat (em_curStack e)) B C its (somes its) (somes its) (here ea) (here e6)
      (for_loop k h fn cs step (mb fn (None # its)))"
    by (rule goes_for[OF mconds mbody mstep jmp]) (use l23(2) in simp_all)
  from goes_after[OF m0 this]
  show "goes h fn (nat (em_curStack e)) B C its (somes its) (somes its) (here e) (here e')
      (\<lambda>ls w. after (sem_drops h fn st ls w) (for_loop k h fn cs step (mb fn (None # its))))"
    using h he by simp
qed

section \<open>The parts of a \<open>foreach\<close>\<close>

definition foreach_rest :: "16 word \<Rightarrow> 16 word \<Rightarrow> (emitter \<Rightarrow> emitted) \<Rightarrow> emitter \<Rightarrow> emitted" where
  "foreach_rest vi ki kb =
     at_pc (\<lambda>initPC. seq [op0 OpForeachInit, popStack 1, act (pushLoop True),
       at_pc (\<lambda>loopHead. seq [emit OpForeachStep vi ki 0, kb, at_pc patch_continues,
         op0 OpForeachAdvance, jump_back loopHead,
         at_pc (\<lambda>unwindStart. seq [patchJump loopHead unwindStart, patch_breaks unwindStart]),
         op0 OpForeachUnwind]),
       at_pc (patchJump initPC), act popLoop])"

lemma emit_popLoop: "emit opc a b c e = EOk e' \<Longrightarrow> emit opc a b c (popLoop e) = EOk (popLoop e')"
  by (auto simp: emit_EOk popLoop_def)

lemma patch_popLoop: "patchJump j t e = EOk e' \<Longrightarrow> patchJump j t (popLoop e) = EOk (popLoop e')"
  by (auto simp: patchJump_def Let_def popLoop_def here_def split: if_splits option.splits)

lemma foreach_step:
  assumes body: "does None h kb mb"
    and a: "foreach_rest vi ki kb e = EOk e'" "wf_s e" "\<not> em_stmtCtx e" "at_loc (Some l) e" "1 \<le> em_curStack e"
  shows "advanced e e'" "wf_s e'" "em_curStack e' = em_curStack e - 1"
    and "fits fn B C its e e' \<Longrightarrow> unat vi < length (fn_Locals fn) \<Longrightarrow> key_is ki kx fn \<Longrightarrow>
      takes h fn (nat (em_curStack e - 1)) B C its (somes its) (somes its) (here e) (here e')
        (\<lambda>c ls w. with_value (of_iter (h_foreachInit h c w) ls) (\<lambda>it ls w. case it of
            None \<Rightarrow> skip ls (h_foreachWarn h c l w)
          | Some it \<Rightarrow> foreach_loop k h fn it (unat vi) kx (mb fn (Some it # its)) ls w))"
proof -
  obtain e2 e3 e5 e6 e7 e8 e9 e10 e11 e12 e13 e14 where e: "emit OpForeachInit 0 0 0 e = EOk e2" "popStack 1 e2 = EOk e3"
      "emit OpForeachStep vi ki 0 (pushLoop True e3) = EOk e5" "kb e5 = EOk e6"
      "patch_all (lc_continuePCs (curLoop e6)) (here e6) e6 = EOk e7" "emit OpForeachAdvance 0 0 0 e7 = EOk e8"
      "emit OpJmp 0 0 0 e8 = EOk e9" "patchJump (here e8) (here (pushLoop True e3)) e9 = EOk e10"
      "patchJump (here (pushLoop True e3)) (here e10) e10 = EOk e11"
      "patch_all (lc_breakPCs (curLoop e11)) (here e10) e11 = EOk e12"
      "emit OpForeachUnwind 0 0 0 e12 = EOk e13" "patchJump (here e) (here e13) e13 = EOk e14" "e' = popLoop e14"
    using a(1) unfolding foreach_rest_def
    by (auto simp: at_pc_def op0_def act_def jump_back_def patch_continues_def patch_breaks_def e_then_EOk)
  note j = jump_pop_step[OF e(1,2) a(2)]
  let ?e4 = "pushLoop True e3"
  note p = push_step[OF j(2), where fe = True]
  note s5 = emit_step[OF e(3)[unfolded p(2)]]
  note w5 = later_wf[OF s5(1) p(1)]
  have st: "\<not> em_stmtCtx e5" using s5(1) p(4) j(6) a(3) by (simp add: later_def)
  note b = does_step[OF body e(4) w5 st at_loc_None]
  have l67: "later (set (lc_continuePCs (curLoop e6))) e6 e7" "here e7 = here e6" "em_curStack e7 = em_curStack e6"
    using patch_all_step[OF e(5), of 0 0 0] by blast+
  note w7 = later_wf[OF l67(1) b(2)]
  note s8 = emit_step[OF e(6)] and s9 = emit_step[OF e(7)]
    and p10 = patch_step[OF e(8)[unfolded p(2)]] and p11 = patch_step[OF e(9)[unfolded p(2)]]
  note w8 = later_wf[OF s8(1) w7]
  have h: "here e3 = Suc (here e)" "here e5 = Suc (here e3)" "here e5 \<le> here e6" "here e8 = Suc (here e6)"
      "here e9 = Suc (here e8)" "here e10 = here e9" "here e11 = here e9"
    using j(3) s5(2) p(2) advanced_here[OF b(1)] s8(2) l67(2) s9(2) p10(2) p11(2) by simp_all
  have X: "later {here e8, here e3} e7 e11"
    by (rule later_mono[OF later_trans[OF s8(1) later_trans[OF s9(1) later_trans[OF p10(1) p11(1)]]]]) auto
  have open5: "opened e5 (here e3) OpForeachStep vi ki" using opened_emit[OF e(3) p(1)] p(2) by simp
  have nX: "\<forall>q\<in>{here e8, here e3}. q \<notin> holes e6 \<and> here e3 \<le> q"
    using opened_advanced[OF open5 b(1)] wf_hole[OF b(2), of "here e8"] h by (auto simp: opened_def fresh_def)
  have a6: "advanced ?e4 e6" by (rule advanced_trans[OF later_advanced[OF s5(1)] b(1)])
  note d = loop_done[OF j(2) a6 b(2) e(5) X nX e(10)]
  let ?q = "popLoop e12"
  have eu: "emit OpForeachUnwind 0 0 0 ?q = EOk (popLoop e13)" by (rule emit_popLoop[OF e(11)])
  have h13: "here (popLoop e13) = here e13" by (simp add: popLoop_def here_def)
  have ei: "patchJump (here e) (here (popLoop e13)) (popLoop e13) = EOk e'"
    unfolding h13 e(13) by (rule patch_popLoop[OF e(12)])
  note s13 = emit_step[OF eu] and p14 = patch_step[OF ei]
  note w13 = later_wf[OF s13(1) d(2)]
  have hq: "here ?q = here e9" "here (popLoop e13) = Suc (here e9)" "here e' = Suc (here e9)"
    using d(3) h s13(2) p14(2) by simp_all
  have a13: "advanced e3 (popLoop e13)" by (rule advanced_trans[OF d(1) later_advanced[OF s13(1)]])
  have a14: "advanced e (popLoop e13)" by (rule advanced_trans[OF later_advanced[OF j(1)] a13])
  show "advanced e e'" by (rule advanced_later[OF a14 p14(1)]) simp
  show "wf_s e'" by (rule later_wf[OF p14(1) w13])
  show "em_curStack e' = em_curStack e - 1"
    using p14(3) s13(3) d(4) p11(3) p10(3) s9(3) s8(3) l67(3) b(3) s5(3) p(3) j(4) by simp
  assume f: "fits fn B C its e e'" and vi: "unat vi < length (fn_Locals fn)" and ki: "key_is ki kx fn"
  then have v: "seen fn B C e' (here e) (here e')" by (simp add: fits_seen)
  have v13: "seen fn B C (popLoop e13) (here e3) (here e')"
    by (rule later_seen[OF p14(1) seen_mono[OF v]]) (use h hq in simp_all)
  have vq: "seen fn B C ?q (here e3) (here e9)"
    by (rule later_seen[OF s13(1) seen_mono[OF v13]]) (use hq in simp_all)
  have "placed fn B C (popLoop e13) (here ?q)" using v13 hq h by (auto simp: seen_def placed_in_def)
  from emit_instr[OF eu d(2) later_refl[of "{}"] _ this]
  have unwind: "instr_at fn (here e9) OpForeachUnwind 0 0 0" by (simp add: hq(1))
  have "aimed e11 (here e3) OpForeachStep vi ki (here e10)"
    using aimed_patch[OF e(9)[unfolded p(2)]] opened_later[OF opened_advanced[OF open5 b(1)]
        later_trans[OF l67(1) later_trans[OF s8(1) later_trans[OF s9(1) p10(1)]]]] by blast
  from d(9)[OF this vq] have step: "instr_at fn (here e3) OpForeachStep vi ki (disp (here e3) (here e9))"
    using h by simp
  have "aimed e11 (here e8) OpJmp 0 0 (here e3)"
    using h by (intro aimed_later[OF aimed_patch[OF e(8)[unfolded p(2)] opened_emit[OF e(7) w8]] p11(1)]) simp
  from d(9)[OF this vq] have jmp: "instr_at fn (here e8) OpJmp 0 0 (disp (here e8) (here e3))"
    using h by simp
  let ?B = "case_nat (here e10) B" and ?C = "case_nat (here e6) C"
  have v11: "seen fn ?B ?C e11 (here e6) (here e9)"
    by (rule d(11)[OF seen_mono[OF vq]]) (use h in auto)
  have "later {here e8, here e3} e8 e11"
    by (rule later_mono[OF later_trans[OF s9(1) later_trans[OF p10(1) p11(1)]]]) auto
  from emit_instr[OF e(6) w7 this, of fn ?B ?C] v11
  have advance: "instr_at fn (here e6) OpForeachAdvance 0 0 0"
    using h l67(2) by (simp add: seen_def placed_in_def)
  have bodies: "goes h fn (nat (em_curStack e - 1)) ?B ?C (Some it # its) (somes (Some it # its)) (somes (Some it # its))
      (Suc (here e3)) (here e6) (mb fn (Some it # its))" for it
  proof -
    have "seen fn ?B ?C e6 (here e5) (here e6)"
      by (rule d(10)[OF seen_mono[OF vq]]) (use h in auto)
    moreover have "map lc_isForeach (em_loops e5) = map lc_isForeach (em_loops e6)" by (rule advanced_foreach[OF b(1), symmetric])
    moreover have "map lc_isForeach (em_loops e3) = map lc_isForeach (em_loops e)" using j(1) by (simp add: later_def)
    ultimately have "fits fn ?B ?C (Some it # its) e5 e6" using d(12) f by (simp add: fits_seen)
    from b(5)[OF this] show ?thesis using h s5(3) p(3) j(4) by simp
  qed
  have loop: "goes h fn (nat (em_curStack e - 1)) B C its (it # somes its) (somes its) (Suc (here e)) (here e')
      (foreach_loop k h fn it (unat vi) kx (mb fn (Some it # its)))" for it
    using goes_foreach[OF step vi ki bodies[of it] advance _ unwind, of B C k] jmp h hq by simp
  have "aimed e' (here e) OpForeachInit 0 0 (here (popLoop e13))"
    by (rule aimed_patch[OF ei opened_advanced[OF j(5) a13]])
  from aimed_seen[OF this v] have init: "instr_at fn (here e) OpForeachInit 0 0 (disp (here e) (here e'))"
    using hq h by simp
  have "tabled fn (popLoop e13)" using v13 by (simp add: seen_def)
  then have t3: "tabled fn e3" by (rule tabled_advanced[OF a13])
  have "at_loc (Some l) e3" using at_loc_later[OF j(1)] a(4) by simp
  from located[OF j(2) t3 this j(3)] have loc: "LocAt fn (int (here e)) = l" .
  show "takes h fn (nat (em_curStack e - 1)) B C its (somes its) (somes its) (here e) (here e')
      (\<lambda>c ls w. with_value (of_iter (h_foreachInit h c w) ls) (\<lambda>it ls w. case it of
          None \<Rightarrow> skip ls (h_foreachWarn h c l w)
        | Some it \<Rightarrow> foreach_loop k h fn it (unat vi) kx (mb fn (Some it # its)) ls w))"
    by (rule takes_foreach_init[OF init loc loop])
qed

end
