(* ===== verification/VmSound.thy ===== *)
theory VmSound
  imports VmLoops
begin

text \<open>The code of every statement without \<open>switch\<close> and \<open>try\<close> does what the statement means, and a
  compiled body runs as the body means.\<close>

section \<open>The loop over an array\<close>

lemma key_step:
  assumes "(case key of None \<Rightarrow> (\<lambda>k. k 0xFFFF) | Some x \<Rightarrow> with_local x) k e = EOk e'" "wf_s e"
  obtains i e0 where "k i e0 = EOk e'" "later {} e e0" "here e0 = here e" "em_curStack e0 = em_curStack e"
    "\<And>fn. tabled fn e0 \<Longrightarrow> key_is i (map_option (slot fn) key) fn"
proof (cases key)
  case None
  then show thesis using assms by (intro that[of "0xFFFF" e]) (simp_all add: later_refl key_is_def)
next
  case (Some x)
  obtain i e0 where l: "localIndex x e = (i, e0)" by (rule prod.exhaust)
  note s = local_step[OF l assms(2)]
  have "key_is i (map_option (slot fn) key) fn" if "tabled fn e0" for fn
  proof -
    have i: "unat i < length (fn_Locals fn)" "unat i = slot fn x" using s(4)[OF that] by (simp_all add: slot_is_def)
    then have "unat i < 65535" using that by (simp add: tabled_def)
    then have "i \<noteq> 0xFFFF" by auto
    then show ?thesis using i by (simp add: key_is_def Some)
  qed
  then show thesis using assms(1) s(1-3) l by (intro that[of i e0]) (simp_all add: Some with_local_def)
qed

lemma emitForeach_parts:
  "emitForeach ks key value kb =
     with_local value (\<lambda>vi. (case key of None \<Rightarrow> (\<lambda>k. k 0xFFFF) | Some x \<Rightarrow> with_local x)
       (\<lambda>ki e. e_then (subexpr ks e) (foreach_rest vi ki kb)))"
  by (simp only: emitForeach_def foreach_rest_def seq_pair[of "subexpr ks"])

lemma does_foreach:
  assumes "plain src" "does None h kb mb"
  shows "does (Some l) h (emitForeach (emitExpr src) key value kb)
    (\<lambda>fn its ls w. with_value (eval h fn src ls w) (\<lambda>c ls w. with_value (of_iter (h_foreachInit h c w) ls) (\<lambda>it ls w. case it of
        None \<Rightarrow> skip ls (h_foreachWarn h c l w)
      | Some it \<Rightarrow> foreach_loop k h fn it (slot fn value) (map_option (slot fn) key) (mb fn (Some it # its)) ls w)))"
proof (rule doesI)
  fix e e'
  assume a: "emitForeach (emitExpr src) key value kb e = EOk e'" "wf_s e" "\<not> em_stmtCtx e" "at_loc (Some l) e"
  obtain vi ea where v: "localIndex value e = (vi, ea)" by (rule prod.exhaust)
  note sv = local_step[OF v a(2)]
  have k: "(case key of None \<Rightarrow> (\<lambda>k. k 0xFFFF) | Some x \<Rightarrow> with_local x)
      (\<lambda>ki e. e_then (subexpr (emitExpr src) e) (foreach_rest vi ki kb)) ea = EOk e'"
    using a(1) v unfolding emitForeach_parts by (simp add: with_local_def[of "value"])
  note wa = later_wf[OF sv(1) a(2)]
  obtain ki eb where kb: "e_then (subexpr (emitExpr src) eb) (foreach_rest vi ki kb) = EOk e'"
      and sk: "later {} ea eb" "here eb = here ea" "em_curStack eb = em_curStack ea"
      and ki: "\<And>fn. tabled fn eb \<Longrightarrow> key_is ki (map_option (slot fn) key) fn"
    by (rule key_step[OF k wa]) (rule that)
  note wb = later_wf[OF sk(1) wa]
  obtain e1 where e1: "subexpr (emitExpr src) eb = EOk e1" "foreach_rest vi ki kb e1 = EOk e'"
    using kb by (auto simp: e_then_EOk)
  note x = expr_step[OF expr_emitExpr(1)[OF assms(1)] e1(1) wb refl]
  have lb: "later {} e eb" using later_trans[OF sv(1) sk(1)] by simp
  have l1: "later {} e e1" using later_trans[OF lb x(1)] by simp
  have w1: "wf_s e1" "\<not> em_stmtCtx e1" "at_loc (Some l) e1" "1 \<le> em_curStack e1"
    using later_wf[OF l1 a(2)] l1 a(2-4) at_loc_later[OF l1] x(2) sk(3) sv(3)
    by (auto simp: later_def wf_s_def wf_em_def)
  note r = foreach_step[OF assms(2) e1(2) w1]
  have c: "em_curStack e1 = em_curStack e + 1" using x(2) sk(3) sv(3) by simp
  have a1: "advanced e e1" by (rule later_advanced[OF l1])
  show "advanced e e' \<and> wf_s e' \<and> em_curStack e' = em_curStack e"
    using advanced_trans[OF a1 r(1)] r(2,3) c by simp
  fix fn B C "its"
  assume f: "fits fn B C its e e'"
  note ff = fits_split[OF f a1 r(1)]
  have t1: "tabled fn e1" using ff(1) by (simp add: fits_def)
  have tb: "tabled fn eb" by (rule tabled_later[OF x(1) t1])
  have "slot_is vi value fn" by (rule sv(4)[OF tabled_later[OF sk(1) tb]])
  then have vi: "unat vi < length (fn_Locals fn)" "unat vi = slot fn value" by (simp_all add: slot_is_def)
  have he: "here eb = here e" using sk(2) sv(2) by simp
  have "seen fn B C e1 (here eb) (here e1)" using ff(1) he by (simp add: fits_seen)
  from expr_seen[OF expr_emitExpr(1)[OF assms(1)] e1(1) wb this, of h]
  have "computes h fn (here e) (here e1) (nat (em_curStack e)) [] (\<lambda>ls w. one (eval h fn src ls w))"
    using he sk(3) sv(3) by simp
  moreover have "nat (em_curStack e1 - 1) = nat (em_curStack e)" using c by simp
  moreover note r(4)[OF ff(2) vi(1) ki[OF tb], of k]
  ultimately show "goes h fn (nat (em_curStack e)) B C its (somes its) (somes its) (here e) (here e')
     (\<lambda>ls w. with_value (eval h fn src ls w) (\<lambda>c ls w. with_value (of_iter (h_foreachInit h c w) ls) (\<lambda>it ls w. case it of
        None \<Rightarrow> skip ls (h_foreachWarn h c l w)
      | Some it \<Rightarrow> foreach_loop k h fn it (slot fn value) (map_option (slot fn) key) (mb fn (Some it # its)) ls w)))"
    unfolding vi(2) by (intro goes_value) simp_all
qed

section \<open>Statements\<close>

text \<open>The statements whose code is right: with a location, without \<open>switch\<close> and \<open>try\<close>, and of expressions
  whose code is.\<close>

fun sound :: "(node \<Rightarrow> nat option) \<Rightarrow> node \<Rightarrow> bool" and sound_opt :: "(node \<Rightarrow> nat option) \<Rightarrow> node option \<Rightarrow> bool"
  and sounds :: "(node \<Rightarrow> nat option) \<Rightarrow> node list \<Rightarrow> bool" where
  "sound lo (Runnables ns) = sounds lo ns"
| "sound lo (SwitchNode c bs) = False"
| "sound lo (TryNode b cs fin) = False"
| "sound lo (IfNode c y n short) = (lo (IfNode c y n short) \<noteq> None \<and> plain c \<and> sound_opt lo y \<and> sound_opt lo n)"
| "sound lo (WhileNode c b) = (lo (WhileNode c b) \<noteq> None \<and> plain c \<and> sound_opt lo b)"
| "sound lo (DoWhileNode b c) = (lo (DoWhileNode b c) \<noteq> None \<and> plain c \<and> sound_opt lo b)"
| "sound lo (ForNode st cs step b) =
     (lo (ForNode st cs step b) \<noteq> None \<and> plains st \<and> plains cs \<and> plains step \<and> sound_opt lo b)"
| "sound lo (ForeachNode src key v b) = (lo (ForeachNode src key v b) \<noteq> None \<and> plain src \<and> sound_opt lo b)"
| "sound lo (ReturnNode v) = (lo (ReturnNode v) \<noteq> None \<and> plain_opt v)"
| "sound lo (ThrowNode v) = (lo (ThrowNode v) \<noteq> None \<and> plain v)"
| "sound lo n = (lo n \<noteq> None \<and> plain n)"
| "sound_opt lo None = True"
| "sound_opt lo (Some n) = sound lo n"
| "sounds lo [] = True"
| "sounds lo (n # ns) = (sound lo n \<and> sounds lo ns)"

lemma plains_all: "plains ns \<longleftrightarrow> (\<forall>n\<in>set ns. plain n)"
  by (induction ns) simp_all

lemma does_located:
  assumes "\<And>l. does (Some l) h k (\<lambda>fn its. m fn its)" "lo n \<noteq> None"
  shows "does loc h (at_stmt (lo n) k) (\<lambda>fn its. ticked h (the (lo n)) (m fn its))"
  using does_at_stmt[OF assms(1)] assms(2) by auto

lemma does_emitStmt:
  "sound lo n \<Longrightarrow> does loc h (emitStmt lo n) (\<lambda>fn its. sem k h fn lo its n)"
  "sound_opt lo b \<Longrightarrow> does loc h (emitBody lo b) (\<lambda>fn its. sem_opt k h fn lo its b)"
  "sounds lo ns \<Longrightarrow> does loc h (emitStmts lo ns) (\<lambda>fn its. sem_list k h fn lo its ns)"
  "length (stmt_blocks lo bs) = length bs" "length (stmt_catches lo cs) = length cs"
proof (induction lo n and lo b and lo ns and lo bs and lo cs arbitrary: loc "value" and loc and loc
    rule: emitStmt_emitBody_emitStmts_stmt_blocks_stmt_catches.induct)
  case (1 lo ns)
  then show ?case by simp
next
  case (3 lo s)
  then show ?case by (simp add: does_located[OF does_html])
next
  case (4 lo c y no short)
  have "does loc h (at_stmt (lo (IfNode c y no short)) (emitIf (emitExpr c) (emitBody lo y) (case no of None \<Rightarrow> None | Some b \<Rightarrow> Some (emitStmt lo b))))
    (\<lambda>fn its. ticked h (the (lo (IfNode c y no short)))
       (sem_if h (eval h fn c) (sem_opt k h fn lo its y) (sem_opt k h fn lo its no)))"
  proof (rule does_located[OF does_if])
    fix kn assume "(case no of None \<Rightarrow> None | Some b \<Rightarrow> Some (emitStmt lo b)) = Some kn"
    then show "does None h kn (\<lambda>fn its. sem_opt k h fn lo its no)" using 4 by (auto split: option.splits)
  next
    assume "(case no of None \<Rightarrow> None | Some b \<Rightarrow> Some (emitStmt lo b)) = None"
    then show "(\<lambda>fn its. sem_opt k h fn lo its no) = (\<lambda>fn its. skip)" by (auto split: option.splits)
  qed (use 4 in auto)
  then show ?case by simp
next
  case (5 lo c b)
  then show ?case unfolding emitStmt.simps sem.simps by (intro does_located does_while) simp_all
next
  case (6 lo b c)
  then show ?case unfolding emitStmt.simps sem.simps by (intro does_located does_do) simp_all
next
  case (7 lo st cs step b)
  then show ?case
    unfolding emitStmt.simps sem.simps by (intro does_located does_for) (simp_all add: plains_all)
next
  case (8 lo src key v b)
  then obtain l where l: "lo (ForeachNode src key v b) = Some l" by auto
  have "does loc h (at_stmt (Some l) (emitForeach (emitExpr src) key v (emitBody lo b)))
    (\<lambda>fn its. ticked h l (\<lambda>ls w. with_value (eval h fn src ls w) (\<lambda>c ls w. with_value (of_iter (h_foreachInit h c w) ls) (\<lambda>it ls w. case it of
        None \<Rightarrow> skip ls (h_foreachWarn h c l w)
      | Some it \<Rightarrow> foreach_loop k h fn it (slot fn v) (map_option (slot fn) key) (sem_opt k h fn lo (Some it # its) b) ls w))))"
    using 8 by (intro does_at_stmt does_foreach) simp_all
  then show ?case unfolding emitStmt.simps sem.simps l option.sel .
next
  case (9 lo v)
  have "does loc h (at_stmt (lo (ReturnNode v)) (emitReturn (map_option emitExpr v)))
    (\<lambda>fn its. ticked h (the (lo (ReturnNode v))) ((case v of
       None \<Rightarrow> (\<lambda>fn its ls w. case h_mk h VNull w of (v, w) \<Rightarrow> Some (Returned v, ls, w))
     | Some n \<Rightarrow> (\<lambda>fn its ls w. with_value (eval h fn n ls w) (\<lambda>v ls w. Some (Returned v, ls, w)))) fn its))"
    using 9 by (intro does_located does_return) auto
  then show ?case by (cases v) simp_all
next
  case (10 lo v)
  then show ?case unfolding emitStmt.simps sem.simps by (intro does_located does_throw) simp_all
next
  case (12 lo d)
  then show ?case
    unfolding emitStmt.simps sem.simps by (intro does_located does_leave[where n = d and c = Broke]) simp_all
next
  case (13 lo d)
  then show ?case
    unfolding emitStmt.simps sem.simps by (intro does_located does_leave[where n = d and c = Continued]) simp_all
next
  case (14 lo x)
  then show ?case unfolding emitStmt.simps sem.simps by (intro does_located does_skip) simp_all
next
  case "15_1"
  then show ?case unfolding emitStmt.simps sem.simps by (intro does_located does_discard) simp_all
next
  case "15_2"
  then show ?case unfolding emitStmt.simps sem.simps by (intro does_located does_discard) simp_all
next
  case "15_3"
  then show ?case unfolding emitStmt.simps sem.simps by (intro does_located does_discard) simp_all
next
  case "15_4"
  then show ?case unfolding emitStmt.simps sem.simps by (intro does_located does_discard) simp_all
next
  case "15_5"
  then show ?case unfolding emitStmt.simps sem.simps by (intro does_located does_discard) simp_all
next
  case (16 lo)
  show ?case unfolding emitBody.simps sem_opt.simps by (rule does_skip)
next
  case (18 lo)
  show ?case unfolding emitStmts.simps sem_list.simps by (rule does_skip)
next
  case (19 lo n ns)
  then show ?case unfolding emitStmts.simps sem_list.simps seq_pair by (intro does_then) simp_all
qed (simp_all)

section \<open>Compiled bodies\<close>

text \<open>A function body: the value it returns is null when it ends without one.\<close>

definition run_body ::
  "nat \<Rightarrow> ('v, 'w) host \<Rightarrow> func \<Rightarrow> (node \<Rightarrow> nat option) \<Rightarrow> node option \<Rightarrow> ('v, 'w) act" where
  "run_body k h fn lo body ls w =
     after (sem_opt k h fn lo [] body ls w)
       (\<lambda>ls w. case h_mk h VNull w of (v, w) \<Rightarrow> Some (Returned v, ls, w))"

definition outcome_of :: "'v flow \<Rightarrow> 'v outcome" where
  "outcome_of r = (case r of Returned v \<Rightarrow> Finished v | Threw e \<Rightarrow> Raised e | _ \<Rightarrow> Crash)"

lemma wf_newEmitter: "wf_s newEmitter"
  by (simp add: wf_s_def wf_em_def newEmitter_def hole_list_def tables_ok_def)

lemma does_body:
  assumes "sound_opt lo body"
  shows "does None h (seq [emitBody lo body, op0 OpRetNull]) (\<lambda>fn its ls w. after (sem_opt k h fn lo its body ls w)
       (\<lambda>ls w. case h_mk h VNull w of (v, w) \<Rightarrow> Some (Returned v, ls, w)))"
  unfolding seq_pair by (rule does_then[OF does_emitStmt(2)[OF assms] does_op[OF goes_ret_null]])

text \<open>An error that leaves a function without handlers.\<close>

lemma exec_error:
  assumes "fn_TryHandlers fn = []"
  shows "vm_exec h fn (Some e) f w = Some (Raised e, f, w)"
  by (subst vm_exec.simps) (cases e; simp add: dispatchTryHandler_def assms)

lemma Compile_fits:
  assumes "Compile lo source slotOnly body = Some fn" "sound_opt lo body"
    "length (fn_Consts fn) \<le> 65536" "length (fn_Locals fn) \<le> 65535" "length (fn_Code fn) < 2 ^ 31"
  obtains e where "seq [emitBody lo body, op0 OpRetNull] newEmitter = EOk e" "fits fn B C [] newEmitter e" "fn_TryHandlers fn = []"
proof -
  obtain e where e: "seq [emitBody lo body, op0 OpRetNull] newEmitter = EOk e" "fn = finish source slotOnly e"
    using assms(1) by (auto simp: Compile_def simp del: seq.simps split: emitted.splits)
  have st: "\<not> em_stmtCtx newEmitter" by (simp add: newEmitter_def)
  note d = does_step[OF does_body[OF assms(2)] e(1) wf_newEmitter st at_loc_None]
  have l: "em_loops e = []" "em_tryHandlers e = []" using d(1) by (simp_all add: advanced_def newEmitter_def)
  have f: "fn_Code fn = em_code e" "fn_Consts fn = em_consts e" "fn_Locals fn = em_locals e" "fn_LocsSparse fn = em_locs e"
      "em_maxStack e \<le> int (fn_MaxStack fn)" "fn_TryHandlers fn = []"
    using l by (simp_all add: e(2) finish_def)
  have "wf_em e" using d(2) by (simp add: wf_s_def)
  then have "distinct (em_locals e)" using assms(3,4) f by (simp add: wf_em_def small_def tables_ok_def)
  then have "tabled fn e"
    using d(2) assms(3-5) f by (simp add: tabled_def located_in_def wf_s_def here_def)
  moreover have "placed_in fn B C e (here newEmitter) (here e)"
    using l f by (simp add: placed_in_def placed_def hole_list_def here_def)
  ultimately have "fits fn B C [] newEmitter e" by (simp add: fits_def newEmitter_def)
  then show thesis using that[OF e(1) _ f(6)] by blast
qed

lemma refresh_length: "refresh h ns w = (vs, w') \<Longrightarrow> length vs = length ns"
  by (induction ns arbitrary: vs w w') (auto split: prod.splits)

end
