(* ===== verification/VmProps.thy ===== *)
theory VmProps
  imports VmSound
begin

unbundle bit_operations_syntax

text \<open>What compilation and the machine promise together, and programs for which they do not keep it.\<close>

section \<open>A host\<close>

text \<open>A small host for concrete runs. Values are the literals; looping over the integer \<open>n\<close> runs the body \<open>n\<close>
  times. The world holds, for each iterator, the steps it has left, and the output, newest first.\<close>

type_synonym toy_world = "nat list \<times> bytes list"

definition toy_bool :: "val \<Rightarrow> bool" where
  "toy_bool v = (v \<noteq> VNull \<and> v \<noteq> VBool False \<and> v \<noteq> VInt 0 \<and> v \<noteq> VString [] \<and> v \<noteq> VString ''0'')"

definition toy_error :: "val verr" where
  "toy_error = OtherErr ''unsupported operand types''"

definition toy_host :: "(val, toy_world) host" where
  "toy_host =
     \<lparr>h_int = (\<lambda>w v. case v of VInt i \<Rightarrow> Some (word_of_int i) | _ \<Rightarrow> None),
      h_str = (\<lambda>w v. case v of VString s \<Rightarrow> Some s | _ \<Rightarrow> None),
      h_zbool = (\<lambda>w v. case v of VBool b \<Rightarrow> Some b | _ \<Rightarrow> None),
      h_AsBool = (\<lambda>v w. (toy_bool v, w)),
      h_IsNull = (\<lambda>w v. v = VNull),
      h_IsRef = (\<lambda>w v. False),
      h_IsCached = (\<lambda>w v. False),
      h_IsArray = (\<lambda>w v. False),
      h_IsObject = (\<lambda>w v. False),
      h_cached = (\<lambda>v. v),
      h_mk = (\<lambda>v w. (v, w)),
      h_NewZVal = (\<lambda>v w. (v, w)),
      h_Dup = (\<lambda>v w. (v, w)),
      h_NudeDup = (\<lambda>v w. (v, w)),
      h_ZVal = (\<lambda>v w. (v, w)),
      h_binop = (\<lambda>opc a b w. (Inl toy_error, w)),
      h_unop = (\<lambda>opc a w. (if opc = OpNot then Inr (VBool (\<not> toy_bool a)) else Inl toy_error, w)),
      h_DoInc = (\<lambda>v inc w. (Some toy_error, w)),
      h_WarnUndef = (\<lambda>x (its, out). (None, (its, (''undefined '' @ x) # out))),
      h_This = (\<lambda>w. None),
      h_NoThis = (\<lambda>w. (OtherErr ''no this'', w)),
      h_OffsetSet = (\<lambda>x v w. (None, w)),
      h_OffsetCheck = (\<lambda>x w. (None, w)),
      h_Call = (\<lambda>f args (its, out). (Inr VNull, (its, f # out))),
      h_RunAST = (\<lambda>i w. (None, w)),
      h_ThrowObject = (\<lambda>v w. (PhpThrow v, w)),
      h_InstanceOf = (\<lambda>n v w. (True, w)),
      h_DecRef = (\<lambda>v w. (None, w)),
      h_ChainPrevious = (\<lambda>v e w. w),
      h_Tick = (\<lambda>l w. (None, w)),
      h_DrainTemps = (\<lambda>w. w),
      h_Write = (\<lambda>s (its, out). (None, (its, s # out))),
      h_foreachInit = (\<lambda>v (its, out). (case v of VInt n \<Rightarrow> (Inr (Some (length its)), (its @ [nat n], out))
                                            | _ \<Rightarrow> (Inr None, (its, out)))),
      h_foreachWarn = (\<lambda>v l w. w),
      h_Valid = (\<lambda>it w. (it < length (fst w) \<and> 0 < fst w ! it, w)),
      h_Current = (\<lambda>it w. (Inr (if it < length (fst w) then Some (VInt (int (fst w ! it))) else None), w)),
      h_Key = (\<lambda>it w. (Inr (if it < length (fst w) then Some (VInt (int (fst w ! it))) else None), w)),
      h_Next = (\<lambda>it (its, out). (None, (if it < length its then its[it := its ! it - 1] else its, out))),
      h_Cleanup = (\<lambda>it w. w)\<rparr>"

section \<open>Compiled bodies\<close>

text \<open>C23. Compilation of a function body is correct: when \<open>Compile\<close> accepts a body of modelled statements without a
  \<open>switch\<close> or \<open>try\<close> (every statement with a location; expressions over simple locals, literals, operators, calls), and
  the body within its size limits ends in the structured semantics \<open>run_body\<close> that walks the tree, then the machine run
  on the emitted code ends too, with the same outcome (value returned, error raised) and the same world: output,
  warnings, calls, ticks and iterator steps in the same order.\<close>

theorem compiled_body_correct:
  assumes "Compile lo source slotOnly body = Some fn" "sound_opt lo body"
    "length (fn_Consts fn) \<le> 65536" "length (fn_Locals fn) \<le> 65535" "length (fn_Code fn) < 2 ^ 31"
    "refresh h (fn_Locals fn) w = (vs, w1)" "run_body k h fn lo body vs w1 = Some (r, ls, w2)"
  shows "map_option (\<lambda>(r, _, w). (r, w)) (vm_Run h fn w) = Some (outcome_of r, w2)"
proof -
  obtain e where e: "seq [emitBody lo body, op0 OpRetNull] newEmitter = EOk e" "fits fn id id [] newEmitter e"
      "fn_TryHandlers fn = []"
    by (rule Compile_fits[OF assms(1-5)])
  let ?f = "(acquireFrame fn)\<lparr>fr_locals := vs\<rparr>"
  have st: "\<not> em_stmtCtx newEmitter" by (simp add: newEmitter_def)
  note g = does_step(5)[OF does_body[OF assms(2)] e(1) wf_newEmitter st at_loc_None e(2)]
  have f: "fr_pc ?f = int (here newEmitter)" "length (fr_stack ?f) \<le> nat (em_curStack newEmitter)"
      "length (fr_locals ?f) = length (fn_Locals fn)" "fr_iters ?f = somes [] @ []"
    using refresh_length[OF assms(6)] by (simp_all add: acquireFrame_def newEmitter_def here_def)
  have "flows h fn id id [] (somes []) [] (here e) (vm_exec h fn None ?f w1) ?f (run_body k h fn lo body vs w1)"
    using goesD[OF g f, of h w1 k] by (simp add: run_body_def)
  then have x: "flows h fn id id [] [] [] (here e) (vm_exec h fn None ?f w1) ?f (Some (r, ls, w2))"
    by (simp add: assms(7))
  have "r \<noteq> Normal"
    using assms(7) by (auto simp: run_body_def after_def split: option.splits prod.splits flow.splits)
  then have "\<exists>f'. vm_exec h fn None ?f w1 = Some (outcome_of r, f', w2)"
    using x exec_error[OF e(3), of h] by (cases r) (auto simp: flows_def outcome_of_def)
  then show ?thesis by (auto simp: vm_Run_def assms(6))
qed


text \<open>Shifts as products, which the simplifier computes faster.\<close>

lemma Encode_code [code]:
  "Encode opc a b c =
     (if sint c < - 8388608 \<or> sint c \<ge> 8388608 then None
      else Some ((ucast opc * 72057594037927936) OR (ucast a * 1099511627776) OR (ucast b * 16777216)
                 OR ucast (c AND 0xFFFFFF)))"
  by (simp add: Encode_def push_bit_eq_mult)

lemma in_C_code [code]:
  "in_C i = (let c = ucast (i AND 0xFFFFFF) in if c AND 8388608 \<noteq> 0 then c OR NOT 0xFFFFFF else c)"
  by (simp add: in_C_def push_bit_eq_mult)

text \<open>\<open>while (!$i) $i = 1; return $i;\<close>\<close>

definition loop_body_node :: node where
  "loop_body_node = Runnables
     [WhileNode (Operator (RuneType 33) None (Some (Variable ''i'')) False False)
        (Some (Operator (RuneType 61) (Some (Variable ''i'')) (Some (Literal (VInt 1))) True False)),
      ReturnNode (Some (Variable ''i''))]"

text \<open>Its code: \<open>Tick\<close>, \<open>LoadLocalOrWarn\<close>, \<open>Not\<close>, \<open>JmpIfFalse\<close>, \<open>Tick\<close>, \<open>LoadConst\<close>, \<open>StoreLocal\<close>, \<open>Jmp\<close>, \<open>Tick\<close>,
  \<open>LoadLocalOrWarn\<close>, \<open>Ret\<close>, \<open>RetNull\<close>.\<close>

definition loop_func :: func where
  "loop_func =
     \<lparr>fn_Code =
        [5116089176692883456, 432345564227567616, 2449958197289549824, 3026418949592973316, 5116089176692883456,
         72057594037927936, 504403158265495552, 2954361355571822585, 5116089176692883456, 432345564227567616,
         3602879701896396800, 3674937295934324736],
      fn_Consts = [VInt 1], fn_Locals = [''i''], fn_LocsSparse = [(0, 7)], fn_TryHandlers = [],
      fn_MaxStack = 4, fn_Source = 0, fn_SlotOnly = True\<rparr>"

lemma loop_func_compiled: "Compile (\<lambda>n. Some 7) 0 True (Some loop_body_node) = Some loop_func"
  by code_simp

lemma loop_func_sizes:
  "length (fn_Consts loop_func) \<le> 65536" "length (fn_Locals loop_func) \<le> 65535" "length (fn_Code loop_func) < 2 ^ 31"
  by (simp_all add: loop_func_def)

theorem compiled_body_correct_witness:
  "map_option (\<lambda>(r, _, w). (r, w)) (vm_Run toy_host loop_func ([], [])) = Some (Finished (VInt 1), ([], [''undefined i'']))"
proof -
  have ok: "sound_opt (\<lambda>n. Some 7) (Some loop_body_node)" by (simp add: loop_body_node_def)
  have slots: "refresh toy_host (fn_Locals loop_func) ([], []) = ([None], ([], []))" by code_simp
  have run: "run_body 3 toy_host loop_func (\<lambda>n. Some 7) (Some loop_body_node) [None] ([], [])
      = Some (Returned (VInt 1), [Some (VInt 1)], ([], [''undefined i'']))" by code_simp
  have "outcome_of (Returned (VInt 1)) = Finished (VInt 1)" by (simp add: outcome_of_def)
  with compiled_body_correct[OF loop_func_compiled ok loop_func_sizes slots run] show ?thesis by (simp only:)
qed

end
