(* ===== verification/VmGaps.thy ===== *)
theory VmGaps
  imports VmProps
begin

text \<open>Programs whose emitted code does not do what the tree says.\<close>

text \<open>A run of at most \<open>n\<close> steps, computed.\<close>

fun vm_exec_upto :: "nat \<Rightarrow> ('v, 'w) host \<Rightarrow> func \<Rightarrow> 'v verr option \<Rightarrow> 'v frame \<Rightarrow> 'w \<Rightarrow> ('v, 'w) stepped option" where
  "vm_exec_upto 0 h fn err f w = None"
| "vm_exec_upto (Suc n) h fn err f w =
     (case err of
        None \<Rightarrow>
          (case vm_step h fn f w of
             (Running, f, w) \<Rightarrow> vm_exec_upto n h fn None f w
           | (Raised e, f, w) \<Rightarrow> vm_exec_upto n h fn (Some e) f w
           | (Finished v, f, w) \<Rightarrow> Some (Finished v, f, w)
           | (Crash, f, w) \<Rightarrow> Some (Crash, f, w))
      | Some (PhpThrow ex) \<Rightarrow>
          (case dispatchTryHandler h fn ex f w of
             (Handled, f, w) \<Rightarrow> vm_exec_upto n h fn None f w
           | (NewErr e, f, w) \<Rightarrow> vm_exec_upto n h fn (Some e) f w
           | (NotHandled, f, w) \<Rightarrow> Some (Raised (PhpThrow ex), f, w))
      | Some e \<Rightarrow> Some (Raised e, f, w))"

lemma vm_exec_upto: "vm_exec_upto n h fn err f w = Some r \<Longrightarrow> vm_exec h fn err f w = Some r"
proof (induction n h fn err f w rule: vm_exec_upto.induct)
  case (2 n h fn err f w)
  then show ?case
    by (subst vm_exec.simps) (auto split: option.splits verr.splits prod.splits outcome.splits handled.splits)
qed simp

text \<open>The state after \<open>n\<close> steps, when the run has not ended by then.\<close>

fun vm_after :: "nat \<Rightarrow> ('v, 'w) host \<Rightarrow> func \<Rightarrow> 'v verr option \<Rightarrow> 'v frame \<Rightarrow> 'w \<Rightarrow> ('v verr option \<times> 'v frame \<times> 'w) option" where
  "vm_after 0 h fn err f w = Some (err, f, w)"
| "vm_after (Suc n) h fn err f w =
     (case err of
        None \<Rightarrow>
          (case vm_step h fn f w of
             (Running, f, w) \<Rightarrow> vm_after n h fn None f w
           | (Raised e, f, w) \<Rightarrow> vm_after n h fn (Some e) f w
           | _ \<Rightarrow> None)
      | Some (PhpThrow ex) \<Rightarrow>
          (case dispatchTryHandler h fn ex f w of
             (Handled, f, w) \<Rightarrow> vm_after n h fn None f w
           | (NewErr e, f, w) \<Rightarrow> vm_after n h fn (Some e) f w
           | _ \<Rightarrow> None)
      | Some e \<Rightarrow> None)"

lemma vm_after: "vm_after n h fn err f w = Some (err', f', w') \<Longrightarrow> vm_exec h fn err f w = vm_exec h fn err' f' w'"
proof (induction n h fn err f w rule: vm_after.induct)
  case (2 n h fn err f w)
  then show ?case
    by (subst vm_exec.simps) (auto split: option.splits verr.splits prod.splits outcome.splits handled.splits)
qed simp

text \<open>A body compiled and run, and the walk over its tree that may go \<open>k\<close> times through every loop: the outcome
  and the output, oldest first.\<close>

definition toy_run :: "(node \<Rightarrow> nat option) \<Rightarrow> node \<Rightarrow> (val outcome \<times> bytes list) option" where
  "toy_run lo body =
     (case Compile lo 0 True (Some body) of
        None \<Rightarrow> None
      | Some fn \<Rightarrow> map_option (\<lambda>(r, _, its, out). (r, rev out)) (vm_Run toy_host fn ([], [])))"

definition toy_tree :: "nat \<Rightarrow> (node \<Rightarrow> nat option) \<Rightarrow> node \<Rightarrow> (val outcome \<times> bytes list) option" where
  "toy_tree k lo body =
     (case Compile lo 0 True (Some body) of
        None \<Rightarrow> None
      | Some fn \<Rightarrow>
          (case refresh toy_host (fn_Locals fn) ([], []) of
             (vs, w) \<Rightarrow> map_option (\<lambda>(r, _, its, out). (outcome_of r, rev out))
                (run_body k toy_host fn lo (Some body) vs w)))"

definition toy_upto :: "nat \<Rightarrow> (node \<Rightarrow> nat option) \<Rightarrow> node \<Rightarrow> (val outcome \<times> bytes list) option" where
  "toy_upto n lo body =
     (case Compile lo 0 True (Some body) of
        None \<Rightarrow> None
      | Some fn \<Rightarrow>
          (case refresh toy_host (fn_Locals fn) ([], []) of
             (vs, w) \<Rightarrow> map_option (\<lambda>(r, _, its, out). (r, rev out))
                (vm_exec_upto n toy_host fn None ((acquireFrame fn)\<lparr>fr_locals := vs\<rparr>) w)))"

lemma toy_upto: "toy_upto n lo body = Some r \<Longrightarrow> toy_run lo body = Some r"
  by (auto simp: toy_upto_def toy_run_def vm_Run_def split: option.splits prod.splits dest!: vm_exec_upto)

section \<open>A short ternary\<close>

text \<open>\<open>return 10 + (0 ?: 5);\<close>\<close>

definition elvis_node :: node where
  "elvis_node = Runnables
     [ReturnNode (Some (Operator (RuneType 43) (Some (Literal (VInt 10)))
        (Some (IfNode (Literal (VInt 0)) None (Some (Literal (VInt 5))) True)) False False))]"

lemma elvis_upto: "toy_upto 20 (\<lambda>n. Some 7) elvis_node = Some (Finished (VInt 5), [])"
  by code_simp

lemma elvis_tree: "toy_tree 1 (\<lambda>n. Some 7) elvis_node = Some (Finished (VInt 15), [])"
  by code_simp

text \<open>\<open>$i = 0; while ($i < 9) { $x = 0 ?: 5; $i++; } return $x;\<close>, and its code: every turn leaves a value on
  the stack.\<close>

definition elvis_loop :: node where
  "elvis_loop = Runnables
     [Operator (RuneType 61) (Some (Variable ''i'')) (Some (Literal (VInt 0))) True False,
      WhileNode (Operator (RuneType 60) (Some (Variable ''i'')) (Some (Literal (VInt 9))) False False)
        (Some (Runnables
          [Operator (RuneType 61) (Some (Variable ''x''))
             (Some (IfNode (Literal (VInt 0)) None (Some (Literal (VInt 5))) True)) True False,
           Operator T_INC (Some (Variable ''i'')) None True False])),
      ReturnNode (Some (Variable ''x''))]"

definition elvis_func :: func where
  "elvis_func =
     \<lparr>fn_Code =
        [5116089176692883456, 72057594037927936, 504403158265495552, 5116089176692883456, 432345564227567616,
         72058693549555712, 2089670227099910144, 3026418949592973322, 5116089176692883456, 72057594037927936,
         3170534137668829185, 2954361355555045377, 72059793061183488, 504404257777123328, 5116089176692883456,
         2738188573441261568, 720575940379279360, 2954361355571822578, 5116089176692883456, 432346663739195392,
         3602879701896396800, 3674937295934324736],
      fn_Consts = [VInt 0, VInt 9, VInt 5], fn_Locals = [''i'', ''x''], fn_LocsSparse = [(0, 7)], fn_TryHandlers = [],
      fn_MaxStack = 4, fn_Source = 0, fn_SlotOnly = True\<rparr>"

lemma elvis_compiled: "Compile (\<lambda>n. Some 7) 0 True (Some elvis_loop) = Some elvis_func"
  by code_simp

definition elvis_crash :: "val frame" where
  "elvis_crash =
     \<lparr>fr_pc = 6, fr_stack = [VInt 3, VInt 0, VInt 0, VInt 0], fr_iters = [], fr_locals = [Some (VInt 3), Some (VInt 5)],
      fr_handlerPending = []\<rparr>"

lemma elvis_exec_upto:
  "vm_exec_upto 50 toy_host elvis_func None ((acquireFrame elvis_func)\<lparr>fr_locals := [None, None]\<rparr>) ([], [])
     = Some (Crash, elvis_crash, ([], []))"
  by code_simp

lemma elvis_slots: "refresh toy_host (fn_Locals elvis_func) ([], []) = ([None, None], ([], []))"
  by code_simp

lemma elvis_loop_crash: "toy_run (\<lambda>n. Some 7) elvis_loop = Some (Crash, [])"
  using vm_exec_upto[OF elvis_exec_upto] by (simp add: toy_run_def vm_Run_def elvis_compiled elvis_slots)

lemma elvis_loop_tree: "toy_tree 10 (\<lambda>n. Some 7) elvis_loop = Some (Finished (VInt 5), [])"
  by code_simp


section \<open>Coalescing assignment\<close>

text \<open>\<open>$x ??= 1; return $x;\<close>\<close>

definition coalesce_node :: node where
  "coalesce_node = Runnables
     [Operator T_COALESCE_EQUAL (Some (Variable ''x'')) (Some (Literal (VInt 1))) True True,
      ReturnNode (Some (Variable ''x''))]"

lemma coalesce_upto:
  "toy_upto 20 (\<lambda>n. Some 7) coalesce_node = Some (Raised (OtherErr ''vm: unknown compound op''), [])"
  by code_simp


section \<open>A loop left by an exception\<close>

text \<open>\<open>foreach (2 as $x) { try { foreach (1 as $y) throw $y; } catch (E $e) {} } return $x;\<close>\<close>

definition nested_node :: node where
  "nested_node = Runnables
     [ForeachNode (Literal (VInt 2)) None ''x'' (Some
         (TryNode (Some (ForeachNode (Literal (VInt 1)) None ''y'' (Some (ThrowNode (Variable ''y'')))))
           [([''E''], ''e'', Some 7, None)] None)),
      ReturnNode (Some (Variable ''x''))]"

definition nested_func :: func where
  "nested_func =
     \<lparr>fn_Code =
        [5116089176692883456, 72057594037927936, 4827858800541171729, 4899917494073950223, 5116089176692883456,
         5116089176692883456, 72058693549555712, 4827858800541171719, 4899918593585577989, 5116089176692883456,
         432346663739195392, 4179340454199820288, 4971973988617027584, 2954361355571822586, 5044031582654955520,
         2954361355555045377, 2954361355555045376, 4971973988617027584, 2954361355571822576, 5044031582654955520,
         5116089176692883456, 432345564227567616, 3602879701896396800, 3674937295934324736],
      fn_Consts = [VInt 2, VInt 1], fn_Locals = [''x'', ''y'', ''e''], fn_LocsSparse = [(0, 7)],
      fn_TryHandlers =
        [\<lparr>th_Start = 5, th_End = 16, th_AfterCatch = 17, th_StackBase = 0,
          th_Catches = [\<lparr>cc_Types = [''E''], cc_VarIdx = 2, cc_PC = 16, cc_Loc = Some 7\<rparr>],
          th_HasFinally = False, th_FinallyPC = 0, th_FinallyEnd = 0\<rparr>],
      fn_MaxStack = 4, fn_Source = 0, fn_SlotOnly = True\<rparr>"

lemma nested_compiled: "Compile (\<lambda>n. Some 7) 0 True (Some nested_node) = Some nested_func"
  by code_simp

text \<open>The frame at \<open>pc\<close> with iterators \<open>its\<close> and locals \<open>ls\<close>.\<close>

definition nested_frame :: "int \<Rightarrow> nat list \<Rightarrow> val option list \<Rightarrow> val frame" where
  "nested_frame pc its ls =
     \<lparr>fr_pc = pc, fr_stack = [], fr_iters = its, fr_locals = ls, fr_handlerPending = [pendingNone]\<rparr>"

lemma nested_slots: "refresh toy_host (fn_Locals nested_func) ([], []) = ([None, None, None], ([], []))"
  by code_simp

lemma nested_acquired: "(acquireFrame nested_func)\<lparr>fr_locals := ls\<rparr> = nested_frame 0 [] ls"
  by (simp add: acquireFrame_def nested_func_def nested_frame_def)

lemma nested_inner:
  "vm_after 8 toy_host nested_func None (nested_frame 0 [] [None, None, None]) ([], [])
     = Some (None, nested_frame 8 [1, 0] [Some (VInt 2), None, None], ([2, 1], []))"
  by code_simp

text \<open>After the catch, back at the step of the outer loop, the inner iterator is still on top.\<close>

lemma nested_caught:
  "vm_after 8 toy_host nested_func None (nested_frame 8 [1, 0] [Some (VInt 2), None, None]) ([2, 1], [])
     = Some (None, nested_frame 3 [1, 0] [Some (VInt 2), Some (VInt 1), Some (VInt 1)], ([2, 0], []))"
  by code_simp

lemma nested_rest:
  "map_option (\<lambda>(r, _, its, out). (r, out))
     (vm_exec_upto 8 toy_host nested_func None (nested_frame 3 [1, 0] [Some (VInt 2), Some (VInt 1), Some (VInt 1)]) ([2, 0], []))
     = Some (Finished (VInt 2), [])"
  by code_simp



lemma nested_exec:
  "vm_exec toy_host nested_func None (nested_frame 0 [] [None, None, None]) ([], [])
     = vm_exec toy_host nested_func None
        (nested_frame 3 [1, 0] [Some (VInt 2), Some (VInt 1), Some (VInt 1)]) ([2, 0], [])"
  by (simp only: vm_after[OF nested_inner] vm_after[OF nested_caught])


end
