(* ===== verification/VmSafe.thy ===== *)
theory VmSafe
  imports VmType VmGaps
begin

text \<open>
  What the verifier's facts are worth at run time: in a function that passes it the machine stays within the code, the
  constants, the locals and the handlers, on every host; only the operand stack and the stack of iterators, which the
  verifier does not look at, are left to fail.
\<close>

section \<open>Frames of a function\<close>

definition frame_fits :: "func \<Rightarrow> 'v frame \<Rightarrow> bool" where
  "frame_fits fn f =
     (length (fr_locals f) = length (fn_Locals fn) \<and> length (fr_handlerPending f) = length (fn_TryHandlers fn))"

text \<open>The instructions that take values from the operand stack, add one to it, or use the innermost iterator.\<close>

definition pop_ops :: "8 word list" where
  "pop_ops =
     [OpStoreLocal, OpStoreLocalKeep, OpPop, OpNeg, OpBitNot, OpNot, OpBool, OpOpAssignLocal, OpJmpIfFalse, OpJmpIfTrue,
      OpJmpIfFalsePeek, OpJmpIfTruePeek, OpJmpIfNotNullPeek, OpRet, OpThrow, OpForeachInit]"

definition push_ops :: "8 word list" where
  "push_ops =
     [OpLoadConst, OpLoadNull, OpLoadTrue, OpLoadFalse, OpLoadLocal, OpLoadLocalOrWarn, OpIncLocal, OpDecLocal,
      OpPostIncLocal, OpPostDecLocal, OpCallUser]"

definition iter_ops :: "8 word list" where
  "iter_ops = [OpForeachStep, OpForeachAdvance, OpForeachUnwind]"

definition operands :: "instruction \<Rightarrow> nat" where
  "operands i =
     (if is_binary (in_Op i) then 2 else if in_Op i = OpCallUser then unat (in_B i)
      else if in_Op i \<in> set pop_ops then 1 else 0)"

definition stack_fault :: "func \<Rightarrow> instruction \<Rightarrow> 'v frame \<Rightarrow> bool" where
  "stack_fault fn i f =
     (length (fr_stack f) < operands i \<or>
      in_Op i \<in> set push_ops \<and> fn_MaxStack fn \<le> length (fr_stack f) \<or>
      in_Op i \<in> set iter_ops \<and> fr_iters f = [])"

text \<open>What the instruction at \<open>p\<close> may leave behind.\<close>

fun safe :: "func \<Rightarrow> nat \<Rightarrow> ('v, 'w) stepped \<Rightarrow> bool" where
  "safe fn p (r, f, w) =
     (frame_fits fn f \<and>
      (case r of
         Running \<Rightarrow> 0 \<le> fr_pc f \<and> fr_pc f < int (length (fn_Code fn))
       | Crash \<Rightarrow> fr_pc f = int p + 1 \<and> stack_fault fn (fn_Code fn ! p) f
       | _ \<Rightarrow> fr_pc f = int p + 1))"

declare safe.simps [simp del]

definition at_pos :: "func \<Rightarrow> nat \<Rightarrow> 'v frame \<Rightarrow> bool" where
  "at_pos fn p f = (frame_fits fn f \<and> fr_pc f = int p + 1)"

lemma at_pos_updates [simp]:
  "at_pos fn p (f\<lparr>fr_stack := st\<rparr>) = at_pos fn p f" "at_pos fn p (f\<lparr>fr_iters := its\<rparr>) = at_pos fn p f"
  "at_pos fn p (set_top v f) = at_pos fn p f" "at_pos fn p (set_local i x f) = at_pos fn p f"
  by (simp_all add: at_pos_def frame_fits_def set_top_def set_local_def)

lemma safe_running: "at_pos fn p f \<Longrightarrow> p + 1 < length (fn_Code fn) \<Longrightarrow> safe fn p (Running, f, w)"
  by (simp add: safe.simps at_pos_def)

lemma safe_goto: "at_pos fn p f \<Longrightarrow> 0 \<le> t \<Longrightarrow> t < int (length (fn_Code fn)) \<Longrightarrow> safe fn p (Running, goto t f, w)"
  by (simp add: safe.simps at_pos_def goto_def frame_fits_def)

lemma safe_raise: "at_pos fn p f \<Longrightarrow> safe fn p (raise e f w)"
  by (simp add: safe.simps at_pos_def raise_def)

lemma safe_unless: "at_pos fn p f \<Longrightarrow> (\<And>w. safe fn p (k w)) \<Longrightarrow> safe fn p (unless r f k)"
  by (auto simp: unless_def safe_raise split: prod.split option.split)

lemma safe_value_or: "at_pos fn p f \<Longrightarrow> (\<And>v w. safe fn p (k v w)) \<Longrightarrow> safe fn p (value_or r f k)"
  by (auto simp: value_or_def safe_raise split: prod.split sum.split)

lemma safe_push:
  "at_pos fn p f \<Longrightarrow> p + 1 < length (fn_Code fn) \<Longrightarrow> in_Op (fn_Code fn ! p) \<in> set push_ops \<Longrightarrow> safe fn p (push fn v f w)"
  by (auto simp: push_def safe.simps at_pos_def frame_fits_def stack_fault_def)

lemma safe_pop:
  "at_pos fn p f \<Longrightarrow> 0 < operands (fn_Code fn ! p) \<Longrightarrow>
   (\<And>v st. safe fn p (k v (f\<lparr>fr_stack := st\<rparr>))) \<Longrightarrow> safe fn p (pop f w k)"
  by (auto simp: pop_def safe.simps at_pos_def frame_fits_def stack_fault_def split: list.split)

lemma safe_peek:
  "at_pos fn p f \<Longrightarrow> 0 < operands (fn_Code fn ! p) \<Longrightarrow> (\<And>v. safe fn p (k v)) \<Longrightarrow> safe fn p (peek f w k)"
  by (auto simp: peek_def safe.simps at_pos_def frame_fits_def stack_fault_def split: list.split)

lemma safe_local_at: "at_pos fn p f \<Longrightarrow> i < length (fn_Locals fn) \<Longrightarrow> (\<And>v. safe fn p (k v)) \<Longrightarrow> safe fn p (local_at i f w k)"
  by (simp add: local_at_def at_pos_def frame_fits_def)

lemma safe_const_at: "i < length (fn_Consts fn) \<Longrightarrow> (\<And>v. safe fn p (k v)) \<Longrightarrow> safe fn p (const_at fn i f w k)"
  by (simp add: const_at_def)

lemma safe_with_iter:
  "at_pos fn p f \<Longrightarrow> in_Op (fn_Code fn ! p) \<in> set iter_ops \<Longrightarrow> (\<And>it. safe fn p (k it)) \<Longrightarrow> safe fn p (with_iter f w k)"
  by (auto simp: with_iter_def safe.simps at_pos_def frame_fits_def stack_fault_def split: list.split)

lemma safe_let: "(\<And>x. x = y \<Longrightarrow> safe fn p (k x)) \<Longrightarrow> safe fn p (let x = y in k x)"
  by simp

lemma safe_pair: "(\<And>x y. safe fn p (k x y)) \<Longrightarrow> safe fn p (case z of (x, y) \<Rightarrow> k x y)"
  by (cases z) simp

lemma safe_option: "(v = None \<Longrightarrow> safe fn p k) \<Longrightarrow> (\<And>x. v = Some x \<Longrightarrow> safe fn p (j x)) \<Longrightarrow> safe fn p (case v of None \<Rightarrow> k | Some x \<Rightarrow> j x)"
  by (cases v) simp_all

lemma safe_if: "(c \<Longrightarrow> safe fn p j) \<Longrightarrow> (\<not> c \<Longrightarrow> safe fn p k) \<Longrightarrow> safe fn p (if c then j else k)"
  by simp

lemma safe_store:
  assumes "at_pos fn p f" "i < length (fn_Locals fn)" "\<And>f w. at_pos fn p f \<Longrightarrow> safe fn p (k f w)"
  shows "safe fn p (storeLocal h fn i v f w k)"
  unfolding storeLocal_def
  by (intro safe_local_at safe_option safe_let safe_pair safe_unless assms(1,2,3)) (simp_all add: assms(1))

lemmas safe_intros = safe_option safe_pair safe_let safe_if safe_raise safe_unless safe_value_or safe_local_at safe_const_at
  safe_store safe_pop safe_peek safe_with_iter safe_push safe_running

section \<open>Groups of instructions\<close>

text \<open>\<open>i\<close> is the instruction at \<open>p\<close>, and not the last one.\<close>

definition inside :: "func \<Rightarrow> nat \<Rightarrow> instruction \<Rightarrow> bool" where
  "inside fn p i = (i = fn_Code fn ! p \<and> p + 1 < length (fn_Code fn))"

lemma safe_binary: "inside fn p i \<Longrightarrow> at_pos fn p f \<Longrightarrow> is_binary (in_Op i) \<Longrightarrow> safe fn p (step_binary h (in_Op i) f w)"
  by (auto simp: step_binary_def inside_def safe.simps at_pos_def frame_fits_def stack_fault_def operands_def value_or_def raise_def
      split: list.splits option.splits prod.splits sum.splits)

lemma safe_unary: "inside fn p i \<Longrightarrow> at_pos fn p f \<Longrightarrow> 0 < operands i \<Longrightarrow> safe fn p (step_unary h opc f w)"
  unfolding step_unary_def by (intro safe_intros) (simp_all add: inside_def)

lemma safe_load_local:
  "inside fn p i \<Longrightarrow> at_pos fn p f \<Longrightarrow> a < length (fn_Locals fn) \<Longrightarrow> in_Op i \<in> set push_ops \<Longrightarrow> safe fn p (step_load_local h fn warn a f w)"
  unfolding step_load_local_def by (intro safe_intros) (simp_all add: inside_def)

lemma safe_store_keep:
  "inside fn p i \<Longrightarrow> at_pos fn p f \<Longrightarrow> a < length (fn_Locals fn) \<Longrightarrow> 0 < operands i \<Longrightarrow> safe fn p (step_store_keep h fn a f w)"
  unfolding step_store_keep_def by (intro safe_intros) (simp_all add: inside_def)

lemma safe_inc_dec:
  assumes "inside fn p i" "at_pos fn p f" "a < length (fn_Locals fn)" "in_Op i \<in> set push_ops"
  shows "safe fn p (step_inc_dec h fn a inc post f w)"
proof -
  have "safe fn p (incDecLocal h fn a inc post f w)" for w
    unfolding incDecLocal_def using assms by (intro safe_intros) (simp_all add: inside_def)
  then show ?thesis
    unfolding step_inc_dec_def using assms by (intro safe_intros) (simp_all add: inside_def)
qed

lemma safe_op_assign:
  "inside fn p i \<Longrightarrow> at_pos fn p f \<Longrightarrow> a < length (fn_Locals fn) \<Longrightarrow> 0 < operands i \<Longrightarrow> safe fn p (step_op_assign h fn a t f w)"
  unfolding step_op_assign_def by (intro safe_intros) (simp_all add: inside_def)

lemma safe_call:
  assumes "inside fn p i" "at_pos fn p f" "in_Op i = OpCallUser"
  shows "safe fn p (step_call h fn name (unat (in_B i)) f w)"
proof -
  have short: "pop_args n args st = None \<Longrightarrow> length st < n" for n args and st :: "'a list"
    by (induction n args st rule: pop_args.induct) auto
  have "\<not> is_binary OpCallUser" by (simp add: is_binary_def)
  then show ?thesis
    using assms short[of "unat (in_B i)" "[]" "fr_stack f"]
    by (auto simp: step_call_def inside_def safe.simps at_pos_def stack_fault_def operands_def value_or_def raise_def push_def frame_fits_def
        push_ops_def split: option.splits prod.splits sum.splits)
qed

lemma safe_foreach_step:
  assumes "inside fn p i" "at_pos fn p f" "in_Op i = OpForeachStep" "a < length (fn_Locals fn)" "b = 0xFFFF \<or> unat b < length (fn_Locals fn)"
    "0 \<le> int p + 1 + d" "int p + 1 + d < int (length (fn_Code fn))"
  shows "safe fn p (step_foreach_step h fn a b d f w)"
proof -
  have out: "safe fn p (Running, goto (fr_pc f + d) f, w)" for w
    using assms by (intro safe_goto) (simp_all add: at_pos_def)
  have turn: "safe fn p (value_or (h_Current h it w) f (\<lambda>cur w. storeLocal h fn a cur f w (\<lambda>f w.
      if b = 0xFFFF then (Running, f, w)
      else value_or (h_Key h it w) f (\<lambda>key w. storeLocal h fn (unat b) key f w (\<lambda>f w. (Running, f, w))))))" for it w
    using assms by (intro safe_value_or safe_store safe_if safe_running) (auto simp: inside_def)
  show ?thesis
    unfolding step_foreach_step_def using assms out turn
    by (intro safe_with_iter) (auto simp: inside_def iter_ops_def split: prod.split bool.split)
qed

section \<open>Returns\<close>

lemma find_finally_in: "find_finally ths k pc = Some (i, th) \<Longrightarrow> th \<in> set ths \<and> th_HasFinally th"
  by (induction ths k pc rule: find_finally.induct) (auto split: if_splits)

lemma typed_funcD:
  assumes "typed_func fn"
  shows "p < length (fn_Code fn) \<Longrightarrow> typed_instr (length (fn_Code fn) - 1) (length (fn_Consts fn)) (length (fn_Locals fn))
      (length (fn_TryHandlers fn)) p (fn_Code fn ! p)"
    "th \<in> set (fn_TryHandlers fn) \<Longrightarrow> typed_handler (length (fn_Code fn) - 1) (length (fn_Locals fn)) th"
    "fn_Code fn \<noteq> []" "in_Op (last (fn_Code fn)) = OpRetNull"
  using assms by (simp_all add: typed_func_def Let_def)

text \<open>The places a handler sends the run to.\<close>

lemma handler_targets:
  assumes "typed_func fn" "th \<in> set (fn_TryHandlers fn)"
  shows "0 \<le> th_AfterCatch th" "th_AfterCatch th + 1 \<le> int (length (fn_Code fn))"
    "th_HasFinally th \<Longrightarrow> 0 \<le> th_FinallyPC th \<and> th_FinallyPC th < int (length (fn_Code fn))"
    "c \<in> set (th_Catches th) \<Longrightarrow> 0 \<le> cc_PC c \<and> cc_PC c < int (length (fn_Code fn)) \<and>
      (cc_VarIdx c = 0xFFFF \<or> unat (cc_VarIdx c) < length (fn_Locals fn))"
proof -
  have t: "typed_handler (length (fn_Code fn) - 1) (length (fn_Locals fn)) th" "0 < length (fn_Code fn)"
    using typed_funcD[OF assms(1)] assms(2) by simp_all
  then show "0 \<le> th_AfterCatch th" "th_AfterCatch th + 1 \<le> int (length (fn_Code fn))"
    "th_HasFinally th \<Longrightarrow> 0 \<le> th_FinallyPC th \<and> th_FinallyPC th < int (length (fn_Code fn))"
    by (auto simp: typed_handler_def)
  show "c \<in> set (th_Catches th) \<Longrightarrow> 0 \<le> cc_PC c \<and> cc_PC c < int (length (fn_Code fn)) \<and>
      (cc_VarIdx c = 0xFFFF \<or> unat (cc_VarIdx c) < length (fn_Locals fn))"
    using t by (fastforce simp: typed_handler_def typed_clause_def)
qed

lemma frame_fits_updates [simp]:
  "frame_fits fn (f\<lparr>fr_stack := st\<rparr>) = frame_fits fn f" "frame_fits fn (set_local x v f) = frame_fits fn f" "frame_fits fn (goto t f) = frame_fits fn f"
  "frame_fits fn (f\<lparr>fr_handlerPending := (fr_handlerPending f)[k := q]\<rparr>) = frame_fits fn f" "frame_fits fn (resetStackTo m f) = frame_fits fn f"
  by (simp_all add: frame_fits_def set_local_def goto_def resetStackTo_def)

lemma fr_pc_goto [simp]: "fr_pc (goto t f) = t"
  by (simp add: goto_def)

lemma safe_route_return:
  assumes "typed_func fn" "at_pos fn p f"
  shows "safe fn p (route_return fn v f w)"
  using assms handler_targets(3)[OF assms(1)] find_finally_in[of "fn_TryHandlers fn" 0 "fr_pc f - 1"]
  by (fastforce simp: route_return_def findEnclosingFinally_def safe.simps at_pos_def split: option.split prod.split)

lemma safe_finally_end:
  assumes "typed_func fn" "inside fn p i" "at_pos fn p f" "k < length (fn_TryHandlers fn)"
  shows "safe fn p (step_finally_end fn k f w)"
proof -
  have "at_pos fn p (f\<lparr>fr_handlerPending := (fr_handlerPending f)[k := pendingNone]\<rparr>)" using assms(3) by (simp add: at_pos_def frame_fits_def)
  note s = safe_route_return[OF assms(1) this] safe_raise[OF this] safe_running[OF this]
  show ?thesis
    using assms s by (auto simp: step_finally_end_def at_pos_def frame_fits_def inside_def Let_def split: pending.split)
qed

section \<open>One instruction\<close>

lemma safe_jump:
  assumes "at_pos fn p f" "0 \<le> int p + 1 + d" "int p + 1 + d < int (length (fn_Code fn))"
  shows "safe fn p (Running, goto (fr_pc f + d) f, w)"
  using assms by (intro safe_goto) (simp_all add: at_pos_def)

lemma safe_jump_if:
  assumes "inside fn p i" "at_pos fn p f" "0 \<le> int p + 1 + d" "int p + 1 + d < int (length (fn_Code fn))"
  shows "safe fn p (Running, jump_if b d f, w)"
proof (cases b)
  case True
  then show ?thesis using safe_jump[OF assms(2-4)] by (simp add: jump_if_def)
next
  case False
  have "safe fn p (Running, f, w)" using assms(1) by (intro safe_running[OF assms(2)]) (simp add: inside_def)
  with False show ?thesis by (simp add: jump_if_def)
qed

lemma at_pos_refresh: "at_pos fn p f \<Longrightarrow> length vs = length (fn_Locals fn) \<Longrightarrow> at_pos fn p (f\<lparr>fr_locals := vs\<rparr>)"
  by (simp add: at_pos_def frame_fits_def)

lemma typed_last:
  assumes "typed_func fn" "p < length (fn_Code fn)" "in_Op (fn_Code fn ! p) \<noteq> OpRetNull"
  shows "inside fn p (fn_Code fn ! p)"
proof -
  have "p \<noteq> length (fn_Code fn) - 1" using typed_funcD(3,4)[OF assms(1)] assms(3) by (auto simp: last_conv_nth)
  then show ?thesis using assms(2) by (simp add: inside_def)
qed

lemmas op_classes = operands_def is_binary_def pop_ops_def push_ops_def iter_ops_def

lemma pop_ops_operands: "in_Op i \<in> set pop_ops \<Longrightarrow> 0 < operands i"
proof -
  assume "in_Op i \<in> set pop_ops"
  moreover from this have "in_Op i \<noteq> OpCallUser" by (auto simp: pop_ops_def)
  ultimately show "0 < operands i" by (simp add: operands_def)
qed

lemma untyped:
  "\<not> typed_ops c l h OpNop a b" "\<not> typed_ops c l h OpDup a b" "\<not> typed_ops c l h OpTryFinally a b"
  "\<not> typed_ops c l h OpRefreshSlots a b"
  by (simp_all add: ops_defs)

lemma safe_dispatch:
  assumes fn: "typed_func fn" "p < length (fn_Code fn)" "at_pos fn p f"
  shows "safe fn p (vm_dispatch h fn (fn_Code fn ! p) f w)"
proof (cases "in_Op (fn_Code fn ! p) = OpRetNull")
  case True
  show ?thesis
    using fn by (auto simp: vm_dispatch_def Let_def True is_binary_def intro!: safe_pair safe_route_return)
next
  case False
  define i where "i = fn_Code fn ! p"
  have ins: "inside fn p i" using typed_last[OF fn(1,2) False] by (simp add: i_def)
  have op: "typed_ops (length (fn_Consts fn)) (length (fn_Locals fn)) (length (fn_TryHandlers fn)) (in_Op i) (in_A i) (in_B i)"
    and jmp: "typed_jump (length (fn_Code fn) - 1) p i"
    using typed_funcD(1)[OF fn(1,2)] by (simp_all add: typed_instr_def i_def)
  have i: "fn_Code fn ! p = i" "p + 1 < length (fn_Code fn)" using ins by (simp_all add: inside_def)
  have c: "in_Op i \<in> set const_ops \<Longrightarrow> unat (in_A i) < length (fn_Consts fn)"
    and l: "in_Op i \<in> set local_ops \<Longrightarrow> unat (in_A i) < length (fn_Locals fn)"
    and hd: "in_Op i = OpFinallyEnd \<Longrightarrow> unat (in_A i) < length (fn_TryHandlers fn)"
    and kd: "in_Op i = OpForeachStep \<Longrightarrow> in_B i = 0xFFFF \<or> unat (in_B i) < length (fn_Locals fn)"
    using op by (simp_all add: typed_ops_def)
  have j: "in_Op i \<in> set jump_ops \<Longrightarrow> 0 \<le> int p + 1 + sint (in_C i)"
      "in_Op i \<in> set jump_ops \<Longrightarrow> int p + 1 + sint (in_C i) < int (length (fn_Code fn))"
    using jmp i(2) by (auto simp: typed_jump_def)
  have nz: "in_Op i \<in> set pop_ops \<Longrightarrow> 0 < operands (fn_Code fn ! p)" using pop_ops_operands i(1) by simp
  have out: "in_Op i \<noteq> OpNop" "in_Op i \<noteq> OpDup" "in_Op i \<noteq> OpTryFinally" "in_Op i \<noteq> OpRefreshSlots"
    using op untyped by metis+
  have known: "in_Op i \<in> set (const_ops @ local_ops @ jump_ops @ plain_ops @ [OpFinallyEnd])"
    using op by (simp add: typed_ops_def)
  have run: "safe fn p (Running, f, w)" for w using fn(3) i(2) by (rule safe_running)
  have push: "in_Op i \<in> set push_ops \<Longrightarrow> safe fn p (push fn v f w)" for v w
    using fn(3) i by (intro safe_push) simp_all
  have pop: "in_Op i \<in> set pop_ops \<Longrightarrow> (\<And>v st. safe fn p (k v (f\<lparr>fr_stack := st\<rparr>))) \<Longrightarrow> safe fn p (pop f w k)" for k w
    using fn(3) nz by (intro safe_pop)
  have peek: "in_Op i \<in> set pop_ops \<Longrightarrow> (\<And>v. safe fn p (k v)) \<Longrightarrow> safe fn p (peek f w k)" for k w
    using fn(3) nz by (intro safe_peek)
  have stack: "at_pos fn p (f\<lparr>fr_stack := st\<rparr>)" for st using fn(3) by simp
  have fore: "safe fn p (step_foreach_init h fn (sint (in_C i)) f w)" if o: "in_Op i = OpForeachInit"
    unfolding step_foreach_init_def
  proof (rule pop)
    show "in_Op i \<in> set pop_ops" by (simp add: o pop_ops_def)
    fix v st
    let ?f = "f\<lparr>fr_stack := st\<rparr>"
    have "safe fn p (Running, goto (fr_pc ?f + sint (in_C i)) ?f, w)" for w
      by (rule safe_jump[OF stack j]) (simp_all add: o jump_ops_def)
    moreover have "safe fn p (Running, ?f\<lparr>fr_iters := its\<rparr>, w)" for its w using stack i(2) by (intro safe_running) simp_all
    ultimately show "safe fn p (value_or (h_foreachInit h v w) ?f (\<lambda>it w. case it of
        None \<Rightarrow> (Running, goto (fr_pc ?f + sint (in_C i)) ?f, h_foreachWarn h v (LocAt fn (fr_pc ?f - 1)) w)
      | Some it \<Rightarrow> (Running, ?f\<lparr>fr_iters := it # fr_iters ?f\<rparr>, w)))"
      by (intro safe_value_or safe_option stack) simp_all
  qed
  note jump = safe_jump_if[OF ins fn(3) j] and jump' = safe_jump_if[OF ins stack j]
  have jmp: "in_Op i \<in> set jump_ops \<Longrightarrow> safe fn p (Running, goto (fr_pc f + sint (in_C i)) f, w)" for w
    using safe_jump[OF fn(3) j] .
  show ?thesis
    unfolding vm_dispatch_def Let_def i(1)
    apply (intro safe_if)
    subgoal using out by simp
    subgoal by (intro safe_const_at push c) (simp_all add: push_ops_def const_ops_def)
    subgoal by (intro safe_pair push) (simp add: push_ops_def)
    subgoal by (intro safe_pair push) (simp add: push_ops_def)
    subgoal by (intro safe_pair push) (simp add: push_ops_def)
    subgoal by (intro safe_load_local[OF ins fn(3)] l) (simp_all add: push_ops_def local_ops_def)
    subgoal by (intro safe_load_local[OF ins fn(3)] l) (simp_all add: push_ops_def local_ops_def)
    subgoal by (rule pop, simp add: pop_ops_def, rule safe_store[OF stack], rule l, simp add: local_ops_def, rule safe_running) (use i in simp_all)
    subgoal using nz by (intro safe_store_keep[OF ins fn(3)] l) (simp_all add: pop_ops_def local_ops_def i)
    subgoal using out by simp
    subgoal by (rule pop, simp add: pop_ops_def, rule safe_running) (use fn(3) i in simp_all)
    subgoal by (rule safe_binary[OF ins fn(3)])
    subgoal using nz by (intro safe_unary[OF ins fn(3)]) (auto simp: pop_ops_def i)
    subgoal by (rule peek, simp add: pop_ops_def, intro safe_pair safe_running) (use fn(3) i in simp_all)
    subgoal by (intro safe_inc_dec[OF ins fn(3)] l) (simp_all add: push_ops_def local_ops_def)
    subgoal by (intro safe_inc_dec[OF ins fn(3)] l) (simp_all add: push_ops_def local_ops_def)
    subgoal by (intro safe_inc_dec[OF ins fn(3)] l) (simp_all add: push_ops_def local_ops_def)
    subgoal by (intro safe_inc_dec[OF ins fn(3)] l) (simp_all add: push_ops_def local_ops_def)
    subgoal using nz by (intro safe_op_assign[OF ins fn(3)] l) (simp_all add: pop_ops_def local_ops_def i)
    subgoal by (rule jmp) (simp add: jump_ops_def)
    subgoal by (rule pop, simp add: pop_ops_def, rule safe_pair, rule jump'[simplified]) (simp_all add: jump_ops_def)
    subgoal by (rule pop, simp add: pop_ops_def, rule safe_pair, rule jump'[simplified]) (simp_all add: jump_ops_def)
    subgoal by (rule peek, simp add: pop_ops_def, rule safe_pair, rule jump) (simp_all add: jump_ops_def)
    subgoal by (rule peek, simp add: pop_ops_def, rule safe_pair, rule jump) (simp_all add: jump_ops_def)
    subgoal by (rule peek, simp add: pop_ops_def, rule jump) (simp_all add: jump_ops_def)
    subgoal by (intro safe_const_at c, simp add: const_ops_def) (auto intro: safe_call[OF ins fn(3)] safe_raise[OF fn(3)] split: val.split)
    subgoal by (rule pop, simp add: pop_ops_def) (rule safe_route_return[OF fn(1) stack])
    subgoal by (intro safe_pair safe_route_return fn)
    subgoal by (rule safe_finally_end[OF fn(1) ins fn(3)]) (rule hd)
    subgoal by (rule pop, simp add: pop_ops_def) (intro safe_pair safe_raise stack)
    subgoal using out by simp
    subgoal using out by simp
    subgoal by (rule fore)
    subgoal by (intro safe_foreach_step[OF ins fn(3)] l kd j) (simp_all add: local_ops_def jump_ops_def)
    subgoal unfolding step_foreach_advance_def
      by (intro safe_with_iter safe_unless run fn) (simp add: i iter_ops_def)
    subgoal unfolding step_foreach_unwind_def
      by (intro safe_with_iter safe_running fn) (use i fn in \<open>simp_all add: iter_ops_def\<close>)
    subgoal by (intro safe_unless run fn)
    subgoal by (intro safe_const_at c, simp add: const_ops_def) (auto intro: safe_unless[OF fn(3)] run safe_raise[OF fn(3)] split: val.split)
    subgoal by (rule safe_raise[OF fn(3)])
    done
qed

section \<open>Runs\<close>

text \<open>A frame between two instructions, with an error in flight or not.\<close>

definition ready :: "func \<Rightarrow> 'v verr option \<Rightarrow> 'v frame \<Rightarrow> bool" where
  "ready fn err f =
     (frame_fits fn f \<and> 0 \<le> fr_pc f \<and> fr_pc f \<le> int (length (fn_Code fn)) \<and> (err = None \<longrightarrow> fr_pc f < int (length (fn_Code fn))))"

definition ended :: "func \<Rightarrow> 'v outcome \<Rightarrow> 'v frame \<Rightarrow> bool" where
  "ended fn r f =
     (frame_fits fn f \<and> 0 \<le> fr_pc f \<and> fr_pc f \<le> int (length (fn_Code fn)) \<and> r \<noteq> Running \<and>
      (r = Crash \<longrightarrow> 0 < fr_pc f \<and> stack_fault fn (fn_Code fn ! nat (fr_pc f - 1)) f))"

lemma step_ready:
  assumes fn: "typed_func fn" "ready fn None f" and s: "vm_step h fn f w = (r, f', w')"
  shows "case r of Running \<Rightarrow> ready fn None f' | Raised e \<Rightarrow> ready fn (Some e) f' | _ \<Rightarrow> ended fn r f'"
proof -
  obtain p where p: "fr_pc f = int p" "p < length (fn_Code fn)" "frame_fits fn f"
    using fn(2) by (auto simp: ready_def intro: nonneg_int_cases)
  have "at_pos fn p (goto (int p + 1) f)" using p(3) by (simp add: at_pos_def)
  note d = safe_dispatch[OF fn(1) p(2) this, of h w]
  have "vm_step h fn f w = vm_dispatch h fn (fn_Code fn ! p) (goto (int p + 1) f) w"
    using p by (simp add: vm_step_def)
  with d s have "safe fn p (r, f', w')" by simp
  then show ?thesis using p(2) by (cases r) (auto simp: safe.simps ready_def ended_def)
qed

lemma frame_fits_chain_pending: "frame_fits fn f \<Longrightarrow> chain_pending h pc ex ths k f w = (f', w') \<Longrightarrow> frame_fits fn f' \<and> fr_pc f' = fr_pc f"
  by (induction h pc ex ths k f w rule: chain_pending.induct) (auto split: if_splits)

lemma find_clause_in: "find_clause h cs ex w = (Some c, w') \<Longrightarrow> c \<in> set cs"
  by (induction h cs ex w rule: find_clause.induct) (auto split: prod.splits if_splits)

text \<open>What the handlers may do.\<close>

definition handled_ok :: "func \<Rightarrow> 'v handled \<Rightarrow> 'v frame \<Rightarrow> bool" where
  "handled_ok fn r f = (ready fn (case r of Handled \<Rightarrow> None | _ \<Rightarrow> Some (OtherErr [])) f)"

lemma enter_catch_ok:
  assumes "typed_func fn" "th \<in> set (fn_TryHandlers fn)" "c \<in> set (th_Catches th)" "ready fn (Some e0) f"
    "enter_catch h fn k th c ex f w = (r, f', w')"
  shows "handled_ok fn r f'"
proof -
  note t = handler_targets[OF assms(1,2)]
  have pc: "0 \<le> cc_PC c" "cc_PC c < int (length (fn_Code fn))" using t(4)[OF assms(3)] by simp_all
  have r: "frame_fits fn f" "0 \<le> fr_pc f" "fr_pc f \<le> int (length (fn_Code fn))" using assms(4) by (simp_all add: ready_def)
  have reset: "fr_pc (resetStackTo m f) = fr_pc f" "fr_pc (set_local x v f) = fr_pc f" for m x v and f :: "'a frame"
    by (simp_all add: resetStackTo_def set_local_def)
  show ?thesis
    using assms(5) pc r t(1-3)
    by (auto simp: enter_catch_def Let_def handled_ok_def ready_def reset split: if_splits option.splits prod.splits verr.splits)
qed

lemma try_handlers_ok:
  assumes "typed_func fn" "set ths \<subseteq> set (fn_TryHandlers fn)" "ready fn (Some e0) f"
    "try_handlers h fn pc ex ths k f w = (r, f', w')"
  shows "handled_ok fn r f'"
  using assms(2-4)
proof (induction ths arbitrary: k w)
  case Nil
  then show ?case
    using frame_fits_chain_pending by (fastforce simp: handled_ok_def ready_def split: prod.splits)
next
  case (Cons th ths)
  have th: "th \<in> set (fn_TryHandlers fn)" "set ths \<subseteq> set (fn_TryHandlers fn)" using Cons.prems(1) by auto
  note rest = Cons.IH[OF th(2) Cons.prems(2)]
  note here = enter_catch_ok[OF assms(1) th(1) find_clause_in Cons.prems(2)]
  have fin: "th_HasFinally th \<Longrightarrow> handled_ok fn Handled (goto (th_FinallyPC th) ((resetStackTo (th_StackBase th) f)
      \<lparr>fr_handlerPending := (fr_handlerPending f)[k := q]\<rparr>))" for q
    using handler_targets(3)[OF assms(1) th(1)] Cons.prems(2)
    by (simp add: handled_ok_def ready_def frame_fits_def resetStackTo_def goto_def)
  show ?case
    using Cons.prems(3) rest here fin by (auto simp: Let_def split: if_splits prod.splits option.splits)
qed

lemma dispatch_ok:
  assumes "typed_func fn" "ready fn (Some e0) f" "dispatchTryHandler h fn ex f w = (r, f', w')"
  shows "handled_ok fn r f'"
proof (cases "fn_TryHandlers fn = []")
  case True
  then show ?thesis using assms(2,3) by (auto simp: dispatchTryHandler_def handled_ok_def ready_def)
next
  case False
  then have "try_handlers h fn (fr_pc f - 1) ex (fn_TryHandlers fn) 0 f w = (r, f', w')"
    using assms(3) by (simp add: dispatchTryHandler_def)
  then show ?thesis by (rule try_handlers_ok[OF assms(1) order_refl assms(2)])
qed

lemma vm_exec_ended:
  assumes "vm_exec h fn err f w = Some y" "typed_func fn" "ready fn err f"
  shows "ended fn (fst y) (fst (snd y))"
proof -
  have "typed_func fn \<longrightarrow> ready fn err f \<longrightarrow> ended fn (fst y) (fst (snd y))"
  proof (rule vm_exec.raw_induct[OF _ assms(1)], intro impI)
    fix rec h fn err f w y
    assume ih: "\<And>h fn err f w y. rec h fn err f w = Some y \<Longrightarrow>
        typed_func fn \<longrightarrow> ready fn err f \<longrightarrow> ended fn (fst y) (fst (snd y))"
      and body: "(case err of
          None \<Rightarrow>
            (case vm_step h fn f w of
               (Running, f, w) \<Rightarrow> rec h fn None f w
             | (Finished v, f, w) \<Rightarrow> Some (Finished v, f, w)
             | (Raised e, f, w) \<Rightarrow> rec h fn (Some e) f w
             | (Crash, f, w) \<Rightarrow> Some (Crash, f, w))
        | Some (PhpThrow ex) \<Rightarrow>
            (case dispatchTryHandler h fn ex f w of
               (Handled, f, w) \<Rightarrow> rec h fn None f w
             | (NotHandled, f, w) \<Rightarrow> Some (Raised (PhpThrow ex), f, w)
             | (NewErr e, f, w) \<Rightarrow> rec h fn (Some e) f w)
        | Some e \<Rightarrow> Some (Raised e, f, w)) = Some y"
      and fn: "typed_func fn" and r: "ready fn err f"
    show "ended fn (fst y) (fst (snd y))"
    proof (cases err)
      case None
      obtain r1 f1 w1 where s: "vm_step h fn f w = (r1, f1, w1)" by (metis prod_cases3)
      show ?thesis
        using step_ready[OF fn r[unfolded None] s] ih[of h fn _ f1 w1 y] body fn
        by (cases r1) (auto simp: None s)
    next
      case (Some e)
      show ?thesis
      proof (cases e)
        case (PhpThrow ex)
        obtain r1 f1 w1 where s: "dispatchTryHandler h fn ex f w = (r1, f1, w1)" by (metis prod_cases3)
        show ?thesis
          using dispatch_ok[OF fn r[unfolded Some] s] ih[of h fn _ f1 w1 y] body fn
          by (cases r1) (auto simp: Some PhpThrow s handled_ok_def ready_def ended_def)
      qed (use body r Some in \<open>auto simp: ready_def ended_def\<close>)
    qed
  qed
  then show ?thesis using assms(2,3) by blast
qed

section \<open>Emitted code\<close>

text \<open>C27. Whatever body \<open>Compile\<close> accepts, \<open>switch\<close> and \<open>try\<close> included, its code passes the verifier, as long as it
  has fewer than 2^31 instructions: every opcode is one the machine knows, every constant, local and handler it names
  exists, every jump stays within the code, the code ends with a return, and every handler covers a non-empty range
  of the code, with its catches and its finally behind that range.\<close>

theorem compiled_code_typed:
  assumes "Compile lo source slotOnly body = Some fn" "length (fn_Code fn) < 2 ^ 31"
  shows "typed_func fn"
  by (rule Compile_typed[OF assms])

theorem compiled_code_typed_witness: "typed_func nested_func"
  by (rule compiled_code_typed[OF nested_compiled]) (simp add: nested_func_def)

text \<open>C28. A run of code from \<open>Compile\<close>, on any host, stays within the code and keeps the number of locals; where it
  crashes, the instruction just fetched found too few values on the operand stack, a full operand stack or no iterator:
  it never crashes on a jump, a constant, a local or a handler.\<close>

theorem compiled_run_stays_inside:
  assumes "Compile lo source slotOnly body = Some fn" "length (fn_Code fn) < 2 ^ 31" "length vs = length (fn_Locals fn)"
    "vm_exec h fn None ((acquireFrame fn)\<lparr>fr_locals := vs\<rparr>) w = Some (r, f, w')"
  shows "0 \<le> fr_pc f \<and> fr_pc f \<le> int (length (fn_Code fn)) \<and> length (fr_locals f) = length (fn_Locals fn) \<and>
    (r = Crash \<longrightarrow> 0 < fr_pc f \<and> stack_fault fn (fn_Code fn ! nat (fr_pc f - 1)) f)"
proof -
  have t: "typed_func fn" by (rule Compile_typed[OF assms(1,2)])
  have "ready fn None ((acquireFrame fn)\<lparr>fr_locals := vs\<rparr>)"
    using typed_funcD(3)[OF t] assms(3) by (simp add: ready_def frame_fits_def acquireFrame_def)
  from vm_exec_ended[OF assms(4) t this] show ?thesis by (simp add: ended_def frame_fits_def)
qed

theorem compiled_run_stays_inside_witness:
  "0 < fr_pc elvis_crash \<and> stack_fault elvis_func (fn_Code elvis_func ! nat (fr_pc elvis_crash - 1)) elvis_crash"
proof -
  have "length (fn_Code elvis_func) < 2 ^ 31" by (simp add: elvis_func_def)
  moreover have "length [None, None :: val option] = length (fn_Locals elvis_func)" by (simp add: elvis_func_def)
  ultimately show ?thesis using compiled_run_stays_inside[OF elvis_compiled _ _ vm_exec_upto[OF elvis_exec_upto]] by blast
qed

end
