(* ===== verification/GoHeap.thy ===== *)
theory GoHeap
  imports Main "HOL-Library.Multiset"
begin

text \<open>
  Go's \<^verbatim>\<open>container/heap\<close>, which \<^verbatim>\<open>src/ext/spl/heap.go\<close> and \<^verbatim>\<open>priority_queue.go\<close> call on their slices of
  entries. The comparison may run PHP code, so it threads a state; the locale \<open>heap_order\<close> is its contract.
\<close>

section \<open>Operations\<close>

type_synonym ('e, 's) less_fn = "'e \<Rightarrow> 'e \<Rightarrow> 's \<Rightarrow> bool \<times> 's"

definition swap :: "nat \<Rightarrow> nat \<Rightarrow> 'e list \<Rightarrow> 'e list" where
  "swap i j xs = xs[i := xs ! j, j := xs ! i]"

definition parent :: "nat \<Rightarrow> nat" where
  "parent j = (j - 1) div 2"

function heap_up :: "('e, 's) less_fn \<Rightarrow> nat \<Rightarrow> 'e list \<Rightarrow> 's \<Rightarrow> 'e list \<times> 's" where
  "heap_up L j xs s =
     (if parent j = j then (xs, s)
      else (case L (xs ! j) (xs ! parent j) s of
              (b, s) \<Rightarrow> if b then heap_up L (parent j) (swap (parent j) j xs) s else (xs, s)))"
  by auto
termination
  by (relation "measure (\<lambda>(L, j, xs, s). j)") (auto simp: parent_def)

function heap_down :: "('e, 's) less_fn \<Rightarrow> nat \<Rightarrow> nat \<Rightarrow> 'e list \<Rightarrow> 's \<Rightarrow> 'e list \<times> 's" where
  "heap_down L i n xs s =
     (if 2 * i + 1 \<ge> n then (xs, s)
      else (case if 2 * i + 2 < n then L (xs ! (2 * i + 2)) (xs ! (2 * i + 1)) s else (False, s) of
              (right, s) \<Rightarrow>
                (case L (xs ! (if right then 2 * i + 2 else 2 * i + 1)) (xs ! i) s of
                   (b, s) \<Rightarrow>
                     if b then heap_down L (if right then 2 * i + 2 else 2 * i + 1) n
                       (swap i (if right then 2 * i + 2 else 2 * i + 1) xs) s
                     else (xs, s))))"
  by auto
termination
  by (relation "measure (\<lambda>(L, i, n, xs, s). n - i)") (auto split: if_splits)

declare heap_up.simps [simp del] heap_down.simps [simp del]

fun heap_init_below :: "('e, 's) less_fn \<Rightarrow> nat \<Rightarrow> 'e list \<Rightarrow> 's \<Rightarrow> 'e list \<times> 's" where
  "heap_init_below L 0 xs s = (xs, s)"
| "heap_init_below L (Suc i) xs s =
     (case heap_down L i (length xs) xs s of (xs, s) \<Rightarrow> heap_init_below L i xs s)"

definition heap_Init :: "('e, 's) less_fn \<Rightarrow> 'e list \<Rightarrow> 's \<Rightarrow> 'e list \<times> 's" where
  "heap_Init L xs s = heap_init_below L (length xs div 2) xs s"

definition heap_Push :: "('e, 's) less_fn \<Rightarrow> 'e \<Rightarrow> 'e list \<Rightarrow> 's \<Rightarrow> 'e list \<times> 's" where
  "heap_Push L x xs s = heap_up L (length xs) (xs @ [x]) s"

text \<open>Of a heap that is not empty.\<close>

definition heap_Pop :: "('e, 's) less_fn \<Rightarrow> 'e list \<Rightarrow> 's \<Rightarrow> 'e \<times> 'e list \<times> 's" where
  "heap_Pop L xs s =
     (let n = length xs - 1 in
      case heap_down L 0 n (swap 0 n xs) s of (ys, s) \<Rightarrow> (ys ! n, take n ys, s))"

section \<open>Whatever the comparison answers\<close>

lemma length_swap [simp]: "length (swap i j xs) = length xs"
  by (simp add: swap_def)

lemma mset_swapped [simp]: "i < length xs \<Longrightarrow> j < length xs \<Longrightarrow> mset (swap i j xs) = mset xs"
  by (simp add: swap_def mset_swap)

lemma nth_swap:
  "i < length xs \<Longrightarrow> j < length xs \<Longrightarrow> swap i j xs ! k = (if k = i then xs ! j else if k = j then xs ! i else xs ! k)"
  by (simp add: swap_def nth_list_update)

lemma parent_le [simp]: "parent j \<le> j" and parent_less: "0 < j \<Longrightarrow> parent j < j"
  by (auto simp: parent_def)

lemma parent_same [simp]: "parent j = j \<longleftrightarrow> j = 0"
  by (auto simp: parent_def)

lemma parent_children: "parent k = i \<longleftrightarrow> (k = 2 * i + 1 \<or> k = 2 * i + 2 \<or> (k = 0 \<and> i = 0))"
  by (auto simp: parent_def)

text \<open>The entries are only rearranged.\<close>

lemma mset_heap_up: "j < length xs \<Longrightarrow> mset (fst (heap_up L j xs s)) = mset xs"
proof (induction L j xs s rule: heap_up.induct)
  case (1 L j xs s)
  have "parent j < length xs" using 1(2) parent_le[of j] by linarith
  then show ?case using 1 by (subst heap_up.simps) (auto split: prod.splits)
qed

lemma mset_heap_down:
  "n \<le> length xs \<Longrightarrow> mset (fst (heap_down L i n xs s)) = mset xs \<and>
    (\<forall>k \<ge> n. fst (heap_down L i n xs s) ! k = xs ! k)"
proof (induction L i n xs s rule: heap_down.induct)
  case (1 L i n xs s)
  then show ?case
    by (subst (1 2) heap_down.simps) (auto simp: nth_swap split: prod.splits if_splits)
qed

lemma length_heap_up [simp]: "j < length xs \<Longrightarrow> length (fst (heap_up L j xs s)) = length xs"
  using mset_heap_up[of j xs L s] by (metis size_mset)

lemma length_heap_down [simp]: "n \<le> length xs \<Longrightarrow> length (fst (heap_down L i n xs s)) = length xs"
  using mset_heap_down[of n xs L i s] by (metis size_mset)

lemma mset_heap_Push: "mset (fst (heap_Push L x xs s)) = add_mset x (mset xs)"
  by (simp add: heap_Push_def mset_heap_up)

lemma mset_heap_init_below: "mset (fst (heap_init_below L i xs s)) = mset xs"
proof (induction L i xs s rule: heap_init_below.induct)
  case (2 L i xs s)
  then show ?case using mset_heap_down[of "length xs" xs L i s] by (auto split: prod.splits)
qed simp

lemma mset_heap_Init: "mset (fst (heap_Init L xs s)) = mset xs"
  by (simp add: heap_Init_def mset_heap_init_below)

text \<open>What every comparison keeps of the state, the operations keep.\<close>

lemma heap_up_keeps:
  "\<forall>a b s. P s \<longrightarrow> P (snd (L a b s)) \<Longrightarrow> P s \<Longrightarrow> P (snd (heap_up L j xs s))"
proof (induction L j xs s rule: heap_up.induct)
  case (1 L j xs s)
  then show ?case by (subst heap_up.simps) (auto split: prod.splits; metis snd_conv)
qed

lemma heap_down_leaf: "n \<le> 2 * i + 1 \<Longrightarrow> heap_down L i n xs s = (xs, s)"
  by (subst heap_down.simps) simp

lemma heap_down_inner:
  assumes "2 * i + 1 < n"
    "(if 2 * i + 2 < n then L (xs ! (2 * i + 2)) (xs ! (2 * i + 1)) s else (False, s)) = (r, s1)"
    "L (xs ! (if r then 2 * i + 2 else 2 * i + 1)) (xs ! i) s1 = (b, s2)"
  shows "heap_down L i n xs s =
    (if b then heap_down L (if r then 2 * i + 2 else 2 * i + 1) n (swap i (if r then 2 * i + 2 else 2 * i + 1) xs) s2
     else (xs, s2))"
  using assms(1) by (subst heap_down.simps) (simp only: assms(2,3) prod.case not_le not_less if_False if_not_P[OF iffD2[OF not_le assms(1)]])

lemma heap_down_keeps:
  "\<forall>a b s. P s \<longrightarrow> P (snd (L a b s)) \<Longrightarrow> P s \<Longrightarrow> P (snd (heap_down L i n xs s))"
proof (induction L i n xs s rule: heap_down.induct)
  case (1 L i n xs s)
  obtain r s1 where r: "(if 2 * i + 2 < n then L (xs ! (2 * i + 2)) (xs ! (2 * i + 1)) s else (False, s)) = (r, s1)"
    by (rule prod.exhaust)
  let ?j = "if r then 2 * i + 2 else 2 * i + 1"
  obtain b s2 where b: "L (xs ! ?j) (xs ! i) s1 = (b, s2)" by (rule prod.exhaust)
  have s1: "P s1" using 1(2,3) r by (metis snd_conv)
  have s2: "P s2" using 1(2) s1 b by (metis snd_conv)
  show ?case
  proof (cases "2 * i + 1 < n")
    case True
    have "b \<Longrightarrow> P (snd (heap_down L ?j n (swap i ?j xs) s2))"
      using 1(1)[OF _ r[symmetric] b[symmetric]] 1(2) s2 True by simp
    then show ?thesis using s2 by (simp only: heap_down_inner[OF True r b]) simp
  next
    case False
    then show ?thesis using 1(3) by (simp add: heap_down_leaf)
  qed
qed

lemma heap_Push_keeps:
  "\<forall>a b s. P s \<longrightarrow> P (snd (L a b s)) \<Longrightarrow> P s \<Longrightarrow> P (snd (heap_Push L x xs s))"
  by (simp add: heap_Push_def heap_up_keeps)

lemma heap_Pop_keeps:
  "\<forall>a b s. P s \<longrightarrow> P (snd (L a b s)) \<Longrightarrow> P s \<Longrightarrow> P (snd (snd (heap_Pop L xs s)))"
  using heap_down_keeps[of P L s 0 "length xs - 1" "swap 0 (length xs - 1) xs"]
  by (auto simp: heap_Pop_def Let_def split: prod.splits)

section \<open>A comparison that answers a strict weak order\<close>

text \<open>On entries that satisfy \<open>dom\<close>, in states that satisfy \<open>ok\<close>.\<close>

locale heap_order =
  fixes L :: "('e, 's) less_fn" and less :: "'e \<Rightarrow> 'e \<Rightarrow> bool" and dom :: "'e \<Rightarrow> bool" and ok :: "'s \<Rightarrow> bool"
  assumes answer: "dom a \<Longrightarrow> dom b \<Longrightarrow> ok s \<Longrightarrow> \<exists>s'. L a b s = (less a b, s') \<and> ok s'"
    and asym: "dom a \<Longrightarrow> dom b \<Longrightarrow> less a b \<Longrightarrow> \<not> less b a"
    and le_trans: "dom a \<Longrightarrow> dom b \<Longrightarrow> dom c \<Longrightarrow> \<not> less b a \<Longrightarrow> \<not> less c b \<Longrightarrow> \<not> less c a"
begin

definition le :: "'e \<Rightarrow> 'e \<Rightarrow> bool" where
  "le a b = (\<not> less b a)"

lemma le_refl: "dom a \<Longrightarrow> le a a"
  unfolding le_def using asym by blast

text \<open>The heap order on the first \<open>n\<close> entries, on the edges below \<open>i0\<close>, except the edges from \<open>p\<close>.\<close>

definition ordered :: "nat \<Rightarrow> nat \<Rightarrow> 'e list \<Rightarrow> (nat \<Rightarrow> bool) \<Rightarrow> bool" where
  "ordered i0 n xs p = (\<forall>j < n. 0 < j \<and> i0 \<le> parent j \<and> \<not> p j \<longrightarrow> le (xs ! parent j) (xs ! j))"

definition is_heap :: "'e list \<Rightarrow> bool" where
  "is_heap xs = ordered 0 (length xs) xs (\<lambda>j. False)"

lemma orderedD: "ordered i0 n xs p \<Longrightarrow> j < n \<Longrightarrow> 0 < j \<Longrightarrow> i0 \<le> parent j \<Longrightarrow> \<not> p j \<Longrightarrow> le (xs ! parent j) (xs ! j)"
  by (simp add: ordered_def)

lemma le_less: "dom a \<Longrightarrow> dom b \<Longrightarrow> less a b \<Longrightarrow> le a b"
  by (simp add: le_def asym)

lemma le_chain: "le a b \<Longrightarrow> le b c \<Longrightarrow> dom a \<Longrightarrow> dom b \<Longrightarrow> dom c \<Longrightarrow> le a c"
  unfolding le_def using le_trans by blast

lemma up_step:
  assumes "j < length xs" "0 < j" "Ball (set xs) dom" "ordered 0 (length xs) xs (\<lambda>k. k = j)"
    "\<forall>k < length xs. parent k = j \<and> 0 < k \<and> 0 < j \<longrightarrow> le (xs ! parent j) (xs ! k)"
    "less (xs ! j) (xs ! parent j)"
  defines "p \<equiv> parent j"
  defines "ys \<equiv> swap p j xs"
  shows "ordered 0 (length ys) ys (\<lambda>k. k = p)"
    "\<forall>k < length ys. parent k = p \<and> 0 < k \<and> 0 < p \<longrightarrow> le (ys ! parent p) (ys ! k)"
proof -
  have p: "p < j" "p < length xs" using assms(1,2) parent_less[of j] by (simp_all add: p_def)
  have d: "k < length xs \<Longrightarrow> dom (xs ! k)" for k using assms(3) by simp
  have nth: "ys ! k = (if k = p then xs ! j else if k = j then xs ! p else xs ! k)" for k
    using p assms(1) by (simp add: ys_def nth_swap)
  have jp: "le (xs ! j) (xs ! p)" using assms(6) d p assms(1) by (simp add: p_def le_less)
  have edge: "k < length xs \<Longrightarrow> 0 < k \<Longrightarrow> k \<noteq> j \<Longrightarrow> le (xs ! parent k) (xs ! k)" for k
    using orderedD[OF assms(4), of k] by simp
  show "ordered 0 (length ys) ys (\<lambda>k. k = p)"
    unfolding ordered_def
  proof (intro allI impI, elim conjE)
    fix k
    assume k: "k < length ys" "0 < k" "k \<noteq> p"
    then have "k < length xs" by (simp add: ys_def)
    moreover have "parent k < k" using k(2) by (rule parent_less)
    moreover have "parent k = p \<Longrightarrow> k \<noteq> j \<Longrightarrow> le (xs ! j) (xs ! k)"
      using le_chain[OF jp] edge[of k] k d[of k] d[OF p(2)] d[OF assms(1)] calculation by metis
    ultimately show "le (ys ! parent k) (ys ! k)"
      using jp edge[of k] k assms(5) p by (auto simp: nth p_def)
  qed
  show "\<forall>k < length ys. parent k = p \<and> 0 < k \<and> 0 < p \<longrightarrow> le (ys ! parent p) (ys ! k)"
  proof (intro allI impI, elim conjE)
    fix k
    assume k: "k < length ys" "parent k = p" "0 < k" "0 < p"
    then have kl: "k < length xs" by (simp add: ys_def)
    have g: "parent p < p" using k(4) by (rule parent_less)
    have gp: "le (xs ! parent p) (xs ! p)" using edge[of p] p k(4) by simp
    have "k \<noteq> j \<Longrightarrow> le (xs ! parent p) (xs ! k)"
      using le_chain[OF gp] edge[of k] k kl d g p by (metis less_trans)
    then show "le (ys ! parent p) (ys ! k)" using g gp p k parent_less[OF k(3)] by (auto simp: nth)
  qed
qed

lemma heap_up_ordered:
  assumes "j < length xs" "Ball (set xs) dom" "ok s" "ordered 0 (length xs) xs (\<lambda>k. k = j)"
    "\<forall>k < length xs. parent k = j \<and> 0 < k \<and> 0 < j \<longrightarrow> le (xs ! parent j) (xs ! k)"
  shows "is_heap (fst (heap_up L j xs s)) \<and> ok (snd (heap_up L j xs s))"
  using assms
proof (induction j arbitrary: xs s rule: less_induct)
  case (less j)
  note 1 = less
  show ?case
  proof (cases "j = 0")
    case True
    then show ?thesis using 1(4,5) by (simp add: heap_up.simps is_heap_def ordered_def)
  next
    case False
    have p: "parent j < length xs" using 1(2) parent_le[of j] by linarith
    obtain s' where s': "L (xs ! j) (xs ! parent j) s = (less (xs ! j) (xs ! parent j), s')" "ok s'"
      using answer 1(2-4) p by (metis nth_mem)
    show ?thesis
    proof (cases "less (xs ! j) (xs ! parent j)")
      case True
      have "set (swap (parent j) j xs) = set xs" using 1(2) p by (metis mset_swapped set_mset_mset)
      then show ?thesis
        using 1(1)[of "parent j" "swap (parent j) j xs" s'] up_step[OF 1(2) _ 1(3,5,6) True] False True s' 1(2,3) p
        by (simp add: heap_up.simps[of _ j] parent_less)
    next
      case notless: False
      then have "is_heap xs" using 1(5) by (auto simp: is_heap_def ordered_def le_def)
      then show ?thesis using notless s' False by (simp add: heap_up.simps[of _ j])
    qed
  qed
qed

text \<open>\<open>heap_down\<close> repairs the edges from \<open>i\<close>.\<close>

definition down_inv :: "nat \<Rightarrow> nat \<Rightarrow> nat \<Rightarrow> 'e list \<Rightarrow> bool" where
  "down_inv i0 i n xs =
     (n \<le> length xs \<and> Ball (set xs) dom \<and> i0 \<le> i \<and> ordered i0 n xs (\<lambda>k. parent k = i) \<and>
      (\<forall>k < n. parent k = i \<and> 0 < k \<and> 0 < i \<and> i0 \<le> parent i \<longrightarrow> le (xs ! parent i) (xs ! k)))"

lemma down_leaf: "down_inv i0 i n xs \<Longrightarrow> \<forall>k < n. parent k = i \<and> 0 < k \<longrightarrow> le (xs ! i) (xs ! k) \<Longrightarrow>
    ordered i0 n xs (\<lambda>k. False)"
  unfolding down_inv_def ordered_def by blast

lemma down_step:
  assumes "down_inv i0 i n xs" "j < n" "parent j = i" "0 < j" "less (xs ! j) (xs ! i)"
    "\<forall>k < n. parent k = i \<and> 0 < k \<longrightarrow> le (xs ! j) (xs ! k)"
  shows "down_inv i0 j n (swap i j xs)"
proof -
  let ?ys = "swap i j xs"
  have i: "i < j" using assms(3,4) parent_less by blast
  have inv: "n \<le> length xs" "Ball (set xs) dom" "i0 \<le> i"
      "\<And>k. k < n \<Longrightarrow> 0 < k \<Longrightarrow> i0 \<le> parent k \<Longrightarrow> parent k \<noteq> i \<Longrightarrow> le (xs ! parent k) (xs ! k)"
      "\<And>k. k < n \<Longrightarrow> parent k = i \<Longrightarrow> 0 < k \<Longrightarrow> 0 < i \<Longrightarrow> i0 \<le> parent i \<Longrightarrow> le (xs ! parent i) (xs ! k)"
    using assms(1) by (auto simp: down_inv_def ordered_def)
  have len: "i < length xs" "j < length xs" using i assms(2) inv(1) by simp_all
  have nth: "?ys ! k = (if k = i then xs ! j else if k = j then xs ! i else xs ! k)" for k
    using len by (simp add: nth_swap)
  have ji: "le (xs ! j) (xs ! i)" using assms(5) inv(2) len by (simp add: le_less)
  have edge: "le (?ys ! parent k) (?ys ! k)" if k: "k < n" "0 < k" "i0 \<le> parent k" "parent k \<noteq> j" for k
  proof (cases "parent k = i")
    case True
    then show ?thesis using ji assms(6) k i parent_less[of k] by (auto simp: nth)
  next
    case False
    then show ?thesis using inv(4)[of k] inv(5)[of j] k parent_less[of k] assms(2-4) by (auto simp: nth)
  qed
  moreover have "le (?ys ! parent j) (?ys ! k)" if "k < n" "parent k = j" "0 < k" for k
    using inv(3) inv(4)[of k] that i assms(3) parent_less[of k] by (auto simp: nth)
  moreover have "set ?ys = set xs" using len by (metis mset_swapped set_mset_mset)
  ultimately show ?thesis using inv(1-3) i by (simp add: down_inv_def ordered_def)
qed

lemma heap_down_ordered:
  assumes "down_inv i0 i n xs" "ok s"
  shows "ordered i0 n (fst (heap_down L i n xs s)) (\<lambda>k. False) \<and> ok (snd (heap_down L i n xs s))"
  using assms
proof (induction "n - i" arbitrary: i xs s rule: less_induct)
  case less
  have d: "k < n \<Longrightarrow> dom (xs ! k)" for k using less(2) by (simp add: down_inv_def)
  show ?case
  proof (cases "2 * i + 1 < n")
    case False
    then have "\<forall>k < n. parent k = i \<and> 0 < k \<longrightarrow> le (xs ! i) (xs ! k)" using parent_children by auto
    then show ?thesis using False down_leaf[OF less(2)] less(3) by (simp add: heap_down_leaf)
  next
    case True
    let ?right = "2 * i + 2 < n \<and> less (xs ! (2 * i + 2)) (xs ! (2 * i + 1))"
    let ?j = "if ?right then 2 * i + 2 else 2 * i + 1"
    obtain s1 where s1: "(if 2 * i + 2 < n then L (xs ! (2 * i + 2)) (xs ! (2 * i + 1)) s else (False, s)) = (?right, s1)" "ok s1"
      using answer[of "xs ! (2 * i + 2)" "xs ! (2 * i + 1)" s] d[of "2 * i + 2"] d[of "2 * i + 1"] True less(3)
      by (cases "2 * i + 2 < n") auto
    have j: "?j < n" "parent ?j = i" "0 < ?j" "i < ?j" using True by (auto simp: parent_children)
    obtain s2 where s2: "L (xs ! ?j) (xs ! i) s1 = (less (xs ! ?j) (xs ! i), s2)" "ok s2"
      using answer[OF d[OF j(1)] d[OF order.strict_trans[OF j(4,1)]] s1(2)] by blast
    have left: "dom (xs ! (2 * i + 1))" using d True by blast
    have least1: "le (xs ! ?j) (xs ! (2 * i + 1))"
      using d[of "2 * i + 2"] left le_refl[OF left] le_less by simp
    have least2: "2 * i + 2 < n \<Longrightarrow> le (xs ! ?j) (xs ! (2 * i + 2))"
      using d[of "2 * i + 2"] le_refl by (simp add: le_def)
    have least: "\<forall>k < n. parent k = i \<and> 0 < k \<longrightarrow> le (xs ! ?j) (xs ! k)"
      using least1 least2 unfolding parent_children by blast
    note step = heap_down_inner[OF True s1(1) s2(1)]
    show ?thesis
    proof (cases "less (xs ! ?j) (xs ! i)")
      case b: True
      have "n - ?j < n - i" using j by linarith
      from less(1)[OF this down_step[OF less(2) j(1,2,3) b least] s2(2)] b show ?thesis
        by (simp only: step) simp
    next
      case b: False
      have "le (xs ! i) (xs ! ?j)" using b by (simp add: le_def)
      then have "\<forall>k < n. parent k = i \<and> 0 < k \<longrightarrow> le (xs ! i) (xs ! k)"
        using least le_chain[of "xs ! i" "xs ! ?j"] d d[OF order.strict_trans[OF j(4,1)]] d[OF j(1)] by blast
      then show ?thesis using down_leaf[OF less(2)] b s2(2) by (simp only: step) simp
    qed
  qed
qed

lemma init_below_ordered:
  assumes "ordered i (length xs) xs (\<lambda>k. False)" "Ball (set xs) dom" "ok s"
  shows "is_heap (fst (heap_init_below L i xs s)) \<and> ok (snd (heap_init_below L i xs s))"
  using assms
proof (induction i arbitrary: xs s)
  case 0
  then show ?case by (simp add: is_heap_def)
next
  case (Suc i)
  obtain ys s' where ys: "heap_down L i (length xs) xs s = (ys, s')" by (rule prod.exhaust)
  have "down_inv i i (length xs) xs"
    using Suc.prems(1,2) parent_less[of i] by (auto simp: down_inv_def ordered_def)
  from heap_down_ordered[OF this Suc.prems(3)] have o: "ordered i (length xs) ys (\<lambda>k. False)" "ok s'"
    by (simp_all add: ys)
  have "mset ys = mset xs" using mset_heap_down[of "length xs" xs L i s] by (simp add: ys)
  then have "set ys = set xs" "length ys = length xs" by (metis set_mset_mset, metis size_mset)
  then show ?case using Suc.IH[of ys s'] o Suc.prems(2) by (simp add: ys)
qed

lemma heap_Init_heap:
  assumes "Ball (set xs) dom" "ok s"
  shows "is_heap (fst (heap_Init L xs s)) \<and> ok (snd (heap_Init L xs s))"
proof -
  have "ordered (length xs div 2) (length xs) xs (\<lambda>k. False)"
    by (auto simp: ordered_def parent_def)
  from init_below_ordered[OF this assms] show ?thesis by (simp add: heap_Init_def)
qed

lemma heap_Push_heap:
  assumes "is_heap xs" "Ball (set xs) dom" "dom x" "ok s"
  shows "is_heap (fst (heap_Push L x xs s)) \<and> ok (snd (heap_Push L x xs s))"
  unfolding heap_Push_def
proof (rule heap_up_ordered)
  show "ordered 0 (length (xs @ [x])) (xs @ [x]) (\<lambda>k. k = length xs)"
    using assms(1) le_less_trans[OF parent_le] by (auto simp: ordered_def is_heap_def nth_append less_Suc_eq)
  show "\<forall>k < length (xs @ [x]). parent k = length xs \<and> 0 < k \<and> 0 < length xs \<longrightarrow>
      le ((xs @ [x]) ! parent (length xs)) ((xs @ [x]) ! k)"
    using parent_le by (auto simp: less_Suc_eq dest!: parent_less)
qed (use assms in auto)

text \<open>The root is below every entry.\<close>

lemma root_least:
  assumes "is_heap xs" "Ball (set xs) dom" "j < length xs"
  shows "le (xs ! 0) (xs ! j)"
  using assms(3)
proof (induction j rule: less_induct)
  case (less j)
  show ?case
  proof (cases "j = 0")
    case True
    then show ?thesis using assms(2) less(2) le_refl by simp
  next
    case False
    then have p: "parent j < j" by (simp add: parent_less)
    then have "le (xs ! parent j) (xs ! j)" "le (xs ! 0) (xs ! parent j)"
      using assms(1) False less by (auto simp: is_heap_def ordered_def)
    then show ?thesis using le_chain assms(2) less(2) p by (metis bot_nat_0.not_eq_extremum less_trans nth_mem not_less_zero)
  qed
qed

lemma heap_Pop_heap:
  assumes "is_heap xs" "Ball (set xs) dom" "xs \<noteq> []" "ok s"
  obtains ys s' where "heap_Pop L xs s = (xs ! 0, ys, s')" "is_heap ys" "ok s'" "add_mset (xs ! 0) (mset ys) = mset xs"
proof -
  let ?n = "length xs - 1"
  let ?zs = "swap 0 ?n xs"
  obtain ys s' where ys: "heap_down L 0 ?n ?zs s = (ys, s')" by (rule prod.exhaust)
  have n: "?n < length xs" "0 < length xs" using assms(3) by simp_all
  have nth: "?zs ! k = (if k = 0 then xs ! ?n else if k = ?n then xs ! 0 else xs ! k)" for k
    using n by (simp add: nth_swap)
  have "set ?zs = set xs" using n by (metis mset_swapped set_mset_mset)
  moreover have "ordered 0 ?n ?zs (\<lambda>k. parent k = 0)"
    unfolding ordered_def
  proof (intro allI impI, elim conjE)
    fix j
    assume j: "j < ?n" "0 < j" "parent j \<noteq> 0"
    then show "le (?zs ! parent j) (?zs ! j)"
      using assms(1) parent_less[of j] unfolding nth by (simp add: is_heap_def ordered_def)
  qed
  ultimately have "down_inv 0 0 ?n ?zs" using assms(2) by (auto simp: down_inv_def)
  from heap_down_ordered[OF this assms(4)] have o: "ordered 0 ?n ys (\<lambda>k. False)" "ok s'" unfolding ys by simp_all
  have m: "mset ys = mset xs" "ys ! ?n = xs ! 0"
    using mset_heap_down[of ?n ?zs L 0 s] n nth[of ?n] unfolding ys by (simp_all split: if_splits)
  then have len: "length ys = length xs" by (metis size_mset)
  have ne: "ys \<noteq> []" using len assms(3) by auto
  then have "last ys = xs ! 0" "butlast ys = take ?n ys" using m(2) len by (simp_all add: last_conv_nth butlast_conv_take)
  moreover have "mset ys = mset (butlast ys @ [last ys])" using ne by simp
  ultimately have "mset ys = add_mset (xs ! 0) (mset (take ?n ys))" by (simp del: append_butlast_last_id)
  then have "add_mset (xs ! 0) (mset (take ?n ys)) = mset xs" using m(1) by simp
  moreover have "is_heap (take ?n ys)"
    using o(1) len le_less_trans[OF parent_le] n by (auto simp: is_heap_def ordered_def)
  ultimately show thesis using that[of "take ?n ys" s'] o(2) m(2) ys by (simp add: heap_Pop_def Let_def)
qed

end

end
