(* ===== verification/SplHeap.thy ===== *)
theory SplHeap
  imports GoHeap
begin

text \<open>
  \<^verbatim>\<open>src/ext/spl/heap.go\<close>: the classes \<open>SplHeap\<close>, \<open>SplMinHeap\<close>, \<open>SplMaxHeap\<close>. A value compared is a value of
  PHP; a comparison may run user code, which changes the world \<open>'w\<close> and may throw.
\<close>

section \<open>Comparison\<close>

type_synonym ('v, 'e, 'w) compare_fn = "'v \<Rightarrow> 'v \<Rightarrow> 'w \<Rightarrow> ('e + int) \<times> 'w"

text \<open>An entry is a value with its insertion number. The state of a comparison: \<open>corrupted\<close>, \<open>compareErr\<close>, world.\<close>

type_synonym 'v heap_entry = "'v \<times> nat"

definition entry_less :: "('v, 'e, 'w) compare_fn \<Rightarrow> ('v heap_entry, bool \<times> 'e option \<times> 'w) less_fn" where
  "entry_less cmp a b s =
     (case s of (corrupted, err, w) \<Rightarrow>
        (case cmp (fst b) (fst a) w of
           (Inl e, w) \<Rightarrow> (False, True, Some e, w)
         | (Inr c, w) \<Rightarrow> (if c \<noteq> 0 then c < 0 else snd a < snd b, corrupted, err, w)))"

definition minHeapCompare :: "('v, 'e, 'w) compare_fn \<Rightarrow> ('v, 'e, 'w) compare_fn" where
  "minHeapCompare Compare a b w = Compare b a w"

definition maxHeapCompare :: "('v, 'e, 'w) compare_fn \<Rightarrow> ('v, 'e, 'w) compare_fn" where
  "maxHeapCompare Compare a b w = Compare a b w"

section \<open>State\<close>

record ('v, 'e) heap_data =
  hd_entries :: "'v heap_entry list"
  hd_nextIndex :: nat
  hd_corrupted :: bool
  hd_modifying :: bool
  hd_compareErr :: "'e option"
  hd_iterKey :: nat

definition new_heap :: "('v, 'e) heap_data" where
  "new_heap = \<lparr>hd_entries = [], hd_nextIndex = 0, hd_corrupted = False, hd_modifying = False,
     hd_compareErr = None, hd_iterKey = 0\<rparr>"

datatype 'e spl_error =
    HeapCorrupted | BeingModified | EmptyExtract | EmptyPeek | TooFewArgs | NoExtractFlag | Thrown 'e

section \<open>Methods\<close>

text \<open>\<open>None\<close> is an object whose constructor has not run. The comparison of the object is \<open>cmp\<close>.\<close>

type_synonym ('v, 'e, 'w, 'r) heap_method =
  "('v, 'e) heap_data option \<Rightarrow> 'w \<Rightarrow> ('e spl_error + 'r) \<times> ('v, 'e) heap_data option \<times> 'w"

text \<open>The end of a change: the error of the last comparison that failed, or \<open>r\<close>.\<close>

definition heap_end :: "'r \<Rightarrow> 'v heap_entry list \<Rightarrow> bool \<times> 'e option \<times> 'w \<Rightarrow> ('v, 'e) heap_data
    \<Rightarrow> ('e spl_error + 'r) \<times> ('v, 'e) heap_data option \<times> 'w" where
  "heap_end r es s d =
     (case s of (corrupted, err, w) \<Rightarrow>
        (case err of Some e \<Rightarrow> Inl (Thrown e) | None \<Rightarrow> Inr r,
         Some (d\<lparr>hd_entries := es, hd_corrupted := corrupted, hd_modifying := False, hd_compareErr := None\<rparr>), w))"

definition heap_insert :: "('v, 'e, 'w) compare_fn \<Rightarrow> 'v list \<Rightarrow> ('v, 'e, 'w, bool) heap_method" where
  "heap_insert cmp args od w =
     (case od of
        None \<Rightarrow> (Inr True, None, w)
      | Some d \<Rightarrow>
          if hd_corrupted d then (Inl HeapCorrupted, od, w)
          else if hd_modifying d then (Inl BeingModified, od, w)
          else case args of
            [] \<Rightarrow> (Inl TooFewArgs, od, w)
          | v # _ \<Rightarrow>
              (case heap_Push (entry_less cmp) (v, hd_nextIndex d) (hd_entries d) (hd_corrupted d, None, w) of
                 (es, s) \<Rightarrow> heap_end True es s (d\<lparr>hd_nextIndex := hd_nextIndex d + 1\<rparr>)))"

definition heap_extract :: "('v, 'e, 'w) compare_fn \<Rightarrow> ('v, 'e, 'w, 'v) heap_method" where
  "heap_extract cmp od w =
     (case od of
        None \<Rightarrow> (Inl EmptyExtract, None, w)
      | Some d \<Rightarrow>
          if hd_entries d = [] then (Inl EmptyExtract, od, w)
          else if hd_corrupted d then (Inl HeapCorrupted, od, w)
          else if hd_modifying d then (Inl BeingModified, od, w)
          else case heap_Pop (entry_less cmp) (hd_entries d) (hd_corrupted d, None, w) of
            (e, es, s) \<Rightarrow> heap_end (fst e) es s d)"

definition heap_top :: "('v, 'e, 'w, 'v) heap_method" where
  "heap_top od w =
     (case od of
        None \<Rightarrow> (Inl EmptyPeek, None, w)
      | Some d \<Rightarrow>
          if hd_entries d = [] then (Inl EmptyPeek, od, w)
          else if hd_corrupted d then (Inl HeapCorrupted, od, w)
          else (Inr (fst (hd_entries d ! 0)), od, w))"

definition heap_count :: "('v, 'e) heap_data option \<Rightarrow> nat" where
  "heap_count od = (case od of None \<Rightarrow> 0 | Some d \<Rightarrow> length (hd_entries d))"

definition heap_isEmpty :: "('v, 'e) heap_data option \<Rightarrow> bool" where
  "heap_isEmpty od = (case od of None \<Rightarrow> True | Some d \<Rightarrow> length (hd_entries d) = 0)"

text \<open>\<open>None\<close> is null.\<close>

definition heap_current :: "('v, 'e) heap_data option \<Rightarrow> 'v option" where
  "heap_current od =
     (case od of None \<Rightarrow> None | Some d \<Rightarrow> if hd_entries d = [] then None else Some (fst (hd_entries d ! 0)))"

definition heap_key :: "('v, 'e) heap_data option \<Rightarrow> nat option" where
  "heap_key od =
     (case od of None \<Rightarrow> None
      | Some d \<Rightarrow> if hd_entries d = [] then None else Some (length (hd_entries d) - 1))"

text \<open>\<open>next\<close> asks neither whether the heap is corrupted nor whether it is being modified.\<close>

definition heap_next :: "('v, 'e, 'w) compare_fn \<Rightarrow> ('v, 'e, 'w, unit) heap_method" where
  "heap_next cmp od w =
     (case od of
        None \<Rightarrow> (Inr (), None, w)
      | Some d \<Rightarrow>
          if hd_entries d = [] then (Inr (), od, w)
          else case heap_Pop (entry_less cmp) (hd_entries d) (hd_corrupted d, None, w) of
            (e, es, s) \<Rightarrow>
              heap_end () es s (case s of (_, err, _) \<Rightarrow>
                if err = None then d\<lparr>hd_iterKey := hd_iterKey d + 1\<rparr> else d))"

definition heap_rewind :: "('v, 'e) heap_data option \<Rightarrow> ('v, 'e) heap_data option" where
  "heap_rewind od = map_option (\<lambda>d. d\<lparr>hd_iterKey := 0\<rparr>) od"

definition heap_valid :: "('v, 'e) heap_data option \<Rightarrow> bool" where
  "heap_valid od = (case od of None \<Rightarrow> False | Some d \<Rightarrow> length (hd_entries d) > 0)"

definition heap_isCorrupted :: "('v, 'e) heap_data option \<Rightarrow> bool" where
  "heap_isCorrupted od = (case od of None \<Rightarrow> False | Some d \<Rightarrow> hd_corrupted d)"

definition heap_recover :: "('v, 'e) heap_data option \<Rightarrow> ('v, 'e) heap_data option" where
  "heap_recover od = map_option (\<lambda>d. d\<lparr>hd_corrupted := False\<rparr>) od"

text \<open>\<open>Clone\<close> copies the slice; \<open>modifying\<close> and \<open>compareErr\<close> start afresh.\<close>

definition heap_Clone :: "('v, 'e) heap_data \<Rightarrow> ('v, 'e) heap_data" where
  "heap_Clone d = d\<lparr>hd_modifying := False, hd_compareErr := None\<rparr>"

text \<open>\<open>__unserialize\<close> on the values of \<open>heap_elements\<close>.\<close>

definition heap_restore :: "('v, 'e, 'w) compare_fn \<Rightarrow> 'v list \<Rightarrow> 'w \<Rightarrow> ('v, 'e) heap_data \<times> 'w" where
  "heap_restore cmp vs w =
     (case heap_Init (entry_less cmp) (zip vs [0..<length vs]) (False, None, w) of
        (es, corrupted, err, w) \<Rightarrow>
          (new_heap\<lparr>hd_entries := es, hd_nextIndex := length vs, hd_corrupted := corrupted, hd_compareErr := err\<rparr>, w))"

section \<open>Sessions\<close>

text \<open>Insert the values in turn; extract \<open>n\<close> times; both stop at an error.\<close>

fun insert_all :: "('v, 'e, 'w) compare_fn \<Rightarrow> 'v list \<Rightarrow> ('v, 'e, 'w, unit) heap_method" where
  "insert_all cmp [] od w = (Inr (), od, w)"
| "insert_all cmp (v # vs) od w =
     (case heap_insert cmp [v] od w of
        (Inl e, od, w) \<Rightarrow> (Inl e, od, w)
      | (Inr _, od, w) \<Rightarrow> insert_all cmp vs od w)"

fun extract_times :: "nat \<Rightarrow> ('v, 'e, 'w) compare_fn \<Rightarrow> ('v, 'e, 'w, 'v list) heap_method" where
  "extract_times 0 cmp od w = (Inr [], od, w)"
| "extract_times (Suc n) cmp od w =
     (case heap_extract cmp od w of
        (Inl e, od, w) \<Rightarrow> (Inl e, od, w)
      | (Inr v, od, w) \<Rightarrow>
          (case extract_times n cmp od w of
             (Inl e, od, w) \<Rightarrow> (Inl e, od, w)
           | (Inr vs, od, w) \<Rightarrow> (Inr (v # vs), od, w)))"

section \<open>A comparison that orders the values\<close>

locale value_order =
  fixes cmp :: "('v, 'e, 'w) compare_fn" and good :: "'v \<Rightarrow> bool" and before :: "'v \<Rightarrow> 'v \<Rightarrow> bool"
  assumes cmp: "good a \<Longrightarrow> good b \<Longrightarrow>
      \<exists>c w'. cmp b a w = (Inr c, w') \<and> (c < 0 \<longleftrightarrow> before a b) \<and> (c > 0 \<longleftrightarrow> before b a)"
    and not_before_trans: "good a \<Longrightarrow> good b \<Longrightarrow> good c \<Longrightarrow> \<not> before b a \<Longrightarrow> \<not> before c b \<Longrightarrow> \<not> before c a"
begin

definition entry_before :: "'v heap_entry \<Rightarrow> 'v heap_entry \<Rightarrow> bool" where
  "entry_before a b = (before (fst a) (fst b) \<or> (\<not> before (fst b) (fst a) \<and> snd a < snd b))"

definition good_entry :: "'v heap_entry \<Rightarrow> bool" where
  "good_entry a = good (fst a)"

definition calm :: "bool \<times> 'e option \<times> 'w \<Rightarrow> bool" where
  "calm s = (\<not> fst s \<and> fst (snd s) = None)"

lemma before_asym: "good a \<Longrightarrow> good b \<Longrightarrow> before a b \<Longrightarrow> \<not> before b a"
  using cmp[of a b] by force

end

sublocale value_order \<subseteq> heap_order "entry_less cmp" entry_before good_entry calm
proof
  fix a b s assume a: "good_entry a" "good_entry b" "calm s"
  obtain w where s: "s = (False, None, w)" using a(3) by (cases s) (auto simp: calm_def)
  obtain c w' where c: "cmp (fst b) (fst a) w = (Inr c, w')" "c < 0 \<longleftrightarrow> before (fst a) (fst b)"
      "c > 0 \<longleftrightarrow> before (fst b) (fst a)"
    using cmp[of "fst a" "fst b" w] a(1,2) by (auto simp: good_entry_def)
  show "\<exists>s'. entry_less cmp a b s = (entry_before a b, s') \<and> calm s'"
    using c by (auto simp: entry_less_def s entry_before_def calm_def)
next
  fix a b assume "good_entry a" "good_entry b" "entry_before a b"
  then show "\<not> entry_before b a" using before_asym[of "fst a" "fst b"] by (auto simp: entry_before_def good_entry_def)
next
  fix a b c assume "good_entry a" "good_entry b" "good_entry c" "\<not> entry_before b a" "\<not> entry_before c b"
  then show "\<not> entry_before c a"
    using not_before_trans[of "fst a" "fst b" "fst c"] not_before_trans[of "fst b" "fst c" "fst a"]
      not_before_trans[of "fst c" "fst a" "fst b"]
    by (auto simp: entry_before_def good_entry_def)
qed

end
