(* ===== verification/SplOrder.thy ===== *)
theory SplOrder
  imports SplHeap
begin

text \<open>The heaps of \<^verbatim>\<open>heap.go\<close> over a comparison that orders the values: they sort, and keep the order of insertion
  between values that compare equal.\<close>

text \<open>\<open>xs\<close> is \<open>vs\<close> sorted by \<open>before\<close>, with equal values in the order of \<open>vs\<close>.\<close>

definition stably_sorted :: "('v \<Rightarrow> 'v \<Rightarrow> bool) \<Rightarrow> 'v list \<Rightarrow> 'v list \<Rightarrow> bool" where
  "stably_sorted before vs xs =
     (mset xs = mset vs \<and> sorted_wrt (\<lambda>a b. \<not> before b a) xs \<and>
      (\<forall>v \<in> set vs. filter (\<lambda>x. \<not> before v x \<and> \<not> before x v) xs = filter (\<lambda>x. \<not> before v x \<and> \<not> before x v) vs))"

lemma sorted_by_index:
  assumes "mset es = mset fs" "sorted (map snd es)" "distinct (map snd fs)" "sorted (map snd fs)"
  shows "es = (fs :: ('v \<times> nat) list)"
proof (rule map_sorted_distinct_set_unique)
  show "inj_on snd (set es \<union> set fs)" using assms(1,3) by (metis Un_absorb distinct_map set_mset_mset)
  show "distinct (map snd es)" using assms(1,3) by (metis mset_map mset_eq_imp_distinct_iff)
  show "set es = set fs" using assms(1) by (metis set_mset_mset)
qed (use assms in auto)

context value_order
begin

definition heap_ok :: "('v, 'e) heap_data \<Rightarrow> bool" where
  "heap_ok d =
     (\<not> hd_corrupted d \<and> \<not> hd_modifying d \<and> is_heap (hd_entries d) \<and> Ball (set (hd_entries d)) good_entry)"

lemma heap_ok_new: "heap_ok new_heap"
  by (simp add: heap_ok_def new_heap_def is_heap_def ordered_def)

lemma insert_ok:
  assumes "heap_ok d" "good v"
  obtains d' w' where "heap_insert cmp [v] (Some d) w = (Inr True, Some d', w')" "heap_ok d'"
    "mset (hd_entries d') = add_mset (v, hd_nextIndex d) (mset (hd_entries d))" "hd_nextIndex d' = Suc (hd_nextIndex d)"
proof -
  obtain es s where es: "heap_Push (entry_less cmp) (v, hd_nextIndex d) (hd_entries d) (False, None, w) = (es, s)"
    by (rule prod.exhaust)
  have "is_heap es \<and> calm s"
    using heap_Push_heap[of "hd_entries d" "(v, hd_nextIndex d)" "(False, None, w)"] assms es
    by (simp add: heap_ok_def good_entry_def calm_def)
  moreover have m: "mset es = add_mset (v, hd_nextIndex d) (mset (hd_entries d))"
    using mset_heap_Push[of "entry_less cmp" "(v, hd_nextIndex d)" "hd_entries d" "(False, None, w)"] by (simp add: es)
  moreover have "set es = insert (v, hd_nextIndex d) (set (hd_entries d))"
    using arg_cong[OF m, of set_mset] by simp
  ultimately show thesis
    using that assms es by (cases s) (auto simp: heap_insert_def heap_end_def heap_ok_def calm_def good_entry_def)
qed

lemma extract_ok:
  assumes "heap_ok d" "hd_entries d \<noteq> []"
  obtains e d' w' where "heap_extract cmp (Some d) w = (Inr (fst e), Some d', w')" "heap_ok d'"
    "add_mset e (mset (hd_entries d')) = mset (hd_entries d)" "\<forall>x \<in> set (hd_entries d). le e x"
proof -
  have h: "is_heap (hd_entries d)" "Ball (set (hd_entries d)) good_entry" using assms(1) by (simp_all add: heap_ok_def)
  have "calm (False, None, w)" by (simp add: calm_def)
  then obtain es s where es: "heap_Pop (entry_less cmp) (hd_entries d) (False, None, w) = (hd_entries d ! 0, es, s)"
      "is_heap es" "calm s" "add_mset (hd_entries d ! 0) (mset es) = mset (hd_entries d)"
    by (rule heap_Pop_heap[OF h assms(2)])
  have "insert (hd_entries d ! 0) (set es) = set (hd_entries d)" using arg_cong[OF es(4), of set_mset] by simp
  moreover have "\<forall>x \<in> set (hd_entries d). le (hd_entries d ! 0) x"
    using root_least[OF h] by (metis in_set_conv_nth)
  ultimately show thesis
    using that[of "hd_entries d ! 0" "d\<lparr>hd_entries := es, hd_corrupted := False, hd_modifying := False, hd_compareErr := None\<rparr>"
        "snd (snd s)"] assms es h
    by (cases s) (auto simp: heap_extract_def heap_end_def heap_ok_def calm_def)
qed

lemma insert_all_ok:
  assumes "heap_ok d" "\<forall>v \<in> set vs. good v"
  shows "\<exists>d' w'. insert_all cmp vs (Some d) w = (Inr (), Some d', w') \<and> heap_ok d' \<and>
    mset (hd_entries d') = mset (hd_entries d) + mset (zip vs [hd_nextIndex d..<hd_nextIndex d + length vs])"
  using assms
proof (induction vs arbitrary: d w)
  case (Cons v vs)
  obtain d1 w1 where 1: "heap_insert cmp [v] (Some d) w = (Inr True, Some d1, w1)" "heap_ok d1"
      "mset (hd_entries d1) = add_mset (v, hd_nextIndex d) (mset (hd_entries d))" "hd_nextIndex d1 = Suc (hd_nextIndex d)"
    using insert_ok[of d v w] Cons.prems by auto
  have "[hd_nextIndex d..<hd_nextIndex d + length (v # vs)]
      = hd_nextIndex d # [Suc (hd_nextIndex d)..<Suc (hd_nextIndex d) + length vs]"
    by (subst upt_rec) simp
  then show ?case using Cons.IH[OF 1(2), of w1] Cons.prems 1 by auto
qed simp

lemma extract_all_ok:
  assumes "heap_ok d"
  shows "\<exists>es d' w'. extract_times (length (hd_entries d)) cmp (Some d) w = (Inr (map fst es), Some d', w') \<and>
    heap_ok d' \<and> hd_entries d' = [] \<and> mset es = mset (hd_entries d) \<and> sorted_wrt le es"
  using assms
proof (induction "length (hd_entries d)" arbitrary: d w)
  case (Suc n)
  then have "hd_entries d \<noteq> []" by auto
  then obtain e d1 w1 where 1: "heap_extract cmp (Some d) w = (Inr (fst e), Some d1, w1)" "heap_ok d1"
      "add_mset e (mset (hd_entries d1)) = mset (hd_entries d)" "\<forall>x \<in> set (hd_entries d). le e x"
    using extract_ok[OF Suc.prems] by metis
  have n: "n = length (hd_entries d1)" using arg_cong[OF 1(3), of size] Suc(2) by simp
  obtain es d2 w2 where 2: "extract_times (length (hd_entries d1)) cmp (Some d1) w1 = (Inr (map fst es), Some d2, w2)"
      "heap_ok d2" "hd_entries d2 = []" "mset es = mset (hd_entries d1)" "sorted_wrt le es"
    using Suc(1)[OF n 1(2), of w1] by blast
  have "mset (e # es) = mset (hd_entries d)" using 1(3) 2(4) by simp
  moreover from this have "sorted_wrt le (e # es)" using 1(4) 2(5) by (metis list.set_intros(2) set_mset_mset sorted_wrt.simps(2))
  moreover have "extract_times (length (hd_entries d)) cmp (Some d) w = (Inr (map fst (e # es)), Some d2, w2)"
    using 1(1) 2(1) unfolding Suc(2)[symmetric] n by simp
  ultimately show ?case using 2(2,3) by blast
qed simp

lemma same_entries:
  "(\<not> before v (fst a) \<and> \<not> before (fst a) v) \<Longrightarrow> (\<not> before v (fst b) \<and> \<not> before (fst b) v) \<Longrightarrow> le a b \<Longrightarrow>
    good v \<Longrightarrow> good_entry a \<Longrightarrow> good_entry b \<Longrightarrow> snd a \<le> snd b"
  using not_before_trans[of "fst b" v "fst a"] not_before_trans[of "fst a" v "fst b"]
  by (auto simp: le_def entry_before_def good_entry_def)

text \<open>Entries in heap order, numbered by their places in \<open>vs\<close>.\<close>

lemma stably_sorted_entries:
  assumes "mset es = mset (zip vs [0..<length vs])" "sorted_wrt le es" "\<forall>v \<in> set vs. good v"
  shows "stably_sorted before vs (map fst es)"
proof -
  let ?z = "zip vs [0..<length vs]"
  have fz: "map fst ?z = vs" "map snd ?z = [0..<length vs]" by simp_all
  have set: "set es = set ?z" using assms(1) by (metis set_mset_mset)
  have good: "e \<in> set es \<Longrightarrow> good_entry e" for e
    using assms(3) set set_zip_leftD[of "fst e" "snd e" vs] by (simp add: good_entry_def)
  have "mset (map fst es) = mset vs" using assms(1) fz(1) by (metis mset_map)
  moreover have "sorted_wrt (\<lambda>a b. \<not> before b a) (map fst es)"
    unfolding sorted_wrt_map
    by (rule sorted_wrt_mono_rel[OF _ assms(2)]) (auto simp: le_def entry_before_def)
  moreover have "filter (\<lambda>x. \<not> before v x \<and> \<not> before x v) (map fst es) = filter (\<lambda>x. \<not> before v x \<and> \<not> before x v) vs"
    if v: "v \<in> set vs" for v
  proof -
    let ?P = "\<lambda>x. \<not> before v x \<and> \<not> before x v"
    let ?E = "filter (\<lambda>e. ?P (fst e)) es" and ?Z = "filter (\<lambda>e. ?P (fst e)) ?z"
    have "sorted (map snd ?E)"
      unfolding sorted_wrt_map
    proof (rule sorted_wrt_mono_rel[OF _ sorted_wrt_filter[OF assms(2)]])
      fix a b assume "a \<in> set ?E" "b \<in> set ?E" "le a b"
      then show "snd a \<le> snd b" using same_entries[of v a b] good assms(3) v by auto
    qed
    moreover have "mset ?E = mset ?Z" by (simp only: mset_filter assms(1))
    moreover have "distinct (map snd ?Z)" by (rule distinct_map_filter) (simp only: fz distinct_upt)
    moreover have "sorted (map snd ?Z)" by (rule sorted_filter) (simp only: fz sorted_upt)
    ultimately have "?E = ?Z" by (intro sorted_by_index)
    then have "map fst ?E = map fst ?Z" by simp
    then have "filter ?P (map fst es) = filter ?P (map fst ?z)" by (simp only: filter_map comp_def)
    then show ?thesis by (simp only: fz)
  qed
  ultimately show ?thesis by (simp add: stably_sorted_def)
qed

lemma session_sorts:
  assumes "\<forall>v \<in> set vs. good v"
  shows "\<exists>d w1 d' w2 xs. insert_all cmp vs (Some new_heap) w = (Inr (), Some d, w1) \<and>
    extract_times (length vs) cmp (Some d) w1 = (Inr xs, Some d', w2) \<and> hd_entries d' = [] \<and>
    stably_sorted before vs xs"
proof -
  obtain d w1 where 1: "insert_all cmp vs (Some new_heap) w = (Inr (), Some d, w1)" "heap_ok d"
      "mset (hd_entries d) = mset (zip vs [0..<length vs])"
    using insert_all_ok[OF heap_ok_new assms, of w] by (auto simp: new_heap_def)
  have "length (hd_entries d) = length vs" using arg_cong[OF 1(3), of size] by simp
  then obtain es d' w2 where 2: "extract_times (length vs) cmp (Some d) w1 = (Inr (map fst es), Some d', w2)"
      "hd_entries d' = []" "mset es = mset (hd_entries d)" "sorted_wrt le es"
    using extract_all_ok[OF 1(2), of w1] by auto
  show ?thesis using 1 2 stably_sorted_entries[OF _ 2(4) assms] by metis
qed

text \<open>A heap restored from its serialised values is a heap again.\<close>

lemma restore_ok:
  assumes "\<forall>v \<in> set vs. good v"
  shows "heap_ok (fst (heap_restore cmp vs w))"
proof -
  let ?z = "zip vs [0..<length vs]"
  have g: "Ball (set ?z) good_entry" using assms by (auto simp: good_entry_def dest: set_zip_leftD)
  obtain es s where es: "heap_Init (entry_less cmp) ?z (False, None, w) = (es, s)" by (rule prod.exhaust)
  have "is_heap es \<and> calm s" using heap_Init_heap[OF g, of "(False, None, w)"] es by (simp add: calm_def)
  moreover have "set es = set ?z" using mset_heap_Init[of "entry_less cmp" ?z "(False, None, w)"] es by (metis fst_conv set_mset_mset)
  ultimately show ?thesis using g by (cases s) (auto simp: heap_restore_def es heap_ok_def new_heap_def calm_def)
qed

end

end
