(* ===== verification/SplQueue.thy ===== *)
theory SplQueue
  imports SplOrder
begin

text \<open>\<^verbatim>\<open>src/ext/spl/priority_queue.go\<close>: the class \<open>SplPriorityQueue\<close>.\<close>

section \<open>State\<close>

record ('v, 'p) priority_entry =
  pe_value :: 'v
  pe_priority :: 'p
  pe_index :: nat

text \<open>\<open>pq_compareFn\<close> is the comparison of a subclass; \<open>pq_tracked\<close> tells whether the heap has its back-reference
  \<open>data\<close>, through which a failed comparison marks the queue.\<close>

record ('v, 'p, 'e, 'w) priority_queue =
  pq_entries :: "('v, 'p) priority_entry list"
  pq_compareFn :: "('p, 'e, 'w) compare_fn option"
  pq_tracked :: bool
  pq_extractFlags :: nat
  pq_nextIndex :: nat
  pq_corrupted :: bool
  pq_compareErr :: "'e option"
  pq_iterKey :: nat

text \<open>The constructor; \<open>cf\<close> is the comparison of the object when its class is not \<open>SplPriorityQueue\<close> itself.\<close>

definition new_queue :: "('p, 'e, 'w) compare_fn option \<Rightarrow> ('v, 'p, 'e, 'w) priority_queue" where
  "new_queue cf = \<lparr>pq_entries = [], pq_compareFn = cf, pq_tracked = True, pq_extractFlags = 1, pq_nextIndex = 0,
     pq_corrupted = False, pq_compareErr = None, pq_iterKey = 0\<rparr>"

definition pq_Clone :: "('v, 'p, 'e, 'w) priority_queue \<Rightarrow> ('v, 'p, 'e, 'w) priority_queue" where
  "pq_Clone d = d\<lparr>pq_compareFn := None, pq_tracked := False, pq_compareErr := None\<rparr>"

section \<open>Comparison\<close>

text \<open>\<open>Less\<close>: the native comparison takes the entries in order, that of a subclass takes them swapped; both ask for a
  positive answer.\<close>

definition pq_Less ::
  "('p, 'e, 'w) compare_fn \<Rightarrow> ('p, 'e, 'w) compare_fn option \<Rightarrow> bool
     \<Rightarrow> (('v, 'p) priority_entry, bool \<times> 'e option \<times> 'w) less_fn" where
  "pq_Less Compare cf tracked a b s =
     (case s of (corrupted, err, w) \<Rightarrow>
        (case (case cf of
                 Some user \<Rightarrow> user (pe_priority b) (pe_priority a) w
               | None \<Rightarrow> Compare (pe_priority a) (pe_priority b) w) of
           (Inl e, w) \<Rightarrow> (False, if tracked then (True, Some e, w) else (corrupted, err, w))
         | (Inr c, w) \<Rightarrow> (if c \<noteq> 0 then c > 0 else pe_index a < pe_index b, corrupted, err, w)))"

abbreviation less_of where
  "less_of Compare d \<equiv> pq_Less Compare (pq_compareFn d) (pq_tracked d)"

section \<open>Methods\<close>

datatype ('v, 'p) extracted = Data 'v | Priority 'p | Both 'v 'p

definition extractValue :: "('v, 'p, 'e, 'w) priority_queue \<Rightarrow> ('v, 'p) priority_entry \<Rightarrow> ('v, 'p) extracted" where
  "extractValue d e =
     (if pq_extractFlags d = 2 then Priority (pe_priority e)
      else if pq_extractFlags d = 3 then Both (pe_value e) (pe_priority e)
      else Data (pe_value e))"

type_synonym ('v, 'p, 'e, 'w, 'r) queue_method =
  "('v, 'p, 'e, 'w) priority_queue option \<Rightarrow> 'w \<Rightarrow> ('e spl_error + 'r) \<times> ('v, 'p, 'e, 'w) priority_queue option \<times> 'w"

definition pq_end :: "'r \<Rightarrow> ('v, 'p) priority_entry list \<Rightarrow> bool \<times> 'e option \<times> 'w \<Rightarrow> ('v, 'p, 'e, 'w) priority_queue
    \<Rightarrow> ('e spl_error + 'r) \<times> ('v, 'p, 'e, 'w) priority_queue option \<times> 'w" where
  "pq_end r es s d =
     (case s of (corrupted, err, w) \<Rightarrow>
        (case err of Some e \<Rightarrow> Inl (Thrown e) | None \<Rightarrow> Inr r,
         Some (d\<lparr>pq_entries := es, pq_corrupted := corrupted, pq_compareErr := None\<rparr>), w))"

definition pq_insert :: "('p, 'e, 'w) compare_fn \<Rightarrow> ('v \<times> 'p) option \<Rightarrow> ('v, 'p, 'e, 'w, bool) queue_method" where
  "pq_insert Compare args od w =
     (case od of
        None \<Rightarrow> (Inr True, None, w)
      | Some d \<Rightarrow>
          if pq_corrupted d then (Inl HeapCorrupted, od, w)
          else case args of
            None \<Rightarrow> (Inl TooFewArgs, od, w)
          | Some (v, p) \<Rightarrow>
              (case heap_Push (less_of Compare d) \<lparr>pe_value = v, pe_priority = p, pe_index = pq_nextIndex d\<rparr>
                      (pq_entries d) (pq_corrupted d, None, w) of
                 (es, s) \<Rightarrow> pq_end True es s (d\<lparr>pq_nextIndex := pq_nextIndex d + 1\<rparr>)))"

definition pq_extract :: "('p, 'e, 'w) compare_fn \<Rightarrow> ('v, 'p, 'e, 'w, ('v, 'p) extracted) queue_method" where
  "pq_extract Compare od w =
     (case od of
        None \<Rightarrow> (Inl EmptyExtract, None, w)
      | Some d \<Rightarrow>
          if pq_entries d = [] then (Inl EmptyExtract, od, w)
          else if pq_corrupted d then (Inl HeapCorrupted, od, w)
          else case heap_Pop (less_of Compare d) (pq_entries d) (pq_corrupted d, None, w) of
            (e, es, s) \<Rightarrow> pq_end (extractValue d e) es s d)"

definition pq_top :: "('v, 'p, 'e, 'w, ('v, 'p) extracted) queue_method" where
  "pq_top od w =
     (case od of
        None \<Rightarrow> (Inl EmptyPeek, None, w)
      | Some d \<Rightarrow>
          if pq_entries d = [] then (Inl EmptyPeek, od, w)
          else if pq_corrupted d then (Inl HeapCorrupted, od, w)
          else (Inr (extractValue d (pq_entries d ! 0)), od, w))"

definition pq_current :: "('v, 'p, 'e, 'w) priority_queue option \<Rightarrow> ('v, 'p) extracted option" where
  "pq_current od =
     (case od of None \<Rightarrow> None
      | Some d \<Rightarrow> if pq_entries d = [] then None else Some (extractValue d (pq_entries d ! 0)))"

definition pq_count :: "('v, 'p, 'e, 'w) priority_queue option \<Rightarrow> nat" where
  "pq_count od = (case od of None \<Rightarrow> 0 | Some d \<Rightarrow> length (pq_entries d))"

definition pq_isEmpty :: "('v, 'p, 'e, 'w) priority_queue option \<Rightarrow> bool" where
  "pq_isEmpty od = (case od of None \<Rightarrow> True | Some d \<Rightarrow> length (pq_entries d) = 0)"

definition pq_key :: "('v, 'p, 'e, 'w) priority_queue option \<Rightarrow> nat option" where
  "pq_key od =
     (case od of None \<Rightarrow> None
      | Some d \<Rightarrow> if pq_entries d = [] then None else Some (length (pq_entries d) - 1))"

text \<open>\<open>next\<close> ignores the error of a comparison (it stays in \<open>compareErr\<close>).\<close>

definition pq_next :: "('p, 'e, 'w) compare_fn \<Rightarrow> ('v, 'p, 'e, 'w) priority_queue option \<Rightarrow> 'w
    \<Rightarrow> ('v, 'p, 'e, 'w) priority_queue option \<times> 'w" where
  "pq_next Compare od w =
     (case od of
        None \<Rightarrow> (None, w)
      | Some d \<Rightarrow>
          if pq_entries d = [] then (od, w)
          else case heap_Pop (less_of Compare d) (pq_entries d) (pq_corrupted d, pq_compareErr d, w) of
            (_, es, corrupted, err, w) \<Rightarrow>
              (Some (d\<lparr>pq_entries := es, pq_corrupted := corrupted, pq_compareErr := err,
                 pq_iterKey := pq_iterKey d + 1\<rparr>), w))"

definition pq_rewind :: "('v, 'p, 'e, 'w) priority_queue option \<Rightarrow> ('v, 'p, 'e, 'w) priority_queue option" where
  "pq_rewind od = map_option (\<lambda>d. d\<lparr>pq_iterKey := 0\<rparr>) od"

definition pq_valid :: "('v, 'p, 'e, 'w) priority_queue option \<Rightarrow> bool" where
  "pq_valid od = (case od of None \<Rightarrow> False | Some d \<Rightarrow> length (pq_entries d) > 0)"

definition pq_setExtractFlags :: "int option \<Rightarrow> ('v, 'p, 'e, 'w, int) queue_method" where
  "pq_setExtractFlags args od w =
     (case od of
        None \<Rightarrow> (Inr 0, None, w)
      | Some d \<Rightarrow>
          (case args of
             None \<Rightarrow> (Inl TooFewArgs, od, w)
           | Some flags \<Rightarrow>
               if flags < 1 \<or> flags > 3 then (Inl NoExtractFlag, od, w)
               else (Inr flags, Some (d\<lparr>pq_extractFlags := nat flags\<rparr>), w)))"

definition pq_isCorrupted :: "('v, 'p, 'e, 'w) priority_queue option \<Rightarrow> bool" where
  "pq_isCorrupted od = (case od of None \<Rightarrow> False | Some d \<Rightarrow> pq_corrupted d)"

definition pq_recover :: "('v, 'p, 'e, 'w) priority_queue option \<Rightarrow> ('v, 'p, 'e, 'w) priority_queue option" where
  "pq_recover od = map_option (\<lambda>d. d\<lparr>pq_corrupted := False\<rparr>) od"

section \<open>The order of the queue\<close>

text \<open>Priorities that the comparison in use orders: \<open>before a b\<close> when \<open>a\<close> is extracted first.\<close>

locale queue_order =
  fixes Compare :: "('p, 'e, 'w) compare_fn" and cf :: "('p, 'e, 'w) compare_fn option"
    and good :: "'p \<Rightarrow> bool" and before :: "'p \<Rightarrow> 'p \<Rightarrow> bool"
  assumes compares: "good a \<Longrightarrow> good b \<Longrightarrow>
      \<exists>c w'. (case cf of Some user \<Rightarrow> user b a w | None \<Rightarrow> Compare a b w) = (Inr c, w') \<and>
        (c > 0 \<longleftrightarrow> before a b) \<and> (c < 0 \<longleftrightarrow> before b a)"
    and not_before_trans: "good a \<Longrightarrow> good b \<Longrightarrow> good c \<Longrightarrow> \<not> before b a \<Longrightarrow> \<not> before c b \<Longrightarrow> \<not> before c a"
begin

definition first :: "('v, 'p) priority_entry \<Rightarrow> ('v, 'p) priority_entry \<Rightarrow> bool" where
  "first a b = (before (pe_priority a) (pe_priority b) \<or>
     (\<not> before (pe_priority b) (pe_priority a) \<and> pe_index a < pe_index b))"

definition good_entry :: "('v, 'p) priority_entry \<Rightarrow> bool" where
  "good_entry a = good (pe_priority a)"

definition calm :: "bool \<times> 'e option \<times> 'w \<Rightarrow> bool" where
  "calm s = (\<not> fst s \<and> fst (snd s) = None)"

lemma before_asym: "good a \<Longrightarrow> good b \<Longrightarrow> before a b \<Longrightarrow> \<not> before b a"
  using compares[of a b] by force

end

sublocale queue_order \<subseteq> heap_order "pq_Less Compare cf tracked" first good_entry calm
proof
  fix a b :: "('v, 'p) priority_entry" and s assume a: "good_entry a" "good_entry b" "calm s"
  obtain w where s: "s = (False, None, w)" using a(3) by (cases s) (auto simp: calm_def)
  obtain c w' where c: "(case cf of Some user \<Rightarrow> user (pe_priority b) (pe_priority a) w
        | None \<Rightarrow> Compare (pe_priority a) (pe_priority b) w) = (Inr c, w')"
      "c > 0 \<longleftrightarrow> before (pe_priority a) (pe_priority b)" "c < 0 \<longleftrightarrow> before (pe_priority b) (pe_priority a)"
    using compares[of "pe_priority a" "pe_priority b" w] a(1,2) by (auto simp: good_entry_def)
  show "\<exists>s'. pq_Less Compare cf tracked a b s = (first a b, s') \<and> calm s'"
    using c(2,3) unfolding pq_Less_def s prod.case c(1) by (auto simp: first_def calm_def)
next
  fix a b :: "('v, 'p) priority_entry" assume "good_entry a" "good_entry b" "first a b"
  then show "\<not> first b a" using before_asym[of "pe_priority a" "pe_priority b"] by (auto simp: first_def good_entry_def)
next
  fix a b c :: "('v, 'p) priority_entry"
  assume "good_entry a" "good_entry b" "good_entry c" "\<not> first b a" "\<not> first c b"
  then show "\<not> first c a"
    using not_before_trans[of "pe_priority a" "pe_priority b" "pe_priority c"]
      not_before_trans[of "pe_priority b" "pe_priority c" "pe_priority a"]
      not_before_trans[of "pe_priority c" "pe_priority a" "pe_priority b"]
    by (auto simp: first_def good_entry_def)
qed

end
