(* ===== verification/SplSpec.thy ===== *)
theory SplSpec
  imports SplQueue
begin

text \<open>The abstract queue that \<open>SplPriorityQueue\<close> implements, and the refinement.\<close>

section \<open>The abstract queue\<close>

text \<open>A list in the order of insertion; the best entry is the first of those that no other comes before.\<close>

fun take_best :: "('p \<Rightarrow> 'p \<Rightarrow> bool) \<Rightarrow> ('x \<Rightarrow> 'p) \<Rightarrow> 'x \<Rightarrow> 'x list \<Rightarrow> 'x \<times> 'x list" where
  "take_best before key x [] = (x, [])"
| "take_best before key x (y # ys) =
     (case take_best before key y ys of
        (b, rest) \<Rightarrow> if before (key b) (key x) then (b, x # rest) else (x, y # ys))"

datatype ('v, 'p) queue_op = Insert 'v 'p | Extract | Top | Count

datatype ('v, 'p) reply = Inserted bool | Got "('v, 'p) extracted" | Empty | Failed | Counted nat

fun spec_op :: "('p \<Rightarrow> 'p \<Rightarrow> bool) \<Rightarrow> ('v, 'p) queue_op \<Rightarrow> ('v \<times> 'p) list \<Rightarrow> ('v, 'p) reply \<times> ('v \<times> 'p) list" where
  "spec_op before (Insert v p) es = (Inserted True, es @ [(v, p)])"
| "spec_op before Extract [] = (Empty, [])"
| "spec_op before Extract (e # es) =
     (case take_best before snd e es of (b, rest) \<Rightarrow> (Got (Data (fst b)), rest))"
| "spec_op before Top [] = (Empty, [])"
| "spec_op before Top (e # es) = (Got (Data (fst (fst (take_best before snd e es)))), e # es)"
| "spec_op before Count es = (Counted (length es), es)"

fun spec_session :: "('p \<Rightarrow> 'p \<Rightarrow> bool) \<Rightarrow> ('v, 'p) queue_op list \<Rightarrow> ('v \<times> 'p) list \<Rightarrow> ('v, 'p) reply list" where
  "spec_session before [] es = []"
| "spec_session before (q # qs) es = (case spec_op before q es of (r, es) \<Rightarrow> r # spec_session before qs es)"

section \<open>The queue of the code\<close>

definition reply_of :: "'e spl_error + ('v, 'p) extracted \<Rightarrow> ('v, 'p) reply" where
  "reply_of r = (case r of Inr x \<Rightarrow> Got x | Inl EmptyExtract \<Rightarrow> Empty | Inl EmptyPeek \<Rightarrow> Empty | _ \<Rightarrow> Failed)"

fun queue_do :: "('p, 'e, 'w) compare_fn \<Rightarrow> ('v, 'p) queue_op \<Rightarrow> ('v, 'p, 'e, 'w) priority_queue option \<Rightarrow> 'w
    \<Rightarrow> ('v, 'p) reply \<times> ('v, 'p, 'e, 'w) priority_queue option \<times> 'w" where
  "queue_do Compare (Insert v p) od w =
     (case pq_insert Compare (Some (v, p)) od w of
        (Inr b, od, w) \<Rightarrow> (Inserted b, od, w) | (Inl _, od, w) \<Rightarrow> (Failed, od, w))"
| "queue_do Compare Extract od w = (case pq_extract Compare od w of (r, od, w) \<Rightarrow> (reply_of r, od, w))"
| "queue_do Compare Top od w = (case pq_top od w of (r, od, w) \<Rightarrow> (reply_of r, od, w))"
| "queue_do Compare Count od w = (Counted (pq_count od), od, w)"

fun queue_session :: "('p, 'e, 'w) compare_fn \<Rightarrow> ('v, 'p) queue_op list \<Rightarrow> ('v, 'p, 'e, 'w) priority_queue option \<Rightarrow> 'w
    \<Rightarrow> ('v, 'p) reply list" where
  "queue_session Compare [] od w = []"
| "queue_session Compare (q # qs) od w =
     (case queue_do Compare q od w of (r, od, w) \<Rightarrow> r # queue_session Compare qs od w)"

section \<open>The refinement\<close>

lemma take_best_map:
  "(\<And>y. key (f y) = key' y) \<Longrightarrow> take_best before key (f x) (map f xs) = map_prod f (map f) (take_best before key' x xs)"
  by (induction xs arbitrary: x) (auto split: prod.splits)

definition pair_of :: "('v, 'p) priority_entry \<Rightarrow> 'v \<times> 'p" where
  "pair_of e = (pe_value e, pe_priority e)"

lemma take_best_pairs:
  "take_best before snd (pair_of x) (map pair_of xs) = map_prod pair_of (map pair_of) (take_best before pe_priority x xs)"
  by (rule take_best_map) (simp add: pair_of_def)

context queue_order
begin

lemma take_best_first:
  assumes "take_best before pe_priority x xs = (b, rest)" "\<forall>e \<in> set (x # xs). good_entry e"
    "sorted_wrt (\<lambda>a b. pe_index a < pe_index b) (x # xs)"
  shows "mset (x # xs) = add_mset b (mset rest) \<and> (\<forall>e \<in> set (x # xs). le b e) \<and>
    sorted_wrt (\<lambda>a b. pe_index a < pe_index b) rest"
  using assms
proof (induction xs arbitrary: x b rest)
  case Nil
  then show ?case by (simp add: le_refl)
next
  case (Cons y ys)
  obtain b' rest' where b': "take_best before pe_priority y ys = (b', rest')" by (rule prod.exhaust)
  have ih: "mset (y # ys) = add_mset b' (mset rest')" "\<forall>e \<in> set (y # ys). le b' e"
      "sorted_wrt (\<lambda>a b. pe_index a < pe_index b) rest'"
    using Cons.IH[OF b'] Cons.prems by auto
  have set: "set (y # ys) = insert b' (set rest')" using arg_cong[OF ih(1), of set_mset] by simp
  have b'in: "b' \<in> set (y # ys)" using set by simp
  have good: "good_entry x" "good_entry b'" using Cons.prems(2) b'in by auto
  have idx: "\<forall>e \<in> set (y # ys). pe_index x < pe_index e" using Cons.prems(3) by simp
  show ?case
  proof (cases "before (pe_priority b') (pe_priority x)")
    case True
    then have r: "b = b'" "rest = x # rest'" using Cons.prems(1) b' by simp_all
    have "le b' x" using True good before_asym[of "pe_priority b'" "pe_priority x"]
      by (auto simp: le_def first_def good_entry_def)
    then show ?thesis using ih idx set by (auto simp: r)
  next
    case False
    then have r: "b = x" "rest = y # ys" using Cons.prems(1) b' by simp_all
    have "le x b'" using False idx b'in by (auto simp: le_def first_def)
    then have "\<forall>e \<in> set (y # ys). le x e" using ih(2) le_chain good Cons.prems(2) by (meson list.set_intros(2))
    then show ?thesis using Cons.prems(3) le_refl[OF good(1)] by (simp add: r)
  qed
qed

text \<open>The entries \<open>xs\<close>, in the order of their numbers (below \<open>n\<close>), are \<open>es\<close>.\<close>

definition lists :: "('v, 'p) priority_entry list \<Rightarrow> nat \<Rightarrow> ('v \<times> 'p) list \<Rightarrow> bool" where
  "lists xs n es =
     (\<exists>ents. mset xs = mset ents \<and> map pair_of ents = es \<and>
        sorted_wrt (\<lambda>a b. pe_index a < pe_index b) ents \<and> (\<forall>e \<in> set ents. pe_index e < n))"

lemma lists_insert:
  assumes "lists xs n es" "mset ys = add_mset e (mset xs)" "pe_index e = n"
  shows "lists ys (Suc n) (es @ [pair_of e])"
proof -
  obtain ents where ents: "mset xs = mset ents" "map pair_of ents = es"
      "sorted_wrt (\<lambda>a b. pe_index a < pe_index b) ents" "\<forall>e \<in> set ents. pe_index e < n"
    using assms(1) by (auto simp: lists_def)
  show ?thesis
    unfolding lists_def using ents assms(2,3) by (intro exI[of _ "ents @ [e]"]) (auto simp: sorted_wrt_append)
qed

text \<open>The queue \<open>d\<close> holds the entries whose values and priorities are \<open>es\<close>, in the order of insertion.\<close>

definition represents :: "('v, 'p, 'e, 'w) priority_queue \<Rightarrow> ('v \<times> 'p) list \<Rightarrow> bool" where
  "represents d es =
     (pq_compareFn d = cf \<and> \<not> pq_corrupted d \<and> pq_extractFlags d = 1 \<and>
      is_heap (pq_entries d) \<and> Ball (set (pq_entries d)) good_entry \<and>
      lists (pq_entries d) (pq_nextIndex d) es)"

lemma represents_new: "represents (new_queue cf) []"
  by (simp add: represents_def lists_def new_queue_def is_heap_def ordered_def)

lemma insert_represents:
  assumes "represents d es" "good p"
  shows "\<exists>d' w'. pq_insert Compare (Some (v, p)) (Some d) w = (Inr True, Some d', w') \<and> represents d' (es @ [(v, p)])"
proof -
  have d: "pq_compareFn d = cf" "\<not> pq_corrupted d" "pq_extractFlags d = 1" "is_heap (pq_entries d)"
      "Ball (set (pq_entries d)) good_entry"
    using assms(1) by (simp_all add: represents_def)
  let ?e = "\<lparr>pe_value = v, pe_priority = p, pe_index = pq_nextIndex d\<rparr>"
  obtain xs s where xs: "heap_Push (less_of Compare d) ?e (pq_entries d) (False, None, w) = (xs, s)"
    by (rule prod.exhaust)
  have "is_heap xs \<and> calm s"
    using heap_Push_heap[OF d(4,5), of ?e "(False, None, w)" "pq_tracked d"] xs assms(2)
    by (simp add: d good_entry_def calm_def)
  moreover have m: "mset xs = add_mset ?e (mset (pq_entries d))"
    using mset_heap_Push[of "less_of Compare d" ?e "pq_entries d" "(False, None, w)"] xs by simp
  moreover have "Ball (set xs) good_entry"
    using arg_cong[OF m, of set_mset] d(5) assms(2) by (simp add: good_entry_def)
  moreover have "lists xs (Suc (pq_nextIndex d)) (es @ [(v, p)])"
    using lists_insert[of "pq_entries d" "pq_nextIndex d" es xs ?e] assms(1) m by (simp add: represents_def pair_of_def)
  ultimately show ?thesis
    using xs d by (cases s) (auto simp: pq_insert_def pq_end_def represents_def calm_def)
qed

lemma root_is_best:
  assumes "represents d es" "pq_entries d \<noteq> []"
  obtains ents e rest where "mset (pq_entries d) = mset ents" "map pair_of ents = es"
    "sorted_wrt (\<lambda>a b. pe_index a < pe_index b) ents" "\<forall>e \<in> set ents. pe_index e < pq_nextIndex d"
    "take_best before pe_priority (hd ents) (tl ents) = (pq_entries d ! 0, rest)" "ents \<noteq> []"
    "mset ents = add_mset (pq_entries d ! 0) (mset rest)" "sorted_wrt (\<lambda>a b. pe_index a < pe_index b) rest"
proof -
  obtain ents where ents: "mset (pq_entries d) = mset ents" "map pair_of ents = es"
      "sorted_wrt (\<lambda>a b. pe_index a < pe_index b) ents" "\<forall>e \<in> set ents. pe_index e < pq_nextIndex d"
    using assms(1) by (auto simp: represents_def lists_def)
  have d: "is_heap (pq_entries d)" "Ball (set (pq_entries d)) good_entry"
    using assms(1) by (simp_all add: represents_def)
  have ne: "ents \<noteq> []" using assms(2) ents(1) by auto
  have set: "set ents = set (pq_entries d)" using ents(1) by (metis set_mset_mset)
  obtain b rest where b: "take_best before pe_priority (hd ents) (tl ents) = (b, rest)" by (rule prod.exhaust)
  have best: "mset ents = add_mset b (mset rest)" "\<forall>e \<in> set ents. le b e"
      "sorted_wrt (\<lambda>a b. pe_index a < pe_index b) rest"
    using take_best_first[OF b] ents(3) d(2) set ne by auto
  have b_in: "b \<in> set ents" using arg_cong[OF best(1), of set_mset] by simp
  have r_in: "pq_entries d ! 0 \<in> set ents" using assms(2) set by simp
  have "le (pq_entries d ! 0) b" using root_least[OF d] b_in set by (metis in_set_conv_nth)
  moreover have "le b (pq_entries d ! 0)" using best(2) r_in by blast
  ultimately have "pe_index b = pe_index (pq_entries d ! 0)" by (auto simp: le_def first_def)
  moreover have "distinct (map pe_index ents)" using ents(3) strict_sorted_iff[of "map pe_index ents"] by (simp add: sorted_wrt_map)
  ultimately have "b = pq_entries d ! 0" using b_in r_in by (simp add: distinct_map inj_on_def)
  then show thesis using that[OF ents] b best ne by simp
qed

lemma extract_represents:
  assumes "represents d (e # es)" "take_best before snd e es = (b, rest)"
  shows "\<exists>d' w'. pq_extract Compare (Some d) w = (Inr (Data (fst b)), Some d', w') \<and> represents d' rest"
proof -
  have d: "pq_compareFn d = cf" "\<not> pq_corrupted d" "pq_extractFlags d = 1" "is_heap (pq_entries d)"
      "Ball (set (pq_entries d)) good_entry"
    using assms(1) by (simp_all add: represents_def)
  have ne: "pq_entries d \<noteq> []" using assms(1) by (auto simp: represents_def lists_def)
  obtain ents er where ents: "mset (pq_entries d) = mset ents" "map pair_of ents = e # es"
      "sorted_wrt (\<lambda>a b. pe_index a < pe_index b) ents" "\<forall>e \<in> set ents. pe_index e < pq_nextIndex d"
      "take_best before pe_priority (hd ents) (tl ents) = (pq_entries d ! 0, er)" "ents \<noteq> []"
      "mset ents = add_mset (pq_entries d ! 0) (mset er)" "sorted_wrt (\<lambda>a b. pe_index a < pe_index b) er"
    using root_is_best[OF assms(1) ne] by metis
  have "e = pair_of (hd ents)" "es = map pair_of (tl ents)" using ents(2,6) by (cases ents; simp)+
  then have "take_best before snd e es = map_prod pair_of (map pair_of) (take_best before pe_priority (hd ents) (tl ents))"
    by (simp add: take_best_pairs)
  then have r: "b = pair_of (pq_entries d ! 0)" "rest = map pair_of er" using assms(2) ents(5) by simp_all
  have "calm (False, None, w)" by (simp add: calm_def)
  then obtain ys s where ys: "heap_Pop (less_of Compare d) (pq_entries d) (False, None, w) = (pq_entries d ! 0, ys, s)"
      "is_heap ys" "calm s" "add_mset (pq_entries d ! 0) (mset ys) = mset (pq_entries d)"
    using heap_Pop_heap[OF d(4,5) ne] unfolding d(1) by metis
  have m: "mset ys = mset er" using ys(4) ents(1,7) by simp
  have "set ys \<subseteq> set (pq_entries d)" "set er \<subseteq> set ents"
    using arg_cong[OF ys(4), of set_mset] arg_cong[OF ents(7), of set_mset] by auto
  then have "Ball (set ys) good_entry" "\<forall>e \<in> set er. pe_index e < pq_nextIndex d" using d(5) ents(4) by auto
  then have "lists ys (pq_nextIndex d) rest" using m ents(8) r(2) by (auto simp: lists_def)
  with \<open>Ball (set ys) good_entry\<close> show ?thesis
    using ys d ne by (cases s) (auto simp: pq_extract_def pq_end_def represents_def calm_def extractValue_def r(1)
        pair_of_def[of "pq_entries d ! 0"])
qed

lemma queue_do_spec:
  assumes "represents d es" "\<forall>v p. q = Insert v p \<longrightarrow> good p" "spec_op before q es = (r, es')"
  shows "\<exists>d' w'. queue_do Compare q (Some d) w = (r, Some d', w') \<and> represents d' es'"
proof (cases q)
  case (Insert v p)
  then show ?thesis using insert_represents[OF assms(1), of p v w] assms(2,3) by auto
next
  case Extract
  show ?thesis
  proof (cases es)
    case Nil
    then have "pq_entries d = []" using assms(1) by (auto simp: represents_def lists_def)
    then show ?thesis using assms Nil Extract by (simp add: pq_extract_def reply_of_def)
  next
    case (Cons e es1)
    obtain b rest where b: "take_best before snd e es1 = (b, rest)" by (rule prod.exhaust)
    then show ?thesis using extract_represents[OF assms(1)[unfolded Cons] b, of w] assms(3) Cons Extract
      by (auto simp: reply_of_def)
  qed
next
  case Top
  show ?thesis
  proof (cases es)
    case Nil
    then have "pq_entries d = []" using assms(1) by (auto simp: represents_def lists_def)
    then show ?thesis using assms Nil Top by (simp add: pq_top_def reply_of_def)
  next
    case (Cons e es1)
    have ne: "pq_entries d \<noteq> []" using assms(1) Cons by (auto simp: represents_def lists_def)
    obtain ents er where ents: "map pair_of ents = es" "ents \<noteq> []"
        "take_best before pe_priority (hd ents) (tl ents) = (pq_entries d ! 0, er)"
      using root_is_best[OF assms(1) ne] by metis
    have "e = pair_of (hd ents)" "es1 = map pair_of (tl ents)" using ents(1,2) Cons by (cases ents; simp)+
    then have "fst (take_best before snd e es1) = pair_of (pq_entries d ! 0)"
      using ents(3) by (simp add: take_best_pairs)
    then show ?thesis using assms Cons Top ne
      by (auto simp: pq_top_def reply_of_def extractValue_def represents_def pair_of_def[of "pq_entries d ! 0"])
  qed
next
  case Count
  have "length (pq_entries d) = length es" using assms(1) by (auto simp: represents_def lists_def dest: mset_eq_length)
  then show ?thesis using assms Count by (auto simp: pq_count_def)
qed

lemma queue_session_spec:
  assumes "represents d es" "\<forall>v p. Insert v p \<in> set qs \<longrightarrow> good p"
  shows "queue_session Compare qs (Some d) w = spec_session before qs es"
  using assms
proof (induction qs arbitrary: d es w)
  case (Cons q qs)
  obtain r es' where r: "spec_op before q es = (r, es')" by (rule prod.exhaust)
  obtain d' w' where "queue_do Compare q (Some d) w = (r, Some d', w')" "represents d' es'"
    using queue_do_spec[OF Cons.prems(1) _ r, of w] Cons.prems(2) by auto
  then show ?case using Cons.IH[of d' es' w'] Cons.prems(2) r by simp
qed simp

end

end
