(* ===== verification/PhpCompare.thy ===== *)
theory PhpCompare
  imports GoStrings
begin

text \<open>
  Comparison of PHP values, \<^verbatim>\<open>src/core/phpv/comparison.go\<close>, with the numeric reading of strings of
  \<^verbatim>\<open>zstring.go\<close>. Floats are a parameter: a type \<open>'f\<close> with the operations the code uses on float64 and the two
  conversions of \<open>strconv\<close>. Objects and resources, whose comparison runs handlers, are left out.
\<close>

section \<open>Strings of the Go library\<close>

lemma rune_shrinks: "s \<noteq> [] \<Longrightarrow> (r, w) = decode_rune s \<Longrightarrow> length s - w < length s"
  using decode_rune_width_pos[of s r w] by simp

text \<open>\<open>for _, c := range s\<close>: the runes of a string.\<close>

function runes :: "bytes \<Rightarrow> rune list" where
  "runes s = (if s = [] then [] else case decode_rune s of (r, w) \<Rightarrow> r # runes (drop w s))"
  by auto
termination
  by (relation "measure length") (auto simp: rune_shrinks)

declare runes.simps [simp del]

definition ascii_space :: "rune \<Rightarrow> bool" where
  "ascii_space r = (r = 32 \<or> (9 \<le> r \<and> r \<le> 13))"

text \<open>\<open>unicode.IsSpace\<close>.\<close>

definition is_space :: "rune \<Rightarrow> bool" where
  "is_space r =
     (ascii_space r \<or> r = 133 \<or> r = 160 \<or> r = 5760 \<or> (8192 \<le> r \<and> r \<le> 8202) \<or> r = 8232 \<or> r = 8233 \<or>
      r = 8239 \<or> r = 8287 \<or> r = 12288)"

function skip_space :: "bytes \<Rightarrow> bytes" where
  "skip_space s =
     (if s = [] then [] else case decode_rune s of (r, w) \<Rightarrow> if is_space r then skip_space (drop w s) else s)"
  by auto
termination
  by (relation "measure length") (auto simp: rune_shrinks)

declare skip_space.simps [simp del]

text \<open>\<open>utf8.DecodeLastRuneInString\<close>: the start of the last rune is searched back over continuation bytes.\<close>

definition rune_start :: "char \<Rightarrow> bool" where
  "rune_start c = (byte c < 128 \<or> 192 \<le> byte c)"

fun last_start :: "bytes \<Rightarrow> nat \<Rightarrow> nat \<Rightarrow> nat" where
  "last_start s 0 i = i"
| "last_start s (Suc k) i = (if i = 0 \<or> rune_start (s ! i) then i else last_start s k (i - 1))"

definition decode_last_rune :: "bytes \<Rightarrow> rune \<times> nat" where
  "decode_last_rune s =
     (if s = [] then (rune_error, 0)
      else if byte (last s) < 128 then (byte (last s), 1)
      else let i = last_start s 2 (length s - 2); (r, w) = decode_rune (drop i s) in
           if i + w = length s then (r, w) else (rune_error, 1))"

function drop_space :: "bytes \<Rightarrow> bytes" where
  "drop_space s =
     (if s = [] then []
      else case decode_last_rune s of (r, w) \<Rightarrow>
        if w > 0 \<and> is_space r then drop_space (take (length s - w) s) else s)"
  by auto
termination
  by (relation "measure length") auto

declare drop_space.simps [simp del]

definition TrimSpace :: "bytes \<Rightarrow> bytes" where
  "TrimSpace s = drop_space (skip_space s)"

text \<open>\<open>strings.Compare\<close>.\<close>

fun str_compare :: "bytes \<Rightarrow> bytes \<Rightarrow> int" where
  "str_compare [] [] = 0"
| "str_compare [] (_ # _) = -1"
| "str_compare (_ # _) [] = 1"
| "str_compare (a # as) (b # bs) =
     (if byte a < byte b then -1 else if byte b < byte a then 1 else str_compare as bs)"

section \<open>Numeric strings\<close>

text \<open>\<open>LooksInt\<close>: the state is \<open>first\<close>, \<open>gotDigit\<close>, \<open>trailing\<close>.\<close>

fun looks_int :: "bool \<Rightarrow> bool \<Rightarrow> bool \<Rightarrow> rune list \<Rightarrow> bool" where
  "looks_int first gotDigit trailing [] = gotDigit"
| "looks_int first gotDigit trailing (c # cs) =
     (if trailing then ascii_space c \<and> looks_int first gotDigit trailing cs
      else if first \<and> (c = 32 \<or> c = 45) then looks_int first gotDigit trailing cs
      else if 48 \<le> c \<and> c \<le> 57 then looks_int False True trailing cs
      else if gotDigit \<and> ascii_space c then looks_int first gotDigit True cs
      else False)"

definition LooksInt :: "bytes \<Rightarrow> bool" where
  "LooksInt s = (s \<noteq> [] \<and> looks_int True False False (runes s))"

text \<open>\<open>IsNumeric\<close>: \<open>gotDot\<close>, \<open>gotE\<close>, \<open>first\<close>, \<open>gotDigit\<close>, \<open>trailing\<close>.\<close>

fun is_numeric :: "bool \<Rightarrow> bool \<Rightarrow> bool \<Rightarrow> bool \<Rightarrow> bool \<Rightarrow> rune list \<Rightarrow> bool" where
  "is_numeric gotDot gotE first gotDigit trailing [] = gotDigit"
| "is_numeric gotDot gotE first gotDigit trailing (c # cs) =
     (if trailing then is_space c \<and> is_numeric gotDot gotE first gotDigit trailing cs
      else if first \<and> is_space c then is_numeric gotDot gotE first gotDigit trailing cs
      else if first \<and> (c = 43 \<or> c = 45) then is_numeric gotDot gotE False gotDigit trailing cs
      else if c = 46 \<and> \<not> gotDot \<and> \<not> gotE then is_numeric True gotE False gotDigit trailing cs
      else if (c = 101 \<or> c = 69) \<and> \<not> gotE \<and> gotDigit then is_numeric gotDot True True gotDigit trailing cs
      else if 48 \<le> c \<and> c \<le> 57 then is_numeric gotDot gotE False True trailing cs
      else if gotDigit \<and> is_space c then is_numeric gotDot gotE first gotDigit True cs
      else False)"

definition IsNumeric :: "bytes \<Rightarrow> bool" where
  "IsNumeric s = (s \<noteq> [] \<and> is_numeric False False True False False (runes s))"

text \<open>What the code uses of float64. \<open>fo_parse\<close> is \<open>strconv.ParseFloat\<close> where it succeeds or overflows to an
  infinity, \<open>fo_format\<close> the string conversion.\<close>

record 'f float_ops =
  fo_lt :: "'f \<Rightarrow> 'f \<Rightarrow> bool"
  fo_isNaN :: "'f \<Rightarrow> bool"
  fo_isZero :: "'f \<Rightarrow> bool"
  fo_of_int :: "int \<Rightarrow> 'f"
  fo_parse :: "bytes \<Rightarrow> 'f option"
  fo_format :: "'f \<Rightarrow> bytes"

datatype 'f numeric = NInt int | NFloat 'f

text \<open>The loop of \<open>AsNumeric\<close>: the phase \<open>p\<close> and the length \<open>i\<close> of the number.\<close>

fun scan_number :: "nat \<Rightarrow> nat \<Rightarrow> bytes \<Rightarrow> nat \<times> nat" where
  "scan_number p i [] = (p, i)"
| "scan_number p i (c # cs) =
     (if is_digit c then scan_number (if p = 0 \<or> p = 3 then p + 1 else p) (i + 1) cs
      else if c = CHR ''+'' \<or> c = CHR ''-'' then
        if p = 0 \<or> p = 3 then scan_number (p + 1) (i + 1) cs else (p, i)
      else if c = CHR ''.'' then
        if p \<le> 1 then scan_number 2 (i + 1) cs else (p, i)
      else if c = CHR ''e'' \<or> c = CHR ''E'' then
        if p < 3 then scan_number 3 (i + 1) cs else (p, i)
      else (p, i))"

definition AsNumeric :: "'f float_ops \<Rightarrow> bytes \<Rightarrow> 'f numeric" where
  "AsNumeric F z =
     (case skip_space z of
        [] \<Rightarrow> NInt 0
      | s \<Rightarrow>
          (case scan_number 0 0 s of
             (p, i) \<Rightarrow>
               (case if p \<le> 1 then parse_int64 (take i s) else None of
                  Some v \<Rightarrow> NInt v
                | None \<Rightarrow> (case fo_parse F (take i s) of Some f \<Rightarrow> NFloat f | None \<Rightarrow> NInt 0))))"

section \<open>Integers of any size\<close>

definition split_minus :: "bytes \<Rightarrow> bool \<times> bytes" where
  "split_minus s = (case s of c # cs \<Rightarrow> if c = CHR ''-'' then (True, cs) else (False, s) | [] \<Rightarrow> (False, s))"

definition strip_zeros :: "bytes \<Rightarrow> bytes" where
  "strip_zeros s = dropWhile (\<lambda>c. c = CHR ''0'') s"

definition CompareIntStrings :: "bytes \<Rightarrow> bytes \<Rightarrow> int" where
  "CompareIntStrings a b =
     (let (aNeg, a) = split_minus (TrimSpace a);
          (bNeg, b) = split_minus (TrimSpace b);
          a = strip_zeros a;
          b = strip_zeros b;
          (a, aNeg) = (if a = [] then (''0'', False) else (a, aNeg));
          (b, bNeg) = (if b = [] then (''0'', False) else (b, bNeg)) in
      if aNeg \<noteq> bNeg then (if aNeg then -1 else 1)
      else
        (let cmp = (if length a \<noteq> length b then (if length a < length b then -1 else 1) else str_compare a b) in
         if aNeg then - cmp else cmp))"

section \<open>Values\<close>

text \<open>Array keys are integers and strings; the entries of an array are in the order of its list.\<close>

datatype akey = KInt int | KStr bytes

datatype 'f pval = PNull | PBool bool | PInt int | PFloat 'f | PString bytes | PArray "(akey \<times> 'f pval) list"

definition AsBool :: "'f float_ops \<Rightarrow> 'f pval \<Rightarrow> bool" where
  "AsBool F v =
     (case v of
        PNull \<Rightarrow> False
      | PBool b \<Rightarrow> b
      | PInt i \<Rightarrow> i \<noteq> 0
      | PFloat f \<Rightarrow> \<not> fo_isZero F f
      | PString s \<Rightarrow> s \<noteq> [] \<and> s \<noteq> ''0''
      | PArray xs \<Rightarrow> xs \<noteq> [])"

text \<open>\<open>AsString\<close> where \<open>Compare\<close> uses it: of numbers and strings.\<close>

definition AsString :: "'f float_ops \<Rightarrow> 'f pval \<Rightarrow> bytes" where
  "AsString F v =
     (case v of
        PInt i \<Rightarrow> format_int i
      | PFloat f \<Rightarrow> fo_format F f
      | PString s \<Rightarrow> s
      | PBool b \<Rightarrow> if b then ''1'' else []
      | PNull \<Rightarrow> []
      | PArray _ \<Rightarrow> ''Array'')"

definition is_null_or_bool :: "'f pval \<Rightarrow> bool" where
  "is_null_or_bool v = (case v of PNull \<Rightarrow> True | PBool _ \<Rightarrow> True | _ \<Rightarrow> False)"

definition is_number :: "'f pval \<Rightarrow> bool" where
  "is_number v = (case v of PInt _ \<Rightarrow> True | PFloat _ \<Rightarrow> True | _ \<Rightarrow> False)"

definition is_nan :: "'f float_ops \<Rightarrow> 'f pval \<Rightarrow> bool" where
  "is_nan F v = (case v of PFloat f \<Rightarrow> fo_isNaN F f | _ \<Rightarrow> False)"

definition bool_compare :: "bool \<Rightarrow> bool \<Rightarrow> int" where
  "bool_compare a b = (if a = b then 0 else if a then 1 else -1)"

text \<open>\<open>ia\<close> and \<open>ib\<close>: the number an operand stands for.\<close>

definition number_of :: "'f float_ops \<Rightarrow> 'f pval \<Rightarrow> 'f numeric option" where
  "number_of F v =
     (case v of
        PInt i \<Rightarrow> Some (NInt i)
      | PFloat f \<Rightarrow> Some (NFloat f)
      | PString s \<Rightarrow> if LooksInt s \<or> IsNumeric s then Some (AsNumeric F s) else None
      | _ \<Rightarrow> None)"

definition as_float :: "'f float_ops \<Rightarrow> 'f numeric \<Rightarrow> 'f" where
  "as_float F n = (case n of NInt i \<Rightarrow> fo_of_int F i | NFloat f \<Rightarrow> f)"

definition numeric_compare :: "'f float_ops \<Rightarrow> 'f numeric \<Rightarrow> 'f numeric \<Rightarrow> int" where
  "numeric_compare F x y =
     (case (x, y) of
        (NInt i, NInt j) \<Rightarrow> if i < j then -1 else if j < i then 1 else 0
      | _ \<Rightarrow>
          (let f = as_float F x; g = as_float F y in
           if fo_lt F f g then -1 else if fo_lt F g f then 1 else 0))"

definition is_float :: "'f numeric \<Rightarrow> bool" where
  "is_float n = (case n of NFloat _ \<Rightarrow> True | NInt _ \<Rightarrow> False)"

text \<open>Two values neither of which is an array: the two strings first, then a number with a string that is not one,
  null and bool, numbers.\<close>

definition compare_scalars :: "'f float_ops \<Rightarrow> 'f pval \<Rightarrow> 'f pval \<Rightarrow> int" where
  "compare_scalars F a b =
     (let ia = number_of F a; ib = number_of F b; strings = str_compare (AsString F a) (AsString F b) in
      case (a, b) of
        (PString s, PString t) \<Rightarrow>
          (case (ia, ib) of
             (Some x, Some y) \<Rightarrow>
               if LooksInt s \<and> LooksInt t \<and> (is_float x \<or> is_float y) then CompareIntStrings s t
               else numeric_compare F x y
           | _ \<Rightarrow> strings)
      | _ \<Rightarrow>
          if is_null_or_bool a \<or> is_null_or_bool b then bool_compare (AsBool F a) (AsBool F b)
          else (case (ia, ib) of (Some x, Some y) \<Rightarrow> numeric_compare F x y | _ \<Rightarrow> strings))"

function Compare :: "'f float_ops \<Rightarrow> 'f pval \<Rightarrow> 'f pval \<Rightarrow> int"
  and compare_entries :: "'f float_ops \<Rightarrow> (akey \<times> 'f pval) list \<Rightarrow> (akey \<times> 'f pval) list \<Rightarrow> int" where
  "Compare F a b =
     (if is_nan F a \<or> is_nan F b then 1
      else case (a, b) of
        (PArray xs, PArray ys) \<Rightarrow>
          if length xs \<noteq> length ys then (if length xs < length ys then -1 else 1) else compare_entries F xs ys
      | (PArray xs, _) \<Rightarrow> if is_null_or_bool b then bool_compare (AsBool F a) (AsBool F b) else 1
      | (_, PArray ys) \<Rightarrow> if is_null_or_bool a then bool_compare (AsBool F a) (AsBool F b) else -1
      | _ \<Rightarrow> compare_scalars F a b)"
| "compare_entries F [] ys = 0"
| "compare_entries F ((k, v) # xs) ys =
     (case map_of ys k of
        None \<Rightarrow> -1
      | Some u \<Rightarrow> (let c = Compare F v u in if c \<noteq> 0 then c else compare_entries F xs ys))"
  by pat_completeness auto
termination
  by (relation "measure (\<lambda>x. case x of Inl (F, a, b) \<Rightarrow> size a | Inr (F, xs, ys) \<Rightarrow> size_list (size_prod (\<lambda>_. 0) size) xs)") auto

declare Compare.simps [simp del]

definition Equals :: "'f float_ops \<Rightarrow> 'f pval \<Rightarrow> 'f pval \<Rightarrow> bool" where
  "Equals F a b = (Compare F a b = 0)"

definition same_type :: "'f pval \<Rightarrow> 'f pval \<Rightarrow> bool" where
  "same_type a b =
     (case (a, b) of
        (PNull, PNull) \<Rightarrow> True | (PBool _, PBool _) \<Rightarrow> True | (PInt _, PInt _) \<Rightarrow> True
      | (PFloat _, PFloat _) \<Rightarrow> True | (PString _, PString _) \<Rightarrow> True | (PArray _, PArray _) \<Rightarrow> True | _ \<Rightarrow> False)"

text \<open>The same keys in the same order with the same values.\<close>

function StrictEquals :: "'f float_ops \<Rightarrow> 'f pval \<Rightarrow> 'f pval \<Rightarrow> bool"
  and strict_entries :: "'f float_ops \<Rightarrow> (akey \<times> 'f pval) list \<Rightarrow> (akey \<times> 'f pval) list \<Rightarrow> bool" where
  "StrictEquals F a b =
     (same_type a b \<and>
      (case (a, b) of
         (PArray xs, PArray ys) \<Rightarrow> length xs = length ys \<and> strict_entries F xs ys
       | _ \<Rightarrow> Compare F a b = 0))"
| "strict_entries F ((k, v) # xs) ((k', v') # ys) = (k = k' \<and> StrictEquals F v v' \<and> strict_entries F xs ys)"
| "strict_entries F [] ys = (ys = [])"
| "strict_entries F (x # xs) [] = False"
  by pat_completeness auto
termination
  by (relation "measure (\<lambda>x. case x of Inl (F, a, b) \<Rightarrow> size a | Inr (F, xs, ys) \<Rightarrow> size_list (size_prod (\<lambda>_. 0) size) xs)") auto

declare StrictEquals.simps [simp del]

end
