(* ===== verification/PhpCompareProps.thy ===== *)
theory PhpCompareProps
  imports PhpCompare
begin

text \<open>What the comparison of PHP values does: antisymmetry, integers of any size, and strict equality.\<close>

section \<open>Antisymmetry\<close>

lemma str_compare_antisym: "str_compare t s = - str_compare s t"
  by (induction s t rule: str_compare.induct) auto

text \<open>The sign and the digits that \<open>CompareIntStrings\<close> compares.\<close>

definition int_norm :: "bytes \<Rightarrow> bool \<times> bytes" where
  "int_norm s =
     (let ns = split_minus (TrimSpace s) in
      if strip_zeros (snd ns) = [] then (False, ''0'') else (fst ns, strip_zeros (snd ns)))"

definition compare_norm :: "bool \<times> bytes \<Rightarrow> bool \<times> bytes \<Rightarrow> int" where
  "compare_norm x y =
     (if fst x \<noteq> fst y then (if fst x then -1 else 1)
      else (let c = (if length (snd x) \<noteq> length (snd y) then (if length (snd x) < length (snd y) then -1 else 1)
              else str_compare (snd x) (snd y)) in if fst x then - c else c))"

lemma CompareIntStrings_norm: "CompareIntStrings s t = compare_norm (int_norm s) (int_norm t)"
  by (simp add: CompareIntStrings_def compare_norm_def int_norm_def Let_def split_beta)

lemma compare_norm_antisym: "compare_norm y x = - compare_norm x y"
  by (simp add: compare_norm_def Let_def str_compare_antisym[of "snd y" "snd x"])

lemma CompareIntStrings_antisym: "CompareIntStrings t s = - CompareIntStrings s t"
  by (simp only: CompareIntStrings_norm compare_norm_antisym[of "int_norm t" "int_norm s"])

definition float_order :: "'f float_ops \<Rightarrow> bool" where
  "float_order F = (\<forall>x y. fo_lt F x y \<longrightarrow> \<not> fo_lt F y x)"

lemma numeric_compare_antisym: "float_order F \<Longrightarrow> numeric_compare F y x = - numeric_compare F x y"
  by (auto simp: numeric_compare_def float_order_def Let_def split: numeric.splits)

lemma bool_compare_antisym: "bool_compare b a = - bool_compare a b"
  by (simp add: bool_compare_def)

text \<open>The comparison of two operands that are both numbers (or read as numbers), or not.\<close>

definition number_or :: "'f float_ops \<Rightarrow> 'f numeric option \<Rightarrow> 'f numeric option \<Rightarrow> int \<Rightarrow> int" where
  "number_or F x y c = (case x of Some n \<Rightarrow> (case y of Some m \<Rightarrow> numeric_compare F n m | None \<Rightarrow> c) | None \<Rightarrow> c)"

lemma number_or_antisym: "float_order F \<Longrightarrow> d = - c \<Longrightarrow> number_or F y x d = - number_or F x y c"
  by (cases x; cases y) (simp_all add: number_or_def, metis numeric_compare_antisym)

lemma compare_strings:
  "compare_scalars F (PString s) (PString t) =
     (if LooksInt s \<and> LooksInt t \<and> (is_float (AsNumeric F s) \<or> is_float (AsNumeric F t)) then CompareIntStrings s t
      else number_or F (number_of F (PString s)) (number_of F (PString t)) (str_compare s t))"
  by (auto simp: compare_scalars_def number_or_def number_of_def Let_def AsString_def)

lemma compare_others:
  "\<not> ((\<exists>s. a = PString s) \<and> (\<exists>t. b = PString t)) \<Longrightarrow>
   compare_scalars F a b =
     (if is_null_or_bool a \<or> is_null_or_bool b then bool_compare (AsBool F a) (AsBool F b)
      else number_or F (number_of F a) (number_of F b) (str_compare (AsString F a) (AsString F b)))"
  by (cases a; cases b) (simp_all add: compare_scalars_def number_or_def Let_def split: option.split)

lemma compare_scalars_antisym:
  assumes "float_order F"
  shows "compare_scalars F b a = - compare_scalars F a b"
proof (cases "(\<exists>s. a = PString s) \<and> (\<exists>t. b = PString t)")
  case True
  then obtain s t where st: "a = PString s" "b = PString t" by blast
  have "number_or F (number_of F (PString t)) (number_of F (PString s)) (str_compare t s)
      = - number_or F (number_of F (PString s)) (number_of F (PString t)) (str_compare s t)"
    by (rule number_or_antisym[OF assms str_compare_antisym])
  then show ?thesis
    unfolding st compare_strings CompareIntStrings_antisym[of t s] by (simp only: split: if_splits) blast
next
  case False
  then have False': "\<not> ((\<exists>s. b = PString s) \<and> (\<exists>t. a = PString t))" by blast
  have "number_or F (number_of F b) (number_of F a) (str_compare (AsString F b) (AsString F a))
      = - number_or F (number_of F a) (number_of F b) (str_compare (AsString F a) (AsString F b))"
    by (rule number_or_antisym[OF assms str_compare_antisym])
  then show ?thesis
    unfolding compare_others[OF False] compare_others[OF False'] bool_compare_antisym[of "AsBool F b" "AsBool F a"]
    by (simp only: split: if_splits) blast
qed

section \<open>Integers of any size\<close>

definition blank :: "char \<Rightarrow> bool" where
  "blank c = ascii_space (byte c)"

definition int_text :: "bytes \<Rightarrow> bool \<Rightarrow> bytes \<Rightarrow> bytes \<Rightarrow> bytes" where
  "int_text ws neg ds ws' = ws @ (if neg then ''-'' else []) @ ds @ ws'"

text \<open>The integer that sign and digits denote.\<close>

definition denotes :: "bool \<Rightarrow> bytes \<Rightarrow> int" where
  "denotes neg ds = (let n = int (the (parse_digits 0 ds)) in if neg then - n else n)"

lemma blank_ascii: "blank c \<Longrightarrow> byte c < 128" "blank c \<Longrightarrow> is_space (byte c)"
  by (auto simp: blank_def ascii_space_def is_space_def)

lemma skip_blanks: "\<forall>c \<in> set ws. blank c \<Longrightarrow> skip_space (ws @ s) = skip_space s"
proof (induction ws)
  case (Cons c ws)
  then show ?case using blank_ascii[of c] by (subst skip_space.simps) (simp add: decode_rune_ascii)
qed simp

lemma skip_at_end: "byte c < 128 \<Longrightarrow> \<not> is_space (byte c) \<Longrightarrow> skip_space (c # s) = c # s"
  by (subst skip_space.simps) (simp add: decode_rune_ascii)

lemma drop_blanks: "\<forall>c \<in> set ws. blank c \<Longrightarrow> drop_space (s @ ws) = drop_space s"
proof (induction ws rule: rev_induct)
  case (snoc c ws)
  then have "byte c < 128" "is_space (byte c)" using blank_ascii[of c] by simp_all
  then have "drop_space (s @ ws @ [c]) = drop_space (s @ ws)"
    by (subst drop_space.simps) (simp add: decode_last_rune_def)
  then show ?case using snoc by simp
qed simp

lemma drop_at_end: "byte (last s) < 128 \<Longrightarrow> \<not> is_space (byte (last s)) \<Longrightarrow> drop_space s = s"
  by (subst drop_space.simps) (auto simp: decode_last_rune_def)

lemma digit_not_space: "is_digit c \<Longrightarrow> byte c < 128 \<and> \<not> is_space (byte c)"
  by (auto simp: is_digit_def is_space_def ascii_space_def)

lemma TrimSpace_int_text:
  assumes "\<forall>c \<in> set ws. blank c" "\<forall>c \<in> set ws'. blank c" "\<forall>c \<in> set ds. is_digit c" "ds \<noteq> []"
  shows "TrimSpace (int_text ws neg ds ws') = (if neg then ''-'' else []) @ ds"
proof -
  obtain c s where c: "(if neg then ''-'' else []) @ ds @ ws' = c # s" "byte c < 128" "\<not> is_space (byte c)"
  proof (cases neg)
    case True
    then show thesis using that[of "CHR ''-''" "ds @ ws'"] by (simp add: is_space_def ascii_space_def byte_def)
  next
    case False
    then show thesis using that assms(3,4) digit_not_space by (cases ds) auto
  qed
  have "skip_space (int_text ws neg ds ws') = (if neg then ''-'' else []) @ ds @ ws'"
    unfolding int_text_def skip_blanks[OF assms(1)] c(1) by (rule skip_at_end[OF c(2,3)])
  moreover have "drop_space (((if neg then ''-'' else []) @ ds) @ ws') = (if neg then ''-'' else []) @ ds"
    unfolding drop_blanks[OF assms(2)]
    using digit_not_space[of "last ds"] assms(3,4) by (intro drop_at_end) simp_all
  ultimately show ?thesis by (simp add: TrimSpace_def)
qed

lemma split_int_text: "\<forall>c \<in> set ds. is_digit c \<Longrightarrow> split_minus ((if neg then ''-'' else []) @ ds) = (neg, ds)"
  by (cases ds) (auto simp: split_minus_def)

text \<open>Digits without leading zeros: the longer is the greater, and equal lengths compare as strings.\<close>

lemma parse_digits_shift: "\<forall>c \<in> set ds. is_digit c \<Longrightarrow>
    parse_digits n ds = Some (n * 10 ^ length ds + the (parse_digits 0 ds))"
proof (induction ds arbitrary: n)
  case (Cons c ds)
  then have d: "\<forall>c \<in> set ds. is_digit c" "is_digit c" by simp_all
  have "parse_digits n (c # ds) = Some ((10 * n + digit_val c) * 10 ^ length ds + the (parse_digits 0 ds))"
    using Cons.IH[OF d(1), of "10 * n + digit_val c"] d(2) by simp
  moreover have "the (parse_digits 0 (c # ds)) = digit_val c * 10 ^ length ds + the (parse_digits 0 ds)"
    using Cons.IH[OF d(1), of "digit_val c"] d(2) by simp
  ultimately show ?case by (simp add: algebra_simps)
qed simp

definition digits_val :: "bytes \<Rightarrow> nat" where
  "digits_val ds = the (parse_digits 0 ds)"

lemma digits_val_Nil [simp]: "digits_val [] = 0"
  by (simp add: digits_val_def)

lemma digits_val_Cons:
  "is_digit c \<Longrightarrow> \<forall>c \<in> set ds. is_digit c \<Longrightarrow> digits_val (c # ds) = digit_val c * 10 ^ length ds + digits_val ds"
  by (simp add: digits_val_def parse_digits_shift[of ds "digit_val c"])

lemma digits_val_less: "\<forall>c \<in> set ds. is_digit c \<Longrightarrow> digits_val ds < 10 ^ length ds"
proof (induction ds)
  case (Cons c ds)
  then have "digit_val c * 10 ^ length ds + digits_val ds < digit_val c * 10 ^ length ds + 10 ^ length ds" by simp
  also have "\<dots> = (digit_val c + 1) * 10 ^ length ds" by (simp add: algebra_simps)
  also have "\<dots> \<le> 10 * 10 ^ length ds" using Cons.prems digit_val_lt[of c] by (intro mult_le_mono1) auto
  finally show ?case using Cons.prems by (simp add: digits_val_Cons)
qed simp

lemma strip_zeros_val:
  "\<forall>c \<in> set ds. is_digit c \<Longrightarrow> digits_val (strip_zeros ds) = digits_val ds \<and> (\<forall>c \<in> set (strip_zeros ds). is_digit c) \<and>
    (strip_zeros ds \<noteq> [] \<longrightarrow> hd (strip_zeros ds) \<noteq> CHR ''0'')"
proof (induction ds)
  case (Cons c ds)
  have "digit_val (CHR ''0'') = 0" by (simp add: digit_val_def byte_def)
  then show ?case using Cons by (auto simp: strip_zeros_def digits_val_Cons)
qed (simp add: strip_zeros_def)

lemma digit_val_pos: "is_digit c \<Longrightarrow> c \<noteq> CHR ''0'' \<Longrightarrow> 0 < digit_val c"
proof -
  assume "is_digit c" "c \<noteq> CHR ''0''"
  then have "48 \<le> byte c" "byte c \<noteq> byte (CHR ''0'')" by (simp_all add: is_digit_def byte_eq_iff)
  then show ?thesis by (simp add: digit_val_def byte_def)
qed

lemma sgn_diff_less: "(m :: nat) < n \<Longrightarrow> sgn (int m - int n) = -1" "n < m \<Longrightarrow> sgn (int m - int n) = 1"
  by simp_all

lemma str_compare_digits:
  "\<forall>c \<in> set ds. is_digit c \<Longrightarrow> \<forall>c \<in> set es. is_digit c \<Longrightarrow> length ds = length es \<Longrightarrow>
    str_compare ds es = sgn (int (digits_val ds) - int (digits_val es))"
proof (induction ds es rule: str_compare.induct)
  case (4 a as b bs)
  let ?n = "10 ^ length bs :: nat"
  have v: "digits_val (a # as) = digit_val a * ?n + digits_val as" "digits_val (b # bs) = digit_val b * ?n + digits_val bs"
    using 4(2-4) by (simp_all add: digits_val_Cons)
  have lt: "digits_val as < ?n" "digits_val bs < ?n" using digits_val_less 4(2-4) by (metis length_Cons list.set_intros(2) nat.inject)+
  have cmp: "byte a < byte b \<longleftrightarrow> digit_val a < digit_val b" "byte b < byte a \<longleftrightarrow> digit_val b < digit_val a"
    using 4(2,3) by (auto simp: digit_val_def is_digit_def)
  have less: "x * ?n + p < y * ?n + q" if "x < y" "p < ?n" for x y p q :: nat
  proof -
    have "x * ?n + p < (x + 1) * ?n" using that(2) by (simp add: algebra_simps)
    also have "\<dots> \<le> y * ?n" using that(1) by (intro mult_le_mono1) simp
    finally show ?thesis by simp
  qed
  consider "digit_val a < digit_val b" | "digit_val b < digit_val a" | "digit_val a = digit_val b" by linarith
  then show ?case
  proof cases
    case 1
    then have "digits_val (a # as) < digits_val (b # bs)" using less[OF 1 lt(1)] by (simp only: v)
    then show ?thesis using 1 cmp by (simp only: sgn_diff_less) simp
  next
    case 2
    then have "digits_val (b # bs) < digits_val (a # as)" using less[OF 2 lt(2)] by (simp only: v)
    then show ?thesis using 2 cmp by (simp only: sgn_diff_less) simp
  next
    case 3
    then show ?thesis using 4 cmp by (simp add: v)
  qed
qed simp_all

definition canonical :: "bytes \<Rightarrow> bool" where
  "canonical ds = ((\<forall>c \<in> set ds. is_digit c) \<and> ds \<noteq> [] \<and> (hd ds = CHR ''0'' \<longrightarrow> ds = ''0''))"

lemma canonical_less:
  assumes "canonical ds" "canonical es" "length ds < length es"
  shows "digits_val ds < digits_val es"
proof -
  obtain c cs where es: "es = c # cs" using assms(2) by (cases es) (auto simp: canonical_def)
  have ds: "ds \<noteq> []" using assms(1) by (simp add: canonical_def)
  have c: "is_digit c" "\<forall>c \<in> set cs. is_digit c" "c \<noteq> CHR ''0''"
    using assms ds by (auto simp: canonical_def es)
  have "digits_val ds < 10 ^ length ds" using assms(1) digits_val_less by (simp add: canonical_def)
  also have "\<dots> \<le> (10 :: nat) ^ length cs" using assms(3) by (simp add: es power_increasing)
  also have "\<dots> \<le> digit_val c * 10 ^ length cs" using digit_val_pos[OF c(1,3)] by simp
  also have "\<dots> \<le> digits_val es" using c by (simp add: es digits_val_Cons)
  finally show ?thesis .
qed

definition compare_magnitude :: "bytes \<Rightarrow> bytes \<Rightarrow> int" where
  "compare_magnitude ds es =
     (if length ds \<noteq> length es then (if length ds < length es then -1 else 1) else str_compare ds es)"

lemma compare_magnitude_sgn:
  assumes "canonical ds" "canonical es"
  shows "compare_magnitude ds es = sgn (int (digits_val ds) - int (digits_val es))"
proof -
  consider "length ds < length es" | "length es < length ds" | "length ds = length es" by linarith
  then show ?thesis
  proof cases
    case 1
    then show ?thesis using sgn_diff_less(1)[OF canonical_less[OF assms 1]] by (simp only: compare_magnitude_def) simp
  next
    case 2
    then show ?thesis using sgn_diff_less(2)[OF canonical_less[OF assms(2,1) 2]] by (simp only: compare_magnitude_def) simp
  next
    case 3
    then show ?thesis using assms by (simp add: compare_magnitude_def str_compare_digits canonical_def)
  qed
qed

lemma int_norm_int_text:
  assumes "\<forall>c \<in> set ws. blank c" "\<forall>c \<in> set ws'. blank c" "\<forall>c \<in> set ds. is_digit c" "ds \<noteq> []"
  obtains neg' ds' where "int_norm (int_text ws neg ds ws') = (neg', ds')" "canonical ds'"
    "digits_val ds' = digits_val ds" "neg' \<longleftrightarrow> neg \<and> digits_val ds \<noteq> 0"
proof -
  have n: "int_norm (int_text ws neg ds ws') = (if strip_zeros ds = [] then (False, ''0'') else (neg, strip_zeros ds))"
    by (simp add: int_norm_def TrimSpace_int_text[OF assms] split_int_text[OF assms(3)])
  note z = strip_zeros_val[OF assms(3)]
  show thesis
  proof (cases "strip_zeros ds = []")
    case True
    have "is_digit (CHR ''0'')" "digit_val (CHR ''0'') = 0" by (simp_all add: is_digit_def digit_val_def byte_def)
    then have "canonical ''0''" "digits_val ''0'' = 0" by (simp_all add: canonical_def digits_val_Cons)
    then show thesis using that[of False "''0''"] n True z by simp
  next
    case False
    then obtain c cs where c: "strip_zeros ds = c # cs" "c \<noteq> CHR ''0''" "is_digit c" "\<forall>c \<in> set cs. is_digit c"
      using z by (cases "strip_zeros ds") auto
    have "0 < digits_val (c # cs)" using c digit_val_pos by (simp add: digits_val_Cons)
    then show thesis using that[of neg "c # cs"] n c z by (simp add: canonical_def)
  qed
qed

lemma compare_norm_sgn:
  assumes "canonical ds" "canonical es" "m \<Longrightarrow> digits_val ds \<noteq> 0" "n \<Longrightarrow> digits_val es \<noteq> 0"
  shows "compare_norm (m, ds) (n, es) = sgn ((if m then - int (digits_val ds) else int (digits_val ds)) -
    (if n then - int (digits_val es) else int (digits_val es)))"
proof -
  have e: "compare_norm (m, ds) (n, es) = (if m \<noteq> n then (if m then -1 else 1)
      else if m then - compare_magnitude ds es else compare_magnitude ds es)"
    by (simp only: compare_norm_def compare_magnitude_def fst_conv snd_conv Let_def)
  have "- sgn (int (digits_val ds) - int (digits_val es)) = sgn (int (digits_val es) - int (digits_val ds))"
    by (metis minus_diff_eq sgn_minus)
  then show ?thesis unfolding e compare_magnitude_sgn[OF assms(1,2)] using assms(3,4) by (cases m; cases n) simp_all
qed

section \<open>What the comparison promises\<close>

text \<open>C29. Comparison of PHP values other than two arrays is antisymmetric, NaN apart: swapping the operands negates the
  result, whatever types are compared (null and bool as booleans, numeric strings as numbers, integers too large for
  64 bits digit by digit, other strings bytewise), for any order on floats that is asymmetric.\<close>

theorem compare_antisymmetric:
  assumes "float_order F" "\<not> is_nan F a" "\<not> is_nan F b" "\<not> ((\<exists>xs. a = PArray xs) \<and> (\<exists>ys. b = PArray ys))"
  shows "Compare F b a = - Compare F a b"
  using assms(2-4) compare_scalars_antisym[OF assms(1), of b a]
  by (cases a; cases b) (simp_all add: Compare.simps is_null_or_bool_def bool_compare_def)

text \<open>Floats as integers, for concrete comparisons.\<close>

definition int_floats :: "int float_ops" where
  "int_floats =
     \<lparr>fo_lt = (\<lambda>x y. x < y), fo_isNaN = (\<lambda>x. False), fo_isZero = (\<lambda>x. x = 0), fo_of_int = (\<lambda>i. i),
      fo_parse = (\<lambda>s. None), fo_format = format_int\<rparr>"

theorem compare_antisymmetric_witness:
  "Compare int_floats (PInt 12) (PString ''7 '') = - Compare int_floats (PString ''7 '') (PInt 12) \<and>
   Compare int_floats (PString ''7 '') (PInt 12) = -1"
proof -
  have "float_order int_floats" "\<not> is_nan int_floats (PString ''7 '')" "\<not> is_nan int_floats (PInt 12)"
    by (simp_all add: float_order_def int_floats_def is_nan_def)
  moreover have "Compare int_floats (PString ''7 '') (PInt 12) = -1" by code_simp
  ultimately show ?thesis using compare_antisymmetric[of int_floats "PString ''7 ''" "PInt 12"] by blast
qed

text \<open>C30. \<open>CompareIntStrings\<close> compares integers of any size exactly: on decimal texts with blanks around them, a minus
  sign or none and any leading zeros, its result is the sign of the difference of the integers they denote.\<close>

theorem compare_int_strings_exact:
  assumes "\<forall>c \<in> set ws1. blank c" "\<forall>c \<in> set ws2. blank c" "\<forall>c \<in> set ws3. blank c" "\<forall>c \<in> set ws4. blank c"
    "\<forall>c \<in> set ds. is_digit c" "ds \<noteq> []" "\<forall>c \<in> set es. is_digit c" "es \<noteq> []"
  shows "CompareIntStrings (int_text ws1 m ds ws2) (int_text ws3 n es ws4) = sgn (denotes m ds - denotes n es)"
proof -
  obtain m' ds' where d: "int_norm (int_text ws1 m ds ws2) = (m', ds')" "canonical ds'"
      "digits_val ds' = digits_val ds" "m' \<longleftrightarrow> m \<and> digits_val ds \<noteq> 0"
    by (rule int_norm_int_text[OF assms(1,2,5,6)])
  obtain n' es' where e: "int_norm (int_text ws3 n es ws4) = (n', es')" "canonical es'"
      "digits_val es' = digits_val es" "n' \<longleftrightarrow> n \<and> digits_val es \<noteq> 0"
    by (rule int_norm_int_text[OF assms(3,4,7,8)])
  have "denotes m ds = (if m' then - int (digits_val ds') else int (digits_val ds'))"
    "denotes n es = (if n' then - int (digits_val es') else int (digits_val es'))"
    using d(3,4) e(3,4) by (simp_all add: denotes_def digits_val_def Let_def)
  then show ?thesis
    unfolding CompareIntStrings_norm d(1) e(1) using compare_norm_sgn[OF d(2) e(2)] d(3,4) e(3,4) by simp
qed

theorem compare_int_strings_exact_witness:
  "CompareIntStrings '' -00123 '' ''-124'' = 1"
proof -
  have "CompareIntStrings (int_text '' '' True ''00123'' '' '') (int_text [] True ''124'' []) =
      sgn (denotes True ''00123'' - denotes True ''124'')"
    by (rule compare_int_strings_exact) (simp_all add: blank_def ascii_space_def is_digit_def byte_def)
  moreover have "denotes True ''00123'' - denotes True ''124'' = 1" by code_simp
  ultimately show ?thesis by (simp add: int_text_def)
qed




end
