(* ===== verification/SplProps.thy ===== *)
theory SplProps
  imports SplSpec PhpCompareProps
begin

text \<open>The heap classes and the priority queue over the comparison of PHP values: sorting, the abstract queue they
  implement, the order of a subclass, and what a comparison that throws leaves behind.\<close>

section \<open>The comparison of PHP values on integers\<close>

text \<open>\<open>phpv.Compare\<close> as the heaps call it: on values without objects it throws nothing and changes nothing.\<close>

definition php_compare :: "'f float_ops \<Rightarrow> ('f pval, bytes, 'w) compare_fn" where
  "php_compare F a b w = (Inr (Compare F a b), w)"

lemma Compare_ints [simp]: "Compare F (PInt i) (PInt j) = (if i < j then -1 else if j < i then 1 else 0)"
  by (simp add: Compare.simps is_nan_def compare_scalars_def number_of_def numeric_compare_def is_null_or_bool_def)

definition is_int :: "'f pval \<Rightarrow> bool" where
  "is_int v = (case v of PInt _ \<Rightarrow> True | _ \<Rightarrow> False)"

definition int_of :: "'f pval \<Rightarrow> int" where
  "int_of v = (case v of PInt i \<Rightarrow> i | _ \<Rightarrow> 0)"

lemma is_intE: "is_int v \<Longrightarrow> (\<And>i. v = PInt i \<Longrightarrow> P) \<Longrightarrow> P"
  by (cases v) (auto simp: is_int_def)

interpretation min_heap: value_order "minHeapCompare (php_compare F)" is_int "\<lambda>a b. int_of a < int_of b"
  by unfold_locales (auto simp: minHeapCompare_def php_compare_def int_of_def elim!: is_intE split: if_splits)

interpretation max_heap: value_order "maxHeapCompare (php_compare F)" is_int "\<lambda>a b. int_of b < int_of a"
  by unfold_locales (auto simp: maxHeapCompare_def php_compare_def int_of_def elim!: is_intE split: if_splits)

interpretation native_queue: queue_order "php_compare F" None is_int "\<lambda>a b. int_of b < int_of a"
  by unfold_locales (auto simp: php_compare_def int_of_def elim!: is_intE split: if_splits)

text \<open>A subclass that does not override \<open>compare\<close> inherits the native method, called with swapped arguments.\<close>

interpretation subclass_queue: queue_order "php_compare F" "Some (php_compare F)" is_int "\<lambda>a b. int_of a < int_of b"
  by unfold_locales (auto simp: php_compare_def int_of_def elim!: is_intE split: if_splits)

section \<open>Sorting\<close>

lemma ints_image: "\<forall>v \<in> set xs. is_int v \<Longrightarrow> xs = map PInt (map int_of xs)"
  by (induction xs) (auto simp: int_of_def elim!: is_intE)

lemma stably_sorted_ints:
  assumes "stably_sorted before (map PInt is) xs" "\<And>i j. \<not> before (PInt i) (PInt j) \<Longrightarrow> R j i"
    "\<And>js. sorted_wrt R js \<Longrightarrow> mset js = mset is \<Longrightarrow> js = ks"
  shows "xs = map PInt ks"
proof -
  have m: "mset xs = mset (map PInt is)" and s: "sorted_wrt (\<lambda>a b. \<not> before b a) xs"
    using assms(1) by (simp_all add: stably_sorted_def)
  have "\<forall>v \<in> set xs. is_int v" using arg_cong[OF m, of set_mset] by (auto simp: is_int_def)
  then have xs: "xs = map PInt (map int_of xs)" by (rule ints_image)
  have "sorted_wrt (\<lambda>a b. \<not> before b a) (map PInt (map int_of xs))" using s xs by metis
  then have "sorted_wrt R (map int_of xs)"
    unfolding sorted_wrt_map by (rule sorted_wrt_mono_rel[rotated]) (use assms(2) in auto)
  moreover have "mset (map int_of xs) = mset is"
    using arg_cong[OF m, of "image_mset int_of"] by (simp add: int_of_def multiset.map_comp comp_def)
  ultimately show ?thesis using assms(3) xs by metis
qed

text \<open>A session: insert the values into a new heap, extract as many. The values in their order, and what remains.\<close>

definition heap_session :: "('v, 'e, 'w) compare_fn \<Rightarrow> 'v list \<Rightarrow> 'w \<Rightarrow> ('v list \<times> nat) option" where
  "heap_session cmp vs w =
     (case insert_all cmp vs (Some new_heap) w of
        (Inr _, od, w) \<Rightarrow>
          (case extract_times (length vs) cmp od w of
             (Inr xs, od, w) \<Rightarrow> Some (xs, heap_count od)
           | _ \<Rightarrow> None)
      | _ \<Rightarrow> None)"

lemma heap_session_value_order:
  assumes "value_order cmp good before" "\<forall>v \<in> set vs. good v"
  shows "\<exists>xs. heap_session cmp vs w = Some (xs, 0) \<and> stably_sorted before vs xs"
  using value_order.session_sorts[OF assms, of w] by (auto simp: heap_session_def heap_count_def)

lemma sorted_desc: "sorted_wrt (\<ge>) js \<Longrightarrow> mset js = mset is \<Longrightarrow> js = rev (sort (is :: int list))"
  by (metis mset_rev properties_for_sort rev_rev_ident sorted_wrt_rev)

text \<open>\<open>SplMinHeap\<close> and \<open>SplMaxHeap\<close> sort: inserting any integers into a new heap and extracting as many values
  gives them in ascending, respectively descending, order, leaves the heap empty and reports no error.\<close>

theorem heaps_sort_integers:
  "heap_session (minHeapCompare (php_compare F)) (map PInt is) w = Some (map PInt (sort is), 0) \<and>
   heap_session (maxHeapCompare (php_compare F)) (map PInt is) w = Some (map PInt (rev (sort is)), 0)"
proof
  have g: "\<forall>v \<in> set (map PInt is). is_int v" by (auto simp: is_int_def)
  obtain xs where xs: "heap_session (minHeapCompare (php_compare F)) (map PInt is) w = Some (xs, 0)"
      "stably_sorted (\<lambda>a b. int_of a < int_of b) (map PInt is) xs"
    using heap_session_value_order[OF min_heap.value_order_axioms g, of F w] by blast
  show "heap_session (minHeapCompare (php_compare F)) (map PInt is) w = Some (map PInt (sort is), 0)"
    using stably_sorted_ints[OF xs(2), of "(\<le>)" "sort is"] xs(1) by (auto simp: int_of_def properties_for_sort)
  obtain ys where ys: "heap_session (maxHeapCompare (php_compare F)) (map PInt is) w = Some (ys, 0)"
      "stably_sorted (\<lambda>a b. int_of b < int_of a) (map PInt is) ys"
    using heap_session_value_order[OF max_heap.value_order_axioms g, of F w] by blast
  show "heap_session (maxHeapCompare (php_compare F)) (map PInt is) w = Some (map PInt (rev (sort is)), 0)"
    using stably_sorted_ints[OF ys(2), of "(\<ge>)" "rev (sort is)"] ys(1) sorted_desc by (auto simp: int_of_def)
qed

text \<open>C34. A heap whose comparison, user code included, orders the values by a strict weak order (whatever else it does
  to the world) extracts them in that order, values that compare equal in the order of their insertion.\<close>

theorem heap_sorts_stably:
  assumes "value_order cmp good before" "\<forall>v \<in> set vs. good v"
  shows "\<exists>xs. heap_session cmp vs w = Some (xs, 0) \<and> stably_sorted before vs xs"
  by (rule heap_session_value_order[OF assms])

text \<open>Strings compared by their lengths, each comparison counted.\<close>

definition by_length :: "(bytes, unit, nat) compare_fn" where
  "by_length a b w = (Inr (int (length b) - int (length a)), w + 1)"

lemma by_length_order: "value_order by_length (\<lambda>s. True) (\<lambda>a b. length a < length b)"
  by unfold_locales (auto simp: by_length_def)

theorem heap_sorts_stably_witness:
  "heap_session by_length [''bb'', ''a'', ''cc''] 0 = Some ([''a'', ''bb'', ''cc''], 0)"
proof -
  obtain xs where xs: "heap_session by_length [''bb'', ''a'', ''cc''] 0 = Some (xs, 0)"
      "stably_sorted (\<lambda>a b. length a < length b) [''bb'', ''a'', ''cc''] xs"
    using heap_sorts_stably[OF by_length_order, of "[''bb'', ''a'', ''cc'']" 0] by auto
  have "heap_session by_length [''bb'', ''a'', ''cc''] 0 = Some ([''a'', ''bb'', ''cc''], 0)" by code_simp
  with xs show ?thesis by simp
qed

section \<open>The priority queue\<close>


text \<open>C33. \<open>SplPriorityQueue\<close> refines the abstract queue: any sequence of inserts (with integer priorities), extracts,
  tops and counts gives, operation by operation, the replies of a list in the order of insertion from which the first
  entry with the highest priority is taken.\<close>

theorem priority_queue_refines:
  assumes "\<forall>v p. Insert v p \<in> set qs \<longrightarrow> is_int p"
  shows "queue_session (php_compare F) qs (Some (new_queue None)) w = spec_session (\<lambda>a b. int_of b < int_of a) qs []"
  by (rule native_queue.queue_session_spec[OF native_queue.represents_new assms])

theorem priority_queue_refines_witness:
  "queue_session (php_compare int_floats) [Insert ''low'' (PInt 1), Insert ''high'' (PInt 3), Top, Extract, Count]
     (Some (new_queue None)) () = [Inserted True, Inserted True, Got (Data ''high''), Got (Data ''high''), Counted 1]"
proof -
  have "spec_session (\<lambda>a b. int_of b < int_of a)
      [Insert ''low'' (PInt 1), Insert ''high'' (PInt 3), Top, Extract, Count] []
      = [Inserted True, Inserted True, Got (Data ''high''), Got (Data ''high''), Counted 1]"
    by (simp add: int_of_def)
  then show ?thesis
    by (subst priority_queue_refines) (auto simp: is_int_def)
qed

text \<open>C35. A subclass of \<open>SplPriorityQueue\<close> that does not override \<open>compare\<close> is a queue of the lowest priority first: any
  sequence of operations gives the replies of a list from which the first entry with the lowest priority is taken.\<close>

theorem subclass_queue_reversed:
  assumes "\<forall>v p. Insert v p \<in> set qs \<longrightarrow> is_int p"
  shows "queue_session (php_compare F) qs (Some (new_queue (Some (php_compare F)))) w
    = spec_session (\<lambda>a b. int_of a < int_of b) qs []"
  by (rule subclass_queue.queue_session_spec[OF subclass_queue.represents_new assms])

theorem subclass_queue_reversed_witness:
  "queue_session (php_compare int_floats) [Insert ''low'' (PInt 1), Insert ''high'' (PInt 3), Extract]
     (Some (new_queue (Some (php_compare int_floats)))) () = [Inserted True, Inserted True, Got (Data ''low'')]"
proof -
  have "spec_session (\<lambda>a b. int_of a < int_of b) [Insert ''low'' (PInt 1), Insert ''high'' (PInt 3), Extract] []
      = [Inserted True, Inserted True, Got (Data ''low'')]"
    by (simp add: int_of_def)
  then show ?thesis
    by (subst subclass_queue_reversed) (auto simp: is_int_def)
qed

section \<open>Corruption\<close>

definition noted :: "bool \<times> 'e option \<times> 'w \<Rightarrow> bool" where
  "noted s = (fst (snd s) \<noteq> None \<longrightarrow> fst s)"

lemma entry_less_noted: "\<forall>a b s. noted s \<longrightarrow> noted (snd (entry_less cmp a b s))"
  by (auto simp: entry_less_def noted_def split: prod.splits sum.splits)

text \<open>C36. A comparison that throws corrupts the heap without losing or duplicating anything: when \<open>insert\<close> ends with
  the exception, the value is in the heap all the same, the heap is marked, \<open>insert\<close>, \<open>extract\<close> and \<open>top\<close> then refuse
  with the corruption error and change nothing, and after \<open>recoverFromCorruption\<close> the mark is gone and the values are
  the same.\<close>

theorem heap_corruption:
  assumes "heap_insert cmp [v] (Some d) w = (Inl (Thrown e), Some d', w')"
  shows "mset (map fst (hd_entries d')) = add_mset v (mset (map fst (hd_entries d))) \<and> hd_corrupted d' \<and>
    \<not> hd_modifying d' \<and>
    heap_insert cmp' [u] (Some d') w'' = (Inl HeapCorrupted, Some d', w'') \<and>
    heap_extract cmp' (Some d') w'' = (Inl HeapCorrupted, Some d', w'') \<and>
    heap_top (Some d') w'' = (Inl HeapCorrupted, Some d', w'') \<and>
    heap_recover (Some d') = Some (d'\<lparr>hd_corrupted := False\<rparr>)"
proof -
  obtain es c err w1 where es: "heap_Push (entry_less cmp) (v, hd_nextIndex d) (hd_entries d) (hd_corrupted d, None, w)
      = (es, c, err, w1)"
    by (metis prod.exhaust)
  have d: "\<not> hd_corrupted d" "err = Some e"
      "d' = d\<lparr>hd_nextIndex := hd_nextIndex d + 1, hd_entries := es, hd_corrupted := c, hd_modifying := False, hd_compareErr := None\<rparr>"
    using assms es by (auto simp: heap_insert_def heap_end_def split: if_splits option.splits)
  have "noted (hd_corrupted d, None :: 'a option, w)" by (simp add: noted_def)
  from heap_Push_keeps[OF entry_less_noted this, of cmp "(v, hd_nextIndex d)" "hd_entries d"]
  have c: "c" using es d(2) by (simp add: noted_def)
  have m: "mset es = add_mset (v, hd_nextIndex d) (mset (hd_entries d))"
    using mset_heap_Push[of "entry_less cmp" "(v, hd_nextIndex d)" "hd_entries d" "(hd_corrupted d, None, w)"] es by simp
  then have "es \<noteq> []" by auto
  moreover have "mset (map fst es) = add_mset v (mset (map fst (hd_entries d)))"
    using arg_cong[OF m, of "image_mset fst"] by simp
  ultimately show ?thesis
    using c by (simp add: d(3) heap_insert_def heap_extract_def heap_top_def heap_recover_def)
qed

definition throwing :: "(bytes, bytes, unit) compare_fn" where
  "throwing a b w = (Inl ''no order'', w)"

theorem heap_corruption_witness:
  "\<exists>d'. heap_insert throwing [''b''] (Some (new_heap\<lparr>hd_entries := [(''a'', 0)], hd_nextIndex := 1\<rparr>)) ()
      = (Inl (Thrown ''no order''), Some d', ()) \<and>
    mset (map fst (hd_entries d')) = {#''b'', ''a''#} \<and> heap_top (Some d') () = (Inl HeapCorrupted, Some d', ())"
proof -
  let ?d = "new_heap\<lparr>hd_entries := [(''a'', 0)], hd_nextIndex := 1\<rparr>"
  obtain d' where d': "heap_insert throwing [''b''] (Some ?d) () = (Inl (Thrown ''no order''), Some d', ())"
    by (simp add: heap_insert_def heap_Push_def heap_up.simps parent_def entry_less_def throwing_def heap_end_def new_heap_def)
  from heap_corruption[OF d', of throwing "''c''" "()"] show ?thesis
    using d' by (auto simp: new_heap_def)
qed

end
