(* ===== verification/SplDll.thy ===== *)
theory SplDll
  imports PhpHeap
begin

text \<open>
  \<^verbatim>\<open>src/ext/spl/doubly_linked_list.go\<close>: the methods of \<open>SplDoublyLinkedList\<close>, \<open>SplStack\<close> and \<open>SplQueue\<close>, a Go slice
  with a position in it. An object whose constructor has not run has no data (\<open>None\<close>). The result of a method is an
  error, without its message, or what it returns.
\<close>

section \<open>State\<close>

record iter_state =
  is_pos :: int
  is_started :: bool
  is_iterMode :: int
  is_iterFroze :: bool

record 'v dll =
  dl_data :: "'v list"
  dl_pos :: int
  dl_mode :: int
  dl_started :: bool
  dl_iterMode :: int
  dl_iterFroze :: bool
  dl_savedStates :: "iter_state list"

datatype dll_class = DoublyLinkedList | Stack | Queue

datatype dll_error = RuntimeExc | TypeErr | OutOfRange | Underflow

datatype 'v dll_reply = GoNil | Value 'v | PhpNull | PhpInt int | PhpBool bool

type_synonym 'v dll_object = "'v dll option"

type_synonym 'v dll_result = "(dll_error + 'v dll_reply) \<times> 'v dll_object"

text \<open>The modes: bit 1 (\<open>IT_MODE_LIFO\<close>) and bit 0 (\<open>IT_MODE_DELETE\<close>); bit 2 is set in stacks and queues.\<close>

definition is_lifo :: "int \<Rightarrow> bool" where
  "is_lifo m = bit m 1"

definition is_delete :: "int \<Rightarrow> bool" where
  "is_delete m = bit m 0"

definition default_mode :: "dll_class \<Rightarrow> int" where
  "default_mode c = (case c of DoublyLinkedList \<Rightarrow> 0 | Stack \<Rightarrow> 6 | Queue \<Rightarrow> 4)"

definition dll_construct :: "dll_class \<Rightarrow> 'v dll_object" where
  "dll_construct c =
     Some \<lparr>dl_data = [], dl_pos = 0, dl_mode = default_mode c, dl_started = False, dl_iterMode = 0, dl_iterFroze = False,
       dl_savedStates = []\<rparr>"

text \<open>\<open>Clone\<close> does not copy the saved states.\<close>

definition dll_Clone :: "'v dll \<Rightarrow> 'v dll" where
  "dll_Clone d = d\<lparr>dl_savedStates := []\<rparr>"

definition SaveIterState :: "'v dll \<Rightarrow> 'v dll" where
  "SaveIterState d =
     d\<lparr>dl_savedStates := dl_savedStates d @
       [\<lparr>is_pos = dl_pos d, is_started = dl_started d, is_iterMode = dl_iterMode d, is_iterFroze = dl_iterFroze d\<rparr>]\<rparr>"

definition RestoreIterState :: "'v dll \<Rightarrow> 'v dll" where
  "RestoreIterState d =
     (if dl_savedStates d \<noteq> [] then
        (let s = last (dl_savedStates d) in
         d\<lparr>dl_savedStates := butlast (dl_savedStates d), dl_pos := is_pos s, dl_started := is_started s,
           dl_iterMode := is_iterMode s, dl_iterFroze := is_iterFroze s\<rparr>)
      else d)"

section \<open>Indexes\<close>

text \<open>\<open>validateDllIndex\<close>: only the type of the value is checked; \<open>asInt\<close> is \<open>AsInt\<close> of the value layer.\<close>

fun numeric_index :: "bool \<Rightarrow> bytes \<Rightarrow> bool" where
  "numeric_index first [] = True"
| "numeric_index first (c # s) =
     ((48 \<le> byte c \<and> byte c \<le> 57 \<or> first \<and> (c = CHR ''-'' \<or> c = CHR ''+'')) \<and> numeric_index False s)"

definition validateDllIndex :: "(val \<Rightarrow> int) \<Rightarrow> val option \<Rightarrow> int option" where
  "validateDllIndex asInt arg =
     (case arg of
        None \<Rightarrow> None
      | Some v \<Rightarrow>
          (case v of
             VInt i \<Rightarrow> Some (asInt v)
           | VFloat w \<Rightarrow> Some (asInt v)
           | VBool b \<Rightarrow> Some (asInt v)
           | VString s \<Rightarrow> if \<not> numeric_index True s \<or> s = [] then None else Some (asInt v)
           | _ \<Rightarrow> None))"

section \<open>Methods\<close>

definition with_data :: "'v dll_object \<Rightarrow> ('v dll \<Rightarrow> 'v dll_result) \<Rightarrow> 'v dll_result" where
  "with_data ob k = (case ob of None \<Rightarrow> (Inl RuntimeExc, ob) | Some d \<Rightarrow> k d)"

text \<open>\<open>push\<close> and \<open>enqueue\<close>.\<close>

definition dll_push :: "'v list \<Rightarrow> 'v dll_object \<Rightarrow> 'v dll_result" where
  "dll_push args ob =
     with_data ob (\<lambda>d. case args of
        [] \<Rightarrow> (Inl TypeErr, ob)
      | v # _ \<Rightarrow> (Inr GoNil, Some (d\<lparr>dl_data := dl_data d @ [v]\<rparr>)))"

definition dll_pop :: "'v dll_object \<Rightarrow> 'v dll_result" where
  "dll_pop ob =
     (case ob of
        None \<Rightarrow> (Inl Underflow, ob)
      | Some d \<Rightarrow>
          if dl_data d = [] then (Inl Underflow, ob)
          else (Inr (Value (last (dl_data d))), Some (d\<lparr>dl_data := butlast (dl_data d)\<rparr>)))"

definition dll_unshift :: "'v list \<Rightarrow> 'v dll_object \<Rightarrow> 'v dll_result" where
  "dll_unshift args ob =
     with_data ob (\<lambda>d. case args of
        [] \<Rightarrow> (Inl TypeErr, ob)
      | v # _ \<Rightarrow>
          (Inr GoNil, Some (d\<lparr>dl_data := v # dl_data d,
             dl_pos := (if dl_started d \<and> dl_pos d \<ge> 0 then dl_pos d + 1 else dl_pos d)\<rparr>)))"

text \<open>\<open>shift\<close> and \<open>dequeue\<close>.\<close>

definition dll_shift :: "'v dll_object \<Rightarrow> 'v dll_result" where
  "dll_shift ob =
     (case ob of
        None \<Rightarrow> (Inl Underflow, ob)
      | Some d \<Rightarrow>
          (case dl_data d of
             [] \<Rightarrow> (Inl Underflow, ob)
           | v # vs \<Rightarrow>
               (Inr (Value v), Some (d\<lparr>dl_data := vs,
                  dl_pos := (if dl_started d \<and> dl_pos d > 0 then dl_pos d - 1 else dl_pos d)\<rparr>))))"

definition dll_top :: "'v dll_object \<Rightarrow> 'v dll_result" where
  "dll_top ob =
     (case ob of
        None \<Rightarrow> (Inl Underflow, ob)
      | Some d \<Rightarrow> if dl_data d = [] then (Inl Underflow, ob) else (Inr (Value (last (dl_data d))), ob))"

definition dll_bottom :: "'v dll_object \<Rightarrow> 'v dll_result" where
  "dll_bottom ob =
     (case ob of
        None \<Rightarrow> (Inl Underflow, ob)
      | Some d \<Rightarrow> if dl_data d = [] then (Inl Underflow, ob) else (Inr (Value (hd (dl_data d))), ob))"

definition dll_count :: "'v dll_object \<Rightarrow> 'v dll_result" where
  "dll_count ob = (Inr (PhpInt (case ob of None \<Rightarrow> 0 | Some d \<Rightarrow> int (length (dl_data d)))), ob)"

definition dll_isEmpty :: "'v dll_object \<Rightarrow> 'v dll_result" where
  "dll_isEmpty ob = (Inr (PhpBool (case ob of None \<Rightarrow> True | Some d \<Rightarrow> dl_data d = [])), ob)"

definition in_data :: "int \<Rightarrow> 'v dll \<Rightarrow> bool" where
  "in_data i d = (0 \<le> i \<and> i < int (length (dl_data d)))"

text \<open>\<open>offsetExists\<close> takes \<open>AsInt\<close> of whatever it is given.\<close>

definition dll_offsetExists :: "(val \<Rightarrow> int) \<Rightarrow> val option \<Rightarrow> 'v dll_object \<Rightarrow> 'v dll_result" where
  "dll_offsetExists asInt arg ob =
     (Inr (PhpBool (case (ob, arg) of (Some d, Some v) \<Rightarrow> in_data (asInt v) d | _ \<Rightarrow> False)), ob)"

text \<open>What the offset methods do with a valid index: \<open>arg\<close> is \<open>None\<close> when there is no argument.\<close>

definition at_index :: "(val \<Rightarrow> int) \<Rightarrow> val option \<Rightarrow> (int \<Rightarrow> bool) \<Rightarrow> 'v dll_object \<Rightarrow> (nat \<Rightarrow> 'v dll_result) \<Rightarrow> 'v dll_result" where
  "at_index asInt arg ok ob k =
     (case arg of
        None \<Rightarrow> (Inl OutOfRange, ob)
      | Some v \<Rightarrow>
          (case validateDllIndex asInt arg of
             None \<Rightarrow> (Inl TypeErr, ob)
           | Some i \<Rightarrow> if ok i then k (nat i) else (Inl OutOfRange, ob)))"

definition dll_offsetGet :: "(val \<Rightarrow> int) \<Rightarrow> val option \<Rightarrow> 'v dll_object \<Rightarrow> 'v dll_result" where
  "dll_offsetGet asInt arg ob =
     with_data ob (\<lambda>d. at_index asInt arg (\<lambda>i. in_data i d) ob (\<lambda>i. (Inr (Value (dl_data d ! i)), ob)))"

definition dll_offsetSet :: "(val \<Rightarrow> int) \<Rightarrow> (val option \<times> 'v) option \<Rightarrow> 'v dll_object \<Rightarrow> 'v dll_result" where
  "dll_offsetSet asInt args ob =
     with_data ob (\<lambda>d. case args of
        None \<Rightarrow> (Inl OutOfRange, ob)
      | Some (key, v) \<Rightarrow>
          if key = None \<or> key = Some VNull then (Inr GoNil, Some (d\<lparr>dl_data := dl_data d @ [v]\<rparr>))
          else at_index asInt key (\<lambda>i. in_data i d) ob (\<lambda>i. (Inr GoNil, Some (d\<lparr>dl_data := (dl_data d)[i := v]\<rparr>))))"

definition remove_at :: "nat \<Rightarrow> 'v list \<Rightarrow> 'v list" where
  "remove_at i xs = take i xs @ drop (Suc i) xs"

definition dll_offsetUnset :: "(val \<Rightarrow> int) \<Rightarrow> val option \<Rightarrow> 'v dll_object \<Rightarrow> 'v dll_result" where
  "dll_offsetUnset asInt arg ob =
     with_data ob (\<lambda>d. at_index asInt arg (\<lambda>i. in_data i d) ob (\<lambda>i.
       (Inr GoNil, Some (d\<lparr>dl_data := remove_at i (dl_data d),
          dl_pos := (if dl_started d \<and> dl_pos d > int i then dl_pos d - 1 else dl_pos d)\<rparr>))))"

text \<open>\<open>add\<close> does not move the position.\<close>

definition dll_add :: "(val \<Rightarrow> int) \<Rightarrow> (val option \<times> 'v) option \<Rightarrow> 'v dll_object \<Rightarrow> 'v dll_result" where
  "dll_add asInt args ob =
     with_data ob (\<lambda>d. case args of
        None \<Rightarrow> (Inl OutOfRange, ob)
      | Some (key, v) \<Rightarrow>
          at_index asInt key (\<lambda>i. 0 \<le> i \<and> i \<le> int (length (dl_data d))) ob (\<lambda>i.
            (Inr GoNil, Some (d\<lparr>dl_data := take i (dl_data d) @ v # drop i (dl_data d)\<rparr>))))"

subsection \<open>Iteration\<close>

definition dll_current :: "'v dll_object \<Rightarrow> 'v dll_result" where
  "dll_current ob =
     (case ob of
        None \<Rightarrow> (Inr PhpNull, ob)
      | Some d \<Rightarrow> (Inr (if in_data (dl_pos d) d then Value (dl_data d ! nat (dl_pos d)) else PhpNull), ob))"

definition dll_key :: "'v dll_object \<Rightarrow> 'v dll_result" where
  "dll_key ob = (Inr (PhpInt (case ob of None \<Rightarrow> 0 | Some d \<Rightarrow> dl_pos d)), ob)"

definition active_mode :: "'v dll \<Rightarrow> int" where
  "active_mode d = (if dl_iterFroze d then dl_iterMode d else dl_mode d)"

definition dll_next :: "'v dll_object \<Rightarrow> 'v dll_result" where
  "dll_next ob =
     (case ob of
        None \<Rightarrow> (Inr GoNil, ob)
      | Some d \<Rightarrow>
          (let mode = active_mode d in
           if is_delete mode \<and> in_data (dl_pos d) d then
             (Inr GoNil, Some (d\<lparr>dl_data := remove_at (nat (dl_pos d)) (dl_data d),
                dl_pos := (if is_lifo mode then dl_pos d - 1 else dl_pos d)\<rparr>))
           else (Inr GoNil, Some (d\<lparr>dl_pos := (if is_lifo mode then dl_pos d - 1 else dl_pos d + 1)\<rparr>))))"

definition dll_prev :: "'v dll_object \<Rightarrow> 'v dll_result" where
  "dll_prev ob =
     (case ob of
        None \<Rightarrow> (Inr GoNil, ob)
      | Some d \<Rightarrow>
          (Inr GoNil, Some (d\<lparr>dl_pos := (if is_lifo (active_mode d) then dl_pos d + 1 else dl_pos d - 1)\<rparr>)))"

definition dll_rewind :: "'v dll_object \<Rightarrow> 'v dll_result" where
  "dll_rewind ob =
     (case ob of
        None \<Rightarrow> (Inr GoNil, ob)
      | Some d \<Rightarrow>
          (Inr GoNil, Some (d\<lparr>dl_started := True, dl_iterMode := dl_mode d, dl_iterFroze := True,
             dl_pos := (if is_lifo (dl_mode d) then int (length (dl_data d)) - 1 else 0)\<rparr>)))"

definition dll_valid :: "'v dll_object \<Rightarrow> 'v dll_result" where
  "dll_valid ob = (Inr (PhpBool (case ob of None \<Rightarrow> False | Some d \<Rightarrow> in_data (dl_pos d) d)), ob)"

definition dll_setIteratorMode :: "dll_class \<Rightarrow> int option \<Rightarrow> 'v dll_object \<Rightarrow> 'v dll_result" where
  "dll_setIteratorMode c arg ob =
     with_data ob (\<lambda>d. case arg of
        None \<Rightarrow> (Inl TypeErr, ob)
      | Some mode \<Rightarrow>
          if c = Stack \<and> \<not> is_lifo mode \<or> c = Queue \<and> is_lifo mode then (Inl RuntimeExc, ob)
          else (Inr (PhpInt mode), Some (d\<lparr>dl_mode := mode\<rparr>)))"

definition dll_getIteratorMode :: "'v dll_object \<Rightarrow> 'v dll_result" where
  "dll_getIteratorMode ob = (Inr (PhpInt (case ob of None \<Rightarrow> 0 | Some d \<Rightarrow> dl_mode d)), ob)"

section \<open>A traversal\<close>

text \<open>The loop of a script: \<open>for ($l->rewind(); $l->valid(); $l->next()) f($l->current());\<close> with the values in the
  order in which it sees them.\<close>

partial_function (option) dll_loop :: "'v list \<Rightarrow> 'v dll_object \<Rightarrow> ('v list \<times> 'v dll_object) option" where
  "dll_loop seen ob =
     (if fst (dll_valid ob) \<noteq> Inr (PhpBool True) then Some (seen, ob)
      else
        (case fst (dll_current ob) of
           Inr (Value v) \<Rightarrow> dll_loop (seen @ [v]) (snd (dll_next ob))
         | _ \<Rightarrow> Some (seen, ob)))"

definition dll_traverse :: "'v dll_object \<Rightarrow> ('v list \<times> 'v dll_object) option" where
  "dll_traverse ob = dll_loop [] (snd (dll_rewind ob))"

lemma loop_stop: "\<not> in_data (dl_pos d) d \<Longrightarrow> dll_loop seen (Some d) = Some (seen, Some d)"
  by (subst dll_loop.simps) (simp add: dll_valid_def)

lemma loop_step:
  "in_data (dl_pos d) d \<Longrightarrow>
   dll_loop seen (Some d) = dll_loop (seen @ [dl_data d ! nat (dl_pos d)]) (snd (dll_next (Some d)))"
  by (subst dll_loop.simps) (simp add: dll_valid_def dll_current_def)

text \<open>What the traversal has before it: \<open>rest d\<close>, and what it leaves: \<open>left d\<close>.\<close>

definition rest :: "'v dll \<Rightarrow> 'v list" where
  "rest d = (if is_lifo (active_mode d) then rev (take (nat (dl_pos d + 1)) (dl_data d)) else drop (nat (dl_pos d)) (dl_data d))"

definition left :: "'v dll \<Rightarrow> 'v list" where
  "left d =
     (if \<not> is_delete (active_mode d) then dl_data d
      else if is_lifo (active_mode d) then drop (nat (dl_pos d + 1)) (dl_data d) else take (nat (dl_pos d)) (dl_data d))"

definition on_way :: "'v dll \<Rightarrow> bool" where
  "on_way d =
     (if is_lifo (active_mode d) then - 1 \<le> dl_pos d \<and> dl_pos d < int (length (dl_data d))
      else 0 \<le> dl_pos d \<and> dl_pos d \<le> int (length (dl_data d)))"

lemma next_rest:
  assumes "in_data (dl_pos d) d" "snd (dll_next (Some d)) = Some d'"
  shows "rest d = dl_data d ! nat (dl_pos d) # rest d'" "left d' = left d" "on_way d'"
proof -
  obtain i where i: "dl_pos d = int i" "i < length (dl_data d)"
    using assms(1) by (auto simp: in_data_def intro: nonneg_int_cases)
  have n: "nat (int i + 1) = Suc i" "nat (int i) = i" "nat (1 + int i) = Suc i" by simp_all
  have r: "remove_at i (dl_data d) = take i (dl_data d) @ drop (Suc i) (dl_data d)" "length (take i (dl_data d)) = i"
    using i(2) by (simp_all add: remove_at_def)
  have t: "take (Suc i) (dl_data d) = take i (dl_data d) @ [dl_data d ! i]" using i(2) by (rule take_Suc_conv_app_nth)
  have u: "drop i (dl_data d) = dl_data d ! i # drop (Suc i) (dl_data d)" using i(2) by (rule Cons_nth_drop_Suc[symmetric])
  have d': "active_mode d' = active_mode d"
    using assms(2) by (auto simp: dll_next_def active_mode_def Let_def split: if_splits)
  show "rest d = dl_data d ! nat (dl_pos d) # rest d'"
    using assms i n r t u d'
    by (cases "is_delete (active_mode d)"; cases "is_lifo (active_mode d)")
      (auto simp: rest_def dll_next_def Let_def min_def)
  show "left d' = left d"
    using assms i n r t u d'
    by (cases "is_delete (active_mode d)"; cases "is_lifo (active_mode d)")
      (auto simp: left_def dll_next_def Let_def min_def)
  show "on_way d'"
    using assms(2) i r d'
    by (cases "is_delete (active_mode d)"; cases "is_lifo (active_mode d)";
        auto simp: dll_next_def Let_def on_way_def in_data_def)
qed

lemma loop_rest:
  assumes "on_way d"
  shows "\<exists>d'. dll_loop seen (Some d) = Some (seen @ rest d, Some d') \<and> dl_data d' = left d"
  using assms
proof (induction "length (rest d)" arbitrary: d seen rule: less_induct)
  case less
  show ?case
  proof (cases "in_data (dl_pos d) d")
    case True
    have "snd (dll_next (Some d)) \<noteq> None" by (simp add: dll_next_def Let_def)
    then obtain d1 where d1: "snd (dll_next (Some d)) = Some d1" by blast
    note n = next_rest[OF True d1]
    have "length (rest d1) < length (rest d)" using n(1) by simp
    from less.hyps[OF this n(3), of "seen @ [dl_data d ! nat (dl_pos d)]"] show ?thesis
      using loop_step[OF True, of seen] d1 n(1,2) by auto
  next
    case False
    then have "rest d = []" "left d = dl_data d"
      using less.prems by (auto simp: rest_def left_def on_way_def in_data_def split: if_splits)
    then show ?thesis using loop_stop[OF False] by simp
  qed
qed

section \<open>Properties\<close>

text \<open>C37. A traversal of a list, stack or queue, in whatever state it is, ends after one visit of every element: from
  the first to the last, or in LIFO mode from the last to the first. It leaves the elements as they were, or in DELETE
  mode none.\<close>

theorem dll_traversal:
  "\<exists>d'. dll_traverse (Some d) = Some (if is_lifo (dl_mode d) then rev (dl_data d) else dl_data d, Some d') \<and>
     dl_data d' = (if is_delete (dl_mode d) then [] else dl_data d)"
proof -
  obtain d1 where d1: "snd (dll_rewind (Some d)) = Some d1" "dl_data d1 = dl_data d" "active_mode d1 = dl_mode d"
      "dl_pos d1 = (if is_lifo (dl_mode d) then int (length (dl_data d)) - 1 else 0)"
    by (auto simp: dll_rewind_def active_mode_def)
  have "on_way d1" using d1(2-4) by (simp add: on_way_def)
  from loop_rest[OF this, of "[]"] show ?thesis
    using d1 by (auto simp: dll_traverse_def rest_def left_def)
qed

end
