(* ===== verification/UrlText.thy ===== *)
theory UrlText
  imports GoStrings
begin

text \<open>
  URL encoding, \<^verbatim>\<open>src/ext/standard/urlenc.go\<close> and \<^verbatim>\<open>hex.go\<close>: what \<open>urlencode\<close> and \<open>rawurlencode\<close> make of a byte
  string, and \<open>urlDecode\<close>, which works on the runes of the string but counts its bytes. \<open>None\<close> is the run-time panic
  of an index out of range.
\<close>

section \<open>Runes of a string\<close>

text \<open>The conversion \<open>[]rune(s)\<close>.\<close>

lemma rune_width: "s \<noteq> [] \<Longrightarrow> 0 < snd (decode_rune s)"
  by (metis decode_rune_width_pos prod.collapse)

function go_runes :: "bytes \<Rightarrow> rune list" where
  "go_runes s = (if s = [] then [] else fst (decode_rune s) # go_runes (drop (snd (decode_rune s)) s))"
  by auto
termination proof (relation "measure length")
  fix s :: bytes assume "s \<noteq> []"
  then show "(drop (snd (decode_rune s)) s, s) \<in> measure length" using rune_width[of s] by (cases s) auto
qed simp

declare go_runes.simps [simp del]

lemma go_runes_Nil [simp]: "go_runes [] = []"
  by (simp add: go_runes.simps)

lemma go_runes_ascii: "byte c < 128 \<Longrightarrow> go_runes (c # s) = byte c # go_runes s"
  by (subst go_runes.simps) (simp add: decode_rune_ascii)

lemma go_runes_all_ascii: "\<forall>c \<in> set s. byte c < 128 \<Longrightarrow> go_runes s = map byte s"
  by (induction s) (simp_all add: go_runes_ascii)

lemma go_runes_length: "length (go_runes s) \<le> length s"
proof (induction s rule: go_runes.induct)
  case (1 s)
  show ?case
  proof (cases "s = []")
    case False
    then have "length (go_runes (drop (snd (decode_rune s)) s)) \<le> length s - snd (decode_rune s)" "0 < snd (decode_rune s)" "s \<noteq> []"
      using 1 rune_width[of s] by simp_all
    then show ?thesis by (subst go_runes.simps) (cases s; simp)
  qed simp
qed

section \<open>Encoding\<close>

text \<open>The bytes \<open>urlencode\<close> leaves as they are.\<close>

definition url_plain :: "char \<Rightarrow> bool" where
  "url_plain c =
     (let b = byte c in
      (97 \<le> b \<and> b \<le> 122) \<or> (65 \<le> b \<and> b \<le> 90) \<or> (48 \<le> b \<and> b \<le> 57) \<or> c \<in> {CHR ''-'', CHR ''_'', CHR ''.''})"

definition percent :: "char \<Rightarrow> bytes" where
  "percent c = CHR ''%'' # hex2_upper (byte c)"

definition urlencode_byte :: "char \<Rightarrow> bytes" where
  "urlencode_byte c = (if c = CHR '' '' then ''+'' else if url_plain c then [c] else percent c)"

definition rawurlencode_byte :: "char \<Rightarrow> bytes" where
  "rawurlencode_byte c = (if url_plain c \<or> c = CHR ''~'' then [c] else percent c)"

definition urlencode :: "bytes \<Rightarrow> bytes" where
  "urlencode s = concat (map urlencode_byte s)"

definition rawurlencode :: "bytes \<Rightarrow> bytes" where
  "rawurlencode s = concat (map rawurlencode_byte s)"

section \<open>Decoding\<close>

definition isHex :: "rune \<Rightarrow> bool" where
  "isHex c = ((97 \<le> c \<and> c \<le> 102) \<or> (65 \<le> c \<and> c \<le> 70) \<or> (48 \<le> c \<and> c \<le> 57))"

definition unhex :: "int \<Rightarrow> int" where
  "unhex c =
     (if 48 \<le> c \<and> c \<le> 57 then c - 48
      else if 97 \<le> c \<and> c \<le> 102 then c - 97 + 10
      else if 65 \<le> c \<and> c \<le> 70 then c - 65 + 10 else 0)"

text \<open>\<open>core.Idx\<close>: zero outside the slice.\<close>

definition rune_at :: "rune list \<Rightarrow> nat \<Rightarrow> rune" where
  "rune_at rs i = (if i < length rs then rs ! i else 0)"

text \<open>The loop of \<open>urlDecode\<close>, at \<open>i\<close>: \<open>n\<close> is \<open>len(s)\<close>, the number of bytes, and \<open>rs\<close> are the runes.\<close>

function url_loop :: "bool \<Rightarrow> nat \<Rightarrow> rune list \<Rightarrow> nat \<Rightarrow> bytes \<Rightarrow> bytes option" where
  "url_loop raw n rs i buf =
     (if i < n then
        (if i < length rs then
           (let c = rs ! i in
            if c = 43 then url_loop raw n rs (i + 1) (buf @ encode_rune (if raw then 43 else 32))
            else if c = 37 then
              (let a = rune_at rs (i + 1); b = rune_at rs (i + 2) in
               if \<not> isHex a \<or> \<not> isHex b then url_loop raw n rs (i + 1) (buf @ encode_rune 37)
               else url_loop raw n rs (i + 3) (buf @ [chr_byte (unhex a * 16 + unhex b)]))
            else url_loop raw n rs (i + 1) (buf @ encode_rune c))
         else None)
      else Some buf)"
  by pat_completeness auto
termination by (relation "measure (\<lambda>(raw, n, rs, i, buf). n - i)") auto

declare url_loop.simps [simp del]

definition urlDecode :: "bool \<Rightarrow> bytes \<Rightarrow> bytes option" where
  "urlDecode raw s = url_loop raw (length s) (go_runes s) 0 []"

section \<open>Panics\<close>

lemma isHex_0 [simp]: "\<not> isHex 0"
  by (simp add: isHex_def)

text \<open>The loop never steps over the end of the runes, so it stands there while bytes are left.\<close>

lemma url_loop_panics:
  assumes "length rs \<le> n" "i \<le> length rs"
  shows "url_loop raw n rs i buf = None \<longleftrightarrow> length rs < n"
  using assms(2)
proof (induction "length rs - i" arbitrary: i buf rule: less_induct)
  case less
  show ?case
  proof (cases "i < length rs")
    case True
    have one: "url_loop raw n rs (i + 1) b = None \<longleftrightarrow> length rs < n" for b
      using less.hyps[of "i + 1"] True by simp
    have three: "url_loop raw n rs (i + 3) b = None \<longleftrightarrow> length rs < n" if "isHex (rune_at rs (i + 2))" for b
    proof -
      have "i + 2 < length rs" using that by (auto simp: rune_at_def split: if_splits)
      then show ?thesis using less.hyps[of "i + 3"] by simp
    qed
    show ?thesis using True assms(1) one three by (subst url_loop.simps) (auto simp: Let_def)
  next
    case False
    then show ?thesis using less.prems assms(1) by (subst url_loop.simps) auto
  qed
qed

lemma urlDecode_None: "urlDecode raw s = None \<longleftrightarrow> length (go_runes s) < length s"
  unfolding urlDecode_def by (rule url_loop_panics) (simp_all add: go_runes_length)

section \<open>The round trip\<close>

lemma hex2_upper_hex:
  assumes "0 \<le> b" "b < 256"
  obtains c d where "hex2_upper b = [c, d]" "isHex (byte c)" "isHex (byte d)" "unhex (byte c) * 16 + unhex (byte d) = b"
    "byte c < 128" "byte d < 128"
proof -
  have digit: "isHex (byte (hex_digit_upper d)) \<and> unhex (byte (hex_digit_upper d)) = int d \<and> byte (hex_digit_upper d) < 128"
    if "d < 16" for d
    using that by (auto simp: hex_digit_upper_def byte_chr_byte isHex_def unhex_def)
  have "nat (b div 16) < 16" "nat (b mod 16) < 16" using assms by auto
  note digit[OF this(1)] digit[OF this(2)]
  then show ?thesis using assms by (intro that[of "hex_digit_upper (nat (b div 16))" "hex_digit_upper (nat (b mod 16))"])
      (auto simp: hex2_upper_def)
qed

lemma loop_one:
  assumes "drop i rs = c # cs" "length rs \<le> n"
  shows "i < length rs" "i < n" "rs ! i = c" "drop (i + 1) rs = cs"
proof -
  show "i < length rs" using assms(1) by (metis drop_all leI list.distinct(1))
  then show "i < n" "rs ! i = c" "drop (i + 1) rs = cs"
    using assms by (simp_all add: Cons_nth_drop_Suc[symmetric])
qed

lemma loop_percent:
  assumes "drop i rs = 37 # map byte (hex2_upper (byte c)) @ cs"
  shows "url_loop raw (length rs) rs i buf = url_loop raw (length rs) rs (i + 3) (buf @ [c])" "drop (i + 3) rs = cs"
proof -
  obtain u v where h: "hex2_upper (byte c) = [u, v]" "isHex (byte u)" "isHex (byte v)"
      "unhex (byte u) * 16 + unhex (byte v) = byte c"
    using hex2_upper_hex[OF byte_bounds[of c]] by metis
  note 0 = loop_one[OF assms[unfolded h(1)] order_refl, simplified]
  note 1 = loop_one[OF 0(4) order_refl, simplified]
  note 2 = loop_one[OF 1(4) order_refl, simplified]
  show "drop (i + 3) rs = cs" using 2(4) by (simp add: numeral_3_eq_3)
  have "rune_at rs (i + 1) = byte u" "rune_at rs (i + 2) = byte v" using 1 2 by (simp_all add: rune_at_def)
  then show "url_loop raw (length rs) rs i buf = url_loop raw (length rs) rs (i + 3) (buf @ [c])"
    using 0 h by (subst url_loop.simps) (simp add: Let_def)
qed

lemma loop_plain:
  assumes "drop i rs = byte c # cs" "byte c < 128" "c \<noteq> CHR ''%''" "c \<noteq> CHR ''+''"
  shows "url_loop raw (length rs) rs i buf = url_loop raw (length rs) rs (i + 1) (buf @ [c])"
proof -
  have "byte c \<noteq> 37" "byte c \<noteq> 43"
    using assms(3,4) byte_eq_iff[of c "CHR ''%''"] byte_eq_iff[of c "CHR ''+''"] by (auto simp: byte_def)
  moreover have "encode_rune (byte c) = [c]" using assms(2) byte_bounds[of c] by (simp add: encode_rune.simps)
  ultimately show ?thesis
    using loop_one[OF assms(1) order_refl] by (subst url_loop.simps) (simp add: Let_def)
qed

text \<open>An encoder that leaves a byte, writes \<open>+\<close> for a blank, or writes the percent form, and the decoder that undoes
  it.\<close>

definition undone :: "bool \<Rightarrow> (char \<Rightarrow> bytes) \<Rightarrow> bool" where
  "undone raw enc =
     (\<forall>c. enc c = percent c \<or>
        (enc c = [c] \<and> byte c < 128 \<and> c \<noteq> CHR ''%'' \<and> c \<noteq> CHR ''+'') \<or>
        (\<not> raw \<and> enc c = ''+'' \<and> c = CHR '' ''))"

lemma loop_encoded:
  assumes "undone raw enc" "drop i rs = map byte (concat (map enc s))"
  shows "url_loop raw (length rs) rs i buf = Some (buf @ s)"
  using assms(2)
proof (induction s arbitrary: i buf)
  case Nil
  then show ?case by (subst url_loop.simps) simp
next
  case (Cons c s)
  let ?rest = "map byte (concat (map enc s))"
  consider "enc c = percent c" | "enc c = [c]" "byte c < 128" "c \<noteq> CHR ''%''" "c \<noteq> CHR ''+''"
    | "\<not> raw" "enc c = ''+''" "c = CHR '' ''"
    using assms(1) unfolding undone_def by blast
  then show ?case
  proof cases
    case 1
    have d: "drop i rs = 37 # map byte (hex2_upper (byte c)) @ ?rest"
      using Cons.prems by (simp add: 1 percent_def byte_def)
    show ?thesis using Cons.IH[OF loop_percent(2)[OF d]] loop_percent(1)[OF d] by simp
  next
    case 2
    have d: "drop i rs = byte c # ?rest" using Cons.prems by (simp add: 2(1))
    show ?thesis using Cons.IH[OF loop_one(4)[OF d order_refl]] loop_plain[OF d 2(2-4)] by simp
  next
    case 3
    have d: "drop i rs = 43 # ?rest" using Cons.prems by (simp add: 3(2) byte_def)
    have "encode_rune 32 = [c]" using chr_byte_byte[of "CHR '' ''"] by (simp add: 3(3) encode_rune.simps byte_def)
    then have "url_loop raw (length rs) rs i buf = url_loop raw (length rs) rs (i + 1) (buf @ [c])"
      using loop_one[OF d order_refl] 3(1) by (subst url_loop.simps) (simp add: Let_def)
    then show ?thesis using Cons.IH[OF loop_one(4)[OF d order_refl]] by simp
  qed
qed

lemma percent_ascii: "d \<in> set (percent c) \<Longrightarrow> byte d < 128"
proof -
  obtain u v where "hex2_upper (byte c) = [u, v]" "byte u < 128" "byte v < 128"
    using hex2_upper_hex[OF byte_bounds[of c]] by metis
  then show "d \<in> set (percent c) \<Longrightarrow> byte d < 128" by (auto simp: percent_def byte_def)
qed

lemma encoded_ascii:
  assumes "undone raw enc"
  shows "\<forall>d \<in> set (concat (map enc s)). byte d < 128"
proof -
  have "byte d < 128" if d: "d \<in> set (enc c)" for c d
  proof -
    consider "enc c = percent c" | "enc c = [c]" "byte c < 128" | "enc c = ''+''"
      using assms unfolding undone_def by blast
    then show ?thesis using d percent_ascii by cases (auto simp: byte_def)
  qed
  then show ?thesis by auto
qed

lemma decode_encoded:
  assumes "undone raw enc"
  shows "urlDecode raw (concat (map enc s)) = Some s"
proof -
  have r: "go_runes (concat (map enc s)) = map byte (concat (map enc s))"
    by (rule go_runes_all_ascii[OF encoded_ascii[OF assms]])
  show ?thesis unfolding urlDecode_def r using loop_encoded[OF assms, of 0 "map byte (concat (map enc s))" s "[]"] by simp
qed

lemma undone_encoders: "undone False urlencode_byte" "undone True rawurlencode_byte"
  by (auto simp: undone_def urlencode_byte_def rawurlencode_byte_def url_plain_def Let_def byte_def)

section \<open>Properties\<close>

text \<open>C38. \<open>urldecode\<close> and \<open>rawurldecode\<close> give back every byte string from its \<open>urlencode\<close> and \<open>rawurlencode\<close>.\<close>

theorem url_roundtrip: "urlDecode False (urlencode s) = Some s \<and> urlDecode True (rawurlencode s) = Some s"
  unfolding urlencode_def rawurlencode_def using undone_encoders[THEN decode_encoded] by blast

text \<open>C39. The decoder panics exactly on the strings that hold a character of more than one byte (fewer runes than
  bytes), wherever it stands, with or without a percent sign: the loop runs over the number of bytes and indexes the
  runes.\<close>

theorem url_decode_panics:
  "(urlDecode raw s = None \<longleftrightarrow> length (go_runes s) < length s) \<and>
   urlDecode raw [CHR ''a'', CHR ''='', chr_byte 195, chr_byte 169] = None"
proof -
  have "length (go_runes [CHR ''a'', CHR ''='', chr_byte 195, chr_byte 169]) < 4" by code_simp
  then show ?thesis using urlDecode_None[of raw s] urlDecode_None[of raw "[CHR ''a'', CHR ''='', chr_byte 195, chr_byte 169]"] by simp
qed

end
