(* ===== verification/UuText.thy ===== *)
theory UuText
  imports GoStrings
begin

unbundle bit_operations_syntax

text \<open>
  Uuencoding, \<^verbatim>\<open>src/ext/standard/uuencode.go\<close>: \<open>convert_uuencode\<close> and \<open>convert_uudecode\<close>, byte by byte on 8-bit
  words as the source computes them.
\<close>

type_synonym w8 = "8 word"

definition to_w8 :: "char \<Rightarrow> w8" where
  "to_w8 c = word_of_int (byte c)"

definition of_w8 :: "w8 \<Rightarrow> char" where
  "of_w8 w = chr_byte (uint w)"

lemma of_to_w8 [simp]: "of_w8 (to_w8 c) = c"
  using byte_bounds[of c] by (simp add: of_w8_def to_w8_def uint_word_of_int)

lemma to_of_w8 [simp]: "to_w8 (of_w8 w) = w"
  using uint_lt2p[of w] by (simp add: of_w8_def to_w8_def byte_chr_byte)

section \<open>Encoding\<close>

text \<open>The four characters of three bytes, which are put together in an \<open>int32\<close>.\<close>

definition uu_char :: "w8 \<Rightarrow> w8" where
  "uu_char b = (let b = b AND 63 in (if b = 0 then 64 else b) + 32)"

definition uu_word :: "w8 \<Rightarrow> w8 \<Rightarrow> w8 \<Rightarrow> 32 word" where
  "uu_word a b c = push_bit 16 (ucast a) OR push_bit 8 (ucast b) OR ucast c"

definition uu_group :: "w8 \<Rightarrow> w8 \<Rightarrow> w8 \<Rightarrow> w8 list" where
  "uu_group a b c =
     (let n = uu_word a b c in map uu_char [ucast (drop_bit 18 n), ucast (drop_bit 12 n), ucast (drop_bit 6 n), ucast n])"

text \<open>The loop over a line of at most 45 bytes, three at a time; behind the end \<open>core.Idx\<close> gives zero.\<close>

fun uu_line :: "w8 list \<Rightarrow> w8 list" where
  "uu_line [] = []"
| "uu_line [a] = uu_group a 0 0"
| "uu_line [a, b] = uu_group a b 0"
| "uu_line (a # b # c # s) = uu_group a b c @ uu_line s"

function uu_lines :: "w8 list \<Rightarrow> w8 list" where
  "uu_lines s =
     (if s = [] then [96, 10]
      else (let x = min 45 (length s) in of_nat (x + 32) # uu_line (take x s) @ [10] @ uu_lines (drop x s)))"
  by auto
termination by (relation "measure length") (auto simp: Let_def)

declare uu_lines.simps [simp del]

definition convert_uuencode :: "bytes \<Rightarrow> bytes" where
  "convert_uuencode s = (if s = [] then map of_w8 [32, 10, 96, 10] else map of_w8 (uu_lines (map to_w8 s)))"

section \<open>Decoding\<close>

datatype decoded = Decoded bytes | Invalid | Panicked

definition PHP_UU_DEC :: "w8 \<Rightarrow> w8" where
  "PHP_UU_DEC b = (b - 32) AND 63"

definition uu_bytes :: "w8 \<Rightarrow> w8 \<Rightarrow> w8 \<Rightarrow> w8 \<Rightarrow> w8 list" where
  "uu_bytes a b c d =
     [push_bit 2 (PHP_UU_DEC a) OR drop_bit 4 (PHP_UU_DEC b),
      push_bit 4 (PHP_UU_DEC b) OR drop_bit 2 (PHP_UU_DEC c),
      push_bit 6 (PHP_UU_DEC c) OR PHP_UU_DEC d]"

text \<open>The loop over the groups of a line, of which \<open>k\<close> characters are left to read (\<open>ee - s\<close>), with what is left of
  the source. \<open>None\<close> is \<open>goto fail_err\<close>.\<close>

fun uu_groups :: "int \<Rightarrow> w8 list \<Rightarrow> w8 list \<Rightarrow> (w8 list \<times> w8 list) option" where
  "uu_groups k src dest =
     (if k \<le> 0 then Some (src, dest)
      else (case src of
          a # b # c # d # src \<Rightarrow> uu_groups (k - 4) src (dest @ uu_bytes a b c d)
        | _ \<Rightarrow> None))"

declare uu_groups.simps [simp del]

lemma uu_groups_shrinks: "uu_groups k src dest = Some (src', dest') \<Longrightarrow> length src' \<le> length src"
proof (induction k src dest rule: uu_groups.induct)
  case (1 k src dest)
  show ?case
    using 1(2) by (subst (asm) uu_groups.simps) (auto split: if_splits list.splits dest!: 1(1))
qed

text \<open>The length of a line in characters: \<open>floor(length * 1.33)\<close>, which is exact below 100, or 60.\<close>

definition uu_span :: "nat \<Rightarrow> nat" where
  "uu_span n = (if n = 45 then 60 else n * 133 div 100)"

text \<open>The loop over the lines; \<open>len\<close> is the length of the source and \<open>tot\<close> the number of bytes promised so far. The
  result is that number, what is left of the source, and the bytes written.\<close>

function uu_decode :: "nat \<Rightarrow> w8 list \<Rightarrow> nat \<Rightarrow> w8 list \<Rightarrow> (nat \<times> w8 list \<times> w8 list) option" where
  "uu_decode len src tot dest =
     (case src of
        [] \<Rightarrow> Some (tot, src, dest)
      | c # src \<Rightarrow>
          (let n = unat (PHP_UU_DEC c) in
           if n = 0 then Some (tot, src, dest)
           else if n > len then None
           else if uu_span n > length src then None
           else
             (case uu_groups (int (uu_span n)) src dest of
                None \<Rightarrow> None
              | Some (src', dest) \<Rightarrow>
                  if n < 45 then Some (tot + n, src', dest)
                  else uu_decode len (drop 1 src') (tot + n) dest)))"
  by pat_completeness auto
termination
  by (relation "measure (\<lambda>(len, src, tot, dest). length src)") (auto dest!: uu_groups_shrinks)

declare uu_decode.simps [simp del]

text \<open>What the code does when it has written fewer bytes than it promised; an index behind the source panics, and so
  does the slice \<open>dest[:totalLen]\<close> of a shorter buffer.\<close>

definition uu_rest :: "nat \<Rightarrow> w8 list \<Rightarrow> w8 list \<Rightarrow> w8 list option" where
  "uu_rest tot src dest =
     (if tot > length dest then
        (case src of
           a # b # more \<Rightarrow>
             (let one = dest @ [push_bit 2 (PHP_UU_DEC a) OR drop_bit 4 (PHP_UU_DEC b)] in
              if tot > 1 then
                (case more of
                   c # more \<Rightarrow>
                     (let two = one @ [push_bit 4 (PHP_UU_DEC b) OR drop_bit 2 (PHP_UU_DEC c)] in
                      if tot > 2 then
                        (case more of d # _ \<Rightarrow> Some (two @ [push_bit 6 (PHP_UU_DEC c) OR PHP_UU_DEC d]) | [] \<Rightarrow> None)
                      else Some two)
                 | [] \<Rightarrow> None)
              else Some one)
         | _ \<Rightarrow> None)
      else Some dest)"

definition convert_uudecode :: "bytes \<Rightarrow> decoded" where
  "convert_uudecode s =
     (if s = [] then Invalid
      else
        (let cap = (length s * 3 + 3) div 4 in
         case uu_decode (length s) (map to_w8 s) 0 [] of
           None \<Rightarrow> Invalid
         | Some (tot, src, dest) \<Rightarrow>
             (case uu_rest tot src dest of
                None \<Rightarrow> Panicked
              | Some dest \<Rightarrow>
                  if tot \<le> cap
                  then Decoded (map of_w8 (take tot (dest @ replicate (cap - length dest) 0))) else Panicked)))"

section \<open>A group\<close>

lemma uu_dec_char: "PHP_UU_DEC (uu_char b) = b AND 63"
  by (simp add: PHP_UU_DEC_def uu_char_def Let_def)

lemma w8_eqI:
  fixes u v :: w8
  assumes "\<forall>n \<in> {0, 1, 2, 3, 4, 5, 6, 7}. bit u n = bit v n"
  shows "u = v"
proof (rule bit_word_eqI)
  fix n assume "n < LENGTH(8)"
  then have "n \<in> {0, 1, 2, 3, 4, 5, 6, 7}" by auto
  then show "bit u n = bit v n" using assms by blast
qed

lemma w8_high [simp]: "8 \<le> n \<Longrightarrow> \<not> bit (w :: w8) n"
  using bit_imp_le_length[of w n] by auto

definition six :: "nat \<Rightarrow> 32 word \<Rightarrow> w8" where
  "six k n = ucast (drop_bit k n) AND 63"

lemma six_pack:
  "push_bit 2 (six 18 (uu_word a b c)) OR drop_bit 4 (six 12 (uu_word a b c)) = a"
  "push_bit 4 (six 12 (uu_word a b c)) OR drop_bit 2 (six 6 (uu_word a b c)) = b"
  "push_bit 6 (six 6 (uu_word a b c)) OR six 0 (uu_word a b c) = c"
  by (rule w8_eqI; (simp add: six_def uu_word_def bit_simps)?; (simp add: numeral_2_eq_2 numeral_3_eq_3)?)+

lemma uu_group_form:
  "uu_group a b c = map uu_char [ucast (drop_bit 18 (uu_word a b c)), ucast (drop_bit 12 (uu_word a b c)),
     ucast (drop_bit 6 (uu_word a b c)), ucast (uu_word a b c)]"
  by (simp add: uu_group_def Let_def)

lemma uu_groups_group:
  "0 < k \<Longrightarrow> uu_groups k (uu_group a b c @ src) dest = uu_groups (k - 4) src (dest @ [a, b, c])"
  using six_pack[of a b c] by (subst uu_groups.simps) (simp add: uu_group_form uu_bytes_def uu_dec_char six_def)

section \<open>A line\<close>

definition groups_of :: "nat \<Rightarrow> nat" where
  "groups_of n = (n + 2) div 3"

lemma groups_of_simps [simp]:
  "groups_of 0 = 0" "groups_of (Suc 0) = 1" "groups_of (Suc (Suc 0)) = 1" "groups_of (Suc (Suc (Suc n))) = Suc (groups_of n)"
proof -
  have "n + 5 = (n + 2) + 3" by simp
  then have "(n + 5) div 3 = Suc ((n + 2) div 3)" by (metis div_add_self2 Suc_eq_plus1 zero_neq_numeral)
  then show "groups_of (Suc (Suc (Suc n))) = Suc (groups_of n)" by (simp add: groups_of_def)
qed (simp_all add: groups_of_def)

lemma uu_line_length [simp]: "length (uu_line xs) = 4 * groups_of (length xs)"
  by (induction xs rule: uu_line.induct) (simp_all add: uu_group_form)

lemma uu_groups_line:
  assumes "k \<le> 4 * int (groups_of (length xs))" "4 * int (groups_of (length xs)) < k + 4"
  shows "\<exists>pad. uu_groups k (uu_line xs @ src) dest = Some (src, dest @ xs @ pad) \<and> length (xs @ pad) = 3 * groups_of (length xs)"
  using assms
proof (induction xs arbitrary: k dest rule: uu_line.induct)
  case 1
  then show ?case by (subst uu_groups.simps) (simp add: groups_of_def)
next
  case (2 a)
  then have "0 < k" "k - 4 \<le> 0" by (simp_all add: groups_of_def)
  then have "uu_groups (k - 4) src (dest @ [a, 0, 0]) = Some (src, dest @ [a, 0, 0])" by (subst uu_groups.simps) simp
  then show ?case using uu_groups_group[OF \<open>0 < k\<close>, of a 0 0 src dest] by (intro exI[of _ "[0, 0]"]) (simp add: groups_of_def)
next
  case (3 a b)
  then have "0 < k" "k - 4 \<le> 0" by (simp_all add: groups_of_def)
  then have "uu_groups (k - 4) src (dest @ [a, b, 0]) = Some (src, dest @ [a, b, 0])" by (subst uu_groups.simps) simp
  then show ?case using uu_groups_group[OF \<open>0 < k\<close>, of a b 0 src dest] by (intro exI[of _ "[0]"]) (simp add: groups_of_def)
next
  case (4 a b c s)
  have g: "groups_of (length (a # b # c # s)) = Suc (groups_of (length s))" by simp
  have k: "0 < k" using 4(3) unfolding g by simp
  have "\<exists>pad. uu_groups (k - 4) (uu_line s @ src) (dest @ [a, b, c]) = Some (src, (dest @ [a, b, c]) @ s @ pad) \<and>
      length (s @ pad) = 3 * groups_of (length s)"
    by (rule 4(1)) (use 4(2,3) g in simp_all)
  then show ?case using uu_groups_group[OF k, of a b c "uu_line s @ src" dest] g by auto
qed

lemma uu_span_groups:
  assumes "n \<le> 45"
  shows "uu_span n \<le> 4 * groups_of n" "4 * groups_of n < uu_span n + 4"
proof -
  define q r where "q = groups_of n" and "r = n * 133 div 100"
  have q: "3 * q \<le> n + 2" "n < 3 * q + 1" using div_mult_mod_eq[of "n + 2" 3] mod_less_divisor[of 3 "n + 2"]
    by (auto simp: q_def groups_of_def)
  have r: "100 * r \<le> n * 133" "n * 133 < 100 * r + 100" using div_mult_mod_eq[of "n * 133" 100] mod_less_divisor[of 100 "n * 133"]
    by (auto simp: r_def)
  have "r \<le> 4 * q" "4 * q < r + 4" using q r assms by linarith+
  then show "uu_span n \<le> 4 * groups_of n" "4 * groups_of n < uu_span n + 4"
    by (auto simp: uu_span_def q_def r_def groups_of_def)
qed

lemma uu_header: "n \<le> 45 \<Longrightarrow> unat (PHP_UU_DEC (of_nat (n + 32))) = n"
proof -
  assume n: "n \<le> 45"
  have "\<forall>n \<in> set [0..<46]. unat (PHP_UU_DEC (of_nat (n + 32))) = n" by code_simp
  then show ?thesis using n by simp
qed

section \<open>The round trip\<close>

lemma uu_lines_Cons:
  "s \<noteq> [] \<Longrightarrow> uu_lines s = of_nat (min 45 (length s) + 32) # uu_line (take (min 45 (length s)) s) @ 10 # uu_lines (drop (min 45 (length s)) s)"
  by (subst uu_lines.simps) (simp add: Let_def)

lemma uu_lines_length: "4 * length s \<le> 3 * length (uu_lines s)"
proof (induction s rule: uu_lines.induct)
  case (1 s)
  show ?case
  proof (cases "s = []")
    case False
    let ?x = "min 45 (length s)"
    have "4 * length (drop ?x s) \<le> 3 * length (uu_lines (drop ?x s))" using 1 False by simp
    moreover have "?x \<le> 3 * groups_of ?x" by (simp add: groups_of_def)
    ultimately show ?thesis using uu_lines_Cons[OF False] by simp
  qed simp
qed

lemma uu_decode_lines:
  assumes "length (uu_lines s) \<le> len"
  shows "\<exists>src pad. uu_decode len (uu_lines s) tot dest = Some (tot + length s, src, dest @ s @ pad)"
  using assms
proof (induction s arbitrary: tot dest rule: uu_lines.induct)
  case (1 s)
  show ?case
  proof (cases "s = []")
    case True
    have "PHP_UU_DEC 96 = 0" by code_simp
    then show ?thesis using True by (subst uu_decode.simps) (simp add: uu_lines.simps)
  next
    case False
    define x where "x = min 45 (length s)"
    let ?rest = "10 # uu_lines (drop x s)"
    have x: "x \<le> 45" "0 < x" using False by (simp_all add: x_def)
    have lines: "uu_lines s = of_nat (x + 32) # uu_line (take x s) @ ?rest" using uu_lines_Cons[OF False] by (simp add: x_def)
    have n: "unat (PHP_UU_DEC (of_nat (x + 32))) = x" by (rule uu_header[OF x(1)])
    note span = uu_span_groups[OF x(1)]
    have lx: "length (take x s) = x" by (simp add: x_def)
    obtain pad where g: "uu_groups (int (uu_span x)) (uu_line (take x s) @ ?rest) dest = Some (?rest, dest @ take x s @ pad)"
        "length (take x s @ pad) = 3 * groups_of x"
      using uu_groups_line[of "int (uu_span x)" "take x s" ?rest dest] span unfolding lx by auto
    have fits: "\<not> length (uu_line (take x s) @ ?rest) < uu_span x" using span(1) lx by simp
    have "4 * length s \<le> 3 * len" using uu_lines_length[of s] 1(2) by simp
    then have small: "\<not> len < x" by (simp add: x_def)
    have step: "uu_decode len (uu_lines s) tot dest =
        (if x < 45 then Some (tot + x, ?rest, dest @ take x s @ pad)
         else uu_decode len (uu_lines (drop x s)) (tot + x) (dest @ take x s @ pad))"
      unfolding lines
      by (subst uu_decode.simps)
        (simp only: list.case Let_def n fits small x(2)[THEN less_not_refl2] if_False g(1) option.case prod.case drop_Suc_Cons drop_0 One_nat_def)
    show ?thesis
    proof (cases "x < 45")
      case True
      then have "take x s = s" "x = length s" by (simp_all add: x_def)
      then show ?thesis using step True by auto
    next
      case full: False
      then have x45: "x = 45" "45 \<le> length s" using x(1) by (simp_all add: x_def)
      then have "pad = []" using g(2) lx by (simp add: groups_of_def)
      moreover have "length (uu_lines (drop x s)) \<le> len" using 1(2) lines by simp
      moreover have join: "take 45 s @ drop 45 s @ p = s @ p" for p using append_take_drop_id[of 45 s] by (metis append.assoc)
      ultimately show ?thesis
        using 1(1)[OF False refl, of "tot + x" "dest @ take x s"] step x45 by (auto simp: join simp flip: x_def)
    qed
  qed
qed

lemma map_w8 [simp]: "map of_w8 (map to_w8 s) = s"
  by (simp add: comp_def)

lemma map_w8' [simp]: "map to_w8 (map of_w8 u) = u"
  by (simp add: comp_def)

lemma uudecode_uuencode: "convert_uudecode (convert_uuencode s) = Decoded s"
proof (cases "s = []")
  case True
  have "convert_uudecode (map of_w8 [32, 10, 96, 10]) = Decoded []" by code_simp
  then show ?thesis by (simp add: True convert_uuencode_def)
next
  case False
  define u where "u = uu_lines (map to_w8 s)"
  obtain src pad where d: "uu_decode (length u) u 0 [] = Some (length s, src, map to_w8 s @ pad)"
    using uu_decode_lines[of "map to_w8 s" "length u" 0 "[]"] by (auto simp: u_def)
  have e: "convert_uuencode s = map of_w8 u" "map of_w8 u \<noteq> []"
    using False uu_lines_Cons[of "map to_w8 s"] by (simp_all add: convert_uuencode_def u_def)
  have "length s \<le> (length u * 3 + 3) div 4" using uu_lines_length[of "map to_w8 s"] by (simp add: u_def)
  then show ?thesis
    using d e(2) by (simp add: e(1) convert_uudecode_def uu_rest_def Let_def comp_def)
qed

section \<open>Properties\<close>

text \<open>C40. \<open>convert_uudecode\<close> gives back every byte string from its \<open>convert_uuencode\<close>, the empty one and lines of
  every length included.\<close>

theorem uu_roundtrip: "convert_uudecode (convert_uuencode s) = Decoded s"
  by (rule uudecode_uuencode)

end
