(* ===== verification/Spec2Isabelle.thy ===== *)
theory Spec2Isabelle
  imports LexRun HashIterProps ZArrayGraph VmSafe SplProps SplDll UrlText UuText
begin

text \<open>
  A verification development for Goro, a PHP engine in Go.

  \<^bold>\<open>The program.\<close> A script is cut into tokens (\<^verbatim>\<open>src/core/tokenizer\<close>), parsed into a syntax tree
  (\<^verbatim>\<open>src/core/compiler\<close>), and run, either by walking the tree or, for the bodies of functions that the emitter knows
  (\<^verbatim>\<open>src/core/vm/vmcompiler\<close>), by a bytecode machine (\<^verbatim>\<open>src/core/vm\<close>). Both work on the values of
  \<^verbatim>\<open>src/core/phpv\<close>: cells (\<open>ZVal\<close>), arrays (\<open>ZArray\<close> over the ordered hash table \<open>ZHashTable\<close>), objects
  (\<^verbatim>\<open>src/core/phpobj\<close>), and report the memory they take to the request (\<^verbatim>\<open>src/core/phpctx\<close>). The extensions of
  \<^verbatim>\<open>src/ext\<close> are the functions and classes of PHP's library on top of these values.

  \<^bold>\<open>Conventions.\<close> \<open>GoBase\<close> and \<open>GoStrings\<close> are the prelude: bytes, UTF-8, decimal and hexadecimal, the functions of
  the Go library that the models call. Pure code is a function; a method is a function from the state (a record) to the
  new state; shared pointers are addresses of an explicit heap (\<open>PhpHeap\<close>). Errors, panics and exceptions are values:
  \<open>go\<close> and sums for the hash table, \<open>verr\<close> and the outcomes \<open>Raised\<close> and \<open>Crash\<close> for the machine, \<open>None\<close> for the panic
  of \<open>urlDecode\<close>. A loop or recursion that might not end is a \<open>partial_function (option)\<close>, where \<open>None\<close> is not
  returning, and that it returns is part of its theorem; the exceptions are named with their fuel below. PHP integers
  are 64-bit words where they can wrap around, or mathematical integers kept in range by the code itself.

  \<^bold>\<open>Tokenizer\<close> (\<^verbatim>\<open>src/core/tokenizer\<close>). \<open>TokItem\<close> has the tokens, keywords and operators of \<^verbatim>\<open>item.go\<close>, \<^verbatim>\<open>label.go\<close>,
  \<^verbatim>\<open>operator.go\<close>; \<open>LexCore\<close> the state and the methods of \<^verbatim>\<open>lexer.go\<close>; \<open>LexStates\<close> the state functions (\<^verbatim>\<open>text.go\<close>,
  \<^verbatim>\<open>php.go\<close>, \<^verbatim>\<open>comment.go\<close>, \<^verbatim>\<open>cast.go\<close>, \<^verbatim>\<open>number.go\<close>, \<^verbatim>\<open>string.go\<close>, \<^verbatim>\<open>heredoc.go\<close>, \<^verbatim>\<open>label.go\<close>) and the run.
  \<open>LexInvariant\<close> says what lexer and source text have to do with each other, \<open>LexMethods\<close> and \<open>LexStep\<close> that every
  method and every call of a state function keeps it and makes progress, \<open>LexRun\<close> what follows for a whole file: the
  items are cut out of the source in order with the right positions, and the lexer returns on every source without a
  single quote. The loops take fuel, \<open>lex_fuel\<close>: a fixed multiple of the length of the source, which the measure
  \<open>lx_measure\<close> shows to be enough. An unterminated single-quoted string is the one way to loop for ever, and does,
  whatever the fuel.

  \<^bold>\<open>Memory\<close> (\<^verbatim>\<open>src/core/phpctx/memory.go\<close>). \<open>MemMgr\<close>: the counters of a request on 64-bit words, and the locale
  \<open>mem_tracker\<close> of what a hash table asks of them.

  \<^bold>\<open>Hash table\<close> (\<^verbatim>\<open>src/core/phpv/hashtable.go\<close>, \<^verbatim>\<open>zval.go\<close>). \<open>PhpHeap\<close> has values, cells and stores, \<open>HashTable\<close>
  the operations: a doubly linked list of nodes in insertion order, two maps that index it, copies that share both until
  one side writes. \<open>HashInv\<close> defines what a table shows (\<open>ht_view\<close>, a list of keys and values) and the invariant of the
  whole heap; \<open>HashCopy\<close>, \<open>HashWrite\<close> and \<open>HashOps\<close> prove every operation against that list; \<open>HashShare\<close> puts the
  writers together as one kind of step, \<open>HashReach\<close> the heaps that can be reached; \<open>HashClient\<close> is the interface of an
  ordered map as a locale, which the table provides. \<open>HashProps\<close> holds the properties, with two operations that break
  the promises of the others (\<open>MergeTable\<close>, \<open>ResetIntKeys\<close>). \<open>HashIter\<close> and \<open>HashIterProps\<close> are the iterators
  (\<^verbatim>\<open>hashtable-iter.go\<close>): a loop is a fold over the entries, also when entries are removed under it.

  \<^bold>\<open>Arrays\<close> (\<^verbatim>\<open>src/core/phpv/zarray.go\<close>). \<open>ZArray\<close> and \<open>ZArrayProps\<close>: which PHP value is which key, and the operations
  behind \<open>$a[k]\<close>; \<open>ZArrayGraph\<close>: the search for an array that contains itself, which finds exactly the cycles.

  \<^bold>\<open>Comparison\<close> (\<^verbatim>\<open>src/core/phpv/comparison.go\<close>, \<^verbatim>\<open>zstring.go\<close>). \<open>PhpCompare\<close> and \<open>PhpCompareProps\<close>: loose and strict
  comparison of scalars, numeric strings and arrays; floating point is a parameter.

  \<^bold>\<open>Bytecode machine\<close> (\<^verbatim>\<open>src/core/vm\<close>). \<open>VmInst\<close> encodes instructions; \<open>VmArith\<close> has the integer fast paths;
  \<open>VmMachine\<close> the functions, frames and handlers, with the rest of the engine (operators on values that are not
  integers, calls, iterators, the variables of the context, output) as a record of functions, the \<open>host\<close>; \<open>VmStep\<close> one
  instruction, the search of handlers, and the run \<open>vm_exec\<close>. \<open>VmEmit\<close> is the emitter with its syntax tree.
  \<^item> Correctness: \<open>VmEval\<close> and \<open>VmSem\<close> say what expressions and statements mean, without code, stack or jumps;
    \<open>VmRuns\<close> and \<open>VmCorrect\<close> prove the code of expressions, \<open>VmFlow\<close>, \<open>VmPlace\<close>, \<open>VmStmt\<close> and \<open>VmLoops\<close> that of
    statements with the jumps that are patched later, \<open>VmSound\<close> and \<open>VmProps\<close> the whole body: on every host, the machine
    ends with the outcome and the world of the meaning. The meaning of a loop takes fuel \<open>k\<close> (turns); the theorem is for
    every \<open>k\<close> for which the meaning has a value, and gives a run that returns. \<open>switch\<close> and \<open>try\<close> are outside this
    theorem, and so are the nodes of \<open>VmGaps\<close>: the short ternary, the coalescing assignment and an exception that leaves
    a \<open>foreach\<close>, whose code does something else, which \<open>VmGaps\<close> proves.
  \<^item> Safety: \<open>VmType\<close> is a verifier of bytecode which all emitted code passes, \<open>switch\<close> and \<open>try\<close> included; \<open>VmSafe\<close>
    shows that a run of verified code never leaves the code, the constants, the locals or the handlers, on any host: it
    can only crash on the operand stack or the iterator stack. The code must have fewer than 2^31 instructions, the
    range of a jump.

  \<^bold>\<open>SPL\<close> (\<^verbatim>\<open>src/ext/spl/heap.go\<close>, \<^verbatim>\<open>priority_queue.go\<close>). \<open>GoHeap\<close> is Go's \<^verbatim>\<open>container/heap\<close> over an order given
  by a locale; \<open>SplHeap\<close> and \<open>SplQueue\<close> are the classes on top of it, whose comparison may be a PHP method that throws;
  \<open>SplOrder\<close> shows that a heap sorts, stably; \<open>SplSpec\<close> the abstract queue and the refinement; \<open>SplProps\<close> interprets the
  locales on the comparison of PHP integers and has the properties, the reversed order of subclasses among them. \<open>SplDll\<close> has the lists, stacks and queues of
  \<^verbatim>\<open>doubly_linked_list.go\<close> with their traversal.

  \<^bold>\<open>Text\<close> (\<^verbatim>\<open>src/ext/standard/urlenc.go\<close>, \<^verbatim>\<open>hex.go\<close>, \<^verbatim>\<open>uuencode.go\<close>). \<open>UrlText\<close> and \<open>UuText\<close>: encoders and decoders,
  their round trips, and the strings on which the URL decoder panics.

  \<^bold>\<open>Properties.\<close> Each is announced by a text that begins with its number. What its hypotheses need is given by the
  theorem behind it whose name ends in \<open>_witness\<close>, on a concrete input.

  \<^bold>\<open>Not modelled.\<close>
  \<^item> The parser and the tree walkers of \<^verbatim>\<open>src/core/compiler\<close>: 32,000 lines over every other layer. The trees of \<open>VmEmit\<close>
    are the part that the emitter reads, with every other node as \<open>Opaque\<close>, on which the modelled emitter gives up.
  \<^item> Objects and classes, contexts and output: hosts and parameters here. With them are left out the opcodes for array
    elements, properties, references, closures, generators and declarations, comparison of objects, and conversions
    between arrays and objects.
  \<^item> Concurrency: the lexer runs in a goroutine of its own and sends its items over a channel; the model has the list of
    items sent. Cancelling it and read errors are left out. The memory counters are atomic in the source and single
    steps here.
  \<^item> Floating point, except for its conversion to integers.
  \<^item> Streams, file system, network, processes, databases, images, and the extensions that wrap packages of Go or of third
    parties; the parsers of configuration, dates, JSON and regular expressions; the server interfaces and tools.
\<close>

end
